(* ===== verification/Prelude.thy ===== *)
theory Prelude
  imports Main "HOL-Library.Word"
begin

text \<open>
  Shared material of the development: the machine types of the rv32 kernel, the control
  structure of its C code as a resumption monad over a state \<open>'s\<close>, and generic lemmas on
  runs, lists, searches and words.
\<close>

unbundle bit_operations_syntax

named_theorems kexec \<open>equations that execute kernel code symbolically\<close>

section \<open>Machine types\<close>

type_synonym u8 = "8 word"    \<comment> \<open>\<open>unsigned char\<close>; plain \<open>char\<close> is unsigned on RISC-V too\<close>
type_synonym u16 = "16 word"  \<comment> \<open>\<open>unsigned short\<close>\<close>
type_synonym u32 = "32 word"  \<comment> \<open>\<open>int\<close>, \<open>long\<close>, \<open>unsigned long\<close> and addresses (ilp32)\<close>

section \<open>Control structure of kernel code\<close>

text \<open>
  A run of kernel code from a state ends in one of these ways. \<open>Done\<close>: the function
  returns. \<open>Panic\<close>: \<open>panic()\<close> was called, which never returns. \<open>Exit\<close>: control
  was passed to \<open>do_exit()\<close> of the running task, which never returns. \<open>Sleep\<close>: the
  task gave up the processor; the continuation receives the state the other tasks leave
  behind. The kernel is not preemptible, so these are the only points where other tasks
  change the state. \<open>User\<close>: the kernel stack was abandoned and the task entered user
  mode (the jump to \<open>ret_from_trap\<close> at the end of \<open>do_execve\<close>). \<open>Fault\<close>: the C code has no defined meaning (a null pointer is
  dereferenced, an index is out of range). \<open>NoFuel\<close>: a loop was cut off.
\<close>

datatype ('s, 'a) prog =
    Done 'a 's
  | Panic string 's
  | Exit u32 's
  | Sleep 's "'s \<Rightarrow> ('s, 'a) prog"
  | User 's
  | Fault 's
  | NoFuel

primrec bindp :: "('s, 'a) prog \<Rightarrow> ('a \<Rightarrow> 's \<Rightarrow> ('s, 'b) prog) \<Rightarrow> ('s, 'b) prog" where
  "bindp (Done a s) g = g a s"
| "bindp (Panic m s) g = Panic m s"
| "bindp (Exit c s) g = Exit c s"
| "bindp (Sleep s k) g = Sleep s (\<lambda>s'. bindp (k s') g)"
| "bindp (User s) g = User s"
| "bindp (Fault s) g = Fault s"
| "bindp NoFuel g = NoFuel"

text \<open>
  Kernel code reads the fuel that bounds its unbounded loops, and transforms the state.
\<close>

type_synonym ('s, 'a) kern = "nat \<Rightarrow> 's \<Rightarrow> ('s, 'a) prog"

definition ret :: "'a \<Rightarrow> ('s, 'a) kern" where
  "ret a = (\<lambda>n s. Done a s)"

definition bind :: "('s, 'a) kern \<Rightarrow> ('a \<Rightarrow> ('s, 'b) kern) \<Rightarrow> ('s, 'b) kern" where
  "bind f g = (\<lambda>n s. bindp (f n s) (\<lambda>a s'. g a n s'))"

definition seq :: "('s, unit) kern \<Rightarrow> ('s, 'b) kern \<Rightarrow> ('s, 'b) kern" where
  "seq f g = bind f (\<lambda>_. g)"

definition gets :: "('s \<Rightarrow> 'a) \<Rightarrow> ('s, 'a) kern" where
  "gets f = (\<lambda>n s. Done (f s) s)"

definition modify :: "('s \<Rightarrow> 's) \<Rightarrow> ('s, unit) kern" where
  "modify f = (\<lambda>n s. Done () (f s))"

definition panic :: "string \<Rightarrow> ('s, 'a) kern" where
  "panic m = (\<lambda>n s. Panic m s)"

definition exit_task :: "u32 \<Rightarrow> ('s, 'a) kern" where
  "exit_task c = (\<lambda>n s. Exit c s)"

definition fault :: "('s, 'a) kern" where
  "fault = (\<lambda>n s. Fault s)"

definition skip :: "('s, unit) kern" where
  "skip = ret ()"

definition whenk :: "bool \<Rightarrow> ('s, unit) kern \<Rightarrow> ('s, unit) kern" where
  "whenk b f = (if b then f else skip)"

definition yieldk :: "('s, unit) kern" where
  "yieldk = (\<lambda>n s. Sleep s (\<lambda>s'. Done () s'))"

text \<open>Dereferencing a pointer that may be null.\<close>

definition deref :: "'p option \<Rightarrow> ('p \<Rightarrow> ('s, 'a) kern) \<Rightarrow> ('s, 'a) kern" where
  "deref p f = (case p of None \<Rightarrow> fault | Some i \<Rightarrow> f i)"

text \<open>
  Loops. \<open>for_each\<close> runs a body over a fixed list of indices. \<open>loop_fuel\<close> repeats a
  body that answers with a new loop value (\<open>Inl\<close>) or leaves the loop (\<open>Inr\<close>).
\<close>

primrec for_each :: "'i list \<Rightarrow> ('i \<Rightarrow> ('s, unit) kern) \<Rightarrow> ('s, unit) kern" where
  "for_each [] f = skip"
| "for_each (i # is) f = seq (f i) (for_each is f)"

text \<open>
  \<open>for_ret\<close> is a loop over indices whose body may return from the function (\<open>Some r\<close>);
  \<open>d\<close> is the result when the loop runs to its end.
\<close>

primrec for_ret :: "'i list \<Rightarrow> ('i \<Rightarrow> ('s, 'a option) kern) \<Rightarrow> ('s, 'a) kern \<Rightarrow> ('s, 'a) kern" where
  "for_ret [] f d = d"
| "for_ret (i # is) f d =
     bind (f i) (\<lambda>r. case r of None \<Rightarrow> for_ret is f d | Some a \<Rightarrow> ret a)"

primrec loop_fuel :: "nat \<Rightarrow> ('x \<Rightarrow> ('s, 'x + 'a) kern) \<Rightarrow> 'x \<Rightarrow> ('s, 'a) kern" where
  "loop_fuel 0 f x = (\<lambda>n s. NoFuel)"
| "loop_fuel (Suc k) f x =
     bind (f x) (\<lambda>r. case r of Inl x' \<Rightarrow> loop_fuel k f x' | Inr a \<Rightarrow> ret a)"

definition loop :: "('x \<Rightarrow> ('s, 'x + 'a) kern) \<Rightarrow> 'x \<Rightarrow> ('s, 'a) kern" where
  "loop f x = (\<lambda>n s. loop_fuel n f x n s)"

subsection \<open>Symbolic execution\<close>

lemma ret_exec [kexec]: "ret a n s = Done a s"
  by (simp add: ret_def)

lemma bind_exec [kexec]: "bind f g n s = bindp (f n s) (\<lambda>a s'. g a n s')"
  by (simp add: bind_def)

lemma seq_exec [kexec]: "seq f g n s = bindp (f n s) (\<lambda>a s'. g n s')"
  by (simp add: seq_def bind_def)

lemma gets_exec [kexec]: "gets f n s = Done (f s) s"
  by (simp add: gets_def)

lemma modify_exec [kexec]: "modify f n s = Done () (f s)"
  by (simp add: modify_def)

lemma panic_exec [kexec]: "panic m n s = Panic m s"
  by (simp add: panic_def)

lemma exit_task_exec [kexec]: "exit_task c n s = Exit c s"
  by (simp add: exit_task_def)

lemma fault_exec [kexec]: "fault n s = Fault s"
  by (simp add: fault_def)

lemma skip_exec [kexec]: "skip n s = Done () s"
  by (simp add: skip_def ret_def)

lemma whenk_exec [kexec]: "whenk b f n s = (if b then f n s else Done () s)"
  by (simp add: whenk_def skip_def ret_def)

lemma yieldk_exec [kexec]: "yieldk n s = Sleep s (\<lambda>s'. Done () s')"
  by (simp add: yieldk_def)

lemma deref_exec [kexec]:
  "deref None f n s = Fault s" "deref (Some i) f n s = f i n s"
  by (simp_all add: deref_def fault_def)

lemma if_exec [kexec]: "(if b then f else g) n s = (if b then f n s else g n s)"
  by simp

lemma bind_Done: "f n s = Done a t \<Longrightarrow> g a n t = r \<Longrightarrow> bind f g n s = r"
  by (simp add: kexec)

lemma seq_Done: "f n s = Done () t \<Longrightarrow> g n t = r \<Longrightarrow> seq f g n s = r"
  by (simp add: kexec)

lemma bindp_assoc: "bindp (bindp p g) h = bindp p (\<lambda>a s'. bindp (g a s') h)"
  by (induction p) simp_all

lemma for_each_append:
  "for_each (is @ js) f n s = bindp (for_each is f n s) (\<lambda>_ s'. for_each js f n s')"
  by (induction "is" arbitrary: s) (simp_all add: kexec bindp_assoc)

lemma bindp_Done_iff: "bindp p g = Done b t \<longleftrightarrow> (\<exists>a s. p = Done a s \<and> g a s = Done b t)"
  by (cases p) auto

section \<open>Runs that return\<close>

text \<open>\<open>returns p Q\<close>: the run returns, without sleeping, and the outcome satisfies \<open>Q\<close>.\<close>

definition returns :: "('s, 'a) prog \<Rightarrow> ('a \<Rightarrow> 's \<Rightarrow> bool) \<Rightarrow> bool" where
  "returns p Q \<longleftrightarrow> (\<exists>a s. p = Done a s \<and> Q a s)"

lemma returns_Done [simp]: "returns (Done a s) Q \<longleftrightarrow> Q a s"
  by (simp add: returns_def)

lemma returns_bindp:
  "returns p Q \<Longrightarrow> (\<And>a s. Q a s \<Longrightarrow> returns (g a s) Q') \<Longrightarrow> returns (bindp p g) Q'"
  by (auto simp: returns_def)

lemma returns_mono: "returns p Q \<Longrightarrow> (\<And>a s. Q a s \<Longrightarrow> Q' a s) \<Longrightarrow> returns p Q'"
  by (auto simp: returns_def)

lemma returns_for_each:
  assumes "P 0 s"
    and "\<And>k s. k < length is \<Longrightarrow> P k s \<Longrightarrow> returns (f (is ! k) n s) (\<lambda>_ s'. P (Suc k) s')"
  shows "returns (for_each is f n s) (\<lambda>_ s'. P (length is) s')"
  using assms
proof (induction "is" arbitrary: P s)
  case Nil
  then show ?case by (simp add: kexec)
next
  case (Cons i "is")
  have "returns (f i n s) (\<lambda>_ s'. P (Suc 0) s')"
    using Cons.prems(2) [of 0 s] Cons.prems(1) by simp
  moreover have "returns (for_each is f n s') (\<lambda>_ t. P (length (i # is)) t)"
    if "P (Suc 0) s'" for s'
    using Cons.IH [of "\<lambda>k. P (Suc k)" s'] Cons.prems(2) that by fastforce
  ultimately show ?case by (auto simp: seq_exec intro: returns_bindp)
qed

lemma returns_for_ret:
  assumes "P 0 s"
    and "\<And>k s. k < length is \<Longrightarrow> P k s \<Longrightarrow>
           returns (f (is ! k) n s) (\<lambda>r s'. case r of None \<Rightarrow> P (Suc k) s' | Some a \<Rightarrow> Q a s')"
    and "\<And>s. P (length is) s \<Longrightarrow> returns (d n s) Q"
  shows "returns (for_ret is f d n s) Q"
  using assms
proof (induction "is" arbitrary: P s)
  case Nil
  then show ?case by simp
next
  case (Cons i "is")
  have "returns (f i n s) (\<lambda>r s'. case r of None \<Rightarrow> P (Suc 0) s' | Some a \<Rightarrow> Q a s')"
    using Cons.prems(2) [of 0 s] Cons.prems(1) by simp
  moreover have "returns (for_ret is f d n s') Q" if "P (Suc 0) s'" for s'
    using Cons.IH [of "\<lambda>k. P (Suc k)" s'] Cons.prems(2,3) that by fastforce
  ultimately show ?case
    by (auto simp: kexec intro!: returns_bindp split: option.splits)
qed

section \<open>Linked lists\<close>

text \<open>\<open>chain nxt p is\<close>: the list that starts at pointer \<open>p\<close> has the elements \<open>is\<close>.\<close>

primrec chain :: "(nat \<Rightarrow> nat option) \<Rightarrow> nat option \<Rightarrow> nat list \<Rightarrow> bool" where
  "chain nxt p [] \<longleftrightarrow> p = None"
| "chain nxt p (i # is) \<longleftrightarrow> p = Some i \<and> chain nxt (nxt i) is"

lemma chain_cong: "(\<And>i. i \<in> set is \<Longrightarrow> nxt i = nxt' i) \<Longrightarrow> chain nxt p is = chain nxt' p is"
  by (induction "is" arbitrary: p) auto

lemma chain_insert:
  "chain nxt p (xs @ t # ys) \<Longrightarrow> distinct (xs @ t # ys) \<Longrightarrow> r \<notin> set (xs @ t # ys) \<Longrightarrow>
   chain (nxt(r := nxt t, t := Some r)) p (xs @ t # r # ys)"
proof (induction xs arbitrary: p)
  case Nil
  have "chain (nxt(r := nxt t, t := Some r)) (nxt t) ys = chain nxt (nxt t) ys"
    using Nil.prems by (intro chain_cong) auto
  with Nil show ?case by (simp add: fun_upd_def)
qed auto

lemma chain_unique: "chain nxt p is \<Longrightarrow> chain nxt p js \<Longrightarrow> is = js"
proof (induction "is" arbitrary: p js)
  case Nil
  then show ?case by (cases js) auto
next
  case (Cons i "is")
  then show ?case by (cases js) auto
qed

section \<open>Searches\<close>

text \<open>
  The search loops of the kernel: the first index from \<open>i\<close>, among \<open>k\<close> of them, that
  satisfies a condition.
\<close>

primrec search :: "(nat \<Rightarrow> bool) \<Rightarrow> nat \<Rightarrow> nat \<Rightarrow> nat option" where
  "search P i 0 = None"
| "search P i (Suc k) = (if P i then Some i else search P (Suc i) k)"

lemma search_unfold:
  "search P i k = (if k = 0 then None else if P i then Some i else search P (Suc i) (k - 1))"
  by (cases k) simp_all

lemma search_Some_iff:
  "search P i k = Some j \<longleftrightarrow> i \<le> j \<and> j < i + k \<and> P j \<and> (\<forall>l. i \<le> l \<and> l < j \<longrightarrow> \<not> P l)"
proof (induction k arbitrary: i)
  case 0
  then show ?case by auto
next
  case (Suc k)
  show ?case
  proof (cases "P i")
    case True
    then show ?thesis by (auto simp: le_less)
  next
    case False
    have "i \<le> l \<and> l < j \<longleftrightarrow> (l = i \<and> i < j) \<or> (Suc i \<le> l \<and> l < j)" for l
      by auto
    with False have "(\<forall>l. i \<le> l \<and> l < j \<longrightarrow> \<not> P l) \<longleftrightarrow> (\<forall>l. Suc i \<le> l \<and> l < j \<longrightarrow> \<not> P l)"
      by auto
    moreover have "P j \<Longrightarrow> i \<le> j \<longleftrightarrow> Suc i \<le> j"
      using False le_less by (cases "i = j") auto
    ultimately show ?thesis using False Suc.IH [of "Suc i"] by auto
  qed
qed

lemma search_None_iff: "search P i k = None \<longleftrightarrow> (\<forall>j. i \<le> j \<and> j < i + k \<longrightarrow> \<not> P j)"
proof (induction k arbitrary: i)
  case 0
  then show ?case by auto
next
  case (Suc k)
  have "i \<le> j \<and> j < i + Suc k \<longleftrightarrow> j = i \<or> (Suc i \<le> j \<and> j < Suc i + k)" for j
    by auto
  then show ?case by (auto simp: Suc.IH)
qed

section \<open>Words\<close>

lemma sint_unat: "unat (w :: u32) < 2147483648 \<Longrightarrow> sint w = int (unat w)"
proof -
  assume lt: "unat w < 2147483648"
  have eq: "signed_take_bit 31 (int k) = int k" if "k < 2147483648" for k
    by (rule signed_take_bit_int_eq_self) (use that in simp_all)
  have "sint w = signed_take_bit 31 (int (unat w))" by (simp add: sint_uint)
  also have "\<dots> = int (unat w)" by (rule eq [OF lt])
  finally show ?thesis .
qed

lemma unat_add_of_nat:
  "unat (a :: u32) + m < 4294967296 \<Longrightarrow> unat (a + word_of_nat m) = unat a + m"
  by (simp add: unat_word_ariths unat_of_nat)

lemma ucast_u16: "ucast (ucast (d :: u16) :: u32) = d"
  by (rule bit_word_eqI) (simp add: bit_simps)

text \<open>Reading a 32-bit word as a signed number.\<close>

lemma sint_u32: "sint (w :: u32) = (if uint w < 2147483648 then uint w else uint w - 4294967296)"
proof -
  have eq: "sint w = (uint w + 2147483648) mod 4294967296 - 2147483648"
    by (simp add: sint_uint signed_take_bit_eq_take_bit_shift take_bit_eq_mod)
  have range: "0 \<le> uint w" "uint w < 4294967296" using uint_bounded [of w] by simp_all
  show ?thesis
  proof (cases "uint w < 2147483648")
    case True
    then show ?thesis using range eq by simp
  next
    case False
    have "uint w + 2147483648 = (uint w - 2147483648) + 4294967296" by simp
    then have "(uint w + 2147483648) mod 4294967296 = uint w - 2147483648"
      using False range by (simp only: mod_add_self2) simp
    then show ?thesis using False eq by simp
  qed
qed

lemma sless_0_iff: "(w :: u32) <s 0 \<longleftrightarrow> 2147483648 \<le> unat w"
proof -
  have "int (unat w) < int 2147483648 \<longleftrightarrow> uint w < 2147483648" by simp
  then have "uint w < 2147483648 \<longleftrightarrow> unat w < 2147483648" unfolding of_nat_less_iff by simp
  moreover have "0 \<le> uint w" "uint w < 4294967296" using uint_bounded [of w] by simp_all
  ultimately show ?thesis unfolding word_sless_alt sint_u32 by (simp add: not_less)
qed

end
