(* ===== verification/Judgement.thy ===== *)
theory Judgement
  imports Prelude
begin

text \<open>
  A rely-guarantee reading of kernel code. A run is cut into segments by the points where the
  task gives up the processor; a contract says what holds at those points, what a segment may do
  to the other tasks and what they may do while the task sleeps. The locale \<open>upkeep\<close> has one
  rule per construct of the kernel's control structure.
\<close>

named_theorems upkeep_intros \<open>kernel code that keeps a contract, one rule per construct or operation\<close>

section \<open>Contracts\<close>

text \<open>
  \<open>c_inv\<close> holds whenever the processor is given up, and \<open>c_next\<close> says of that state that the
  task it names may run; \<open>c_guar\<close> relates the two ends of a segment, \<open>c_rely\<close> the state in
  which a task falls asleep to the one in which it wakes up. \<open>c_panic\<close> are the panics that may
  happen, \<open>c_leave\<close> holds where the task leaves the run for \<open>do_exit\<close> or for user mode.
\<close>

record 's contract =
  c_inv :: "'s \<Rightarrow> bool"
  c_next :: "'s \<Rightarrow> bool"
  c_rely :: "'s \<Rightarrow> 's \<Rightarrow> bool"
  c_guar :: "'s \<Rightarrow> 's \<Rightarrow> bool"
  c_panic :: "string \<Rightarrow> bool"
  c_leave :: "'s \<Rightarrow> bool"

text \<open>
  \<open>safe C s0 Q p\<close>: the run \<open>p\<close>, whose present segment began in \<open>s0\<close>, respects the contract, and
  \<open>Q\<close> holds of the result and the state when it returns. A fault and a loop cut off claim nothing.
\<close>

primrec safe :: "'s contract \<Rightarrow> 's \<Rightarrow> ('a \<Rightarrow> 's \<Rightarrow> bool) \<Rightarrow> ('s, 'a) prog \<Rightarrow> bool" where
  "safe C s0 Q (Done a s) \<longleftrightarrow> c_guar C s0 s \<and> Q a s"
| "safe C s0 Q (Panic m s) \<longleftrightarrow> c_panic C m"
| "safe C s0 Q (Exit c s) \<longleftrightarrow> c_guar C s0 s \<and> c_leave C s"
| "safe C s0 Q (Sleep s k) \<longleftrightarrow> c_guar C s0 s \<and> c_inv C s \<and> c_next C s \<and>
     (\<forall>s'. c_inv C s' \<and> c_rely C s s' \<longrightarrow> safe C s' Q (k s'))"
| "safe C s0 Q (User s) \<longleftrightarrow> c_guar C s0 s \<and> c_leave C s"
| "safe C s0 Q (Fault s) \<longleftrightarrow> True"
| "safe C s0 Q NoFuel \<longleftrightarrow> True"

lemma safe_mono: "safe C s0 Q p \<Longrightarrow> (\<And>a s. Q a s \<Longrightarrow> Q' a s) \<Longrightarrow> safe C s0 Q' p"
  by (induction p arbitrary: s0) auto

text \<open>
  \<open>keeps C ok D f\<close>: started in a state with \<open>ok\<close>, the code respects the contract, and if it
  returns, \<open>ok\<close> holds again and the whole run, the sleeps included, stays within \<open>D\<close>.
\<close>

definition keeps :: "'s contract \<Rightarrow> ('s \<Rightarrow> bool) \<Rightarrow> ('s \<Rightarrow> 's \<Rightarrow> bool) \<Rightarrow> ('s, 'a) kern \<Rightarrow> bool" where
  "keeps C ok D f \<longleftrightarrow> (\<forall>n s. ok s \<longrightarrow> safe C s (\<lambda>_ t. ok t \<and> D s t) (f n s))"

lemma keepsI: "(\<And>n s. ok s \<Longrightarrow> safe C s (\<lambda>_ t. ok t \<and> D s t) (f n s)) \<Longrightarrow> keeps C ok D f"
  by (simp add: keeps_def)

lemma keepsD: "keeps C ok D f \<Longrightarrow> ok s \<Longrightarrow> safe C s (\<lambda>_ t. ok t \<and> D s t) (f n s)"
  by (simp add: keeps_def)

lemma keeps_weaken:
  assumes "keeps C ok D f" "\<And>s t. D s t \<Longrightarrow> D' s t"
  shows "keeps C ok D' f"
  by (rule keepsI) (rule safe_mono [OF keepsD [OF assms(1)]], auto simp: assms(2))

section \<open>The rules\<close>

locale upkeep =
  fixes C :: "'s contract" and ok :: "'s \<Rightarrow> bool" and D :: "'s \<Rightarrow> 's \<Rightarrow> bool"
  assumes guar_refl: "c_guar C s s"
    and guar_trans: "c_guar C s t \<Longrightarrow> c_guar C t u \<Longrightarrow> c_guar C s u"
    and within_refl: "ok s \<Longrightarrow> D s s"
    and within_trans: "D s t \<Longrightarrow> D t u \<Longrightarrow> D s u"
begin

lemma safe_earlier: "safe C s Q p \<Longrightarrow> c_guar C s0 s \<Longrightarrow> safe C s0 Q p"
  by (cases p) (auto intro: guar_trans)

lemma safe_bindp:
  "safe C s0 Q p \<Longrightarrow> (\<And>a s. Q a s \<Longrightarrow> safe C s Q' (g a s)) \<Longrightarrow> safe C s0 Q' (bindp p g)"
  by (induction p arbitrary: s0) (auto intro: safe_earlier)

lemma safe_bind:
  "safe C s0 Q (f n s) \<Longrightarrow> (\<And>a t. Q a t \<Longrightarrow> safe C t Q' (g a n t)) \<Longrightarrow> safe C s0 Q' (bind f g n s)"
  unfolding bind_def by (rule safe_bindp)

lemma safe_seq:
  "safe C s0 Q (f n s) \<Longrightarrow> (\<And>a t. Q a t \<Longrightarrow> safe C t Q' (g n t)) \<Longrightarrow> safe C s0 Q' (seq f g n s)"
  unfolding seq_def by (rule safe_bind)

lemma keeps_ret: "keeps C ok D (ret a)"
  by (simp add: keeps_def kexec guar_refl within_refl)

lemma keeps_skip: "keeps C ok D skip"
  by (simp add: keeps_def kexec guar_refl within_refl)

lemma keeps_gets: "keeps C ok D (gets f)"
  by (simp add: keeps_def kexec guar_refl within_refl)

lemma keeps_fault: "keeps C ok D fault"
  by (simp add: keeps_def kexec)

lemma keeps_panic: "c_panic C m \<Longrightarrow> keeps C ok D (panic m)"
  by (simp add: keeps_def kexec)

lemma keeps_exit: "(\<And>s. ok s \<Longrightarrow> c_leave C s) \<Longrightarrow> keeps C ok D (exit_task c)"
  by (simp add: keeps_def kexec guar_refl)

lemma keeps_user: "(\<And>s. ok s \<Longrightarrow> c_leave C s) \<Longrightarrow> keeps C ok D (\<lambda>n. User)"
  by (simp add: keeps_def guar_refl)

lemma keeps_modify:
  "(\<And>s. ok s \<Longrightarrow> ok (f s) \<and> c_guar C s (f s) \<and> D s (f s)) \<Longrightarrow> keeps C ok D (modify f)"
  by (simp add: keeps_def kexec)

lemma keeps_bind:
  assumes "keeps C ok D f" "\<And>a. keeps C ok D (g a)"
  shows "keeps C ok D (bind f g)"
proof (rule keepsI)
  fix n s assume "ok s"
  have "safe C t (\<lambda>_ u. ok u \<and> D s u) (g a n t)" if "ok t \<and> D s t" for a t
    by (rule safe_mono [OF keepsD [OF assms(2)]]) (use that in \<open>auto intro: within_trans\<close>)
  then show "safe C s (\<lambda>_ t. ok t \<and> D s t) (bind f g n s)"
    unfolding bind_def by (intro safe_bindp [OF keepsD [OF assms(1) \<open>ok s\<close>]])
qed

lemma keeps_seq: "keeps C ok D f \<Longrightarrow> keeps C ok D g \<Longrightarrow> keeps C ok D (seq f g)"
  by (simp add: seq_def keeps_bind)

lemma keeps_if:
  "(b \<Longrightarrow> keeps C ok D f) \<Longrightarrow> (\<not> b \<Longrightarrow> keeps C ok D g) \<Longrightarrow> keeps C ok D (if b then f else g)"
  by simp

lemma keeps_whenk: "keeps C ok D f \<Longrightarrow> keeps C ok D (whenk b f)"
  by (simp add: whenk_def keeps_skip)

lemma keeps_let: "keeps C ok D (f a) \<Longrightarrow> keeps C ok D (let x = a in f x)"
  by simp

lemma keeps_case_option:
  "(p = None \<Longrightarrow> keeps C ok D f) \<Longrightarrow> (\<And>x. p = Some x \<Longrightarrow> keeps C ok D (g x)) \<Longrightarrow>
   keeps C ok D (case p of None \<Rightarrow> f | Some x \<Rightarrow> g x)"
  by (simp split: option.split)

lemma keeps_case_sum:
  "(\<And>x. keeps C ok D (f x)) \<Longrightarrow> (\<And>y. keeps C ok D (g y)) \<Longrightarrow>
   keeps C ok D (case p of Inl x \<Rightarrow> f x | Inr y \<Rightarrow> g y)"
  by (simp split: sum.split)

lemma keeps_case_prod:
  "(\<And>a b. keeps C ok D (f a b)) \<Longrightarrow> keeps C ok D (case p of (a, b) \<Rightarrow> f a b)"
  by (simp split: prod.split)

lemma keeps_case_bool: "keeps C ok D f \<Longrightarrow> keeps C ok D g \<Longrightarrow> keeps C ok D (case_bool f g b)"
  by (simp split: bool.split)

lemma keeps_deref: "(\<And>x. keeps C ok D (f x)) \<Longrightarrow> keeps C ok D (deref p f)"
  unfolding deref_def by (intro keeps_case_option keeps_fault)

lemma keeps_for_each: "(\<And>i. keeps C ok D (f i)) \<Longrightarrow> keeps C ok D (for_each is f)"
  by (induction "is") (simp_all add: keeps_skip keeps_seq)

lemma keeps_for_ret: "(\<And>i. keeps C ok D (f i)) \<Longrightarrow> keeps C ok D d \<Longrightarrow> keeps C ok D (for_ret is f d)"
  by (induction "is") (auto intro!: keeps_ret keeps_bind keeps_case_option)

lemma keeps_loop_fuel:
  assumes "\<And>x. keeps C ok D (f x)"
  shows "keeps C ok D (loop_fuel k f x)"
proof (induction k arbitrary: x)
  case 0
  show ?case by (simp add: keeps_def)
next
  case (Suc k)
  then show ?case by (auto intro!: keeps_bind keeps_case_sum keeps_ret assms)
qed

lemma keeps_loop: "(\<And>x. keeps C ok D (f x)) \<Longrightarrow> keeps C ok D (loop f x)"
  using keeps_loop_fuel [of f] by (simp add: keeps_def loop_def)

lemmas keeps_control = keeps_ret keeps_skip keeps_gets keeps_fault keeps_panic keeps_exit keeps_user keeps_bind keeps_seq keeps_if
  keeps_whenk keeps_let keeps_case_option keeps_case_sum keeps_case_prod keeps_case_bool keeps_deref keeps_for_each
  keeps_for_ret keeps_loop

end

end
