(* ===== verification/KState.thy ===== *)
theory KState
  imports Prelude
begin

text \<open>
  The data of the kernel: the structures of \<^verbatim>\<open>include/linux/\<close> as records, the global
  variables as one record \<open>kstate\<close>. An array is a function from its index; a pointer to an
  element of a table is the element's index, \<open>None\<close> the null pointer. A task is named by
  its slot in \<open>task[]\<close>: \<open>task_used\<close> says whether the slot is occupied, \<open>tasks\<close> holds
  the structures themselves. The contents of a cache buffer (\<open>b_data\<close>) belong to its
  buffer head, since no two heads share a block; main memory (\<open>ram\<close>) is an array of
  32-bit words at the addresses divisible by four.
\<close>

section \<open>Constants\<close>

abbreviation RAM_BASE :: u32 where "RAM_BASE \<equiv> 0x80000000"
abbreviation RAM_END :: u32 where "RAM_END \<equiv> 0x88000000"
abbreviation USER_LIMIT :: u32 where "USER_LIMIT \<equiv> 0x80000000"
abbreviation PAGING_PAGES :: nat where "PAGING_PAGES \<equiv> 32768"
abbreviation USER_PGD_ENTRIES :: nat where "USER_PGD_ENTRIES \<equiv> 512"

abbreviation NR_TASKS :: nat where "NR_TASKS \<equiv> 64"
abbreviation HZ :: int where "HZ \<equiv> 100"
abbreviation TASK_RUNNING :: u32 where "TASK_RUNNING \<equiv> 0"
abbreviation TASK_INTERRUPTIBLE :: u32 where "TASK_INTERRUPTIBLE \<equiv> 1"
abbreviation TASK_UNINTERRUPTIBLE :: u32 where "TASK_UNINTERRUPTIBLE \<equiv> 2"
abbreviation TASK_ZOMBIE :: u32 where "TASK_ZOMBIE \<equiv> 3"
abbreviation TASK_STOPPED :: u32 where "TASK_STOPPED \<equiv> 4"

abbreviation NR_OPEN :: nat where "NR_OPEN \<equiv> 20"
abbreviation NR_INODE :: nat where "NR_INODE \<equiv> 32"
abbreviation NR_FILE :: nat where "NR_FILE \<equiv> 64"
abbreviation NR_SUPER :: nat where "NR_SUPER \<equiv> 8"
abbreviation NR_HASH :: nat where "NR_HASH \<equiv> 307"
abbreviation BLOCK_SIZE :: nat where "BLOCK_SIZE \<equiv> 1024"
abbreviation ROOT_INO :: u16 where "ROOT_INO \<equiv> 1"
abbreviation SUPER_MAGIC :: u16 where "SUPER_MAGIC \<equiv> 0x137F"
abbreviation INODES_PER_BLOCK :: nat where "INODES_PER_BLOCK \<equiv> 32"
abbreviation DIR_ENTRIES_PER_BLOCK :: nat where "DIR_ENTRIES_PER_BLOCK \<equiv> 64"
abbreviation NAME_LEN :: nat where "NAME_LEN \<equiv> 14"

abbreviation SIGHUP :: nat where "SIGHUP \<equiv> 1"
abbreviation SIGINT :: nat where "SIGINT \<equiv> 2"
abbreviation SIGQUIT :: nat where "SIGQUIT \<equiv> 3"
abbreviation SIGKILL :: nat where "SIGKILL \<equiv> 9"
abbreviation SIGPIPE :: nat where "SIGPIPE \<equiv> 13"
abbreviation SIGALRM :: nat where "SIGALRM \<equiv> 14"
abbreviation SIGCHLD :: nat where "SIGCHLD \<equiv> 17"
abbreviation SIGSTOP :: nat where "SIGSTOP \<equiv> 19"

text \<open>\<open>errno.h\<close>, as the 32-bit values the code negates.\<close>

abbreviation ERROR :: u32 where "ERROR \<equiv> 99"
abbreviation EPERM :: u32 where "EPERM \<equiv> 1"
abbreviation ENOENT :: u32 where "ENOENT \<equiv> 2"
abbreviation ESRCH :: u32 where "ESRCH \<equiv> 3"
abbreviation EINTR :: u32 where "EINTR \<equiv> 4"
abbreviation EIO :: u32 where "EIO \<equiv> 5"
abbreviation EBADF :: u32 where "EBADF \<equiv> 9"
abbreviation ECHILD :: u32 where "ECHILD \<equiv> 10"
abbreviation EAGAIN :: u32 where "EAGAIN \<equiv> 11"
abbreviation EACCES :: u32 where "EACCES \<equiv> 13"
abbreviation ENOTBLK :: u32 where "ENOTBLK \<equiv> 15"
abbreviation EBUSY :: u32 where "EBUSY \<equiv> 16"
abbreviation EEXIST :: u32 where "EEXIST \<equiv> 17"
abbreviation EXDEV :: u32 where "EXDEV \<equiv> 18"
abbreviation ENODEV :: u32 where "ENODEV \<equiv> 19"
abbreviation ENOTDIR :: u32 where "ENOTDIR \<equiv> 20"
abbreviation EISDIR :: u32 where "EISDIR \<equiv> 21"
abbreviation EINVAL :: u32 where "EINVAL \<equiv> 22"
abbreviation EMFILE :: u32 where "EMFILE \<equiv> 24"
abbreviation ENOTTY :: u32 where "ENOTTY \<equiv> 25"
abbreviation ENOSPC :: u32 where "ENOSPC \<equiv> 28"
abbreviation ESPIPE :: u32 where "ESPIPE \<equiv> 29"
abbreviation ENOSYS :: u32 where "ENOSYS \<equiv> 38"
abbreviation ENOTEMPTY :: u32 where "ENOTEMPTY \<equiv> 39"

section \<open>Structures\<close>

type_synonym block = "nat \<Rightarrow> u8"  \<comment> \<open>a block of 1024 bytes\<close>

record buffer_head =
  b_data :: block
  b_blocknr :: u32
  b_dev :: u16
  b_uptodate :: u8
  b_dirt :: u8
  b_count :: u8
  b_lock :: u8
  b_wait :: "nat option"
  b_prev :: "nat option"
  b_next :: "nat option"
  b_prev_free :: "nat option"
  b_next_free :: "nat option"

record d_inode =
  d_mode :: u16
  d_uid :: u16
  d_size :: u32
  d_time :: u32
  d_gid :: u8
  d_nlinks :: u8
  d_zone :: "nat \<Rightarrow> u16"

record m_inode =
  i_mode :: u16
  i_uid :: u16
  i_size :: u32
  i_mtime :: u32
  i_gid :: u8
  i_nlinks :: u8
  i_zone :: "nat \<Rightarrow> u16"
  i_wait :: "nat option"
  i_atime :: u32
  i_ctime :: u32
  i_dev :: u16
  i_num :: u16
  i_count :: u16
  i_lock :: u8
  i_dirt :: u8
  i_pipe :: u8
  i_mount :: u8
  i_seek :: u8
  i_update :: u8

record file_struct =
  f_mode :: u16
  f_flags :: u16
  f_count :: u16
  f_inode :: "nat option"
  f_pos :: u32

record super_block =
  s_ninodes :: u16
  s_nzones :: u16
  s_imap_blocks :: u16
  s_zmap_blocks :: u16
  s_firstdatazone :: u16
  s_log_zone_size :: u16
  s_max_size :: u32
  s_magic :: u16
  s_imap :: "nat \<Rightarrow> nat option"
  s_zmap :: "nat \<Rightarrow> nat option"
  s_dev :: u16
  s_isup :: "nat option"
  s_imount :: "nat option"
  s_time :: u32
  s_wait :: "nat option"
  s_lock :: u8
  s_rd_only :: u8
  s_dirt :: u8

record dir_entry =
  de_inode :: u16
  de_name :: "nat \<Rightarrow> u8"

record sigaction =
  sa_handler :: u32
  sa_mask :: u32
  sa_flags :: u32
  sa_restorer :: u32

text \<open>
  The general registers of a trap frame are numbered as in the comments of the source:
  \<open>tf_x t 2\<close> is \<open>sp\<close>, \<open>tf_x t 10\<close> is \<open>a0\<close>, \<open>tf_x t 17\<close> is \<open>a7\<close>.
\<close>

record trapframe =
  tf_mstatus :: u32
  tf_mepc :: u32
  tf_x :: "nat \<Rightarrow> u32"
  tf_mcause :: u32
  tf_from_user :: u32
  tf_f :: "nat \<Rightarrow> 64 word"
  tf_fcsr :: u32

record kernel_context =
  kc_ra :: u32
  kc_sp :: u32
  kc_s :: "nat \<Rightarrow> u32"

text \<open>
  \<open>t_page\<close> is the address of the page that holds the structure, \<open>t_tf\<close> the trap frame at
  the top of that page, where a trap from user mode saves the registers; \<open>t_ktf\<close> is the
  frame a trap from kernel mode pushes on the same stack, at the stack pointer of the moment.
\<close>

record task_struct =
  kctx :: kernel_context
  pgdir :: u32
  t_state :: u32
  t_counter :: u32
  t_priority :: u32
  t_signal :: u32
  t_sigaction :: "nat \<Rightarrow> sigaction"
  t_blocked :: u32
  t_exit_code :: u32
  start_code :: u32
  end_code :: u32
  end_data :: u32
  t_brk :: u32
  start_stack :: u32
  pid :: u32
  father :: u32
  pgrp :: u32
  session :: u32
  leader :: u32
  uid :: u16
  euid :: u16
  suid :: u16
  gid :: u16
  egid :: u16
  sgid :: u16
  t_alarm :: u32
  utime :: u32
  stime :: u32
  cutime :: u32
  cstime :: u32
  start_time :: u32
  t_tty :: u32
  t_umask :: u16
  pwd :: "nat option"
  root :: "nat option"
  executable :: "nat option"
  close_on_exec :: u32
  filp :: "nat \<Rightarrow> nat option"
  t_page :: u32
  t_tf :: trapframe
  t_ktf :: trapframe

record request =
  r_dev :: u32
  r_cmd :: u32
  r_errors :: u32
  r_sector :: u32
  r_nr_sectors :: u32
  r_waiting :: "nat option"
  r_bh :: "nat option"
  r_next :: "nat option"

text \<open>A timer of \<^verbatim>\<open>kernel/sched.c\<close>; \<open>tl_fn\<close> is the address of its function, 0 when unused.\<close>

record timer_entry =
  tl_jiffies :: u32
  tl_fn :: u32
  tl_next :: "nat option"

text \<open>
  Terminals, \<^verbatim>\<open>include/linux/tty.h\<close>. The structure \<open>termios\<close> is copied byte by byte from and
  to user memory, so it is kept as its bytes; \<^verbatim>\<open>Tty\<close> reads its fields.
\<close>

record tty_queue =
  q_data :: u32
  q_head :: u32
  q_tail :: u32
  q_proc :: "nat option"
  q_buf :: "nat \<Rightarrow> u8"

record tty_struct =
  termios :: "nat \<Rightarrow> u8"
  tty_pgrp :: u32
  tty_stopped :: u32
  read_q :: tty_queue
  write_q :: tty_queue
  secondary :: tty_queue

section \<open>Global variables\<close>

record kstate =
  ram :: "u32 \<Rightarrow> u32"
  mem_map :: "nat \<Rightarrow> u8"
  tasks :: "nat \<Rightarrow> task_struct"
  task_used :: "nat \<Rightarrow> bool"
  current :: nat
  last_task_used_math :: "nat option"
  jiffies :: u32
  startup_time :: u32
  timer_list :: "nat \<Rightarrow> timer_entry"
  next_timer :: "nat option"
  last_pid :: u32
  buffers :: "nat \<Rightarrow> buffer_head"
  nr_buffers :: nat
  hash_table :: "nat \<Rightarrow> nat option"
  free_list :: nat
  buffer_wait :: "nat option"
  requests :: "nat \<Rightarrow> request"
  current_request :: "nat \<Rightarrow> nat option"
  request_fn :: "nat \<Rightarrow> bool"
  wait_for_request :: "nat option"
  rd_image :: "nat \<Rightarrow> u8"
  rd_start :: u32
  rd_length :: u32
  inode_table :: "nat \<Rightarrow> m_inode"
  last_inode :: nat
  super_blocks :: "nat \<Rightarrow> super_block"
  file_table :: "nat \<Rightarrow> file_struct"
  ROOT_DEV :: u32
  tty_table :: "nat \<Rightarrow> tty_struct"
  cr_flag :: u32
  uart_in :: "u8 list"           \<comment> \<open>bytes received by the UART and not yet read\<close>
  io_log :: "(u32 \<times> u8) list"    \<comment> \<open>device registers written, with the byte, oldest first\<close>
  bucket_chain :: "nat \<Rightarrow> u32"   \<comment> \<open>\<open>bucket_dir[i].chain\<close>, an address\<close>
  free_bucket_desc :: u32

type_synonym 'a kernel = "(kstate, 'a) kern"

text \<open>Updates of one element of a table.\<close>

definition upd_buffer :: "nat \<Rightarrow> (buffer_head \<Rightarrow> buffer_head) \<Rightarrow> kstate \<Rightarrow> kstate" where
  "upd_buffer i f s = s\<lparr>buffers := (buffers s)(i := f (buffers s i))\<rparr>"

definition upd_inode :: "nat \<Rightarrow> (m_inode \<Rightarrow> m_inode) \<Rightarrow> kstate \<Rightarrow> kstate" where
  "upd_inode i f s = s\<lparr>inode_table := (inode_table s)(i := f (inode_table s i))\<rparr>"

definition upd_super :: "nat \<Rightarrow> (super_block \<Rightarrow> super_block) \<Rightarrow> kstate \<Rightarrow> kstate" where
  "upd_super i f s = s\<lparr>super_blocks := (super_blocks s)(i := f (super_blocks s i))\<rparr>"

definition upd_file :: "nat \<Rightarrow> (file_struct \<Rightarrow> file_struct) \<Rightarrow> kstate \<Rightarrow> kstate" where
  "upd_file i f s = s\<lparr>file_table := (file_table s)(i := f (file_table s i))\<rparr>"

definition upd_task :: "nat \<Rightarrow> (task_struct \<Rightarrow> task_struct) \<Rightarrow> kstate \<Rightarrow> kstate" where
  "upd_task i f s = s\<lparr>tasks := (tasks s)(i := f (tasks s i))\<rparr>"

definition upd_request :: "nat \<Rightarrow> (request \<Rightarrow> request) \<Rightarrow> kstate \<Rightarrow> kstate" where
  "upd_request i f s = s\<lparr>requests := (requests s)(i := f (requests s i))\<rparr>"

definition upd_timer :: "nat \<Rightarrow> (timer_entry \<Rightarrow> timer_entry) \<Rightarrow> kstate \<Rightarrow> kstate" where
  "upd_timer i f s = s\<lparr>timer_list := (timer_list s)(i := f (timer_list s i))\<rparr>"

definition upd_tty :: "nat \<Rightarrow> (tty_struct \<Rightarrow> tty_struct) \<Rightarrow> kstate \<Rightarrow> kstate" where
  "upd_tty i f s = s\<lparr>tty_table := (tty_table s)(i := f (tty_table s i))\<rparr>"

lemmas upd_defs = upd_tty_def upd_timer_def upd_buffer_def upd_inode_def upd_super_def upd_file_def upd_task_def
  upd_request_def

text \<open>The task that runs (\<open>current\<close>), \<open>CURRENT_TIME\<close> and \<open>suser()\<close>.\<close>

definition cur :: "kstate \<Rightarrow> task_struct" where
  "cur s = tasks s (current s)"

definition upd_cur :: "(task_struct \<Rightarrow> task_struct) \<Rightarrow> kstate \<Rightarrow> kstate" where
  "upd_cur f s = upd_task (current s) f s"

text \<open>Division of C integers rounds towards zero.\<close>

definition c_div :: "u32 \<Rightarrow> int \<Rightarrow> u32" where
  "c_div a b = word_of_int (sgn (sint a) * sgn b * (\<bar>sint a\<bar> div \<bar>b\<bar>))"

text \<open>C's remainder has the sign of the dividend.\<close>

definition c_mod :: "u32 \<Rightarrow> int \<Rightarrow> u32" where
  "c_mod a b = a - c_div a b * word_of_int b"

lemma c_div_small: "k < 2147483648 \<Longrightarrow> 0 < b \<Longrightarrow> c_div (word_of_nat k) (int b) = word_of_nat (k div b)"
proof -
  assume "k < 2147483648" "0 < b"
  then have "sint (word_of_nat k :: u32) = int k" using sint_unat [of "word_of_nat k"] by (simp add: unat_of_nat)
  then show ?thesis using \<open>0 < b\<close> by (cases "k = 0") (simp_all add: c_div_def flip: zdiv_int)
qed

lemma c_mod_small: "k < 2147483648 \<Longrightarrow> 0 < b \<Longrightarrow> c_mod (word_of_nat k) (int b) = word_of_nat (k mod b)"
proof -
  assume k: "k < 2147483648" "0 < b"
  have "word_of_nat (k mod b) = (word_of_nat (k - k div b * b) :: u32)" by (simp add: minus_div_mult_eq_mod)
  also have "\<dots> = word_of_nat k - word_of_nat (k div b * b)" by (rule of_nat_diff) simp
  finally show ?thesis using c_div_small [OF k] by (simp add: c_mod_def)
qed

definition CURRENT_TIME :: "kstate \<Rightarrow> u32" where
  "CURRENT_TIME s = startup_time s + c_div (jiffies s) HZ"

definition suser :: "kstate \<Rightarrow> bool" where
  "suser s \<longleftrightarrow> euid (cur s) = 0"

text \<open>
  A wait queue is a variable of type \<open>struct task_struct *\<close>; \<open>waitq\<close> names the variables
  the code sleeps on.
\<close>

datatype waitq = B_wait nat | I_wait nat | S_wait nat | Buffer_wait | Wait_for_request
  | R_waiting nat | Tty_write nat | Tty_secondary nat

fun get_wait :: "waitq \<Rightarrow> kstate \<Rightarrow> nat option" where
  "get_wait (B_wait i) s = b_wait (buffers s i)"
| "get_wait (I_wait i) s = i_wait (inode_table s i)"
| "get_wait (S_wait i) s = s_wait (super_blocks s i)"
| "get_wait Buffer_wait s = buffer_wait s"
| "get_wait Wait_for_request s = wait_for_request s"
| "get_wait (R_waiting i) s = r_waiting (requests s i)"
| "get_wait (Tty_write i) s = q_proc (write_q (tty_table s i))"
| "get_wait (Tty_secondary i) s = q_proc (secondary (tty_table s i))"

fun set_wait :: "waitq \<Rightarrow> nat option \<Rightarrow> kstate \<Rightarrow> kstate" where
  "set_wait (B_wait i) t s = upd_buffer i (b_wait_update (\<lambda>_. t)) s"
| "set_wait (I_wait i) t s = upd_inode i (i_wait_update (\<lambda>_. t)) s"
| "set_wait (S_wait i) t s = upd_super i (s_wait_update (\<lambda>_. t)) s"
| "set_wait Buffer_wait t s = s\<lparr>buffer_wait := t\<rparr>"
| "set_wait Wait_for_request t s = s\<lparr>wait_for_request := t\<rparr>"
| "set_wait (R_waiting i) t s = upd_request i (r_waiting_update (\<lambda>_. t)) s"
| "set_wait (Tty_write i) t s = upd_tty i (write_q_update (q_proc_update (\<lambda>_. t))) s"
| "set_wait (Tty_secondary i) t s = upd_tty i (secondary_update (q_proc_update (\<lambda>_. t))) s"

lemma get_set_wait [simp]: "get_wait q (set_wait q t s) = t"
  by (cases q) (simp_all add: upd_defs)

section \<open>Zeroed structures and the state before \<open>main()\<close>\<close>

text \<open>Static storage is zeroed before \<open>main()\<close>; task 0 is initialised from \<open>INIT_TASK\<close>.\<close>

definition zero_buffer :: buffer_head where
  "zero_buffer = \<lparr>b_data = (\<lambda>_. 0), b_blocknr = 0, b_dev = 0, b_uptodate = 0, b_dirt = 0,
     b_count = 0, b_lock = 0, b_wait = None, b_prev = None, b_next = None,
     b_prev_free = None, b_next_free = None\<rparr>"

definition zero_inode :: m_inode where
  "zero_inode = \<lparr>i_mode = 0, i_uid = 0, i_size = 0, i_mtime = 0, i_gid = 0, i_nlinks = 0,
     i_zone = (\<lambda>_. 0), i_wait = None, i_atime = 0, i_ctime = 0, i_dev = 0, i_num = 0,
     i_count = 0, i_lock = 0, i_dirt = 0, i_pipe = 0, i_mount = 0, i_seek = 0, i_update = 0\<rparr>"

definition zero_file :: file_struct where
  "zero_file = \<lparr>f_mode = 0, f_flags = 0, f_count = 0, f_inode = None, f_pos = 0\<rparr>"

definition zero_super :: super_block where
  "zero_super = \<lparr>s_ninodes = 0, s_nzones = 0, s_imap_blocks = 0, s_zmap_blocks = 0,
     s_firstdatazone = 0, s_log_zone_size = 0, s_max_size = 0, s_magic = 0,
     s_imap = (\<lambda>_. None), s_zmap = (\<lambda>_. None), s_dev = 0, s_isup = None, s_imount = None,
     s_time = 0, s_wait = None, s_lock = 0, s_rd_only = 0, s_dirt = 0\<rparr>"

definition zero_sigaction :: sigaction where
  "zero_sigaction = \<lparr>sa_handler = 0, sa_mask = 0, sa_flags = 0, sa_restorer = 0\<rparr>"

definition zero_trapframe :: trapframe where
  "zero_trapframe = \<lparr>tf_mstatus = 0, tf_mepc = 0, tf_x = (\<lambda>_. 0), tf_mcause = 0,
     tf_from_user = 0, tf_f = (\<lambda>_. 0), tf_fcsr = 0\<rparr>"

definition zero_request :: request where
  "zero_request = \<lparr>r_dev = 0, r_cmd = 0, r_errors = 0, r_sector = 0, r_nr_sectors = 0,
     r_waiting = None, r_bh = None, r_next = None\<rparr>"

definition zero_queue :: tty_queue where
  "zero_queue = \<lparr>q_data = 0, q_head = 0, q_tail = 0, q_proc = None, q_buf = (\<lambda>_. 0)\<rparr>"

text \<open>
  The initial terminals: \<open>ICRNL\<close>, \<open>OPOST|ONLCR\<close>, no control flags, the local flags \<open>lflag\<close>
  as two bytes, line discipline 0 and \<open>INIT_C_CC\<close>.
\<close>

definition init_termios :: "u8 list \<Rightarrow> nat \<Rightarrow> u8" where
  "init_termios lflag = (\<lambda>i. let bs = [0, 1, 0, 0, 5, 0, 0, 0, 0, 0, 0, 0] @ lflag @ [0, 0, 0,
       3, 0x1c, 0x7f, 0x15, 4, 0, 1, 0, 0x11, 0x13, 0x1a, 0, 0x12, 0x0f, 0x17, 0x16, 0]
     in if i < length bs then bs ! i else 0)"

definition init_tty :: "nat \<Rightarrow> tty_struct" where
  "init_tty i = \<lparr>termios = init_termios (if i = 0 then [0x1b, 0x0a] else [0x0b, 0x0a]), tty_pgrp = 0,
     tty_stopped = 0, read_q = zero_queue, write_q = zero_queue, secondary = zero_queue\<rparr>"

definition INIT_TASK :: task_struct where
  "INIT_TASK = \<lparr>kctx = \<lparr>kc_ra = 0, kc_sp = 0, kc_s = (\<lambda>_. 0)\<rparr>, pgdir = 0,
     t_state = 0, t_counter = 15, t_priority = 15, t_signal = 0,
     t_sigaction = (\<lambda>_. zero_sigaction), t_blocked = 0, t_exit_code = 0,
     start_code = 0, end_code = 0, end_data = 0, t_brk = 0, start_stack = 0,
     pid = 0, father = -1, pgrp = 0, session = 0, leader = 0,
     uid = 0, euid = 0, suid = 0, gid = 0, egid = 0, sgid = 0,
     t_alarm = 0, utime = 0, stime = 0, cutime = 0, cstime = 0, start_time = 0,
     t_tty = -1, t_umask = 18, pwd = None, root = None, executable = None,
     close_on_exec = 0, filp = (\<lambda>_. None), t_page = 0, t_tf = zero_trapframe,
     t_ktf = zero_trapframe\<rparr>"

definition boot_state :: kstate where
  "boot_state = \<lparr>ram = (\<lambda>_. 0), mem_map = (\<lambda>_. 0), tasks = (\<lambda>_. INIT_TASK),
     task_used = (\<lambda>i. i = 0), current = 0, last_task_used_math = None, jiffies = 0,
     startup_time = 0, timer_list = (\<lambda>_. \<lparr>tl_jiffies = 0, tl_fn = 0, tl_next = None\<rparr>),
     next_timer = None, last_pid = 0, buffers = (\<lambda>_. zero_buffer), nr_buffers = 0,
     hash_table = (\<lambda>_. None), free_list = 0, buffer_wait = None,
     requests = (\<lambda>_. zero_request), current_request = (\<lambda>_. None), request_fn = (\<lambda>_. False),
     wait_for_request = None, rd_image = (\<lambda>_. 0), rd_start = 0, rd_length = 0,
     inode_table = (\<lambda>_. zero_inode), last_inode = 0, super_blocks = (\<lambda>_. zero_super),
     file_table = (\<lambda>_. zero_file), ROOT_DEV = 0, tty_table = init_tty, cr_flag = 0, uart_in = [],
     io_log = [], bucket_chain = (\<lambda>_. 0), free_bucket_desc = 0\<rparr>"

end
