(* ===== verification/Sched.thy ===== *)
theory Sched
  imports KState
begin

text \<open>
  The scheduler, \<^verbatim>\<open>kernel/sched.c\<close>: choice of the next task, sleeping and waking on the
  wait queues, the list of timers with its clock tick, and the small system calls of that
  file. The context switch of \<^verbatim>\<open>kernel/trap.S\<close> is a point where other tasks run: when it
  returns, the task that called it is the current one again.
\<close>

section \<open>The scheduler\<close>

abbreviation S_KILL_STOP :: u32 where "S_KILL_STOP \<equiv> 0x40100"
  \<comment> \<open>\<open>_S(SIGKILL) | _S(SIGSTOP)\<close>, the complement of \<open>_BLOCKABLE\<close>\<close>

definition switch_to :: "nat \<Rightarrow> unit kernel" where
  "switch_to next = (\<lambda>n s.
     if next = current s then Done () s
     else Sleep (s\<lparr>current := next\<rparr>) (\<lambda>s'. Done () (s'\<lparr>current := current s\<rparr>)))"

text \<open>One round of the first loop of \<open>schedule\<close>: alarms, and signals that end a sleep.\<close>

definition check_alarm :: "u32 \<Rightarrow> task_struct \<Rightarrow> task_struct" where
  "check_alarm now p =
     (let p = (if t_alarm p \<noteq> 0 \<and> t_alarm p <s now
               then p\<lparr>t_signal := t_signal p OR push_bit (SIGALRM - 1) 1, t_alarm := 0\<rparr> else p)
      in if t_signal p AND NOT (NOT S_KILL_STOP AND t_blocked p) \<noteq> 0 \<and> t_state p = TASK_INTERRUPTIBLE
         then p\<lparr>t_state := TASK_RUNNING\<rparr> else p)"

definition check_signals :: "unit kernel" where
  "check_signals =
     for_each (rev [1..<NR_TASKS]) (\<lambda>i.
       bind (gets (\<lambda>s. task_used s i)) (\<lambda>u.
       whenk u (modify (\<lambda>s. upd_task i (check_alarm (jiffies s)) s))))"

text \<open>The inner loop of the scheduler proper: the best counter so far and its task.\<close>

definition better :: "kstate \<Rightarrow> nat \<Rightarrow> u32 \<times> nat \<Rightarrow> u32 \<times> nat" where
  "better s i = (\<lambda>(c, next).
     if task_used s i \<and> t_state (tasks s i) = TASK_RUNNING \<and> c <s t_counter (tasks s i)
     then (t_counter (tasks s i), i) else (c, next))"

definition pick_task :: "kstate \<Rightarrow> u32 \<times> nat" where
  "pick_task s = fold (better s) (rev [1..<NR_TASKS]) (-1, 0)"

definition recharge :: "unit kernel" where
  "recharge =
     for_each (rev [1..<NR_TASKS]) (\<lambda>i.
       bind (gets (\<lambda>s. task_used s i)) (\<lambda>u.
       whenk u (modify (upd_task i (\<lambda>p.
         p\<lparr>t_counter := signed_drop_bit 1 (t_counter p) + t_priority p\<rparr>)))))"

definition choose_task :: "unit \<Rightarrow> (unit + nat) kernel" where
  "choose_task _ =
     bind (gets pick_task) (\<lambda>(c, next).
     if c \<noteq> 0 then ret (Inr next) else seq recharge (ret (Inl ())))"

definition schedule :: "unit kernel" where
  "schedule = seq check_signals (bind (loop choose_task ()) switch_to)"

section \<open>Wait queues\<close>

definition set_state :: "nat \<Rightarrow> u32 \<Rightarrow> kstate \<Rightarrow> kstate" where
  "set_state i v s = upd_task i (t_state_update (\<lambda>_. v)) s"

definition wake_task :: "nat option \<Rightarrow> kstate \<Rightarrow> kstate" where
  "wake_task p s = (case p of None \<Rightarrow> s | Some i \<Rightarrow> set_state i TASK_RUNNING s)"

definition sys_pause :: "u32 kernel" where
  "sys_pause =
     seq (modify (\<lambda>s. set_state (current s) TASK_INTERRUPTIBLE s)) (seq schedule (ret 0))"

definition sleep_on :: "waitq \<Rightarrow> unit kernel" where
  "sleep_on p =
     bind (gets current) (\<lambda>me.
     if me = 0 then panic ''task[0] trying to sleep''
     else bind (gets (get_wait p)) (\<lambda>tmp.
       seq (modify (set_wait p (Some me)))
      (seq (modify (set_state me TASK_UNINTERRUPTIBLE))
      (seq schedule
           (modify (wake_task tmp))))))"

definition interruptible_sleep_on :: "waitq \<Rightarrow> unit kernel" where
  "interruptible_sleep_on p =
     bind (gets current) (\<lambda>me.
     if me = 0 then panic ''task[0] trying to sleep''
     else bind (gets (get_wait p)) (\<lambda>tmp.
       seq (modify (set_wait p (Some me)))
      (seq (loop (\<lambda>_.
              seq (modify (set_state me TASK_INTERRUPTIBLE))
             (seq schedule
             (bind (gets (get_wait p)) (\<lambda>q.
              case q of
                None \<Rightarrow> ret (Inr ())
              | Some j \<Rightarrow>
                  (if j \<noteq> me then seq (modify (set_state j TASK_RUNNING)) (ret (Inl ()))
                   else ret (Inr ())))))) ())
      (seq (modify (set_wait p None))
           (modify (wake_task tmp))))))"

definition wake_up_state :: "waitq \<Rightarrow> kstate \<Rightarrow> kstate" where
  "wake_up_state p s =
     (case get_wait p s of None \<Rightarrow> s | Some i \<Rightarrow> set_wait p None (set_state i TASK_RUNNING s))"

definition wake_up :: "waitq \<Rightarrow> unit kernel" where
  "wake_up p = modify (wake_up_state p)"

section \<open>Timers\<close>

abbreviation TIME_REQUESTS :: nat where "TIME_REQUESTS \<equiv> 64"

text \<open>
  The functions of the timers are not part of this file: \<open>call fn\<close> is what a call of the
  function at \<open>fn\<close> does.
\<close>

definition sift_timer :: "nat \<Rightarrow> (nat + unit) kernel" where
  "sift_timer p =
     bind (gets timer_list) (\<lambda>tm.
     case tl_next (tm p) of
       None \<Rightarrow> ret (Inr ())
     | Some q \<Rightarrow>
         (if tl_jiffies (tm q) <s tl_jiffies (tm p)
          then
            let left = tl_jiffies (tm p) - tl_jiffies (tm q); fn = tl_fn (tm p) in
            seq (modify (upd_timer p (\<lambda>e. e\<lparr>tl_fn := tl_fn (tm q), tl_jiffies := tl_jiffies (tm q)\<rparr>)))
           (seq (modify (upd_timer q (\<lambda>e. e\<lparr>tl_fn := fn, tl_jiffies := left\<rparr>)))
                (ret (Inl q)))
          else ret (Inr ())))"

definition add_timer :: "(u32 \<Rightarrow> unit kernel) \<Rightarrow> u32 \<Rightarrow> u32 \<Rightarrow> unit kernel" where
  "add_timer call ticks fn =
     (if fn = 0 then skip
      else if ticks \<le>s 0 then call fn
      else bind (gets timer_list) (\<lambda>tm.
        case search (\<lambda>i. tl_fn (tm i) = 0) 0 TIME_REQUESTS of
          None \<Rightarrow> panic ''No more time requests free''
        | Some p \<Rightarrow>
            seq (modify (\<lambda>s. upd_timer p
                   (\<lambda>e. e\<lparr>tl_fn := fn, tl_jiffies := ticks, tl_next := next_timer s\<rparr>) s))
           (seq (modify (\<lambda>s. s\<lparr>next_timer := Some p\<rparr>))
                (loop sift_timer p))))"

definition run_timers :: "(u32 \<Rightarrow> unit kernel) \<Rightarrow> unit kernel" where
  "run_timers call =
     loop (\<lambda>_.
       bind (gets next_timer) (\<lambda>p.
       case p of
         None \<Rightarrow> ret (Inr ())
       | Some i \<Rightarrow>
           bind (gets (\<lambda>s. timer_list s i)) (\<lambda>e.
           if tl_jiffies e \<le>s 0
           then seq (modify (upd_timer i (tl_fn_update (\<lambda>_. 0))))
               (seq (modify (\<lambda>s. s\<lparr>next_timer := tl_next e\<rparr>))
               (seq (call (tl_fn e)) (ret (Inl ()))))
           else ret (Inr ())))) ()"

definition do_timer :: "(u32 \<Rightarrow> unit kernel) \<Rightarrow> u32 \<Rightarrow> unit kernel" where
  "do_timer call cpl =
     seq (modify (upd_cur (\<lambda>p.
            if cpl \<noteq> 0 then p\<lparr>utime := utime p + 1\<rparr> else p\<lparr>stime := stime p + 1\<rparr>)))
    (seq (bind (gets next_timer) (\<lambda>p.
            case p of
              None \<Rightarrow> skip
            | Some i \<Rightarrow>
                seq (modify (upd_timer i (\<lambda>e. e\<lparr>tl_jiffies := tl_jiffies e - 1\<rparr>)))
                    (run_timers call)))
    (seq (modify (upd_cur (\<lambda>p. p\<lparr>t_counter := t_counter p - 1\<rparr>)))
    (bind (gets (\<lambda>s. t_counter (cur s))) (\<lambda>c.
     if 0 <s c then skip
     else seq (modify (upd_cur (\<lambda>p. p\<lparr>t_counter := 0\<rparr>)))
         (if cpl = 0 then skip
          else seq (modify (upd_cur (\<lambda>p. p\<lparr>t_counter := t_priority p\<rparr>))) schedule)))))"

section \<open>Initialisation and system calls\<close>

text \<open>\<open>sched_init\<close> clears the task table; programming the timer device is not modelled.\<close>

definition sched_init :: "kstate \<Rightarrow> kstate" where
  "sched_init s = s\<lparr>task_used := (\<lambda>i. if 1 \<le> i \<and> i < NR_TASKS then False else task_used s i)\<rparr>"

definition sys_getpid :: "u32 kernel" where
  "sys_getpid = gets (\<lambda>s. pid (cur s))"

definition sys_getppid :: "u32 kernel" where
  "sys_getppid = gets (\<lambda>s. father (cur s))"

definition sys_getuid :: "u32 kernel" where
  "sys_getuid = gets (\<lambda>s. ucast (uid (cur s)))"

definition sys_geteuid :: "u32 kernel" where
  "sys_geteuid = gets (\<lambda>s. ucast (euid (cur s)))"

definition sys_getgid :: "u32 kernel" where
  "sys_getgid = gets (\<lambda>s. ucast (gid (cur s)))"

definition sys_getegid :: "u32 kernel" where
  "sys_getegid = gets (\<lambda>s. ucast (egid (cur s)))"

definition sys_alarm :: "u32 \<Rightarrow> u32 kernel" where
  "sys_alarm seconds =
     bind (gets (\<lambda>s. t_alarm (cur s))) (\<lambda>old.
     bind (gets (\<lambda>s. if old \<noteq> 0 then old - jiffies s else old)) (\<lambda>old.
     seq (modify (\<lambda>s. upd_cur (\<lambda>p. p\<lparr>t_alarm :=
            if 0 <s seconds then seconds * word_of_int HZ + jiffies s else 0\<rparr>) s))
         (ret old)))"

definition sys_nice :: "u32 \<Rightarrow> u32 kernel" where
  "sys_nice increment =
     seq (modify (upd_cur (\<lambda>p.
            if 0 \<le>s t_priority p - increment then p\<lparr>t_priority := t_priority p - increment\<rparr> else p)))
         (ret 0)"

section \<open>Choice of the task\<close>

definition on_tasks :: "(task_struct \<Rightarrow> task_struct) \<Rightarrow> kstate \<Rightarrow> kstate" where
  "on_tasks g s = s\<lparr>tasks := (\<lambda>i. if 1 \<le> i \<and> i < NR_TASKS \<and> task_used s i then g (tasks s i) else tasks s i)\<rparr>"

lemma task_used_on_tasks [simp]: "task_used (on_tasks g s) = task_used s"
  by (simp add: on_tasks_def)

lemma for_tasks:
  "distinct is \<Longrightarrow>
   for_each is (\<lambda>i. bind (gets (\<lambda>s. task_used s i)) (\<lambda>u. whenk u (modify (\<lambda>s. upd_task i (g (jiffies s)) s)))) n s
   = Done () (s\<lparr>tasks := (\<lambda>i. if i \<in> set is \<and> task_used s i then g (jiffies s) (tasks s i) else tasks s i)\<rparr>)"
proof (induction "is" arbitrary: s)
  case Nil
  then show ?case by (simp add: kexec)
next
  case (Cons i "is")
  have "for_each (i # is) (\<lambda>i. bind (gets (\<lambda>s. task_used s i)) (\<lambda>u. whenk u (modify (\<lambda>s. upd_task i (g (jiffies s)) s)))) n s
      = for_each is (\<lambda>i. bind (gets (\<lambda>s. task_used s i)) (\<lambda>u. whenk u (modify (\<lambda>s. upd_task i (g (jiffies s)) s)))) n
          (if task_used s i then upd_task i (g (jiffies s)) s else s)"
    by (simp add: kexec)
  also have "\<dots> = Done () (s\<lparr>tasks := (\<lambda>j. if j \<in> set (i # is) \<and> task_used s j then g (jiffies s) (tasks s j) else tasks s j)\<rparr>)"
    using Cons.prems by (subst Cons.IH) (auto simp: upd_task_def fun_eq_iff intro!: kstate.equality)
  finally show ?case .
qed

lemma check_signals_exec [kexec]: "check_signals n s = Done () (on_tasks (check_alarm (jiffies s)) s)"
proof -
  have "i \<in> set (rev [1..<NR_TASKS]) \<longleftrightarrow> 1 \<le> i \<and> i < NR_TASKS" for i by simp
  then show ?thesis unfolding check_signals_def
    by (subst for_tasks [where g = check_alarm]) (simp_all only: on_tasks_def distinct_rev distinct_upt conj_assoc)
qed

definition recharge_task :: "task_struct \<Rightarrow> task_struct" where
  "recharge_task p = p\<lparr>t_counter := signed_drop_bit 1 (t_counter p) + t_priority p\<rparr>"

lemma recharge_exec [kexec]: "recharge n s = Done () (on_tasks recharge_task s)"
proof -
  have "i \<in> set (rev [1..<NR_TASKS]) \<longleftrightarrow> 1 \<le> i \<and> i < NR_TASKS" for i by simp
  then show ?thesis unfolding recharge_def recharge_task_def [abs_def]
    by (subst for_tasks [where g = "\<lambda>_. recharge_task", unfolded recharge_task_def [abs_def]])
      (simp_all only: on_tasks_def distinct_rev distinct_upt conj_assoc)
qed

lemma choose_task_exec:
  "pick_task s = (c, nx) \<Longrightarrow> choose_task u n s =
     (if c \<noteq> 0 then Done (Inr nx) s else Done (Inl ()) (on_tasks recharge_task s))"
  by (simp add: choose_task_def kexec)

definition runnable :: "kstate \<Rightarrow> nat \<Rightarrow> bool" where
  "runnable s i \<longleftrightarrow> 1 \<le> i \<and> i < NR_TASKS \<and> task_used s i \<and> t_state (tasks s i) = TASK_RUNNING"

lemma fold_better:
  assumes "set is \<subseteq> {1..<NR_TASKS}" "fold (better s) is (c0, n0) = (c, nx)"
  shows "(c = c0 \<and> nx = n0 \<or> nx \<in> set is \<and> runnable s nx \<and> c = t_counter (tasks s nx)) \<and>
     sint c0 \<le> sint c \<and> (\<forall>i\<in>set is. runnable s i \<longrightarrow> sint (t_counter (tasks s i)) \<le> sint c)"
  using assms
proof (induction "is" arbitrary: c0 n0)
  case Nil
  then show ?case by simp
next
  case (Cons i "is")
  obtain c1 n1 where b: "better s i (c0, n0) = (c1, n1)" by fastforce
  have "fold (better s) is (c1, n1) = (c, nx)" using Cons.prems(2) b by simp
  from Cons.IH [OF _ this] Cons.prems(1)
  have rest: "(c = c1 \<and> nx = n1 \<or> nx \<in> set is \<and> runnable s nx \<and> c = t_counter (tasks s nx)) \<and>
     sint c1 \<le> sint c \<and> (\<forall>i\<in>set is. runnable s i \<longrightarrow> sint (t_counter (tasks s i)) \<le> sint c)"
    by simp
  show ?case
  proof (cases "runnable s i \<and> c0 <s t_counter (tasks s i)")
    case True
    then have "c1 = t_counter (tasks s i) \<and> n1 = i" using b by (auto simp: better_def runnable_def)
    with True rest show ?thesis by (auto simp: word_sless_alt)
  next
    case False
    then have "c1 = c0 \<and> n1 = n0" using b Cons.prems(1) by (auto simp: better_def runnable_def split: if_splits)
    with False rest show ?thesis by (auto simp: word_sless_alt)
  qed
qed

lemma pick_task_cases:
  assumes "pick_task s = (c, nx)"
  shows "nx = 0 \<and> c = -1 \<or> runnable s nx \<and> c = t_counter (tasks s nx)"
    and "runnable s i \<Longrightarrow> sint (t_counter (tasks s i)) \<le> sint c"
proof -
  have sub: "set (rev [1..<NR_TASKS]) \<subseteq> {1..<NR_TASKS}" by simp
  note f = fold_better [OF sub assms [unfolded pick_task_def]]
  show "nx = 0 \<and> c = -1 \<or> runnable s nx \<and> c = t_counter (tasks s nx)" using f by blast
  show "sint (t_counter (tasks s i)) \<le> sint c" if "runnable s i"
    using f that by (auto simp: runnable_def)
qed

text \<open>
  Every task has a positive priority and a counter that is not negative. This is a condition on the state, not an
  invariant: \<open>sys_nice\<close> accepts 0 and every greater priority, and with priorities of \<open>2\<^sup>3\<^sup>0\<close> and more the recharge of
  a sleeping task overflows.
\<close>

definition sched_ok :: "kstate \<Rightarrow> bool" where
  "sched_ok s \<longleftrightarrow> (\<forall>i. 1 \<le> i \<and> i < NR_TASKS \<and> task_used s i \<longrightarrow>
     0 \<le> sint (t_counter (tasks s i)) \<and> 0 < sint (t_priority (tasks s i)))"

text \<open>\<open>best s nx\<close>: a task with the greatest positive counter, or task 0 when none can run.\<close>

definition best :: "kstate \<Rightarrow> nat \<Rightarrow> bool" where
  "best s nx \<longleftrightarrow>
     (nx = 0 \<and> (\<forall>i. \<not> runnable s i)) \<or>
     (runnable s nx \<and> 0 < sint (t_counter (tasks s nx)) \<and>
      (\<forall>i. runnable s i \<longrightarrow> sint (t_counter (tasks s i)) \<le> sint (t_counter (tasks s nx))))"

lemma pick_task_best:
  assumes ok: "\<And>i. runnable s i \<Longrightarrow> 0 \<le> sint (t_counter (tasks s i))"
    and pick: "pick_task s = (c, nx)" and c: "c \<noteq> 0"
  shows "best s nx"
proof (cases "nx = 0 \<and> c = -1")
  case True
  then have "\<not> runnable s i" for i
    using ok [of i] pick_task_cases(2) [OF pick, of i] by auto
  with True show ?thesis by (simp add: best_def)
next
  case False
  then have r: "runnable s nx" "c = t_counter (tasks s nx)"
    using pick_task_cases(1) [OF pick] by auto
  moreover have "sint c \<noteq> 0" using c by (metis signed_eq_0_iff)
  ultimately show ?thesis
    using ok [of nx] pick_task_cases(2) [OF pick] by (auto simp: best_def)
qed

lemma sched_ok_check: "sched_ok s \<Longrightarrow> sched_ok (on_tasks (check_alarm now) s)"
  by (auto simp: sched_ok_def on_tasks_def check_alarm_def Let_def)

text \<open>Recharging a task whose time is used up gives it its priority.\<close>

lemma recharge_empty:
  assumes "\<And>j. runnable s j \<Longrightarrow> t_counter (tasks s j) = 0" "runnable s i"
  shows "t_counter (tasks (on_tasks recharge_task s) i) = t_priority (tasks s i)"
  using assms(1) [OF assms(2)] assms(2) by (simp add: on_tasks_def recharge_task_def runnable_def)

lemma runnable_recharge [simp]: "runnable (on_tasks recharge_task s) i = runnable s i"
  by (auto simp: runnable_def on_tasks_def recharge_task_def)

text \<open>The search ends within two rounds, unless no runnable task has time or priority.\<close>

lemma choose_returns_if:
  assumes ok: "\<And>i. runnable s i \<Longrightarrow> 0 \<le> sint (t_counter (tasks s i)) \<and> 0 \<le> sint (t_priority (tasks s i))"
    and live: "(\<exists>i. runnable s i \<and> (t_counter (tasks s i) \<noteq> 0 \<or> t_priority (tasks s i) \<noteq> 0)) \<or> (\<forall>i. \<not> runnable s i)"
  shows "\<exists>nx t. loop_fuel (Suc (Suc k)) choose_task () n s = Done nx t \<and> best t nx \<and>
     (t = s \<or> t = on_tasks recharge_task s \<and> (\<forall>i. runnable s i \<longrightarrow> t_counter (tasks s i) = 0))"
proof -
  obtain c nx where pick: "pick_task s = (c, nx)" by fastforce
  show ?thesis
  proof (cases "c = 0")
    case False
    then show ?thesis using pick_task_best [OF _ pick] ok by (simp add: kexec choose_task_exec [OF pick])
  next
    case True
    let ?t = "on_tasks recharge_task s"
    have zero: "t_counter (tasks s i) = 0" if "runnable s i" for i
      using ok [OF that] pick_task_cases(2) [OF pick that] True by (metis antisym signed_0 signed_eq_0_iff)
    have ch: "t_counter (tasks ?t i) = t_priority (tasks s i)" if "runnable s i" for i
      using recharge_empty [of s i] zero that by blast
    have "runnable s nx" using pick_task_cases(1) [OF pick] True by auto
    then obtain i where i: "runnable s i" "t_priority (tasks s i) \<noteq> 0" using live zero by auto
    then have pos: "0 < sint (t_priority (tasks s i))" using ok [OF i(1)] by (metis order_le_less signed_eq_0_iff)
    obtain c' nx' where pick': "pick_task ?t = (c', nx')" by fastforce
    have c': "c' \<noteq> 0" using pos ch [OF i(1)] pick_task_cases(2) [OF pick', of i] i(1) by auto
    have "best ?t nx'" using c' ch ok by (intro pick_task_best [OF _ pick']) auto
    then show ?thesis using zero True c' by (simp add: kexec choose_task_exec [OF pick] choose_task_exec [OF pick'])
  qed
qed

lemma choose_returns:
  assumes ok: "sched_ok s"
  shows "\<exists>nx t. loop_fuel (Suc (Suc k)) choose_task () n s = Done nx t \<and> best t nx \<and>
     (t = s \<or> t = on_tasks recharge_task s \<and> (\<forall>i. runnable s i \<longrightarrow> t_counter (tasks s i) = 0))"
proof (rule choose_returns_if)
  have r: "0 \<le> sint (t_counter (tasks s i)) \<and> 0 < sint (t_priority (tasks s i))" if "runnable s i" for i
    using ok that by (simp add: sched_ok_def runnable_def)
  then show "0 \<le> sint (t_counter (tasks s i)) \<and> 0 \<le> sint (t_priority (tasks s i))" if "runnable s i" for i
    using that by (simp add: less_imp_le)
  have "t_priority (tasks s i) \<noteq> 0" if "runnable s i" for i using r [OF that] by auto
  then show "(\<exists>i. runnable s i \<and> (t_counter (tasks s i) \<noteq> 0 \<or> t_priority (tasks s i) \<noteq> 0)) \<or> (\<forall>i. \<not> runnable s i)" by blast
qed

text \<open>
  C18: When all priorities are positive and no counter is negative, \<open>schedule\<close> ends its search
  within two rounds and switches to a runnable task whose counter is positive and greatest among the runnable
  ones, or to task 0 when no task can run. Counters are recharged exactly when every
  runnable task has used up its time.
\<close>

theorem schedule_picks_best:
  assumes "sched_ok s" "2 \<le> n"
  shows "\<exists>nx t. schedule n s = switch_to nx n t \<and> best t nx \<and>
     (let s' = on_tasks (check_alarm (jiffies s)) s in
      t = s' \<or> t = on_tasks recharge_task s' \<and> (\<forall>i. runnable s' i \<longrightarrow> t_counter (tasks s' i) = 0))"
proof -
  define k where "k = n - 2"
  have n: "n = Suc (Suc k)" using assms(2) by (simp add: k_def)
  from choose_returns [OF sched_ok_check [OF assms(1)], of k n "jiffies s"]
  obtain nx t where "loop choose_task () n (on_tasks (check_alarm (jiffies s)) s) = Done nx t"
    and "best t nx"
    and "let s' = on_tasks (check_alarm (jiffies s)) s in
      t = s' \<or> t = on_tasks recharge_task s' \<and> (\<forall>i. runnable s' i \<longrightarrow> t_counter (tasks s' i) = 0)"
    unfolding loop_def Let_def n [symmetric] by auto
  moreover from this(1) have "schedule n s = switch_to nx n t" by (simp add: schedule_def kexec)
  ultimately show ?thesis by blast
qed

theorem schedule_picks_best_witness:
  "let s = boot_state\<lparr>task_used := (\<lambda>i. i < 4), tasks := (tasks boot_state)
       (1 := INIT_TASK\<lparr>t_counter := 5\<rparr>, 2 := INIT_TASK\<lparr>t_counter := 9\<rparr>, 3 := INIT_TASK\<lparr>t_counter := 12, t_state := TASK_UNINTERRUPTIBLE\<rparr>)\<rparr>
   in \<exists>t. schedule 2 s = switch_to 2 2 t"
proof -
  define s where "s = boot_state\<lparr>task_used := (\<lambda>i. i < 4), tasks := (tasks boot_state)
       (1 := INIT_TASK\<lparr>t_counter := 5\<rparr>, 2 := INIT_TASK\<lparr>t_counter := 9\<rparr>, 3 := INIT_TASK\<lparr>t_counter := 12, t_state := TASK_UNINTERRUPTIBLE\<rparr>)\<rparr>"
  let ?s = "on_tasks (check_alarm (jiffies s)) s"
  have small: "i = 1 \<or> i = 2 \<or> i = 3" if "1 \<le> i" "i < 4" for i :: nat using that by linarith
  have "sched_ok s" by (auto simp: sched_ok_def s_def dest!: small) (simp_all add: INIT_TASK_def)
  then obtain nx t where t: "schedule 2 s = switch_to nx 2 t" "best t nx"
      "t = ?s \<or> t = on_tasks recharge_task ?s \<and> (\<forall>i. runnable ?s i \<longrightarrow> t_counter (tasks ?s i) = 0)"
    using schedule_picks_best [of s 2] by (auto simp: Let_def)
  have run: "runnable ?s i \<longleftrightarrow> i = 1 \<or> i = 2" for i
    by (auto simp: runnable_def on_tasks_def s_def check_alarm_def INIT_TASK_def dest!: small split: if_splits)
  have c: "t_counter (tasks ?s 1) = 5" "t_counter (tasks ?s 2) = 9"
    by (simp_all add: on_tasks_def s_def check_alarm_def INIT_TASK_def)
  then have "t = ?s" using t(3) run by auto
  then have "nx = 2" using t(2) run c by (auto simp: best_def)
  then show ?thesis using t(1) by (auto simp: s_def)
qed

lemma choose_hangs:
  assumes "runnable s i" "\<And>j. runnable s j \<Longrightarrow> t_counter (tasks s j) = 0 \<and> t_priority (tasks s j) = 0"
  shows "loop_fuel k choose_task () n s = NoFuel"
  using assms
proof (induction k arbitrary: s)
  case (Suc k)
  obtain c nx where pick: "pick_task s = (c, nx)" by fastforce
  have "sint (0 :: u32) \<le> sint c" using pick_task_cases(2) [OF pick, of i] Suc.prems by simp
  then have c: "c = 0" using pick_task_cases(1) [OF pick] Suc.prems by auto
  have "loop_fuel k choose_task () n (on_tasks recharge_task s) = NoFuel"
  proof (rule Suc.IH)
    show "runnable (on_tasks recharge_task s) i" using Suc.prems(1) by simp
    show "t_counter (tasks (on_tasks recharge_task s) j) = 0 \<and> t_priority (tasks (on_tasks recharge_task s) j) = 0"
      if "runnable (on_tasks recharge_task s) j" for j
      using Suc.prems(2) [of j] that unfolding runnable_recharge by (simp add: on_tasks_def recharge_task_def)
  qed
  then show ?case by (simp add: kexec choose_task_exec [OF pick] c)
qed simp

text \<open>
  C19: When no runnable task has a negative counter or priority, \<open>schedule\<close> loops for ever exactly when, after its
  check of alarms and signals, some task is runnable and every runnable task has an exhausted counter and priority 0,
  a priority \<open>sys_nice\<close> lets a task give itself: recharging leaves the counters at 0, and the search starts again.
\<close>

theorem schedule_nice_zero_hangs:
  defines "checked s \<equiv> on_tasks (check_alarm (jiffies s)) s"
  assumes "\<And>i. runnable (checked s) i \<Longrightarrow> 0 \<le> sint (t_counter (tasks s i)) \<and> 0 \<le> sint (t_priority (tasks s i))"
  shows "(\<forall>n. schedule n s = NoFuel) \<longleftrightarrow>
     (\<exists>i. runnable (checked s) i) \<and> (\<forall>i. runnable (checked s) i \<longrightarrow> t_counter (tasks s i) = 0 \<and> t_priority (tasks s i) = 0)"
proof -
  have same: "t_counter (tasks (checked s) i) = t_counter (tasks s i)" "t_priority (tasks (checked s) i) = t_priority (tasks s i)" for i
    by (simp_all add: checked_def on_tasks_def check_alarm_def Let_def)
  have run: "schedule n s = bindp (loop_fuel n choose_task () n (checked s)) (\<lambda>nx t. switch_to nx n t)" for n
    by (simp add: schedule_def kexec loop_def checked_def)
  show ?thesis
  proof (intro iffI; (elim conjE exE)?)
    fix i assume "runnable (checked s) i" "\<forall>i. runnable (checked s) i \<longrightarrow> t_counter (tasks s i) = 0 \<and> t_priority (tasks s i) = 0"
    then show "\<forall>n. schedule n s = NoFuel" using choose_hangs [of "checked s" i] same by (simp add: run)
  next
    assume hang: "\<forall>n. schedule n s = NoFuel"
    have "\<not> ((\<exists>i. runnable (checked s) i \<and> (t_counter (tasks s i) \<noteq> 0 \<or> t_priority (tasks s i) \<noteq> 0)) \<or> (\<forall>i. \<not> runnable (checked s) i))"
    proof
      assume "(\<exists>i. runnable (checked s) i \<and> (t_counter (tasks s i) \<noteq> 0 \<or> t_priority (tasks s i) \<noteq> 0)) \<or> (\<forall>i. \<not> runnable (checked s) i)"
      then obtain nx t where "loop_fuel (Suc (Suc 0)) choose_task () (Suc (Suc 0)) (checked s) = Done nx t"
        using choose_returns_if [of "checked s" 0 "Suc (Suc 0)"] assms(2) same by auto
      then show False using hang [rule_format, of "Suc (Suc 0)"] unfolding run by (simp add: switch_to_def split: if_splits)
    qed
    then show "(\<exists>i. runnable (checked s) i) \<and> (\<forall>i. runnable (checked s) i \<longrightarrow> t_counter (tasks s i) = 0 \<and> t_priority (tasks s i) = 0)" by blast
  qed
qed

theorem schedule_nice_zero_hangs_witness:
  "let s = boot_state\<lparr>task_used := (\<lambda>i. i < 2), current := 1\<rparr>
   in \<forall>n. sys_nice 15 n s = Done 0 (upd_cur (\<lambda>p. p\<lparr>t_priority := 0\<rparr>) s) \<and>
      schedule n (upd_cur (\<lambda>p. p\<lparr>t_counter := 0, t_priority := 0\<rparr>) s) = NoFuel"
proof -
  let ?s = "upd_cur (\<lambda>p. p\<lparr>t_counter := 0, t_priority := 0\<rparr>) (boot_state\<lparr>task_used := (\<lambda>i. i < 2), current := 1\<rparr>)"
  have "runnable (on_tasks (check_alarm (jiffies ?s)) ?s) i \<longleftrightarrow> i = 1" for i
    by (auto simp: runnable_def on_tasks_def check_alarm_def boot_state_def upd_cur_def upd_task_def INIT_TASK_def)
  moreover have "t_counter (tasks ?s 1) = 0" "t_priority (tasks ?s 1) = 0"
    by (simp_all add: boot_state_def upd_cur_def upd_task_def)
  ultimately have "\<forall>n. schedule n ?s = NoFuel" using schedule_nice_zero_hangs [of ?s] by simp
  then show ?thesis
    by (simp add: sys_nice_def kexec boot_state_def upd_cur_def upd_task_def INIT_TASK_def fun_eq_iff)
qed

section \<open>Sleeping and waking\<close>

lemma task_used_simps [simp]:
  "task_used (set_state i v s) = task_used s" "task_used (set_wait q p s) = task_used s"
  by (cases q; simp add: set_state_def upd_defs)+

lemma current_simps [simp]:
  "current (set_state i v s) = current s" "current (set_wait q p s) = current s"
  by (cases q; simp add: set_state_def upd_defs)+

lemma tasks_simps [simp]:
  "tasks (set_wait q p s) = tasks s"
  "tasks (set_state i v s) = (tasks s)(i := (tasks s i)\<lparr>t_state := v\<rparr>)"
  by (cases q; simp add: set_state_def upd_defs)+

lemma get_wait_simps [simp]:
  "get_wait q (set_state i v s) = get_wait q s" "get_wait q (on_tasks g s) = get_wait q s"
  "get_wait q (s\<lparr>current := i\<rparr>) = get_wait q s"
  by (cases q; simp add: set_state_def upd_defs on_tasks_def)+

lemma check_alarm_state: "t_state (check_alarm now p) \<in> {t_state p, TASK_RUNNING} \<and>
    (t_state p \<noteq> TASK_INTERRUPTIBLE \<longrightarrow> t_state (check_alarm now p) = t_state p)"
  by (auto simp: check_alarm_def Let_def)

text \<open>
  C20: A task other than task 0 that calls \<open>sleep_on\<close> gives up the processor with itself
  recorded in the wait variable and its state uninterruptible; when it runs again it makes
  the task that was recorded there before it runnable, so that one \<open>wake_up\<close> wakes the whole
  chain of sleepers one after the other.
\<close>

theorem sleep_on_chains:
  assumes "sched_ok s" "2 \<le> n" "0 < current s" "current s < NR_TASKS" "task_used s (current s)"
  shows "\<exists>t k. sleep_on q n s = Sleep t k \<and> get_wait q t = Some (current s) \<and>
     t_state (tasks t (current s)) = TASK_UNINTERRUPTIBLE \<and>
     (\<forall>u. k u = Done () (wake_task (get_wait q s) (u\<lparr>current := current s\<rparr>)))"
proof -
  let ?me = "current s"
  let ?s = "set_state ?me TASK_UNINTERRUPTIBLE (set_wait q (Some ?me) s)"
  let ?c = "on_tasks (check_alarm (jiffies ?s)) ?s"
  have "sched_ok ?s" using assms(1) by (simp add: sched_ok_def)
  from choose_returns [OF sched_ok_check [OF this], of "n - 2" n "jiffies ?s"] assms(2)
  obtain nx t where run: "loop choose_task () n ?c = Done nx t" and b: "best t nx"
    and t: "t = ?c \<or> t = on_tasks recharge_task ?c"
    by (auto simp: loop_def numeral_2_eq_2 Suc_diff_Suc simp flip: loop_fuel.simps)
  have me: "t_state (tasks t ?me) = TASK_UNINTERRUPTIBLE"
    using t check_alarm_state [of "jiffies ?s" "tasks ?s ?me"]
    by (auto simp: on_tasks_def recharge_task_def)
  have cur: "current t = ?me" using t by (auto simp: on_tasks_def)
  have "nx \<noteq> ?me" using b me assms(3) by (auto simp: best_def runnable_def)
  then have "sleep_on q n s = Sleep (t\<lparr>current := nx\<rparr>) (\<lambda>u. Done () (wake_task (get_wait q s) (u\<lparr>current := ?me\<rparr>)))"
    using assms(3) run by (simp add: sleep_on_def schedule_def kexec switch_to_def cur)
  moreover have "get_wait q t = Some ?me" using t by auto
  ultimately show ?thesis using me by auto
qed

theorem sleep_on_chains_witness:
  "\<exists>t k. sleep_on Buffer_wait 2 (boot_state\<lparr>task_used := (\<lambda>i. i < 3), current := 2, buffer_wait := Some 1\<rparr>) = Sleep t k \<and>
     buffer_wait t = Some 2 \<and> (\<forall>u. t_state (tasks u 1) \<noteq> 0 \<longrightarrow>
       (\<exists>u'. k u = Done () u' \<and> t_state (tasks u' 1) = TASK_RUNNING))"
  using sleep_on_chains [of "boot_state\<lparr>task_used := (\<lambda>i. i < 3), current := 2, buffer_wait := Some 1\<rparr>" 2 Buffer_wait]
  by (auto simp: sched_ok_def boot_state_def INIT_TASK_def wake_task_def)

section \<open>The list of timers\<close>

abbreviation tchain :: "(nat \<Rightarrow> timer_entry) \<Rightarrow> nat option \<Rightarrow> nat list \<Rightarrow> bool" where
  "tchain tm \<equiv> chain (\<lambda>i. tl_next (tm i))"

definition timers_ok :: "kstate \<Rightarrow> nat list \<Rightarrow> bool" where
  "timers_ok s is \<longleftrightarrow> tchain (timer_list s) (next_timer s) is \<and> distinct is \<and>
     set is = {i. i < TIME_REQUESTS \<and> tl_fn (timer_list s i) \<noteq> 0} \<and>
     (\<forall>i\<in>set is. 0 < sint (tl_jiffies (timer_list s i)))"

text \<open>The pending timers in order: the ticks after the one before it, and the function.\<close>

definition deltas :: "(nat \<Rightarrow> timer_entry) \<Rightarrow> nat list \<Rightarrow> (u32 \<times> u32) list" where
  "deltas tm is = map (\<lambda>i. (tl_jiffies (tm i), tl_fn (tm i))) is"

lemma deltas_Cons: "deltas tm (i # is) = (tl_jiffies (tm i), tl_fn (tm i)) # deltas tm is"
  by (simp add: deltas_def)

primrec ins_delta :: "u32 \<Rightarrow> u32 \<Rightarrow> (u32 \<times> u32) list \<Rightarrow> (u32 \<times> u32) list" where
  "ins_delta t f [] = [(t, f)]"
| "ins_delta t f (d # ds) =
     (if fst d <s t then d # ins_delta (t - fst d) f ds else (t, f) # d # ds)"

lemma sint_diff_less: "sint (a :: u32) < sint b \<Longrightarrow> 0 < sint a \<Longrightarrow> sint (b - a) = sint b - sint a"
proof -
  assume a: "sint a < sint b" "0 < sint a"
  have "sint (b - a) = signed_take_bit 31 (sint b - sint a)"
    by (simp add: signed_take_bit_diff sint_word_ariths(2))
  also have "\<dots> = sint b - sint a"
    using a sint_less [of b] by (intro signed_take_bit_int_eq_self) auto
  finally show ?thesis .
qed

lemma ins_delta_split:
  "(\<And>d. d \<in> set ds \<Longrightarrow> 0 < sint (fst d)) \<Longrightarrow> 0 < sint t \<Longrightarrow>
   \<exists>k d. k \<le> length ds \<and> ins_delta t f ds = take k ds @ (d, f) # drop k ds \<and> 0 < sint d \<and>
     (k < length ds \<longrightarrow> sint d \<le> sint (fst (ds ! k))) \<and>
     (\<Sum>x\<leftarrow>take k ds. sint (fst x)) + sint d = sint t"
proof (induction ds arbitrary: t)
  case Nil
  then show ?case by auto
next
  case (Cons x ds)
  show ?case
  proof (cases "fst x <s t")
    case True
    then have lt: "sint (fst x) < sint t" by (simp add: word_sless_alt)
    then have eq: "sint (t - fst x) = sint t - sint (fst x)"
      using Cons.prems(1) by (intro sint_diff_less) auto
    with lt have "0 < sint (t - fst x)" by simp
    then obtain k d where "k \<le> length ds" "ins_delta (t - fst x) f ds = take k ds @ (d, f) # drop k ds"
      "0 < sint d" "k < length ds \<longrightarrow> sint d \<le> sint (fst (ds ! k))" "(\<Sum>x\<leftarrow>take k ds. sint (fst x)) + sint d = sint (t - fst x)"
      using Cons.IH [of "t - fst x"] Cons.prems(1) by auto
    then show ?thesis using True eq by (intro exI [of _ "Suc k"] exI [of _ d]) simp
  next
    case False
    then show ?thesis using Cons.prems by (intro exI [of _ 0] exI [of _ t]) (simp add: word_sless_alt)
  qed
qed

lemma sift_timers:
  assumes "tchain (timer_list s) (Some p) (p # is)" "distinct (p # is)" "length is < k"
  shows "\<exists>t. loop_fuel k sift_timer p n s = Done () t \<and> next_timer t = next_timer s \<and>
     (\<forall>j. tl_next (timer_list t j) = tl_next (timer_list s j)) \<and>
     (\<forall>j. j \<notin> set (p # is) \<longrightarrow> timer_list t j = timer_list s j) \<and>
     deltas (timer_list t) (p # is) =
       ins_delta (tl_jiffies (timer_list s p)) (tl_fn (timer_list s p)) (deltas (timer_list s) is)"
  using assms
proof (induction "is" arbitrary: p s k)
  case Nil
  then obtain k' where "k = Suc k'" by (cases k) auto
  with Nil show ?case by (simp add: kexec sift_timer_def deltas_def)
next
  case (Cons q "is")
  then obtain k' where k: "k = Suc k'" by (cases k) auto
  let ?tm = "timer_list s"
  have nxt: "tl_next (?tm p) = Some q" using Cons.prems(1) by simp
  show ?case
  proof (cases "tl_jiffies (?tm q) <s tl_jiffies (?tm p)")
    case False
    then show ?thesis by (simp add: k kexec sift_timer_def nxt deltas_def)
  next
    case True
    define s' where "s' = upd_timer q (\<lambda>e. e\<lparr>tl_fn := tl_fn (?tm p), tl_jiffies := tl_jiffies (?tm p) - tl_jiffies (?tm q)\<rparr>)
       (upd_timer p (\<lambda>e. e\<lparr>tl_fn := tl_fn (?tm q), tl_jiffies := tl_jiffies (?tm q)\<rparr>) s)"
    have pq: "p \<noteq> q" "p \<notin> set is" "q \<notin> set is" using Cons.prems(2) by auto
    have step: "loop_fuel k sift_timer p n s = loop_fuel k' sift_timer q n s'"
      using True by (simp add: k kexec sift_timer_def nxt Let_def s'_def)
    have keep: "tl_next (timer_list s' j) = tl_next (?tm j)" "next_timer s' = next_timer s" for j
      by (simp_all add: s'_def upd_timer_def)
    have new: "tl_jiffies (timer_list s' p) = tl_jiffies (?tm q)" "tl_fn (timer_list s' p) = tl_fn (?tm q)"
      "tl_jiffies (timer_list s' q) = tl_jiffies (?tm p) - tl_jiffies (?tm q)" "tl_fn (timer_list s' q) = tl_fn (?tm p)"
      using pq by (simp_all add: s'_def upd_timer_def)
    have other: "timer_list s' j = ?tm j" if "j \<noteq> p" "j \<noteq> q" for j
      using that by (simp add: s'_def upd_timer_def)
    have "tchain (timer_list s') (Some q) (q # is) = tchain ?tm (Some q) (q # is)"
      by (rule chain_cong) (simp add: keep)
    then have "tchain (timer_list s') (Some q) (q # is)" using Cons.prems(1) by simp
    then obtain t where t: "loop_fuel k' sift_timer q n s' = Done () t" "next_timer t = next_timer s'"
      "\<And>j. tl_next (timer_list t j) = tl_next (timer_list s' j)"
      "\<And>j. j \<notin> set (q # is) \<Longrightarrow> timer_list t j = timer_list s' j"
      "deltas (timer_list t) (q # is) =
         ins_delta (tl_jiffies (timer_list s' q)) (tl_fn (timer_list s' q)) (deltas (timer_list s') is)"
      using Cons.IH [of s' q k'] Cons.prems(2,3) k by auto
    have "deltas (timer_list s') is = deltas ?tm is"
      unfolding deltas_def using pq other by (metis (no_types, lifting) map_cong)
    moreover have "timer_list t p = timer_list s' p" using pq by (intro t(4)) simp
    ultimately have "deltas (timer_list t) (p # q # is) =
        ins_delta (tl_jiffies (?tm p)) (tl_fn (?tm p)) (deltas ?tm (q # is))"
      using t(5) True new by (simp add: deltas_Cons)
    then show ?thesis using t(1-4) step keep other by auto
  qed
qed

text \<open>
  C21: \<open>add_timer\<close> on a well-formed list with a free slot puts the new timer behind exactly those that expire before
  it and in front of those that are due at the same time or later, so that it expires after exactly the requested
  number of ticks, and leaves the timers before it alone. The timers behind it keep their increments, which are now
  counted from the new timer: each of them expires later than asked by the new timer's own increment \<open>d\<close>.
\<close>

theorem add_timer_inserts:
  assumes ok: "timers_ok s is" and fn: "fn \<noteq> 0" and ticks: "0 < sint ticks"
    and free: "length is < TIME_REQUESTS" and fuel: "length is < n"
  shows "returns (add_timer call ticks fn n s) (\<lambda>_ t. \<exists>js k d. timers_ok t js \<and> k \<le> length is \<and>
     (let ds = deltas (timer_list s) is in
      deltas (timer_list t) js = take k ds @ (d, fn) # drop k ds \<and>
      0 < sint d \<and> (k < length ds \<longrightarrow> sint d \<le> sint (fst (ds ! k))) \<and>
      (\<Sum>x\<leftarrow>take k ds. sint (fst x)) + sint d = sint ticks))"
proof -
  let ?tm = "timer_list s"
  have chain: "tchain ?tm (next_timer s) is" and dist: "distinct is"
    and set: "set is = {i. i < TIME_REQUESTS \<and> tl_fn (?tm i) \<noteq> 0}"
    and pos: "\<And>i. i \<in> set is \<Longrightarrow> 0 < sint (tl_jiffies (?tm i))"
    using ok by (auto simp: timers_ok_def)
  have "search (\<lambda>i. tl_fn (?tm i) = 0) 0 TIME_REQUESTS \<noteq> None"
  proof
    assume "search (\<lambda>i. tl_fn (?tm i) = 0) 0 TIME_REQUESTS = None"
    then have "set is = {..<TIME_REQUESTS}" using set by (auto simp: search_None_iff)
    then have "length is = TIME_REQUESTS" using dist distinct_card by fastforce
    with free show False by simp
  qed
  then obtain p where p: "search (\<lambda>i. tl_fn (?tm i) = 0) 0 TIME_REQUESTS = Some p" by blast
  then have p64: "p < TIME_REQUESTS" and p0: "tl_fn (?tm p) = 0" by (simp_all add: search_Some_iff)
  then have new: "p \<notin> set is" using set by auto
  define s' where "s' = (upd_timer p (\<lambda>e. e\<lparr>tl_fn := fn, tl_jiffies := ticks, tl_next := next_timer s\<rparr>) s)\<lparr>next_timer := Some p\<rparr>"
  have tm: "timer_list s' i = (if i = p then (?tm p)\<lparr>tl_fn := fn, tl_jiffies := ticks, tl_next := next_timer s\<rparr> else ?tm i)" for i
    by (simp add: s'_def upd_timer_def)
  have nt: "next_timer s' = Some p" by (simp add: s'_def)
  have run: "add_timer call ticks fn n s = loop_fuel n sift_timer p n s'"
    using fn ticks by (simp add: add_timer_def kexec p loop_def word_sle_eq s'_def)
  have "tchain (timer_list s') (Some p) (p # is)"
  proof -
    have "tchain (timer_list s') (next_timer s) is = tchain ?tm (next_timer s) is"
      using new by (intro chain_cong) (auto simp: tm)
    with chain show ?thesis by (simp add: tm)
  qed
  then obtain t where t: "loop_fuel n sift_timer p n s' = Done () t" "next_timer t = Some p"
    "\<And>j. tl_next (timer_list t j) = tl_next (timer_list s' j)"
    "\<And>j. j \<notin> set (p # is) \<Longrightarrow> timer_list t j = timer_list s' j"
    "deltas (timer_list t) (p # is) = ins_delta ticks fn (deltas (timer_list s') is)"
    using sift_timers [of s' p "is" n n] nt dist new fuel by (auto simp: tm)
  have ds: "deltas (timer_list s') is = deltas ?tm is" using new by (auto simp: deltas_def tm)
  obtain k d where kd: "k \<le> length is" "deltas (timer_list t) (p # is) = take k (deltas ?tm is) @ (d, fn) # drop k (deltas ?tm is)"
    "0 < sint d" "k < length (deltas ?tm is) \<longrightarrow> sint d \<le> sint (fst (deltas ?tm is ! k))"
    "(\<Sum>x\<leftarrow>take k (deltas ?tm is). sint (fst x)) + sint d = sint ticks"
  proof -
    have "0 < sint (fst x)" if "x \<in> set (deltas ?tm is)" for x using that pos by (auto simp: deltas_def)
    moreover have "length (deltas ?tm is) = length is" by (simp add: deltas_def)
    ultimately show thesis
      using that ins_delta_split [OF _ ticks, of "deltas ?tm is" fn] unfolding t(5) ds by auto
  qed
  have elems: "set (deltas (timer_list t) (p # is)) = insert (d, fn) (set (deltas ?tm is))"
    unfolding kd(2) by (metis append_take_drop_id list.set(2) set_append Un_insert_right)
  have good: "tl_fn (timer_list t i) \<noteq> 0 \<and> 0 < sint (tl_jiffies (timer_list t i))" if "i \<in> set (p # is)" for i
  proof -
    have "(tl_jiffies (timer_list t i), tl_fn (timer_list t i)) \<in> insert (d, fn) (set (deltas ?tm is))"
      using that unfolding elems [symmetric] by (auto simp: deltas_def)
    then show ?thesis using kd(3) fn set pos by (auto simp: deltas_def)
  qed
  have "timers_ok t (p # is)"
    unfolding timers_ok_def
  proof (intro conjI)
    show "tchain (timer_list t) (next_timer t) (p # is)"
      using \<open>tchain (timer_list s') (Some p) (p # is)\<close> t(2,3) chain_cong [of "p # is" "\<lambda>i. tl_next (timer_list t i)" "\<lambda>i. tl_next (timer_list s' i)" "Some p"] by auto
    show "set (p # is) = {i. i < TIME_REQUESTS \<and> tl_fn (timer_list t i) \<noteq> 0}"
    proof (intro equalityI subsetI CollectI)
      fix i assume "i \<in> {i. i < TIME_REQUESTS \<and> tl_fn (timer_list t i) \<noteq> 0}"
      then show "i \<in> set (p # is)" using t(4) [of i] set by (cases "i \<in> set (p # is)") (auto simp: tm)
    qed (use good p64 set in auto)
  qed (use dist new good in auto)
  with t(1) kd show ?thesis by (auto simp: run Let_def)
qed

text \<open>A timer is pending for 10 ticks from now; the new one is for 25.\<close>

theorem add_timer_inserts_witness:
  "let s = boot_state\<lparr>next_timer := Some 0, timer_list := (timer_list boot_state)(0 := \<lparr>tl_jiffies = 10, tl_fn = 0x80002000, tl_next = None\<rparr>)\<rparr>
   in returns (add_timer (\<lambda>_. skip) 25 0x80001000 2 s) (\<lambda>_ t. \<exists>js. timers_ok t js \<and>
     deltas (timer_list t) js = [(10, 0x80002000), (15, 0x80001000)])"
proof -
  define s where "s = boot_state\<lparr>next_timer := Some 0, timer_list := (timer_list boot_state)(0 := \<lparr>tl_jiffies = 10, tl_fn = 0x80002000, tl_next = None\<rparr>)\<rparr>"
  have "timers_ok s [0]" and ds: "deltas (timer_list s) [0] = [(10, 0x80002000)]"
    by (auto simp: timers_ok_def deltas_def s_def boot_state_def)
  from add_timer_inserts [OF this(1), where fn = "0x80001000" and ticks = 25 and n = 2 and call = "\<lambda>_. skip"]
  have "returns (add_timer (\<lambda>_. skip) 25 0x80001000 2 s) (\<lambda>_ t. \<exists>js k d. timers_ok t js \<and> k \<le> 1 \<and>
      deltas (timer_list t) js = take k [(10, 0x80002000)] @ (d, 0x80001000) # drop k [(10, 0x80002000)] \<and>
      0 < sint d \<and> (k < 1 \<longrightarrow> sint d \<le> 10) \<and> (\<Sum>x\<leftarrow>take k [(10 :: u32, 0x80002000 :: u32)]. sint (fst x)) + sint d = 25)"
    by (simp add: ds Let_def cong: conj_cong)
  then have "returns (add_timer (\<lambda>_. skip) 25 0x80001000 2 s) (\<lambda>_ t. \<exists>js. timers_ok t js \<and>
     deltas (timer_list t) js = [(10, 0x80002000), (15, 0x80001000)])"
  proof (rule returns_mono, elim exE conjE, goal_cases)
    case (1 u t js k d)
    then have k: "k = 1" by (cases k) auto
    then have "sint d = sint (15 :: u32)" using 1 by simp
    then have "d = 15" by (simp add: signed_word_eqI)
    then show ?case using 1 k by auto
  qed
  then show ?thesis by (simp add: s_def)
qed

end
