(* ===== verification/Blk.thy ===== *)
theory Blk
  imports Sched "HOL-Library.Multiset"
begin

text \<open>
  Block devices: the request queue of \<^verbatim>\<open>kernel/blk_drv/ll_rw_blk.c\<close> and
  \<^verbatim>\<open>kernel/blk_drv/blk.h\<close> with its elevator, and the RAM disk of
  \<^verbatim>\<open>kernel/blk_drv/ramdisk.c\<close>, the only driver wired up in this port, which serves every
  request at once from the file system image linked into the kernel.
\<close>

section \<open>Constants and helpers\<close>

abbreviation NR_REQUEST :: nat where "NR_REQUEST \<equiv> 32"
abbreviation NR_BLK_DEV :: nat where "NR_BLK_DEV \<equiv> 7"
abbreviation READ :: u32 where "READ \<equiv> 0"
abbreviation WRITE :: u32 where "WRITE \<equiv> 1"
abbreviation READA :: u32 where "READA \<equiv> 2"
abbreviation WRITEA :: u32 where "WRITEA \<equiv> 3"

definition MAJOR :: "u32 \<Rightarrow> u32" where
  "MAJOR a = drop_bit 8 a"

definition MINOR :: "u32 \<Rightarrow> u32" where
  "MINOR a = a AND 0xff"

text \<open>\<open>while (locked) sleep_on(queue)\<close>, the loop of all the lock functions.\<close>

definition wait_while :: "(kstate \<Rightarrow> bool) \<Rightarrow> waitq \<Rightarrow> unit kernel" where
  "wait_while locked q =
     loop (\<lambda>_. bind (gets locked) (\<lambda>l.
       if l then seq (sleep_on q) (ret (Inl ())) else ret (Inr ()))) ()"

definition lock_buffer :: "nat \<Rightarrow> unit kernel" where
  "lock_buffer bh =
     seq (wait_while (\<lambda>s. b_lock (buffers s bh) \<noteq> 0) (B_wait bh))
         (modify (upd_buffer bh (\<lambda>b. b\<lparr>b_lock := 1\<rparr>)))"

definition unlock_buffer :: "nat \<Rightarrow> unit kernel" where
  "unlock_buffer bh =
     seq (modify (upd_buffer bh (\<lambda>b. b\<lparr>b_lock := 0\<rparr>))) (wake_up (B_wait bh))"

definition IN_ORDER :: "request \<Rightarrow> request \<Rightarrow> bool" where
  "IN_ORDER s1 s2 \<longleftrightarrow> r_cmd s1 <s r_cmd s2 \<or> r_cmd s1 = r_cmd s2 \<and>
     (r_dev s1 <s r_dev s2 \<or> (r_dev s1 = r_dev s2 \<and> r_sector s1 < r_sector s2))"

section \<open>The RAM disk\<close>

abbreviation RD_MAJOR :: nat where "RD_MAJOR \<equiv> 1"

text \<open>\<open>end_request\<close> as compiled into the RAM disk driver; \<open>r\<close> is \<open>CURRENT\<close>.\<close>

definition end_request :: "nat \<Rightarrow> u8 \<Rightarrow> unit kernel" where
  "end_request r uptodate =
     bind (gets (\<lambda>s. r_bh (requests s r))) (\<lambda>bh.
     seq (case bh of
            None \<Rightarrow> whenk (uptodate = 0) fault
          | Some b \<Rightarrow> seq (modify (upd_buffer b (\<lambda>h. h\<lparr>b_uptodate := uptodate\<rparr>))) (unlock_buffer b))
    (seq (wake_up (R_waiting r))
    (seq (wake_up Wait_for_request)
    (seq (modify (upd_request r (\<lambda>q. q\<lparr>r_dev := -1\<rparr>)))
         (modify (\<lambda>s. s\<lparr>current_request := (current_request s)(RD_MAJOR := r_next (requests s r))\<rparr>))))))"

text \<open>The two \<open>memcpy\<close>s, between the buffer and the image from byte \<open>off\<close> on.\<close>

definition image_write :: "nat \<Rightarrow> nat \<Rightarrow> block \<Rightarrow> (nat \<Rightarrow> u8) \<Rightarrow> nat \<Rightarrow> u8" where
  "image_write off len d im = (\<lambda>i. if off \<le> i \<and> i < off + len then d (i - off) else im i)"

definition image_read :: "nat \<Rightarrow> nat \<Rightarrow> (nat \<Rightarrow> u8) \<Rightarrow> block \<Rightarrow> block" where
  "image_read off len im d = (\<lambda>i. if i < len then im (off + i) else d i)"

definition rd_transfer :: "nat \<Rightarrow> nat \<Rightarrow> nat \<Rightarrow> u32 \<Rightarrow> unit kernel" where
  "rd_transfer b off len cmd =
     (if cmd = WRITE
      then modify (\<lambda>s. s\<lparr>rd_image := image_write off len (b_data (buffers s b)) (rd_image s)\<rparr>)
      else if cmd = READ
      then modify (\<lambda>s. upd_buffer b (\<lambda>h. h\<lparr>b_data := image_read off len (rd_image s) (b_data h)\<rparr>) s)
      else panic ''unknown ramdisk-command'')"

definition rd_request :: "nat \<Rightarrow> unit kernel" where
  "rd_request r =
     bind (gets (\<lambda>s. requests s r)) (\<lambda>q.
     if MAJOR (r_dev q) \<noteq> word_of_nat RD_MAJOR then panic ''ramdisk: request list destroyed''
     else bind (gets (\<lambda>s. case r_bh q of None \<Rightarrow> False | Some b \<Rightarrow> b_lock (buffers s b) = 0)) (\<lambda>unlocked.
     if unlocked then panic ''ramdisk: block not locked''
     else bind (gets (\<lambda>s. (rd_start s, rd_length s))) (\<lambda>(start, length).
       let off = push_bit 9 (r_sector q); len = push_bit 9 (r_nr_sectors q) in
       if MINOR (r_dev q) \<noteq> 1 \<or> start + length < start + off + len then end_request r 0
       else if unat length < unat off + unat len then fault
       else deref (r_bh q) (\<lambda>b.
         seq (rd_transfer b (unat off) (unat len) (r_cmd q)) (end_request r 1)))))"

definition do_rd_request :: "unit kernel" where
  "do_rd_request =
     loop (\<lambda>_. bind (gets (\<lambda>s. current_request s RD_MAJOR)) (\<lambda>c.
       case c of None \<Rightarrow> ret (Inr ()) | Some r \<Rightarrow> seq (rd_request r) (ret (Inl ())))) ()"

definition rd_init :: "u32 \<Rightarrow> u32 \<Rightarrow> kstate \<Rightarrow> kstate" where
  "rd_init img_start img_end s =
     s\<lparr>request_fn := (request_fn s)(RD_MAJOR := True), rd_start := img_start,
       rd_length := img_end - img_start\<rparr>"

section \<open>The request queue\<close>

text \<open>\<open>(dev->request_fn)()\<close>: \<open>rd_init\<close> is the only code that installs a request function.\<close>

definition call_request_fn :: "nat \<Rightarrow> unit kernel" where
  "call_request_fn major = (if major = RD_MAJOR then do_rd_request else fault)"

definition elevator_stop :: "request \<Rightarrow> request \<Rightarrow> request \<Rightarrow> bool" where
  "elevator_stop tmp req nx \<longleftrightarrow>
     (IN_ORDER tmp req \<or> \<not> IN_ORDER tmp nx) \<and> IN_ORDER req nx"

definition place_step :: "nat \<Rightarrow> nat \<Rightarrow> (nat + nat) kernel" where
  "place_step req tmp =
     bind (gets requests) (\<lambda>rs.
     case r_next (rs tmp) of
       None \<Rightarrow> ret (Inr tmp)
     | Some nx \<Rightarrow> ret (if elevator_stop (rs tmp) (rs req) (rs nx) then Inr tmp else Inl nx))"

definition find_place :: "nat \<Rightarrow> nat \<Rightarrow> nat kernel" where
  "find_place req tmp = loop (place_step req) tmp"

definition add_request :: "nat \<Rightarrow> nat \<Rightarrow> unit kernel" where
  "add_request major req =
     seq (modify (upd_request req (\<lambda>q. q\<lparr>r_next := None\<rparr>)))
    (seq (modify (\<lambda>s. case r_bh (requests s req) of
            None \<Rightarrow> s | Some b \<Rightarrow> upd_buffer b (\<lambda>h. h\<lparr>b_dirt := 0\<rparr>) s))
    (bind (gets (\<lambda>s. current_request s major)) (\<lambda>c.
     case c of
       None \<Rightarrow>
         seq (modify (\<lambda>s. s\<lparr>current_request := (current_request s)(major := Some req)\<rparr>))
             (call_request_fn major)
     | Some head \<Rightarrow>
         bind (find_place req head) (\<lambda>tmp.
         seq (modify (\<lambda>s. upd_request req (\<lambda>q. q\<lparr>r_next := r_next (requests s tmp)\<rparr>) s))
             (modify (upd_request tmp (\<lambda>q. q\<lparr>r_next := Some req\<rparr>)))))))"

text \<open>\<open>while (--req >= request)\<close>: the free request with the highest index below \<open>limit\<close>.\<close>

definition free_request :: "nat \<Rightarrow> kstate \<Rightarrow> nat option" where
  "free_request limit s = List.find (\<lambda>i. r_dev (requests s i) <s 0) (rev [0..<limit])"

definition fill_request :: "u32 \<Rightarrow> nat \<Rightarrow> nat \<Rightarrow> kstate \<Rightarrow> kstate" where
  "fill_request rw bh req s =
     upd_request req (\<lambda>q. \<lparr>r_dev = ucast (b_dev (buffers s bh)), r_cmd = rw, r_errors = 0,
       r_sector = push_bit 1 (b_blocknr (buffers s bh)), r_nr_sectors = 2,
       r_waiting = None, r_bh = Some bh, r_next = None\<rparr>) s"

definition get_request :: "u32 \<Rightarrow> bool \<Rightarrow> nat \<Rightarrow> nat option kernel" where
  "get_request rw rw_ahead bh =
     loop (\<lambda>_.
       bind (gets (free_request (if rw = READ then NR_REQUEST else NR_REQUEST * 2 div 3))) (\<lambda>r.
       case r of
         Some req \<Rightarrow> ret (Inr (Some req))
       | None \<Rightarrow>
           (if rw_ahead then seq (unlock_buffer bh) (ret (Inr None))
            else seq (sleep_on Wait_for_request) (ret (Inl ()))))) ()"

definition make_request :: "nat \<Rightarrow> u32 \<Rightarrow> nat \<Rightarrow> unit kernel" where
  "make_request major rw bh =
     bind (gets (\<lambda>s. b_lock (buffers s bh))) (\<lambda>lock.
     let rw_ahead = (rw = READA \<or> rw = WRITEA) in
     if rw_ahead \<and> lock \<noteq> 0 then skip
     else
       let rw = (if rw = READA then READ else if rw = WRITEA then WRITE else rw) in
       if rw \<noteq> READ \<and> rw \<noteq> WRITE then panic ''Bad block dev command, must be R/W/RA/WA''
       else
         seq (lock_buffer bh)
        (bind (gets (\<lambda>s. buffers s bh)) (\<lambda>b.
         if rw = WRITE \<and> b_dirt b = 0 \<or> rw = READ \<and> b_uptodate b \<noteq> 0 then unlock_buffer bh
         else bind (get_request rw rw_ahead bh) (\<lambda>r.
           case r of
             None \<Rightarrow> skip
           | Some req \<Rightarrow> seq (modify (fill_request rw bh req)) (add_request major req)))))"

definition ll_rw_block :: "u32 \<Rightarrow> nat \<Rightarrow> unit kernel" where
  "ll_rw_block rw bh =
     bind (gets (\<lambda>s. MAJOR (ucast (b_dev (buffers s bh))))) (\<lambda>major.
     bind (gets request_fn) (\<lambda>fn.
     if NR_BLK_DEV \<le> unat major \<or> \<not> fn (unat major) then skip
     else make_request (unat major) rw bh))"

definition blk_dev_init :: "kstate \<Rightarrow> kstate" where
  "blk_dev_init s =
     s\<lparr>requests := (\<lambda>i. if i < NR_REQUEST then (requests s i)\<lparr>r_dev := -1, r_next := None\<rparr> else requests s i)\<rparr>"

section \<open>Transfers to and from the RAM disk\<close>

lemma loop_exit: "0 < n \<Longrightarrow> f x n s = Done (Inr a) t \<Longrightarrow> loop f x n s = Done a t"
  by (cases n) (simp_all add: loop_def kexec)

lemma wait_while_exec: "\<not> locked s \<Longrightarrow> 0 < n \<Longrightarrow> wait_while locked q n s = Done () s"
  unfolding wait_while_def by (intro loop_exit) (simp_all add: kexec)

lemma find_rev_exists:
  "(\<And>i. i < m \<Longrightarrow> P i) \<Longrightarrow> 0 < m \<Longrightarrow> List.find P (rev [0..<m]) = Some (m - 1)"
  by (cases m) auto

text \<open>
  \<open>idle s\<close>: the RAM disk is wired up and no request is pending, as between any two
  operations of this driver. \<open>on_disk s b\<close>: the block of buffer head \<open>b\<close> lies on the RAM disk.
\<close>

definition idle :: "kstate \<Rightarrow> bool" where
  "idle s \<longleftrightarrow> request_fn s RD_MAJOR \<and> current_request s RD_MAJOR = None \<and>
     (\<forall>i<NR_REQUEST. r_dev (requests s i) <s 0) \<and>
     unat (rd_start s) + unat (rd_length s) < 2 ^ 32"

definition on_disk :: "kstate \<Rightarrow> buffer_head \<Rightarrow> bool" where
  "on_disk s b \<longleftrightarrow> b_dev b = 0x101 \<and> 1024 * (unat (b_blocknr b) + 1) \<le> unat (rd_length s)"

text \<open>What a completed transfer leaves of a buffer head and of the image.\<close>

definition done_buffer :: "kstate \<Rightarrow> u32 \<Rightarrow> buffer_head \<Rightarrow> buffer_head" where
  "done_buffer s rw b = b\<lparr>b_dirt := 0, b_lock := 0, b_wait := None, b_uptodate := 1,
     b_data := if rw = READ then image_read (1024 * unat (b_blocknr b)) 1024 (rd_image s) (b_data b) else b_data b\<rparr>"

definition done_image :: "kstate \<Rightarrow> u32 \<Rightarrow> buffer_head \<Rightarrow> nat \<Rightarrow> u8" where
  "done_image s rw b = (if rw = WRITE then image_write (1024 * unat (b_blocknr b)) 1024 (b_data b) (rd_image s) else rd_image s)"

text \<open>\<open>blk_frame s t\<close>: only the block layer's own variables and the states of woken tasks differ.\<close>

definition only_state :: "kstate \<Rightarrow> kstate \<Rightarrow> bool" where
  "only_state s t \<longleftrightarrow> (\<forall>i. (tasks t i)\<lparr>t_state := t_state (tasks s i)\<rparr> = tasks s i)"

definition blk_frame :: "kstate \<Rightarrow> kstate \<Rightarrow> bool" where
  "blk_frame s t \<longleftrightarrow> t\<lparr>buffers := buffers s, requests := requests s, current_request := current_request s,
     tasks := tasks s, wait_for_request := wait_for_request s, rd_image := rd_image s\<rparr> = s \<and> only_state s t"

lemma only_state_trans:
  assumes "only_state s t" "only_state t u"
  shows "only_state s u"
  unfolding only_state_def
proof
  fix i
  have "(tasks u i)\<lparr>t_state := t_state (tasks s i)\<rparr> = (tasks u i)\<lparr>t_state := t_state (tasks t i)\<rparr>\<lparr>t_state := t_state (tasks s i)\<rparr>" by simp
  also have "\<dots> = tasks s i" using assms by (simp add: only_state_def)
  finally show "(tasks u i)\<lparr>t_state := t_state (tasks s i)\<rparr> = tasks s i" .
qed

lemma only_state_wake_up: "only_state s t \<Longrightarrow> only_state s (wake_up_state q t)"
  by (cases q) (auto simp: only_state_def wake_up_state_def set_state_def upd_defs split: option.split)

lemma blk_frame_simps:
  assumes "blk_frame s t"
  shows "rd_start t = rd_start s" "rd_length t = rd_length s" "request_fn t = request_fn s"
    "current t = current s"
proof -
  have eq: "t\<lparr>buffers := buffers s, requests := requests s, current_request := current_request s,
     tasks := tasks s, wait_for_request := wait_for_request s, rd_image := rd_image s\<rparr> = s"
    using assms by (simp add: blk_frame_def)
  show "rd_start t = rd_start s" "rd_length t = rd_length s" "request_fn t = request_fn s" "current t = current s"
    using arg_cong [OF eq, of rd_start] arg_cong [OF eq, of rd_length] arg_cong [OF eq, of request_fn]
      arg_cong [OF eq, of current] by simp_all
qed

lemma wake_up_state_simps [simp]:
  "requests (wake_up_state q s) i =
     (if q = R_waiting i \<and> get_wait q s \<noteq> None then (requests s i)\<lparr>r_waiting := None\<rparr> else requests s i)"
  "buffers (wake_up_state q s) i =
     (if q = B_wait i \<and> get_wait q s \<noteq> None then (buffers s i)\<lparr>b_wait := None\<rparr> else buffers s i)"
  "current_request (wake_up_state q s) = current_request s" "rd_image (wake_up_state q s) = rd_image s"
  by (cases q; auto simp: wake_up_state_def set_state_def upd_defs split: option.split)+

lemma wake_up_blk_frame:
  "blk_frame s t \<Longrightarrow> q \<in> {B_wait b, R_waiting r, Wait_for_request} \<Longrightarrow> blk_frame s (wake_up_state q t)"
  unfolding blk_frame_def
proof (intro conjI, goal_cases)
  case 1
  then show ?case by (auto simp: wake_up_state_def set_state_def upd_defs split: option.split)
qed (simp add: only_state_wake_up)

lemma blk_frame_refl [simp]: "blk_frame s s"
  by (simp add: blk_frame_def only_state_def)

lemma blk_frame_trans:
  assumes "blk_frame s t" "blk_frame t u"
  shows "blk_frame s u"
proof -
  let ?set = "\<lambda>w s. w\<lparr>buffers := buffers s, requests := requests s, current_request := current_request s,
     tasks := tasks s, wait_for_request := wait_for_request s, rd_image := rd_image s\<rparr>"
  have "?set u s = ?set (?set u t) s" by simp
  with assms show ?thesis using only_state_trans [of s t u] by (simp add: blk_frame_def)
qed

lemma blk_frame_upd [simp]:
  "blk_frame s (upd_buffer b f t) = blk_frame s t" "blk_frame s (upd_request r g t) = blk_frame s t"
  "blk_frame s (t\<lparr>current_request := c\<rparr>) = blk_frame s t" "blk_frame s (t\<lparr>rd_image := im\<rparr>) = blk_frame s t"
  by (simp_all add: blk_frame_def only_state_def upd_defs)

lemma end_request_returns:
  assumes "r_bh (requests s r) = Some b"
  shows "returns (end_request r u n s) (\<lambda>_ t. blk_frame s t \<and> rd_image t = rd_image s \<and>
     buffers t = (buffers s)(b := (buffers s b)\<lparr>b_uptodate := u, b_lock := 0, b_wait := None\<rparr>) \<and>
     (\<forall>i. r_dev (requests t i) = (if i = r then -1 else r_dev (requests s i))) \<and>
     current_request t = (current_request s)(RD_MAJOR := r_next (requests s r)))"
proof -
  let ?s1 = "upd_buffer b (\<lambda>h. h\<lparr>b_lock := 0\<rparr>) (upd_buffer b (\<lambda>h. h\<lparr>b_uptodate := u\<rparr>) s)"
  let ?s2 = "wake_up_state Wait_for_request (wake_up_state (R_waiting r) (wake_up_state (B_wait b) ?s1))"
  let ?s3 = "upd_request r (\<lambda>q. q\<lparr>r_dev := -1\<rparr>) ?s2"
  let ?t = "?s3\<lparr>current_request := (current_request ?s3)(RD_MAJOR := r_next (requests ?s3 r))\<rparr>"
  have run: "end_request r u n s = Done () ?t"
    by (simp add: end_request_def unlock_buffer_def wake_up_def kexec assms)
  have "blk_frame s ?s1" by simp
  then have "blk_frame s ?t" by (simp add: wake_up_blk_frame)
  moreover have "buffers ?t i = ((buffers s)(b := (buffers s b)\<lparr>b_uptodate := u, b_lock := 0, b_wait := None\<rparr>)) i" for i
    by (auto simp: upd_request_def upd_buffer_def intro!: buffer_head.equality)
  moreover have "rd_image ?t = rd_image s" "current_request ?t = (current_request s)(RD_MAJOR := r_next (requests s r))"
    by (simp_all add: upd_request_def upd_buffer_def)
  moreover have "r_dev (requests ?t i) = (if i = r then -1 else r_dev (requests s i))" for i
    by (simp add: upd_request_def upd_buffer_def)
  ultimately show ?thesis unfolding run by (auto simp: fun_eq_iff)
qed

lemma sector_offset:
  assumes "1024 * (unat (b :: u32) + 1) \<le> unat (l :: u32)"
  shows "unat (push_bit 9 (push_bit 1 b)) = 1024 * unat b"
proof -
  have "unat l < 4294967296" using unsigned_less [of l] by simp
  then have "1024 * unat b < 4294967296" using assms by simp
  then show ?thesis
    by (simp add: push_bit_eq_mult unat_word_ariths)
qed

lemma rd_request_returns:
  assumes q: "requests s r = q" "r_bh q = Some b" "r_dev q = 0x101" "r_nr_sectors q = 2"
      "r_sector q = push_bit 1 (b_blocknr (buffers s b))" "r_cmd q = rw" "rw = READ \<or> rw = WRITE"
    and b: "b_lock (buffers s b) \<noteq> 0" "on_disk s (buffers s b)"
    and rd: "unat (rd_start s) + unat (rd_length s) < 2 ^ 32"
  shows "returns (rd_request r n s) (\<lambda>_ t. blk_frame s t \<and>
     rd_image t = done_image s rw (buffers s b) \<and>
     buffers t = (buffers s)(b := (done_buffer s rw (buffers s b))\<lparr>b_dirt := b_dirt (buffers s b)\<rparr>) \<and>
     (\<forall>i. r_dev (requests t i) = (if i = r then -1 else r_dev (requests s i))) \<and>
     current_request t = (current_request s)(RD_MAJOR := r_next q))"
proof -
  let ?b = "buffers s b"
  let ?off = "push_bit 9 (r_sector q)"
  have range: "1024 * (unat (b_blocknr ?b) + 1) \<le> unat (rd_length s)" using b(2) by (simp add: on_disk_def)
  have off: "unat ?off = 1024 * unat (b_blocknr ?b)" using sector_offset [OF range] q(5) by simp
  have wrap: "\<not> rd_start s + rd_length s < rd_start s + ?off + push_bit 9 2"
  proof -
    have "unat (rd_start s + ?off + 1024) = unat (rd_start s) + unat ?off + 1024"
      using off range rd by (simp add: unat_word_ariths)
    moreover have "unat (rd_start s + rd_length s) = unat (rd_start s) + unat (rd_length s)"
      using rd by (simp add: unat_word_ariths)
    ultimately show ?thesis using off range by (simp add: word_less_nat_alt push_bit_eq_mult)
  qed
  let ?s = "if rw = WRITE then s\<lparr>rd_image := image_write (unat ?off) 1024 (b_data ?b) (rd_image s)\<rparr>
     else upd_buffer b (\<lambda>h. h\<lparr>b_data := image_read (unat ?off) 1024 (rd_image s) (b_data h)\<rparr>) s"
  have bound: "unat ?off + 1024 \<le> unat (rd_length s)" using off range by simp
  have run: "rd_request r n s = end_request r 1 n ?s"
    unfolding rd_request_def rd_transfer_def Let_def
    using q b(1) wrap bound by (auto simp: kexec MAJOR_def MINOR_def push_bit_eq_mult)
  have "r_bh (requests ?s r) = Some b" "r_next (requests ?s r) = r_next q"
    using q(1,2) by (simp_all add: upd_buffer_def)
  note e = end_request_returns [OF this(1), of 1 n, unfolded this(2)]
  show ?thesis unfolding run
  proof (rule returns_mono [OF e], elim conjE, intro conjI)
    fix t assume "blk_frame ?s t"
    moreover have "blk_frame s ?s" by simp
    ultimately show "blk_frame s t" by (blast intro: blk_frame_trans)
  next
    fix t assume "buffers t = (buffers ?s)(b := (buffers ?s b)\<lparr>b_uptodate := 1, b_lock := 0, b_wait := None\<rparr>)"
    then show "buffers t = (buffers s)(b := (done_buffer s rw ?b)\<lparr>b_dirt := b_dirt ?b\<rparr>)"
      using q(7) off by (auto simp: done_buffer_def upd_buffer_def intro!: ext)
  next
    fix t assume "rd_image t = rd_image ?s"
    then show "rd_image t = done_image s rw ?b" using q(7) off by (auto simp: done_image_def upd_buffer_def)
  qed (auto simp: upd_buffer_def)
qed

text \<open>One transfer through an idle queue, from \<open>ll_rw_block\<close> to the driver and back.\<close>

lemma ll_rw_block_transfers:
  assumes idle: "idle s" and b: "b_lock (buffers s b) = 0" "on_disk s (buffers s b)"
    and rw: "rw = READ \<and> b_uptodate (buffers s b) = 0 \<or> rw = WRITE \<and> b_dirt (buffers s b) \<noteq> 0"
    and fuel: "2 \<le> n"
  shows "returns (ll_rw_block rw b n s) (\<lambda>_ t. blk_frame s t \<and> idle t \<and>
     buffers t = (buffers s)(b := done_buffer s rw (buffers s b)) \<and>
     rd_image t = done_image s rw (buffers s b))"
proof -
  let ?b = "buffers s b"
  define m :: nat where "m = (if rw = READ then NR_REQUEST else NR_REQUEST * 2 div 3)"
  define s1 where "s1 = upd_buffer b (\<lambda>h. h\<lparr>b_lock := 1\<rparr>) s"
  define s2 where "s2 = fill_request rw b (m - 1) s1"
  define s3 where "s3 = upd_buffer b (\<lambda>h. h\<lparr>b_dirt := 0\<rparr>) (upd_request (m - 1) (\<lambda>q. q\<lparr>r_next := None\<rparr>) s2)"
  define s4 where "s4 = s3\<lparr>current_request := (current_request s3)(RD_MAJOR := Some (m - 1))\<rparr>"
  have m: "m \<le> NR_REQUEST" "0 < m" by (auto simp: m_def)
  have dev: "b_dev ?b = 0x101" using b(2) by (simp add: on_disk_def)
  have n: "0 < n" using fuel by simp
  have free: "free_request m s1 = Some (m - 1)"
    using find_rev_exists [of m "\<lambda>i. r_dev (requests s i) <s 0"] idle m
    by (simp add: free_request_def idle_def s1_def upd_buffer_def)
  have lock: "lock_buffer b n s = Done () s1"
    using b(1) n by (simp add: lock_buffer_def kexec wait_while_exec s1_def)
  have get: "get_request rw False b n s1 = Done (Some (m - 1)) s1"
    unfolding get_request_def using free n by (intro loop_exit) (simp_all add: kexec m_def)
  have s1b: "b_dirt (buffers s1 b) = b_dirt ?b" "b_uptodate (buffers s1 b) = b_uptodate ?b"
    by (simp_all add: s1_def upd_buffer_def)
  have "make_request 1 rw b n s = add_request 1 (m - 1) n s2"
    using rw lock get s1b by (auto simp: make_request_def kexec Let_def s2_def)
  moreover have "ll_rw_block rw b n s = make_request 1 rw b n s"
    using idle by (simp add: ll_rw_block_def kexec dev MAJOR_def idle_def)
  moreover have "add_request 1 (m - 1) n s2 = do_rd_request n s4"
    using idle by (simp add: add_request_def kexec call_request_fn_def s4_def s3_def s2_def s1_def
        fill_request_def upd_defs idle_def)
  ultimately have run: "ll_rw_block rw b n s = do_rd_request n s4" by simp
  have s4: "requests s4 (m - 1) = \<lparr>r_dev = 0x101, r_cmd = rw, r_errors = 0,
       r_sector = push_bit 1 (b_blocknr ?b), r_nr_sectors = 2, r_waiting = None, r_bh = Some b, r_next = None\<rparr>"
    "buffers s4 = (buffers s)(b := ?b\<lparr>b_lock := 1, b_dirt := 0\<rparr>)" "rd_image s4 = rd_image s"
    "current_request s4 = (current_request s)(RD_MAJOR := Some (m - 1))" "rd_length s4 = rd_length s" "rd_start s4 = rd_start s"
    "\<And>i. i \<noteq> m - 1 \<Longrightarrow> requests s4 i = requests s i" "blk_frame s s4"
    by (simp_all add: s4_def s3_def s2_def s1_def fill_request_def upd_defs dev blk_frame_def only_state_def fun_eq_iff)
  have rd: "returns (rd_request (m - 1) n s4) (\<lambda>_ t. blk_frame s4 t \<and>
     rd_image t = done_image s4 rw (buffers s4 b) \<and>
     buffers t = (buffers s4)(b := (done_buffer s4 rw (buffers s4 b))\<lparr>b_dirt := b_dirt (buffers s4 b)\<rparr>) \<and>
     (\<forall>i. r_dev (requests t i) = (if i = m - 1 then -1 else r_dev (requests s4 i))) \<and>
     current_request t = (current_request s4)(RD_MAJOR := None))"
    by (rule returns_mono, rule rd_request_returns [OF s4(1)])
      (use rw b(2) idle s4 in \<open>auto simp: on_disk_def idle_def\<close>)
  then obtain t where t: "rd_request (m - 1) n s4 = Done () t" "blk_frame s4 t"
    "rd_image t = done_image s4 rw (buffers s4 b)"
    "buffers t = (buffers s4)(b := (done_buffer s4 rw (buffers s4 b))\<lparr>b_dirt := b_dirt (buffers s4 b)\<rparr>)"
    "\<And>i. r_dev (requests t i) = (if i = m - 1 then -1 else r_dev (requests s4 i))"
    "current_request t = (current_request s4)(RD_MAJOR := None)"
    unfolding returns_def by auto
  obtain k where k: "n = Suc (Suc k)" using fuel by (cases n; cases "n - 1") auto
  have "do_rd_request n s4 = Done () t"
    using t(1,6) s4(4) unfolding do_rd_request_def loop_def k by (simp add: kexec)
  moreover have "blk_frame s t" using blk_frame_trans [OF s4(8) t(2)] .
  moreover have "idle t"
    using idle blk_frame_simps [OF \<open>blk_frame s t\<close>] t(5,6) s4(4,7)
    by (auto simp: idle_def)
  moreover have "buffers t = (buffers s)(b := done_buffer s rw ?b)" "rd_image t = done_image s rw ?b"
    by (simp_all add: t(3,4) s4 done_buffer_def done_image_def fun_eq_iff)
  ultimately show ?thesis by (simp add: run)
qed

text \<open>
  C22: Through an idle queue, writing a dirty buffer to its block of the RAM disk and reading
  that block back into another buffer delivers the bytes that were written, marks both
  buffers up to date and unlocked, leaves the queue idle again, and changes no byte of the
  image outside the block.
\<close>

theorem ramdisk_write_read:
  assumes "idle s" "b \<noteq> c" "2 \<le> n"
    and "b_lock (buffers s b) = 0" "b_dirt (buffers s b) \<noteq> 0" "on_disk s (buffers s b)"
    and "b_lock (buffers s c) = 0" "b_uptodate (buffers s c) = 0" "on_disk s (buffers s c)"
    and "b_blocknr (buffers s c) = b_blocknr (buffers s b)"
  shows "returns (seq (ll_rw_block WRITE b) (ll_rw_block READ c) n s) (\<lambda>_ t. idle t \<and>
     b_uptodate (buffers t b) = 1 \<and> b_uptodate (buffers t c) = 1 \<and> b_dirt (buffers t b) = 0 \<and>
     b_lock (buffers t b) = 0 \<and> b_lock (buffers t c) = 0 \<and>
     (\<forall>i<1024. b_data (buffers t c) i = b_data (buffers s b) i) \<and>
     (\<forall>i. i div 1024 \<noteq> unat (b_blocknr (buffers s b)) \<longrightarrow> rd_image t i = rd_image s i))"
proof -
  let ?k = "unat (b_blocknr (buffers s b))"
  obtain t where t: "ll_rw_block WRITE b n s = Done () t" "blk_frame s t" "idle t"
    "buffers t = (buffers s)(b := done_buffer s WRITE (buffers s b))"
    "rd_image t = done_image s WRITE (buffers s b)"
    using ll_rw_block_transfers [of s b WRITE n] assms by (auto simp: returns_def)
  have c: "buffers t c = buffers s c" using assms(2) t(4) by simp
  have disk: "on_disk t (buffers t c)"
    using assms(9) c blk_frame_simps [OF t(2)] by (simp add: on_disk_def)
  obtain u where u: "ll_rw_block READ c n t = Done () u" "idle u"
    "buffers u = (buffers t)(c := done_buffer t READ (buffers t c))"
    "rd_image u = done_image t READ (buffers t c)"
    using ll_rw_block_transfers [OF t(3), of c READ n] assms c disk by (auto simp: returns_def)
  have "seq (ll_rw_block WRITE b) (ll_rw_block READ c) n s = Done () u"
    by (simp add: kexec t(1) u(1))
  moreover have "b_data (buffers u c) i = b_data (buffers s b) i" if "i < 1024" for i
    using that c by (simp add: u(3) t(5) done_buffer_def done_image_def image_read_def image_write_def assms(10))
  moreover have "rd_image u i = rd_image s i" if "i div 1024 \<noteq> ?k" for i
  proof -
    have "1024 * ?k \<le> i \<and> i < 1024 * ?k + 1024 \<Longrightarrow> False" using that by auto
    then show ?thesis by (auto simp: u(4) t(5) done_image_def image_write_def)
  qed
  ultimately show ?thesis
    using u(2,3) t(4) assms(2) by (simp add: done_buffer_def)
qed

definition small_disk :: kstate where
  "small_disk = rd_init 0x80100000 0x80110000 (blk_dev_init (boot_state\<lparr>
     buffers := (\<lambda>i. zero_buffer\<lparr>b_dev := 0x101, b_blocknr := 3, b_dirt := if i = 0 then 1 else 0,
       b_data := (\<lambda>j. if i = 0 then word_of_nat j else 0)\<rparr>)\<rparr>))"

theorem ramdisk_write_read_witness:
  "returns (seq (ll_rw_block WRITE 0) (ll_rw_block READ 1) 2 small_disk)
     (\<lambda>_ t. idle t \<and> (\<forall>i<1024. b_data (buffers t 1) i = word_of_nat i))"
proof -
  have "idle small_disk"
    by (simp add: idle_def small_disk_def rd_init_def blk_dev_init_def boot_state_def word_sless_alt)
  moreover have "\<And>i. on_disk small_disk (buffers small_disk i)"
    by (simp add: on_disk_def small_disk_def rd_init_def blk_dev_init_def)
  moreover have b: "\<And>i. b_lock (buffers small_disk i) = 0" "b_dirt (buffers small_disk 0) = 1"
    "b_uptodate (buffers small_disk 1) = 0" "\<And>i. b_blocknr (buffers small_disk i) = 3"
    "b_data (buffers small_disk 0) = (\<lambda>j. word_of_nat j)"
    by (simp_all add: small_disk_def rd_init_def blk_dev_init_def zero_buffer_def)
  ultimately show ?thesis
    by (intro returns_mono [OF ramdisk_write_read [of small_disk 0 1 2]]) simp_all
qed

section \<open>The elevator\<close>

text \<open>The pending requests of a device, in the order in which they will be served.\<close>

abbreviation queue :: "kstate \<Rightarrow> nat option \<Rightarrow> nat list \<Rightarrow> bool" where
  "queue s \<equiv> chain (\<lambda>i. r_next (requests s i))"

text \<open>The position at which the search of \<open>add_request\<close> stops.\<close>

primrec place :: "(nat \<Rightarrow> request) \<Rightarrow> nat \<Rightarrow> nat \<Rightarrow> nat list \<Rightarrow> nat list" where
  "place rs r x [] = [x, r]"
| "place rs r x (y # ys) = (if elevator_stop (rs x) (rs r) (rs y) then x # r # y # ys else x # place rs r y ys)"

definition key :: "request \<Rightarrow> int \<times> int \<times> nat" where
  "key r = (sint (r_cmd r), sint (r_dev r), unat (r_sector r))"

fun before :: "int \<times> int \<times> nat \<Rightarrow> int \<times> int \<times> nat \<Rightarrow> bool" where
  "before (a, b, c) (x, y, z) \<longleftrightarrow> a < x \<or> a = x \<and> (b < y \<or> b = y \<and> c < z)"

lemma sint_eq: "sint (a :: u32) = sint b \<longleftrightarrow> a = b"
  by (metis signed_word_eqI)

lemma IN_ORDER_key: "IN_ORDER r q \<longleftrightarrow> before (key r) (key q)"
  by (simp add: IN_ORDER_def key_def word_sless_alt word_less_nat_alt sint_eq)

lemma IN_ORDER_linear:
  "IN_ORDER r q \<Longrightarrow> IN_ORDER q p \<Longrightarrow> IN_ORDER r p"
  "key r \<noteq> key q \<Longrightarrow> IN_ORDER r q \<or> IN_ORDER q r"
  by (cases "key r"; cases "key q"; cases "key p"; auto simp: IN_ORDER_key)+

text \<open>How often the service order turns back.\<close>

fun descents :: "request list \<Rightarrow> nat" where
  "descents (x # y # ys) = (if IN_ORDER x y then 0 else 1) + descents (y # ys)"
| "descents _ = 0"

lemma place_head: "\<exists>zs. place rs r x xs = x # zs"
  by (cases xs) simp_all

lemma descents_place:
  "(\<And>y. y \<in> set (x # xs) \<Longrightarrow> key (rs y) \<noteq> key (rs r)) \<Longrightarrow>
   descents (map rs (place rs r x xs)) \<le> descents (map rs (x # xs)) +
     (if descents (map rs (x # xs)) = 0 \<and> IN_ORDER (rs r) (rs x) then 1 else 0)"
proof (induction xs arbitrary: x)
  case Nil
  then show ?case using IN_ORDER_linear(2) [of "rs x" "rs r"] by auto
next
  case (Cons y ys)
  show ?case
  proof (cases "elevator_stop (rs x) (rs r) (rs y)")
    case True
    then show ?thesis by (auto simp: elevator_stop_def)
  next
    case False
    obtain zs where zs: "place rs r y ys = y # zs" using place_head by blast
    have "key (rs x) \<noteq> key (rs r)" using Cons.prems by simp
    then show ?thesis
      using False Cons.IH [of y] Cons.prems IN_ORDER_linear(2) [of "rs x" "rs r"]
      by (auto simp: zs elevator_stop_def split: if_splits)
  qed
qed

text \<open>
  A request fits between two neighbours of the queue when it comes before the second, and after the first unless the
  service order turns back there.
\<close>

definition fits :: "request \<Rightarrow> request \<Rightarrow> request \<Rightarrow> bool" where
  "fits a r b \<longleftrightarrow> before (key r) (key b) \<and> (before (key a) (key r) \<or> \<not> before (key a) (key b))"

lemma elevator_stop_fits: "elevator_stop a r b = fits a r b"
  by (auto simp: elevator_stop_def fits_def IN_ORDER_key)

text \<open>It is put at the first such place, or at the end.\<close>

lemma place_first:
  "\<exists>k\<le>length xs. place rs r x xs = take (Suc k) (x # xs) @ r # drop (Suc k) (x # xs) \<and>
     (\<forall>i<k. \<not> fits (rs ((x # xs) ! i)) (rs r) (rs (xs ! i))) \<and> (k < length xs \<longrightarrow> fits (rs ((x # xs) ! k)) (rs r) (rs (xs ! k)))"
proof (induction xs arbitrary: x)
  case (Cons y ys)
  show ?case
  proof (cases "fits (rs x) (rs r) (rs y)")
    case True
    then show ?thesis by (intro exI [of _ 0]) (simp add: elevator_stop_fits)
  next
    case False
    obtain k where k: "k \<le> length ys" "place rs r y ys = take (Suc k) (y # ys) @ r # drop (Suc k) (y # ys)"
      "\<forall>i<k. \<not> fits (rs ((y # ys) ! i)) (rs r) (rs (ys ! i))" "k < length ys \<longrightarrow> fits (rs ((y # ys) ! k)) (rs r) (rs (ys ! k))"
      using Cons.IH by blast
    then show ?thesis using False by (intro exI [of _ "Suc k"]) (auto simp: elevator_stop_fits less_Suc_eq_0_disj)
  qed
qed simp

lemma place_step_exec:
  "place_step r x n s = (case r_next (requests s x) of
     None \<Rightarrow> Done (Inr x) s
   | Some y \<Rightarrow> Done (if elevator_stop (requests s x) (requests s r) (requests s y) then Inr x else Inl y) s)"
  by (simp add: place_step_def kexec split: option.split)

lemma find_place_exec:
  "queue s (Some x) (x # xs) \<Longrightarrow> length xs < k \<Longrightarrow>
   \<exists>pre t post. loop_fuel k (place_step r) x n s = Done t s \<and>
     x # xs = pre @ t # post \<and> place (requests s) r x xs = pre @ t # r # post"
proof (induction xs arbitrary: x k)
  case Nil
  then obtain k' where "k = Suc k'" by (cases k) auto
  with Nil show ?case by (auto simp: kexec place_step_exec intro!: exI [of _ "[]"])
next
  case (Cons y ys)
  then obtain k' where k: "k = Suc k'" by (cases k) auto
  have nxt: "r_next (requests s x) = Some y" "queue s (Some y) (y # ys)" using Cons.prems(1) by auto
  show ?case
  proof (cases "elevator_stop (requests s x) (requests s r) (requests s y)")
    case True
    then show ?thesis using nxt
      by (intro exI [of _ "[]"] exI [of _ x] exI [of _ "y # ys"]) (simp add: k kexec place_step_exec)
  next
    case False
    from Cons.IH [OF nxt(2), of k'] Cons.prems(2) k obtain pre t post where
      "loop_fuel k' (place_step r) y n s = Done t s"
      "y # ys = pre @ t # post" "place (requests s) r y ys = pre @ t # r # post" by auto
    moreover from this(1) False nxt have "loop_fuel k (place_step r) x n s = Done t s"
      by (simp add: k kexec place_step_exec [of r x n s])
    moreover have "place (requests s) r x (y # ys) = x # place (requests s) r y ys" using False by simp
    ultimately show ?thesis
      by (intro exI [of _ "x # pre"] exI [of _ t] exI [of _ post]) (simp del: place.simps)
  qed
qed

text \<open>
  C23: Adding a request to a non-empty queue inserts it, behind the request being served, at the first place where it
  fits between its neighbours, or at the end when there is none, keeps the order of all others and changes nothing of
  any request but the links, and the elevator keeps its promise: if the service order turns back at most once (one
  sweep over the disk, then the next), it still does so after the insertion of a request with a position of its own.
\<close>

theorem add_request_elevator:
  assumes q: "queue s (current_request s m) (x # xs)" and d: "distinct (x # xs)" and new: "r \<notin> set (x # xs)"
    and fuel: "length xs < n"
    and pos: "\<And>y. y \<in> set (x # xs) \<Longrightarrow> key (requests s y) \<noteq> key (requests s r)"
    and sweeps: "descents (map (requests s) (x # xs)) \<le> 1"
  shows "returns (add_request m r n s) (\<lambda>_ t. \<exists>k\<le>length xs.
     (let ys = take (Suc k) (x # xs) @ r # drop (Suc k) (x # xs) in
      queue t (current_request t m) ys \<and> descents (map (requests t) ys) \<le> 1) \<and>
     (\<forall>i<k. \<not> fits (requests s ((x # xs) ! i)) (requests s r) (requests s (xs ! i))) \<and>
     (k < length xs \<longrightarrow> fits (requests s ((x # xs) ! k)) (requests s r) (requests s (xs ! k))) \<and>
     (\<forall>y. (requests t y)\<lparr>r_next := None\<rparr> = (requests s y)\<lparr>r_next := None\<rparr>))"
proof -
  define s1 where "s1 = (case r_bh (requests s r) of
     None \<Rightarrow> upd_request r (\<lambda>q. q\<lparr>r_next := None\<rparr>) s
   | Some b \<Rightarrow> upd_buffer b (\<lambda>h. h\<lparr>b_dirt := 0\<rparr>) (upd_request r (\<lambda>q. q\<lparr>r_next := None\<rparr>) s))"
  have s1: "requests s1 = (requests s)(r := (requests s r)\<lparr>r_next := None\<rparr>)" "current_request s1 = current_request s"
    by (simp_all add: s1_def upd_defs split: option.split)
  have "queue s1 (Some x) (x # xs) = queue s (Some x) (x # xs)"
    using new by (intro chain_cong) (auto simp: s1)
  then have q1: "queue s1 (Some x) (x # xs)" and cur: "current_request s m = Some x" using q by auto
  from find_place_exec [OF q1 fuel, of r n]
  obtain pre t post where find: "find_place r x n s1 = Done t s1"
    and split: "x # xs = pre @ t # post" "place (requests s1) r x xs = pre @ t # r # post"
    unfolding find_place_def loop_def by blast
  define s3 where "s3 = upd_request t (\<lambda>q. q\<lparr>r_next := Some r\<rparr>)
     (upd_request r (\<lambda>q. q\<lparr>r_next := r_next (requests s1 t)\<rparr>) s1)"
  have run: "add_request m r n s = Done () s3"
    using find cur by (simp add: add_request_def kexec s1_def upd_defs s3_def split: option.splits)
  have tr: "t \<noteq> r" using new split(1) by auto
  have next3: "(\<lambda>i. r_next (requests s3 i)) = (\<lambda>i. r_next (requests s1 i))(r := r_next (requests s1 t), t := Some r)"
    using tr by (auto simp: s3_def upd_request_def fun_eq_iff)
  have cur3: "current_request s3 m = Some x" using cur s1 by (simp add: s3_def upd_request_def)
  have "queue s3 (Some x) (pre @ t # r # post)"
    unfolding next3 using q1 d new split(1) by (intro chain_insert) auto
  then have queue: "queue s3 (current_request s3 m) (place (requests s1) r x xs)" using split(2) cur3 by simp
  have same: "(requests s3 y)\<lparr>r_next := None\<rparr> = (requests s y)\<lparr>r_next := None\<rparr>" for y
    by (simp add: s3_def s1 upd_request_def)
  have key: "key (requests s3 y) = key (requests s y)" "key (requests s1 y) = key (requests s y)" for y
    by (simp_all add: s3_def s1 upd_request_def key_def)
  have desc: "descents (map (requests s3) zs) = descents (map (requests s) zs)" "descents (map (requests s1) zs) = descents (map (requests s) zs)" for zs
    by (induction zs rule: induct_list012) (simp_all add: IN_ORDER_key key)
  have "descents (map (requests s1) (place (requests s1) r x xs)) \<le> descents (map (requests s1) (x # xs)) +
     (if descents (map (requests s1) (x # xs)) = 0 \<and> IN_ORDER (requests s1 r) (requests s1 x) then 1 else 0)"
    using pos by (intro descents_place) (simp add: key)
  then have "descents (map (requests s3) (place (requests s1) r x xs)) \<le> 1" using sweeps unfolding desc by (simp split: if_splits)
  moreover have "fits (requests s1 a) (requests s1 b) (requests s1 c) = fits (requests s a) (requests s b) (requests s c)" for a b c
    by (simp add: fits_def key)
  ultimately show ?thesis using place_first [of xs "requests s1" r x] queue same unfolding run returns_Done Let_def by metis
qed

text \<open>Sector 10 is served, 30 and 20 wait, the new request is for sector 25.\<close>

theorem add_request_elevator_witness:
  "let s = boot_state\<lparr>current_request := (\<lambda>_. Some 0), requests := (\<lambda>_. zero_request)
       (0 := zero_request\<lparr>r_sector := 10, r_next := Some 1\<rparr>, 1 := zero_request\<lparr>r_sector := 30, r_next := Some 2\<rparr>,
        2 := zero_request\<lparr>r_sector := 20\<rparr>, 3 := zero_request\<lparr>r_sector := 25\<rparr>)\<rparr>
   in returns (add_request 1 3 3 s) (\<lambda>_ t. queue t (current_request t 1) [0, 3, 1, 2])"
proof -
  define s where "s = boot_state\<lparr>current_request := (\<lambda>_. Some 0), requests := (\<lambda>_. zero_request)
       (0 := zero_request\<lparr>r_sector := 10, r_next := Some 1\<rparr>, 1 := zero_request\<lparr>r_sector := 30, r_next := Some 2\<rparr>,
        2 := zero_request\<lparr>r_sector := 20\<rparr>, 3 := zero_request\<lparr>r_sector := 25\<rparr>)\<rparr>"
  have keys: "key (requests s 0) = (0, 0, 10)" "key (requests s 1) = (0, 0, 30)" "key (requests s 2) = (0, 0, 20)" "key (requests s 3) = (0, 0, 25)"
    by (simp_all add: s_def key_def zero_request_def)
  have fit: "fits (requests s 0) (requests s 3) (requests s 1)" unfolding fits_def keys by simp
  have "returns (add_request 1 3 3 s) (\<lambda>_ t. \<exists>k\<le>length [1 :: nat, 2].
     (let ys = take (Suc k) [0, 1, 2] @ 3 # drop (Suc k) [0, 1, 2] in
      queue t (current_request t 1) ys \<and> descents (map (requests t) ys) \<le> 1) \<and>
     (\<forall>i<k. \<not> fits (requests s ([0, 1, 2] ! i)) (requests s 3) (requests s ([1, 2] ! i))) \<and>
     (k < length [1 :: nat, 2] \<longrightarrow> fits (requests s ([0, 1, 2] ! k)) (requests s 3) (requests s ([1, 2] ! k))) \<and>
     (\<forall>y. (requests t y)\<lparr>r_next := None\<rparr> = (requests s y)\<lparr>r_next := None\<rparr>))"
  proof (rule add_request_elevator)
    show "queue s (current_request s 1) [0, 1, 2]" by (simp add: s_def zero_request_def)
    show "descents (map (requests s) [0, 1, 2]) \<le> 1" by (simp add: IN_ORDER_key keys [unfolded One_nat_def])
    show "key (requests s y) \<noteq> key (requests s 3)" if "y \<in> set [0, 1, 2]" for y using that by (auto simp: keys keys [unfolded One_nat_def])
  qed simp_all
  then have "returns (add_request 1 3 3 s) (\<lambda>_ t. queue t (current_request t 1) [0, 3, 1, 2])"
  proof (rule returns_mono, elim exE conjE, goal_cases)
    case (1 u t k)
    then have "k = 0" using fit by (cases k) auto
    then show ?case using 1 by (simp add: Let_def)
  qed
  then show ?thesis by (simp add: s_def)
qed

end
