(* ===== verification/Blockdata.thy ===== *)
theory Blockdata
  imports KState
begin

text \<open>
  The contents of disk blocks: little-endian access to the 16- and 32-bit numbers in a block
  (\<open>((unsigned short *) bh->b_data)[i]\<close> and the like), and the on-disk structures of
  \<^verbatim>\<open>include/linux/fs.h\<close> as they lie in a block: inodes, directory entries, the super block.
\<close>

section \<open>Numbers in a block\<close>

definition get16 :: "block \<Rightarrow> nat \<Rightarrow> u16" where
  "get16 d a = ucast (d a) OR push_bit 8 (ucast (d (a + 1)))"

definition put16 :: "nat \<Rightarrow> u16 \<Rightarrow> block \<Rightarrow> block" where
  "put16 a v d = d(a := ucast v, a + 1 := ucast (drop_bit 8 v))"

definition get32 :: "block \<Rightarrow> nat \<Rightarrow> u32" where
  "get32 d a = ucast (get16 d a) OR push_bit 16 (ucast (get16 d (a + 2)))"

definition put32 :: "nat \<Rightarrow> u32 \<Rightarrow> block \<Rightarrow> block" where
  "put32 a v d = put16 (a + 2) (ucast (drop_bit 16 v)) (put16 a (ucast v) d)"

text \<open>Element \<open>i\<close> of the block seen as an array of \<open>unsigned short\<close>.\<close>

definition zone_at :: "block \<Rightarrow> nat \<Rightarrow> u16" where
  "zone_at d i = get16 d (2 * i)"

definition set_zone_at :: "nat \<Rightarrow> u16 \<Rightarrow> block \<Rightarrow> block" where
  "set_zone_at i v d = put16 (2 * i) v d"

section \<open>Inodes\<close>

text \<open>Structure number \<open>k\<close> of the block seen as an array of \<open>struct d_inode\<close>, 32 bytes each.\<close>

definition get_d_inode :: "block \<Rightarrow> nat \<Rightarrow> d_inode" where
  "get_d_inode d k =
     \<lparr>d_mode = get16 d (32 * k), d_uid = get16 d (32 * k + 2), d_size = get32 d (32 * k + 4),
      d_time = get32 d (32 * k + 8), d_gid = d (32 * k + 12), d_nlinks = d (32 * k + 13),
      d_zone = (\<lambda>i. if i < 9 then get16 d (32 * k + 14 + 2 * i) else 0)\<rparr>"

primrec put_zones :: "nat \<Rightarrow> (nat \<Rightarrow> u16) \<Rightarrow> nat list \<Rightarrow> block \<Rightarrow> block" where
  "put_zones a z [] d = d"
| "put_zones a z (i # is) d = put_zones a z is (put16 (a + 2 * i) (z i) d)"

definition put_d_inode :: "nat \<Rightarrow> d_inode \<Rightarrow> block \<Rightarrow> block" where
  "put_d_inode k v d =
     put_zones (32 * k + 14) (d_zone v) [0..<9]
      ((put32 (32 * k + 8) (d_time v)
        (put32 (32 * k + 4) (d_size v)
         (put16 (32 * k + 2) (d_uid v)
          (put16 (32 * k) (d_mode v) d))))
       (32 * k + 12 := d_gid v, 32 * k + 13 := d_nlinks v))"

text \<open>\<open>*(struct d_inode *)inode\<close>: the part of an inode in memory that is also on disk.\<close>

definition disk_part :: "m_inode \<Rightarrow> d_inode" where
  "disk_part m = \<lparr>d_mode = i_mode m, d_uid = i_uid m, d_size = i_size m, d_time = i_mtime m,
     d_gid = i_gid m, d_nlinks = i_nlinks m, d_zone = (\<lambda>i. if i < 9 then i_zone m i else 0)\<rparr>"

definition set_disk_part :: "d_inode \<Rightarrow> m_inode \<Rightarrow> m_inode" where
  "set_disk_part v m = m\<lparr>i_mode := d_mode v, i_uid := d_uid v, i_size := d_size v, i_mtime := d_time v,
     i_gid := d_gid v, i_nlinks := d_nlinks v, i_zone := d_zone v\<rparr>"

section \<open>Directory entries and the super block\<close>

definition get_dir_entry :: "block \<Rightarrow> nat \<Rightarrow> dir_entry" where
  "get_dir_entry d k =
     \<lparr>de_inode = get16 d (16 * k), de_name = (\<lambda>i. if i < NAME_LEN then d (16 * k + 2 + i) else 0)\<rparr>"

definition set_de_inode :: "nat \<Rightarrow> u16 \<Rightarrow> block \<Rightarrow> block" where
  "set_de_inode k v d = put16 (16 * k) v d"

definition set_de_name :: "nat \<Rightarrow> nat \<Rightarrow> u8 \<Rightarrow> block \<Rightarrow> block" where
  "set_de_name k i c d = d(16 * k + 2 + i := c)"

definition get_d_super :: "block \<Rightarrow> super_block \<Rightarrow> super_block" where
  "get_d_super d sb = sb\<lparr>s_ninodes := get16 d 0, s_nzones := get16 d 2, s_imap_blocks := get16 d 4,
     s_zmap_blocks := get16 d 6, s_firstdatazone := get16 d 8, s_log_zone_size := get16 d 10,
     s_max_size := get32 d 12, s_magic := get16 d 16\<rparr>"

section \<open>Round trips\<close>

lemma get16_put16 [simp]: "get16 (put16 a v d) a = v"
  unfolding get16_def put16_def by (rule bit_word_eqI) (auto simp: bit_simps)

lemma get16_put16_other [simp]: "a + 2 \<le> b \<or> b + 2 \<le> a \<Longrightarrow> get16 (put16 a v d) b = get16 d b"
  by (auto simp: get16_def put16_def)

lemma put16_other [simp]: "i \<noteq> a \<Longrightarrow> i \<noteq> a + 1 \<Longrightarrow> put16 a v d i = d i"
  by (simp add: put16_def)

lemma get16_upd_other [simp]: "i \<noteq> a \<Longrightarrow> i \<noteq> a + 1 \<Longrightarrow> get16 (d(i := v)) a = get16 d a"
  by (simp add: get16_def)

lemma get32_put32 [simp]: "get32 (put32 a v d) a = v"
  unfolding get32_def put32_def by (rule bit_word_eqI) (auto simp: bit_simps)

lemma get16_put32_other [simp]: "a + 4 \<le> b \<or> b + 2 \<le> a \<Longrightarrow> get16 (put32 a v d) b = get16 d b"
  by (auto simp: put32_def)

lemma get32_put16_other [simp]: "a + 2 \<le> b \<or> b + 4 \<le> a \<Longrightarrow> get32 (put16 a v d) b = get32 d b"
  by (auto simp: get32_def)

lemma get32_put32_other [simp]: "a + 4 \<le> b \<or> b + 4 \<le> a \<Longrightarrow> get32 (put32 a v d) b = get32 d b"
  by (auto simp: get32_def)

lemma get32_upd_other [simp]: "i < a \<or> a + 4 \<le> i \<Longrightarrow> get32 (d(i := v)) a = get32 d a"
  by (auto simp: get32_def)

lemma put32_other [simp]: "i < a \<or> a + 4 \<le> i \<Longrightarrow> put32 a v d i = d i"
  by (auto simp: put32_def)

lemma put_zones_other [simp]:
  "(\<And>i. i \<in> set is \<Longrightarrow> b \<noteq> a + 2 * i \<and> b \<noteq> a + 2 * i + 1) \<Longrightarrow> put_zones a z is d b = d b"
  by (induction "is" arbitrary: d) auto

lemma put_zones_get:
  "distinct is \<Longrightarrow> j \<in> set is \<Longrightarrow> get16 (put_zones a z is d) (a + 2 * j) = z j"
proof (induction "is" arbitrary: d)
  case (Cons i "is")
  show ?case
  proof (cases "j \<in> set is")
    case False
    with Cons.prems have "j = i" by simp
    moreover have "\<And>b. b \<in> {a + 2 * i, a + 2 * i + 1} \<Longrightarrow>
        put_zones a z is (put16 (a + 2 * i) (z i) d) b = put16 (a + 2 * i) (z i) d b"
      using Cons.prems by (intro put_zones_other) (auto, presburger+)
    then have "get16 (put_zones a z is (put16 (a + 2 * i) (z i) d)) (a + 2 * i)
        = get16 (put16 (a + 2 * i) (z i) d) (a + 2 * i)"
      by (simp add: get16_def)
    ultimately show ?thesis by simp
  qed (use Cons in auto)
qed simp

lemma put_zones_get16_other:
  assumes "b + 2 \<le> a"
  shows "get16 (put_zones a z is d) b = get16 d b"
proof -
  have "put_zones a z is d c = d c" if "c < a" for c using that by (intro put_zones_other) auto
  with assms show ?thesis by (simp add: get16_def)
qed

lemma put_zones_get32_other: "b + 4 \<le> a \<Longrightarrow> get32 (put_zones a z is d) b = get32 d b"
  by (simp add: get32_def put_zones_get16_other)

lemma put_d_inode_other: "b < 32 * k \<or> 32 * k + 32 \<le> b \<Longrightarrow> put_d_inode k v d b = d b"
  unfolding put_d_inode_def by (subst put_zones_other) auto

lemma get_put_d_inode:
  "get_d_inode (put_d_inode k v d) k = v\<lparr>d_zone := (\<lambda>i. if i < 9 then d_zone v i else 0)\<rparr>"
proof -
  define e where "e = (put32 (32 * k + 8) (d_time v) (put32 (32 * k + 4) (d_size v)
     (put16 (32 * k + 2) (d_uid v) (put16 (32 * k) (d_mode v) d))))
       (32 * k + 12 := d_gid v, 32 * k + 13 := d_nlinks v)"
  have p: "put_d_inode k v d = put_zones (32 * k + 14) (d_zone v) [0..<9] e"
    by (simp add: put_d_inode_def e_def)
  have "get16 e (32 * k) = d_mode v" "get16 e (32 * k + 2) = d_uid v" "get32 e (32 * k + 4) = d_size v"
    "get32 e (32 * k + 8) = d_time v" "e (32 * k + 12) = d_gid v" "e (32 * k + 13) = d_nlinks v"
    by (simp_all add: e_def)
  moreover have "get16 (put_d_inode k v d) (32 * k + 14 + 2 * i) = d_zone v i" if "i < 9" for i
    unfolding p using that by (intro put_zones_get) auto
  moreover have "put_d_inode k v d b = e b" if "b < 32 * k + 14" for b
    unfolding p using that by (intro put_zones_other) auto
  ultimately show ?thesis
    by (intro d_inode.equality)
      (simp_all add: get_d_inode_def p put_zones_get16_other put_zones_get32_other fun_eq_iff)
qed

lemma get_d_inode_cong:
  "(\<And>i. i < 32 \<Longrightarrow> d (32 * k + i) = e (32 * k + i)) \<Longrightarrow> get_d_inode d k = get_d_inode e k"
proof -
  assume eq: "\<And>i. i < 32 \<Longrightarrow> d (32 * k + i) = e (32 * k + i)"
  have g16: "get16 d (32 * k + i) = get16 e (32 * k + i)" if "i < 31" for i
    using that eq [of i] eq [of "Suc i"] by (simp add: get16_def)
  have g32: "get32 d (32 * k + i) = get32 e (32 * k + i)" if "i < 29" for i
    using that g16 [of i] g16 [of "i + 2"] by (simp add: get32_def add.assoc)
  show ?thesis
    using g16 [of 0] g16 [of 2] g32 [of 4] g32 [of 8] eq [of 12] eq [of 13] g16 [of "14 + 2 * _"]
    by (auto simp: get_d_inode_def add.assoc)
qed

text \<open>
  Storing an inode in slot \<open>k\<close> of an inode block and loading slot \<open>k\<close> gives the inode
  back, field by field; every other slot of the block keeps its inode.
\<close>

lemma d_inode_slots:
  "get_d_inode (put_d_inode k (disk_part m) d) j = (if j = k then disk_part m else get_d_inode d j)"
proof (cases "j = k")
  case True
  then show ?thesis unfolding True get_put_d_inode by (simp add: disk_part_def fun_eq_iff)
next
  case False
  have "get_d_inode (put_d_inode k (disk_part m) d) j = get_d_inode d j"
  proof (rule get_d_inode_cong, rule put_d_inode_other)
    fix i :: nat assume "i < 32"
    then show "32 * j + i < 32 * k \<or> 32 * k + 32 \<le> 32 * j + i" using False by linarith
  qed
  then show ?thesis using False by simp
qed

end
