(* ===== verification/Buffer.thy ===== *)
theory Buffer
  imports Blk Blockdata
begin

text \<open>
  The buffer cache, \<^verbatim>\<open>fs/buffer.c\<close>: the hash queues and the circular free list as linked
  structures over the buffer heads, the search for a buffer, and \<open>getblk\<close>. \<open>getblk\<close> calls
  \<open>sync_dev\<close>, which writes inodes back and so calls \<open>getblk\<close> again; here \<open>sync_dev\<close> is an
  argument, the theory \<open>Sync\<close> ties the knot.
\<close>

section \<open>Queues\<close>

definition wait_on_buffer :: "nat \<Rightarrow> unit kernel" where
  "wait_on_buffer bh = wait_while (\<lambda>s. b_lock (buffers s bh) \<noteq> 0) (B_wait bh)"

definition hashfn :: "u32 \<Rightarrow> u32 \<Rightarrow> nat" where
  "hashfn dev block = unat (dev XOR block) mod NR_HASH"

definition hash_of :: "buffer_head \<Rightarrow> nat" where
  "hash_of b = hashfn (ucast (b_dev b)) (b_blocknr b)"

definition set_hash :: "nat \<Rightarrow> nat option \<Rightarrow> kstate \<Rightarrow> kstate" where
  "set_hash h p s = s\<lparr>hash_table := (hash_table s)(h := p)\<rparr>"

definition unlink_hash :: "nat \<Rightarrow> kstate \<Rightarrow> kstate" where
  "unlink_hash bh s =
     (let b = buffers s bh;
          s = (case b_next b of None \<Rightarrow> s | Some i \<Rightarrow> upd_buffer i (b_prev_update (\<lambda>_. b_prev b)) s);
          s = (case b_prev b of None \<Rightarrow> s | Some i \<Rightarrow> upd_buffer i (b_next_update (\<lambda>_. b_next b)) s)
      in if hash_table s (hash_of b) = Some bh then set_hash (hash_of b) (b_next b) s else s)"

definition remove_from_queues :: "nat \<Rightarrow> unit kernel" where
  "remove_from_queues bh =
     seq (modify (unlink_hash bh))
    (bind (gets (\<lambda>s. buffers s bh)) (\<lambda>b.
     case (b_prev_free b, b_next_free b) of
       (Some p, Some q) \<Rightarrow>
         seq (modify (upd_buffer p (b_next_free_update (\<lambda>_. Some q))))
        (seq (modify (upd_buffer q (b_prev_free_update (\<lambda>_. Some p))))
             (modify (\<lambda>s. if free_list s = bh then s\<lparr>free_list := q\<rparr> else s)))
     | _ \<Rightarrow> panic ''Free block list corrupted''))"

definition link_hash :: "nat \<Rightarrow> kstate \<Rightarrow> kstate" where
  "link_hash bh s =
     (let b = buffers s bh; old = hash_table s (hash_of b);
          s = upd_buffer bh (b_next_update (\<lambda>_. old)) s;
          s = set_hash (hash_of b) (Some bh) s
      in case old of None \<Rightarrow> s | Some i \<Rightarrow> upd_buffer i (b_prev_update (\<lambda>_. Some bh)) s)"

definition insert_into_queues :: "nat \<Rightarrow> unit kernel" where
  "insert_into_queues bh =
     seq (modify (\<lambda>s. upd_buffer bh (\<lambda>b. b\<lparr>b_next_free := Some (free_list s),
            b_prev_free := b_prev_free (buffers s (free_list s))\<rparr>) s))
    (bind (gets (\<lambda>s. b_prev_free (buffers s (free_list s)))) (\<lambda>p.
     deref p (\<lambda>tail.
       seq (modify (upd_buffer tail (b_next_free_update (\<lambda>_. Some bh))))
      (seq (modify (\<lambda>s. upd_buffer (free_list s) (b_prev_free_update (\<lambda>_. Some bh)) s))
      (seq (modify (upd_buffer bh (\<lambda>b. b\<lparr>b_prev := None, b_next := None\<rparr>)))
           (modify (\<lambda>s. if b_dev (buffers s bh) = 0 then s else link_hash bh s)))))))"

section \<open>Finding a buffer\<close>

definition find_step :: "u32 \<Rightarrow> u32 \<Rightarrow> nat option \<Rightarrow> (nat option + nat option) kernel" where
  "find_step dev block tmp =
     (case tmp of
        None \<Rightarrow> ret (Inr None)
      | Some i \<Rightarrow>
          bind (gets (\<lambda>s. buffers s i)) (\<lambda>b.
          ret (if ucast (b_dev b) = dev \<and> b_blocknr b = block then Inr (Some i) else Inl (b_next b))))"

definition find_buffer :: "u32 \<Rightarrow> u32 \<Rightarrow> nat option kernel" where
  "find_buffer dev block =
     bind (gets (\<lambda>s. hash_table s (hashfn dev block))) (loop (find_step dev block))"

definition get_hash_table :: "u32 \<Rightarrow> u32 \<Rightarrow> nat option kernel" where
  "get_hash_table dev block =
     loop (\<lambda>_.
       bind (find_buffer dev block) (\<lambda>p.
       case p of
         None \<Rightarrow> ret (Inr None)
       | Some bh \<Rightarrow>
           seq (modify (upd_buffer bh (\<lambda>b. b\<lparr>b_count := b_count b + 1\<rparr>)))
          (seq (wait_on_buffer bh)
          (bind (gets (\<lambda>s. buffers s bh)) (\<lambda>b.
           if ucast (b_dev b) = dev \<and> b_blocknr b = block then ret (Inr (Some bh))
           else seq (modify (upd_buffer bh (\<lambda>b. b\<lparr>b_count := b_count b - 1\<rparr>))) (ret (Inl ()))))))) ()"

definition BADNESS :: "buffer_head \<Rightarrow> nat" where
  "BADNESS b = 2 * unat (b_dirt b) + unat (b_lock b)"

text \<open>
  One round of the search for the least bad free buffer: \<open>tmp\<close> walks along the free list,
  \<open>bh\<close> is the best buffer so far.
\<close>

definition victim_step :: "nat \<times> nat option \<Rightarrow> (nat \<times> nat option + nat option) kernel" where
  "victim_step = (\<lambda>(tmp, bh).
     bind (gets id) (\<lambda>s.
     let t = buffers s tmp;
         better = (b_count t = 0 \<and> (case bh of None \<Rightarrow> True | Some i \<Rightarrow> BADNESS t < BADNESS (buffers s i)));
         bh' = (if better then Some tmp else bh)
     in if better \<and> BADNESS t = 0 then ret (Inr bh')
        else deref (b_next_free t) (\<lambda>nx.
          ret (if nx = free_list s then Inr bh' else Inl (nx, bh')))))"

definition find_victim :: "nat option kernel" where
  "find_victim = bind (gets free_list) (\<lambda>f. loop victim_step (f, None))"

text \<open>\<open>while (bh->b_dirt)\<close>: \<open>Inr True\<close> when the buffer was taken meanwhile (\<open>goto repeat\<close>).\<close>

definition clean_step :: "(u32 \<Rightarrow> u32 kernel) \<Rightarrow> nat \<Rightarrow> unit \<Rightarrow> (unit + bool) kernel" where
  "clean_step sync_dev bh _ =
     bind (gets (\<lambda>s. buffers s bh)) (\<lambda>b.
     if b_dirt b = 0 then ret (Inr False)
     else bind (sync_dev (ucast (b_dev b))) (\<lambda>_.
       seq (wait_on_buffer bh)
      (bind (gets (\<lambda>s. b_count (buffers s bh))) (\<lambda>c.
       ret (if c \<noteq> 0 then Inr True else Inl ())))))"

definition take_buffer :: "u32 \<Rightarrow> u32 \<Rightarrow> nat \<Rightarrow> unit kernel" where
  "take_buffer dev block bh =
     seq (modify (upd_buffer bh (\<lambda>b. b\<lparr>b_count := 1, b_dirt := 0, b_uptodate := 0\<rparr>)))
    (seq (remove_from_queues bh)
    (seq (modify (upd_buffer bh (\<lambda>b. b\<lparr>b_dev := ucast dev, b_blocknr := block\<rparr>)))
         (insert_into_queues bh)))"

definition getblk_step :: "(u32 \<Rightarrow> u32 kernel) \<Rightarrow> u32 \<Rightarrow> u32 \<Rightarrow> unit \<Rightarrow> (unit + nat) kernel" where
  "getblk_step sync_dev dev block _ =
     bind (get_hash_table dev block) (\<lambda>r.
     case r of
       Some bh \<Rightarrow> ret (Inr bh)
     | None \<Rightarrow>
         bind find_victim (\<lambda>v.
         case v of
           None \<Rightarrow> seq (sleep_on Buffer_wait) (ret (Inl ()))
         | Some bh \<Rightarrow>
             seq (wait_on_buffer bh)
            (bind (gets (\<lambda>s. b_count (buffers s bh))) (\<lambda>c.
             if c \<noteq> 0 then ret (Inl ())
             else bind (loop (clean_step sync_dev bh) ()) (\<lambda>taken.
               if taken then ret (Inl ())
               else bind (find_buffer dev block) (\<lambda>f.
                 if f \<noteq> None then ret (Inl ())
                 else seq (take_buffer dev block bh) (ret (Inr bh))))))))"

definition getblk_with :: "(u32 \<Rightarrow> u32 kernel) \<Rightarrow> u32 \<Rightarrow> u32 \<Rightarrow> nat kernel" where
  "getblk_with sync_dev dev block = loop (getblk_step sync_dev dev block) ()"

definition brelse_buf :: "nat \<Rightarrow> unit kernel" where
  "brelse_buf buf =
     seq (wait_on_buffer buf)
    (bind (gets (\<lambda>s. b_count (buffers s buf))) (\<lambda>c.
     seq (modify (upd_buffer buf (\<lambda>b. b\<lparr>b_count := b_count b - 1\<rparr>)))
         (if c = 0 then panic ''Trying to free free buffer'' else wake_up Buffer_wait)))"

definition brelse :: "nat option \<Rightarrow> unit kernel" where
  "brelse buf = (case buf of None \<Rightarrow> skip | Some b \<Rightarrow> brelse_buf b)"

text \<open>\<open>bread\<close> over a given \<open>getblk\<close>.\<close>

definition bread_with :: "(u32 \<Rightarrow> u32 \<Rightarrow> nat kernel) \<Rightarrow> u32 \<Rightarrow> u32 \<Rightarrow> nat option kernel" where
  "bread_with getblk dev block =
     bind (getblk dev block) (\<lambda>bh.
     bind (gets (\<lambda>s. b_uptodate (buffers s bh))) (\<lambda>u.
     if u \<noteq> 0 then ret (Some bh)
     else seq (ll_rw_block READ bh)
         (seq (wait_on_buffer bh)
         (bind (gets (\<lambda>s. b_uptodate (buffers s bh))) (\<lambda>u.
          if u \<noteq> 0 then ret (Some bh) else seq (brelse (Some bh)) (ret None))))))"

section \<open>Initialisation\<close>

text \<open>
  The layout loop of \<open>buffer_init\<close>: heads of 36 bytes grow upwards from \<open>start\<close>, data blocks
  downwards from the end of the buffer memory; the result lists the addresses of the data
  blocks, one per buffer head.
\<close>

abbreviation HEAD_SIZE :: u32 where "HEAD_SIZE \<equiv> 36"

primrec buffer_layout :: "nat \<Rightarrow> u32 \<Rightarrow> u32 \<Rightarrow> u32 list option" where
  "buffer_layout 0 h b = None"
| "buffer_layout (Suc k) h b =
     (let b' = b - 1024 in
      if h + HEAD_SIZE \<le> b'
      then map_option (Cons b') (buffer_layout k (h + HEAD_SIZE) (if b' = 0x100000 then 0xA0000 else b'))
      else Some [])"

definition init_head :: "nat \<Rightarrow> nat \<Rightarrow> buffer_head \<Rightarrow> buffer_head" where
  "init_head nr i b = b\<lparr>b_dev := 0, b_dirt := 0, b_count := 0, b_lock := 0, b_uptodate := 0, b_wait := None,
     b_next := None, b_prev := None,
     b_prev_free := Some (if i = 0 then nr - 1 else i - 1),
     b_next_free := Some (if i = nr - 1 then 0 else i + 1)\<rparr>"

definition buffer_init :: "u32 \<Rightarrow> u32 \<Rightarrow> unit kernel" where
  "buffer_init start_buffer buffer_end = (\<lambda>n s.
     let b = (if buffer_end = 0x100000 then 0xA0000 else buffer_end) in
     case buffer_layout n start_buffer b of
       None \<Rightarrow> NoFuel
     | Some [] \<Rightarrow> Fault s
     | Some ds \<Rightarrow>
         let nr = length ds in
         Done () (s\<lparr>buffers := (\<lambda>i. if i < nr then init_head nr i (buffers s i) else buffers s i),
                   nr_buffers := nr_buffers s + nr, free_list := 0,
                   hash_table := (\<lambda>i. if i < NR_HASH then None else hash_table s i)\<rparr>))"

end
