(* ===== verification/Memory.thy ===== *)
theory Memory
  imports KState
begin

text \<open>
  Page management, \<^verbatim>\<open>mm/memory.c\<close> with the helpers of \<^verbatim>\<open>include/linux/mm.h\<close>,
  \<^verbatim>\<open>include/asm/memory.h\<close> and the user-space accessors of \<^verbatim>\<open>include/asm/segment.h\<close>:
  the page allocator over the reference counts \<open>mem_map\<close>, Sv32 page directories in \<open>ram\<close>,
  copy-on-write duplication, and the walk that gives the kernel access to user memory.
\<close>

section \<open>Page table entries\<close>

abbreviation PTE_V :: u32 where "PTE_V \<equiv> 1"
abbreviation PTE_W :: u32 where "PTE_W \<equiv> 4"
abbreviation PTE_U :: u32 where "PTE_U \<equiv> 16"
abbreviation PTE_USER_RW :: u32 where "PTE_USER_RW \<equiv> 0xd7"
abbreviation PTE_USER_RWX :: u32 where "PTE_USER_RWX \<equiv> 0xdf"

definition pte_phys :: "u32 \<Rightarrow> u32" where
  "pte_phys pte = push_bit 12 (drop_bit 10 pte AND 0x3fffff)"

definition phys_ppn :: "u32 \<Rightarrow> u32" where
  "phys_ppn phys = push_bit 10 (drop_bit 12 phys)"

definition clear_W :: "u32 \<Rightarrow> u32" where
  "clear_W e = e AND NOT PTE_W"

definition MAP_NR :: "u32 \<Rightarrow> nat" where
  "MAP_NR addr = unat (drop_bit 12 (addr - RAM_BASE))"

text \<open>Word \<open>i\<close> of an array of \<open>unsigned long\<close> at \<open>p\<close>; the indices of the two walk levels.\<close>

definition word_at :: "u32 \<Rightarrow> nat \<Rightarrow> u32" where
  "word_at p i = p + 4 * word_of_nat i"

definition dir_index :: "u32 \<Rightarrow> nat" where
  "dir_index address = unat (drop_bit 22 address)"

definition pt_index :: "u32 \<Rightarrow> nat" where
  "pt_index address = unat (drop_bit 12 address AND 0x3ff)"

section \<open>The allocator\<close>

definition set_ram :: "u32 \<Rightarrow> u32 \<Rightarrow> kstate \<Rightarrow> kstate" where
  "set_ram a v s = s\<lparr>ram := (ram s)(a := v)\<rparr>"

definition set_map :: "nat \<Rightarrow> u8 \<Rightarrow> kstate \<Rightarrow> kstate" where
  "set_map i v s = s\<lparr>mem_map := (mem_map s)(i := v)\<rparr>"

primrec zero_words :: "u32 \<Rightarrow> nat list \<Rightarrow> (u32 \<Rightarrow> u32) \<Rightarrow> u32 \<Rightarrow> u32" where
  "zero_words p [] m = m"
| "zero_words p (i # is) m = zero_words p is (m(word_at p i := 0))"

definition zero_page :: "u32 \<Rightarrow> kstate \<Rightarrow> kstate" where
  "zero_page page s = s\<lparr>ram := zero_words page [0..<1024] (ram s)\<rparr>"

primrec copy_words :: "u32 \<Rightarrow> u32 \<Rightarrow> nat list \<Rightarrow> (u32 \<Rightarrow> u32) \<Rightarrow> u32 \<Rightarrow> u32" where
  "copy_words from to [] m = m"
| "copy_words from to (i # is) m = copy_words from to is (m(word_at to i := m (word_at from i)))"

definition copy_page :: "u32 \<Rightarrow> u32 \<Rightarrow> kstate \<Rightarrow> kstate" where
  "copy_page from to s = s\<lparr>ram := copy_words from to [0..<1024] (ram s)\<rparr>"

definition frame_addr :: "nat \<Rightarrow> u32" where
  "frame_addr i = RAM_BASE + push_bit 12 (word_of_nat i)"

definition get_free_page :: "u32 kernel" where
  "get_free_page =
     bind (gets mem_map) (\<lambda>mm.
     case search (\<lambda>i. mm i = 0) 0 PAGING_PAGES of
       Some i \<Rightarrow>
         seq (modify (set_map i 1))
        (seq (modify (zero_page (frame_addr i)))
             (ret (frame_addr i)))
     | None \<Rightarrow> ret 0)"

text \<open>\<open>mem_map[i]\<close>, an access out of the array's bounds being undefined.\<close>

definition map_at :: "nat \<Rightarrow> u8 kernel" where
  "map_at i = (if i < PAGING_PAGES then gets (\<lambda>s. mem_map s i) else fault)"

definition free_page :: "u32 \<Rightarrow> unit kernel" where
  "free_page addr =
     (if addr < RAM_BASE then skip
      else if RAM_END \<le> addr then panic ''trying to free nonexistent page''
      else bind (map_at (MAP_NR addr)) (\<lambda>c.
        if c = 0 then panic ''trying to free free page''
        else modify (set_map (MAP_NR addr) (c - 1))))"

section \<open>Page directories\<close>

definition pte_lookup :: "u32 \<Rightarrow> u32 \<Rightarrow> kstate \<Rightarrow> u32 option" where
  "pte_lookup pgd address s =
     (if pgd = 0 then None
      else let dir = ram s (word_at pgd (dir_index address)) in
        if dir AND PTE_V = 0 then None
        else Some (word_at (pte_phys dir) (pt_index address)))"

definition put_page_pgdir :: "u32 \<Rightarrow> u32 \<Rightarrow> u32 \<Rightarrow> u32 kernel" where
  "put_page_pgdir pgd page address =
     (if USER_LIMIT \<le> address then ret 0
      else if page < RAM_BASE \<or> RAM_END \<le> page then ret 0
      else
        bind (gets (\<lambda>s. ram s (word_at pgd (dir_index address)))) (\<lambda>dir.
        bind (if dir AND PTE_V = 0
              then bind get_free_page (\<lambda>tmp.
                if tmp = 0 then ret None
                else seq (modify (set_ram (word_at pgd (dir_index address)) (phys_ppn tmp OR PTE_V)))
                         (ret (Some (phys_ppn tmp OR PTE_V))))
              else ret (Some dir)) (\<lambda>d.
        case d of
          None \<Rightarrow> ret 0
        | Some dir' \<Rightarrow>
            seq (modify (set_ram (word_at (pte_phys dir') (pt_index address))
                          (phys_ppn page OR PTE_USER_RWX)))
                (ret page))))"

definition put_page :: "u32 \<Rightarrow> u32 \<Rightarrow> u32 kernel" where
  "put_page page address = bind (gets (\<lambda>s. pgdir (cur s))) (\<lambda>pgd. put_page_pgdir pgd page address)"

definition free_pt_entry :: "u32 \<Rightarrow> nat \<Rightarrow> unit kernel" where
  "free_pt_entry pt j =
     bind (gets (\<lambda>s. ram s (word_at pt j))) (\<lambda>e.
     whenk (e AND PTE_V \<noteq> 0) (free_page (pte_phys e)))"

definition free_dir_entry :: "u32 \<Rightarrow> nat \<Rightarrow> unit kernel" where
  "free_dir_entry pgd i =
     bind (gets (\<lambda>s. ram s (word_at pgd i))) (\<lambda>d.
     whenk (d AND PTE_V \<noteq> 0)
       (seq (for_each [0..<1024] (free_pt_entry (pte_phys d)))
       (seq (free_page (pte_phys d))
            (modify (set_ram (word_at pgd i) 0)))))"

definition free_page_tables :: "u32 \<Rightarrow> u32 kernel" where
  "free_page_tables pgd =
     (if pgd = 0 then ret 0
      else seq (for_each [0..<USER_PGD_ENTRIES] (free_dir_entry pgd))
          (seq (free_page pgd) (ret 0)))"

text \<open>
  Copy-on-write duplication: \<open>copy_pt_entry\<close> is the body of the inner loop, for one leaf
  entry; \<open>copy_dir_entry\<close> the body of the outer one, which may return \<open>-1\<close>.
\<close>

definition copy_pt_entry :: "u32 \<Rightarrow> u32 \<Rightarrow> nat \<Rightarrow> unit kernel" where
  "copy_pt_entry from_pt to_pt j =
     bind (gets (\<lambda>s. ram s (word_at from_pt j))) (\<lambda>e.
     whenk (e AND PTE_V \<noteq> 0)
       (let this_page = clear_W e in
        seq (modify (set_ram (word_at from_pt j) this_page))
       (seq (modify (set_ram (word_at to_pt j) this_page))
            (whenk (RAM_BASE \<le> pte_phys this_page)
              (bind (map_at (MAP_NR (pte_phys this_page))) (\<lambda>c.
               modify (set_map (MAP_NR (pte_phys this_page)) (c + 1))))))))"

definition copy_dir_entry :: "u32 \<Rightarrow> u32 \<Rightarrow> nat \<Rightarrow> u32 option kernel" where
  "copy_dir_entry from_dir to_dir i =
     bind (gets (\<lambda>s. ram s (word_at from_dir i))) (\<lambda>fd.
     if fd AND PTE_V = 0 then ret None
     else bind (gets (\<lambda>s. ram s (word_at to_dir i))) (\<lambda>td.
       if td AND PTE_V \<noteq> 0 then panic ''copy_page_tables: already exist''
       else bind get_free_page (\<lambda>new_table.
         if new_table = 0 then ret (Some (-1))
         else seq (modify (set_ram (word_at to_dir i) (phys_ppn new_table OR PTE_V)))
             (seq (for_each [0..<1024] (copy_pt_entry (pte_phys fd) new_table))
                  (ret None)))))"

definition copy_page_tables :: "u32 \<Rightarrow> u32 \<Rightarrow> u32 kernel" where
  "copy_page_tables from_pgdir to_pgdir =
     (if from_pgdir = 0 \<or> to_pgdir = 0 then panic ''copy_page_tables: bad pgdir''
      else for_ret [0..<USER_PGD_ENTRIES] (copy_dir_entry from_pgdir to_pgdir) (ret 0))"

section \<open>User memory and page faults\<close>

definition translate_user :: "u32 \<Rightarrow> kstate \<Rightarrow> u32" where
  "translate_user addr s =
     (if pgdir (cur s) = 0 then addr
      else if USER_LIMIT \<le> addr then -1
      else case pte_lookup (pgdir (cur s)) addr s of
        None \<Rightarrow> -1
      | Some pte \<Rightarrow>
          (if ram s pte AND PTE_V = 0 \<or> ram s pte AND PTE_U = 0 then -1
           else pte_phys (ram s pte) OR (addr AND 0xfff)))"

definition uaccess_fault :: "'a kernel" where
  "uaccess_fault = exit_task 11"

definition un_wp_page :: "u32 \<Rightarrow> unit kernel" where
  "un_wp_page table_entry =
     bind (gets (\<lambda>s. pte_phys (ram s table_entry))) (\<lambda>old_page.
     bind (if RAM_BASE \<le> old_page then bind (map_at (MAP_NR old_page)) (\<lambda>c. ret (c = 1))
           else ret False) (\<lambda>sole.
     if sole then modify (\<lambda>s. set_ram table_entry (ram s table_entry OR PTE_W) s)
     else bind get_free_page (\<lambda>new_page.
       if new_page = 0 then exit_task 11
       else
         seq (whenk (RAM_BASE \<le> old_page)
               (bind (map_at (MAP_NR old_page)) (\<lambda>c. modify (set_map (MAP_NR old_page) (c - 1)))))
        (seq (modify (set_ram table_entry (phys_ppn new_page OR PTE_USER_RW)))
             (modify (copy_page old_page new_page))))))"

definition get_empty_page :: "u32 \<Rightarrow> unit kernel" where
  "get_empty_page address =
     bind get_free_page (\<lambda>tmp.
     bind (if tmp = 0 then ret True else bind (put_page tmp address) (\<lambda>r. ret (r = 0))) (\<lambda>failed.
     whenk failed (seq (free_page tmp) (exit_task 11))))"

definition do_no_page :: "u32 \<Rightarrow> unit kernel" where
  "do_no_page address = get_empty_page (address AND 0xfffff000)"

definition do_wp_page :: "u32 \<Rightarrow> unit kernel" where
  "do_wp_page address =
     bind (gets (\<lambda>s. pte_lookup (pgdir (cur s)) address s)) (\<lambda>p.
     case p of
       None \<Rightarrow> do_no_page address
     | Some pte \<Rightarrow>
         bind (gets (\<lambda>s. ram s pte)) (\<lambda>e.
         if e AND PTE_V \<noteq> 0 \<and> e AND PTE_W = 0 then un_wp_page pte else do_no_page address))"

definition page_fault_handler :: "trapframe \<Rightarrow> u32 \<Rightarrow> unit kernel" where
  "page_fault_handler tf address =
     (if tf_from_user tf = 0 \<or> USER_LIMIT \<le> address then exit_task 11
      else
        let address = address AND 0xfffff000 in
        bind (gets (\<lambda>s. pte_lookup (pgdir (cur s)) address s)) (\<lambda>p.
        case p of
          None \<Rightarrow> do_no_page address
        | Some pte \<Rightarrow>
            bind (gets (\<lambda>s. ram s pte)) (\<lambda>e.
            if e AND PTE_V \<noteq> 0 \<and> e AND PTE_W = 0 then do_wp_page address
            else do_no_page address)))"

text \<open>One round of the loop of \<open>verify_area\<close>, for the page at \<open>start\<close>.\<close>

definition verify_page :: "u32 \<Rightarrow> unit kernel" where
  "verify_page start =
     bind (gets (\<lambda>s. pte_lookup (pgdir (cur s)) start s)) (\<lambda>p.
     case p of
       None \<Rightarrow> get_empty_page start
     | Some pte \<Rightarrow>
         bind (gets (\<lambda>s. ram s pte)) (\<lambda>e.
         if e AND PTE_V = 0 then get_empty_page start
         else whenk (e AND PTE_W = 0) (un_wp_page pte)))"

definition verify_area :: "u32 \<Rightarrow> u32 \<Rightarrow> unit kernel" where
  "verify_area addr sz =
     bind (gets (\<lambda>s. pgdir (cur s))) (\<lambda>pgd.
     if pgd = 0 then skip
     else if USER_LIMIT \<le> addr then panic ''verify_area: bad address''
     else loop (\<lambda>(left, start).
            if 0 <s left
            then seq (verify_page start) (ret (Inl (left - 4096, start + 4096)))
            else ret (Inr ()))
          (sz + (addr AND 0xfff), addr AND 0xfffff000))"

section \<open>Accessors of user memory\<close>

text \<open>Byte \<open>a\<close> of a little-endian memory of words.\<close>

definition load_byte :: "u32 \<Rightarrow> (u32 \<Rightarrow> u32) \<Rightarrow> u8" where
  "load_byte a m = ucast (drop_bit (8 * unat (a AND 3)) (m (a AND NOT 3)))"

definition store_byte :: "u32 \<Rightarrow> u8 \<Rightarrow> (u32 \<Rightarrow> u32) \<Rightarrow> u32 \<Rightarrow> u32" where
  "store_byte a v m =
     (let k = 8 * unat (a AND 3) in
      m(a AND NOT 3 := (m (a AND NOT 3) AND NOT (push_bit k 0xff)) OR push_bit k (ucast v)))"

definition get_fs_byte :: "u32 \<Rightarrow> u8 kernel" where
  "get_fs_byte addr =
     bind (gets (translate_user addr)) (\<lambda>pa.
     if pa = -1 then uaccess_fault else gets (\<lambda>s. load_byte pa (ram s)))"

definition put_fs_byte :: "u8 \<Rightarrow> u32 \<Rightarrow> unit kernel" where
  "put_fs_byte val addr =
     bind (gets (translate_user addr)) (\<lambda>pa.
     if pa = -1 then uaccess_fault else modify (\<lambda>s. s\<lparr>ram := store_byte pa val (ram s)\<rparr>))"

text \<open>The word accessors; a word is at an address divisible by four.\<close>

definition get_fs_long :: "u32 \<Rightarrow> u32 kernel" where
  "get_fs_long addr =
     bind (gets (translate_user addr)) (\<lambda>pa.
     if pa = -1 then uaccess_fault
     else if pa AND 3 \<noteq> 0 then fault else gets (\<lambda>s. ram s pa))"

definition put_fs_long :: "u32 \<Rightarrow> u32 \<Rightarrow> unit kernel" where
  "put_fs_long val addr =
     bind (gets (translate_user addr)) (\<lambda>pa.
     if pa = -1 then uaccess_fault
     else if pa AND 3 \<noteq> 0 then fault else modify (set_ram pa val))"

text \<open>The halfword accessors, at an even address.\<close>

definition get_fs_word :: "u32 \<Rightarrow> u16 kernel" where
  "get_fs_word addr =
     bind (gets (translate_user addr)) (\<lambda>pa.
     if pa = -1 then uaccess_fault
     else if pa AND 1 \<noteq> 0 then fault
     else gets (\<lambda>s. ucast (load_byte pa (ram s)) OR push_bit 8 (ucast (load_byte (pa + 1) (ram s)))))"

definition put_fs_word :: "u16 \<Rightarrow> u32 \<Rightarrow> unit kernel" where
  "put_fs_word val addr =
     bind (gets (translate_user addr)) (\<lambda>pa.
     if pa = -1 then uaccess_fault
     else if pa AND 1 \<noteq> 0 then fault
     else modify (\<lambda>s. s\<lparr>ram := store_byte (pa + 1) (ucast (drop_bit 8 val)) (store_byte pa (ucast val) (ram s))\<rparr>))"

section \<open>Initialisation\<close>

abbreviation USED :: u8 where "USED \<equiv> 100"

primrec clear_map :: "nat \<Rightarrow> nat \<Rightarrow> (nat \<Rightarrow> u8) \<Rightarrow> nat \<Rightarrow> u8" where
  "clear_map start 0 m = m"
| "clear_map start (Suc k) m = clear_map (Suc start) k (m(start := 0))"

definition mem_init :: "u32 \<Rightarrow> u32 \<Rightarrow> kstate \<Rightarrow> kstate" where
  "mem_init start_mem end_mem s =
     s\<lparr>mem_map := clear_map (unat (drop_bit 12 (start_mem - RAM_BASE)))
                   (if end_mem - start_mem <s 0 then 0 else unat (drop_bit 12 (end_mem - start_mem)))
                   (\<lambda>i. if i < PAGING_PAGES then USED else mem_map s i)\<rparr>"


section \<open>Addresses and pages\<close>

definition page_aligned :: "u32 \<Rightarrow> bool" where
  "page_aligned p \<longleftrightarrow> p AND 0xfff = 0"

text \<open>A page of main memory, as its address.\<close>

definition is_frame :: "u32 \<Rightarrow> bool" where
  "is_frame p \<longleftrightarrow> page_aligned p \<and> RAM_BASE \<le> p \<and> p < RAM_END"

lemma mask12: "(0xfff :: u32) = mask 12"
  by (simp add: mask_eq_exp_minus_1)

lemma mask22: "(0x3fffff :: u32) = mask 22"
  by (simp add: mask_eq_exp_minus_1)

lemma page_mask: "(0xfffff000 :: u32) = NOT (mask 12)"
  by (simp add: mask_eq_exp_minus_1)

lemma page_aligned_unat: "page_aligned p \<longleftrightarrow> 4096 dvd unat p"
proof -
  have "p AND 0xfff = take_bit 12 p"
    by (simp add: mask12 take_bit_eq_mask)
  moreover have "unat (take_bit 12 p) = unat p mod 4096"
    unfolding unsigned_take_bit_eq by (simp add: take_bit_eq_mod)
  ultimately show ?thesis
    by (metis page_aligned_def unat_eq_zero dvd_eq_mod_eq_0)
qed

lemma page_alignedE:
  assumes "page_aligned p"
  obtains k where "unat p = 4096 * k" "k < 1048576"
proof -
  from assms obtain k where k: "unat p = 4096 * k"
    by (auto simp: page_aligned_unat)
  have "unat p < 4294967296" using unsigned_less [of p] by simp
  with k have "k < 1048576" by simp
  with k show thesis by (rule that)
qed

lemma unat_word_at:
  assumes "page_aligned p" and "i < 1024"
  shows "unat (word_at p i) = unat p + 4 * i"
proof -
  obtain k where k: "unat p = 4096 * k" "k < 1048576"
    using assms(1) by (rule page_alignedE)
  with assms(2) have lt: "unat p + 4 * i < 2 ^ 32" by simp
  have "unat (4 * word_of_nat i :: u32) = 4 * i"
    using assms(2) by (simp add: unat_word_ariths unat_of_nat)
  with lt have "unat (p + 4 * word_of_nat i) = unat p + 4 * i"
    by (simp add: unat_word_ariths)
  then show ?thesis by (simp add: word_at_def)
qed

lemma word_at_eq_iff:
  assumes "page_aligned p" "page_aligned q" "i < 1024" "j < 1024"
  shows "word_at p i = word_at q j \<longleftrightarrow> p = q \<and> i = j"
proof
  assume "word_at p i = word_at q j"
  with assms have eq: "unat p + 4 * i = unat q + 4 * j"
    by (metis unat_word_at)
  obtain k where k: "unat p = 4096 * k" using assms(1) by (rule page_alignedE)
  obtain l where l: "unat q = 4096 * l" using assms(2) by (rule page_alignedE)
  from eq assms(3,4) k l have "k = l \<and> i = j"
    by (cases k l rule: linorder_cases) linarith+
  with k l show "p = q \<and> i = j" by (simp add: word_unat_eq_iff)
qed simp

lemma zero_words_other: "(\<And>i. i \<in> set is \<Longrightarrow> a \<noteq> word_at p i) \<Longrightarrow> zero_words p is m a = m a"
  by (induction "is" arbitrary: m) auto

lemma zero_words_keep: "m a = 0 \<Longrightarrow> zero_words p is m a = 0"
  by (induction "is" arbitrary: m) auto

lemma zero_words_in: "i \<in> set is \<Longrightarrow> zero_words p is m (word_at p i) = 0"
  by (induction "is" arbitrary: m) (auto intro: zero_words_keep)

lemma copy_words_other: "(\<And>i. i \<in> set is \<Longrightarrow> a \<noteq> word_at q i) \<Longrightarrow> copy_words p q is m a = m a"
  by (induction "is" arbitrary: m) auto

lemma copy_words_in:
  assumes "page_aligned p" "page_aligned q" "p \<noteq> q" "set is \<subseteq> {..<1024}" "distinct is" "i \<in> set is"
  shows "copy_words p q is m (word_at q i) = m (word_at p i)"
  using assms
proof (induction "is" arbitrary: m)
  case Nil
  then show ?case by simp
next
  case (Cons j js)
  show ?case
  proof (cases "i = j")
    case True
    with Cons.prems have "k \<in> set js \<Longrightarrow> word_at q i \<noteq> word_at q k" for k
      by (subst word_at_eq_iff) auto
    then have "copy_words p q js (m(word_at q j := m (word_at p j))) (word_at q i) = m (word_at p i)"
      by (subst copy_words_other) (use True in auto)
    then show ?thesis by simp
  next
    case False
    with Cons.prems have "i \<in> set js" by simp
    then have "copy_words p q js (m(word_at q j := m (word_at p j))) (word_at q i)
        = (m(word_at q j := m (word_at p j))) (word_at p i)"
      using Cons.prems by (intro Cons.IH) auto
    moreover from Cons.prems have "word_at p i \<noteq> word_at q j"
      by (subst word_at_eq_iff) auto
    ultimately show ?thesis by simp
  qed
qed

lemma copy_page_in:
  assumes "page_aligned p" "page_aligned q" "q \<noteq> p" "i < 1024"
  shows "ram (copy_page p q s) (word_at q i) = ram s (word_at p i)"
  unfolding copy_page_def using assms copy_words_in [of p q "[0..<1024]" i "ram s"]
  by (simp add: lessThan_atLeast0)

lemma pte_phys_bit: "bit (pte_phys e) n \<longleftrightarrow> 12 \<le> n \<and> n < 32 \<and> bit e (n - 2)"
proof -
  have "12 \<le> n \<Longrightarrow> 10 + (n - 12) = n - 2" by simp
  then show ?thesis
    unfolding pte_phys_def mask22
    by (auto simp only: bit_push_bit_iff bit_and_iff bit_mask_iff bit_drop_bit_eq o_apply
        possible_bit_word len_bit0 len_num1)
qed

lemma pte_phys_aligned [simp]: "page_aligned (pte_phys e)"
  unfolding page_aligned_def mask12
  by (rule bit_word_eqI) (auto simp: bit_simps pte_phys_bit)

lemma page_aligned_bit: "page_aligned p \<Longrightarrow> n < 12 \<Longrightarrow> \<not> bit p n"
proof -
  assume "page_aligned p" "n < 12"
  then have "bit (p AND mask 12) n = False"
    by (simp add: page_aligned_def mask12)
  with \<open>n < 12\<close> show ?thesis by (auto simp: bit_simps dest: bit_imp_le_length)
qed

lemma small_bit: "(fl :: u32) < 1024 \<Longrightarrow> 10 \<le> n \<Longrightarrow> \<not> bit fl n"
proof -
  assume "fl < 1024" "10 \<le> n"
  then have "take_bit 10 (unat fl) = unat fl"
    by (simp add: take_bit_nat_eq_self_iff word_less_nat_alt)
  then have "take_bit 10 fl = fl"
    by (metis unsigned_take_bit_eq word_unat_eq_iff)
  with \<open>10 \<le> n\<close> show ?thesis
    by (metis bit_take_bit_iff not_le)
qed

lemma pte_phys_ppn:
  assumes "page_aligned p" and "fl < 1024"
  shows "pte_phys (phys_ppn p OR fl) = p"
proof (rule bit_word_eqI)
  fix n assume "n < LENGTH(32)"
  with assms show "bit (pte_phys (phys_ppn p OR fl)) n = bit p n"
    unfolding phys_ppn_def
    by (cases "n < 12") (auto simp: pte_phys_bit bit_simps page_aligned_bit small_bit)
qed

lemma unat_shift12: "i < 32768 \<Longrightarrow> unat (push_bit 12 (word_of_nat i) :: u32) = 4096 * i"
  by (simp add: push_bit_eq_mult unat_word_ariths unat_of_nat)

lemma unat_frame_addr: "i < PAGING_PAGES \<Longrightarrow> unat (frame_addr i) = 2147483648 + 4096 * i"
  by (simp add: frame_addr_def unat_word_ariths unat_shift12)

lemma is_frame_frame_addr: "i < PAGING_PAGES \<Longrightarrow> is_frame (frame_addr i)"
proof -
  assume i: "i < PAGING_PAGES"
  have "2147483648 + 4096 * i = 4096 * (524288 + i)" by simp
  then have "4096 dvd unat (frame_addr i)"
    using i by (metis dvd_triv_left unat_frame_addr)
  with i show ?thesis
    by (simp add: is_frame_def page_aligned_unat word_le_nat_alt word_less_nat_alt unat_frame_addr)
qed

lemma MAP_NR_frame_addr: "i < PAGING_PAGES \<Longrightarrow> MAP_NR (frame_addr i) = i"
  unfolding MAP_NR_def frame_addr_def unat_drop_bit_eq
  by (simp add: drop_bit_eq_div unat_shift12)

lemma is_frame_cases:
  assumes "is_frame p"
  obtains i where "p = frame_addr i" "i < PAGING_PAGES"
proof -
  from assms obtain k where k: "unat p = 4096 * k"
    by (auto simp: is_frame_def elim: page_alignedE)
  with assms have "524288 \<le> k" "k < 557056"
    by (simp_all add: is_frame_def word_le_nat_alt word_less_nat_alt)
  then have "p = frame_addr (k - 524288)" "k - 524288 < PAGING_PAGES"
    using k by (simp_all add: word_unat_eq_iff unat_frame_addr)
  then show thesis by (rule that)
qed

lemma is_frame_MAP_NR:
  "is_frame p \<Longrightarrow> MAP_NR p < PAGING_PAGES" "is_frame p \<Longrightarrow> frame_addr (MAP_NR p) = p"
  by (auto elim!: is_frame_cases simp: MAP_NR_frame_addr)

lemma MAP_NR_inj: "is_frame p \<Longrightarrow> is_frame q \<Longrightarrow> MAP_NR p = MAP_NR q \<longleftrightarrow> p = q"
  by (metis is_frame_MAP_NR(2))

lemma is_frame_simps:
  assumes "is_frame p"
  shows "page_aligned p" "RAM_BASE \<le> p" "\<not> p < RAM_BASE" "\<not> RAM_END \<le> p" "p \<noteq> 0"
  using assms by (auto simp: is_frame_def word_le_nat_alt word_less_nat_alt)

lemma pte_phys_frame:
  "is_frame (pte_phys e) \<longleftrightarrow> RAM_BASE \<le> pte_phys e \<and> pte_phys e < RAM_END"
  by (simp add: is_frame_def)

lemma valid_ppn: "(phys_ppn p OR fl) AND 1 = fl AND 1"
  unfolding phys_ppn_def
  by (rule bit_word_eqI) (auto simp: bit_simps bit_1_iff)

section \<open>Behaviour of the allocator\<close>

lemma get_free_page_exec:
  "get_free_page n s =
     (case search (\<lambda>i. mem_map s i = 0) 0 PAGING_PAGES of
        None \<Rightarrow> Done 0 s
      | Some i \<Rightarrow> Done (frame_addr i) (zero_page (frame_addr i) (set_map i 1 s)))"
  by (simp add: get_free_page_def kexec split: option.split)

text \<open>\<open>mm_frame s t\<close>: \<open>s\<close> and \<open>t\<close> differ in main memory and the page counts only.\<close>

definition mm_frame :: "kstate \<Rightarrow> kstate \<Rightarrow> bool" where
  "mm_frame s t \<longleftrightarrow> t\<lparr>ram := ram s, mem_map := mem_map s\<rparr> = s"

lemma mm_frame_refl [simp]: "mm_frame s s"
  by (simp add: mm_frame_def)

lemma mm_frame_upd [simp]:
  "mm_frame s (set_ram a v t) = mm_frame s t" "mm_frame s (set_map i c t) = mm_frame s t"
  "mm_frame s (copy_page p q t) = mm_frame s t" "mm_frame s (zero_page p t) = mm_frame s t"
  by (simp_all add: mm_frame_def set_ram_def set_map_def copy_page_def zero_page_def)

lemma mm_frame_trans: "mm_frame s t \<Longrightarrow> mm_frame t u \<Longrightarrow> mm_frame s u"
proof -
  assume st: "mm_frame s t" and tu: "mm_frame t u"
  have "u\<lparr>ram := ram s, mem_map := mem_map s\<rparr>
      = (u\<lparr>ram := ram t, mem_map := mem_map t\<rparr>)\<lparr>ram := ram s, mem_map := mem_map s\<rparr>"
    by simp
  with st tu show ?thesis by (simp add: mm_frame_def)
qed

lemma mm_frame_simps:
  assumes "mm_frame s t"
  shows "tasks t = tasks s" "current t = current s" "cur t = cur s"
proof -
  have eq: "t\<lparr>ram := ram s, mem_map := mem_map s\<rparr> = s"
    using assms by (simp add: mm_frame_def)
  show "tasks t = tasks s" "current t = current s"
    using arg_cong [OF eq, of tasks] arg_cong [OF eq, of current] by simp_all
  then show "cur t = cur s" by (simp add: cur_def)
qed

text \<open>
  \<open>grabbed s p t\<close>: \<open>t\<close> is \<open>s\<close> after the free page \<open>p\<close> was taken and cleared.
\<close>

definition grabbed :: "kstate \<Rightarrow> u32 \<Rightarrow> kstate \<Rightarrow> bool" where
  "grabbed s p t \<longleftrightarrow>
     is_frame p \<and> mem_map s (MAP_NR p) = 0 \<and>
     mm_frame s t \<and> mem_map t = (mem_map s)(MAP_NR p := 1) \<and>
     (\<forall>j<1024. ram t (word_at p j) = 0) \<and>
     (\<forall>a. (\<forall>j<1024. a \<noteq> word_at p j) \<longrightarrow> ram t a = ram s a)"

lemma grabbed_zero_page:
  "is_frame p \<Longrightarrow> mem_map s (MAP_NR p) = 0 \<Longrightarrow> grabbed s p (zero_page p (set_map (MAP_NR p) 1 s))"
  by (auto simp: grabbed_def mm_frame_def zero_page_def set_map_def zero_words_in intro!: zero_words_other)

lemma get_free_page_cases:
  obtains (none) "get_free_page n s = Done 0 s" "\<And>i. i < PAGING_PAGES \<Longrightarrow> mem_map s i \<noteq> 0"
  | (some) p t where "get_free_page n s = Done p t" "grabbed s p t"
proof (cases "search (\<lambda>i. mem_map s i = 0) 0 PAGING_PAGES")
  case None
  then have "\<And>i. i < PAGING_PAGES \<Longrightarrow> mem_map s i \<noteq> 0"
    by (simp add: search_None_iff)
  moreover have "get_free_page n s = Done 0 s"
    using None by (simp add: get_free_page_exec)
  ultimately show thesis by (intro none)
next
  case (Some i)
  then have i: "i < PAGING_PAGES" "mem_map s i = 0"
    by (simp_all add: search_Some_iff)
  then have "grabbed s (frame_addr i) (zero_page (frame_addr i) (set_map i 1 s))"
    using grabbed_zero_page [of "frame_addr i" s]
    by (simp add: is_frame_frame_addr MAP_NR_frame_addr)
  then show thesis using some Some by (simp add: get_free_page_exec)
qed

lemma grabbed_simps:
  assumes "grabbed s p t"
  shows "is_frame p" "mem_map s (MAP_NR p) = 0" "mem_map t = (mem_map s)(MAP_NR p := 1)"
    "\<And>j. j < 1024 \<Longrightarrow> ram t (word_at p j) = 0"
    "\<And>q j. page_aligned q \<Longrightarrow> q \<noteq> p \<Longrightarrow> j < 1024 \<Longrightarrow> ram t (word_at q j) = ram s (word_at q j)"
    "mm_frame s t"
proof -
  show p: "is_frame p" and "mem_map s (MAP_NR p) = 0"
    and "\<And>j. j < 1024 \<Longrightarrow> ram t (word_at p j) = 0"
    and "mem_map t = (mem_map s)(MAP_NR p := 1)" "mm_frame s t"
    using assms by (auto simp: grabbed_def)
  show "ram t (word_at q j) = ram s (word_at q j)"
    if "page_aligned q" "q \<noteq> p" "j < 1024" for q j
    using assms that p
    by (auto simp: grabbed_def word_at_eq_iff is_frame_simps)
qed

lemma free_page_frame:
  assumes "is_frame p" "mem_map s (MAP_NR p) \<noteq> 0"
  shows "free_page p n s = Done () (set_map (MAP_NR p) (mem_map s (MAP_NR p) - 1) s)"
  using assms by (simp add: free_page_def map_at_def kexec is_frame_simps is_frame_MAP_NR)

end
