(* ===== verification/Sync.thy ===== *)
theory Sync
  imports Buffer Memory
begin

text \<open>
  Where the buffer cache, the inode table and the super block table meet: the locks of
  \<^verbatim>\<open>fs/inode.c\<close> and \<^verbatim>\<open>fs/super.c\<close>, \<open>get_super\<close>, writing inodes back, and the functions of
  \<^verbatim>\<open>fs/buffer.c\<close> that flush the cache. \<open>getblk\<close> is tied here to the \<open>sync_dev\<close> it calls; the
  depth of that recursion is bounded by the fuel.
\<close>

section \<open>Locks\<close>

definition wait_on_inode :: "nat \<Rightarrow> unit kernel" where
  "wait_on_inode ino = wait_while (\<lambda>s. i_lock (inode_table s ino) \<noteq> 0) (I_wait ino)"

definition lock_inode :: "nat \<Rightarrow> unit kernel" where
  "lock_inode ino =
     seq (wait_while (\<lambda>s. i_lock (inode_table s ino) \<noteq> 0) (I_wait ino))
         (modify (upd_inode ino (\<lambda>m. m\<lparr>i_lock := 1\<rparr>)))"

definition unlock_inode :: "nat \<Rightarrow> unit kernel" where
  "unlock_inode ino =
     seq (modify (upd_inode ino (\<lambda>m. m\<lparr>i_lock := 0\<rparr>))) (wake_up (I_wait ino))"

definition lock_super :: "nat \<Rightarrow> unit kernel" where
  "lock_super sb =
     seq (wait_while (\<lambda>s. s_lock (super_blocks s sb) \<noteq> 0) (S_wait sb))
         (modify (upd_super sb (\<lambda>p. p\<lparr>s_lock := 1\<rparr>)))"

definition free_super :: "nat \<Rightarrow> unit kernel" where
  "free_super sb =
     seq (modify (upd_super sb (\<lambda>p. p\<lparr>s_lock := 0\<rparr>))) (wake_up (S_wait sb))"

definition wait_on_super :: "nat \<Rightarrow> unit kernel" where
  "wait_on_super sb = wait_while (\<lambda>s. s_lock (super_blocks s sb) \<noteq> 0) (S_wait sb)"

definition get_super_step :: "u32 \<Rightarrow> nat \<Rightarrow> (nat + nat option) kernel" where
  "get_super_step dev i =
     (if NR_SUPER \<le> i then ret (Inr None)
      else bind (gets (\<lambda>s. ucast (s_dev (super_blocks s i)))) (\<lambda>d.
        if d = dev
        then seq (wait_on_super i)
            (bind (gets (\<lambda>s. ucast (s_dev (super_blocks s i)))) (\<lambda>d.
             ret (if d = dev then Inr (Some i) else Inl 0)))
        else ret (Inl (i + 1))))"

definition get_super :: "u32 \<Rightarrow> nat option kernel" where
  "get_super dev = (if dev = 0 then ret None else loop (get_super_step dev) 0)"

section \<open>Writing back\<close>

definition inode_block :: "super_block \<Rightarrow> m_inode \<Rightarrow> u32" where
  "inode_block sb m =
     2 + ucast (s_imap_blocks sb) + ucast (s_zmap_blocks sb) + (ucast (i_num m) - 1) div 32"

definition inode_slot :: "m_inode \<Rightarrow> nat" where
  "inode_slot m = unat ((ucast (i_num m) - 1 :: u32) mod 32)"

definition write_inode_with :: "(u32 \<Rightarrow> u32 \<Rightarrow> nat kernel) \<Rightarrow> nat \<Rightarrow> unit kernel" where
  "write_inode_with getblk ino =
     seq (lock_inode ino)
    (bind (gets (\<lambda>s. inode_table s ino)) (\<lambda>m.
     if i_dirt m = 0 \<or> i_dev m = 0 then unlock_inode ino
     else bind (get_super (ucast (i_dev m))) (\<lambda>p.
       case p of
         None \<Rightarrow> panic ''trying to write inode without device''
       | Some sb \<Rightarrow>
           bind (gets (\<lambda>s. inode_block (super_blocks s sb) (inode_table s ino))) (\<lambda>block.
           bind (gets (\<lambda>s. ucast (i_dev (inode_table s ino)))) (\<lambda>dev.
           bind (bread_with getblk dev block) (\<lambda>q.
           case q of
             None \<Rightarrow> panic ''unable to read i-node block''
           | Some bh \<Rightarrow>
               seq (modify (\<lambda>s. upd_buffer bh (\<lambda>b. b\<lparr>b_data :=
                      put_d_inode (inode_slot (inode_table s ino)) (disk_part (inode_table s ino)) (b_data b)\<rparr>) s))
              (seq (modify (upd_buffer bh (\<lambda>b. b\<lparr>b_dirt := 1\<rparr>)))
              (seq (modify (upd_inode ino (\<lambda>m. m\<lparr>i_dirt := 0\<rparr>)))
              (seq (brelse (Some bh))
                   (unlock_inode ino))))))))))"

definition sync_inodes_with :: "(u32 \<Rightarrow> u32 \<Rightarrow> nat kernel) \<Rightarrow> unit kernel" where
  "sync_inodes_with getblk =
     for_each [0..<NR_INODE] (\<lambda>i.
       seq (wait_on_inode i)
      (bind (gets (\<lambda>s. inode_table s i)) (\<lambda>m.
       whenk (i_dirt m \<noteq> 0 \<and> i_pipe m = 0) (write_inode_with getblk i))))"

definition flush_buffers :: "u32 \<Rightarrow> unit kernel" where
  "flush_buffers dev =
     bind (gets nr_buffers) (\<lambda>nr.
     for_each [0..<nr] (\<lambda>i.
       bind (gets (\<lambda>s. ucast (b_dev (buffers s i)))) (\<lambda>d.
       whenk (d = dev)
         (seq (wait_on_buffer i)
         (bind (gets (\<lambda>s. buffers s i)) (\<lambda>b.
          whenk (ucast (b_dev b) = dev \<and> b_dirt b \<noteq> 0) (ll_rw_block WRITE i)))))))"

definition sync_dev_with :: "(u32 \<Rightarrow> u32 \<Rightarrow> nat kernel) \<Rightarrow> u32 \<Rightarrow> u32 kernel" where
  "sync_dev_with getblk dev =
     seq (flush_buffers dev)
    (seq (sync_inodes_with getblk)
    (seq (flush_buffers dev)
         (ret 0)))"

text \<open>The knot: \<open>getblk\<close>, whose \<open>sync_dev\<close> uses \<open>getblk\<close> with one level less.\<close>

primrec getblk_rec :: "nat \<Rightarrow> u32 \<Rightarrow> u32 \<Rightarrow> nat kernel" where
  "getblk_rec 0 = (\<lambda>dev block n s. NoFuel)"
| "getblk_rec (Suc d) = getblk_with (sync_dev_with (getblk_rec d))"

definition getblk :: "u32 \<Rightarrow> u32 \<Rightarrow> nat kernel" where
  "getblk dev block = (\<lambda>n s. getblk_rec n dev block n s)"

definition bread :: "u32 \<Rightarrow> u32 \<Rightarrow> nat option kernel" where
  "bread = bread_with getblk"

definition write_inode :: "nat \<Rightarrow> unit kernel" where
  "write_inode = write_inode_with getblk"

definition sync_inodes :: "unit kernel" where
  "sync_inodes = sync_inodes_with getblk"

definition sync_dev :: "u32 \<Rightarrow> u32 kernel" where
  "sync_dev = sync_dev_with getblk"

definition sys_sync :: "u32 kernel" where
  "sys_sync =
     seq sync_inodes
    (bind (gets nr_buffers) (\<lambda>nr.
     seq (for_each [0..<nr] (\<lambda>i.
            seq (wait_on_buffer i)
           (bind (gets (\<lambda>s. b_dirt (buffers s i))) (\<lambda>d.
            whenk (d \<noteq> 0) (ll_rw_block WRITE i)))))
         (ret 0)))"

definition invalidate_buffers :: "u32 \<Rightarrow> unit kernel" where
  "invalidate_buffers dev =
     bind (gets nr_buffers) (\<lambda>nr.
     for_each [0..<nr] (\<lambda>i.
       bind (gets (\<lambda>s. ucast (b_dev (buffers s i)))) (\<lambda>d.
       whenk (d = dev)
         (seq (wait_on_buffer i)
         (bind (gets (\<lambda>s. ucast (b_dev (buffers s i)))) (\<lambda>d.
          whenk (d = dev) (modify (upd_buffer i (\<lambda>b. b\<lparr>b_uptodate := 0, b_dirt := 0\<rparr>)))))))))"

definition invalidate_inodes :: "u32 \<Rightarrow> unit kernel" where
  "invalidate_inodes dev =
     for_each [0..<NR_INODE] (\<lambda>i.
       seq (wait_on_inode i)
      (bind (gets (\<lambda>s. ucast (i_dev (inode_table s i)))) (\<lambda>d.
       whenk (d = dev) (modify (upd_inode i (\<lambda>m. m\<lparr>i_dev := 0, i_dirt := 0\<rparr>))))))"

section \<open>Reading ahead and whole pages\<close>

text \<open>The read-ahead calls of \<open>breada\<close> pass the first buffer, as the source does.\<close>

definition breada :: "u32 \<Rightarrow> u32 \<Rightarrow> u32 list \<Rightarrow> nat option kernel" where
  "breada dev first ahead =
     bind (getblk dev first) (\<lambda>bh.
     bind (gets (\<lambda>s. b_uptodate (buffers s bh))) (\<lambda>u.
     seq (whenk (u = 0) (ll_rw_block READ bh))
    (seq (for_each (takeWhile (\<lambda>b. 0 \<le>s b) ahead) (\<lambda>b.
            bind (getblk dev b) (\<lambda>tmp.
            bind (gets (\<lambda>s. b_uptodate (buffers s tmp))) (\<lambda>u.
            seq (whenk (u = 0) (ll_rw_block READA bh))
                (modify (upd_buffer tmp (\<lambda>h. h\<lparr>b_count := b_count h - 1\<rparr>)))))))
    (seq (wait_on_buffer bh)
    (bind (gets (\<lambda>s. b_uptodate (buffers s bh))) (\<lambda>u.
     if u \<noteq> 0 then ret (Some bh) else seq (brelse (Some bh)) (ret None)))))))"

text \<open>
  \<open>bread_page\<close>: the four reads are started before the first of them is waited for, then the
  blocks are copied to consecutive addresses. Block number 0 leaves a hole.
\<close>

definition COPYBLK :: "block \<Rightarrow> u32 \<Rightarrow> kstate \<Rightarrow> kstate" where
  "COPYBLK from to s =
     s\<lparr>ram := fold (\<lambda>i. store_byte (to + word_of_nat i) (from i)) [0..<BLOCK_SIZE] (ram s)\<rparr>"

primrec start_reads :: "u32 \<Rightarrow> u32 list \<Rightarrow> nat option list kernel" where
  "start_reads dev [] = ret []"
| "start_reads dev (b # bs) =
     bind (if b = 0 then ret None
           else bind (getblk dev b) (\<lambda>bh.
                bind (gets (\<lambda>s. b_uptodate (buffers s bh))) (\<lambda>u.
                seq (whenk (u = 0) (ll_rw_block READ bh)) (ret (Some bh))))) (\<lambda>p.
     bind (start_reads dev bs) (\<lambda>ps. ret (p # ps)))"

primrec copy_blocks :: "u32 \<Rightarrow> nat option list \<Rightarrow> unit kernel" where
  "copy_blocks address [] = skip"
| "copy_blocks address (p # ps) =
     seq (case p of
            None \<Rightarrow> skip
          | Some bh \<Rightarrow>
              seq (wait_on_buffer bh)
             (bind (gets (\<lambda>s. buffers s bh)) (\<lambda>b.
              seq (whenk (b_uptodate b \<noteq> 0) (modify (COPYBLK (b_data b) address)))
                  (brelse (Some bh)))))
         (copy_blocks (address + 1024) ps)"

definition bread_page :: "u32 \<Rightarrow> u32 \<Rightarrow> u32 list \<Rightarrow> unit kernel" where
  "bread_page address dev b = bind (start_reads dev (take 4 b)) (copy_blocks address)"

end
