(* ===== verification/Bitmap.thy ===== *)
theory Bitmap
  imports Sync
begin

text \<open>
  The inode and zone bitmaps, \<^verbatim>\<open>fs/bitmap.c\<close>: bit operations on a bitmap block,
  \<open>free_block\<close>, \<open>new_block\<close> and \<open>free_inode\<close>. (\<open>new_inode\<close> is in the theory \<open>Inode\<close>, it
  needs \<open>get_empty_inode\<close>.)
\<close>

section \<open>Bits of a block\<close>

definition test_bit :: "nat \<Rightarrow> block \<Rightarrow> bool" where
  "test_bit nr d \<longleftrightarrow> drop_bit (nr mod 8) (d (nr div 8)) AND 1 \<noteq> 0"

text \<open>Both bit operations return the old state of the bit and the new block.\<close>

definition set_bit :: "nat \<Rightarrow> block \<Rightarrow> bool \<times> block" where
  "set_bit nr d =
     (let mask = push_bit (nr mod 8) 1; byte = d (nr div 8) in
      (byte AND mask \<noteq> 0, d(nr div 8 := byte OR mask)))"

text \<open>\<open>clear_bit\<close> answers whether the bit was clear already.\<close>

definition clear_bit :: "nat \<Rightarrow> block \<Rightarrow> bool \<times> block" where
  "clear_bit nr d =
     (let mask = push_bit (nr mod 8) 1; byte = d (nr div 8) in
      (\<not> byte AND mask \<noteq> 0, d(nr div 8 := byte AND NOT mask)))"

definition find_first_zero :: "block \<Rightarrow> nat" where
  "find_first_zero d = (case search (\<lambda>i. \<not> test_bit i d) 0 8192 of Some i \<Rightarrow> i | None \<Rightarrow> 8192)"

section \<open>Zones\<close>

definition clear_map_bit :: "nat \<Rightarrow> nat \<Rightarrow> bool kernel" where
  "clear_map_bit nr bh =
     bind (gets (\<lambda>s. clear_bit nr (b_data (buffers s bh)))) (\<lambda>(was_clear, d).
     seq (modify (upd_buffer bh (\<lambda>b. b\<lparr>b_data := d\<rparr>))) (ret was_clear))"

definition set_map_bit :: "nat \<Rightarrow> nat \<Rightarrow> bool kernel" where
  "set_map_bit nr bh =
     bind (gets (\<lambda>s. set_bit nr (b_data (buffers s bh)))) (\<lambda>(was_set, d).
     seq (modify (upd_buffer bh (\<lambda>b. b\<lparr>b_data := d\<rparr>))) (ret was_set))"

definition mark_dirty :: "nat \<Rightarrow> kstate \<Rightarrow> kstate" where
  "mark_dirty bh s = upd_buffer bh (\<lambda>b. b\<lparr>b_dirt := 1\<rparr>) s"

definition free_zone_bit :: "nat \<Rightarrow> u32 \<Rightarrow> unit kernel" where
  "free_zone_bit sb block =
     bind (gets (\<lambda>s. super_blocks s sb)) (\<lambda>p.
     let z = block - (ucast (s_firstdatazone p) - 1) in
     deref (s_zmap p (unat (c_div z 8192))) (\<lambda>bh.
       bind (clear_map_bit (unat (z AND 8191)) bh) (\<lambda>already.
       if already then panic ''free_block: bit already cleared''
       else modify (mark_dirty bh))))"

definition free_block :: "u32 \<Rightarrow> u32 \<Rightarrow> unit kernel" where
  "free_block dev block =
     bind (get_super dev) (\<lambda>p.
     case p of
       None \<Rightarrow> panic ''trying to free block on nonexistent device''
     | Some sb \<Rightarrow>
         bind (gets (\<lambda>s. super_blocks s sb)) (\<lambda>p.
         if block <s ucast (s_firstdatazone p) \<or> ucast (s_nzones p) \<le>s block
         then panic ''trying to free block not in datazone''
         else bind (get_hash_table dev block) (\<lambda>h.
           case h of
             None \<Rightarrow> free_zone_bit sb block
           | Some bh \<Rightarrow>
               bind (gets (\<lambda>s. b_count (buffers s bh))) (\<lambda>c.
               if c \<noteq> 1 then skip
               else seq (modify (upd_buffer bh (\<lambda>b. b\<lparr>b_dirt := 0, b_uptodate := 0\<rparr>)))
                   (seq (brelse (Some bh))
                        (free_zone_bit sb block))))))"

text \<open>The first of the eight bitmap blocks with a free bit: its slot, buffer and bit.\<close>

definition find_map :: "(nat \<Rightarrow> nat option) \<Rightarrow> kstate \<Rightarrow> (nat \<times> nat \<times> nat) option" where
  "find_map zmap s =
     (case search (\<lambda>i. case zmap i of None \<Rightarrow> False | Some bh \<Rightarrow> find_first_zero (b_data (buffers s bh)) < 8192) 0 8 of
        None \<Rightarrow> None
      | Some i \<Rightarrow> (case zmap i of None \<Rightarrow> None
          | Some bh \<Rightarrow> Some (i, bh, find_first_zero (b_data (buffers s bh)))))"

definition fresh_block :: "u32 \<Rightarrow> u32 \<Rightarrow> u32 kernel" where
  "fresh_block dev j =
     bind (getblk dev j) (\<lambda>bh.
     bind (gets (\<lambda>s. b_count (buffers s bh))) (\<lambda>c.
     if c \<noteq> 1 then panic ''new block: count is != 1''
     else seq (modify (upd_buffer bh (\<lambda>b. b\<lparr>b_data := (\<lambda>i. if i < BLOCK_SIZE then 0 else b_data b i),
                 b_uptodate := 1, b_dirt := 1\<rparr>)))
         (seq (brelse (Some bh)) (ret j))))"

definition new_block :: "u32 \<Rightarrow> u32 kernel" where
  "new_block dev =
     bind (get_super dev) (\<lambda>p.
     case p of
       None \<Rightarrow> panic ''trying to get new block from nonexistant device''
     | Some sb \<Rightarrow>
         bind (gets (\<lambda>s. find_map (s_zmap (super_blocks s sb)) s)) (\<lambda>f.
         case f of
           None \<Rightarrow> ret 0
         | Some (i, bh, j) \<Rightarrow>
             bind (set_map_bit j bh) (\<lambda>already.
             if already then panic ''new_block: bit already set''
             else seq (modify (mark_dirty bh))
               (bind (gets (\<lambda>s. super_blocks s sb)) (\<lambda>p.
                let j = word_of_nat j + word_of_nat (i * 8192) + ucast (s_firstdatazone p) - 1 in
                if ucast (s_nzones p) \<le>s j then ret 0 else fresh_block dev j)))))"

section \<open>Inodes\<close>

definition clear_inode :: "nat \<Rightarrow> kstate \<Rightarrow> kstate" where
  "clear_inode ino s = upd_inode ino (\<lambda>_. zero_inode) s"

definition free_inode :: "nat \<Rightarrow> unit kernel" where
  "free_inode ino =
     bind (gets (\<lambda>s. inode_table s ino)) (\<lambda>m.
     if i_dev m = 0 then modify (clear_inode ino)
     else if 1 < i_count m then panic ''free_inode''
     else if i_nlinks m \<noteq> 0 then panic ''trying to free inode with links''
     else bind (get_super (ucast (i_dev m))) (\<lambda>p.
       case p of
         None \<Rightarrow> panic ''trying to free inode on nonexistent device''
       | Some sb \<Rightarrow>
           bind (gets (\<lambda>s. super_blocks s sb)) (\<lambda>p.
           bind (gets (\<lambda>s. i_num (inode_table s ino))) (\<lambda>nr.
           if nr < 1 \<or> s_ninodes p < nr then panic ''trying to free inode 0 or nonexistant inode''
           else case s_imap p (unat (drop_bit 13 nr)) of
             None \<Rightarrow> panic ''nonexistent imap in superblock''
           | Some bh \<Rightarrow>
               bind (clear_map_bit (unat (nr AND 8191)) bh) (\<lambda>_.
               seq (modify (mark_dirty bh))
                   (modify (clear_inode ino)))))))"

end
