(* ===== verification/Inode.thy ===== *)
theory Inode
  imports Bitmap Memory
begin

text \<open>
  Inodes: block mapping and the inode table of \<^verbatim>\<open>fs/inode.c\<close>, \<^verbatim>\<open>fs/truncate.c\<close>, and
  \<open>new_inode\<close> of \<^verbatim>\<open>fs/bitmap.c\<close>.
\<close>

section \<open>File types\<close>

abbreviation S_IFMT :: u16 where "S_IFMT \<equiv> 0xF000"
abbreviation S_IFREG :: u16 where "S_IFREG \<equiv> 0x8000"
abbreviation S_IFBLK :: u16 where "S_IFBLK \<equiv> 0x6000"
abbreviation S_IFDIR :: u16 where "S_IFDIR \<equiv> 0x4000"
abbreviation S_IFCHR :: u16 where "S_IFCHR \<equiv> 0x2000"
abbreviation S_IFIFO :: u16 where "S_IFIFO \<equiv> 0x1000"

definition S_ISREG :: "u16 \<Rightarrow> bool" where "S_ISREG m \<longleftrightarrow> m AND S_IFMT = S_IFREG"
definition S_ISDIR :: "u16 \<Rightarrow> bool" where "S_ISDIR m \<longleftrightarrow> m AND S_IFMT = S_IFDIR"
definition S_ISCHR :: "u16 \<Rightarrow> bool" where "S_ISCHR m \<longleftrightarrow> m AND S_IFMT = S_IFCHR"
definition S_ISBLK :: "u16 \<Rightarrow> bool" where "S_ISBLK m \<longleftrightarrow> m AND S_IFMT = S_IFBLK"

section \<open>Mapping file blocks to zones\<close>

definition get_inode :: "nat \<Rightarrow> m_inode kernel" where
  "get_inode ino = gets (\<lambda>s. inode_table s ino)"

definition idev :: "nat \<Rightarrow> u32 kernel" where
  "idev ino = gets (\<lambda>s. ucast (i_dev (inode_table s ino)))"

definition touch_inode :: "nat \<Rightarrow> kstate \<Rightarrow> kstate" where
  "touch_inode ino s = upd_inode ino (\<lambda>m. m\<lparr>i_ctime := CURRENT_TIME s, i_dirt := 1\<rparr>) s"

text \<open>Zone \<open>k\<close> of the inode, allocated if asked for and missing.\<close>

definition zone_of :: "nat \<Rightarrow> nat \<Rightarrow> bool \<Rightarrow> u16 kernel" where
  "zone_of ino k create =
     bind (get_inode ino) (\<lambda>m.
     seq (whenk (create \<and> i_zone m k = 0)
            (bind (new_block (ucast (i_dev m))) (\<lambda>b.
             seq (modify (upd_inode ino (\<lambda>m. m\<lparr>i_zone := (i_zone m)(k := ucast b)\<rparr>)))
                 (whenk ((ucast b :: u16) \<noteq> 0) (modify (touch_inode ino))))))
         (gets (\<lambda>s. i_zone (inode_table s ino) k)))"

text \<open>Entry \<open>k\<close> of the indirect block \<open>nr\<close>, allocated if asked for and missing.\<close>

definition indirect :: "nat \<Rightarrow> u32 \<Rightarrow> nat \<Rightarrow> bool \<Rightarrow> u32 kernel" where
  "indirect ino nr k create =
     bind (idev ino) (\<lambda>dev.
     bind (bread dev nr) (\<lambda>p.
     case p of
       None \<Rightarrow> ret 0
     | Some bh \<Rightarrow>
         bind (gets (\<lambda>s. ucast (zone_at (b_data (buffers s bh)) k))) (\<lambda>i.
         bind (if create \<and> i = 0
               then bind (idev ino) (\<lambda>dev.
                 bind (new_block dev) (\<lambda>i.
                 seq (whenk (i \<noteq> 0)
                       (seq (modify (upd_buffer bh (\<lambda>b. b\<lparr>b_data := set_zone_at k (ucast i) (b_data b)\<rparr>)))
                            (modify (mark_dirty bh))))
                     (ret i)))
               else ret i) (\<lambda>i.
         seq (brelse (Some bh)) (ret i)))))"

definition bmap_create :: "nat \<Rightarrow> u32 \<Rightarrow> bool \<Rightarrow> u32 kernel" where
  "bmap_create ino block create =
     (if block <s 0 then panic ''_bmap: block<0''
      else if 7 + 512 + 512 * 512 \<le>s block then panic ''_bmap: block>big''
      else if block <s 7 then bind (zone_of ino (unat block) create) (\<lambda>z. ret (ucast z))
      else
        let block = block - 7 in
        if block <s 512
        then bind (zone_of ino 7 create) (\<lambda>z.
             if z = 0 then ret 0 else indirect ino (ucast z) (unat block) create)
        else
          let block = block - 512 in
          bind (zone_of ino 8 create) (\<lambda>z.
          if z = 0 then ret 0
          else bind (indirect ino (ucast z) (unat (drop_bit 9 block)) create) (\<lambda>i.
            if i = 0 then ret 0
            else indirect ino i (unat (block AND 511)) create)))"

definition bmap :: "nat \<Rightarrow> u32 \<Rightarrow> u32 kernel" where
  "bmap ino block = bmap_create ino block False"

definition create_block :: "nat \<Rightarrow> u32 \<Rightarrow> u32 kernel" where
  "create_block ino block = bmap_create ino block True"

section \<open>Truncation\<close>

text \<open>The loop over the 512 entries of an indirect block; \<open>free\<close> frees one entry.\<close>

definition free_entries :: "nat \<Rightarrow> (u32 \<Rightarrow> unit kernel) \<Rightarrow> unit kernel" where
  "free_entries bh free =
     for_each [0..<512] (\<lambda>i.
       bind (gets (\<lambda>s. zone_at (b_data (buffers s bh)) i)) (\<lambda>z.
       whenk (z \<noteq> 0) (free (ucast z))))"

definition free_indirect :: "(u32 \<Rightarrow> unit kernel) \<Rightarrow> u32 \<Rightarrow> u32 \<Rightarrow> unit kernel" where
  "free_indirect free dev block =
     (if block = 0 then skip
      else bind (bread dev block) (\<lambda>p.
        seq (case p of None \<Rightarrow> skip | Some bh \<Rightarrow> seq (free_entries bh free) (brelse (Some bh)))
            (free_block dev block)))"

definition free_ind :: "u32 \<Rightarrow> u32 \<Rightarrow> unit kernel" where
  "free_ind dev block = free_indirect (free_block dev) dev block"

definition free_dind :: "u32 \<Rightarrow> u32 \<Rightarrow> unit kernel" where
  "free_dind dev block = free_indirect (free_ind dev) dev block"

definition free_direct :: "nat \<Rightarrow> nat \<Rightarrow> unit kernel" where
  "free_direct ino i =
     bind (get_inode ino) (\<lambda>m.
     whenk (i_zone m i \<noteq> 0)
       (seq (free_block (ucast (i_dev m)) (ucast (i_zone m i)))
            (modify (upd_inode ino (\<lambda>m. m\<lparr>i_zone := (i_zone m)(i := 0)\<rparr>)))))"

definition truncate :: "nat \<Rightarrow> unit kernel" where
  "truncate ino =
     bind (get_inode ino) (\<lambda>m.
     if \<not> (S_ISREG (i_mode m) \<or> S_ISDIR (i_mode m)) then skip
     else
       seq (for_each [0..<7] (free_direct ino))
      (bind (get_inode ino) (\<lambda>m.
       seq (free_ind (ucast (i_dev m)) (ucast (i_zone m 7)))
      (bind (get_inode ino) (\<lambda>m.
       seq (free_dind (ucast (i_dev m)) (ucast (i_zone m 8)))
           (modify (\<lambda>s. upd_inode ino (\<lambda>m. m\<lparr>i_zone := (i_zone m)(7 := 0, 8 := 0), i_size := 0, i_dirt := 1,
              i_mtime := CURRENT_TIME s, i_ctime := CURRENT_TIME s\<rparr>) s)))))))"

section \<open>The inode table\<close>

definition iput_step :: "nat \<Rightarrow> unit \<Rightarrow> (unit + unit) kernel" where
  "iput_step ino _ =
     bind (get_inode ino) (\<lambda>m.
     if 1 < i_count m
     then seq (modify (upd_inode ino (\<lambda>m. m\<lparr>i_count := i_count m - 1\<rparr>))) (ret (Inr ()))
     else if i_nlinks m = 0 then seq (truncate ino) (seq (free_inode ino) (ret (Inr ())))
     else if i_dirt m \<noteq> 0 then seq (write_inode ino) (seq (wait_on_inode ino) (ret (Inl ())))
     else seq (modify (upd_inode ino (\<lambda>m. m\<lparr>i_count := i_count m - 1\<rparr>))) (ret (Inr ())))"

definition iput_pipe :: "nat \<Rightarrow> unit kernel" where
  "iput_pipe ino =
     seq (wake_up (I_wait ino))
    (seq (modify (upd_inode ino (\<lambda>m. m\<lparr>i_count := i_count m - 1\<rparr>)))
    (bind (get_inode ino) (\<lambda>m.
     if i_count m \<noteq> 0 then skip
     else seq (free_page (i_size m))
              (modify (upd_inode ino (\<lambda>m. m\<lparr>i_count := 0, i_dirt := 0, i_pipe := 0\<rparr>))))))"

definition iput_ino :: "nat \<Rightarrow> unit kernel" where
  "iput_ino ino =
     seq (wait_on_inode ino)
    (bind (get_inode ino) (\<lambda>m.
     if i_count m = 0 then panic ''iput: trying to free free inode''
     else if i_pipe m \<noteq> 0 then iput_pipe ino
     else if i_dev m = 0 then modify (upd_inode ino (\<lambda>m. m\<lparr>i_count := i_count m - 1\<rparr>))
     else
       seq (whenk (S_ISBLK (i_mode m))
              (bind (sync_dev (ucast (i_zone m 0))) (\<lambda>_. wait_on_inode ino)))
           (loop (iput_step ino) ())))"

definition iput :: "nat option \<Rightarrow> unit kernel" where
  "iput ino = (case ino of None \<Rightarrow> skip | Some i \<Rightarrow> iput_ino i)"

text \<open>
  The search of \<open>get_empty_inode\<close>: at most \<open>k\<close> more steps of \<open>last_inode\<close> around the table;
  the answer is the new \<open>last_inode\<close> and the inode found.
\<close>

primrec scan_inodes :: "nat \<Rightarrow> (nat \<Rightarrow> m_inode) \<Rightarrow> nat \<Rightarrow> nat option \<Rightarrow> nat \<times> nat option" where
  "scan_inodes 0 it li ino = (li, ino)"
| "scan_inodes (Suc k) it li ino =
     (let li = (if NR_INODE \<le> li + 1 then 0 else li + 1); m = it li in
      if i_count m = 0
      then (if i_dirt m = 0 \<and> i_lock m = 0 then (li, Some li)
            else scan_inodes k it li (Some li))
      else scan_inodes k it li ino)"

definition flush_step :: "nat \<Rightarrow> unit \<Rightarrow> (unit + unit) kernel" where
  "flush_step ino _ =
     bind (get_inode ino) (\<lambda>m.
     if i_dirt m = 0 then ret (Inr ())
     else seq (write_inode ino) (seq (wait_on_inode ino) (ret (Inl ()))))"

definition empty_step :: "unit \<Rightarrow> (unit + nat) kernel" where
  "empty_step _ =
     bind (gets (\<lambda>s. scan_inodes NR_INODE (inode_table s) (last_inode s) None)) (\<lambda>(li, found).
     seq (modify (\<lambda>s. s\<lparr>last_inode := li\<rparr>))
    (case found of
       None \<Rightarrow> panic ''No free inodes in mem''
     | Some ino \<Rightarrow>
         seq (wait_on_inode ino)
        (seq (loop (flush_step ino) ())
        (bind (get_inode ino) (\<lambda>m.
         ret (if i_count m \<noteq> 0 then Inl () else Inr ino))))))"

definition get_empty_inode :: "nat kernel" where
  "get_empty_inode =
     bind (loop empty_step ()) (\<lambda>ino.
     seq (modify (clear_inode ino))
    (seq (modify (upd_inode ino (\<lambda>m. m\<lparr>i_count := 1\<rparr>)))
         (ret ino)))"

definition get_pipe_inode :: "nat option kernel" where
  "get_pipe_inode =
     bind get_empty_inode (\<lambda>ino.
     bind get_free_page (\<lambda>page.
     seq (modify (upd_inode ino (\<lambda>m. m\<lparr>i_size := page\<rparr>)))
    (if page = 0 then seq (modify (upd_inode ino (\<lambda>m. m\<lparr>i_count := 0\<rparr>))) (ret None)
     else seq (modify (upd_inode ino (\<lambda>m. m\<lparr>i_count := 2, i_zone := (i_zone m)(1 := 0, 0 := 0), i_pipe := 1\<rparr>)))
              (ret (Some ino)))))"

definition read_inode :: "nat \<Rightarrow> unit kernel" where
  "read_inode ino =
     seq (lock_inode ino)
    (bind (idev ino) (\<lambda>dev.
     bind (get_super dev) (\<lambda>p.
     case p of
       None \<Rightarrow> panic ''trying to read inode without dev''
     | Some sb \<Rightarrow>
         bind (gets (\<lambda>s. inode_block (super_blocks s sb) (inode_table s ino))) (\<lambda>block.
         bind (idev ino) (\<lambda>dev.
         bind (bread dev block) (\<lambda>q.
         case q of
           None \<Rightarrow> panic ''unable to read i-node block''
         | Some bh \<Rightarrow>
             seq (modify (\<lambda>s. upd_inode ino
                    (\<lambda>m. set_disk_part (get_d_inode (b_data (buffers s bh)) (inode_slot m)) m) s))
            (seq (brelse (Some bh))
                 (unlock_inode ino))))))))"

text \<open>
  \<open>iget\<close>: the loop over the table carries the position, and the device and number looked
  for, which change when a mount point is crossed.
\<close>

definition iget_step :: "nat \<Rightarrow> nat \<times> u32 \<times> u32 \<Rightarrow> (nat \<times> u32 \<times> u32 + nat) kernel" where
  "iget_step spare = (\<lambda>(i, dev, nr).
     if NR_INODE \<le> i
     then seq (modify (upd_inode spare (\<lambda>m. m\<lparr>i_dev := ucast dev, i_num := ucast nr\<rparr>)))
         (seq (read_inode spare) (ret (Inr spare)))
     else bind (get_inode i) (\<lambda>m.
       if ucast (i_dev m) \<noteq> dev \<or> ucast (i_num m) \<noteq> nr then ret (Inl (i + 1, dev, nr))
       else
         seq (wait_on_inode i)
        (bind (get_inode i) (\<lambda>m.
         if ucast (i_dev m) \<noteq> dev \<or> ucast (i_num m) \<noteq> nr then ret (Inl (0, dev, nr))
         else
           seq (modify (upd_inode i (\<lambda>m. m\<lparr>i_count := i_count m + 1\<rparr>)))
          (bind (get_inode i) (\<lambda>m.
           if i_mount m = 0 then seq (iput_ino spare) (ret (Inr i))
           else bind (gets (\<lambda>s. search (\<lambda>k. s_imount (super_blocks s k) = Some i) 0 NR_SUPER)) (\<lambda>k.
             case k of
               None \<Rightarrow> seq (iput_ino spare) (ret (Inr i))
             | Some k \<Rightarrow>
                 seq (iput_ino i)
                (bind (gets (\<lambda>s. ucast (s_dev (super_blocks s k)))) (\<lambda>dev.
                 ret (Inl (0, dev, ucast ROOT_INO)))))))))))"

definition iget :: "u32 \<Rightarrow> u32 \<Rightarrow> nat kernel" where
  "iget dev nr =
     (if dev = 0 then panic ''iget with dev==0''
      else bind get_empty_inode (\<lambda>spare. loop (iget_step spare) (0, dev, nr)))"

definition new_inode :: "u32 \<Rightarrow> nat option kernel" where
  "new_inode dev =
     bind get_empty_inode (\<lambda>ino.
     bind (get_super dev) (\<lambda>p.
     case p of
       None \<Rightarrow> panic ''new_inode with unknown device''
     | Some sb \<Rightarrow>
         bind (gets (\<lambda>s. (find_map (s_imap (super_blocks s sb)) s, s_ninodes (super_blocks s sb)))) (\<lambda>(f, ninodes).
         case f of
           None \<Rightarrow> seq (iput_ino ino) (ret None)
         | Some (i, bh, j) \<Rightarrow>
             (if unat ninodes < j + i * 8192 then seq (iput_ino ino) (ret None)
              else bind (set_map_bit j bh) (\<lambda>already.
                if already then panic ''new_inode: bit already set''
                else
                  seq (modify (mark_dirty bh))
                 (seq (modify (\<lambda>s. upd_inode ino (\<lambda>m. m\<lparr>i_count := 1, i_nlinks := 1, i_dev := ucast dev,
                         i_uid := euid (cur s), i_gid := ucast (egid (cur s)), i_dirt := 1,
                         i_num := word_of_nat (j + i * 8192),
                         i_ctime := CURRENT_TIME s, i_atime := CURRENT_TIME s, i_mtime := CURRENT_TIME s\<rparr>) s))
                      (ret (Some ino))))))))"

end
