(* ===== verification/Super.thy ===== *)
theory Super
  imports Inode
begin

text \<open>
  The super block table, \<^verbatim>\<open>fs/super.c\<close>, with \<open>check_disk_change\<close> of \<^verbatim>\<open>fs/buffer.c\<close>.
  (\<open>sys_mount\<close> and \<open>sys_umount\<close> are in the theory \<open>Dirops\<close>, they need \<open>namei\<close>.)
\<close>

abbreviation I_MAP_SLOTS :: nat where "I_MAP_SLOTS \<equiv> 8"
abbreviation Z_MAP_SLOTS :: nat where "Z_MAP_SLOTS \<equiv> 8"

definition release_maps :: "nat \<Rightarrow> unit kernel" where
  "release_maps sb =
     seq (for_each [0..<I_MAP_SLOTS] (\<lambda>i. bind (gets (\<lambda>s. s_imap (super_blocks s sb) i)) brelse))
         (for_each [0..<Z_MAP_SLOTS] (\<lambda>i. bind (gets (\<lambda>s. s_zmap (super_blocks s sb) i)) brelse))"

definition set_s_dev :: "nat \<Rightarrow> u16 \<Rightarrow> kstate \<Rightarrow> kstate" where
  "set_s_dev sb d s = upd_super sb (\<lambda>p. p\<lparr>s_dev := d\<rparr>) s"

definition put_super :: "u32 \<Rightarrow> unit kernel" where
  "put_super dev =
     bind (gets ROOT_DEV) (\<lambda>r.
     if dev = r then skip
     else bind (get_super dev) (\<lambda>p.
       case p of
         None \<Rightarrow> skip
       | Some sb \<Rightarrow>
           bind (gets (\<lambda>s. s_imount (super_blocks s sb))) (\<lambda>m.
           if m \<noteq> None then skip
           else
             seq (lock_super sb)
            (seq (modify (set_s_dev sb 0))
            (seq (release_maps sb)
                 (free_super sb))))))"

definition check_disk_change :: "u32 \<Rightarrow> unit kernel" where
  "check_disk_change dev =
     (if MAJOR dev \<noteq> 2 then skip
      else
        seq (for_each [0..<NR_SUPER] (\<lambda>i.
               bind (gets (\<lambda>s. ucast (s_dev (super_blocks s i)))) (\<lambda>d.
               whenk (d = dev) (put_super d))))
       (seq (invalidate_inodes dev)
            (invalidate_buffers dev)))"

definition fail_super :: "nat \<Rightarrow> nat option kernel" where
  "fail_super sb = seq (modify (set_s_dev sb 0)) (seq (free_super sb) (ret None))"

text \<open>
  The two loops that read the bitmaps: read block after block into the slots until one is
  unreadable. An index past the eight slots is out of bounds. The answer is the next block.
\<close>

definition set_imap :: "nat \<Rightarrow> nat \<Rightarrow> nat option \<Rightarrow> kstate \<Rightarrow> kstate" where
  "set_imap sb i b s = upd_super sb (\<lambda>p. p\<lparr>s_imap := (s_imap p)(i := b)\<rparr>) s"

definition set_zmap :: "nat \<Rightarrow> nat \<Rightarrow> nat option \<Rightarrow> kstate \<Rightarrow> kstate" where
  "set_zmap sb i b s = upd_super sb (\<lambda>p. p\<lparr>s_zmap := (s_zmap p)(i := b)\<rparr>) s"

primrec read_maps :: "(nat \<Rightarrow> nat option \<Rightarrow> kstate \<Rightarrow> kstate) \<Rightarrow> u32 \<Rightarrow> nat list \<Rightarrow> u32 \<Rightarrow> u32 kernel" where
  "read_maps set_slot dev [] block = ret block"
| "read_maps set_slot dev (i # is) block =
     bind (bread dev block) (\<lambda>b.
     if 8 \<le> i then fault
     else seq (modify (set_slot i b))
       (if b = None then ret block else read_maps set_slot dev is (block + 1)))"

definition load_super :: "nat \<Rightarrow> u32 \<Rightarrow> nat option kernel" where
  "load_super sb dev =
     seq (modify (upd_super sb (\<lambda>p. p\<lparr>s_dev := ucast dev, s_isup := None, s_imount := None, s_time := 0,
            s_rd_only := 0, s_dirt := 0\<rparr>)))
    (seq (lock_super sb)
    (bind (bread dev 1) (\<lambda>b.
     case b of
       None \<Rightarrow> fail_super sb
     | Some bh \<Rightarrow>
         seq (modify (\<lambda>s. upd_super sb (get_d_super (b_data (buffers s bh))) s))
        (seq (brelse (Some bh))
        (bind (gets (\<lambda>s. super_blocks s sb)) (\<lambda>p.
         if s_magic p \<noteq> SUPER_MAGIC then fail_super sb
         else
           seq (modify (upd_super sb (\<lambda>p. p\<lparr>s_imap := (\<lambda>_. None), s_zmap := (\<lambda>_. None)\<rparr>)))
          (bind (read_maps (set_imap sb) dev [0..<unat (s_imap_blocks p)] 2) (\<lambda>block.
           bind (read_maps (set_zmap sb) dev [0..<unat (s_zmap_blocks p)] block) (\<lambda>block.
           if block \<noteq> 2 + ucast (s_imap_blocks p) + ucast (s_zmap_blocks p)
           then seq (release_maps sb) (fail_super sb)
           else bind (gets (\<lambda>s. super_blocks s sb)) (\<lambda>p.
             deref (s_imap p 0) (\<lambda>ib.
             deref (s_zmap p 0) (\<lambda>zb.
               seq (modify (upd_buffer ib (\<lambda>b. b\<lparr>b_data := (b_data b)(0 := b_data b 0 OR 1)\<rparr>)))
              (seq (modify (upd_buffer zb (\<lambda>b. b\<lparr>b_data := (b_data b)(0 := b_data b 0 OR 1)\<rparr>)))
              (seq (free_super sb)
                   (ret (Some sb))))))))))))))))"

definition read_super :: "u32 \<Rightarrow> nat option kernel" where
  "read_super dev =
     (if dev = 0 then ret None
      else
        seq (check_disk_change dev)
       (bind (get_super dev) (\<lambda>p.
        if p \<noteq> None then ret p
        else bind (gets (\<lambda>s. search (\<lambda>i. s_dev (super_blocks s i) = 0) 0 NR_SUPER)) (\<lambda>q.
          case q of None \<Rightarrow> ret None | Some sb \<Rightarrow> load_super sb dev))))"

text \<open>The free counts that \<open>mount_root\<close> prints read every bitmap block they need.\<close>

definition read_all_bits :: "(nat \<Rightarrow> nat option) \<Rightarrow> nat \<Rightarrow> unit kernel" where
  "read_all_bits bits nr = for_each (rev [0..<nr]) (\<lambda>i. deref (bits (i div 8192)) (\<lambda>_. skip))"

text \<open>\<open>keypress\<close> is \<open>wait_for_keypress\<close> of \<^verbatim>\<open>kernel/chr_drv/tty_io.c\<close>.\<close>

definition mount_root :: "unit kernel \<Rightarrow> unit kernel" where
  "mount_root keypress =
     seq (modify (\<lambda>s. s\<lparr>file_table := (\<lambda>i. if i < NR_FILE then (file_table s i)\<lparr>f_count := 0\<rparr> else file_table s i)\<rparr>))
    (bind (gets ROOT_DEV) (\<lambda>dev.
     seq (whenk (MAJOR dev = 2) keypress)
    (seq (modify (\<lambda>s. s\<lparr>super_blocks := (\<lambda>i. if i < NR_SUPER
            then (super_blocks s i)\<lparr>s_dev := 0, s_lock := 0, s_wait := None\<rparr> else super_blocks s i)\<rparr>))
    (bind (read_super dev) (\<lambda>p.
     case p of
       None \<Rightarrow> panic ''Unable to mount root''
     | Some sb \<Rightarrow>
         bind (iget dev (ucast ROOT_INO)) (\<lambda>mi.
         seq (modify (upd_inode mi (\<lambda>m. m\<lparr>i_count := i_count m + 3\<rparr>)))
        (seq (modify (upd_super sb (\<lambda>p. p\<lparr>s_isup := Some mi, s_imount := Some mi\<rparr>)))
        (seq (modify (upd_cur (\<lambda>t. t\<lparr>pwd := Some mi, root := Some mi\<rparr>)))
        (bind (gets (\<lambda>s. super_blocks s sb)) (\<lambda>p.
         seq (read_all_bits (s_zmap p) (unat (s_nzones p)))
             (read_all_bits (s_imap p) (unat (s_ninodes p) + 1))))))))))))"

end
