(* ===== verification/Namei.thy ===== *)
theory Namei
  imports Super
begin

text \<open>
  Path names and directories, \<^verbatim>\<open>fs/namei.c\<close>: permissions, the search for and creation of
  directory entries, path resolution, \<open>open_namei\<close> and the system calls that change
  directories. A path is an address in the memory of the current task and is read byte by
  byte. A directory entry is a buffer with the number of its slot; functions that get
  \<open>struct m_inode **\<close> return the inode they leave there.
\<close>

abbreviation O_ACCMODE :: u32 where "O_ACCMODE \<equiv> 3"
abbreviation O_RDONLY :: u32 where "O_RDONLY \<equiv> 0"
abbreviation O_WRONLY :: u32 where "O_WRONLY \<equiv> 1"
abbreviation O_RDWR :: u32 where "O_RDWR \<equiv> 2"
abbreviation O_CREAT :: u32 where "O_CREAT \<equiv> 0x40"
abbreviation O_EXCL :: u32 where "O_EXCL \<equiv> 0x80"
abbreviation O_TRUNC :: u32 where "O_TRUNC \<equiv> 0x200"
abbreviation O_APPEND :: u32 where "O_APPEND \<equiv> 0x400"
abbreviation MAY_EXEC :: u32 where "MAY_EXEC \<equiv> 1"
abbreviation MAY_WRITE :: u32 where "MAY_WRITE \<equiv> 2"
abbreviation MAY_READ :: u32 where "MAY_READ \<equiv> 4"
abbreviation I_REGULAR :: u32 where "I_REGULAR \<equiv> 0x8000"
abbreviation I_DIRECTORY :: u32 where "I_DIRECTORY \<equiv> 0x4000"
abbreviation S_ISVTX :: u16 where "S_ISVTX \<equiv> 0x200"
abbreviation SLASH :: u8 where "SLASH \<equiv> 47"
abbreviation DOT :: u8 where "DOT \<equiv> 46"

definition ACC_MODE :: "u32 \<Rightarrow> u32" where
  "ACC_MODE x = (if x AND O_ACCMODE = 0 then 4 else if x AND O_ACCMODE = 1 then 2
     else if x AND O_ACCMODE = 2 then 6 else 255)"

definition permission_inode :: "m_inode \<Rightarrow> u32 \<Rightarrow> kstate \<Rightarrow> bool" where
  "permission_inode m want s =
     (let mode = ucast (i_mode m) :: u32 in
      if i_dev m \<noteq> 0 \<and> i_nlinks m = 0 then False
      else
        let mode = (if euid (cur s) = i_uid m then drop_bit 6 mode
                    else if egid (cur s) = ucast (i_gid m) then drop_bit 3 mode else mode)
        in mode AND want AND 7 = want \<or> suser s)"

definition permission :: "nat \<Rightarrow> u32 \<Rightarrow> bool kernel" where
  "permission ino want = gets (\<lambda>s. permission_inode (inode_table s ino) want s)"

section \<open>Directory entries\<close>

type_synonym entry = "nat \<times> nat"  \<comment> \<open>buffer and slot\<close>

definition entry_at :: "entry \<Rightarrow> kstate \<Rightarrow> dir_entry" where
  "entry_at = (\<lambda>(bh, k) s. get_dir_entry (b_data (buffers s bh)) k)"

text \<open>The comparison loop of \<open>match\<close>, from byte \<open>i\<close>, for \<open>k\<close> more bytes.\<close>

primrec match_bytes :: "nat \<Rightarrow> nat \<Rightarrow> u32 \<Rightarrow> entry \<Rightarrow> bool kernel" where
  "match_bytes 0 i name de = ret True"
| "match_bytes (Suc k) i name de =
     bind (get_fs_byte (name + word_of_nat i)) (\<lambda>c.
     bind (gets (entry_at de)) (\<lambda>e.
     if c \<noteq> de_name e i then ret False else match_bytes k (i + 1) name de))"

definition match :: "u32 \<Rightarrow> u32 \<Rightarrow> entry \<Rightarrow> bool kernel" where
  "match len name de =
     bind (gets (entry_at de)) (\<lambda>e.
     if de_inode e = 0 \<or> 14 <s len then ret False
     else if len <s 14 \<and> de_name e (unat len) \<noteq> 0 then ret False
     else match_bytes (unat len) 0 name de)"

definition cut_name :: "u32 \<Rightarrow> u32" where
  "cut_name namelen = (if 14 <s namelen then 14 else namelen)"

definition find_entry_step ::
  "nat \<Rightarrow> u32 \<Rightarrow> u32 \<Rightarrow> u32 \<Rightarrow> nat option \<times> nat \<times> u32 \<Rightarrow> (nat option \<times> nat \<times> u32 + entry option) kernel" where
  "find_entry_step dir name namelen entries = (\<lambda>(bh, k, i).
     let check = (\<lambda>b k. bind (match namelen name (b, k)) (\<lambda>ok.
           ret (if ok then Inr (Some (b, k)) else Inl (Some b, k + 1, i + 1)))) in
     if \<not> i <s entries then seq (brelse bh) (ret (Inr None))
     else deref bh (\<lambda>b.
       if k < DIR_ENTRIES_PER_BLOCK then check b k
       else
         seq (brelse (Some b))
        (bind (bmap dir (i div 64)) (\<lambda>block.
         bind (if block = 0 then ret None else bind (idev dir) (\<lambda>d. bread d block)) (\<lambda>nb.
         case nb of
           None \<Rightarrow> ret (Inl (None, k, i + 64))
         | Some b \<Rightarrow> check b 0)))))"

text \<open>\<open>..\<close> in the root of the task is \<open>.\<close>; over a mount point it leaves the mounted device.\<close>

definition dotdot :: "nat \<Rightarrow> u32 \<Rightarrow> (nat \<times> u32) kernel" where
  "dotdot dir namelen =
     bind (gets (\<lambda>s. root (cur s))) (\<lambda>r.
     bind (get_inode dir) (\<lambda>m.
     if Some dir = r then ret (dir, 1)
     else if i_num m = ROOT_INO
     then bind (get_super (ucast (i_dev m))) (\<lambda>p.
          deref p (\<lambda>sb.
            bind (gets (\<lambda>s. s_imount (super_blocks s sb))) (\<lambda>im.
            case im of
              None \<Rightarrow> ret (dir, namelen)
            | Some _ \<Rightarrow>
                seq (iput_ino dir)
               (bind (gets (\<lambda>s. s_imount (super_blocks s sb))) (\<lambda>im.
                deref im (\<lambda>d.
                  seq (modify (upd_inode d (\<lambda>m. m\<lparr>i_count := i_count m + 1\<rparr>)))
                      (ret (d, namelen))))))))
     else ret (dir, namelen)))"

definition is_dotdot :: "u32 \<Rightarrow> u32 \<Rightarrow> bool kernel" where
  "is_dotdot name namelen =
     (if namelen \<noteq> 2 then ret False
      else bind (get_fs_byte name) (\<lambda>c.
        if c \<noteq> DOT then ret False
        else bind (get_fs_byte (name + 1)) (\<lambda>c. ret (c = DOT))))"

definition find_entry :: "nat \<Rightarrow> u32 \<Rightarrow> u32 \<Rightarrow> (nat \<times> entry option) kernel" where
  "find_entry dir name namelen =
     bind (get_inode dir) (\<lambda>m.
     let namelen = cut_name namelen; entries = i_size m div 16 in
     if namelen = 0 then ret (dir, None)
     else
       bind (is_dotdot name namelen) (\<lambda>dd.
       bind (if dd then dotdot dir namelen else ret (dir, namelen)) (\<lambda>(dir, namelen).
       bind (get_inode dir) (\<lambda>m.
       if i_zone m 0 = 0 then ret (dir, None)
       else bind (bread (ucast (i_dev m)) (ucast (i_zone m 0))) (\<lambda>bh.
         case bh of
           None \<Rightarrow> ret (dir, None)
         | Some b \<Rightarrow>
             bind (loop (find_entry_step dir name namelen entries) (Some b, 0, 0)) (\<lambda>r.
             ret (dir, r)))))))"

text \<open>Writing the name of a new entry, padded with zeros.\<close>

definition write_name :: "u32 \<Rightarrow> u32 \<Rightarrow> entry \<Rightarrow> unit kernel" where
  "write_name name namelen = (\<lambda>(bh, k).
     for_each [0..<NAME_LEN] (\<lambda>i.
       bind (if word_of_nat i <s namelen then get_fs_byte (name + word_of_nat i) else ret 0) (\<lambda>c.
       modify (upd_buffer bh (\<lambda>b. b\<lparr>b_data := set_de_name k i c (b_data b)\<rparr>)))))"

definition set_entry :: "entry \<Rightarrow> u16 \<Rightarrow> kstate \<Rightarrow> kstate" where
  "set_entry = (\<lambda>(bh, k) nr s. upd_buffer bh (\<lambda>b. b\<lparr>b_data := set_de_inode k nr (b_data b)\<rparr>) s)"

text \<open>Slot \<open>k\<close> of buffer \<open>b\<close>, entry number \<open>i\<close>: extend the directory at its end, use a free entry.\<close>

definition use_slot ::
  "nat \<Rightarrow> u32 \<Rightarrow> u32 \<Rightarrow> nat \<Rightarrow> nat \<Rightarrow> u32 \<Rightarrow> (nat option \<times> nat \<times> u32 + entry option) kernel" where
  "use_slot dir name namelen b k i =
     bind (get_inode dir) (\<lambda>m.
     seq (whenk (i_size m \<le> i * 16)
           (seq (modify (set_entry (b, k) 0))
                (modify (\<lambda>s. upd_inode dir (\<lambda>m. m\<lparr>i_size := (i + 1) * 16, i_dirt := 1, i_ctime := CURRENT_TIME s\<rparr>) s))))
    (bind (gets (entry_at (b, k))) (\<lambda>e.
     if de_inode e = 0
     then
       seq (modify (\<lambda>s. upd_inode dir (\<lambda>m. m\<lparr>i_mtime := CURRENT_TIME s\<rparr>) s))
      (seq (write_name name namelen (b, k))
      (seq (modify (mark_dirty b))
           (ret (Inr (Some (b, k))))))
     else ret (Inl (Some b, k + 1, i + 1)))))"

definition add_entry_step ::
  "nat \<Rightarrow> u32 \<Rightarrow> u32 \<Rightarrow> nat option \<times> nat \<times> u32 \<Rightarrow> (nat option \<times> nat \<times> u32 + entry option) kernel" where
  "add_entry_step dir name namelen = (\<lambda>(bh, k, i).
     deref bh (\<lambda>b.
       if k < DIR_ENTRIES_PER_BLOCK then use_slot dir name namelen b k i
       else
         seq (brelse (Some b))
        (bind (create_block dir (i div 64)) (\<lambda>block.
         if block = 0 then ret (Inr None)
         else bind (idev dir) (\<lambda>d. bind (bread d block) (\<lambda>nb.
           case nb of
             None \<Rightarrow> ret (Inl (None, k, i + 64))
           | Some b \<Rightarrow> use_slot dir name namelen b 0 i))))))"

definition add_entry :: "nat \<Rightarrow> u32 \<Rightarrow> u32 \<Rightarrow> entry option kernel" where
  "add_entry dir name namelen =
     (let namelen = cut_name namelen in
      if namelen = 0 then ret None
      else bind (get_inode dir) (\<lambda>m.
        if i_zone m 0 = 0 then ret None
        else bind (bread (ucast (i_dev m)) (ucast (i_zone m 0))) (\<lambda>bh.
          case bh of
            None \<Rightarrow> ret None
          | Some b \<Rightarrow> loop (add_entry_step dir name namelen) (Some b, 0, 0))))"

section \<open>Path resolution\<close>

text \<open>Reading one component: its length, the character that ends it, the address behind.\<close>

definition scan_step :: "u32 \<times> u32 \<Rightarrow> (u32 \<times> u32 + u32 \<times> u8 \<times> u32) kernel" where
  "scan_step = (\<lambda>(namelen, path).
     bind (get_fs_byte path) (\<lambda>c.
     ret (if c \<noteq> 0 \<and> c \<noteq> SLASH then Inl (namelen + 1, path + 1) else Inr (namelen, c, path + 1))))"

definition get_dir_step :: "nat \<times> u32 \<Rightarrow> (nat \<times> u32 + nat option) kernel" where
  "get_dir_step = (\<lambda>(ino, path).
     bind (get_inode ino) (\<lambda>m.
     bind (permission ino MAY_EXEC) (\<lambda>ok.
     if \<not> S_ISDIR (i_mode m) \<or> \<not> ok then seq (iput_ino ino) (ret (Inr None))
     else bind (loop scan_step (0, path)) (\<lambda>(namelen, c, path').
       if c = 0 then ret (Inr (Some ino))
       else bind (find_entry ino path namelen) (\<lambda>(ino, de).
         case de of
           None \<Rightarrow> seq (iput_ino ino) (ret (Inr None))
         | Some (bh, k) \<Rightarrow>
             bind (gets (\<lambda>s. (ucast (de_inode (entry_at (bh, k) s)), ucast (i_dev (inode_table s ino))))) (\<lambda>(inr, dev).
             seq (brelse (Some bh))
            (seq (iput_ino ino)
            (bind (iget dev inr) (\<lambda>ino. ret (Inl (ino, path')))))))))))"

definition get_dir :: "u32 \<Rightarrow> nat option kernel" where
  "get_dir pathname =
     bind (gets (\<lambda>s. (root (cur s), pwd (cur s)))) (\<lambda>(r, w).
     bind (gets (\<lambda>s. case r of None \<Rightarrow> True | Some i \<Rightarrow> i_count (inode_table s i) = 0)) (\<lambda>no_root.
     bind (gets (\<lambda>s. case w of None \<Rightarrow> True | Some i \<Rightarrow> i_count (inode_table s i) = 0)) (\<lambda>no_cwd.
     if no_root then panic ''No root inode''
     else if no_cwd then panic ''No cwd inode''
     else bind (get_fs_byte pathname) (\<lambda>c.
       if c = 0 then ret None
       else deref (if c = SLASH then r else w) (\<lambda>ino.
         seq (modify (upd_inode ino (\<lambda>m. m\<lparr>i_count := i_count m + 1\<rparr>)))
             (loop get_dir_step (ino, if c = SLASH then pathname + 1 else pathname)))))))"

text \<open>The loop of \<open>dir_namei\<close> that finds the last component.\<close>

definition base_step :: "u32 \<times> u32 \<Rightarrow> (u32 \<times> u32 + u32 \<times> u32) kernel" where
  "base_step = (\<lambda>(path, base).
     bind (get_fs_byte path) (\<lambda>c.
     ret (if c = 0 then Inr (path + 1, base)
          else Inl (path + 1, if c = SLASH then path + 1 else base))))"

definition dir_namei :: "u32 \<Rightarrow> (nat \<times> u32 \<times> u32) option kernel" where
  "dir_namei pathname =
     bind (get_dir pathname) (\<lambda>d.
     case d of
       None \<Rightarrow> ret None
     | Some dir \<Rightarrow>
         bind (loop base_step (pathname, pathname)) (\<lambda>(path, base).
         ret (Some (dir, path - base - 1, base))))"

definition namei :: "u32 \<Rightarrow> nat option kernel" where
  "namei pathname =
     bind (dir_namei pathname) (\<lambda>r.
     case r of
       None \<Rightarrow> ret None
     | Some (dir, namelen, base) \<Rightarrow>
         (if namelen = 0 then ret (Some dir)
          else bind (find_entry dir base namelen) (\<lambda>(dir, de).
            case de of
              None \<Rightarrow> seq (iput_ino dir) (ret None)
            | Some (bh, k) \<Rightarrow>
                bind (gets (\<lambda>s. (ucast (de_inode (entry_at (bh, k) s)), ucast (i_dev (inode_table s dir))))) (\<lambda>(inr, dev).
                seq (brelse (Some bh))
               (seq (iput_ino dir)
               (bind (iget dev inr) (\<lambda>ino.
                seq (modify (\<lambda>s. upd_inode ino (\<lambda>m. m\<lparr>i_atime := CURRENT_TIME s, i_dirt := 1\<rparr>) s))
                    (ret (Some ino)))))))))"

section \<open>Opening\<close>

definition put_ret :: "nat \<Rightarrow> 'a \<Rightarrow> 'a kernel" where
  "put_ret ino e = seq (iput_ino ino) (ret e)"

definition dec_nlinks :: "nat \<Rightarrow> kstate \<Rightarrow> kstate" where
  "dec_nlinks ino s = upd_inode ino (\<lambda>m. m\<lparr>i_nlinks := i_nlinks m - 1\<rparr>) s"

definition create_file :: "nat \<Rightarrow> u32 \<Rightarrow> u32 \<Rightarrow> u32 \<Rightarrow> (u32 \<times> nat option) kernel" where
  "create_file dir base namelen mode =
     bind (permission dir MAY_WRITE) (\<lambda>ok.
     if \<not> ok then put_ret dir (- EACCES, None)
     else bind (idev dir) (\<lambda>dev. bind (new_inode dev) (\<lambda>p.
       case p of
         None \<Rightarrow> put_ret dir (- ENOSPC, None)
       | Some ino \<Rightarrow>
           seq (modify (\<lambda>s. upd_inode ino (\<lambda>m. m\<lparr>i_uid := euid (cur s), i_mode := ucast mode, i_dirt := 1\<rparr>) s))
          (bind (add_entry dir base namelen) (\<lambda>de.
           case de of
             None \<Rightarrow> seq (modify (dec_nlinks ino)) (seq (iput_ino ino) (put_ret dir (- ENOSPC, None)))
           | Some (bh, k) \<Rightarrow>
               seq (modify (\<lambda>s. set_entry (bh, k) (i_num (inode_table s ino)) s))
              (seq (modify (mark_dirty bh))
              (seq (brelse (Some bh))
                   (put_ret dir (0, Some ino)))))))))"

definition open_existing :: "nat \<Rightarrow> entry \<Rightarrow> u32 \<Rightarrow> (u32 \<times> nat option) kernel" where
  "open_existing dir de flag = (case de of (bh, k) \<Rightarrow>
     bind (gets (\<lambda>s. (ucast (de_inode (entry_at (bh, k) s)), ucast (i_dev (inode_table s dir))))) (\<lambda>(inr, dev).
     seq (brelse (Some bh))
    (seq (iput_ino dir)
    (if flag AND O_EXCL \<noteq> 0 then ret (- EEXIST, None)
     else bind (iget dev inr) (\<lambda>ino.
       bind (get_inode ino) (\<lambda>m.
       bind (permission ino (ACC_MODE flag)) (\<lambda>ok.
       if S_ISDIR (i_mode m) \<and> flag AND O_ACCMODE \<noteq> 0 \<or> \<not> ok then put_ret ino (- EPERM, None)
       else
         seq (modify (\<lambda>s. upd_inode ino (\<lambda>m. m\<lparr>i_atime := CURRENT_TIME s\<rparr>) s))
        (seq (whenk (flag AND O_TRUNC \<noteq> 0) (truncate ino))
             (ret (0, Some ino))))))))))"

definition open_namei :: "u32 \<Rightarrow> u32 \<Rightarrow> u32 \<Rightarrow> (u32 \<times> nat option) kernel" where
  "open_namei pathname flag mode =
     bind (gets (\<lambda>s. t_umask (cur s))) (\<lambda>um.
     let flag = (if flag AND O_TRUNC \<noteq> 0 \<and> flag AND O_ACCMODE = 0 then flag OR O_WRONLY else flag);
         mode = mode AND (0x1ff AND NOT (ucast um)) OR I_REGULAR in
     bind (dir_namei pathname) (\<lambda>r.
     case r of
       None \<Rightarrow> ret (- ENOENT, None)
     | Some (dir, namelen, base) \<Rightarrow>
         (if namelen = 0
          then (if flag AND (O_ACCMODE OR O_CREAT OR O_TRUNC) = 0 then ret (0, Some dir)
                else put_ret dir (- EISDIR, None))
          else bind (find_entry dir base namelen) (\<lambda>(dir, de).
            case de of
              None \<Rightarrow> (if flag AND O_CREAT = 0 then put_ret dir (- ENOENT, None)
                       else create_file dir base namelen mode)
            | Some e \<Rightarrow> open_existing dir e flag))))"

end
