(* ===== verification/Dirops.thy ===== *)
theory Dirops
  imports Namei
begin

text \<open>
  The system calls of \<^verbatim>\<open>fs/namei.c\<close> that create and remove directory entries, and mounting
  and unmounting of \<^verbatim>\<open>fs/super.c\<close>.
\<close>

section \<open>Helpers\<close>

text \<open>
  The common beginning of the calls: resolve the directory, refuse an empty last component
  and a directory that may not be written. \<open>k\<close> continues with the directory, the name and
  its length.
\<close>

definition with_dir :: "u32 \<Rightarrow> (nat \<Rightarrow> u32 \<Rightarrow> u32 \<Rightarrow> u32 kernel) \<Rightarrow> u32 kernel" where
  "with_dir name k =
     bind (dir_namei name) (\<lambda>r.
     case r of
       None \<Rightarrow> ret (- ENOENT)
     | Some (dir, namelen, base) \<Rightarrow>
         (if namelen = 0 then put_ret dir (- ENOENT)
          else bind (permission dir MAY_WRITE) (\<lambda>ok.
            if \<not> ok then put_ret dir (- EPERM) else k dir base namelen)))"

definition inum :: "nat \<Rightarrow> u16 kernel" where
  "inum ino = gets (\<lambda>s. i_num (inode_table s ino))"

text \<open>\<open>de->inode = nr; bh->b_dirt = 1\<close>\<close>

definition store_entry :: "entry \<Rightarrow> u16 \<Rightarrow> unit kernel" where
  "store_entry de nr = seq (modify (set_entry de nr)) (modify (mark_dirty (fst de)))"

definition set_nlinks :: "nat \<Rightarrow> u8 \<Rightarrow> kstate \<Rightarrow> kstate" where
  "set_nlinks ino v s = upd_inode ino (\<lambda>m. m\<lparr>i_nlinks := v\<rparr>) s"

section \<open>Creating\<close>

definition mknod_at :: "u32 \<Rightarrow> u32 \<Rightarrow> nat \<Rightarrow> u32 \<Rightarrow> u32 \<Rightarrow> u32 kernel" where
  "mknod_at mode dev dir base namelen =
     bind (find_entry dir base namelen) (\<lambda>(dir, de).
     case de of
       Some (bh, _) \<Rightarrow> seq (brelse (Some bh)) (put_ret dir (- EEXIST))
     | None \<Rightarrow>
         bind (idev dir) (\<lambda>d. bind (new_inode d) (\<lambda>p.
         case p of
           None \<Rightarrow> put_ret dir (- ENOSPC)
         | Some ino \<Rightarrow>
             seq (modify (upd_inode ino (\<lambda>m. m\<lparr>i_mode := ucast mode\<rparr>)))
            (seq (whenk (S_ISBLK (ucast mode) \<or> S_ISCHR (ucast mode))
                    (modify (upd_inode ino (\<lambda>m. m\<lparr>i_zone := (i_zone m)(0 := ucast dev)\<rparr>))))
            (seq (modify (\<lambda>s. upd_inode ino (\<lambda>m. m\<lparr>i_mtime := CURRENT_TIME s, i_atime := CURRENT_TIME s, i_dirt := 1\<rparr>) s))
            (bind (add_entry dir base namelen) (\<lambda>de.
             case de of
               None \<Rightarrow>
                 seq (iput_ino dir) (seq (modify (set_nlinks ino 0)) (put_ret ino (- ENOSPC)))
             | Some e \<Rightarrow>
                 bind (inum ino) (\<lambda>nr.
                 seq (store_entry e nr)
                (seq (iput_ino dir)
                (seq (iput_ino ino)
                (seq (brelse (Some (fst e))) (ret 0))))))))))))"

definition sys_mknod :: "u32 \<Rightarrow> u32 \<Rightarrow> u32 \<Rightarrow> u32 kernel" where
  "sys_mknod filename mode dev =
     bind (gets suser) (\<lambda>su.
     if \<not> su then ret (- EPERM) else with_dir filename (mknod_at mode dev))"

text \<open>The two entries of a new directory, as \<open>strcpy\<close> leaves them.\<close>

definition dot_entries :: "u16 \<Rightarrow> u16 \<Rightarrow> block \<Rightarrow> block" where
  "dot_entries self parent d =
     (set_de_name 1 2 0 (set_de_name 1 1 DOT (set_de_name 1 0 DOT (set_de_inode 1 parent
      (set_de_name 0 1 0 (set_de_name 0 0 DOT (set_de_inode 0 self d)))))))"

definition mkdir_fill :: "u32 \<Rightarrow> nat \<Rightarrow> u32 \<Rightarrow> u32 \<Rightarrow> nat \<Rightarrow> nat \<Rightarrow> u32 kernel" where
  "mkdir_fill mode dir base namelen ino block =
     seq (modify (\<lambda>s. upd_buffer block (\<lambda>b. b\<lparr>b_data :=
            dot_entries (i_num (inode_table s ino)) (i_num (inode_table s dir)) (b_data b)\<rparr>) s))
    (seq (modify (set_nlinks ino 2))
    (seq (modify (mark_dirty block))
    (seq (brelse (Some block))
    (seq (modify (\<lambda>s. upd_inode ino (\<lambda>m. m\<lparr>i_mode := ucast (I_DIRECTORY OR
            (mode AND 0x1ff AND NOT (ucast (t_umask (cur s))))), i_dirt := 1\<rparr>) s))
    (bind (add_entry dir base namelen) (\<lambda>de.
     case de of
       None \<Rightarrow>
         seq (iput_ino dir)
        (bind (get_inode ino) (\<lambda>m.
         seq (free_block (ucast (i_dev m)) (ucast (i_zone m 0)))
        (seq (modify (set_nlinks ino 0))
             (put_ret ino (- ENOSPC)))))
     | Some e \<Rightarrow>
         bind (inum ino) (\<lambda>nr.
         seq (store_entry e nr)
        (seq (modify (upd_inode dir (\<lambda>m. m\<lparr>i_nlinks := i_nlinks m + 1, i_dirt := 1\<rparr>)))
        (seq (iput_ino dir)
        (seq (iput_ino ino)
        (seq (brelse (Some (fst e))) (ret 0))))))))))))"

definition mkdir_at :: "u32 \<Rightarrow> nat \<Rightarrow> u32 \<Rightarrow> u32 \<Rightarrow> u32 kernel" where
  "mkdir_at mode dir base namelen =
     bind (find_entry dir base namelen) (\<lambda>(dir, de).
     case de of
       Some (bh, _) \<Rightarrow> seq (brelse (Some bh)) (put_ret dir (- EEXIST))
     | None \<Rightarrow>
         bind (idev dir) (\<lambda>d. bind (new_inode d) (\<lambda>p.
         case p of
           None \<Rightarrow> put_ret dir (- ENOSPC)
         | Some ino \<Rightarrow>
             seq (modify (\<lambda>s. upd_inode ino (\<lambda>m. m\<lparr>i_size := 32, i_dirt := 1,
                    i_mtime := CURRENT_TIME s, i_atime := CURRENT_TIME s\<rparr>) s))
            (bind (idev ino) (\<lambda>d. bind (new_block d) (\<lambda>z.
             seq (modify (upd_inode ino (\<lambda>m. m\<lparr>i_zone := (i_zone m)(0 := ucast z)\<rparr>)))
            (if (ucast z :: u16) = 0
             then seq (iput_ino dir) (seq (modify (dec_nlinks ino)) (put_ret ino (- ENOSPC)))
             else
               seq (modify (upd_inode ino (\<lambda>m. m\<lparr>i_dirt := 1\<rparr>)))
              (bind (get_inode ino) (\<lambda>m.
               bind (bread (ucast (i_dev m)) (ucast (i_zone m 0))) (\<lambda>b.
               case b of
                 None \<Rightarrow>
                   seq (iput_ino dir)
                  (bind (get_inode ino) (\<lambda>m.
                   seq (free_block (ucast (i_dev m)) (ucast (i_zone m 0)))
                  (seq (modify (dec_nlinks ino))
                       (put_ret ino (- ERROR)))))
               | Some block \<Rightarrow> mkdir_fill mode dir base namelen ino block))))))))))"

definition sys_mkdir :: "u32 \<Rightarrow> u32 \<Rightarrow> u32 kernel" where
  "sys_mkdir pathname mode =
     bind (gets suser) (\<lambda>su.
     if \<not> su then ret (- EPERM) else with_dir pathname (mkdir_at mode))"

section \<open>Removing\<close>

text \<open>
  The loop of \<open>empty_dir\<close>, with the buffer in use, the slot and the entry number. When a
  block is missing the released buffer stays in use, as in the source.
\<close>

definition empty_dir_step :: "nat \<Rightarrow> u32 \<Rightarrow> nat \<times> nat \<times> u32 \<Rightarrow> (nat \<times> nat \<times> u32 + bool) kernel" where
  "empty_dir_step ino len = (\<lambda>(bh, k, nr).
     let check = (\<lambda>b k. bind (gets (entry_at (b, k))) (\<lambda>e.
           if de_inode e \<noteq> 0 then seq (brelse (Some b)) (ret (Inr False))
           else ret (Inl (b, k + 1, nr + 1)))) in
     if \<not> nr <s len then seq (brelse (Some bh)) (ret (Inr True))
     else if k < DIR_ENTRIES_PER_BLOCK then check bh k
     else
       seq (brelse (Some bh))
      (bind (bmap ino (nr div 64)) (\<lambda>block.
       if block = 0 then ret (Inl (bh, k, nr + 64))
       else bind (idev ino) (\<lambda>d. bind (bread d block) (\<lambda>b.
         case b of None \<Rightarrow> ret (Inr False) | Some b \<Rightarrow> check b 0)))))"

definition is_name :: "string \<Rightarrow> dir_entry \<Rightarrow> bool" where
  "is_name str e = ((\<forall>i<length str. de_name e i = of_char (str ! i)) \<and> de_name e (length str) = 0)"

definition empty_dir :: "nat \<Rightarrow> bool kernel" where
  "empty_dir ino =
     bind (get_inode ino) (\<lambda>m.
     let len = i_size m div 16 in
     if len <s 2 \<or> i_zone m 0 = 0 then ret False
     else bind (bread (ucast (i_dev m)) (ucast (i_zone m 0))) (\<lambda>b.
       case b of
         None \<Rightarrow> ret False
       | Some bh \<Rightarrow>
           bind (gets (\<lambda>s. (entry_at (bh, 0) s, entry_at (bh, 1) s))) (\<lambda>(e0, e1).
           bind (inum ino) (\<lambda>nr.
           if de_inode e0 \<noteq> nr \<or> de_inode e1 = 0 \<or> \<not> is_name ''.'' e0 \<or> \<not> is_name ''..'' e1 then ret False
           else loop (empty_dir_step ino len) (bh, 2, 2)))))"

text \<open>\<open>iput(a); iput(b); brelse(bh); return e\<close>\<close>

definition fail_two :: "nat \<Rightarrow> nat \<Rightarrow> nat \<Rightarrow> u32 \<Rightarrow> u32 kernel" where
  "fail_two a b bh e = seq (iput_ino a) (seq (iput_ino b) (seq (brelse (Some bh)) (ret e)))"

definition rmdir_do :: "nat \<Rightarrow> nat \<Rightarrow> entry \<Rightarrow> u32 kernel" where
  "rmdir_do dir ino e =
     seq (store_entry e 0)
    (seq (brelse (Some (fst e)))
    (seq (modify (upd_inode ino (\<lambda>m. m\<lparr>i_nlinks := 0, i_dirt := 1\<rparr>)))
    (seq (modify (\<lambda>s. upd_inode dir (\<lambda>m. m\<lparr>i_nlinks := i_nlinks m - 1, i_mtime := CURRENT_TIME s,
            i_ctime := CURRENT_TIME s, i_dirt := 1\<rparr>) s))
    (seq (iput_ino dir)
         (put_ret ino 0)))))"

definition rmdir_at :: "nat \<Rightarrow> u32 \<Rightarrow> u32 \<Rightarrow> u32 kernel" where
  "rmdir_at dir base namelen =
     bind (find_entry dir base namelen) (\<lambda>(dir, de).
     case de of
       None \<Rightarrow> put_ret dir (- ENOENT)
     | Some e \<Rightarrow>
         bind (gets (\<lambda>s. ucast (de_inode (entry_at e s)))) (\<lambda>nr.
         bind (idev dir) (\<lambda>dev. bind (iget dev nr) (\<lambda>ino.
         bind (gets (\<lambda>s. (inode_table s dir, inode_table s ino, euid (cur s)))) (\<lambda>(d, m, eu).
         if i_mode d AND S_ISVTX \<noteq> 0 \<and> eu \<noteq> 0 \<and> i_uid m \<noteq> eu then fail_two dir ino (fst e) (- EPERM)
         else if i_dev m \<noteq> i_dev d \<or> 1 < i_count m then fail_two dir ino (fst e) (- EPERM)
         else if ino = dir then fail_two ino dir (fst e) (- EPERM)
         else if \<not> S_ISDIR (i_mode m) then fail_two ino dir (fst e) (- ENOTDIR)
         else bind (empty_dir ino) (\<lambda>is_empty.
           if \<not> is_empty then fail_two ino dir (fst e) (- ENOTEMPTY) else rmdir_do dir ino e))))))"

definition sys_rmdir :: "u32 \<Rightarrow> u32 kernel" where
  "sys_rmdir name =
     bind (gets suser) (\<lambda>su.
     if \<not> su then ret (- EPERM) else with_dir name rmdir_at)"

definition unlink_do :: "nat \<Rightarrow> nat \<Rightarrow> entry \<Rightarrow> u32 kernel" where
  "unlink_do dir ino e =
     seq (modify (upd_inode ino (\<lambda>m. if i_nlinks m = 0 then m\<lparr>i_nlinks := 1\<rparr> else m)))
    (seq (store_entry e 0)
    (seq (brelse (Some (fst e)))
    (seq (modify (\<lambda>s. upd_inode ino (\<lambda>m. m\<lparr>i_nlinks := i_nlinks m - 1, i_dirt := 1, i_ctime := CURRENT_TIME s\<rparr>) s))
    (seq (iput_ino ino)
         (put_ret dir 0)))))"

definition unlink_at :: "nat \<Rightarrow> u32 \<Rightarrow> u32 \<Rightarrow> u32 kernel" where
  "unlink_at dir base namelen =
     bind (find_entry dir base namelen) (\<lambda>(dir, de).
     case de of
       None \<Rightarrow> put_ret dir (- ENOENT)
     | Some e \<Rightarrow>
         bind (gets (\<lambda>s. ucast (de_inode (entry_at e s)))) (\<lambda>nr.
         bind (idev dir) (\<lambda>dev. bind (iget dev nr) (\<lambda>ino.
         bind (gets (\<lambda>s. (inode_table s dir, inode_table s ino, suser s, euid (cur s)))) (\<lambda>(d, m, su, eu).
         if i_mode d AND S_ISVTX \<noteq> 0 \<and> \<not> su \<and> eu \<noteq> i_uid m \<and> eu \<noteq> i_uid d
         then fail_two dir ino (fst e) (- EPERM)
         else if S_ISDIR (i_mode m) then fail_two ino dir (fst e) (- EPERM)
         else unlink_do dir ino e)))))"

definition sys_unlink :: "u32 \<Rightarrow> u32 kernel" where
  "sys_unlink name = with_dir name unlink_at"

definition link_at :: "nat \<Rightarrow> nat \<Rightarrow> u32 \<Rightarrow> u32 \<Rightarrow> u32 kernel" where
  "link_at oldinode dir base namelen =
     bind (find_entry dir base namelen) (\<lambda>(dir, de).
     case de of
       Some (bh, _) \<Rightarrow> seq (brelse (Some bh)) (seq (iput_ino dir) (put_ret oldinode (- EEXIST)))
     | None \<Rightarrow>
         bind (add_entry dir base namelen) (\<lambda>de.
         case de of
           None \<Rightarrow> seq (iput_ino dir) (put_ret oldinode (- ENOSPC))
         | Some e \<Rightarrow>
             bind (inum oldinode) (\<lambda>nr.
             seq (store_entry e nr)
            (seq (brelse (Some (fst e)))
            (seq (iput_ino dir)
            (seq (modify (\<lambda>s. upd_inode oldinode (\<lambda>m. m\<lparr>i_nlinks := i_nlinks m + 1,
                    i_ctime := CURRENT_TIME s, i_dirt := 1\<rparr>) s))
                 (put_ret oldinode 0)))))))"

definition sys_link :: "u32 \<Rightarrow> u32 \<Rightarrow> u32 kernel" where
  "sys_link oldname newname =
     bind (namei oldname) (\<lambda>p.
     case p of
       None \<Rightarrow> ret (- ENOENT)
     | Some oldinode \<Rightarrow>
         bind (get_inode oldinode) (\<lambda>m.
         if S_ISDIR (i_mode m) then put_ret oldinode (- EPERM)
         else bind (dir_namei newname) (\<lambda>r.
           case r of
             None \<Rightarrow> put_ret oldinode (- EACCES)
           | Some (dir, namelen, base) \<Rightarrow>
               (if namelen = 0 then seq (iput_ino oldinode) (put_ret dir (- EPERM))
                else bind (gets (\<lambda>s. (inode_table s dir, inode_table s oldinode))) (\<lambda>(d, m).
                  if i_dev d \<noteq> i_dev m then seq (iput_ino dir) (put_ret oldinode (- EXDEV))
                  else bind (permission dir MAY_WRITE) (\<lambda>ok.
                    if \<not> ok then seq (iput_ino dir) (put_ret oldinode (- EACCES))
                    else link_at oldinode dir base namelen))))))"

section \<open>Mounting\<close>

definition sys_umount :: "u32 \<Rightarrow> u32 kernel" where
  "sys_umount dev_name =
     bind (namei dev_name) (\<lambda>p.
     case p of
       None \<Rightarrow> ret (- ENOENT)
     | Some ino \<Rightarrow>
         bind (get_inode ino) (\<lambda>m.
         let dev = ucast (i_zone m 0) in
         if \<not> S_ISBLK (i_mode m) then put_ret ino (- ENOTBLK)
         else
           seq (iput_ino ino)
          (bind (gets ROOT_DEV) (\<lambda>r.
           if dev = r then ret (- EBUSY)
           else bind (get_super dev) (\<lambda>q.
             case q of
               None \<Rightarrow> ret (- ENOENT)
             | Some sb \<Rightarrow>
                 bind (gets (\<lambda>s. s_imount (super_blocks s sb))) (\<lambda>im.
                 case im of
                   None \<Rightarrow> ret (- ENOENT)
                 | Some mi \<Rightarrow>
                     bind (gets (\<lambda>s. \<exists>i<NR_INODE. ucast (i_dev (inode_table s i)) = dev \<and> i_count (inode_table s i) \<noteq> 0)) (\<lambda>busy.
                     if busy then ret (- EBUSY)
                     else
                       seq (modify (upd_inode mi (\<lambda>m. m\<lparr>i_mount := 0\<rparr>)))
                      (seq (iput_ino mi)
                      (seq (modify (upd_super sb (\<lambda>p. p\<lparr>s_imount := None\<rparr>)))
                      (bind (gets (\<lambda>s. s_isup (super_blocks s sb))) (\<lambda>up.
                       seq (iput up)
                      (seq (modify (upd_super sb (\<lambda>p. p\<lparr>s_isup := None\<rparr>)))
                      (seq (put_super dev)
                           (bind (sync_dev dev) (\<lambda>_. ret 0)))))))))))))))"

definition sys_mount :: "u32 \<Rightarrow> u32 \<Rightarrow> u32 \<Rightarrow> u32 kernel" where
  "sys_mount dev_name dir_name rw_flag =
     bind (namei dev_name) (\<lambda>p.
     case p of
       None \<Rightarrow> ret (- ENOENT)
     | Some dev_i \<Rightarrow>
         bind (get_inode dev_i) (\<lambda>m.
         let dev = ucast (i_zone m 0) in
         if \<not> S_ISBLK (i_mode m) then put_ret dev_i (- EPERM)
         else
           seq (iput_ino dev_i)
          (bind (namei dir_name) (\<lambda>q.
           case q of
             None \<Rightarrow> ret (- ENOENT)
           | Some dir_i \<Rightarrow>
               bind (get_inode dir_i) (\<lambda>m.
               if i_count m \<noteq> 1 \<or> i_num m = ROOT_INO then put_ret dir_i (- EBUSY)
               else if \<not> S_ISDIR (i_mode m) then put_ret dir_i (- EPERM)
               else bind (read_super dev) (\<lambda>r.
                 case r of
                   None \<Rightarrow> put_ret dir_i (- EBUSY)
                 | Some sb \<Rightarrow>
                     bind (gets (\<lambda>s. (s_imount (super_blocks s sb), i_mount (inode_table s dir_i)))) (\<lambda>(im, mnt).
                     if im \<noteq> None then put_ret dir_i (- EBUSY)
                     else if mnt \<noteq> 0 then put_ret dir_i (- EPERM)
                     else
                       seq (modify (upd_super sb (\<lambda>p. p\<lparr>s_imount := Some dir_i\<rparr>)))
                      (seq (modify (upd_inode dir_i (\<lambda>m. m\<lparr>i_mount := 1, i_dirt := 1\<rparr>)))
                           (ret 0)))))))))"

end
