(* ===== verification/Ctype.thy ===== *)
theory Ctype
  imports Prelude
begin

text \<open>
  Character classes, \<^verbatim>\<open>lib/ctype.c\<close> and \<^verbatim>\<open>include/ctype.h\<close>: the table of flags, indexed by
  the character plus one, and the macros over it. \<open>_ctmp\<close>, through which the case
  conversions go, is a \<open>char\<close> and so unsigned here.
\<close>

abbreviation CT_U :: u8 where "CT_U \<equiv> 0x01"
abbreviation CT_L :: u8 where "CT_L \<equiv> 0x02"
abbreviation CT_D :: u8 where "CT_D \<equiv> 0x04"
abbreviation CT_C :: u8 where "CT_C \<equiv> 0x08"
abbreviation CT_P :: u8 where "CT_P \<equiv> 0x10"
abbreviation CT_S :: u8 where "CT_S \<equiv> 0x20"
abbreviation CT_X :: u8 where "CT_X \<equiv> 0x40"
abbreviation CT_SP :: u8 where "CT_SP \<equiv> 0x80"

definition ctype_table :: "u8 list" where
  "ctype_table =
     [0x00] @
     replicate 8 CT_C @
     [CT_C, CT_C OR CT_S, CT_C OR CT_S, CT_C OR CT_S, CT_C OR CT_S, CT_C OR CT_S, CT_C, CT_C] @
     replicate 8 CT_C @ replicate 8 CT_C @
     [CT_S OR CT_SP] @ replicate 7 CT_P @
     replicate 8 CT_P @
     replicate 8 CT_D @
     [CT_D, CT_D] @ replicate 6 CT_P @
     [CT_P] @ replicate 6 (CT_U OR CT_X) @ [CT_U] @
     replicate 8 CT_U @ replicate 8 CT_U @
     replicate 3 CT_U @ replicate 5 CT_P @
     [CT_P] @ replicate 6 (CT_L OR CT_X) @ [CT_L] @
     replicate 8 CT_L @ replicate 8 CT_L @
     replicate 3 CT_L @ replicate 4 CT_P @ [CT_C] @
     replicate 128 0"

definition ctype_is :: "u8 \<Rightarrow> u8 \<Rightarrow> bool" where
  "ctype_is flags c \<longleftrightarrow> ctype_table ! (unat c + 1) AND flags \<noteq> 0"

definition isalnum :: "u8 \<Rightarrow> bool" where "isalnum = ctype_is (CT_U OR CT_L OR CT_D)"
definition isalpha :: "u8 \<Rightarrow> bool" where "isalpha = ctype_is (CT_U OR CT_L)"
definition iscntrl :: "u8 \<Rightarrow> bool" where "iscntrl = ctype_is CT_C"
definition isdigit :: "u8 \<Rightarrow> bool" where "isdigit = ctype_is CT_D"
definition isgraph :: "u8 \<Rightarrow> bool" where "isgraph = ctype_is (CT_P OR CT_U OR CT_L OR CT_D)"
definition islower :: "u8 \<Rightarrow> bool" where "islower = ctype_is CT_L"
definition isprint :: "u8 \<Rightarrow> bool" where "isprint = ctype_is (CT_P OR CT_U OR CT_L OR CT_D OR CT_SP)"
definition ispunct :: "u8 \<Rightarrow> bool" where "ispunct = ctype_is CT_P"
definition isspace :: "u8 \<Rightarrow> bool" where "isspace = ctype_is CT_S"
definition isupper :: "u8 \<Rightarrow> bool" where "isupper = ctype_is CT_U"
definition isxdigit :: "u8 \<Rightarrow> bool" where "isxdigit = ctype_is (CT_D OR CT_X)"

definition tolower :: "u8 \<Rightarrow> u8" where
  "tolower c = (if isupper c then c + 32 else c)"

definition toupper :: "u8 \<Rightarrow> u8" where
  "toupper c = (if islower c then c - 32 else c)"

lemma table_length: "length ctype_table = 257"
  by (simp add: ctype_table_def)

text \<open>The table as a case distinction on the character code.\<close>

definition ctype_at :: "nat \<Rightarrow> u8" where
  "ctype_at n =
     (if n < 9 then CT_C else if n < 14 then CT_C OR CT_S else if n < 32 then CT_C
      else if n = 32 then CT_S OR CT_SP else if n < 48 then CT_P else if n < 58 then CT_D
      else if n < 65 then CT_P else if n < 71 then CT_U OR CT_X else if n < 91 then CT_U
      else if n < 97 then CT_P else if n < 103 then CT_L OR CT_X else if n < 123 then CT_L
      else if n < 127 then CT_P else if n = 127 then CT_C else 0)"

lemma table_at: "n < 256 \<Longrightarrow> ctype_table ! (n + 1) = ctype_at n"
proof -
  assume n: "n < 256"
  have "map (\<lambda>n. ctype_table ! (n + 1)) [0..<256] = map ctype_at [0..<256]"
    by code_simp
  then have "\<forall>n\<in>set [0..<256]. ctype_table ! (n + 1) = ctype_at n" by (simp only: map_eq_conv)
  with n show ?thesis by simp
qed

lemma ctype_is_at: "ctype_is flags c \<longleftrightarrow> ctype_at (unat c) AND flags \<noteq> 0"
proof -
  have "unat c < 256" using unsigned_less [where w = c and 'a = nat] by simp
  then show ?thesis by (simp only: ctype_is_def table_at)
qed

lemmas class_defs = isalnum_def isalpha_def iscntrl_def isdigit_def isgraph_def islower_def isprint_def
  ispunct_def isspace_def isupper_def isxdigit_def

lemma word_bounds:
  fixes c :: u8
  shows "numeral k \<le> c \<longleftrightarrow> unat (numeral k :: u8) \<le> unat c" "c \<le> numeral k \<longleftrightarrow> unat c \<le> unat (numeral k :: u8)"
    "c < numeral k \<longleftrightarrow> unat c < unat (numeral k :: u8)" "c = numeral k \<longleftrightarrow> unat c = unat (numeral k :: u8)"
  by (simp_all add: word_le_nat_alt word_less_nat_alt word_unat_eq_iff)

lemma class_ranges:
  fixes c :: u8
  shows "isdigit c \<longleftrightarrow> 48 \<le> c \<and> c \<le> 57" "isupper c \<longleftrightarrow> 65 \<le> c \<and> c \<le> 90"
    "islower c \<longleftrightarrow> 97 \<le> c \<and> c \<le> 122"
    "isxdigit c \<longleftrightarrow> 48 \<le> c \<and> c \<le> 57 \<or> 65 \<le> c \<and> c \<le> 70 \<or> 97 \<le> c \<and> c \<le> 102"
    "isspace c \<longleftrightarrow> 9 \<le> c \<and> c \<le> 13 \<or> c = 32" "iscntrl c \<longleftrightarrow> c < 32 \<or> c = 127"
    "isprint c \<longleftrightarrow> 32 \<le> c \<and> c < 127" "isgraph c \<longleftrightarrow> 33 \<le> c \<and> c < 127"
    "isalpha c \<longleftrightarrow> 65 \<le> c \<and> c \<le> 90 \<or> 97 \<le> c \<and> c \<le> 122"
    "isalnum c \<longleftrightarrow> 48 \<le> c \<and> c \<le> 57 \<or> 65 \<le> c \<and> c \<le> 90 \<or> 97 \<le> c \<and> c \<le> 122"
    "ispunct c \<longleftrightarrow> 33 \<le> c \<and> c < 48 \<or> 58 \<le> c \<and> c < 65 \<or> 91 \<le> c \<and> c < 97 \<or> 123 \<le> c \<and> c < 127"
  by (simp_all only: class_defs ctype_is_at ctype_at_def word_bounds; simp; linarith)+

text \<open>
  The character table classifies every one of the 256 characters as ASCII does: digits,
  upper and lower case letters, hexadecimal digits, white space, control and printable
  characters; every access stays inside the table, and the case conversions exchange the
  two cases of a letter and leave all other characters alone.
\<close>

theorem ctype_ascii:
  fixes c :: u8
  shows "unat c + 1 < length ctype_table \<and>
   (isdigit c \<longleftrightarrow> 48 \<le> c \<and> c \<le> 57) \<and> (isupper c \<longleftrightarrow> 65 \<le> c \<and> c \<le> 90) \<and>
   (islower c \<longleftrightarrow> 97 \<le> c \<and> c \<le> 122) \<and> (isalpha c \<longleftrightarrow> isupper c \<or> islower c) \<and>
   (isalnum c \<longleftrightarrow> isalpha c \<or> isdigit c) \<and>
   (isxdigit c \<longleftrightarrow> isdigit c \<or> 65 \<le> c \<and> c \<le> 70 \<or> 97 \<le> c \<and> c \<le> 102) \<and>
   (isspace c \<longleftrightarrow> 9 \<le> c \<and> c \<le> 13 \<or> c = 32) \<and> (iscntrl c \<longleftrightarrow> c < 32 \<or> c = 127) \<and>
   (isprint c \<longleftrightarrow> 32 \<le> c \<and> c < 127) \<and> (isgraph c \<longleftrightarrow> isprint c \<and> c \<noteq> 32) \<and>
   (ispunct c \<longleftrightarrow> isgraph c \<and> \<not> isalnum c) \<and>
   tolower c = (if 65 \<le> c \<and> c \<le> 90 then c + 32 else c) \<and>
   toupper c = (if 97 \<le> c \<and> c \<le> 122 then c - 32 else c)"
proof -
  have "unat c < 256" using unsigned_less [where w = c and 'a = nat] by simp
  then have "unat c + 1 < length ctype_table" by (simp add: table_length)
  moreover have "isgraph c \<longleftrightarrow> isprint c \<and> c \<noteq> 32" "ispunct c \<longleftrightarrow> isgraph c \<and> \<not> isalnum c"
    by (simp_all only: class_ranges word_bounds; simp; linarith)+
  ultimately show ?thesis
    by (simp add: class_ranges tolower_def toupper_def disj_commute)
qed

end
