(* ===== verification/Tty.thy ===== *)
theory Tty
  imports Blk Memory Blockdata Ctype
begin

text \<open>
  Terminals: the ring queues of \<^verbatim>\<open>include/linux/tty.h\<close>, the line discipline and the read and
  write calls of \<^verbatim>\<open>kernel/chr_drv/tty_io.c\<close>, the polled UART console of
  \<^verbatim>\<open>kernel/chr_drv/console.c\<close> and \<^verbatim>\<open>kernel/chr_drv/tty_ioctl.c\<close>. Bytes that arrive at the UART
  are the list \<open>uart_in\<close>, to which the outside world adds while a task sleeps.
\<close>

section \<open>Queues\<close>

abbreviation TTY_BUF_SIZE :: nat where "TTY_BUF_SIZE \<equiv> 1024"

definition INC :: "u32 \<Rightarrow> u32" where "INC a = (a + 1) AND 1023"
definition DEC :: "u32 \<Rightarrow> u32" where "DEC a = (a - 1) AND 1023"
definition EMPTY :: "tty_queue \<Rightarrow> bool" where "EMPTY q \<longleftrightarrow> q_head q = q_tail q"
definition LEFT :: "tty_queue \<Rightarrow> u32" where "LEFT q = (q_tail q - q_head q - 1) AND 1023"
definition LAST :: "tty_queue \<Rightarrow> u8" where "LAST q = q_buf q (unat (1023 AND (q_head q - 1)))"
definition FULL :: "tty_queue \<Rightarrow> bool" where "FULL q \<longleftrightarrow> LEFT q = 0"
definition CHARS :: "tty_queue \<Rightarrow> u32" where "CHARS q = (q_head q - q_tail q) AND 1023"

definition GETCH :: "tty_queue \<Rightarrow> u8 \<times> tty_queue" where
  "GETCH q = (q_buf q (unat (q_tail q)), q\<lparr>q_tail := INC (q_tail q)\<rparr>)"

definition PUTCH :: "u8 \<Rightarrow> tty_queue \<Rightarrow> tty_queue" where
  "PUTCH c q = q\<lparr>q_buf := (q_buf q)(unat (q_head q) := c), q_head := INC (q_head q)\<rparr>"

section \<open>Settings\<close>

definition c_iflag :: "tty_struct \<Rightarrow> u32" where "c_iflag t = get32 (termios t) 0"
definition c_oflag :: "tty_struct \<Rightarrow> u32" where "c_oflag t = get32 (termios t) 4"
definition c_cflag :: "tty_struct \<Rightarrow> u32" where "c_cflag t = get32 (termios t) 8"
definition c_lflag :: "tty_struct \<Rightarrow> u32" where "c_lflag t = get32 (termios t) 12"
definition c_cc :: "tty_struct \<Rightarrow> nat \<Rightarrow> u8" where "c_cc t i = termios t (17 + i)"

abbreviation ISIG :: u32 where "ISIG \<equiv> 1"
abbreviation ICANON :: u32 where "ICANON \<equiv> 2"
abbreviation ECHO :: u32 where "ECHO \<equiv> 8"
abbreviation ECHOE :: u32 where "ECHOE \<equiv> 16"
abbreviation ECHOCTL :: u32 where "ECHOCTL \<equiv> 0x200"
abbreviation INLCR :: u32 where "INLCR \<equiv> 0x40"
abbreviation IGNCR :: u32 where "IGNCR \<equiv> 0x80"
abbreviation ICRNL :: u32 where "ICRNL \<equiv> 0x100"
abbreviation IUCLC :: u32 where "IUCLC \<equiv> 0x200"
abbreviation OPOST :: u32 where "OPOST \<equiv> 1"
abbreviation OLCUC :: u32 where "OLCUC \<equiv> 2"
abbreviation ONLCR :: u32 where "ONLCR \<equiv> 4"
abbreviation OCRNL :: u32 where "OCRNL \<equiv> 8"
abbreviation ONLRET :: u32 where "ONLRET \<equiv> 32"

definition L_FLAG :: "tty_struct \<Rightarrow> u32 \<Rightarrow> bool" where "L_FLAG t f \<longleftrightarrow> c_lflag t AND f \<noteq> 0"
definition I_FLAG :: "tty_struct \<Rightarrow> u32 \<Rightarrow> bool" where "I_FLAG t f \<longleftrightarrow> c_iflag t AND f \<noteq> 0"
definition O_FLAG :: "tty_struct \<Rightarrow> u32 \<Rightarrow> bool" where "O_FLAG t f \<longleftrightarrow> c_oflag t AND f \<noteq> 0"

abbreviation VINTR :: nat where "VINTR \<equiv> 0"
abbreviation VQUIT :: nat where "VQUIT \<equiv> 1"
abbreviation VERASE :: nat where "VERASE \<equiv> 2"
abbreviation VKILL :: nat where "VKILL \<equiv> 3"
abbreviation VEOF :: nat where "VEOF \<equiv> 4"
abbreviation VTIME :: nat where "VTIME \<equiv> 5"
abbreviation VMIN :: nat where "VMIN \<equiv> 6"
abbreviation VSTART :: nat where "VSTART \<equiv> 8"
abbreviation VSTOP :: nat where "VSTOP \<equiv> 9"

text \<open>\<open>c == X_CHAR(tty)\<close> for the \<open>signed char c\<close> of \<open>copy_to_cooked\<close>.\<close>

definition is_cc :: "tty_struct \<Rightarrow> nat \<Rightarrow> u8 \<Rightarrow> bool" where
  "is_cc t i c \<longleftrightarrow> sint c = uint (c_cc t i)"

definition is_ctl :: "u8 \<Rightarrow> bool" where
  "is_ctl c \<longleftrightarrow> sint c < 32"

section \<open>The console\<close>

definition outb :: "u8 \<Rightarrow> u32 \<Rightarrow> kstate \<Rightarrow> kstate" where
  "outb v port s = s\<lparr>io_log := io_log s @ [(port, v)]\<rparr>"

abbreviation UART_THR :: u32 where "UART_THR \<equiv> 0x10000000"
abbreviation UART_FCR :: u32 where "UART_FCR \<equiv> 0x10000002"
abbreviation UART_LCR :: u32 where "UART_LCR \<equiv> 0x10000003"

definition uart_init :: "kstate \<Rightarrow> kstate" where
  "uart_init s = outb 1 UART_FCR (outb 3 UART_LCR s)"

definition con_init :: "kstate \<Rightarrow> kstate" where
  "con_init = uart_init"

definition tty_init :: "kstate \<Rightarrow> kstate" where
  "tty_init = con_init"

text \<open>The wait for an empty transmitter is not modelled.\<close>

definition uart_putc :: "u8 \<Rightarrow> kstate \<Rightarrow> kstate" where
  "uart_putc c s = outb c UART_THR s"

definition uart_getc :: "kstate \<Rightarrow> u8 option \<times> kstate" where
  "uart_getc s = (case uart_in s of [] \<Rightarrow> (None, s) | c # cs \<Rightarrow> (Some c, s\<lparr>uart_in := cs\<rparr>))"

definition con_write_step :: "nat \<Rightarrow> unit \<Rightarrow> (unit + unit) kernel" where
  "con_write_step t _ =
     bind (gets (\<lambda>s. write_q (tty_table s t))) (\<lambda>q.
     if EMPTY q then ret (Inr ())
     else case GETCH q of (c, q') \<Rightarrow>
       seq (modify (upd_tty t (\<lambda>y. y\<lparr>write_q := q'\<rparr>)))
      (seq (modify (uart_putc c)) (ret (Inl ()))))"

definition con_write :: "nat \<Rightarrow> unit kernel" where
  "con_write t = seq (loop (con_write_step t) ()) (wake_up (Tty_write t))"

section \<open>The line discipline\<close>

definition signal_group :: "u32 \<Rightarrow> u32 \<Rightarrow> kstate \<Rightarrow> kstate" where
  "signal_group grp bits s = s\<lparr>tasks := (\<lambda>i.
     if i < NR_TASKS \<and> task_used s i \<and> pgrp (tasks s i) = grp
     then (tasks s i)\<lparr>t_signal := t_signal (tasks s i) OR bits\<rparr> else tasks s i)\<rparr>"

definition tty_intr :: "nat \<Rightarrow> u32 \<Rightarrow> kstate \<Rightarrow> kstate" where
  "tty_intr t bits s =
     (let grp = tty_pgrp (tty_table s t) in if grp \<le>s 0 then s else signal_group grp bits s)"

definition put_write :: "nat \<Rightarrow> u8 list \<Rightarrow> kstate \<Rightarrow> kstate" where
  "put_write t cs s = upd_tty t (\<lambda>y. y\<lparr>write_q := fold PUTCH cs (write_q y)\<rparr>) s"

definition drop_last :: "nat \<Rightarrow> kstate \<Rightarrow> kstate" where
  "drop_last t s = upd_tty t (\<lambda>y. y\<lparr>secondary := (secondary y)\<lparr>q_head := DEC (q_head (secondary y))\<rparr>\<rparr>) s"

text \<open>Nothing left to erase: the queue is empty or its last character ends a line.\<close>

definition line_start :: "tty_struct \<Rightarrow> bool" where
  "line_start y \<longleftrightarrow> EMPTY (secondary y) \<or> LAST (secondary y) = 10 \<or> is_cc y VEOF (LAST (secondary y))"

definition kill_step :: "nat \<Rightarrow> unit \<Rightarrow> (unit + unit) kernel" where
  "kill_step t _ =
     bind (gets (\<lambda>s. tty_table s t)) (\<lambda>y.
     if line_start y then ret (Inr ())
     else
       seq (whenk (L_FLAG y ECHO)
              (seq (modify (put_write t ((if is_ctl (LAST (secondary y)) then [127] else []) @ [127])))
                   (con_write t)))
      (seq (modify (drop_last t)) (ret (Inl ()))))"

definition erase_echo :: "tty_struct \<Rightarrow> u8 \<Rightarrow> u8 list" where
  "erase_echo y c =
     (if L_FLAG y ECHOE then [8, 32, 8] @ (if is_ctl c then [8, 32, 8] else [])
      else (if is_ctl c then [127] else []) @ [127])"

definition erase_char :: "nat \<Rightarrow> unit kernel" where
  "erase_char t =
     bind (gets (\<lambda>s. tty_table s t)) (\<lambda>y.
     if line_start y then skip
     else
       seq (whenk (L_FLAG y ECHO)
              (seq (modify (put_write t (erase_echo y (LAST (secondary y))))) (con_write t)))
           (modify (drop_last t)))"

definition echo :: "tty_struct \<Rightarrow> u8 \<Rightarrow> u8 list" where
  "echo y c =
     (if c = 10 then [10, 13]
      else if is_ctl c then (if L_FLAG y ECHOCTL then [94, c + 64] else [])
      else [c])"

definition store_char :: "nat \<Rightarrow> u8 \<Rightarrow> unit kernel" where
  "store_char t c =
     bind (gets (\<lambda>s. tty_table s t)) (\<lambda>y.
     seq (modify (upd_tty t (\<lambda>y. if c = 10 \<or> is_cc y VEOF c
            then y\<lparr>secondary := (secondary y)\<lparr>q_data := q_data (secondary y) + 1\<rparr>\<rparr> else y)))
    (seq (whenk (L_FLAG y ECHO) (seq (modify (put_write t (echo y c))) (con_write t)))
         (modify (upd_tty t (\<lambda>y. y\<lparr>secondary := PUTCH c (secondary y)\<rparr>)))))"

text \<open>Translation of an input character; \<open>None\<close> when it is dropped.\<close>

definition translate_char :: "tty_struct \<Rightarrow> u8 \<Rightarrow> u8 option" where
  "translate_char y c =
     (let c' = (if c = 13 then (if I_FLAG y ICRNL then Some 10 else if I_FLAG y IGNCR then None else Some c)
                else if c = 10 \<and> I_FLAG y INLCR then Some 13 else Some c)
      in map_option (\<lambda>c. if I_FLAG y IUCLC then tolower c else c) c')"

definition cook_char :: "nat \<Rightarrow> u8 \<Rightarrow> unit kernel" where
  "cook_char t c =
     bind (gets (\<lambda>s. tty_table s t)) (\<lambda>y.
     if L_FLAG y ICANON \<and> is_cc y VKILL c then loop (kill_step t) ()
     else if L_FLAG y ICANON \<and> (is_cc y VERASE c \<or> c = 8) then erase_char t
     else if L_FLAG y ICANON \<and> is_cc y VSTOP c then modify (upd_tty t (\<lambda>y. y\<lparr>tty_stopped := 1\<rparr>))
     else if L_FLAG y ICANON \<and> is_cc y VSTART c then modify (upd_tty t (\<lambda>y. y\<lparr>tty_stopped := 0\<rparr>))
     else if L_FLAG y ISIG \<and> is_cc y VINTR c then modify (tty_intr t (push_bit (SIGINT - 1) 1))
     else if L_FLAG y ISIG \<and> is_cc y VQUIT c then modify (tty_intr t (push_bit (SIGQUIT - 1) 1))
     else store_char t c)"

definition cook_step :: "nat \<Rightarrow> unit \<Rightarrow> (unit + unit) kernel" where
  "cook_step t _ =
     bind (gets (\<lambda>s. tty_table s t)) (\<lambda>y.
     if EMPTY (read_q y) \<or> FULL (secondary y) then ret (Inr ())
     else case GETCH (read_q y) of (c, q) \<Rightarrow>
       seq (modify (upd_tty t (\<lambda>y. y\<lparr>read_q := q\<rparr>)))
      (seq (case translate_char y c of None \<Rightarrow> skip | Some c \<Rightarrow> cook_char t c)
           (ret (Inl ()))))"

definition copy_to_cooked :: "nat \<Rightarrow> unit kernel" where
  "copy_to_cooked t = seq (loop (cook_step t) ()) (wake_up (Tty_secondary t))"

definition do_tty_interrupt :: "nat \<Rightarrow> unit kernel" where
  "do_tty_interrupt t = copy_to_cooked t"

definition poll_step :: "unit \<Rightarrow> (unit + unit) kernel" where
  "poll_step _ =
     bind (gets uart_getc) (\<lambda>(c, s').
     case c of
       None \<Rightarrow> ret (Inr ())
     | Some c \<Rightarrow>
         seq (modify (\<lambda>s. s\<lparr>uart_in := uart_in s'\<rparr>))
        (seq (modify (upd_tty 0 (\<lambda>y. if FULL (read_q y) then y else y\<lparr>read_q := PUTCH c (read_q y)\<rparr>)))
             (ret (Inl ()))))"

definition con_poll :: "unit kernel" where
  "con_poll =
     seq (loop poll_step ())
    (bind (gets (\<lambda>s. read_q (tty_table s 0))) (\<lambda>q.
     whenk (\<not> EMPTY q) (copy_to_cooked 0)))"

section \<open>Reading and writing\<close>

text \<open>A polled wait: \<open>while (!current->signal && cond) { con_poll(); schedule(); }\<close>\<close>

definition poll_while :: "(kstate \<Rightarrow> bool) \<Rightarrow> unit kernel" where
  "poll_while waiting =
     loop (\<lambda>_. bind (gets (\<lambda>s. t_signal (cur s) = 0 \<and> waiting s)) (\<lambda>w.
       if w then seq con_poll (seq schedule (ret (Inl ()))) else ret (Inr ()))) ()"

definition wait_for_keypress :: "unit kernel" where
  "wait_for_keypress = poll_while (\<lambda>s. EMPTY (secondary (tty_table s 0)))"

definition sleep_if_full :: "nat \<Rightarrow> unit kernel" where
  "sleep_if_full t =
     bind (gets (\<lambda>s. FULL (write_q (tty_table s t)))) (\<lambda>f.
     if \<not> f then skip else poll_while (\<lambda>s. LEFT (write_q (tty_table s t)) < 128))"

abbreviation ALRMMASK :: u32 where "ALRMMASK \<equiv> 0x2000"

definition line_ready :: "tty_struct \<Rightarrow> bool" where
  "line_ready y \<longleftrightarrow> \<not> EMPTY (secondary y) \<and> (\<not> L_FLAG y ICANON \<or> q_data (secondary y) \<noteq> 0)"

definition wait_line :: "nat \<Rightarrow> unit kernel" where
  "wait_line t =
     loop (\<lambda>_. bind (gets (\<lambda>s. t_signal (cur s))) (\<lambda>sg.
       if sg \<noteq> 0 then ret (Inr ())
       else seq con_poll
        (bind (gets (\<lambda>s. line_ready (tty_table s t))) (\<lambda>r.
         if r then ret (Inr ()) else seq schedule (ret (Inl ())))))) ()"

text \<open>
  The inner loop of \<open>tty_read\<close>: \<open>n\<close> bytes read so far, \<open>nr\<close> still wanted. It leaves with
  \<open>Inl\<close> when the call returns at an end-of-file character, with \<open>Inr\<close> otherwise.
\<close>

definition read_step :: "nat \<Rightarrow> u32 \<Rightarrow> u32 \<times> u32 \<Rightarrow> (u32 \<times> u32 + (u32 + u32 \<times> u32)) kernel" where
  "read_step t buf = (\<lambda>(n, nr).
     bind (gets (\<lambda>s. tty_table s t)) (\<lambda>y.
     case GETCH (secondary y) of (c, q) \<Rightarrow>
       seq (modify (upd_tty t (\<lambda>y. y\<lparr>secondary := (if c = c_cc y VEOF \<or> c = 10
              then q\<lparr>q_data := q_data q - 1\<rparr> else q)\<rparr>)))
      (if c = c_cc y VEOF \<and> L_FLAG y ICANON then ret (Inr (Inl n))
       else
         seq (put_fs_byte c (buf + n))
        (bind (gets (\<lambda>s. EMPTY (secondary (tty_table s t)))) (\<lambda>e.
         ret (if nr - 1 = 0 \<or> \<not> 0 <s nr - 1 \<or> e then Inr (Inr (n + 1, nr - 1)) else Inl (n + 1, nr - 1)))))))"

definition set_alarm :: "u32 \<Rightarrow> kstate \<Rightarrow> kstate" where
  "set_alarm v s = upd_cur (\<lambda>p. p\<lparr>t_alarm := v\<rparr>) s"

definition read_timeout :: "u32 \<Rightarrow> u32 \<Rightarrow> kstate \<Rightarrow> bool" where
  "read_timeout time oldalarm s \<longleftrightarrow> oldalarm = 0 \<or> time + jiffies s <s oldalarm"

definition tty_read_step ::
  "nat \<Rightarrow> u32 \<Rightarrow> u32 \<Rightarrow> u32 \<Rightarrow> u32 \<Rightarrow> u32 \<times> u32 \<times> bool \<Rightarrow> (u32 \<times> u32 \<times> bool + (u32 + u32)) kernel" where
  "tty_read_step t buf time minimum oldalarm = (\<lambda>(n, nr, flag).
     bind (gets (\<lambda>s. t_signal (cur s))) (\<lambda>sg.
     if \<not> 0 <s nr then ret (Inr (Inr n))
     else if flag \<and> sg AND ALRMMASK \<noteq> 0
     then seq (modify (upd_cur (\<lambda>p. p\<lparr>t_signal := t_signal p AND NOT ALRMMASK\<rparr>))) (ret (Inr (Inr n)))
     else if sg \<noteq> 0 then ret (Inr (Inr n))
     else bind (gets (\<lambda>s. tty_table s t)) (\<lambda>y.
       if EMPTY (secondary y) \<or> L_FLAG y ICANON \<and> q_data (secondary y) = 0 \<and> 20 < LEFT (secondary y)
       then seq (wait_line t) (ret (Inl (n, nr, flag)))
       else bind (loop (read_step t buf) (n, nr)) (\<lambda>r.
         case r of
           Inl n \<Rightarrow> ret (Inr (Inl n))
         | Inr (n, nr) \<Rightarrow>
             bind (gets (\<lambda>s. (L_FLAG (tty_table s t) ICANON, read_timeout time oldalarm s, jiffies s))) (\<lambda>(canon, early, now).
             let rearm = (time \<noteq> 0 \<and> \<not> canon); flag = (if rearm then early else flag) in
             seq (whenk rearm (modify (set_alarm (if early then time + now else oldalarm))))
                 (ret (if canon then (if n \<noteq> 0 then Inr (Inr n) else Inl (n, nr, flag))
                       else if minimum \<le>s n then Inr (Inr n) else Inl (n, nr, flag))))))))"

definition tty_read :: "u32 \<Rightarrow> u32 \<Rightarrow> u32 \<Rightarrow> u32 kernel" where
  "tty_read channel buf nr =
     (if 2 < channel \<or> nr <s 0 then ret (-1)
      else let t = unat channel in
        bind (gets (\<lambda>s. (t_alarm (cur s), c_cc (tty_table s t) VTIME, c_cc (tty_table s t) VMIN, jiffies s))) (\<lambda>(oldalarm, vt, vm, now).
        let time = 10 * ucast vt; minimum = ucast vm in
        bind (gets (read_timeout time oldalarm)) (\<lambda>early.
        let timed = (time \<noteq> 0 \<and> minimum = 0); flag = (timed \<and> early); minimum = (if timed then 1 else minimum);
            minimum = (if nr <s minimum then nr else minimum) in
        seq (whenk flag (modify (set_alarm (time + now))))
       (bind (loop (tty_read_step t buf time minimum oldalarm) (0, nr, flag)) (\<lambda>r.
        case r of
          Inl n \<Rightarrow> ret n
        | Inr n \<Rightarrow>
            seq (modify (set_alarm oldalarm))
           (bind (gets (\<lambda>s. t_signal (cur s))) (\<lambda>sg.
            ret (if sg \<noteq> 0 \<and> n = 0 then - EINTR else n))))))))"

text \<open>The inner loop of \<open>tty_write\<close>: \<open>n\<close> bytes written so far, \<open>nr\<close> still to write.\<close>

definition write_step :: "nat \<Rightarrow> u32 \<Rightarrow> u32 \<times> u32 \<Rightarrow> (u32 \<times> u32 + u32 \<times> u32) kernel" where
  "write_step t buf = (\<lambda>(n, nr).
     bind (gets (\<lambda>s. tty_table s t)) (\<lambda>y.
     if \<not> (0 <s nr \<and> \<not> FULL (write_q y)) then ret (Inr (n, nr))
     else bind (get_fs_byte (buf + n)) (\<lambda>c.
       bind (gets cr_flag) (\<lambda>cr.
       let c1 = (if \<not> O_FLAG y OPOST then c
                 else if c = 13 \<and> O_FLAG y OCRNL then 10
                 else if c = 10 \<and> O_FLAG y ONLRET then 13 else c) in
       if O_FLAG y OPOST \<and> c1 = 10 \<and> cr = 0 \<and> O_FLAG y ONLCR
       then seq (modify (\<lambda>s. s\<lparr>cr_flag := 1\<rparr>)) (seq (modify (put_write t [13])) (ret (Inl (n, nr))))
       else
         let c2 = (if O_FLAG y OPOST \<and> O_FLAG y OLCUC then toupper c1 else c1) in
         seq (modify (\<lambda>s. s\<lparr>cr_flag := 0\<rparr>)) (seq (modify (put_write t [c2])) (ret (Inl (n + 1, nr - 1))))))))"

definition tty_write_step :: "nat \<Rightarrow> u32 \<Rightarrow> u32 \<times> u32 \<Rightarrow> (u32 \<times> u32 + u32) kernel" where
  "tty_write_step t buf = (\<lambda>(n, nr).
     if \<not> 0 <s nr then ret (Inr n)
     else
       seq (sleep_if_full t)
      (bind (gets (\<lambda>s. t_signal (cur s))) (\<lambda>sg.
       if sg \<noteq> 0 then ret (Inr n)
       else bind (loop (write_step t buf) (n, nr)) (\<lambda>(n, nr).
         seq (con_write t)
        (seq (whenk (0 <s nr) schedule) (ret (Inl (n, nr))))))))"

definition tty_write :: "u32 \<Rightarrow> u32 \<Rightarrow> u32 \<Rightarrow> u32 kernel" where
  "tty_write channel buf nr =
     (if 2 < channel \<or> nr <s 0 then ret (-1)
      else loop (tty_write_step (unat channel) buf) (0, nr))"

end
