(* ===== verification/Tty_Ioctl.thy ===== *)
theory Tty_Ioctl
  imports Tty
begin

text \<open>
  \<^verbatim>\<open>kernel/chr_drv/tty_ioctl.c\<close>. The structure \<open>termio\<close> built on the stack by \<open>get_termio\<close> has a
  padding byte at its end that is never set: \<open>pad\<close> is whatever lies there.
\<close>

abbreviation TERMIOS_SIZE :: nat where "TERMIOS_SIZE \<equiv> 36"
abbreviation TERMIO_SIZE :: nat where "TERMIO_SIZE \<equiv> 18"
abbreviation NCC :: nat where "NCC \<equiv> 8"

definition quotient :: "u16 list" where
  "quotient = [0, 2304, 1536, 1047, 857, 768, 576, 384, 192, 96, 64, 48, 24, 12, 6, 3]"

definition change_speed :: "nat \<Rightarrow> kstate \<Rightarrow> kstate" where
  "change_speed t s =
     (let y = tty_table s t; port = ucast (q_data (read_q y)) :: u16;
          quot = quotient ! unat (c_cflag y AND 15) in
      if port = 0 then s
      else outb 3 (ucast port + 3)
          (outb (ucast (drop_bit 8 quot)) (ucast port + 1)
          (outb (ucast (quot AND 0xff)) (ucast port)
          (outb 0x80 (ucast port + 3) s))))"

definition flush_q :: "tty_queue \<Rightarrow> tty_queue" where
  "flush_q q = q\<lparr>q_head := q_tail q\<rparr>"

definition flush_read :: "nat \<Rightarrow> kstate \<Rightarrow> kstate" where
  "flush_read t s = upd_tty t (\<lambda>y. y\<lparr>read_q := flush_q (read_q y)\<rparr>) s"

definition flush_write :: "nat \<Rightarrow> kstate \<Rightarrow> kstate" where
  "flush_write t s = upd_tty t (\<lambda>y. y\<lparr>write_q := flush_q (write_q y)\<rparr>) s"

definition put_bytes :: "u32 \<Rightarrow> u8 list \<Rightarrow> unit kernel" where
  "put_bytes addr bs = for_each [0..<length bs] (\<lambda>i. put_fs_byte (bs ! i) (addr + word_of_nat i))"

primrec get_bytes :: "u32 \<Rightarrow> nat \<Rightarrow> u8 list kernel" where
  "get_bytes addr 0 = ret []"
| "get_bytes addr (Suc n) = bind (get_fs_byte addr) (\<lambda>c. bind (get_bytes (addr + 1) n) (\<lambda>cs. ret (c # cs)))"

definition get_termios :: "nat \<Rightarrow> u32 \<Rightarrow> u32 kernel" where
  "get_termios t addr =
     seq (verify_area addr (word_of_nat TERMIOS_SIZE))
    (seq (for_each [0..<TERMIOS_SIZE] (\<lambda>i.
            bind (gets (\<lambda>s. termios (tty_table s t) i)) (\<lambda>c. put_fs_byte c (addr + word_of_nat i))))
         (ret 0))"

definition set_termios :: "nat \<Rightarrow> u32 \<Rightarrow> u32 kernel" where
  "set_termios t addr =
     seq (for_each [0..<TERMIOS_SIZE] (\<lambda>i.
            bind (get_fs_byte (addr + word_of_nat i)) (\<lambda>c.
            modify (upd_tty t (\<lambda>y. y\<lparr>termios := (termios y)(i := c)\<rparr>)))))
    (seq (modify (change_speed t)) (ret 0))"

definition termio_bytes :: "u8 \<Rightarrow> tty_struct \<Rightarrow> u8 list" where
  "termio_bytes pad y =
     (let b = termios y in [b 0, b 1, b 4, b 5, b 8, b 9, b 12, b 13, b 16] @ map (\<lambda>i. b (17 + i)) [0..<NCC] @ [pad])"

definition get_termio :: "u8 \<Rightarrow> nat \<Rightarrow> u32 \<Rightarrow> u32 kernel" where
  "get_termio pad t addr =
     seq (verify_area addr (word_of_nat TERMIO_SIZE))
    (bind (gets (\<lambda>s. termio_bytes pad (tty_table s t))) (\<lambda>bs.
     seq (put_bytes addr bs) (ret 0)))"

definition apply_termio :: "u8 list \<Rightarrow> (nat \<Rightarrow> u8) \<Rightarrow> nat \<Rightarrow> u8" where
  "apply_termio bs b = (\<lambda>i.
     if i \<in> {0, 1} then bs ! i else if i \<in> {4, 5} then bs ! (i - 2) else if i \<in> {8, 9} then bs ! (i - 4)
     else if i \<in> {12, 13} then bs ! (i - 6) else if i = 16 then bs ! 8
     else if 17 \<le> i \<and> i < 17 + NCC then bs ! (i - 8) else b i)"

definition set_termio :: "nat \<Rightarrow> u32 \<Rightarrow> u32 kernel" where
  "set_termio t addr =
     bind (get_bytes addr TERMIO_SIZE) (\<lambda>bs.
     seq (modify (upd_tty t (\<lambda>y. y\<lparr>termios := apply_termio bs (termios y)\<rparr>)))
    (seq (modify (change_speed t)) (ret 0)))"

text \<open>\<open>cmd\<close> by cases, in the order of the switch; commands not named answer \<open>-EINVAL\<close>.\<close>

definition tty_ioctl_cmd :: "u8 \<Rightarrow> nat \<Rightarrow> u32 \<Rightarrow> u32 \<Rightarrow> u32 kernel" where
  "tty_ioctl_cmd pad t cmd arg =
     (if cmd = 0x5401 then get_termios t arg
      else if cmd = 0x5404 then seq (modify (flush_read t)) (set_termios t arg)
      else if cmd = 0x5403 \<or> cmd = 0x5402 then set_termios t arg
      else if cmd = 0x5405 then get_termio pad t arg
      else if cmd = 0x5408 then seq (modify (flush_read t)) (set_termio t arg)
      else if cmd = 0x5407 \<or> cmd = 0x5406 then set_termio t arg
      else if cmd = 0x5409 then ret 0
      else if cmd = 0x540B then
        (if arg = 0 then seq (modify (flush_read t)) (ret 0)
         else if arg = 1 then seq (modify (flush_write t)) (ret 0)
         else if arg = 2 then seq (modify (flush_read t)) (seq (modify (flush_write t)) (ret 0))
         else ret (- EINVAL))
      else if cmd = 0x540F then
        seq (verify_area arg 4)
       (bind (gets (\<lambda>s. tty_pgrp (tty_table s t))) (\<lambda>g. seq (put_fs_long g arg) (ret 0)))
      else if cmd = 0x5410 then
        bind (get_fs_long arg) (\<lambda>g. seq (modify (upd_tty t (\<lambda>y. y\<lparr>tty_pgrp := g\<rparr>))) (ret 0))
      else if cmd = 0x5411 then
        seq (verify_area arg 4)
       (bind (gets (\<lambda>s. CHARS (write_q (tty_table s t)))) (\<lambda>c. seq (put_fs_long c arg) (ret 0)))
      else if cmd = 0x541B then
        seq (verify_area arg 4)
       (bind (gets (\<lambda>s. CHARS (secondary (tty_table s t)))) (\<lambda>c. seq (put_fs_long c arg) (ret 0)))
      else ret (- EINVAL))"

text \<open>A minor number past the three terminals is an index out of bounds.\<close>

definition tty_ioctl :: "u8 \<Rightarrow> u32 \<Rightarrow> u32 \<Rightarrow> u32 \<Rightarrow> u32 kernel" where
  "tty_ioctl pad dev cmd arg =
     bind (gets (\<lambda>s. t_tty (cur s))) (\<lambda>ctty.
     if MAJOR dev = 5 \<and> ctty <s 0 then panic ''tty_ioctl: dev<0''
     else
       let t = (if MAJOR dev = 5 then ctty else MINOR dev) in
       if 3 \<le> unat t then fault else tty_ioctl_cmd pad (unat t) cmd arg)"

end
