(* ===== verification/Files.thy ===== *)
theory Files
  imports Dirops Tty_Ioctl
begin

text \<open>
  Files: reading and writing of regular files (\<^verbatim>\<open>fs/file_dev.c\<close>), block devices
  (\<^verbatim>\<open>fs/block_dev.c\<close>), character devices (\<^verbatim>\<open>fs/char_dev.c\<close>) and pipes (\<^verbatim>\<open>fs/pipe.c\<close>), and the
  calls of \<^verbatim>\<open>fs/read_write.c\<close> that choose among them.
\<close>

section \<open>Regular files\<close>

definition get_file :: "nat \<Rightarrow> file_struct kernel" where
  "get_file f = gets (\<lambda>s. file_table s f)"

text \<open>Copying \<open>n\<close> bytes of a buffer to user memory, and of user memory into a buffer.\<close>

definition copy_out :: "nat option \<Rightarrow> nat \<Rightarrow> u32 \<Rightarrow> nat \<Rightarrow> unit kernel" where
  "copy_out bh off buf n =
     for_each [0..<n] (\<lambda>i.
       bind (gets (\<lambda>s. case bh of None \<Rightarrow> 0 | Some b \<Rightarrow> b_data (buffers s b) (off + i))) (\<lambda>c.
       put_fs_byte c (buf + word_of_nat i)))"

definition copy_in :: "nat \<Rightarrow> nat \<Rightarrow> u32 \<Rightarrow> nat \<Rightarrow> unit kernel" where
  "copy_in bh off buf n =
     for_each [0..<n] (\<lambda>i.
       bind (get_fs_byte (buf + word_of_nat i)) (\<lambda>c.
       modify (upd_buffer bh (\<lambda>b. b\<lparr>b_data := (b_data b)(off + i := c)\<rparr>))))"

text \<open>
  One block of \<open>file_read\<close>: \<open>left\<close> bytes still wanted, \<open>buf\<close> where they go. \<open>None\<close> ends the
  loop at an unreadable block.
\<close>

definition file_read_step :: "nat \<Rightarrow> nat \<Rightarrow> u32 \<times> u32 \<Rightarrow> (u32 \<times> u32 + u32) kernel" where
  "file_read_step ino f = (\<lambda>(left, buf).
     if left = 0 then ret (Inr left)
     else bind (get_file f) (\<lambda>p.
       bind (bmap ino (c_div (f_pos p) 1024)) (\<lambda>nr.
       bind (if nr = 0 then ret (Some None)
             else bind (idev ino) (\<lambda>d. bind (bread d nr) (\<lambda>b.
               ret (case b of None \<Rightarrow> None | Some _ \<Rightarrow> Some b)))) (\<lambda>r.
       case r of
         None \<Rightarrow> ret (Inr left)
       | Some bh \<Rightarrow>
           bind (gets (\<lambda>s. c_mod (f_pos (file_table s f)) 1024)) (\<lambda>off.
           let chars = (if 1024 - off <s left then 1024 - off else left) in
           seq (modify (upd_file f (\<lambda>p. p\<lparr>f_pos := f_pos p + chars\<rparr>)))
          (seq (copy_out bh (unat off) buf (nat (sint chars)))
          (seq (brelse bh)
               (ret (Inl (left - chars, buf + chars))))))))))"

definition file_read :: "nat \<Rightarrow> nat \<Rightarrow> u32 \<Rightarrow> u32 \<Rightarrow> u32 kernel" where
  "file_read ino f buf cnt =
     (if cnt \<le>s 0 then ret 0
      else bind (loop (file_read_step ino f) (cnt, buf)) (\<lambda>left.
        seq (modify (\<lambda>s. upd_inode ino (\<lambda>m. m\<lparr>i_atime := CURRENT_TIME s\<rparr>) s))
            (ret (if cnt - left \<noteq> 0 then cnt - left else - ERROR))))"

text \<open>One block of \<open>file_write\<close>: \<open>i\<close> bytes written so far, \<open>pos\<close> where the next one goes.\<close>

definition file_write_step :: "nat \<Rightarrow> u32 \<Rightarrow> u32 \<Rightarrow> u32 \<times> u32 \<Rightarrow> (u32 \<times> u32 + u32 \<times> u32) kernel" where
  "file_write_step ino buf cnt = (\<lambda>(i, pos).
     if \<not> i <s cnt then ret (Inr (i, pos))
     else bind (create_block ino (c_div pos 1024)) (\<lambda>block.
       if block = 0 then ret (Inr (i, pos))
       else bind (idev ino) (\<lambda>d. bind (bread d block) (\<lambda>b.
         case b of
           None \<Rightarrow> ret (Inr (i, pos))
         | Some bh \<Rightarrow>
             seq (modify (mark_dirty bh))
            (let off = c_mod pos 1024; c = (if cnt - i <s 1024 - off then cnt - i else 1024 - off); pos' = pos + c in
             seq (modify (upd_inode ino (\<lambda>m. if i_size m < pos' then m\<lparr>i_size := pos', i_dirt := 1\<rparr> else m)))
            (seq (copy_in bh (unat off) (buf + i) (nat (sint c)))
            (seq (brelse (Some bh))
                 (ret (Inl (i + c, pos'))))))))))"

definition file_write :: "nat \<Rightarrow> nat \<Rightarrow> u32 \<Rightarrow> u32 \<Rightarrow> u32 kernel" where
  "file_write ino f buf cnt =
     bind (gets (\<lambda>s. if f_flags (file_table s f) AND ucast O_APPEND \<noteq> 0
             then i_size (inode_table s ino) else f_pos (file_table s f))) (\<lambda>pos.
     bind (loop (file_write_step ino buf cnt) (0, pos)) (\<lambda>(i, pos).
     seq (modify (\<lambda>s. upd_inode ino (\<lambda>m. m\<lparr>i_mtime := CURRENT_TIME s\<rparr>) s))
    (bind (get_file f) (\<lambda>p.
     seq (whenk (f_flags p AND ucast O_APPEND = 0)
            (seq (modify (upd_file f (\<lambda>p. p\<lparr>f_pos := pos\<rparr>)))
                 (modify (\<lambda>s. upd_inode ino (\<lambda>m. m\<lparr>i_ctime := CURRENT_TIME s\<rparr>) s))))
         (ret (if i \<noteq> 0 then i else -1))))))"

section \<open>Block devices\<close>

text \<open>The loops carry the block, the offset in it, the bytes done and the bytes left.\<close>

definition advance :: "nat \<Rightarrow> u32 \<Rightarrow> unit kernel" where
  "advance f chars = modify (upd_file f (\<lambda>p. p\<lparr>f_pos := f_pos p + chars\<rparr>))"

definition block_write_step ::
  "u32 \<Rightarrow> nat \<Rightarrow> u32 \<Rightarrow> u32 \<times> u32 \<times> u32 \<times> u32 \<Rightarrow> (u32 \<times> u32 \<times> u32 \<times> u32 + u32) kernel" where
  "block_write_step dev f buf = (\<lambda>(block, off, written, cnt).
     if \<not> 0 <s cnt then ret (Inr written)
     else
       let chars = (if cnt <s 1024 - off then cnt else 1024 - off) in
       bind (if chars = 1024 then bind (getblk dev block) (\<lambda>b. ret (Some b))
             else breada dev block [block + 1, block + 2, -1]) (\<lambda>b.
       case b of
         None \<Rightarrow> ret (Inr (if written \<noteq> 0 then written else - EIO))
       | Some bh \<Rightarrow>
           seq (advance f chars)
          (seq (copy_in bh (unat off) (buf + written) (nat (sint chars)))
          (seq (modify (mark_dirty bh))
          (seq (brelse (Some bh))
               (ret (Inl (block + 1, 0, written + chars, cnt - chars))))))))"

definition block_write :: "u32 \<Rightarrow> nat \<Rightarrow> u32 \<Rightarrow> u32 \<Rightarrow> u32 kernel" where
  "block_write dev f buf cnt =
     bind (get_file f) (\<lambda>p.
     loop (block_write_step dev f buf) (signed_drop_bit 10 (f_pos p), f_pos p AND 1023, 0, cnt))"

definition block_read_step ::
  "u32 \<Rightarrow> nat \<Rightarrow> u32 \<Rightarrow> u32 \<times> u32 \<times> u32 \<times> u32 \<Rightarrow> (u32 \<times> u32 \<times> u32 \<times> u32 + u32) kernel" where
  "block_read_step dev f buf = (\<lambda>(block, off, read, cnt).
     if \<not> 0 <s cnt then ret (Inr read)
     else
       let chars = (if cnt <s 1024 - off then cnt else 1024 - off) in
       bind (breada dev block [block + 1, block + 2, -1]) (\<lambda>b.
       case b of
         None \<Rightarrow> ret (Inr (if read \<noteq> 0 then read else - EIO))
       | Some bh \<Rightarrow>
           seq (advance f chars)
          (seq (copy_out (Some bh) (unat off) (buf + read) (nat (sint chars)))
          (seq (brelse (Some bh))
               (ret (Inl (block + 1, 0, read + chars, cnt - chars)))))))"

definition block_read :: "u32 \<Rightarrow> nat \<Rightarrow> u32 \<Rightarrow> u32 \<Rightarrow> u32 kernel" where
  "block_read dev f buf cnt =
     bind (get_file f) (\<lambda>p.
     loop (block_read_step dev f buf) (drop_bit 10 (f_pos p), f_pos p AND 1023, 0, cnt))"

section \<open>Character devices\<close>

definition rw_ttyx :: "u32 \<Rightarrow> u32 \<Rightarrow> u32 \<Rightarrow> u32 \<Rightarrow> u32 kernel" where
  "rw_ttyx rw minor buf cnt = (if rw = READ then tty_read minor buf cnt else tty_write minor buf cnt)"

definition rw_tty :: "u32 \<Rightarrow> u32 \<Rightarrow> u32 \<Rightarrow> u32 \<Rightarrow> u32 kernel" where
  "rw_tty rw minor buf cnt =
     bind (gets (\<lambda>s. t_tty (cur s))) (\<lambda>t.
     if t <s 0 then ret (- EPERM) else rw_ttyx rw t buf cnt)"

text \<open>\<open>inb p\<close> is the byte the device register at address \<open>p\<close> answers.\<close>

definition rw_port_step ::
  "(u32 \<Rightarrow> u8) \<Rightarrow> u32 \<Rightarrow> u32 \<times> u32 \<times> u32 \<Rightarrow> (u32 \<times> u32 \<times> u32 + u32) kernel" where
  "rw_port_step inb rw = (\<lambda>(cnt, i, buf).
     if \<not> (0 <s cnt \<and> i <s 65536) then ret (Inr i)
     else seq (if rw = READ then put_fs_byte (inb i) buf
               else bind (get_fs_byte buf) (\<lambda>c. modify (outb c i)))
         (ret (Inl (cnt - 1, i + 1, buf + 1))))"

definition rw_port :: "(u32 \<Rightarrow> u8) \<Rightarrow> u32 \<Rightarrow> nat \<Rightarrow> u32 \<Rightarrow> u32 \<Rightarrow> u32 kernel" where
  "rw_port inb rw f buf cnt =
     bind (get_file f) (\<lambda>p.
     bind (loop (rw_port_step inb rw) (cnt, f_pos p, buf)) (\<lambda>i.
     bind (get_file f) (\<lambda>p.
     seq (advance f (i - f_pos p)) (ret (i - f_pos p)))))"

definition rw_memory :: "(u32 \<Rightarrow> u8) \<Rightarrow> u32 \<Rightarrow> u32 \<Rightarrow> nat \<Rightarrow> u32 \<Rightarrow> u32 \<Rightarrow> u32 kernel" where
  "rw_memory inb rw minor f buf cnt =
     (if minor = 3 then ret (if rw = READ then 0 else cnt)
      else if minor = 4 then rw_port inb rw f buf cnt
      else ret (- EIO))"

definition rw_char :: "(u32 \<Rightarrow> u8) \<Rightarrow> u32 \<Rightarrow> u32 \<Rightarrow> nat \<Rightarrow> u32 \<Rightarrow> u32 \<Rightarrow> u32 kernel" where
  "rw_char inb rw dev f buf cnt =
     (if MAJOR dev = 1 then rw_memory inb rw (MINOR dev) f buf cnt
      else if MAJOR dev = 4 then rw_ttyx rw (MINOR dev) buf cnt
      else if MAJOR dev = 5 then rw_tty rw (MINOR dev) buf cnt
      else ret (- ENODEV))"

section \<open>Pipes\<close>

definition PIPE_HEAD :: "m_inode \<Rightarrow> u16" where "PIPE_HEAD m = i_zone m 0"
definition PIPE_TAIL :: "m_inode \<Rightarrow> u16" where "PIPE_TAIL m = i_zone m 1"

definition PIPE_SIZE :: "m_inode \<Rightarrow> u32" where
  "PIPE_SIZE m = (ucast (PIPE_HEAD m) - ucast (PIPE_TAIL m)) AND 4095"

definition set_head :: "u16 \<Rightarrow> m_inode \<Rightarrow> m_inode" where
  "set_head v m = m\<lparr>i_zone := (i_zone m)(0 := v)\<rparr>"

definition set_tail :: "u16 \<Rightarrow> m_inode \<Rightarrow> m_inode" where
  "set_tail v m = m\<lparr>i_zone := (i_zone m)(1 := v)\<rparr>"

definition min3 :: "u32 \<Rightarrow> u32 \<Rightarrow> u32 \<Rightarrow> u32" where
  "min3 chars cnt size' =
     (let chars = (if cnt <s chars then cnt else chars) in if size' <s chars then size' else chars)"

text \<open>Bytes between the pipe's page and user memory.\<close>

definition pipe_out :: "nat \<Rightarrow> u32 \<Rightarrow> u32 \<Rightarrow> nat \<Rightarrow> unit kernel" where
  "pipe_out ino off buf n =
     for_each [0..<n] (\<lambda>i.
       bind (gets (\<lambda>s. load_byte (i_size (inode_table s ino) + off + word_of_nat i) (ram s))) (\<lambda>c.
       put_fs_byte c (buf + word_of_nat i)))"

definition pipe_in :: "nat \<Rightarrow> u32 \<Rightarrow> u32 \<Rightarrow> nat \<Rightarrow> unit kernel" where
  "pipe_in ino off buf n =
     for_each [0..<n] (\<lambda>i.
       bind (get_fs_byte (buf + word_of_nat i)) (\<lambda>c.
       modify (\<lambda>s. s\<lparr>ram := store_byte (i_size (inode_table s ino) + off + word_of_nat i) c (ram s)\<rparr>)))"

text \<open>The inner loops that wait for data or room; \<open>None\<close> when the other end is closed.\<close>

definition pipe_wait :: "(m_inode \<Rightarrow> u32) \<Rightarrow> nat \<Rightarrow> unit \<Rightarrow> (unit + u32 option) kernel" where
  "pipe_wait room ino _ =
     bind (get_inode ino) (\<lambda>m.
     if room m \<noteq> 0 then ret (Inr (Some (room m)))
     else
       seq (wake_up (I_wait ino))
      (bind (get_inode ino) (\<lambda>m.
       if i_count m \<noteq> 2 then ret (Inr None)
       else seq (sleep_on (I_wait ino)) (ret (Inl ())))))"

definition read_pipe_step :: "nat \<Rightarrow> u32 \<Rightarrow> u32 \<times> u32 \<Rightarrow> (u32 \<times> u32 + bool \<times> u32) kernel" where
  "read_pipe_step ino buf = (\<lambda>(read, cnt).
     if \<not> 0 <s cnt then ret (Inr (True, read))
     else bind (loop (pipe_wait PIPE_SIZE ino) ()) (\<lambda>r.
       case r of
         None \<Rightarrow> ret (Inr (False, read))
       | Some size' \<Rightarrow>
           bind (get_inode ino) (\<lambda>m.
           let tail = ucast (PIPE_TAIL m); chars = min3 (4096 - tail) cnt size' in
           seq (modify (upd_inode ino (set_tail ((PIPE_TAIL m + ucast chars) AND 4095))))
          (seq (pipe_out ino tail (buf + read) (nat (sint chars)))
               (ret (Inl (read + chars, cnt - chars)))))))"

definition read_pipe :: "nat \<Rightarrow> u32 \<Rightarrow> u32 \<Rightarrow> u32 kernel" where
  "read_pipe ino buf cnt =
     bind (loop (read_pipe_step ino buf) (0, cnt)) (\<lambda>(finished, read).
     seq (whenk finished (wake_up (I_wait ino))) (ret read))"

definition pipe_room :: "m_inode \<Rightarrow> u32" where
  "pipe_room m = 4095 - PIPE_SIZE m"

definition write_pipe_step :: "nat \<Rightarrow> u32 \<Rightarrow> u32 \<times> u32 \<Rightarrow> (u32 \<times> u32 + bool \<times> u32) kernel" where
  "write_pipe_step ino buf = (\<lambda>(written, cnt).
     if \<not> 0 <s cnt then ret (Inr (True, written))
     else bind (loop (pipe_wait pipe_room ino) ()) (\<lambda>r.
       case r of
         None \<Rightarrow>
           seq (modify (upd_cur (\<lambda>p. p\<lparr>t_signal := t_signal p OR push_bit (SIGPIPE - 1) 1\<rparr>)))
               (ret (Inr (False, if written \<noteq> 0 then written else -1)))
       | Some size' \<Rightarrow>
           bind (get_inode ino) (\<lambda>m.
           let head = ucast (PIPE_HEAD m); chars = min3 (4096 - head) cnt size' in
           seq (modify (upd_inode ino (set_head ((PIPE_HEAD m + ucast chars) AND 4095))))
          (seq (pipe_in ino head (buf + written) (nat (sint chars)))
               (ret (Inl (written + chars, cnt - chars)))))))"

definition write_pipe :: "nat \<Rightarrow> u32 \<Rightarrow> u32 \<Rightarrow> u32 kernel" where
  "write_pipe ino buf cnt =
     bind (loop (write_pipe_step ino buf) (0, cnt)) (\<lambda>(finished, written).
     seq (whenk finished (wake_up (I_wait ino))) (ret written))"

text \<open>The first two indices that satisfy a condition, in order.\<close>

definition first_two :: "(nat \<Rightarrow> bool) \<Rightarrow> nat \<Rightarrow> nat list" where
  "first_two P n = take 2 (filter P [0..<n])"

definition set_filp :: "nat \<Rightarrow> nat option \<Rightarrow> kstate \<Rightarrow> kstate" where
  "set_filp fd f s = upd_cur (\<lambda>p. p\<lparr>filp := (filp p)(fd := f)\<rparr>) s"

definition sys_pipe :: "u32 \<Rightarrow> u32 kernel" where
  "sys_pipe fildes =
     bind (gets (\<lambda>s. first_two (\<lambda>i. f_count (file_table s i) = 0) NR_FILE)) (\<lambda>fs.
     if length fs < 2 then ret (-1)
     else
       let f0 = fs ! 0; f1 = fs ! 1 in
       seq (modify (upd_file f0 (\<lambda>p. p\<lparr>f_count := f_count p + 1\<rparr>)))
      (seq (modify (upd_file f1 (\<lambda>p. p\<lparr>f_count := f_count p + 1\<rparr>)))
      (bind (gets (\<lambda>s. first_two (\<lambda>i. filp (cur s) i = None) NR_OPEN)) (\<lambda>fds.
       if length fds < 2
       then seq (modify (upd_file f1 (\<lambda>p. p\<lparr>f_count := 0\<rparr>)))
           (seq (modify (upd_file f0 (\<lambda>p. p\<lparr>f_count := 0\<rparr>))) (ret (-1)))
       else
         let d0 = fds ! 0; d1 = fds ! 1 in
         seq (modify (set_filp d0 (Some f0)))
        (seq (modify (set_filp d1 (Some f1)))
        (bind get_pipe_inode (\<lambda>p.
         case p of
           None \<Rightarrow>
             seq (modify (set_filp d1 None))
            (seq (modify (set_filp d0 None))
            (seq (modify (upd_file f1 (\<lambda>p. p\<lparr>f_count := 0\<rparr>)))
            (seq (modify (upd_file f0 (\<lambda>p. p\<lparr>f_count := 0\<rparr>))) (ret (-1)))))
         | Some ino \<Rightarrow>
             seq (modify (upd_file f0 (\<lambda>p. p\<lparr>f_inode := Some ino, f_pos := 0, f_mode := 1\<rparr>)))
            (seq (modify (upd_file f1 (\<lambda>p. p\<lparr>f_inode := Some ino, f_pos := 0, f_mode := 2\<rparr>)))
            (seq (put_fs_long (word_of_nat d0) fildes)
            (seq (put_fs_long (word_of_nat d1) (fildes + 4))
                 (ret 0)))))))))))"

section \<open>\<open>read_write.c\<close>\<close>

definition IS_SEEKABLE :: "u32 \<Rightarrow> bool" where
  "IS_SEEKABLE x \<longleftrightarrow> 1 \<le> x \<and> x \<le> 3"

text \<open>\<open>current->filp[fd]\<close> for a descriptor below \<open>NR_OPEN\<close>.\<close>

definition fd_file :: "u32 \<Rightarrow> kstate \<Rightarrow> nat option" where
  "fd_file fd s = (if NR_OPEN \<le> unat fd then None else filp (cur s) (unat fd))"

definition set_pos :: "nat \<Rightarrow> u32 \<Rightarrow> u32 kernel" where
  "set_pos f pos = (if pos <s 0 then ret (- EINVAL)
     else seq (modify (upd_file f (\<lambda>p. p\<lparr>f_pos := pos\<rparr>))) (ret pos))"

definition sys_lseek :: "u32 \<Rightarrow> u32 \<Rightarrow> u32 \<Rightarrow> u32 kernel" where
  "sys_lseek fd offset origin =
     bind (gets (fd_file fd)) (\<lambda>f.
     case f of
       None \<Rightarrow> ret (- EBADF)
     | Some f \<Rightarrow>
         bind (get_file f) (\<lambda>p.
         case f_inode p of
           None \<Rightarrow> ret (- EBADF)
         | Some ino \<Rightarrow>
             bind (get_inode ino) (\<lambda>m.
             if \<not> IS_SEEKABLE (MAJOR (ucast (i_dev m))) then ret (- EBADF)
             else if i_pipe m \<noteq> 0 then ret (- ESPIPE)
             else if origin = 0 then set_pos f offset
             else if origin = 1 then set_pos f (f_pos p + offset)
             else if origin = 2 then set_pos f (i_size m + offset)
             else ret (- EINVAL))))"

definition sys_read :: "(u32 \<Rightarrow> u8) \<Rightarrow> u32 \<Rightarrow> u32 \<Rightarrow> u32 \<Rightarrow> u32 kernel" where
  "sys_read inb fd buf cnt =
     bind (gets (fd_file fd)) (\<lambda>f.
     case f of
       None \<Rightarrow> ret (- EINVAL)
     | Some f \<Rightarrow>
         (if cnt <s 0 then ret (- EINVAL)
          else if cnt = 0 then ret 0
          else
            seq (verify_area buf cnt)
           (bind (get_file f) (\<lambda>p.
            deref (f_inode p) (\<lambda>ino.
              bind (get_inode ino) (\<lambda>m.
              if i_pipe m \<noteq> 0
              then (if f_mode p AND 1 \<noteq> 0 then read_pipe ino buf cnt else ret (- EIO))
              else if S_ISCHR (i_mode m) then rw_char inb READ (ucast (i_zone m 0)) f buf cnt
              else if S_ISBLK (i_mode m) then block_read (ucast (i_zone m 0)) f buf cnt
              else if S_ISDIR (i_mode m) \<or> S_ISREG (i_mode m)
              then
                let cnt = (if i_size m < cnt + f_pos p then i_size m - f_pos p else cnt) in
                if cnt \<le>s 0 then ret 0 else file_read ino f buf cnt
              else ret (- EINVAL)))))))"

definition sys_write :: "(u32 \<Rightarrow> u8) \<Rightarrow> u32 \<Rightarrow> u32 \<Rightarrow> u32 \<Rightarrow> u32 kernel" where
  "sys_write inb fd buf cnt =
     bind (gets (fd_file fd)) (\<lambda>f.
     case f of
       None \<Rightarrow> ret (- EINVAL)
     | Some f \<Rightarrow>
         (if cnt <s 0 then ret (- EINVAL)
          else if cnt = 0 then ret 0
          else bind (get_file f) (\<lambda>p.
            deref (f_inode p) (\<lambda>ino.
              bind (get_inode ino) (\<lambda>m.
              if i_pipe m \<noteq> 0
              then (if f_mode p AND 2 \<noteq> 0 then write_pipe ino buf cnt else ret (- EIO))
              else if S_ISCHR (i_mode m) then rw_char inb WRITE (ucast (i_zone m 0)) f buf cnt
              else if S_ISBLK (i_mode m) then block_write (ucast (i_zone m 0)) f buf cnt
              else if S_ISREG (i_mode m) then file_write ino f buf cnt
              else ret (- EINVAL))))))"

end
