(* ===== verification/Open.thy ===== *)
theory Open
  imports Files
begin

text \<open>
  Opening and closing files and the calls on names and descriptors: \<^verbatim>\<open>fs/open.c\<close>,
  \<^verbatim>\<open>fs/fcntl.c\<close>, \<^verbatim>\<open>fs/stat.c\<close>, \<^verbatim>\<open>fs/ioctl.c\<close>.
\<close>

section \<open>\<open>open.c\<close>\<close>

definition sys_ustat :: "u32 \<Rightarrow> u32 \<Rightarrow> u32 kernel" where
  "sys_ustat dev ubuf = ret (- ENOSYS)"

definition sys_utime :: "u32 \<Rightarrow> u32 \<Rightarrow> u32 kernel" where
  "sys_utime filename tbuf =
     bind (namei filename) (\<lambda>p.
     case p of
       None \<Rightarrow> ret (- ENOENT)
     | Some ino \<Rightarrow>
         bind (if tbuf \<noteq> 0
               then bind (get_fs_long tbuf) (\<lambda>a. bind (get_fs_long (tbuf + 4)) (\<lambda>m. ret (a, m)))
               else gets (\<lambda>s. (CURRENT_TIME s, CURRENT_TIME s))) (\<lambda>(actime, modtime).
         seq (modify (upd_inode ino (\<lambda>m. m\<lparr>i_atime := actime, i_mtime := modtime, i_dirt := 1\<rparr>)))
             (put_ret ino 0)))"

text \<open>The inode is read after it was released, as in the source.\<close>

definition sys_access :: "u32 \<Rightarrow> u32 \<Rightarrow> u32 kernel" where
  "sys_access filename mode =
     (let mode = mode AND 7 in
      bind (namei filename) (\<lambda>p.
      case p of
        None \<Rightarrow> ret (- EACCES)
      | Some ino \<Rightarrow>
          bind (gets (\<lambda>s. ucast (i_mode (inode_table s ino)) AND 0x1ff)) (\<lambda>im.
          seq (iput_ino ino)
         (bind (gets (\<lambda>s. (cur s, inode_table s ino))) (\<lambda>(t, m).
          let res = (if uid t = i_uid m then drop_bit 6 im
                     else if gid t = ucast (i_gid m) then drop_bit 6 im else im) in
          if res AND 7 AND mode = mode then ret 0
          else if uid t = 0 \<and> (mode AND 1 = 0 \<or> im AND 0x49 \<noteq> 0) then ret 0
          else ret (- EACCES))))))"

definition sys_chdir :: "u32 \<Rightarrow> u32 kernel" where
  "sys_chdir filename =
     bind (namei filename) (\<lambda>p.
     case p of
       None \<Rightarrow> ret (- ENOENT)
     | Some ino \<Rightarrow>
         bind (get_inode ino) (\<lambda>m.
         if \<not> S_ISDIR (i_mode m) then put_ret ino (- ENOTDIR)
         else bind (gets (\<lambda>s. pwd (cur s))) (\<lambda>w.
           seq (iput w) (seq (modify (upd_cur (\<lambda>t. t\<lparr>pwd := Some ino\<rparr>))) (ret 0)))))"

definition sys_chroot :: "u32 \<Rightarrow> u32 kernel" where
  "sys_chroot filename =
     bind (namei filename) (\<lambda>p.
     case p of
       None \<Rightarrow> ret (- ENOENT)
     | Some ino \<Rightarrow>
         bind (get_inode ino) (\<lambda>m.
         if \<not> S_ISDIR (i_mode m) then put_ret ino (- ENOTDIR)
         else bind (gets (\<lambda>s. root (cur s))) (\<lambda>w.
           seq (iput w) (seq (modify (upd_cur (\<lambda>t. t\<lparr>root := Some ino\<rparr>))) (ret 0)))))"

definition sys_chmod :: "u32 \<Rightarrow> u32 \<Rightarrow> u32 kernel" where
  "sys_chmod filename mode =
     bind (namei filename) (\<lambda>p.
     case p of
       None \<Rightarrow> ret (- ENOENT)
     | Some ino \<Rightarrow>
         bind (gets (\<lambda>s. euid (cur s) \<noteq> i_uid (inode_table s ino) \<and> \<not> suser s)) (\<lambda>denied.
         if denied then put_ret ino (- EACCES)
         else seq (modify (upd_inode ino (\<lambda>m. m\<lparr>i_mode := ucast (mode AND 0xfff) OR (i_mode m AND 0xf000), i_dirt := 1\<rparr>)))
                  (put_ret ino 0)))"

definition sys_chown :: "u32 \<Rightarrow> u32 \<Rightarrow> u32 \<Rightarrow> u32 kernel" where
  "sys_chown filename u g =
     bind (namei filename) (\<lambda>p.
     case p of
       None \<Rightarrow> ret (- ENOENT)
     | Some ino \<Rightarrow>
         bind (gets suser) (\<lambda>su.
         if \<not> su then put_ret ino (- EACCES)
         else seq (modify (upd_inode ino (\<lambda>m. m\<lparr>i_uid := ucast u, i_gid := ucast g, i_dirt := 1\<rparr>)))
                  (put_ret ino 0)))"

definition close_on_exec_off :: "nat \<Rightarrow> kstate \<Rightarrow> kstate" where
  "close_on_exec_off fd s = upd_cur (\<lambda>t. t\<lparr>close_on_exec := close_on_exec t AND NOT (push_bit fd 1)\<rparr>) s"

text \<open>Giving up a descriptor and file that could not be opened.\<close>

definition open_fail :: "nat \<Rightarrow> nat \<Rightarrow> u32 \<Rightarrow> u32 kernel" where
  "open_fail fd f e =
     seq (modify (set_filp fd None)) (seq (modify (upd_file f (\<lambda>p. p\<lparr>f_count := 0\<rparr>))) (ret e))"

text \<open>
  A terminal becomes the controlling terminal of a session leader that has none; \<open>True\<close>
  when the open must fail. A minor number past the three terminals is out of bounds.
\<close>

definition open_tty :: "nat \<Rightarrow> bool kernel" where
  "open_tty ino =
     bind (gets (\<lambda>s. (ucast (i_zone (inode_table s ino) 0), cur s))) (\<lambda>(dev, t).
     if MAJOR dev = 4
     then
       (if leader t \<noteq> 0 \<and> t_tty t <s 0
        then seq (modify (upd_cur (\<lambda>t. t\<lparr>t_tty := MINOR dev\<rparr>)))
            (if 3 \<le> unat (MINOR dev) then fault
             else seq (modify (upd_tty (unat (MINOR dev)) (\<lambda>y. y\<lparr>tty_pgrp := pgrp t\<rparr>))) (ret False))
        else ret False)
     else ret (MAJOR dev = 5 \<and> t_tty t <s 0))"

definition sys_open :: "u32 \<Rightarrow> u32 \<Rightarrow> u32 \<Rightarrow> u32 kernel" where
  "sys_open filename flag mode =
     bind (gets (\<lambda>s. (t_umask (cur s), search (\<lambda>i. filp (cur s) i = None) 0 NR_OPEN))) (\<lambda>(um, fd).
     let mode = mode AND (0x1ff AND NOT (ucast um)) in
     case fd of
       None \<Rightarrow> ret (- EINVAL)
     | Some fd \<Rightarrow>
         seq (modify (close_on_exec_off fd))
        (bind (gets (\<lambda>s. search (\<lambda>i. f_count (file_table s i) = 0) 0 NR_FILE)) (\<lambda>f.
         case f of
           None \<Rightarrow> ret (- EINVAL)
         | Some f \<Rightarrow>
             seq (modify (set_filp fd (Some f)))
            (seq (modify (upd_file f (\<lambda>p. p\<lparr>f_count := f_count p + 1\<rparr>)))
            (bind (open_namei filename flag mode) (\<lambda>(e, p).
             if e <s 0 then open_fail fd f e
             else deref p (\<lambda>ino.
               bind (get_inode ino) (\<lambda>m.
               bind (if S_ISCHR (i_mode m) then open_tty ino else ret False) (\<lambda>bad.
               if bad then seq (iput_ino ino) (open_fail fd f (- EPERM))
               else
                 seq (whenk (S_ISBLK (i_mode m)) (check_disk_change (ucast (i_zone m 0))))
                (seq (modify (\<lambda>s. upd_file f (\<lambda>p. p\<lparr>f_mode := i_mode (inode_table s ino), f_flags := ucast flag,
                        f_count := 1, f_inode := Some ino, f_pos := 0\<rparr>) s))
                     (ret (word_of_nat fd))))))))))))"

definition sys_creat :: "u32 \<Rightarrow> u32 \<Rightarrow> u32 kernel" where
  "sys_creat pathname mode = sys_open pathname (O_CREAT OR O_TRUNC) mode"

definition sys_close :: "u32 \<Rightarrow> u32 kernel" where
  "sys_close fd =
     (if NR_OPEN \<le> unat fd then ret (- EINVAL)
      else
        seq (modify (close_on_exec_off (unat fd)))
       (bind (gets (\<lambda>s. filp (cur s) (unat fd))) (\<lambda>p.
        case p of
          None \<Rightarrow> ret (- EINVAL)
        | Some f \<Rightarrow>
            seq (modify (set_filp (unat fd) None))
           (bind (get_file f) (\<lambda>q.
            if f_count q = 0 then panic ''Close: file count is 0''
            else
              seq (modify (upd_file f (\<lambda>p. p\<lparr>f_count := f_count p - 1\<rparr>)))
             (if f_count q - 1 \<noteq> 0 then ret 0
              else bind (get_file f) (\<lambda>q. seq (iput (f_inode q)) (ret 0))))))))"

section \<open>\<open>fcntl.c\<close>\<close>

definition dupfd :: "u32 \<Rightarrow> u32 \<Rightarrow> u32 kernel" where
  "dupfd fd arg =
     bind (gets (fd_file fd)) (\<lambda>f.
     case f of
       None \<Rightarrow> ret (- EBADF)
     | Some f \<Rightarrow>
         (if NR_OPEN \<le> unat arg then ret (- EINVAL)
          else bind (gets (\<lambda>s. search (\<lambda>i. filp (cur s) i = None) (unat arg) (NR_OPEN - unat arg))) (\<lambda>a.
            case a of
              None \<Rightarrow> ret (- EMFILE)
            | Some a \<Rightarrow>
                seq (modify (close_on_exec_off a))
               (seq (modify (set_filp a (Some f)))
               (seq (modify (upd_file f (\<lambda>p. p\<lparr>f_count := f_count p + 1\<rparr>)))
                    (ret (word_of_nat a)))))))"

definition sys_dup2 :: "u32 \<Rightarrow> u32 \<Rightarrow> u32 kernel" where
  "sys_dup2 oldfd newfd = bind (sys_close newfd) (\<lambda>_. dupfd oldfd newfd)"

definition sys_dup :: "u32 \<Rightarrow> u32 kernel" where
  "sys_dup fildes = dupfd fildes 0"

abbreviation O_STATUS :: u32 where "O_STATUS \<equiv> 0xc00"  \<comment> \<open>\<open>O_APPEND | O_NONBLOCK\<close>\<close>

definition sys_fcntl :: "u32 \<Rightarrow> u32 \<Rightarrow> u32 \<Rightarrow> u32 kernel" where
  "sys_fcntl fd cmd arg =
     bind (gets (fd_file fd)) (\<lambda>f.
     case f of
       None \<Rightarrow> ret (- EBADF)
     | Some f \<Rightarrow>
         (if cmd = 0 then dupfd fd arg
          else if cmd = 1 then gets (\<lambda>s. drop_bit (unat fd) (close_on_exec (cur s)) AND 1)
          else if cmd = 2 then
            seq (if arg AND 1 \<noteq> 0
                 then modify (upd_cur (\<lambda>t. t\<lparr>close_on_exec := close_on_exec t OR push_bit (unat fd) 1\<rparr>))
                 else modify (close_on_exec_off (unat fd)))
                (ret 0)
          else if cmd = 3 then bind (get_file f) (\<lambda>p. ret (ucast (f_flags p)))
          else if cmd = 4 then
            seq (modify (upd_file f (\<lambda>p. p\<lparr>f_flags :=
                   (f_flags p AND NOT (ucast O_STATUS)) OR ucast (arg AND O_STATUS)\<rparr>)))
                (ret 0)
          else ret (-1)))"

section \<open>\<open>stat.c\<close> and \<open>ioctl.c\<close>\<close>

text \<open>
  The bytes of \<open>struct stat\<close>: 16-bit device, inode number and mode, link count, one byte of
  padding, owner, group, one byte of padding, 16-bit device, two bytes of padding, four 32-bit
  fields. The padding, \<open>pad\<close>, is never set.
\<close>

definition bytes16 :: "u16 \<Rightarrow> u8 list" where
  "bytes16 v = [ucast v, ucast (drop_bit 8 v)]"

definition bytes32 :: "u32 \<Rightarrow> u8 list" where
  "bytes32 v = [ucast v, ucast (drop_bit 8 v), ucast (drop_bit 16 v), ucast (drop_bit 24 v)]"

definition stat_bytes :: "(nat \<Rightarrow> u8) \<Rightarrow> m_inode \<Rightarrow> u8 list" where
  "stat_bytes pad m =
     bytes16 (i_dev m) @ bytes16 (i_num m) @ bytes16 (i_mode m) @ [i_nlinks m, pad 7] @
     bytes16 (i_uid m) @ [i_gid m, pad 11] @ bytes16 (i_zone m 0) @ [pad 14, pad 15] @
     bytes32 (i_size m) @ bytes32 (i_atime m) @ bytes32 (i_mtime m) @ bytes32 (i_ctime m)"

definition cp_stat :: "(nat \<Rightarrow> u8) \<Rightarrow> nat \<Rightarrow> u32 \<Rightarrow> unit kernel" where
  "cp_stat pad ino statbuf =
     seq (verify_area statbuf 32)
    (bind (get_inode ino) (\<lambda>m. put_bytes statbuf (stat_bytes pad m)))"

definition sys_stat :: "(nat \<Rightarrow> u8) \<Rightarrow> u32 \<Rightarrow> u32 \<Rightarrow> u32 kernel" where
  "sys_stat pad filename statbuf =
     bind (namei filename) (\<lambda>p.
     case p of
       None \<Rightarrow> ret (- ENOENT)
     | Some ino \<Rightarrow> seq (cp_stat pad ino statbuf) (put_ret ino 0))"

definition sys_fstat :: "(nat \<Rightarrow> u8) \<Rightarrow> u32 \<Rightarrow> u32 \<Rightarrow> u32 kernel" where
  "sys_fstat pad fd statbuf =
     bind (gets (\<lambda>s. case fd_file fd s of None \<Rightarrow> None | Some f \<Rightarrow> f_inode (file_table s f))) (\<lambda>p.
     case p of
       None \<Rightarrow> ret (- EBADF)
     | Some ino \<Rightarrow> seq (cp_stat pad ino statbuf) (ret 0))"

definition sys_ioctl :: "u8 \<Rightarrow> u32 \<Rightarrow> u32 \<Rightarrow> u32 \<Rightarrow> u32 kernel" where
  "sys_ioctl pad fd cmd arg =
     bind (gets (fd_file fd)) (\<lambda>f.
     case f of
       None \<Rightarrow> ret (- EBADF)
     | Some f \<Rightarrow>
         bind (get_file f) (\<lambda>p.
         deref (f_inode p) (\<lambda>ino.
           bind (get_inode ino) (\<lambda>m.
           let dev = ucast (i_zone m 0) in
           if \<not> S_ISCHR (i_mode m) \<and> \<not> S_ISBLK (i_mode m) then ret (- EINVAL)
           else if 8 \<le> MAJOR dev then ret (- ENODEV)
           else if MAJOR dev \<noteq> 4 \<and> MAJOR dev \<noteq> 5 then ret (- ENOTTY)
           else tty_ioctl pad dev cmd arg))))"

end
