(* ===== verification/Process.thy ===== *)
theory Process
  imports Open
begin

text \<open>
  Processes: creation (\<^verbatim>\<open>kernel/fork.c\<close>), termination, waiting and the sending of signals
  (\<^verbatim>\<open>kernel/exit.c\<close>), and the identity and accounting calls of \<^verbatim>\<open>kernel/sys.c\<close>.
\<close>

section \<open>\<open>fork.c\<close>\<close>

text \<open>A process number in use, and one round of the search for a new one.\<close>

definition pid_used :: "u32 \<Rightarrow> kstate \<Rightarrow> bool" where
  "pid_used p s \<longleftrightarrow> search (\<lambda>i. task_used s i \<and> pid (tasks s i) = p) 0 NR_TASKS \<noteq> None"

definition next_pid :: "u32 \<Rightarrow> u32" where
  "next_pid p = (if p + 1 <s 0 then 1 else p + 1)"

definition pid_step :: "unit \<Rightarrow> (unit + unit) kernel" where
  "pid_step _ =
     seq (modify (\<lambda>s. s\<lparr>last_pid := next_pid (last_pid s)\<rparr>))
    (bind (gets (\<lambda>s. pid_used (last_pid s) s)) (\<lambda>u. ret (if u then Inl () else Inr ())))"

definition find_empty_process :: "u32 kernel" where
  "find_empty_process =
     seq (loop pid_step ())
    (bind (gets (\<lambda>s. search (\<lambda>i. \<not> task_used s i) 1 (NR_TASKS - 1))) (\<lambda>r.
     ret (case r of Some i \<Rightarrow> word_of_nat i | None \<Rightarrow> - EAGAIN)))"

definition set_task_used :: "nat \<Rightarrow> bool \<Rightarrow> kstate \<Rightarrow> kstate" where
  "set_task_used nr b s = s\<lparr>task_used := (task_used s)(nr := b)\<rparr>"

text \<open>
  The fields of a new process that the two ways of creating one set alike: a copy of
  \<open>current\<close> in the page \<open>p\<close>, whose trap frames are zero as \<open>get_free_page\<close> left them.
\<close>

definition child_of :: "u32 \<Rightarrow> kstate \<Rightarrow> task_struct" where
  "child_of p s =
     (cur s)\<lparr>t_page := p, t_tf := zero_trapframe, t_ktf := zero_trapframe,
        t_state := TASK_UNINTERRUPTIBLE, pid := last_pid s, father := pid (cur s),
        t_counter := t_priority (cur s), t_signal := 0, t_alarm := 0, leader := 0,
        utime := 0, stime := 0, cutime := 0, cstime := 0, start_time := jiffies s\<rparr>"

definition new_task :: "nat \<Rightarrow> u32 \<Rightarrow> kstate \<Rightarrow> kstate" where
  "new_task nr p s = (set_task_used nr True s)\<lparr>tasks := (tasks s)(nr := child_of p s)\<rparr>"

text \<open>The files and the three inodes of the parent gain a reference.\<close>

definition share_file :: "nat \<Rightarrow> nat \<Rightarrow> unit kernel" where
  "share_file nr i =
     bind (gets (\<lambda>s. filp (tasks s nr) i)) (\<lambda>f.
     case f of None \<Rightarrow> skip | Some f \<Rightarrow> modify (upd_file f (\<lambda>p. p\<lparr>f_count := f_count p + 1\<rparr>)))"

definition share_inode :: "nat option \<Rightarrow> unit kernel" where
  "share_inode p =
     (case p of None \<Rightarrow> skip | Some i \<Rightarrow> modify (upd_inode i (\<lambda>m. m\<lparr>i_count := i_count m + 1\<rparr>)))"

definition share_all :: "nat \<Rightarrow> unit kernel" where
  "share_all nr =
     seq (for_each [0..<NR_OPEN] (share_file nr))
    (bind (gets cur) (\<lambda>t.
     seq (share_inode (pwd t)) (seq (share_inode (root t)) (share_inode (executable t)))))"

abbreviation PAGE_SIZE :: u32 where "PAGE_SIZE \<equiv> 4096"
abbreviation TF_SIZE :: u32 where "TF_SIZE \<equiv> 400"

text \<open>\<open>entry\<close> is the address of \<open>ret_from_trap\<close>, code of \<^verbatim>\<open>kernel/trap.S\<close>.\<close>

definition child_frame :: "u32 \<Rightarrow> u32 \<Rightarrow> trapframe \<Rightarrow> task_struct \<Rightarrow> task_struct" where
  "child_frame entry new_pgdir ptf p =
     p\<lparr>pgdir := new_pgdir, t_tf := ptf\<lparr>tf_x := (tf_x ptf)(10 := 0), tf_from_user := 1\<rparr>,
       kctx := (kctx p)\<lparr>kc_ra := entry, kc_sp := t_page p + PAGE_SIZE - TF_SIZE\<rparr>\<rparr>"

definition copy_process :: "u32 \<Rightarrow> nat \<Rightarrow> u32 kernel" where
  "copy_process entry nr =
     bind get_free_page (\<lambda>p.
     if p = 0 then ret (- EAGAIN)
     else
       seq (modify (new_task nr p))
      (bind (gets (\<lambda>s. pgdir (cur s))) (\<lambda>old_pgdir.
       if old_pgdir = 0 then panic ''fork from kernel task''
       else bind get_free_page (\<lambda>new_pgdir.
         if new_pgdir = 0
         then seq (modify (set_task_used nr False)) (seq (free_page p) (ret (- EAGAIN)))
         else
           seq (modify (zero_page new_pgdir))
          (seq (modify (\<lambda>s. upd_task nr (child_frame entry new_pgdir (t_tf (cur s))) s))
          (bind (copy_page_tables old_pgdir new_pgdir) (\<lambda>e.
           if e \<noteq> 0
           then seq (modify (set_task_used nr False))
               (seq (free_page new_pgdir) (seq (free_page p) (ret (- EAGAIN))))
           else
             seq (share_all nr)
            (seq (modify (set_state nr TASK_RUNNING))
                 (gets last_pid)))))))))"

definition sys_fork :: "u32 \<Rightarrow> u32 kernel" where
  "sys_fork entry =
     bind find_empty_process (\<lambda>nr.
     if nr <s 0 then ret (- EAGAIN) else copy_process entry (unat nr))"

text \<open>A kernel task runs the function at the address \<open>fn\<close>.\<close>

definition kernel_thread :: "u32 \<Rightarrow> u32 kernel" where
  "kernel_thread fn =
     bind find_empty_process (\<lambda>r.
     if r <s 0 then ret (- EAGAIN)
     else
       let nr = unat r in
       bind get_free_page (\<lambda>p.
       if p = 0 then ret (- EAGAIN)
       else
         seq (modify (new_task nr p))
        (seq (modify (upd_task nr (\<lambda>t. t\<lparr>pgdir := 0,
                kctx := (kctx t)\<lparr>kc_ra := fn, kc_sp := p + PAGE_SIZE\<rparr>\<rparr>)))
        (seq (share_all nr)
        (seq (modify (set_state nr TASK_RUNNING))
             (gets last_pid))))))"

section \<open>\<open>exit.c\<close>\<close>

definition release :: "nat option \<Rightarrow> unit kernel" where
  "release p =
     (case p of
        None \<Rightarrow> skip
      | Some i \<Rightarrow>
          bind (gets (\<lambda>s. 1 \<le> i \<and> i < NR_TASKS \<and> task_used s i)) (\<lambda>found.
          if found
          then bind (gets (\<lambda>s. t_page (tasks s i))) (\<lambda>page.
            seq (modify (set_task_used i False)) (seq (free_page page) schedule))
          else panic ''trying to release non-existent task''))"

text \<open>The task in slot \<open>i\<close>, as the pointer \<open>task[i]\<close>.\<close>

definition task_ptr :: "nat \<Rightarrow> kstate \<Rightarrow> nat option" where
  "task_ptr i s = (if task_used s i then Some i else None)"

definition raise_signal :: "nat \<Rightarrow> nat \<Rightarrow> kstate \<Rightarrow> kstate" where
  "raise_signal sig i s = upd_task i (\<lambda>t. t\<lparr>t_signal := t_signal t OR push_bit (sig - 1) 1\<rparr>) s"

definition send_sig :: "u32 \<Rightarrow> nat option \<Rightarrow> bool \<Rightarrow> u32 kernel" where
  "send_sig sig p priv =
     (case p of
        None \<Rightarrow> ret (- EINVAL)
      | Some i \<Rightarrow>
          (if sig <s 1 \<or> 32 <s sig then ret (- EINVAL)
           else bind (gets (\<lambda>s. priv \<or> euid (cur s) = euid (tasks s i) \<or> suser s)) (\<lambda>ok.
             if ok then seq (modify (raise_signal (unat sig) i)) (ret 0)
             else ret (- EPERM))))"

definition kill_session :: "unit kernel" where
  "kill_session =
     for_each (rev [1..<NR_TASKS]) (\<lambda>i.
       bind (gets (\<lambda>s. task_used s i \<and> session (tasks s i) = session (cur s))) (\<lambda>m.
       whenk m (modify (raise_signal SIGHUP i))))"

text \<open>
  The loops of \<open>sys_kill\<close>: \<open>kill_where\<close> signals the tasks that match and keeps the last error.
  The \<open>else\<close> the source puts before its last loop belongs to the \<open>if\<close> inside the loop for
  \<open>pid == -1\<close>: after the first successful \<open>send_sig\<close> the remaining slots go through the last
  loop, and a \<open>pid\<close> below \<open>-1\<close> reaches no loop at all.
\<close>

primrec kill_where :: "u32 \<Rightarrow> bool \<Rightarrow> (kstate \<Rightarrow> task_struct \<Rightarrow> bool) \<Rightarrow> nat list \<Rightarrow> u32 \<Rightarrow> u32 kernel" where
  "kill_where sig priv P [] retval = ret retval"
| "kill_where sig priv P (i # is) retval =
     bind (gets (\<lambda>s. task_used s i \<and> P s (tasks s i))) (\<lambda>m.
     if m then bind (send_sig sig (Some i) priv) (\<lambda>err.
       kill_where sig priv P is (if err \<noteq> 0 then err else retval))
     else kill_where sig priv P is retval)"

primrec kill_all :: "u32 \<Rightarrow> u32 \<Rightarrow> nat list \<Rightarrow> u32 \<Rightarrow> u32 kernel" where
  "kill_all sig pid' [] retval = ret retval"
| "kill_all sig pid' (i # is) retval =
     bind (gets (task_ptr i)) (\<lambda>p.
     bind (send_sig sig p False) (\<lambda>err.
     if err \<noteq> 0 then kill_all sig pid' is err
     else kill_where sig False (\<lambda>s t. pgrp t = - pid') is retval))"

definition sys_kill :: "u32 \<Rightarrow> u32 \<Rightarrow> u32 kernel" where
  "sys_kill pid' sig =
     (let slots = rev [1..<NR_TASKS] in
      if pid' = 0 then kill_where sig True (\<lambda>s t. pgrp t = pid (cur s)) slots 0
      else if 0 <s pid' then kill_where sig False (\<lambda>s t. pid t = pid') slots 0
      else if pid' = -1 then kill_all sig pid' slots 0
      else ret 0)"

definition tell_father :: "u32 \<Rightarrow> unit kernel" where
  "tell_father pid' =
     bind (gets (\<lambda>s. if pid' \<noteq> 0 then search (\<lambda>i. task_used s i \<and> pid (tasks s i) = pid') 0 NR_TASKS
                     else None)) (\<lambda>r.
     case r of
       Some i \<Rightarrow> modify (raise_signal SIGCHLD i)
     | None \<Rightarrow> bind (gets current) (\<lambda>me. release (Some me)))"

definition adopt :: "nat \<Rightarrow> unit kernel" where
  "adopt i =
     bind (gets (\<lambda>s. task_used s i \<and> father (tasks s i) = pid (cur s))) (\<lambda>mine.
     whenk mine
       (seq (modify (upd_task i (\<lambda>t. t\<lparr>father := 1\<rparr>)))
       (bind (gets (\<lambda>s. t_state (tasks s i) = TASK_ZOMBIE)) (\<lambda>z.
        whenk z (bind (gets (task_ptr 1)) (\<lambda>p.
          bind (send_sig (word_of_nat SIGCHLD) p True) (\<lambda>_. skip)))))))"

definition close_all :: "nat \<Rightarrow> unit kernel" where
  "close_all i =
     bind (gets (\<lambda>s. filp (cur s) i \<noteq> None)) (\<lambda>b.
     whenk b (bind (sys_close (word_of_nat i)) (\<lambda>_. skip)))"

definition put_task_inode :: "(task_struct \<Rightarrow> nat option) \<Rightarrow> (task_struct \<Rightarrow> task_struct) \<Rightarrow> unit kernel" where
  "put_task_inode field clear = bind (gets (\<lambda>s. field (cur s))) (\<lambda>p. seq (iput p) (modify (upd_cur clear)))"

definition drop_tty :: "unit kernel" where
  "drop_tty =
     bind (gets cur) (\<lambda>t.
     whenk (leader t \<noteq> 0 \<and> 0 \<le>s t_tty t)
       (if 3 \<le> unat (t_tty t) then fault
        else modify (upd_tty (unat (t_tty t)) (\<lambda>y. y\<lparr>tty_pgrp := 0\<rparr>))))"

definition do_exit :: "u32 \<Rightarrow> u32 kernel" where
  "do_exit code =
     bind (gets (\<lambda>s. pgdir (cur s))) (\<lambda>pgd.
     bind (free_page_tables pgd) (\<lambda>_.
     seq (modify (upd_cur (\<lambda>t. t\<lparr>pgdir := 0\<rparr>)))
    (seq (for_each [0..<NR_TASKS] adopt)
    (seq (for_each [0..<NR_OPEN] close_all)
    (seq (put_task_inode pwd (\<lambda>t. t\<lparr>pwd := None\<rparr>))
    (seq (put_task_inode root (\<lambda>t. t\<lparr>root := None\<rparr>))
    (seq (put_task_inode executable (\<lambda>t. t\<lparr>executable := None\<rparr>))
    (seq drop_tty
    (seq (modify (\<lambda>s. if last_task_used_math s = Some (current s) then s\<lparr>last_task_used_math := None\<rparr> else s))
    (bind (gets (\<lambda>s. leader (cur s) \<noteq> 0)) (\<lambda>l.
     seq (whenk l kill_session)
    (seq (modify (upd_cur (\<lambda>t. t\<lparr>t_state := TASK_ZOMBIE, t_exit_code := code\<rparr>)))
    (bind (gets (\<lambda>s. father (cur s))) (\<lambda>f.
     seq (tell_father f)
    (seq schedule (ret (-1)))))))))))))))))"

definition sys_exit :: "u32 \<Rightarrow> u32 kernel" where
  "sys_exit error_code = do_exit (push_bit 8 (error_code AND 0xff))"

abbreviation WNOHANG :: u32 where "WNOHANG \<equiv> 1"
abbreviation WUNTRACED :: u32 where "WUNTRACED \<equiv> 2"

text \<open>The children \<open>waitpid(pid)\<close> waits for.\<close>

definition waited :: "u32 \<Rightarrow> nat \<Rightarrow> kstate \<Rightarrow> bool" where
  "waited pid' i s \<longleftrightarrow>
     task_used s i \<and> i \<noteq> current s \<and> father (tasks s i) = pid (cur s) \<and>
     (if 0 <s pid' then pid (tasks s i) = pid'
      else if pid' = 0 then pgrp (tasks s i) = pgrp (cur s)
      else if pid' \<noteq> -1 then pgrp (tasks s i) = - pid' else True)"

definition reap :: "u32 \<Rightarrow> nat \<Rightarrow> u32 kernel" where
  "reap stat_addr i =
     bind (gets (\<lambda>s. tasks s i)) (\<lambda>t.
     seq (modify (upd_cur (\<lambda>me. me\<lparr>cutime := cutime me + utime t, cstime := cstime me + stime t\<rparr>)))
    (seq (release (Some i))
    (seq (put_fs_long (t_exit_code t) stat_addr)
         (ret (pid t)))))"

text \<open>One pass over the task table: \<open>Inr\<close> is the value returned, \<open>Inl\<close> the flag at the end.\<close>

primrec wait_scan :: "u32 \<Rightarrow> u32 \<Rightarrow> u32 \<Rightarrow> nat list \<Rightarrow> bool \<Rightarrow> (bool + u32) kernel" where
  "wait_scan pid' stat_addr options [] flag = ret (Inl flag)"
| "wait_scan pid' stat_addr options (i # is) flag =
     bind (gets (waited pid' i)) (\<lambda>w.
     if \<not> w then wait_scan pid' stat_addr options is flag
     else bind (gets (\<lambda>s. tasks s i)) (\<lambda>t.
       if t_state t = TASK_STOPPED
       then if options AND WUNTRACED = 0 then wait_scan pid' stat_addr options is flag
            else seq (put_fs_long 0x7f stat_addr) (bind (gets (\<lambda>s. pid (tasks s i))) (\<lambda>p. ret (Inr p)))
       else if t_state t = TASK_ZOMBIE then bind (reap stat_addr i) (\<lambda>p. ret (Inr p))
       else wait_scan pid' stat_addr options is True))"

definition wait_step :: "u32 \<Rightarrow> u32 \<Rightarrow> u32 \<Rightarrow> unit \<Rightarrow> (unit + u32) kernel" where
  "wait_step pid' stat_addr options _ =
     bind (wait_scan pid' stat_addr options (rev [1..<NR_TASKS]) False) (\<lambda>r.
     case r of
       Inr v \<Rightarrow> ret (Inr v)
     | Inl False \<Rightarrow> ret (Inr (- ECHILD))
     | Inl True \<Rightarrow>
         (if options AND WNOHANG \<noteq> 0 then ret (Inr 0)
          else
            seq (modify (\<lambda>s. set_state (current s) TASK_INTERRUPTIBLE s))
           (seq schedule
           (seq (modify (upd_cur (\<lambda>t. t\<lparr>t_signal := t_signal t AND NOT (push_bit (SIGCHLD - 1) 1)\<rparr>)))
           (bind (gets (\<lambda>s. t_signal (cur s))) (\<lambda>sg.
            ret (if sg = 0 then Inl () else Inr (- EINTR))))))))"

definition sys_waitpid :: "u32 \<Rightarrow> u32 \<Rightarrow> u32 \<Rightarrow> u32 kernel" where
  "sys_waitpid pid' stat_addr options =
     seq (verify_area stat_addr 4) (loop (wait_step pid' stat_addr options) ())"

section \<open>\<open>sys.c\<close>\<close>

definition enosys :: "u32 kernel" where
  "enosys = ret (- ENOSYS)"

definition sys_setup :: "u32 \<Rightarrow> u32 kernel" where
  "sys_setup BIOS = ret 0"

definition sys_setregid :: "u32 \<Rightarrow> u32 \<Rightarrow> u32 kernel" where
  "sys_setregid rgid eg =
     bind (gets (\<lambda>s. 0 <s rgid \<and> \<not> (ucast (gid (cur s)) = rgid \<or> suser s))) (\<lambda>denied.
     if denied then ret (- EPERM)
     else
       seq (whenk (0 <s rgid) (modify (upd_cur (\<lambda>t. t\<lparr>gid := ucast rgid\<rparr>))))
      (if 0 <s eg
       then bind (gets (\<lambda>s. ucast (gid (cur s)) = eg \<or> ucast (egid (cur s)) = eg \<or>
                            ucast (sgid (cur s)) = eg \<or> suser s)) (\<lambda>ok.
         if ok then seq (modify (upd_cur (\<lambda>t. t\<lparr>egid := ucast eg\<rparr>))) (ret 0)
         else ret (- EPERM))
       else ret 0))"

definition sys_setgid :: "u32 \<Rightarrow> u32 kernel" where
  "sys_setgid g = sys_setregid g g"

definition sys_time :: "u32 \<Rightarrow> u32 kernel" where
  "sys_time tloc =
     bind (gets CURRENT_TIME) (\<lambda>i.
     seq (whenk (tloc \<noteq> 0) (seq (verify_area tloc 4) (put_fs_long i tloc))) (ret i))"

definition sys_setreuid :: "u32 \<Rightarrow> u32 \<Rightarrow> u32 kernel" where
  "sys_setreuid ruid eu =
     bind (gets (\<lambda>s. uid (cur s))) (\<lambda>old_ruid.
     bind (gets (\<lambda>s. 0 <s ruid \<and> \<not> (ucast (euid (cur s)) = ruid \<or> ucast old_ruid = ruid \<or> suser s))) (\<lambda>denied.
     if denied then ret (- EPERM)
     else
       seq (whenk (0 <s ruid) (modify (upd_cur (\<lambda>t. t\<lparr>uid := ucast ruid\<rparr>))))
      (if 0 <s eu
       then bind (gets (\<lambda>s. ucast old_ruid = eu \<or> ucast (euid (cur s)) = eu \<or> suser s)) (\<lambda>ok.
         if ok then seq (modify (upd_cur (\<lambda>t. t\<lparr>euid := ucast eu\<rparr>))) (ret 0)
         else seq (modify (upd_cur (\<lambda>t. t\<lparr>uid := old_ruid\<rparr>))) (ret (- EPERM)))
       else ret 0)))"

definition sys_setuid :: "u32 \<Rightarrow> u32 kernel" where
  "sys_setuid u = sys_setreuid u u"

definition sys_stime :: "u32 \<Rightarrow> u32 kernel" where
  "sys_stime tptr =
     bind (gets suser) (\<lambda>su.
     if \<not> su then ret (- EPERM)
     else bind (get_fs_long tptr) (\<lambda>t.
       seq (modify (\<lambda>s. s\<lparr>startup_time := t - c_div (jiffies s) HZ\<rparr>)) (ret 0)))"

definition sys_times :: "u32 \<Rightarrow> u32 kernel" where
  "sys_times tbuf =
     seq (whenk (tbuf \<noteq> 0)
           (seq (verify_area tbuf 16)
           (bind (gets cur) (\<lambda>t. seq (put_fs_long (utime t) tbuf)
           (bind (gets cur) (\<lambda>t. seq (put_fs_long (stime t) (tbuf + 4))
           (bind (gets cur) (\<lambda>t. seq (put_fs_long (cutime t) (tbuf + 8))
           (bind (gets cur) (\<lambda>t. put_fs_long (cstime t) (tbuf + 12)))))))))))
         (gets jiffies)"

definition sys_brk :: "u32 \<Rightarrow> u32 kernel" where
  "sys_brk end_data_seg =
     seq (modify (upd_cur (\<lambda>t.
            if end_code t \<le> end_data_seg \<and> end_data_seg < start_stack t - 16384
            then t\<lparr>t_brk := end_data_seg\<rparr> else t)))
         (gets (\<lambda>s. t_brk (cur s)))"

definition sys_setpgid :: "u32 \<Rightarrow> u32 \<Rightarrow> u32 kernel" where
  "sys_setpgid pid' pgid =
     bind (gets (\<lambda>s. (if pid' = 0 then pid (cur s) else pid', if pgid = 0 then pid (cur s) else pgid))) (\<lambda>(p, g).
     bind (gets (\<lambda>s. search (\<lambda>i. task_used s i \<and> pid (tasks s i) = p) 0 NR_TASKS)) (\<lambda>r.
     case r of
       None \<Rightarrow> ret (- ESRCH)
     | Some i \<Rightarrow>
         bind (gets (\<lambda>s. leader (tasks s i) \<noteq> 0 \<or> session (tasks s i) \<noteq> session (cur s))) (\<lambda>denied.
         if denied then ret (- EPERM)
         else seq (modify (upd_task i (\<lambda>t. t\<lparr>pgrp := g\<rparr>))) (ret 0))))"

definition sys_getpgrp :: "u32 kernel" where
  "sys_getpgrp = gets (\<lambda>s. pgrp (cur s))"

definition sys_setsid :: "u32 kernel" where
  "sys_setsid =
     bind (gets (\<lambda>s. leader (cur s) \<noteq> 0 \<and> \<not> suser s)) (\<lambda>denied.
     if denied then ret (- EPERM)
     else
       seq (modify (upd_cur (\<lambda>t. t\<lparr>leader := 1, session := pid t, pgrp := pid t, t_tty := -1\<rparr>)))
           (gets (\<lambda>s. pgrp (cur s))))"

definition utsname_field :: "string \<Rightarrow> u8 list" where
  "utsname_field x = map of_char x @ [0]"

definition thisname :: "u8 list" where
  "thisname = utsname_field ''linux .0'' @ utsname_field ''nodename'' @ utsname_field ''release '' @
     utsname_field ''version '' @ utsname_field ''machine ''"

definition sys_uname :: "u32 \<Rightarrow> u32 kernel" where
  "sys_uname name =
     (if name = 0 then ret (- ERROR)
      else seq (verify_area name 45) (seq (put_bytes name thisname) (ret 0)))"

definition sys_umask :: "u32 \<Rightarrow> u32 kernel" where
  "sys_umask m =
     bind (gets (\<lambda>s. t_umask (cur s))) (\<lambda>old.
     seq (modify (upd_cur (\<lambda>t. t\<lparr>t_umask := ucast (m AND 0x1ff)\<rparr>))) (ret (ucast old)))"

end
