(* ===== verification/Signals.thy ===== *)
theory Signals
  imports Process
begin

text \<open>
  Signal handlers, \<^verbatim>\<open>kernel/signal.c\<close>: masks and actions of a task, delivery of a pending
  signal by rewriting the trap frame, and the return from a handler.
\<close>

text \<open>
  The trap frame a handler works on: the one at the top of the page of \<open>current\<close> for a trap
  from user mode, the one on its kernel stack otherwise.
\<close>

datatype tfp = User_tf | Kernel_tf

fun get_tf :: "tfp \<Rightarrow> kstate \<Rightarrow> trapframe" where
  "get_tf User_tf s = t_tf (cur s)"
| "get_tf Kernel_tf s = t_ktf (cur s)"

fun upd_tf :: "tfp \<Rightarrow> (trapframe \<Rightarrow> trapframe) \<Rightarrow> kstate \<Rightarrow> kstate" where
  "upd_tf User_tf f s = upd_cur (\<lambda>t. t\<lparr>t_tf := f (t_tf t)\<rparr>) s"
| "upd_tf Kernel_tf f s = upd_cur (\<lambda>t. t\<lparr>t_ktf := f (t_ktf t)\<rparr>) s"

definition set_reg :: "nat \<Rightarrow> u32 \<Rightarrow> trapframe \<Rightarrow> trapframe" where
  "set_reg r v tf = tf\<lparr>tf_x := (tf_x tf)(r := v)\<rparr>"

abbreviation RA :: nat where "RA \<equiv> 1"
abbreviation SP :: nat where "SP \<equiv> 2"
abbreviation A0 :: nat where "A0 \<equiv> 10"
abbreviation A1 :: nat where "A1 \<equiv> 11"
abbreviation A2 :: nat where "A2 \<equiv> 12"
abbreviation A7 :: nat where "A7 \<equiv> 17"

definition sys_sgetmask :: "u32 kernel" where
  "sys_sgetmask = gets (\<lambda>s. t_blocked (cur s))"

definition sys_ssetmask :: "u32 \<Rightarrow> u32 kernel" where
  "sys_ssetmask newmask =
     bind (gets (\<lambda>s. t_blocked (cur s))) (\<lambda>old.
     seq (modify (upd_cur (\<lambda>t. t\<lparr>t_blocked := newmask AND NOT (push_bit (SIGKILL - 1) 1)\<rparr>))) (ret old))"

text \<open>The sixteen bytes of a \<open>struct sigaction\<close>.\<close>

definition sigaction_bytes :: "sigaction \<Rightarrow> u8 list" where
  "sigaction_bytes a = bytes32 (sa_handler a) @ bytes32 (sa_mask a) @ bytes32 (sa_flags a) @ bytes32 (sa_restorer a)"

definition bytes_sigaction :: "u8 list \<Rightarrow> sigaction" where
  "bytes_sigaction bs =
     (let b = (\<lambda>i. bs ! i) in
      \<lparr>sa_handler = get32 b 0, sa_mask = get32 b 4, sa_flags = get32 b 8, sa_restorer = get32 b 12\<rparr>)"

definition upd_sigaction :: "nat \<Rightarrow> (sigaction \<Rightarrow> sigaction) \<Rightarrow> kstate \<Rightarrow> kstate" where
  "upd_sigaction i f s = upd_cur (\<lambda>t. t\<lparr>t_sigaction := (t_sigaction t)(i := f (t_sigaction t i))\<rparr>) s"

definition save_old :: "sigaction \<Rightarrow> u32 \<Rightarrow> unit kernel" where
  "save_old from to = seq (verify_area to 16) (put_bytes to (sigaction_bytes from))"

definition get_new :: "u32 \<Rightarrow> nat \<Rightarrow> unit kernel" where
  "get_new from to =
     for_each [0..<16] (\<lambda>i.
       bind (get_fs_byte (from + word_of_nat i)) (\<lambda>c.
       modify (upd_sigaction to (\<lambda>a. bytes_sigaction ((sigaction_bytes a)[i := c])))))"

abbreviation SA_NOMASK :: u32 where "SA_NOMASK \<equiv> 0x40000000"
abbreviation SA_ONESHOT :: u32 where "SA_ONESHOT \<equiv> 0x80000000"

definition bad_signum :: "u32 \<Rightarrow> bool" where
  "bad_signum signum \<longleftrightarrow> signum <s 1 \<or> 32 <s signum \<or> signum = word_of_nat SIGKILL"

definition sys_signal :: "u32 \<Rightarrow> u32 \<Rightarrow> u32 \<Rightarrow> u32 kernel" where
  "sys_signal signum handler restorer =
     (if bad_signum signum then ret (-1)
      else
        let i = unat signum - 1 in
        bind (gets (\<lambda>s. sa_handler (t_sigaction (cur s) i))) (\<lambda>old.
        seq (modify (upd_sigaction i (\<lambda>_.
               \<lparr>sa_handler = handler, sa_mask = 0, sa_flags = SA_ONESHOT OR SA_NOMASK, sa_restorer = restorer\<rparr>)))
            (ret old)))"

definition sys_sigaction :: "u32 \<Rightarrow> u32 \<Rightarrow> u32 \<Rightarrow> u32 kernel" where
  "sys_sigaction signum action oldaction =
     (if bad_signum signum then ret (-1)
      else
        let i = unat signum - 1 in
        bind (gets (\<lambda>s. t_sigaction (cur s) i)) (\<lambda>tmp.
        seq (get_new action i)
       (seq (whenk (oldaction \<noteq> 0) (save_old tmp oldaction))
       (seq (modify (upd_sigaction i (\<lambda>a.
               if sa_flags a AND SA_NOMASK \<noteq> 0 then a\<lparr>sa_mask := 0\<rparr>
               else a\<lparr>sa_mask := sa_mask a OR push_bit i 1\<rparr>)))
            (ret 0)))))"

text \<open>
  \<open>do_signal\<close> for signal \<open>signr\<close>: five words are pushed on the user's stack and the frame is
  made to continue in the handler. The two cases of the default action come first.
\<close>

definition put_words :: "u32 \<Rightarrow> u32 list \<Rightarrow> unit kernel" where
  "put_words sp vs = for_each [0..<length vs] (\<lambda>i. put_fs_long (vs ! i) (sp + 4 * word_of_nat i))"

definition handler_frame :: "u32 \<Rightarrow> u32 \<Rightarrow> u32 \<Rightarrow> u32 \<Rightarrow> trapframe \<Rightarrow> trapframe" where
  "handler_frame sp signr restorer handler tf =
     (set_reg RA restorer (set_reg A0 signr (set_reg SP sp tf)))\<lparr>tf_mepc := handler\<rparr>"

definition push_handler :: "tfp \<Rightarrow> nat \<Rightarrow> u32 \<Rightarrow> unit kernel" where
  "push_handler tf signr handler =
     (let i = signr - 1 in
      seq (modify (upd_sigaction i (\<lambda>a. if sa_flags a AND SA_ONESHOT \<noteq> 0 then a\<lparr>sa_handler := 0\<rparr> else a)))
     (bind (gets (\<lambda>s. (sa_restorer (t_sigaction (cur s) i), get_tf tf s))) (\<lambda>(restorer, f).
      let old_sp = tf_x f SP; sp = old_sp - 20 in
      seq (verify_area sp 20)
     (seq (put_words sp [restorer, word_of_nat signr, tf_x f A0, tf_mepc f, old_sp])
     (seq (modify (upd_tf tf (handler_frame sp (word_of_nat signr) restorer handler)))
          (modify (upd_cur (\<lambda>t. t\<lparr>t_blocked := t_blocked t OR sa_mask (t_sigaction t i)\<rparr>))))))))"

definition do_signal :: "tfp \<Rightarrow> nat \<Rightarrow> unit kernel" where
  "do_signal tf signr =
     bind (gets (\<lambda>s. sa_handler (t_sigaction (cur s) (signr - 1)))) (\<lambda>handler.
     if handler = 1 then skip
     else if handler = 0
     then if signr = SIGCHLD then skip else exit_task (word_of_nat signr)
     else push_handler tf signr handler)"

text \<open>The scan for the lowest signal set in \<open>pending\<close>.\<close>

definition lowest_signal :: "u32 \<Rightarrow> nat option" where
  "lowest_signal pending = search (\<lambda>sig. bit pending (sig - 1)) 1 32"

definition do_signals :: "tfp \<Rightarrow> unit kernel" where
  "do_signals tf =
     bind (gets (\<lambda>s. (t_signal (cur s), t_signal (cur s) AND NOT (t_blocked (cur s))))) (\<lambda>(signal, pending).
     if signal = 0 then skip
     else if pending = 0 then skip
     else case lowest_signal pending of
       None \<Rightarrow> skip
     | Some sig \<Rightarrow>
         seq (modify (upd_cur (\<lambda>t. t\<lparr>t_signal := t_signal t AND NOT (push_bit (sig - 1) 1)\<rparr>)))
             (do_signal tf sig))"

definition sys_sigreturn :: "u32 kernel" where
  "sys_sigreturn =
     bind (gets (\<lambda>s. tf_x (t_tf (cur s)) SP)) (\<lambda>sp.
     bind (get_fs_long (sp + 8)) (\<lambda>a0.
     seq (modify (upd_tf User_tf (set_reg A0 a0)))
    (bind (get_fs_long (sp + 12)) (\<lambda>pc.
     seq (modify (upd_tf User_tf (\<lambda>tf. tf\<lparr>tf_mepc := pc\<rparr>)))
    (bind (get_fs_long (sp + 16)) (\<lambda>osp.
     seq (modify (upd_tf User_tf (set_reg SP osp)))
         (gets (\<lambda>s. tf_x (t_tf (cur s)) A0))))))))"

end
