(* ===== verification/Exec.thy ===== *)
theory Exec
  imports Signals
begin

text \<open>
  Executing a program, \<^verbatim>\<open>fs/exec.c\<close>: the ELF32 loader with the argument pages and the
  new stack.
\<close>

abbreviation ENOEXEC :: u32 where "ENOEXEC \<equiv> 8"
abbreviation ENOMEM :: u32 where "ENOMEM \<equiv> 12"
abbreviation MAX_ARG_PAGES :: nat where "MAX_ARG_PAGES \<equiv> 32"
abbreviation STACK_BASE :: u32 where "STACK_BASE \<equiv> 0x7fde0000"

text \<open>\<open>skip_string\<close> is the address after the string at \<open>p\<close>.\<close>

definition skip_step :: "u32 \<Rightarrow> (u32 + u32) kernel" where
  "skip_step p = bind (get_fs_byte p) (\<lambda>c. ret (if c \<noteq> 0 then Inl (p + 1) else Inr (p + 1)))"

definition skip_string :: "u32 \<Rightarrow> u32 kernel" where
  "skip_string p = loop skip_step p"

text \<open>\<open>fill_table\<close> stores the addresses of \<open>n\<close> strings from \<open>p\<close> and the final null pointer.\<close>

primrec fill_table :: "nat \<Rightarrow> u32 \<Rightarrow> u32 \<Rightarrow> u32 kernel" where
  "fill_table 0 p table = seq (put_fs_long 0 table) (ret p)"
| "fill_table (Suc n) p table =
     seq (put_fs_long p table) (bind (skip_string p) (\<lambda>q. fill_table n q (table + 4)))"

definition create_tables :: "u32 \<Rightarrow> nat \<Rightarrow> nat \<Rightarrow> u32 kernel" where
  "create_tables p argc envc =
     (let sp = 0xfffffffc AND p;
          envp = sp - 4 * (word_of_nat envc + 1);
          argv = envp - 4 * (word_of_nat argc + 1) in
      seq (put_fs_long envp (argv - 4))
     (seq (put_fs_long argv (argv - 8))
     (seq (put_fs_long (word_of_nat argc) (argv - 12))
     (bind (fill_table argc p argv) (\<lambda>q.
      bind (fill_table envc q envp) (\<lambda>_.
      ret (argv - 12)))))))"

definition count_step :: "u32 \<times> nat \<Rightarrow> (u32 \<times> nat + nat) kernel" where
  "count_step = (\<lambda>(tmp, i). bind (get_fs_long tmp) (\<lambda>v. ret (if v \<noteq> 0 then Inl (tmp + 4, i + 1) else Inr i)))"

definition count_args :: "u32 \<Rightarrow> nat kernel" where
  "count_args argv = (if argv \<noteq> 0 then loop count_step (argv, 0) else ret 0)"

text \<open>
  \<open>copy_strings\<close>. The variables of the copy of one string are \<open>p\<close>, \<open>tmp\<close>, \<open>len\<close>, the
  remaining bytes of the page at hand \<open>offset\<close>, the page \<open>pag\<close> and the table \<open>page\<close>;
  \<open>None\<close> ends the function with 0. The test \<open>p-len < 0\<close> of unsigned numbers never holds.
\<close>

record arg_copy =
  ac_p :: u32
  ac_offset :: u32
  ac_pag :: u32
  ac_page :: "nat \<Rightarrow> u32"

definition arg_page :: "arg_copy \<Rightarrow> (bool \<times> arg_copy) kernel" where
  "arg_page a =
     (let k = unat (ac_p a div PAGE_SIZE); a = a\<lparr>ac_offset := ac_p a mod PAGE_SIZE\<rparr> in
      if MAX_ARG_PAGES \<le> k then fault
      else if ac_page a k \<noteq> 0 then ret (True, a\<lparr>ac_pag := ac_page a k\<rparr>)
      else bind get_free_page (\<lambda>f.
        ret (f \<noteq> 0, a\<lparr>ac_pag := f, ac_page := (ac_page a)(k := f)\<rparr>)))"

definition arg_byte :: "u32 \<Rightarrow> arg_copy \<Rightarrow> (bool \<times> arg_copy) kernel" where
  "arg_byte tmp a =
     (let a = a\<lparr>ac_p := ac_p a - 1, ac_offset := ac_offset a - 1\<rparr> in
      bind (if ac_offset a <s 0 then arg_page a else ret (True, a)) (\<lambda>(ok, a).
      if \<not> ok then ret (False, a)
      else bind (get_fs_byte tmp) (\<lambda>c.
        seq (modify (\<lambda>s. s\<lparr>ram := store_byte (ac_pag a + ac_offset a) c (ram s)\<rparr>)) (ret (True, a)))))"

primrec arg_string :: "nat \<Rightarrow> u32 \<Rightarrow> arg_copy \<Rightarrow> (bool \<times> arg_copy) kernel" where
  "arg_string 0 tmp a = ret (True, a)"
| "arg_string (Suc len) tmp a =
     bind (arg_byte (tmp - 1) a) (\<lambda>(ok, a). if ok then arg_string len (tmp - 1) a else ret (False, a))"

primrec arg_strings :: "nat \<Rightarrow> u32 \<Rightarrow> arg_copy \<Rightarrow> (bool \<times> arg_copy) kernel" where
  "arg_strings 0 argv a = ret (True, a)"
| "arg_strings (Suc argc) argv a =
     bind (get_fs_long (argv + 4 * word_of_nat argc)) (\<lambda>tmp.
     if tmp = 0 then panic ''argc is wrong''
     else bind (skip_string tmp) (\<lambda>after.
       bind (arg_string (unat (after - tmp)) after a) (\<lambda>(ok, a).
       if ok then arg_strings argc argv a else ret (False, a))))"

definition copy_strings :: "nat \<Rightarrow> u32 \<Rightarrow> (nat \<Rightarrow> u32) \<Rightarrow> u32 \<Rightarrow> (u32 \<times> (nat \<Rightarrow> u32)) kernel" where
  "copy_strings argc argv page p =
     (if p = 0 then ret (0, page)
      else bind (arg_strings argc argv \<lparr>ac_p = p, ac_offset = 0, ac_pag = 0, ac_page = page\<rparr>) (\<lambda>(ok, a).
        ret (if ok then ac_p a else 0, ac_page a)))"

text \<open>
  \<open>read_file\<close> fills a buffer: the page at \<open>dst\<close>, or (\<open>None\<close>) a local structure, whose bytes
  are the second result. The first result is the error code.
\<close>

definition store_bytes :: "u32 option \<Rightarrow> nat \<Rightarrow> u8 list \<Rightarrow> kstate \<Rightarrow> kstate" where
  "store_bytes dst off bs s =
     (case dst of
        None \<Rightarrow> s
      | Some a \<Rightarrow> s\<lparr>ram := fold (\<lambda>(i, c). store_byte (a + word_of_nat (off + i)) c) (enumerate 0 bs) (ram s)\<rparr>)"

definition read_file_step ::
  "nat \<Rightarrow> u32 option \<Rightarrow> u32 \<times> u32 \<times> u8 list \<Rightarrow> (u32 \<times> u32 \<times> u8 list + u32 \<times> u8 list) kernel" where
  "read_file_step ino dst = (\<lambda>(off, len, got).
     if len = 0 then ret (Inr (0, got))
     else
       let coff = off AND 1023; n = min (1024 - coff) len in
       bind (idev ino) (\<lambda>dev.
       bind (bmap ino (drop_bit 10 off)) (\<lambda>nr.
       bind (bread dev nr) (\<lambda>b.
       case b of
         None \<Rightarrow> ret (Inr (- EIO, got))
       | Some bh \<Rightarrow>
           bind (gets (\<lambda>s. map (\<lambda>i. b_data (buffers s bh) (unat coff + i)) [0..<unat n])) (\<lambda>bs.
           seq (modify (store_bytes dst (length got) bs))
          (seq (brelse (Some bh))
               (ret (Inl (off + n, len - n, got @ bs)))))))))"

definition read_file :: "nat \<Rightarrow> u32 \<Rightarrow> u32 option \<Rightarrow> u32 \<Rightarrow> (u32 \<times> u8 list) kernel" where
  "read_file ino off dst len = loop (read_file_step ino dst) (off, len, [])"

section \<open>ELF files\<close>

record elf32_ehdr =
  e_ident :: "u8 list"
  e_type :: u16
  e_machine :: u16
  e_entry :: u32
  e_phoff :: u32
  e_phentsize :: u16
  e_phnum :: u16

record elf32_phdr =
  p_type :: u32
  p_offset :: u32
  p_vaddr :: u32
  p_filesz :: u32
  p_memsz :: u32

definition get_ehdr :: "u8 list \<Rightarrow> elf32_ehdr" where
  "get_ehdr bs =
     (let b = (\<lambda>i. bs ! i) in
      \<lparr>e_ident = take 16 bs, e_type = get16 b 16, e_machine = get16 b 18, e_entry = get32 b 24,
       e_phoff = get32 b 28, e_phentsize = get16 b 42, e_phnum = get16 b 44\<rparr>)"

definition get_phdr :: "u8 list \<Rightarrow> elf32_phdr" where
  "get_phdr bs =
     (let b = (\<lambda>i. bs ! i) in
      \<lparr>p_type = get32 b 0, p_offset = get32 b 4, p_vaddr = get32 b 8, p_filesz = get32 b 16, p_memsz = get32 b 20\<rparr>)"

definition bad_ehdr :: "elf32_ehdr \<Rightarrow> bool" where
  "bad_ehdr eh \<longleftrightarrow>
     take 4 (e_ident eh) \<noteq> [0x7f, 0x45, 0x4c, 0x46] \<or> e_type eh \<noteq> 2 \<or> e_machine eh \<noteq> 243 \<or>
     e_phnum eh = 0 \<or> e_phentsize eh \<noteq> 32 \<or> USER_LIMIT \<le> e_entry eh"

text \<open>One page of \<open>load_segment\<close>; \<open>Inr\<close> is the value returned.\<close>

definition load_page :: "nat \<Rightarrow> elf32_phdr \<Rightarrow> u32 \<Rightarrow> u32 \<Rightarrow> u32 option kernel" where
  "load_page ino ph pgd vaddr =
     bind get_free_page (\<lambda>page.
     let foff = p_offset ph + (vaddr - p_vaddr ph); file_end = p_offset ph + p_filesz ph in
     if page = 0 then ret (Some (- ENOMEM))
     else
       bind (if foff < file_end then read_file ino foff (Some page) (min (file_end - foff) PAGE_SIZE)
             else ret (0, [])) (\<lambda>(e, _).
       if e \<noteq> 0 then seq (free_page page) (ret (Some (- EIO)))
       else bind (put_page_pgdir pgd page vaddr) (\<lambda>r.
         if r = 0 then seq (free_page page) (ret (Some (- ENOMEM))) else ret None)))"

definition load_step :: "nat \<Rightarrow> elf32_phdr \<Rightarrow> u32 \<Rightarrow> u32 \<Rightarrow> u32 \<Rightarrow> (u32 + u32) kernel" where
  "load_step ino ph pgd vend vaddr =
     (if vaddr < vend
      then bind (load_page ino ph pgd vaddr) (\<lambda>r.
        ret (case r of None \<Rightarrow> Inl (vaddr + PAGE_SIZE) | Some e \<Rightarrow> Inr e))
      else ret (Inr 0))"

definition load_segment :: "nat \<Rightarrow> elf32_phdr \<Rightarrow> u32 \<Rightarrow> u32 kernel" where
  "load_segment ino ph pgd =
     loop (load_step ino ph pgd ((p_vaddr ph + p_memsz ph + 0xfff) AND 0xfffff000)) (p_vaddr ph AND 0xfffff000)"

section \<open>\<open>do_execve\<close>\<close>

text \<open>The argument pages are mapped one by one; a page that is mapped leaves the table.\<close>

primrec map_args :: "u32 \<Rightarrow> nat list \<Rightarrow> (nat \<Rightarrow> u32) \<Rightarrow> (bool \<times> (nat \<Rightarrow> u32)) kernel" where
  "map_args pgd [] page = ret (True, page)"
| "map_args pgd (i # is) page =
     (if page i = 0 then map_args pgd is page
      else bind (put_page_pgdir pgd (page i) (STACK_BASE + word_of_nat i * PAGE_SIZE)) (\<lambda>r.
        if r = 0 then ret (False, page) else map_args pgd is (page(i := 0))))"

definition free_args :: "(nat \<Rightarrow> u32) \<Rightarrow> unit kernel" where
  "free_args page = for_each [0..<MAX_ARG_PAGES] (\<lambda>i. whenk (page i \<noteq> 0) (free_page (page i)))"

definition exec_error2 :: "nat \<Rightarrow> (nat \<Rightarrow> u32) \<Rightarrow> u32 \<Rightarrow> u32 kernel" where
  "exec_error2 ino page retval = seq (iput_ino ino) (seq (free_args page) (ret retval))"

definition free_new :: "u32 \<Rightarrow> nat \<Rightarrow> (nat \<Rightarrow> u32) \<Rightarrow> u32 \<Rightarrow> u32 kernel" where
  "free_new new_pgdir ino page retval = bind (free_page_tables new_pgdir) (\<lambda>_. exec_error2 ino page retval)"

definition read_phdr :: "nat \<Rightarrow> elf32_ehdr \<Rightarrow> nat \<Rightarrow> (u32 \<times> elf32_phdr) kernel" where
  "read_phdr ino eh i =
     bind (read_file ino (e_phoff eh + word_of_nat i * 32) None 32) (\<lambda>(e, bs). ret (e, get_phdr bs))"

abbreviation PT_LOAD :: u32 where "PT_LOAD \<equiv> 1"

definition load_phdr :: "nat \<Rightarrow> elf32_ehdr \<Rightarrow> u32 \<Rightarrow> nat \<Rightarrow> u32 option kernel" where
  "load_phdr ino eh pgd i =
     bind (read_phdr ino eh i) (\<lambda>(e, ph).
     if e \<noteq> 0 then ret (Some (- EIO))
     else if p_type ph \<noteq> PT_LOAD then ret None
     else if USER_LIMIT \<le> p_vaddr ph \<or> STACK_BASE < p_vaddr ph + p_memsz ph then ret (Some (- ENOEXEC))
     else bind (load_segment ino ph pgd) (\<lambda>r. ret (if r \<noteq> 0 then Some (- ENOMEM) else None)))"

definition load_all :: "nat \<Rightarrow> elf32_ehdr \<Rightarrow> u32 \<Rightarrow> u32 kernel" where
  "load_all ino eh pgd = for_ret [0..<unat (e_phnum eh)] (load_phdr ino eh pgd) (ret 0)"

text \<open>The second pass over the program headers sets the bounds of code and data.\<close>

definition bounds_of :: "elf32_phdr \<Rightarrow> task_struct \<Rightarrow> task_struct" where
  "bounds_of ph t =
     (let v = p_vaddr ph; e = p_vaddr ph + p_memsz ph;
          t = (if v < start_code t then t\<lparr>start_code := v\<rparr> else t);
          t = (if end_code t < e then t\<lparr>end_code := e\<rparr> else t)
      in if end_data t < e then t\<lparr>end_data := e, t_brk := e\<rparr> else t)"

definition bounds_phdr :: "nat \<Rightarrow> elf32_ehdr \<Rightarrow> nat \<Rightarrow> unit option kernel" where
  "bounds_phdr ino eh i =
     bind (read_phdr ino eh i) (\<lambda>(e, ph).
     if e \<noteq> 0 then ret (Some ())
     else seq (whenk (p_type ph = PT_LOAD) (modify (upd_cur (bounds_of ph)))) (ret None))"

definition close_exec :: "nat \<Rightarrow> unit kernel" where
  "close_exec i =
     bind (gets (\<lambda>s. bit (close_on_exec (cur s)) i)) (\<lambda>b.
     whenk b (bind (sys_close (word_of_nat i)) (\<lambda>_. skip)))"

definition user_frame :: "u32 \<Rightarrow> u32 \<Rightarrow> trapframe" where
  "user_frame pc sp = (set_reg SP sp zero_trapframe)\<lparr>tf_mstatus := 0x6088, tf_mepc := pc, tf_from_user := 1\<rparr>"

definition may_exec :: "m_inode \<Rightarrow> kstate \<Rightarrow> bool" where
  "may_exec m s \<longleftrightarrow>
     (let t = cur s;
          i = (if euid t = i_uid m then drop_bit 6 (i_mode m)
               else if egid t = ucast (i_gid m) then drop_bit 3 (i_mode m) else i_mode m)
      in i AND 1 \<noteq> 0 \<or> i_mode m AND 0x49 \<noteq> 0 \<and> suser s)"

text \<open>
  From the point of no return on. \<open>entry\<close> is the address of \<open>ret_from_trap\<close>; a task that was
  a kernel task leaves its kernel stack for user mode.
\<close>

definition exec_commit :: "u32 \<Rightarrow> bool \<Rightarrow> nat \<Rightarrow> elf32_ehdr \<Rightarrow> u32 \<Rightarrow> u32 \<Rightarrow> nat \<Rightarrow> nat \<Rightarrow> u32 kernel" where
  "exec_commit entry from_kernel ino eh new_pgdir p argc envc =
     bind (gets (\<lambda>s. executable (cur s))) (\<lambda>x.
     seq (whenk (x \<noteq> None) (iput x))
    (seq (modify (upd_cur (\<lambda>t. t\<lparr>executable := None,
            t_sigaction := (\<lambda>i. if i < 32 then (t_sigaction t i)\<lparr>sa_handler := 0\<rparr> else t_sigaction t i)\<rparr>)))
    (seq (for_each [0..<NR_OPEN] close_exec)
    (seq (modify (upd_cur (\<lambda>t. t\<lparr>close_on_exec := 0\<rparr>)))
    (bind (gets (\<lambda>s. pgdir (cur s))) (\<lambda>old.
     bind (free_page_tables old) (\<lambda>_.
     seq (modify (upd_cur (\<lambda>t. t\<lparr>pgdir := new_pgdir\<rparr>)))
    (bind (create_tables p argc envc) (\<lambda>p.
     seq (modify (upd_cur (\<lambda>t. t\<lparr>start_code := 0, end_code := 0, end_data := 0, t_brk := 0\<rparr>)))
    (bind (for_ret [0..<unat (e_phnum eh)] (bounds_phdr ino eh) (ret ())) (\<lambda>_.
     seq (iput_ino ino)
    (seq (modify (upd_cur (\<lambda>t. t\<lparr>t_tf := user_frame (e_entry eh) p, start_stack := p AND 0xfffff000\<rparr>)))
    (if from_kernel
     then
       seq (modify (upd_cur (\<lambda>t. t\<lparr>kctx := (kctx t)\<lparr>kc_ra := entry, kc_sp := t_page t + PAGE_SIZE - TF_SIZE\<rparr>\<rparr>)))
           (\<lambda>n s. User s)
     else ret 0)))))))))))))"

definition exec_image ::
  "u32 \<Rightarrow> bool \<Rightarrow> nat \<Rightarrow> elf32_ehdr \<Rightarrow> u32 \<Rightarrow> u32 \<Rightarrow> nat \<Rightarrow> nat \<Rightarrow> u32 kernel" where
  "exec_image entry from_kernel ino eh argv envp argc envc =
     bind (copy_strings envc envp (\<lambda>_. 0) (PAGE_SIZE * 32 - 4)) (\<lambda>(p, page).
     bind (copy_strings argc argv page p) (\<lambda>(p, page).
     if p = 0 then exec_error2 ino page (- ENOMEM)
     else bind get_free_page (\<lambda>new_pgdir.
       if new_pgdir = 0 then exec_error2 ino page (- ENOMEM)
       else
         seq (modify (zero_page new_pgdir))
        (bind (map_args new_pgdir [0..<MAX_ARG_PAGES] page) (\<lambda>(ok, page).
         if \<not> ok then free_new new_pgdir ino page (- ENOMEM)
         else bind (load_all ino eh new_pgdir) (\<lambda>e.
           if e \<noteq> 0 then free_new new_pgdir ino page e
           else exec_commit entry from_kernel ino eh new_pgdir (p + STACK_BASE) argc envc))))))"

definition do_execve :: "u32 \<Rightarrow> u32 \<Rightarrow> u32 \<Rightarrow> u32 \<Rightarrow> u32 kernel" where
  "do_execve entry filename argv envp =
     bind (gets (\<lambda>s. pgdir (cur s) = 0)) (\<lambda>from_kernel.
     bind (namei filename) (\<lambda>r.
     case r of
       None \<Rightarrow> ret (- ENOENT)
     | Some ino \<Rightarrow>
         bind (count_args argv) (\<lambda>argc.
         bind (count_args envp) (\<lambda>envc.
         bind (gets (\<lambda>s. (inode_table s ino, may_exec (inode_table s ino) s))) (\<lambda>(m, may).
         if \<not> S_ISREG (i_mode m) then exec_error2 ino (\<lambda>_. 0) (- EACCES)
         else if \<not> may then exec_error2 ino (\<lambda>_. 0) (- ENOEXEC)
         else bind (read_file ino 0 None 52) (\<lambda>(e, bs).
           if e \<noteq> 0 then exec_error2 ino (\<lambda>_. 0) (- EACCES)
           else if bad_ehdr (get_ehdr bs) then exec_error2 ino (\<lambda>_. 0) (- ENOEXEC)
           else exec_image entry from_kernel ino (get_ehdr bs) argv envp argc envc))))))"

definition sys_execve :: "u32 \<Rightarrow> u32 \<Rightarrow> u32 \<Rightarrow> u32 \<Rightarrow> u32 kernel" where
  "sys_execve entry filename argv envp = do_execve entry filename argv envp"

end
