(* ===== verification/Trap.thy ===== *)
theory Trap
  imports Exec
begin

text \<open>
  Traps, \<^verbatim>\<open>kernel/traps.c\<close>, with the system call table of \<^verbatim>\<open>kernel/sys.c\<close>.
\<close>

text \<open>
  What the handlers rely on outside the C sources: the address of \<open>ret_from_trap\<close>, the byte read
  from a device port, the timer functions, and the bytes of padding in the structures copied to
  user memory.
\<close>

record machine =
  m_entry :: u32
  m_inb :: "u32 \<Rightarrow> u8"
  m_call :: "u32 \<Rightarrow> unit kernel"
  m_pad :: "nat \<Rightarrow> u8"

abbreviation NR_SYSCALLS :: nat where "NR_SYSCALLS \<equiv> 73"

definition sys_call_table :: "machine \<Rightarrow> (u32 \<Rightarrow> u32 \<Rightarrow> u32 \<Rightarrow> u32 kernel) list" where
  "sys_call_table M =
     [\<lambda>a b c. sys_setup a, \<lambda>a b c. sys_exit a, \<lambda>a b c. sys_fork (m_entry M), \<lambda>a b c. sys_read (m_inb M) a b c,
      \<lambda>a b c. sys_write (m_inb M) a b c, \<lambda>a b c. sys_open a b c, \<lambda>a b c. sys_close a,
      \<lambda>a b c. sys_waitpid a b c, \<lambda>a b c. sys_creat a b, \<lambda>a b c. sys_link a b,
      \<lambda>a b c. sys_unlink a, \<lambda>a b c. sys_execve (m_entry M) a b c, \<lambda>a b c. sys_chdir a, \<lambda>a b c. sys_time a,
      \<lambda>a b c. sys_mknod a b c, \<lambda>a b c. sys_chmod a b,
      \<lambda>a b c. sys_chown a b c, \<lambda>a b c. enosys, \<lambda>a b c. sys_stat (m_pad M) a b, \<lambda>a b c. sys_lseek a b c,
      \<lambda>a b c. sys_getpid, \<lambda>a b c. sys_mount a b c,
      \<lambda>a b c. sys_umount a, \<lambda>a b c. sys_setuid a, \<lambda>a b c. sys_getuid, \<lambda>a b c. sys_stime a,
      \<lambda>a b c. enosys, \<lambda>a b c. sys_alarm a,
      \<lambda>a b c. sys_fstat (m_pad M) a b, \<lambda>a b c. sys_pause, \<lambda>a b c. sys_utime a b, \<lambda>a b c. enosys,
      \<lambda>a b c. enosys, \<lambda>a b c. sys_access a b,
      \<lambda>a b c. sys_nice a, \<lambda>a b c. enosys, \<lambda>a b c. sys_sync, \<lambda>a b c. sys_kill a b, \<lambda>a b c. enosys,
      \<lambda>a b c. sys_mkdir a b,
      \<lambda>a b c. sys_rmdir a, \<lambda>a b c. sys_dup a, \<lambda>a b c. sys_pipe a, \<lambda>a b c. sys_times a, \<lambda>a b c. enosys,
      \<lambda>a b c. sys_brk a, \<lambda>a b c. sys_setgid a,
      \<lambda>a b c. sys_getgid, \<lambda>a b c. sys_signal a b c, \<lambda>a b c. sys_geteuid, \<lambda>a b c. sys_getegid,
      \<lambda>a b c. enosys, \<lambda>a b c. enosys,
      \<lambda>a b c. enosys, \<lambda>a b c. sys_ioctl (m_pad M 0) a b c, \<lambda>a b c. sys_fcntl a b c, \<lambda>a b c. enosys,
      \<lambda>a b c. sys_setpgid a b, \<lambda>a b c. enosys,
      \<lambda>a b c. sys_uname a, \<lambda>a b c. sys_umask a, \<lambda>a b c. sys_chroot a, \<lambda>a b c. sys_ustat a b,
      \<lambda>a b c. sys_dup2 a b, \<lambda>a b c. sys_getppid,
      \<lambda>a b c. sys_getpgrp, \<lambda>a b c. sys_setsid, \<lambda>a b c. sys_sigaction a b c, \<lambda>a b c. sys_sgetmask,
      \<lambda>a b c. sys_ssetmask a,
      \<lambda>a b c. sys_setreuid a b, \<lambda>a b c. sys_setregid a b, \<lambda>a b c. sys_sigreturn]"

definition die :: "unit kernel" where
  "die = exit_task 11"

text \<open>The causes differ in the message printed only.\<close>

definition exception_trap :: "tfp \<Rightarrow> unit kernel" where
  "exception_trap tf =
     bind (gets (\<lambda>s. tf_from_user (get_tf tf s))) (\<lambda>from_user.
     if from_user = 0 then panic ''kernel trap'' else die)"

definition do_syscall :: "machine \<Rightarrow> tfp \<Rightarrow> unit kernel" where
  "do_syscall M tf =
     bind (gets (\<lambda>s. tf_x (get_tf tf s) A7)) (\<lambda>nr.
     seq (modify (upd_tf tf (\<lambda>f. f\<lparr>tf_mepc := tf_mepc f + 4\<rparr>)))
    (bind (gets (get_tf tf)) (\<lambda>f.
     bind (if unat nr < NR_SYSCALLS then (sys_call_table M ! unat nr) (tf_x f A0) (tf_x f A1) (tf_x f A2)
           else ret (-1)) (\<lambda>r.
     modify (upd_tf tf (set_reg A0 r))))))"

text \<open>\<open>mtval\<close> is the value of the register of that name, the address of a page fault.\<close>

definition trap_handler :: "machine \<Rightarrow> u32 \<Rightarrow> tfp \<Rightarrow> unit kernel" where
  "trap_handler M mtval tf =
     bind (gets (\<lambda>s. (tf_mcause (get_tf tf s), tf_from_user (get_tf tf s)))) (\<lambda>(cause, from_user).
     if cause AND 0x80000000 \<noteq> 0 \<and> cause AND 0xff = 7
     then
       seq (modify (\<lambda>s. s\<lparr>jiffies := jiffies s + 1\<rparr>))
      (seq (do_timer (m_call M) from_user)
           (whenk (from_user \<noteq> 0) (do_signals tf)))
     else if cause = 8 \<or> cause = 11
     then seq (do_syscall M tf) (whenk (from_user \<noteq> 0) (do_signals tf))
     else if cause = 12 \<or> cause = 15
     then bind (gets (get_tf tf)) (\<lambda>f. page_fault_handler f mtval)
     else exception_trap tf)"

text \<open>
  The calls of \<open>do_exit\<close> below the handler end the run with \<open>Exit\<close>; \<open>with_exit\<close> continues such a
  run in \<open>do_exit\<close>.
\<close>

primrec with_exit :: "(kstate, 'a) prog \<Rightarrow> (u32 \<Rightarrow> kstate \<Rightarrow> (kstate, 'a) prog) \<Rightarrow> (kstate, 'a) prog" where
  "with_exit (Done a s) h = Done a s"
| "with_exit (Panic m s) h = Panic m s"
| "with_exit (Exit c s) h = h c s"
| "with_exit (Sleep s k) h = Sleep s (\<lambda>s'. with_exit (k s') h)"
| "with_exit (User s) h = User s"
| "with_exit (Fault s) h = Fault s"
| "with_exit NoFuel h = NoFuel"

definition trap :: "machine \<Rightarrow> u32 \<Rightarrow> tfp \<Rightarrow> unit kernel" where
  "trap M mtval tf = (\<lambda>n s. with_exit (trap_handler M mtval tf n s) (\<lambda>c. bind (do_exit c) (\<lambda>_. skip) n))"

end
