(* ===== verification/Descriptors.thy ===== *)
theory Descriptors
  imports Judgement Trap
begin

text \<open>
  The contract that ties the table of open files to the descriptors of the tasks: every file is
  counted exactly as often as a descriptor refers to it, exited tasks have no descriptors, process
  numbers are unique. Most of the kernel touches none of that; \<open>frame\<close> says so, and the rules
  of \<^verbatim>\<open>Judgement\<close> carry it through the code.
\<close>

section \<open>The invariant\<close>

text \<open>The descriptors that refer to file \<open>f\<close>, as pairs of a task and an index of its \<open>filp[]\<close>.\<close>

definition descriptors :: "kstate \<Rightarrow> nat \<Rightarrow> (nat \<times> nat) set" where
  "descriptors s f = {(j, fd) \<in> {..<NR_TASKS} \<times> {..<NR_OPEN}. task_used s j \<and> filp (tasks s j) fd = Some f}"

text \<open>A task that has not exited. Task 0 is never released.\<close>

definition alive :: "nat \<Rightarrow> kstate \<Rightarrow> bool" where
  "alive j s \<longleftrightarrow> task_used s j \<and> (j = 0 \<or> t_state (tasks s j) \<noteq> TASK_ZOMBIE)"

definition files_counted :: "kstate \<Rightarrow> bool" where
  "files_counted s \<longleftrightarrow> (\<forall>f. unat (f_count (file_table s f)) = card (descriptors s f))"

definition zombies_closed :: "kstate \<Rightarrow> bool" where
  "zombies_closed s \<longleftrightarrow> (\<forall>j fd. task_used s j \<and> \<not> alive j s \<and> fd < NR_OPEN \<longrightarrow> filp (tasks s j) fd = None)"

definition pids_unique :: "kstate \<Rightarrow> bool" where
  "pids_unique s \<longleftrightarrow> (\<forall>i j. task_used s i \<and> task_used s j \<and> pid (tasks s i) = pid (tasks s j) \<longrightarrow> i = j)"

definition slots_ok :: "kstate \<Rightarrow> bool" where
  "slots_ok s \<longleftrightarrow> task_used s 0 \<and> (\<forall>j. task_used s j \<longrightarrow> j < NR_TASKS)"

definition fd_inv :: "kstate \<Rightarrow> bool" where
  "fd_inv s \<longleftrightarrow> files_counted s \<and> zombies_closed s \<and> pids_unique s \<and> slots_ok s"

section \<open>The contract of a task\<close>

text \<open>The files only task \<open>j\<close> has open.\<close>

definition owns :: "nat \<Rightarrow> kstate \<Rightarrow> nat \<Rightarrow> bool" where
  "owns j s f \<longleftrightarrow> descriptors s f \<noteq> {} \<and> fst ` descriptors s f \<subseteq> {j}"

definition undisturbed :: "nat \<Rightarrow> kstate \<Rightarrow> kstate \<Rightarrow> bool" where
  "undisturbed j s t \<longleftrightarrow> (alive j s \<longrightarrow> alive j t \<and> filp (tasks t j) = filp (tasks s j) \<and>
     pid (tasks t j) = pid (tasks s j) \<and> (\<forall>f. owns j s f \<longrightarrow> owns j t f))"

definition fd_guar :: "nat \<Rightarrow> kstate \<Rightarrow> kstate \<Rightarrow> bool" where
  "fd_guar me s t \<longleftrightarrow> (\<forall>j. j \<noteq> me \<longrightarrow> undisturbed j s t)"

definition fd_rely :: "nat \<Rightarrow> kstate \<Rightarrow> kstate \<Rightarrow> bool" where
  "fd_rely me s t \<longleftrightarrow> task_used s me \<and> current t = me \<and> alive me t \<and> undisturbed me s t"

definition fd_ok :: "nat \<Rightarrow> kstate \<Rightarrow> bool" where
  "fd_ok me s \<longleftrightarrow> fd_inv s \<and> current s = me \<and> alive me s"

definition fd_contract :: "nat \<Rightarrow> kstate contract" where
  "fd_contract me = \<lparr>c_inv = fd_inv, c_next = (\<lambda>s. alive (current s) s), c_rely = fd_rely me, c_guar = fd_guar me,
     c_panic = (\<lambda>m. m \<noteq> ''Close: file count is 0''), c_leave = fd_ok me\<rparr>"

lemma fd_contract_sel [simp]:
  "c_inv (fd_contract me) = fd_inv" "c_next (fd_contract me) = (\<lambda>s. alive (current s) s)"
  "c_rely (fd_contract me) = fd_rely me" "c_guar (fd_contract me) = fd_guar me" "c_leave (fd_contract me) = fd_ok me"
  "c_panic (fd_contract me) m = (m \<noteq> ''Close: file count is 0'')"
  by (simp_all add: fd_contract_def)

lemma undisturbed_refl [simp]: "undisturbed j s s"
  by (simp add: undisturbed_def)

lemma undisturbed_trans: "undisturbed j s t \<Longrightarrow> undisturbed j t u \<Longrightarrow> undisturbed j s u"
  by (simp add: undisturbed_def)

lemma fd_rely_refl: "fd_ok me s \<Longrightarrow> fd_rely me s s"
  by (simp add: fd_rely_def fd_ok_def alive_def)

lemma fd_rely_trans: "fd_rely me s t \<Longrightarrow> fd_rely me t u \<Longrightarrow> fd_rely me s u"
  by (auto simp: fd_rely_def intro: undisturbed_trans)

lemma fd_guar_refl [simp]: "fd_guar me s s"
  by (simp add: fd_guar_def)

lemma fd_guar_trans: "fd_guar me s t \<Longrightarrow> fd_guar me t u \<Longrightarrow> fd_guar me s u"
  by (auto simp: fd_guar_def intro: undisturbed_trans)

text \<open>
  Two readings of \<open>keeps\<close>: \<open>steady\<close> code leaves the descriptors of its own task alone too,
  \<open>upholds\<close> is what every system call does.
\<close>

interpretation strict: upkeep "fd_contract me" "fd_ok me" "fd_rely me" for me
  by unfold_locales (auto intro: fd_guar_trans fd_rely_refl fd_rely_trans)

interpretation weak: upkeep "fd_contract me" "fd_ok me" "\<lambda>_ _. True" for me
  by unfold_locales (auto intro: fd_guar_trans)

abbreviation steady :: "nat \<Rightarrow> 'a kernel \<Rightarrow> bool" where
  "steady me f \<equiv> keeps (fd_contract me) (fd_ok me) (fd_rely me) f"

abbreviation upholds :: "nat \<Rightarrow> 'a kernel \<Rightarrow> bool" where
  "upholds me f \<equiv> keeps (fd_contract me) (fd_ok me) (\<lambda>_ _. True) f"

lemma steady_upholds: "steady me f \<Longrightarrow> upholds me f"
  by (rule keeps_weaken) auto

section \<open>Code that touches no descriptor\<close>

definition kept :: "task_struct \<Rightarrow> task_struct \<Rightarrow> bool" where
  "kept p q \<longleftrightarrow> filp q = filp p \<and> pid q = pid p \<and> (t_state q = TASK_ZOMBIE \<longrightarrow> t_state p = TASK_ZOMBIE)"

definition frame :: "kstate \<Rightarrow> kstate \<Rightarrow> bool" where
  "frame s t \<longleftrightarrow> current t = current s \<and> task_used t = task_used s \<and>
     (\<forall>j. task_used s j \<longrightarrow> kept (tasks s j) (tasks t j)) \<and>
     (\<forall>f. f_count (file_table t f) = f_count (file_table s f))"

lemma frame_descriptors: "frame s t \<Longrightarrow> descriptors t f = descriptors s f"
  by (auto simp: frame_def kept_def descriptors_def)

lemma frame_alive: "frame s t \<Longrightarrow> alive j s \<Longrightarrow> alive j t"
  by (auto simp: frame_def kept_def alive_def)

lemma frame_undisturbed: "frame s t \<Longrightarrow> undisturbed j s t"
  using frame_alive [of s t j] frame_descriptors [of s t]
  by (simp add: undisturbed_def owns_def) (simp add: frame_def kept_def alive_def)

lemma frame_inv:
  assumes "frame s t" "fd_inv s"
  shows "fd_inv t"
proof -
  have "\<not> alive j s" if "\<not> alive j t" for j using frame_alive [OF assms(1)] that by blast
  then have "zombies_closed t" using assms by (simp add: fd_inv_def zombies_closed_def frame_def kept_def)
  moreover have "pids_unique t" using assms by (auto simp: fd_inv_def pids_unique_def frame_def kept_def)
  ultimately show ?thesis using assms frame_descriptors [OF assms(1)]
    by (simp add: fd_inv_def files_counted_def slots_ok_def frame_def)
qed

lemma frame_ok: "frame s t \<Longrightarrow> fd_ok me s \<Longrightarrow> fd_ok me t"
  using frame_inv [of s t] frame_alive [of s t me] by (auto simp: fd_ok_def frame_def)

lemma frame_rely: "frame s t \<Longrightarrow> fd_ok me s \<Longrightarrow> fd_rely me s t"
  using frame_ok [of s t me] frame_undisturbed [of s t me] by (auto simp: fd_ok_def fd_rely_def alive_def)

lemma frame_guar: "frame s t \<Longrightarrow> fd_guar me s t"
  by (simp add: fd_guar_def frame_undisturbed)

lemma steady_modify:
  assumes "\<And>s. current s = me \<Longrightarrow> frame s (f s)"
  shows "steady me (modify f)"
proof (rule strict.keeps_modify)
  fix s assume ok: "fd_ok me s"
  then have "frame s (f s)" using assms by (simp add: fd_ok_def)
  then show "fd_ok me (f s) \<and> c_guar (fd_contract me) s (f s) \<and> fd_rely me s (f s)"
    using ok by (simp add: frame_ok frame_guar frame_rely)
qed

lemmas [upkeep_intros] = strict.keeps_control steady_modify

lemma kept_refl [simp]: "kept p p"
  by (simp add: kept_def)

lemma frame_refl [simp]: "frame s s"
  by (simp add: frame_def)

lemma frame_trans: "frame s t \<Longrightarrow> frame t u \<Longrightarrow> frame s u"
  by (auto simp: frame_def kept_def)

lemma frame_tables [simp]:
  "frame s (upd_buffer i bf t) = frame s t" "frame s (upd_inode i mf t) = frame s t"
  "frame s (upd_super i sf t) = frame s t" "frame s (upd_request i rf t) = frame s t"
  "frame s (upd_timer i tf t) = frame s t" "frame s (upd_tty i yf t) = frame s t"
  by (simp_all add: frame_def upd_defs)

lemma frame_fields [simp]:
  "frame s (ram_update x1 t) = frame s t" "frame s (mem_map_update x2 t) = frame s t"
  "frame s (last_task_used_math_update x3 t) = frame s t" "frame s (jiffies_update x4 t) = frame s t"
  "frame s (startup_time_update x5 t) = frame s t" "frame s (timer_list_update x6 t) = frame s t"
  "frame s (next_timer_update x7 t) = frame s t" "frame s (last_pid_update x8 t) = frame s t"
  "frame s (buffers_update x9 t) = frame s t" "frame s (nr_buffers_update x10 t) = frame s t"
  "frame s (hash_table_update x11 t) = frame s t" "frame s (free_list_update x12 t) = frame s t"
  "frame s (buffer_wait_update x13 t) = frame s t" "frame s (requests_update x14 t) = frame s t"
  "frame s (current_request_update x15 t) = frame s t" "frame s (request_fn_update x16 t) = frame s t"
  "frame s (wait_for_request_update x17 t) = frame s t" "frame s (rd_image_update x18 t) = frame s t"
  "frame s (rd_start_update x19 t) = frame s t" "frame s (rd_length_update x20 t) = frame s t"
  "frame s (inode_table_update x21 t) = frame s t" "frame s (last_inode_update x22 t) = frame s t"
  "frame s (super_blocks_update x23 t) = frame s t" "frame s (ROOT_DEV_update x24 t) = frame s t"
  "frame s (tty_table_update x25 t) = frame s t" "frame s (cr_flag_update x26 t) = frame s t"
  "frame s (uart_in_update x27 t) = frame s t" "frame s (io_log_update x28 t) = frame s t"
  "frame s (bucket_chain_update x29 t) = frame s t" "frame s (free_bucket_desc_update x30 t) = frame s t"
  by (simp_all add: frame_def)

lemma frame_upd_task [simp]: "frame s t \<Longrightarrow> (\<And>p. kept p (g p)) \<Longrightarrow> frame s (upd_task i g t)"
  by (rule frame_trans [of s t]) (simp_all add: frame_def upd_task_def)

lemma frame_upd_cur [simp]: "frame s t \<Longrightarrow> (\<And>p. kept p (g p)) \<Longrightarrow> frame s (upd_cur g t)"
  by (simp add: upd_cur_def)

lemma frame_upd_file [simp]: "frame s t \<Longrightarrow> (\<And>p. f_count (g p) = f_count p) \<Longrightarrow> frame s (upd_file i g t)"
  by (simp add: frame_def upd_file_def)

lemma frame_set_state [simp]: "frame s t \<Longrightarrow> v \<noteq> TASK_ZOMBIE \<Longrightarrow> frame s (set_state i v t)"
  by (simp add: set_state_def kept_def)

lemma frame_set_wait [simp]: "frame s (set_wait q p t) = frame s t"
  by (cases q) simp_all

lemma frame_wake_task [simp]: "frame s t \<Longrightarrow> frame s (wake_task p t)"
  by (simp add: wake_task_def split: option.split)

lemma frame_wake_up_state [simp]: "frame s t \<Longrightarrow> frame s (wake_up_state p t)"
  by (simp add: wake_up_state_def split: option.split)

section \<open>The scheduler\<close>

lemma frame_on_tasks: "(\<And>p. kept p (g p)) \<Longrightarrow> frame s (on_tasks g s)"
  by (simp add: frame_def on_tasks_def)

lemma kept_check_alarm: "kept p (check_alarm now p)"
  by (simp add: kept_def check_alarm_def Let_def)

lemma kept_recharge: "kept p (recharge_task p)"
  by (simp add: kept_def recharge_task_def)

text \<open>Choosing a task changes counters only, and the task chosen is one that may run.\<close>

lemma choose_task_loop:
  "slots_ok s \<Longrightarrow> safe (fd_contract me) s (\<lambda>nx t. frame s t \<and> alive nx t \<and> (nx = 0 \<or> runnable t nx))
     (loop_fuel k choose_task () n s)"
proof (induction k arbitrary: s)
  case 0
  show ?case by simp
next
  case (Suc k)
  obtain c nx where pick: "pick_task s = (c, nx)" by fastforce
  show ?case
  proof (cases "c = 0")
    case False
    then have "nx = 0 \<or> runnable s nx" using pick_task_cases(1) [OF pick] by auto
    moreover have "alive nx s" using calculation Suc.prems by (auto simp: alive_def slots_ok_def runnable_def)
    ultimately show ?thesis using False by (simp add: kexec choose_task_exec [OF pick])
  next
    case True
    let ?t = "on_tasks recharge_task s"
    have f: "frame s ?t" by (rule frame_on_tasks) (rule kept_recharge)
    have "slots_ok ?t" using Suc.prems by (simp add: slots_ok_def on_tasks_def)
    from Suc.IH [OF this] have "safe (fd_contract me) s (\<lambda>nx t. frame ?t t \<and> alive nx t \<and> (nx = 0 \<or> runnable t nx))
        (loop_fuel k choose_task () n ?t)"
      by (rule strict.safe_earlier) (simp add: frame_guar f)
    then have "safe (fd_contract me) s (\<lambda>nx t. frame s t \<and> alive nx t \<and> (nx = 0 \<or> runnable t nx))
        (loop_fuel k choose_task () n ?t)"
      by (rule safe_mono) (auto intro: frame_trans f)
    then show ?thesis using True by (simp add: kexec choose_task_exec [OF pick])
  qed
qed

lemma frame_current: "alive j (current_update g s) = alive j s" "fd_inv (current_update g s) = fd_inv s"
  "undisturbed j s (current_update g t) = undisturbed j s t" "undisturbed j (current_update g s) t = undisturbed j s t"
  by (simp_all add: alive_def fd_inv_def files_counted_def zombies_closed_def pids_unique_def slots_ok_def descriptors_def
      undisturbed_def owns_def)

lemma switch_to_safe:
  assumes "fd_inv s" "current s = me" "alive nx s" "nx = 0 \<or> runnable s nx"
  shows "safe (fd_contract me) s (\<lambda>_ t. fd_ok me t \<and> undisturbed me s t) (switch_to nx n s)"
  using assms by (auto simp: switch_to_def fd_ok_def fd_rely_def fd_guar_def frame_current)

lemma schedule_safe:
  assumes "fd_inv s" "current s = me"
  shows "safe (fd_contract me) s (\<lambda>_ t. fd_ok me t \<and> undisturbed me s t) (schedule n s)"
proof -
  let ?s = "on_tasks (check_alarm (jiffies s)) s"
  have f: "frame s ?s" by (rule frame_on_tasks) (rule kept_check_alarm)
  have "slots_ok ?s" using frame_inv [OF f assms(1)] by (simp add: fd_inv_def)
  from choose_task_loop [OF this]
  have "safe (fd_contract me) ?s (\<lambda>_ t. fd_ok me t \<and> undisturbed me s t)
     (bindp (loop choose_task () n ?s) (\<lambda>nx t. switch_to nx n t))"
    unfolding loop_def
  proof (rule strict.safe_bindp)
    fix nx t assume t: "frame ?s t \<and> alive nx t \<and> (nx = 0 \<or> runnable t nx)"
    then have ft: "frame s t" using f frame_trans by blast
    then have "fd_inv t" "current t = me" using assms frame_inv by (auto simp: frame_def)
    with t switch_to_safe [of t me nx n] show "safe (fd_contract me) t (\<lambda>_ u. fd_ok me u \<and> undisturbed me s u) (switch_to nx n t)"
      by (auto elim!: safe_mono intro: undisturbed_trans frame_undisturbed [OF ft])
  qed
  then have "safe (fd_contract me) s (\<lambda>_ t. fd_ok me t \<and> undisturbed me s t)
     (bindp (loop choose_task () n ?s) (\<lambda>nx t. switch_to nx n t))"
    by (rule strict.safe_earlier) (simp add: frame_guar f)
  then show ?thesis by (simp add: schedule_def seq_exec bind_exec check_signals_exec)
qed

lemma steady_schedule [upkeep_intros]: "steady me schedule"
proof (rule keepsI)
  fix n s assume ok: "fd_ok me s"
  then have "safe (fd_contract me) s (\<lambda>_ t. fd_ok me t \<and> undisturbed me s t) (schedule n s)"
    by (intro schedule_safe) (simp_all add: fd_ok_def)
  then show "safe (fd_contract me) s (\<lambda>_ t. fd_ok me t \<and> fd_rely me s t) (schedule n s)"
    by (rule safe_mono) (use ok in \<open>auto simp: fd_rely_def fd_ok_def alive_def\<close>)
qed

end
