(* ===== verification/Steady.thy ===== *)
theory Steady
  imports Descriptors
begin

text \<open>
  The operations of the kernel that leave descriptors, files' counts and the identity of tasks alone,
  even while other tasks run: memory management, block requests and the buffer cache. Each lemma is
  one application of the rules of \<^verbatim>\<open>Judgement\<close>, in the order of the code.
\<close>

lemmas frame_defs = kept_def set_ram_def set_map_def zero_page_def copy_page_def fill_request_def set_hash_def unlink_hash_def
  link_hash_def COPYBLK_def mark_dirty_def clear_inode_def touch_inode_def set_s_dev_def set_imap_def set_zmap_def
  set_entry_def dec_nlinks_def set_nlinks_def outb_def uart_putc_def put_write_def drop_last_def set_alarm_def
  change_speed_def flush_read_def flush_write_def close_on_exec_off_def raise_signal_def upd_sigaction_def store_bytes_def Let_def

section \<open>Memory management\<close>

lemma steady_memory_1 [upkeep_intros]:
  "steady me get_free_page" "steady me (map_at i)"
  unfolding get_free_page_def map_at_def
  by (intro upkeep_intros; simp add: frame_defs split: option.split prod.split)+

lemma steady_memory_2 [upkeep_intros]:
  "steady me (free_page a)" "steady me (put_page_pgdir a a' a'')"
  unfolding free_page_def put_page_pgdir_def
  by (intro upkeep_intros; simp add: frame_defs split: option.split prod.split)+

lemma steady_memory_3 [upkeep_intros]:
  "steady me (put_page a a')" "steady me (free_pt_entry a i)"
  unfolding put_page_def free_pt_entry_def
  by (intro upkeep_intros; simp add: frame_defs split: option.split prod.split)+

lemma steady_free_dir_entry [upkeep_intros]: "steady me (free_dir_entry a i)"
  unfolding free_dir_entry_def by (intro upkeep_intros; simp add: frame_defs split: option.split prod.split)

lemma steady_memory_5 [upkeep_intros]:
  "steady me (free_page_tables a)" "steady me (copy_pt_entry a a' i)"
  unfolding free_page_tables_def copy_pt_entry_def
  by (intro upkeep_intros; simp add: frame_defs split: option.split prod.split)+

lemma steady_copy_dir_entry [upkeep_intros]: "steady me (copy_dir_entry a a' i)"
  unfolding copy_dir_entry_def by (intro upkeep_intros; simp add: frame_defs split: option.split prod.split)

lemma steady_memory_7 [upkeep_intros]:
  "steady me (copy_page_tables a a')" "steady me uaccess_fault" "steady me (un_wp_page a)"
  "steady me (get_empty_page a)"
  unfolding copy_page_tables_def uaccess_fault_def un_wp_page_def get_empty_page_def
  by (intro upkeep_intros; simp add: frame_defs split: option.split prod.split)+

lemma steady_do_no_page [upkeep_intros]: "steady me (do_no_page a)"
  unfolding do_no_page_def by (intro upkeep_intros; simp add: frame_defs split: option.split prod.split)

lemma steady_do_wp_page [upkeep_intros]: "steady me (do_wp_page a)"
  unfolding do_wp_page_def by (intro upkeep_intros; simp add: frame_defs split: option.split prod.split)

lemma steady_memory_10 [upkeep_intros]:
  "steady me (page_fault_handler x a)" "steady me (verify_page a)"
  unfolding page_fault_handler_def verify_page_def
  by (intro upkeep_intros; simp add: frame_defs split: option.split prod.split)+

lemma steady_memory_11 [upkeep_intros]:
  "steady me (verify_area a a')" "steady me (get_fs_byte a)" "steady me (put_fs_byte c a)"
  "steady me (get_fs_long a)" "steady me (put_fs_long a a')" "steady me (get_fs_word a)"
  "steady me (put_fs_word h a)"
  unfolding verify_area_def get_fs_byte_def put_fs_byte_def get_fs_long_def put_fs_long_def get_fs_word_def
  put_fs_word_def
  by (intro upkeep_intros; simp add: frame_defs split: option.split prod.split)+

section \<open>Sleeping, timers and small calls\<close>

lemma steady_sched_1 [upkeep_intros]:
  "steady me sys_pause" "steady me (sleep_on x)" "steady me (interruptible_sleep_on x)"
  "steady me (wake_up x)" "steady me (sift_timer i)"
  unfolding sys_pause_def sleep_on_def interruptible_sleep_on_def wake_up_def sift_timer_def
  by (intro upkeep_intros; simp add: frame_defs split: option.split prod.split)+

lemma steady_add_timer [upkeep_intros]:
  assumes [upkeep_intros]: "\<And>x. steady me (a x)"
  shows "steady me (add_timer a b c)"
  unfolding add_timer_def by (intro upkeep_intros; simp add: frame_defs split: option.split prod.split)

lemma steady_run_timers [upkeep_intros]:
  assumes [upkeep_intros]: "\<And>x. steady me (a x)"
  shows "steady me (run_timers a)"
  unfolding run_timers_def by (intro upkeep_intros; simp add: frame_defs split: option.split prod.split)

lemma steady_do_timer [upkeep_intros]:
  assumes [upkeep_intros]: "\<And>x. steady me (a x)"
  shows "steady me (do_timer a b)"
  unfolding do_timer_def by (intro upkeep_intros; simp add: frame_defs split: option.split prod.split)

lemma steady_sched_2 [upkeep_intros]:
  "steady me sys_getpid" "steady me sys_getppid" "steady me sys_getuid" "steady me sys_geteuid"
  "steady me sys_getgid" "steady me sys_getegid" "steady me (sys_alarm a)" "steady me (sys_nice a)"
  unfolding sys_getpid_def sys_getppid_def sys_getuid_def sys_geteuid_def sys_getgid_def sys_getegid_def
  sys_alarm_def sys_nice_def
  by (intro upkeep_intros; simp add: frame_defs split: option.split prod.split)+

section \<open>Block devices\<close>

lemma steady_wait_while [upkeep_intros]: "steady me (wait_while x y)"
  unfolding wait_while_def by (intro upkeep_intros; simp add: frame_defs split: option.split prod.split)

lemma steady_blk_2 [upkeep_intros]:
  "steady me (lock_buffer i)" "steady me (unlock_buffer i)"
  unfolding lock_buffer_def unlock_buffer_def
  by (intro upkeep_intros; simp add: frame_defs split: option.split prod.split)+

lemma steady_blk_3 [upkeep_intros]:
  "steady me (end_request i c)" "steady me (rd_transfer i i' i'' a)"
  unfolding end_request_def rd_transfer_def
  by (intro upkeep_intros; simp add: frame_defs split: option.split prod.split)+

lemma steady_rd_request [upkeep_intros]: "steady me (rd_request i)"
  unfolding rd_request_def by (intro upkeep_intros; simp add: frame_defs split: option.split prod.split)

lemma steady_do_rd_request [upkeep_intros]: "steady me do_rd_request"
  unfolding do_rd_request_def by (intro upkeep_intros; simp add: frame_defs split: option.split prod.split)

lemma steady_blk_6 [upkeep_intros]:
  "steady me (call_request_fn i)" "steady me (place_step i i')"
  unfolding call_request_fn_def place_step_def
  by (intro upkeep_intros; simp add: frame_defs split: option.split prod.split)+

lemma steady_find_place [upkeep_intros]: "steady me (find_place i i')"
  unfolding find_place_def by (intro upkeep_intros; simp add: frame_defs split: option.split prod.split)

lemma steady_blk_8 [upkeep_intros]:
  "steady me (add_request i i')" "steady me (get_request a b i)"
  unfolding add_request_def get_request_def
  by (intro upkeep_intros; simp add: frame_defs split: option.split prod.split)+

lemma steady_make_request [upkeep_intros]: "steady me (make_request i a i')"
  unfolding make_request_def by (intro upkeep_intros; simp add: frame_defs split: option.split prod.split)

lemma steady_ll_rw_block [upkeep_intros]: "steady me (ll_rw_block a i)"
  unfolding ll_rw_block_def by (intro upkeep_intros; simp add: frame_defs split: option.split prod.split)

section \<open>Buffer cache\<close>

lemma steady_buffer_1 [upkeep_intros]:
  "steady me (wait_on_buffer i)" "steady me (remove_from_queues i)" "steady me (insert_into_queues i)"
  "steady me (find_step a a' p)"
  unfolding wait_on_buffer_def remove_from_queues_def insert_into_queues_def find_step_def
  by (intro upkeep_intros; simp add: frame_defs split: option.split prod.split)+

lemma steady_find_buffer [upkeep_intros]: "steady me (find_buffer a a')"
  unfolding find_buffer_def by (intro upkeep_intros; simp add: frame_defs split: option.split prod.split)

lemma steady_buffer_3 [upkeep_intros]:
  "steady me (get_hash_table a a')" "steady me (victim_step x)"
  unfolding get_hash_table_def victim_step_def
  by (intro upkeep_intros; simp add: frame_defs split: option.split prod.split)+

lemma steady_find_victim [upkeep_intros]: "steady me find_victim"
  unfolding find_victim_def by (intro upkeep_intros; simp add: frame_defs split: option.split prod.split)

lemma steady_clean_step [upkeep_intros]:
  assumes [upkeep_intros]: "\<And>x. steady me (a x)"
  shows "steady me (clean_step a b c)"
  unfolding clean_step_def by (intro upkeep_intros; simp add: frame_defs split: option.split prod.split)

lemma steady_take_buffer [upkeep_intros]: "steady me (take_buffer a a' i)"
  unfolding take_buffer_def by (intro upkeep_intros; simp add: frame_defs split: option.split prod.split)

lemma steady_getblk_step [upkeep_intros]:
  assumes [upkeep_intros]: "\<And>x. steady me (a x)"
  shows "steady me (getblk_step a b c d)"
  unfolding getblk_step_def by (intro upkeep_intros; simp add: frame_defs split: option.split prod.split)

lemma steady_getblk_with [upkeep_intros]:
  assumes [upkeep_intros]: "\<And>x. steady me (a x)"
  shows "steady me (getblk_with a b c)"
  unfolding getblk_with_def by (intro upkeep_intros; simp add: frame_defs split: option.split prod.split)

lemma steady_brelse_buf [upkeep_intros]: "steady me (brelse_buf i)"
  unfolding brelse_buf_def by (intro upkeep_intros; simp add: frame_defs split: option.split prod.split)

lemma steady_brelse [upkeep_intros]: "steady me (brelse p)"
  unfolding brelse_def by (intro upkeep_intros; simp add: frame_defs split: option.split prod.split)

lemma steady_bread_with [upkeep_intros]:
  assumes [upkeep_intros]: "\<And>x y. steady me (a x y)"
  shows "steady me (bread_with a b c)"
  unfolding bread_with_def by (intro upkeep_intros; simp add: frame_defs split: option.split prod.split)

end
