(* ===== verification/Steady_Fs.thy ===== *)
theory Steady_Fs
  imports Steady
begin

text \<open>
  The same for the file system: write-back, bitmaps, inodes, super blocks, path names, directories
  and the reading and writing of files.
\<close>

section \<open>Write-back and locks\<close>

lemma steady_sync_1 [upkeep_intros]:
  "steady me (wait_on_inode i)" "steady me (lock_inode i)" "steady me (unlock_inode i)"
  "steady me (lock_super i)" "steady me (free_super i)" "steady me (wait_on_super i)"
  unfolding wait_on_inode_def lock_inode_def unlock_inode_def lock_super_def free_super_def wait_on_super_def
  by (intro upkeep_intros; simp add: frame_defs split: option.split prod.split)+

lemma steady_get_super_step [upkeep_intros]: "steady me (get_super_step a i)"
  unfolding get_super_step_def by (intro upkeep_intros; simp add: frame_defs split: option.split prod.split)

lemma steady_get_super [upkeep_intros]: "steady me (get_super a)"
  unfolding get_super_def by (intro upkeep_intros; simp add: frame_defs split: option.split prod.split)

lemma steady_write_inode_with [upkeep_intros]:
  assumes [upkeep_intros]: "\<And>x y. steady me (a x y)"
  shows "steady me (write_inode_with a b)"
  unfolding write_inode_with_def by (intro upkeep_intros; simp add: frame_defs split: option.split prod.split)

lemma steady_sync_inodes_with [upkeep_intros]:
  assumes [upkeep_intros]: "\<And>x y. steady me (a x y)"
  shows "steady me (sync_inodes_with a)"
  unfolding sync_inodes_with_def by (intro upkeep_intros; simp add: frame_defs split: option.split prod.split)

lemma steady_flush_buffers [upkeep_intros]: "steady me (flush_buffers a)"
  unfolding flush_buffers_def by (intro upkeep_intros; simp add: frame_defs split: option.split prod.split)

lemma steady_sync_dev_with [upkeep_intros]:
  assumes [upkeep_intros]: "\<And>x y. steady me (a x y)"
  shows "steady me (sync_dev_with a b)"
  unfolding sync_dev_with_def by (intro upkeep_intros; simp add: frame_defs split: option.split prod.split)

lemma steady_getblk_rec [upkeep_intros]: "steady me (getblk_rec d a b)"
proof (induction d arbitrary: a b)
  case 0
  show ?case by (simp add: keeps_def)
next
  case (Suc d)
  show ?case unfolding getblk_rec.simps by (intro upkeep_intros Suc)
qed

lemma steady_getblk [upkeep_intros]: "steady me (getblk a b)"
  using steady_getblk_rec [of me] by (simp add: getblk_def keeps_def)

lemma steady_sync_5 [upkeep_intros]:
  "steady me (bread a a')" "steady me (write_inode i)" "steady me sync_inodes" "steady me (sync_dev a)"
  unfolding bread_def write_inode_def sync_inodes_def sync_dev_def
  by (intro upkeep_intros; simp add: frame_defs split: option.split prod.split)+

lemma steady_sync_6 [upkeep_intros]:
  "steady me sys_sync" "steady me (invalidate_buffers a)" "steady me (invalidate_inodes a)"
  "steady me (breada a a' x)"
  unfolding sys_sync_def invalidate_buffers_def invalidate_inodes_def breada_def
  by (intro upkeep_intros; simp add: frame_defs split: option.split prod.split)+

lemma steady_start_reads [upkeep_intros]: "steady me (start_reads a b)"
  by (induction b arbitrary: a) (auto intro!: upkeep_intros simp: frame_defs)

lemma steady_copy_blocks [upkeep_intros]: "steady me (copy_blocks a b)"
  by (induction b arbitrary: a) (auto intro!: upkeep_intros simp: frame_defs)

lemma steady_bread_page [upkeep_intros]: "steady me (bread_page a a' x)"
  unfolding bread_page_def by (intro upkeep_intros; simp add: frame_defs split: option.split prod.split)

section \<open>Bitmaps\<close>

lemma steady_bitmap_1 [upkeep_intros]:
  "steady me (clear_map_bit i i')" "steady me (set_map_bit i i')"
  unfolding clear_map_bit_def set_map_bit_def
  by (intro upkeep_intros; simp add: frame_defs split: option.split prod.split)+

lemma steady_free_zone_bit [upkeep_intros]: "steady me (free_zone_bit i a)"
  unfolding free_zone_bit_def by (intro upkeep_intros; simp add: frame_defs split: option.split prod.split)

lemma steady_bitmap_3 [upkeep_intros]:
  "steady me (free_block a a')" "steady me (fresh_block a a')"
  unfolding free_block_def fresh_block_def
  by (intro upkeep_intros; simp add: frame_defs split: option.split prod.split)+

lemma steady_bitmap_4 [upkeep_intros]:
  "steady me (new_block a)" "steady me (free_inode i)"
  unfolding new_block_def free_inode_def
  by (intro upkeep_intros; simp add: frame_defs split: option.split prod.split)+

section \<open>Inodes\<close>

lemma steady_inode_1 [upkeep_intros]:
  "steady me (get_inode i)" "steady me (idev i)"
  unfolding get_inode_def idev_def
  by (intro upkeep_intros; simp add: frame_defs split: option.split prod.split)+

lemma steady_inode_2 [upkeep_intros]:
  "steady me (zone_of i i' b)" "steady me (indirect i a i' b)"
  unfolding zone_of_def indirect_def
  by (intro upkeep_intros; simp add: frame_defs split: option.split prod.split)+

lemma steady_bmap_create [upkeep_intros]: "steady me (bmap_create i a b)"
  unfolding bmap_create_def by (intro upkeep_intros; simp add: frame_defs split: option.split prod.split)

lemma steady_inode_4 [upkeep_intros]:
  "steady me (bmap i a)" "steady me (create_block i a)"
  unfolding bmap_def create_block_def
  by (intro upkeep_intros; simp add: frame_defs split: option.split prod.split)+

lemma steady_free_entries [upkeep_intros]:
  assumes [upkeep_intros]: "\<And>x. steady me (b x)"
  shows "steady me (free_entries a b)"
  unfolding free_entries_def by (intro upkeep_intros; simp add: frame_defs split: option.split prod.split)

lemma steady_free_indirect [upkeep_intros]:
  assumes [upkeep_intros]: "\<And>x. steady me (a x)"
  shows "steady me (free_indirect a b c)"
  unfolding free_indirect_def by (intro upkeep_intros; simp add: frame_defs split: option.split prod.split)

lemma steady_free_ind [upkeep_intros]: "steady me (free_ind a a')"
  unfolding free_ind_def by (intro upkeep_intros; simp add: frame_defs split: option.split prod.split)

lemma steady_inode_6 [upkeep_intros]:
  "steady me (free_dind a a')" "steady me (free_direct i i')"
  unfolding free_dind_def free_direct_def
  by (intro upkeep_intros; simp add: frame_defs split: option.split prod.split)+

lemma steady_truncate [upkeep_intros]: "steady me (Inode.truncate i)"
  unfolding Inode.truncate_def by (intro upkeep_intros; simp add: frame_defs split: option.split prod.split)

lemma steady_inode_8 [upkeep_intros]:
  "steady me (iput_step i u)" "steady me (iput_pipe i)"
  unfolding iput_step_def iput_pipe_def
  by (intro upkeep_intros; simp add: frame_defs split: option.split prod.split)+

lemma steady_iput_ino [upkeep_intros]: "steady me (iput_ino i)"
  unfolding iput_ino_def by (intro upkeep_intros; simp add: frame_defs split: option.split prod.split)

lemma steady_inode_10 [upkeep_intros]:
  "steady me (iput p)" "steady me (flush_step i u)"
  unfolding iput_def flush_step_def
  by (intro upkeep_intros; simp add: frame_defs split: option.split prod.split)+

lemma steady_empty_step [upkeep_intros]: "steady me (empty_step u)"
  unfolding empty_step_def by (intro upkeep_intros; simp add: frame_defs split: option.split prod.split)

lemma steady_get_empty_inode [upkeep_intros]: "steady me get_empty_inode"
  unfolding get_empty_inode_def by (intro upkeep_intros; simp add: frame_defs split: option.split prod.split)

lemma steady_inode_13 [upkeep_intros]:
  "steady me get_pipe_inode" "steady me (read_inode i)"
  unfolding get_pipe_inode_def read_inode_def
  by (intro upkeep_intros; simp add: frame_defs split: option.split prod.split)+

lemma steady_iget_step [upkeep_intros]: "steady me (iget_step i x)"
  unfolding iget_step_def by (intro upkeep_intros; simp add: frame_defs split: option.split prod.split)

lemma steady_inode_15 [upkeep_intros]:
  "steady me (iget a a')" "steady me (new_inode a)"
  unfolding iget_def new_inode_def
  by (intro upkeep_intros; simp add: frame_defs split: option.split prod.split)+

section \<open>Super blocks\<close>

lemma steady_release_maps [upkeep_intros]: "steady me (release_maps i)"
  unfolding release_maps_def by (intro upkeep_intros; simp add: frame_defs split: option.split prod.split)

lemma steady_put_super [upkeep_intros]: "steady me (put_super a)"
  unfolding put_super_def by (intro upkeep_intros; simp add: frame_defs split: option.split prod.split)

lemma steady_super_3 [upkeep_intros]:
  "steady me (check_disk_change a)" "steady me (fail_super i)"
  unfolding check_disk_change_def fail_super_def
  by (intro upkeep_intros; simp add: frame_defs split: option.split prod.split)+

lemma steady_read_maps [upkeep_intros]:
  assumes "\<And>i b s. frame s (a i b s)"
  shows "steady me (read_maps a b c d)"
  by (induction c arbitrary: d) (auto intro!: upkeep_intros simp: assms)

lemma steady_load_super [upkeep_intros]: "steady me (load_super i a)"
  unfolding load_super_def by (intro upkeep_intros; simp add: frame_defs split: option.split prod.split)

lemma steady_super_5 [upkeep_intros]:
  "steady me (read_super a)" "steady me (read_all_bits x i)"
  unfolding read_super_def read_all_bits_def
  by (intro upkeep_intros; simp add: frame_defs split: option.split prod.split)+

section \<open>Path names\<close>

lemma steady_permission [upkeep_intros]: "steady me (permission i a)"
  unfolding permission_def by (intro upkeep_intros; simp add: frame_defs split: option.split prod.split)

lemma steady_match_bytes [upkeep_intros]: "steady me (match_bytes a b c d)"
  by (induction a arbitrary: b c d) (auto intro!: upkeep_intros simp: frame_defs)

lemma steady_match [upkeep_intros]: "steady me (match a a' x)"
  unfolding match_def by (intro upkeep_intros; simp add: frame_defs split: option.split prod.split)

lemma steady_namei_3 [upkeep_intros]:
  "steady me (find_entry_step i a a' a'' x)" "steady me (dotdot i a)" "steady me (is_dotdot a a')"
  unfolding find_entry_step_def dotdot_def is_dotdot_def
  by (intro upkeep_intros; simp add: frame_defs split: option.split prod.split)+

lemma steady_namei_4 [upkeep_intros]:
  "steady me (find_entry i a a')" "steady me (write_name a a' x)"
  unfolding find_entry_def write_name_def
  by (intro upkeep_intros; simp add: frame_defs split: option.split prod.split)+

lemma steady_use_slot [upkeep_intros]: "steady me (use_slot i a a' i' i'' a'')"
  unfolding use_slot_def by (intro upkeep_intros; simp add: frame_defs split: option.split prod.split)

lemma steady_add_entry_step [upkeep_intros]: "steady me (add_entry_step i a a' x)"
  unfolding add_entry_step_def by (intro upkeep_intros; simp add: frame_defs split: option.split prod.split)

lemma steady_namei_7 [upkeep_intros]:
  "steady me (add_entry i a a')" "steady me (scan_step x)"
  unfolding add_entry_def scan_step_def
  by (intro upkeep_intros; simp add: frame_defs split: option.split prod.split)+

lemma steady_get_dir_step [upkeep_intros]: "steady me (get_dir_step x)"
  unfolding get_dir_step_def by (intro upkeep_intros; simp add: frame_defs split: option.split prod.split)

lemma steady_namei_9 [upkeep_intros]:
  "steady me (get_dir a)" "steady me (base_step x)"
  unfolding get_dir_def base_step_def
  by (intro upkeep_intros; simp add: frame_defs split: option.split prod.split)+

lemma steady_dir_namei [upkeep_intros]: "steady me (dir_namei a)"
  unfolding dir_namei_def by (intro upkeep_intros; simp add: frame_defs split: option.split prod.split)

lemma steady_namei_11 [upkeep_intros]:
  "steady me (namei a)" "steady me (put_ret i x)"
  unfolding namei_def put_ret_def
  by (intro upkeep_intros; simp add: frame_defs split: option.split prod.split)+

lemma steady_namei_12 [upkeep_intros]:
  "steady me (create_file i a a' a'')" "steady me (open_existing i x a)"
  unfolding create_file_def open_existing_def
  by (intro upkeep_intros; simp add: frame_defs split: option.split prod.split)+

lemma steady_open_namei [upkeep_intros]: "steady me (open_namei a a' a'')"
  unfolding open_namei_def by (intro upkeep_intros; simp add: frame_defs split: option.split prod.split)

section \<open>Directories\<close>

lemma steady_with_dir [upkeep_intros]:
  assumes [upkeep_intros]: "\<And>x y z. steady me (b x y z)"
  shows "steady me (with_dir a b)"
  unfolding with_dir_def by (intro upkeep_intros; simp add: frame_defs split: option.split prod.split)

lemma steady_dirops_1 [upkeep_intros]:
  "steady me (inum i)" "steady me (store_entry x h)"
  unfolding inum_def store_entry_def
  by (intro upkeep_intros; simp add: frame_defs split: option.split prod.split)+

lemma steady_mknod_at [upkeep_intros]: "steady me (mknod_at a a' i a'' a''')"
  unfolding mknod_at_def by (intro upkeep_intros; simp add: frame_defs split: option.split prod.split)

lemma steady_dirops_3 [upkeep_intros]:
  "steady me (sys_mknod a a' a'')" "steady me (mkdir_fill a i a' a'' i' i'')"
  unfolding sys_mknod_def mkdir_fill_def
  by (intro upkeep_intros; simp add: frame_defs split: option.split prod.split)+

lemma steady_mkdir_at [upkeep_intros]: "steady me (mkdir_at a i a' a'')"
  unfolding mkdir_at_def by (intro upkeep_intros; simp add: frame_defs split: option.split prod.split)

lemma steady_dirops_5 [upkeep_intros]:
  "steady me (sys_mkdir a a')" "steady me (empty_dir_step i a x)"
  unfolding sys_mkdir_def empty_dir_step_def
  by (intro upkeep_intros; simp add: frame_defs split: option.split prod.split)+

lemma steady_dirops_6 [upkeep_intros]:
  "steady me (empty_dir i)" "steady me (fail_two i i' i'' a)" "steady me (rmdir_do i i' x)"
  unfolding empty_dir_def fail_two_def rmdir_do_def
  by (intro upkeep_intros; simp add: frame_defs split: option.split prod.split)+

lemma steady_rmdir_at [upkeep_intros]: "steady me (rmdir_at i a a')"
  unfolding rmdir_at_def by (intro upkeep_intros; simp add: frame_defs split: option.split prod.split)

lemma steady_dirops_8 [upkeep_intros]:
  "steady me (sys_rmdir a)" "steady me (unlink_do i i' x)"
  unfolding sys_rmdir_def unlink_do_def
  by (intro upkeep_intros; simp add: frame_defs split: option.split prod.split)+

lemma steady_unlink_at [upkeep_intros]: "steady me (unlink_at i a a')"
  unfolding unlink_at_def by (intro upkeep_intros; simp add: frame_defs split: option.split prod.split)

lemma steady_dirops_10 [upkeep_intros]:
  "steady me (sys_unlink a)" "steady me (link_at i i' a a')"
  unfolding sys_unlink_def link_at_def
  by (intro upkeep_intros; simp add: frame_defs split: option.split prod.split)+

lemma steady_dirops_11 [upkeep_intros]:
  "steady me (sys_link a a')" "steady me (sys_umount a)" "steady me (sys_mount a a' a'')"
  unfolding sys_link_def sys_umount_def sys_mount_def
  by (intro upkeep_intros; simp add: frame_defs split: option.split prod.split)+

end
