(* ===== verification/Steady_Calls.thy ===== *)
theory Steady_Calls
  imports Steady_Fs
begin

text \<open>
  The same for terminals, signals and those system calls that neither open nor close files nor
  create or end tasks.
\<close>

section \<open>Terminals\<close>

lemma frame_tty_intr [simp]: "frame s (tty_intr t bits s)"
  by (simp add: frame_def tty_intr_def signal_group_def kept_def Let_def)

lemma steady_con_write_step [upkeep_intros]: "steady me (con_write_step i u)"
  unfolding con_write_step_def by (intro upkeep_intros; simp add: frame_defs split: option.split prod.split)

lemma steady_con_write [upkeep_intros]: "steady me (con_write i)"
  unfolding con_write_def by (intro upkeep_intros; simp add: frame_defs split: option.split prod.split)

lemma steady_tty_3 [upkeep_intros]:
  "steady me (kill_step i u)" "steady me (erase_char i)" "steady me (store_char i c)"
  unfolding kill_step_def erase_char_def store_char_def
  by (intro upkeep_intros; simp add: frame_defs split: option.split prod.split)+

lemma steady_cook_char [upkeep_intros]: "steady me (cook_char i c)"
  unfolding cook_char_def by (intro upkeep_intros; simp add: frame_defs split: option.split prod.split)

lemma steady_cook_step [upkeep_intros]: "steady me (cook_step i u)"
  unfolding cook_step_def by (intro upkeep_intros; simp add: frame_defs split: option.split prod.split)

lemma steady_copy_to_cooked [upkeep_intros]: "steady me (copy_to_cooked i)"
  unfolding copy_to_cooked_def by (intro upkeep_intros; simp add: frame_defs split: option.split prod.split)

lemma steady_tty_7 [upkeep_intros]:
  "steady me (do_tty_interrupt i)" "steady me (poll_step u)"
  unfolding do_tty_interrupt_def poll_step_def
  by (intro upkeep_intros; simp add: frame_defs split: option.split prod.split)+

lemma steady_con_poll [upkeep_intros]: "steady me con_poll"
  unfolding con_poll_def by (intro upkeep_intros; simp add: frame_defs split: option.split prod.split)

lemma steady_poll_while [upkeep_intros]: "steady me (poll_while x)"
  unfolding poll_while_def by (intro upkeep_intros; simp add: frame_defs split: option.split prod.split)

lemma steady_tty_10 [upkeep_intros]:
  "steady me wait_for_keypress" "steady me (sleep_if_full i)" "steady me (wait_line i)"
  "steady me (read_step i a x)"
  unfolding wait_for_keypress_def sleep_if_full_def wait_line_def read_step_def
  by (intro upkeep_intros; simp add: frame_defs split: option.split prod.split)+

lemma steady_tty_read_step [upkeep_intros]: "steady me (tty_read_step i a a' a'' a''' x)"
  unfolding tty_read_step_def by (intro upkeep_intros; simp add: frame_defs split: option.split prod.split)

lemma steady_tty_12 [upkeep_intros]:
  "steady me (tty_read a a' a'')" "steady me (write_step i a x)"
  unfolding tty_read_def write_step_def
  by (intro upkeep_intros; simp add: frame_defs split: option.split prod.split)+

lemma steady_tty_write_step [upkeep_intros]: "steady me (tty_write_step i a x)"
  unfolding tty_write_step_def by (intro upkeep_intros; simp add: frame_defs split: option.split prod.split)

lemma steady_tty_write [upkeep_intros]: "steady me (tty_write a a' a'')"
  unfolding tty_write_def by (intro upkeep_intros; simp add: frame_defs split: option.split prod.split)

section \<open>Terminal control\<close>

lemma steady_put_bytes [upkeep_intros]: "steady me (put_bytes a x)"
  unfolding put_bytes_def by (intro upkeep_intros; simp add: frame_defs split: option.split prod.split)

lemma steady_get_bytes [upkeep_intros]: "steady me (get_bytes a b)"
  by (induction b arbitrary: a) (auto intro!: upkeep_intros simp: frame_defs)

lemma steady_tty_ioctl_2 [upkeep_intros]:
  "steady me (get_termios i a)" "steady me (set_termios i a)" "steady me (get_termio c i a)"
  "steady me (set_termio i a)"
  unfolding get_termios_def set_termios_def get_termio_def set_termio_def
  by (intro upkeep_intros; simp add: frame_defs split: option.split prod.split)+

lemma steady_tty_ioctl_cmd [upkeep_intros]: "steady me (tty_ioctl_cmd c i a a')"
  unfolding tty_ioctl_cmd_def by (intro upkeep_intros; simp add: frame_defs split: option.split prod.split)

lemma steady_tty_ioctl [upkeep_intros]: "steady me (tty_ioctl c a a' a'')"
  unfolding tty_ioctl_def by (intro upkeep_intros; simp add: frame_defs split: option.split prod.split)

section \<open>Files and pipes\<close>

lemma steady_files_1 [upkeep_intros]:
  "steady me (get_file i)" "steady me (copy_out p i a i')" "steady me (copy_in i i' a i'')"
  unfolding get_file_def copy_out_def copy_in_def
  by (intro upkeep_intros; simp add: frame_defs split: option.split prod.split)+

lemma steady_file_read_step [upkeep_intros]: "steady me (file_read_step i i' x)"
  unfolding file_read_step_def by (intro upkeep_intros; simp add: frame_defs split: option.split prod.split)

lemma steady_files_3 [upkeep_intros]:
  "steady me (file_read i i' a a')" "steady me (file_write_step i a a' x)"
  unfolding file_read_def file_write_step_def
  by (intro upkeep_intros; simp add: frame_defs split: option.split prod.split)+

lemma steady_files_4 [upkeep_intros]:
  "steady me (file_write i i' a a')" "steady me (advance i a)"
  unfolding file_write_def advance_def
  by (intro upkeep_intros; simp add: frame_defs split: option.split prod.split)+

lemma steady_block_write_step [upkeep_intros]: "steady me (block_write_step a i a' x)"
  unfolding block_write_step_def by (intro upkeep_intros; simp add: frame_defs split: option.split prod.split)

lemma steady_files_6 [upkeep_intros]:
  "steady me (block_write a i a' a'')" "steady me (block_read_step a i a' x)"
  unfolding block_write_def block_read_step_def
  by (intro upkeep_intros; simp add: frame_defs split: option.split prod.split)+

lemma steady_files_7 [upkeep_intros]:
  "steady me (block_read a i a' a'')" "steady me (rw_ttyx a a' a'' a''')"
  unfolding block_read_def rw_ttyx_def
  by (intro upkeep_intros; simp add: frame_defs split: option.split prod.split)+

lemma steady_files_8 [upkeep_intros]:
  "steady me (rw_tty a a' a'' a''')" "steady me (rw_port_step x a y)"
  unfolding rw_tty_def rw_port_step_def
  by (intro upkeep_intros; simp add: frame_defs split: option.split prod.split)+

lemma steady_rw_port [upkeep_intros]: "steady me (rw_port x a i a' a'')"
  unfolding rw_port_def by (intro upkeep_intros; simp add: frame_defs split: option.split prod.split)

lemma steady_rw_memory [upkeep_intros]: "steady me (rw_memory x a a' i a'' a''')"
  unfolding rw_memory_def by (intro upkeep_intros; simp add: frame_defs split: option.split prod.split)

lemma steady_files_11 [upkeep_intros]:
  "steady me (rw_char x a a' i a'' a''')" "steady me (pipe_out i a a' i')" "steady me (pipe_in i a a' i')"
  "steady me (pipe_wait y i u)"
  unfolding rw_char_def pipe_out_def pipe_in_def pipe_wait_def
  by (intro upkeep_intros; simp add: frame_defs split: option.split prod.split)+

lemma steady_read_pipe_step [upkeep_intros]: "steady me (read_pipe_step i a x)"
  unfolding read_pipe_step_def by (intro upkeep_intros; simp add: frame_defs split: option.split prod.split)

lemma steady_files_13 [upkeep_intros]:
  "steady me (read_pipe i a a')" "steady me (write_pipe_step i a x)"
  unfolding read_pipe_def write_pipe_step_def
  by (intro upkeep_intros; simp add: frame_defs split: option.split prod.split)+

lemma steady_files_14 [upkeep_intros]:
  "steady me (write_pipe i a a')" "steady me (set_pos i a)"
  unfolding write_pipe_def set_pos_def
  by (intro upkeep_intros; simp add: frame_defs split: option.split prod.split)+

lemma steady_files_15 [upkeep_intros]:
  "steady me (sys_lseek a a' a'')" "steady me (sys_read x a a' a'')" "steady me (sys_write x a a' a'')"
  unfolding sys_lseek_def sys_read_def sys_write_def
  by (intro upkeep_intros; simp add: frame_defs split: option.split prod.split)+

section \<open>\<open>open.c\<close> and \<open>stat.c\<close>\<close>

lemma steady_open_1 [upkeep_intros]:
  "steady me (sys_ustat a a')" "steady me (sys_utime a a')" "steady me (sys_access a a')"
  "steady me (sys_chdir a)" "steady me (sys_chroot a)" "steady me (sys_chmod a a')"
  "steady me (sys_chown a a' a'')" "steady me (open_tty i)"
  unfolding sys_ustat_def sys_utime_def sys_access_def sys_chdir_def sys_chroot_def sys_chmod_def
  sys_chown_def open_tty_def
  by (intro upkeep_intros; simp add: frame_defs split: option.split prod.split)+

lemma steady_cp_stat [upkeep_intros]: "steady me (cp_stat x i a)"
  unfolding cp_stat_def by (intro upkeep_intros; simp add: frame_defs split: option.split prod.split)

lemma steady_open_3 [upkeep_intros]:
  "steady me (sys_stat x a a')" "steady me (sys_fstat x a a')" "steady me (sys_ioctl c a a' a'')"
  unfolding sys_stat_def sys_fstat_def sys_ioctl_def
  by (intro upkeep_intros; simp add: frame_defs split: option.split prod.split)+

section \<open>Processes\<close>

lemma steady_pid_step [upkeep_intros]: "steady me (pid_step u)"
  unfolding pid_step_def by (intro upkeep_intros; simp add: frame_defs split: option.split prod.split)

lemma steady_process_2 [upkeep_intros]:
  "steady me find_empty_process" "steady me (send_sig a p b)" "steady me kill_session"
  unfolding find_empty_process_def send_sig_def kill_session_def
  by (intro upkeep_intros; simp add: frame_defs split: option.split prod.split)+

lemma steady_kill_where [upkeep_intros]: "steady me (kill_where a b c d e)"
  by (induction d arbitrary: a b c e) (auto intro!: upkeep_intros simp: frame_defs)

lemma steady_kill_all [upkeep_intros]: "steady me (kill_all a b c d)"
  by (induction c arbitrary: a b d) (auto intro!: upkeep_intros simp: frame_defs)

lemma steady_process_3 [upkeep_intros]:
  "steady me (sys_kill a a')" "steady me (adopt i)"
  unfolding sys_kill_def adopt_def
  by (intro upkeep_intros; simp add: frame_defs split: option.split prod.split)+

lemma steady_put_task_inode [upkeep_intros]:
  assumes "\<And>p. kept p (b p)"
  shows "steady me (put_task_inode a b)"
  unfolding put_task_inode_def by (intro upkeep_intros) (simp add: assms)

lemma steady_process_4 [upkeep_intros]:
  "steady me drop_tty" "steady me enosys" "steady me (sys_setup a)" "steady me (sys_setregid a a')"
  unfolding drop_tty_def enosys_def sys_setup_def sys_setregid_def
  by (intro upkeep_intros; simp add: frame_defs split: option.split prod.split)+

lemma steady_process_5 [upkeep_intros]:
  "steady me (sys_setgid a)" "steady me (sys_time a)" "steady me (sys_setreuid a a')"
  unfolding sys_setgid_def sys_time_def sys_setreuid_def
  by (intro upkeep_intros; simp add: frame_defs split: option.split prod.split)+

lemma steady_process_6 [upkeep_intros]:
  "steady me (sys_setuid a)" "steady me (sys_stime a)" "steady me (sys_times a)" "steady me (sys_brk a)"
  "steady me (sys_setpgid a a')" "steady me sys_getpgrp" "steady me sys_setsid" "steady me (sys_uname a)"
  unfolding sys_setuid_def sys_stime_def sys_times_def sys_brk_def sys_setpgid_def sys_getpgrp_def
  sys_setsid_def sys_uname_def
  by (intro upkeep_intros; simp add: frame_defs split: option.split prod.split)+

lemma steady_sys_umask [upkeep_intros]: "steady me (sys_umask a)"
  unfolding sys_umask_def by (intro upkeep_intros; simp add: frame_defs split: option.split prod.split)

section \<open>Signals\<close>

lemma frame_upd_tf [simp]: "frame s t \<Longrightarrow> frame s (upd_tf p f t)"
  by (cases p) (simp_all add: kept_def)

lemma steady_signals_1 [upkeep_intros]:
  "steady me sys_sgetmask" "steady me (sys_ssetmask a)" "steady me (save_old x a)" "steady me (get_new a i)"
  "steady me (sys_signal a a' a'')"
  unfolding sys_sgetmask_def sys_ssetmask_def save_old_def get_new_def sys_signal_def
  by (intro upkeep_intros; simp add: frame_defs split: option.split prod.split)+

lemma steady_signals_2 [upkeep_intros]:
  "steady me (sys_sigaction a a' a'')" "steady me (put_words a x)"
  unfolding sys_sigaction_def put_words_def
  by (intro upkeep_intros; simp add: frame_defs split: option.split prod.split)+

lemma steady_push_handler [upkeep_intros]: "steady me (push_handler x i a)"
  unfolding push_handler_def by (intro upkeep_intros; simp add: frame_defs split: option.split prod.split)

lemma steady_do_signal [upkeep_intros]: "steady me (do_signal x i)"
  unfolding do_signal_def by (intro upkeep_intros; simp add: frame_defs split: option.split prod.split)

lemma steady_signals_5 [upkeep_intros]:
  "steady me (do_signals x)" "steady me sys_sigreturn"
  unfolding do_signals_def sys_sigreturn_def
  by (intro upkeep_intros; simp add: frame_defs split: option.split prod.split)+

section \<open>Program loading\<close>

lemma frame_bounds_of [simp]: "frame s (upd_cur (bounds_of ph) s)"
  by (rule frame_upd_cur) (simp_all add: kept_def bounds_of_def Let_def)

lemma steady_skip_step [upkeep_intros]: "steady me (skip_step a)"
  unfolding skip_step_def by (intro upkeep_intros; simp add: frame_defs split: option.split prod.split)

lemma steady_skip_string [upkeep_intros]: "steady me (skip_string a)"
  unfolding skip_string_def by (intro upkeep_intros; simp add: frame_defs split: option.split prod.split)

lemma steady_fill_table [upkeep_intros]: "steady me (fill_table a b c)"
  by (induction a arbitrary: b c) (auto intro!: upkeep_intros simp: frame_defs)

lemma steady_exec_3 [upkeep_intros]:
  "steady me (create_tables a i i')" "steady me (count_step x)"
  unfolding create_tables_def count_step_def
  by (intro upkeep_intros; simp add: frame_defs split: option.split prod.split)+

lemma steady_exec_4 [upkeep_intros]:
  "steady me (count_args a)" "steady me (arg_page x)"
  unfolding count_args_def arg_page_def
  by (intro upkeep_intros; simp add: frame_defs split: option.split prod.split)+

lemma steady_arg_byte [upkeep_intros]: "steady me (arg_byte a x)"
  unfolding arg_byte_def by (intro upkeep_intros; simp add: frame_defs split: option.split prod.split)

lemma steady_arg_string [upkeep_intros]: "steady me (arg_string a b c)"
  by (induction a arbitrary: b c) (auto intro!: upkeep_intros simp: frame_defs)

lemma steady_arg_strings [upkeep_intros]: "steady me (arg_strings a b c)"
  by (induction a arbitrary: b c) (auto intro!: upkeep_intros simp: frame_defs)

lemma steady_exec_6 [upkeep_intros]:
  "steady me (copy_strings i a x a')" "steady me (read_file_step i y z)"
  unfolding copy_strings_def read_file_step_def
  by (intro upkeep_intros; simp add: frame_defs split: option.split prod.split)+

lemma steady_read_file [upkeep_intros]: "steady me (read_file i a x a')"
  unfolding read_file_def by (intro upkeep_intros; simp add: frame_defs split: option.split prod.split)

lemma steady_load_page [upkeep_intros]: "steady me (load_page i x a a')"
  unfolding load_page_def by (intro upkeep_intros; simp add: frame_defs split: option.split prod.split)

lemma steady_load_step [upkeep_intros]: "steady me (load_step i x a a' a'')"
  unfolding load_step_def by (intro upkeep_intros; simp add: frame_defs split: option.split prod.split)

lemma steady_load_segment [upkeep_intros]: "steady me (load_segment i x a)"
  unfolding load_segment_def by (intro upkeep_intros; simp add: frame_defs split: option.split prod.split)

lemma steady_map_args [upkeep_intros]: "steady me (map_args a b c)"
  by (induction b arbitrary: a c) (auto intro!: upkeep_intros simp: frame_defs)

lemma steady_free_args [upkeep_intros]: "steady me (free_args x)"
  unfolding free_args_def by (intro upkeep_intros; simp add: frame_defs split: option.split prod.split)

lemma steady_exec_error2 [upkeep_intros]: "steady me (exec_error2 i x a)"
  unfolding exec_error2_def by (intro upkeep_intros; simp add: frame_defs split: option.split prod.split)

lemma steady_exec_13 [upkeep_intros]:
  "steady me (free_new a i x a')" "steady me (read_phdr i y i')"
  unfolding free_new_def read_phdr_def
  by (intro upkeep_intros; simp add: frame_defs split: option.split prod.split)+

lemma steady_load_phdr [upkeep_intros]: "steady me (load_phdr i x a i')"
  unfolding load_phdr_def by (intro upkeep_intros; simp add: frame_defs split: option.split prod.split)

lemma steady_exec_15 [upkeep_intros]:
  "steady me (load_all i x a)" "steady me (bounds_phdr i x i')"
  unfolding load_all_def bounds_phdr_def
  by (intro upkeep_intros; simp add: frame_defs split: option.split prod.split)+

section \<open>Exceptions\<close>

lemma steady_die [upkeep_intros]: "steady me die"
  unfolding die_def by (intro upkeep_intros; simp add: frame_defs split: option.split prod.split)

lemma steady_exception_trap [upkeep_intros]: "steady me (exception_trap x)"
  unfolding exception_trap_def by (intro upkeep_intros; simp add: frame_defs split: option.split prod.split)

end
