(* ===== verification/Descriptor_Calls.thy ===== *)
theory Descriptor_Calls
  imports Steady_Calls
begin

text \<open>
  The calls that open, duplicate and close descriptors (\<^verbatim>\<open>fs/open.c\<close>, \<^verbatim>\<open>fs/fcntl.c\<close>, \<^verbatim>\<open>fs/pipe.c\<close>)
  uphold the contract of \<^verbatim>\<open>Descriptors\<close>: each changes one reference and its count together, and
  the file it works on is its own while it sleeps.
\<close>

section \<open>Gaining and losing a reference\<close>

lemma finite_descriptors [simp]: "finite (descriptors s f)"
  by (rule finite_subset [of _ "{..<NR_TASKS} \<times> {..<NR_OPEN}"]) (auto simp: descriptors_def)

lemma card_descriptors: "card (descriptors s f) \<le> 1280"
proof -
  have "card (descriptors s f) \<le> card ({..<NR_TASKS} \<times> {..<NR_OPEN})"
    by (rule card_mono) (auto simp: descriptors_def)
  then show ?thesis by (simp add: card_cartesian_product)
qed

text \<open>Task \<open>me\<close> refers to file \<open>f\<close> by descriptor \<open>fd\<close>, where it had none.\<close>

definition take_fd :: "nat \<Rightarrow> nat \<Rightarrow> kstate \<Rightarrow> kstate" where
  "take_fd fd f s = upd_file f (\<lambda>p. p\<lparr>f_count := f_count p + 1\<rparr>) (set_filp fd (Some f) s)"

definition drop_fd :: "nat \<Rightarrow> nat \<Rightarrow> kstate \<Rightarrow> kstate" where
  "drop_fd fd f s = upd_file f (\<lambda>p. p\<lparr>f_count := f_count p - 1\<rparr>) (set_filp fd None s)"

lemma fd_okD:
  assumes "fd_ok me s"
  shows "current s = me" "me < NR_TASKS" "task_used s me" "alive me s" "fd_inv s" "cur s = tasks s me"
    "unat (f_count (file_table s f)) = card (descriptors s f)"
  using assms by (auto simp: fd_ok_def fd_inv_def slots_ok_def alive_def cur_def files_counted_def)

lemma fd_ok_update:
  assumes ok: "fd_ok me s"
    and t: "current t = me" "task_used t = task_used s" "\<And>j. pid (tasks t j) = pid (tasks s j) \<and> t_state (tasks t j) = t_state (tasks s j)"
      "\<And>j. j \<noteq> me \<Longrightarrow> filp (tasks t j) = filp (tasks s j)"
    and count: "\<And>g. unat (f_count (file_table t g)) = card (descriptors t g)"
    and own: "\<And>j g. j \<noteq> me \<Longrightarrow> owns j s g \<Longrightarrow> owns j t g"
  shows "fd_ok me t \<and> fd_guar me s t"
proof -
  have alive: "alive j t = alive j s" for j using t by (simp add: alive_def)
  have "zombies_closed t"
    using ok t alive by (auto simp: fd_ok_def fd_inv_def zombies_closed_def) (metis option.distinct(1))
  then have "fd_inv t" using ok t count by (simp add: fd_ok_def fd_inv_def files_counted_def pids_unique_def slots_ok_def)
  then show ?thesis using ok t own alive by (simp add: fd_ok_def fd_guar_def undisturbed_def)
qed

lemma descriptors_set_filp:
  assumes "fd_ok me s" "fd < NR_OPEN"
  shows "descriptors (set_filp fd v s) g = (if v = Some g then insert (me, fd) (descriptors s g) else descriptors s g - {(me, fd)})"
  using assms(2) fd_okD(1-3) [OF assms(1)]
  by (auto simp: descriptors_def set_filp_def upd_cur_def upd_task_def split: if_splits)

lemma own_descriptor: "fd_ok me s \<Longrightarrow> (me, fd) \<in> descriptors s g \<longleftrightarrow> fd < NR_OPEN \<and> filp (cur s) fd = Some g"
  using fd_okD(2,3,6) by (simp add: descriptors_def)

lemma upd_file_descriptors [simp]: "descriptors (upd_file f h s) g = descriptors s g"
  by (simp add: descriptors_def upd_file_def)

lemma owns_other: "owns j s f \<Longrightarrow> (i, fd) \<in> descriptors s f \<Longrightarrow> i = j"
  by (force simp: owns_def)

lemma owns_cong: "descriptors t f = descriptors s f \<Longrightarrow> owns j t f = owns j s f"
  by (simp add: owns_def)

lemma take_fd_ok:
  assumes ok: "fd_ok me s" and fd: "fd < NR_OPEN" "filp (cur s) fd = None"
    and f: "f_count (file_table s f) = 0 \<or> (\<exists>d<NR_OPEN. filp (cur s) d = Some f)"
  shows "fd_ok me (take_fd fd f s) \<and> fd_guar me s (take_fd fd f s)"
proof (rule fd_ok_update [OF ok])
  let ?t = "take_fd fd f s"
  have d: "descriptors ?t g = (if g = f then insert (me, fd) (descriptors s f) else descriptors s g)" for g
    using fd(2) own_descriptor [OF ok, of fd g] by (auto simp: take_fd_def descriptors_set_filp [OF ok fd(1)])
  have new: "(me, fd) \<notin> descriptors s f" using fd(2) own_descriptor [OF ok] by simp
  show "unat (f_count (file_table ?t g)) = card (descriptors ?t g)" for g
  proof (cases "g = f")
    case True
    have "unat (f_count (file_table s f) + 1) = unat (f_count (file_table s f)) + 1"
      using fd_okD(7) [OF ok, of f] card_descriptors [of s f] by (simp add: unat_word_ariths)
    then show ?thesis using True new d [of f] fd_okD(7) [OF ok, of f] by (simp add: take_fd_def upd_file_def set_filp_def upd_cur_def upd_task_def)
  next
    case False
    then show ?thesis using d [of g] fd_okD(7) [OF ok, of g] by (simp add: take_fd_def upd_file_def set_filp_def upd_cur_def upd_task_def)
  qed
  show "owns j ?t g" if "j \<noteq> me" "owns j s g" for j g
  proof -
    have "descriptors s f = {} \<or> (\<exists>d. (me, d) \<in> descriptors s f)"
      using f fd_okD(7) [OF ok, of f] own_descriptor [OF ok] by auto
    then have "g \<noteq> f" using that owns_other by (fastforce simp: owns_def)
    then show ?thesis using d [of g] that owns_cong [of ?t g s j] by simp
  qed
qed (use fd_okD [OF ok] in \<open>auto simp: take_fd_def set_filp_def upd_defs upd_cur_def\<close>)

lemma drop_fd_ok:
  assumes ok: "fd_ok me s" and fd: "fd < NR_OPEN" "filp (cur s) fd = Some f"
  shows "f_count (file_table s f) \<noteq> 0" "fd_ok me (drop_fd fd f s) \<and> fd_guar me s (drop_fd fd f s)"
proof -
  let ?t = "drop_fd fd f s"
  have mem: "(me, fd) \<in> descriptors s f" using fd own_descriptor [OF ok] by simp
  have pos: "0 < card (descriptors s f)" using mem by (auto simp: card_gt_0_iff)
  show nz: "f_count (file_table s f) \<noteq> 0" using pos fd_okD(7) [OF ok, of f] by auto
  have d: "descriptors ?t g = (if g = f then descriptors s f - {(me, fd)} else descriptors s g)" for g
    using fd own_descriptor [OF ok, of fd g] by (auto simp: drop_fd_def descriptors_set_filp [OF ok fd(1)])
  show "fd_ok me ?t \<and> fd_guar me s ?t"
  proof (rule fd_ok_update [OF ok])
    show "unat (f_count (file_table ?t g)) = card (descriptors ?t g)" for g
    proof (cases "g = f")
      case True
      have "unat (f_count (file_table s f) - 1) = unat (f_count (file_table s f)) - 1"
        using nz by (simp add: unat_minus_one)
      then show ?thesis using True mem d [of f] fd_okD(7) [OF ok, of f] by (simp add: drop_fd_def upd_file_def set_filp_def upd_cur_def upd_task_def)
    next
      case False
      then show ?thesis using d [of g] fd_okD(7) [OF ok, of g] by (simp add: drop_fd_def upd_file_def set_filp_def upd_cur_def upd_task_def)
    qed
    show "owns j ?t g" if "j \<noteq> me" "owns j s g" for j g
    proof -
      have "g \<noteq> f" using that owns_other mem by blast
      then show ?thesis using d [of g] that owns_cong [of ?t g s j] by simp
    qed
  qed (use fd_okD [OF ok] in \<open>auto simp: drop_fd_def set_filp_def upd_defs upd_cur_def\<close>)
qed

section \<open>Closing and duplicating\<close>

lemma fd_rely_filp: "fd_ok me s \<Longrightarrow> fd_ok me t \<Longrightarrow> fd_rely me s t \<Longrightarrow> filp (cur t) = filp (cur s)"
  by (simp add: fd_rely_def undisturbed_def fd_okD(6)) (simp add: fd_ok_def)

lemma steadyD: "steady me f \<Longrightarrow> fd_ok me s \<Longrightarrow> safe (fd_contract me) s (\<lambda>_ t. fd_ok me t \<and> fd_rely me s t) (f n s)"
  by (rule keepsD)

lemma upholdsD: "upholds me f \<Longrightarrow> fd_ok me s \<Longrightarrow> safe (fd_contract me) s (\<lambda>_. fd_ok me) (f n s)"
  by (simp add: keeps_def)

lemma filp_fd_updates:
  "filp (cur (take_fd fd f s)) = (filp (cur s))(fd := Some f)" "filp (cur (drop_fd fd f s)) = (filp (cur s))(fd := None)"
  by (simp_all add: take_fd_def drop_fd_def set_filp_def cur_def upd_cur_def upd_defs)

lemma close_on_exec_frame: "frame s (close_on_exec_off fd s)"
  by (simp add: frame_defs)

lemma close_on_exec_off_simps [simp]:
  "filp (cur (close_on_exec_off fd s)) = filp (cur s)" "file_table (close_on_exec_off fd s) = file_table s"
  by (simp_all add: close_on_exec_off_def cur_def upd_cur_def upd_task_def)

lemma set_filp_file_table [simp]: "file_table (set_filp fd v s) = file_table s"
  by (simp add: set_filp_def upd_cur_def upd_task_def)

text \<open>The panic of \<open>sys_close\<close> is not reached.\<close>

lemma sys_close_safe:
  assumes ok: "fd_ok me s"
  shows "safe (fd_contract me) s (\<lambda>_ t. fd_ok me t \<and> (unat fd < NR_OPEN \<longrightarrow> filp (cur t) = (filp (cur s))(unat fd := None)))
     (sys_close fd n s)"
proof (cases "unat fd < NR_OPEN")
  case False
  then show ?thesis using ok by (simp add: sys_close_def kexec)
next
  case True
  let ?s = "close_on_exec_off (unat fd) s"
  have ok1: "fd_ok me ?s" and g1: "fd_guar me s ?s"
    using frame_ok [OF close_on_exec_frame ok] frame_guar [OF close_on_exec_frame] by auto
  show ?thesis
  proof (cases "filp (cur s) (unat fd)")
    case None
    then have "filp (cur s) = (filp (cur s))(unat fd := None)" by (simp add: fun_upd_idem)
    then show ?thesis using True None ok1 g1 by (simp add: sys_close_def kexec)
  next
    case (Some f)
    let ?t = "drop_fd (unat fd) f ?s"
    have nz: "f_count (file_table s f) \<noteq> 0" and t: "fd_ok me ?t" "fd_guar me ?s ?t"
      using drop_fd_ok [OF ok1 True, of f] Some by simp_all
    have g: "fd_guar me s ?t" using g1 t(2) fd_guar_trans by blast
    have filp: "filp (cur ?t) = (filp (cur s))(unat fd := None)" by (simp add: filp_fd_updates)
    have run: "sys_close fd n s = (if f_count (file_table s f) - 1 \<noteq> 0 then Done 0 ?t
       else bindp (iput (f_inode (file_table ?t f)) n ?t) (\<lambda>_ u. Done 0 u))"
      using True Some nz by (simp add: sys_close_def kexec get_file_def drop_fd_def)
    have "safe (fd_contract me) ?t (\<lambda>_ u. fd_ok me u \<and> fd_rely me ?t u) (iput p n ?t)" for p
      by (intro steadyD t(1) upkeep_intros)
    then have "safe (fd_contract me) ?t (\<lambda>_ u. fd_ok me u \<and> filp (cur u) = (filp (cur s))(unat fd := None)) (iput p n ?t)" for p
      by (rule safe_mono) (use fd_rely_filp [OF t(1)] filp in auto)
    then have "safe (fd_contract me) ?t (\<lambda>_ u. fd_ok me u \<and> filp (cur u) = (filp (cur s))(unat fd := None))
       (bindp (iput p n ?t) (\<lambda>_ u. Done (0::u32) u))" for p
      by (rule strict.safe_bindp) simp
    then have "safe (fd_contract me) s (\<lambda>_ u. fd_ok me u \<and> filp (cur u) = (filp (cur s))(unat fd := None))
       (bindp (iput p n ?t) (\<lambda>_ u. Done (0::u32) u))" for p
      by (rule strict.safe_earlier) (simp add: g)
    then show ?thesis using True t(1) g filp unfolding run by simp
  qed
qed

text \<open>From a run with a postcondition to the contract of a call.\<close>

lemma upholdsI: "(\<And>n s. fd_ok me s \<Longrightarrow> safe (fd_contract me) s (\<lambda>_. fd_ok me) (f n s)) \<Longrightarrow> upholds me f"
  by (simp add: keeps_def)

lemma upholds_sys_close [upkeep_intros]: "upholds me (sys_close fd)"
  by (rule upholdsI, rule safe_mono [OF sys_close_safe]) auto

lemma upholds_dupfd [upkeep_intros]: "upholds me (dupfd fd arg)"
proof (rule upholdsI)
  fix n s assume ok: "fd_ok me s"
  show "safe (fd_contract me) s (\<lambda>_. fd_ok me) (dupfd fd arg n s)"
  proof (cases "fd_file fd s")
    case None
    then show ?thesis using ok by (simp add: dupfd_def kexec)
  next
    case (Some f)
    then have f: "unat fd < NR_OPEN" "filp (cur s) (unat fd) = Some f" by (auto simp: fd_file_def split: if_splits)
    show ?thesis
    proof (cases "search (\<lambda>i. filp (cur s) i = None) (unat arg) (NR_OPEN - unat arg)")
      case None
      then show ?thesis using ok Some by (simp add: dupfd_def kexec)
    next
      case (Some a)
      let ?s = "close_on_exec_off a s"
      have a: "a < NR_OPEN" "filp (cur s) a = None" using Some by (auto simp: search_Some_iff)
      have ok1: "fd_ok me ?s" and g1: "fd_guar me s ?s"
        using frame_ok [OF close_on_exec_frame ok] frame_guar [OF close_on_exec_frame] by auto
      have t: "fd_ok me (take_fd a f ?s)" "fd_guar me ?s (take_fd a f ?s)"
        using take_fd_ok [OF ok1, of a f] a f by auto
      have "dupfd fd arg n s = (if NR_OPEN \<le> unat arg then Done (- EINVAL) s else Done (word_of_nat a) (take_fd a f ?s))"
        using Some \<open>fd_file fd s = Some f\<close> by (simp add: dupfd_def kexec take_fd_def)
      then show ?thesis using ok t fd_guar_trans [OF g1 t(2)] by simp
    qed
  qed
qed

lemmas upholds_control = weak.keeps_control steady_upholds [OF steady_modify]

lemma upholds_dups [upkeep_intros]: "upholds me (sys_dup a)" "upholds me (sys_dup2 a a')" "upholds me (sys_fcntl a a' b)"
  unfolding sys_dup_def sys_dup2_def sys_fcntl_def get_file_def
  by (intro upholds_control upkeep_intros; simp add: frame_defs)+

section \<open>Opening\<close>

text \<open>
  \<open>reserved me H s\<close>: each pair of \<open>H\<close> is a descriptor of \<open>me\<close> and the file it refers to, and
  nothing else refers to that file.
\<close>

definition reserved :: "nat \<Rightarrow> (nat \<times> nat) list \<Rightarrow> kstate \<Rightarrow> bool" where
  "reserved me H s \<longleftrightarrow> fd_ok me s \<and> (\<forall>(fd, f)\<in>set H. descriptors s f = {(me, fd)})"

definition until :: "nat \<Rightarrow> (nat \<times> nat) list \<Rightarrow> 'a kernel \<Rightarrow> bool" where
  "until me H g \<longleftrightarrow> (\<forall>n s. reserved me H s \<longrightarrow> safe (fd_contract me) s (\<lambda>_. fd_ok me) (g n s))"

lemma owned_descriptors:
  "fd_ok me t \<Longrightarrow> owns me t f \<Longrightarrow> descriptors t f = {me} \<times> {d. d < NR_OPEN \<and> filp (cur t) d = Some f}"
  using own_descriptor [of me t _ f] by (auto simp: owns_def)

lemma reserved_rely:
  assumes "reserved me H s" "fd_ok me t" "fd_rely me s t"
  shows "reserved me H t"
proof -
  have ok: "fd_ok me s" using assms(1) by (simp add: reserved_def)
  have "descriptors t f = {(me, fd)}" if "(fd, f) \<in> set H" for fd f
  proof -
    have d: "descriptors s f = {(me, fd)}" using assms(1) that by (auto simp: reserved_def)
    then have own: "owns me s f" by (simp add: owns_def)
    then have "owns me t f" using assms(3) fd_okD(4) [OF ok] by (simp add: fd_rely_def undisturbed_def)
    from owned_descriptors [OF assms(2) this] fd_rely_filp [OF ok assms(2,3)] owned_descriptors [OF ok own] d
    show ?thesis by simp
  qed
  then show ?thesis using assms(2) by (auto simp: reserved_def)
qed

lemma reserved_count:
  assumes "reserved me H s" "(fd, f) \<in> set H"
  shows "f_count (file_table s f) = 1"
proof -
  have "unat (f_count (file_table s f)) = card {(me, fd)}" using assms fd_okD(7) [of me s f] by (auto simp: reserved_def)
  then have "unat (f_count (file_table s f)) = unat (1 :: u16)" by simp
  then show ?thesis by (rule unsigned_word_eqI)
qed

lemma until_bind:
  assumes "steady me f" "\<And>a. until me H (g a)"
  shows "until me H (bind f g)"
  unfolding until_def
proof (intro allI impI)
  fix n s assume r: "reserved me H s"
  then have ok: "fd_ok me s" by (simp add: reserved_def)
  have "safe (fd_contract me) t (\<lambda>_. fd_ok me) (g a n t)" if "fd_ok me t \<and> fd_rely me s t" for a t
    using assms(2) reserved_rely [OF r] that by (simp add: until_def)
  then show "safe (fd_contract me) s (\<lambda>_. fd_ok me) (bind f g n s)"
    unfolding bind_def by (intro strict.safe_bindp [OF steadyD [OF assms(1) ok]])
qed

lemma until_seq: "steady me f \<Longrightarrow> until me H g \<Longrightarrow> until me H (seq f g)"
  by (simp add: seq_def until_bind)

lemma until_if: "until me H f \<Longrightarrow> until me H g \<Longrightarrow> until me H (if b then f else g)"
  by simp

lemma until_deref: "(\<And>i. until me H (f i)) \<Longrightarrow> until me H (deref p f)"
  by (cases p) (simp_all add: until_def kexec)

lemma until_case_prod: "(\<And>a b. until me H (f a b)) \<Longrightarrow> until me H (case p of (a, b) \<Rightarrow> f a b)"
  by (simp split: prod.split)

lemma until_case_option:
  "until me H f \<Longrightarrow> (\<And>x. until me H (g x)) \<Longrightarrow> until me H (case p of None \<Rightarrow> f | Some x \<Rightarrow> g x)"
  by (simp split: option.split)

lemma until_upholds: "upholds me f \<Longrightarrow> until me H f"
  by (simp add: until_def reserved_def keeps_def)

text \<open>A store into a reserved file that leaves its count at one.\<close>

lemma until_modify:
  assumes "(fd, f) \<in> set H" "\<And>s p. f_count (h s p) = 1 \<or> f_count (h s p) = f_count p" "until me H g"
  shows "until me H (seq (modify (\<lambda>s. upd_file f (h s) s)) g)"
  unfolding until_def
proof (intro allI impI)
  fix n s assume r: "reserved me H s"
  let ?t = "upd_file f (h s) s"
  have "f_count (h s (file_table s f)) = f_count (file_table s f)" using assms(2) [of s "file_table s f"] reserved_count [OF r assms(1)] by auto
  then have f: "frame s ?t" by (simp add: frame_def upd_file_def)
  have ok: "fd_ok me s" using r by (simp add: reserved_def)
  have "reserved me H ?t" using reserved_rely [OF r frame_ok [OF f ok] frame_rely [OF f ok]] .
  then have "safe (fd_contract me) ?t (\<lambda>_. fd_ok me) (g n ?t)" using assms(3) by (simp add: until_def)
  from strict.safe_earlier [OF this, of s]
  show "safe (fd_contract me) s (\<lambda>_. fd_ok me) (seq (modify (\<lambda>s. upd_file f (h s) s)) g n s)"
    by (simp add: kexec frame_guar [OF f])
qed

text \<open>Giving a reserved descriptor up again.\<close>

lemma drop_reserved:
  assumes r: "reserved me ((fd, f) # H) s" and ne: "f \<notin> snd ` set H" "fd \<notin> fst ` set H"
  shows "upd_file f (\<lambda>p. p\<lparr>f_count := 0\<rparr>) (set_filp fd None s) = drop_fd fd f s"
    "reserved me H (drop_fd fd f s)" "fd_guar me s (drop_fd fd f s)"
proof -
  have ok: "fd_ok me s" and d: "descriptors s f = {(me, fd)}" using r by (simp_all add: reserved_def)
  have fd: "fd < NR_OPEN" "filp (cur s) fd = Some f" using d own_descriptor [OF ok, of fd f] by auto
  have t: "fd_ok me (drop_fd fd f s)" "fd_guar me s (drop_fd fd f s)" using drop_fd_ok(2) [OF ok fd] by auto
  have "descriptors (drop_fd fd f s) g = {(me, e)}" if "(e, g) \<in> set H" for e g
  proof -
    have "descriptors s g = {(me, e)}" "e \<noteq> fd" using that r ne by (auto simp: reserved_def image_iff)
    then show ?thesis by (simp add: drop_fd_def descriptors_set_filp [OF ok fd(1)])
  qed
  then show "reserved me H (drop_fd fd f s)" using t by (auto simp: reserved_def)
  show "fd_guar me s (drop_fd fd f s)" by (rule t)
  have "f_count (file_table s f) = 1" using reserved_count [OF r, of fd f] by simp
  then show "upd_file f (\<lambda>p. p\<lparr>f_count := 0\<rparr>) (set_filp fd None s) = drop_fd fd f s"
    by (simp add: drop_fd_def upd_file_def)
qed

lemma until_open_fail: "until me [(fd, f)] (open_fail fd f e)"
  unfolding until_def
proof (intro allI impI)
  fix n s assume r: "reserved me [(fd, f)] s"
  from drop_reserved [OF r] show "safe (fd_contract me) s (\<lambda>_. fd_ok me) (open_fail fd f e n s)"
    by (simp add: open_fail_def kexec reserved_def)
qed

lemma take_reserved:
  assumes r: "reserved me H s" and fd: "fd < NR_OPEN" "filp (cur s) fd = None" and f: "f_count (file_table s f) = 0"
  shows "reserved me ((fd, f) # H) (take_fd fd f s)" "fd_guar me s (take_fd fd f s)"
proof -
  have ok: "fd_ok me s" using r by (simp add: reserved_def)
  have t: "fd_ok me (take_fd fd f s)" "fd_guar me s (take_fd fd f s)" using take_fd_ok [OF ok fd] f by auto
  show "fd_guar me s (take_fd fd f s)" by (rule t)
  have e: "descriptors s f = {}" using fd_okD(7) [OF ok, of f] f by simp
  have d: "descriptors (take_fd fd f s) g = (if g = f then {(me, fd)} else descriptors s g)" for g
    using e fd(2) own_descriptor [OF ok, of fd g] by (auto simp: take_fd_def descriptors_set_filp [OF ok fd(1)])
  have "g \<noteq> f" if "(e, g) \<in> set H" for e g using r that e by (auto simp: reserved_def)
  then show "reserved me ((fd, f) # H) (take_fd fd f s)" using t(1) r d by (auto simp: reserved_def)
qed

lemma upholds_sys_open [upkeep_intros]: "upholds me (sys_open filename flag mode)"
proof (rule upholdsI)
  fix n s assume ok: "fd_ok me s"
  show "safe (fd_contract me) s (\<lambda>_. fd_ok me) (sys_open filename flag mode n s)"
  proof (cases "search (\<lambda>i. filp (cur s) i = None) 0 NR_OPEN")
    case None
    then show ?thesis using ok by (simp add: sys_open_def kexec)
  next
    case (Some fd)
    let ?s = "close_on_exec_off fd s"
    have fd: "fd < NR_OPEN" "filp (cur s) fd = None" using Some by (auto simp: search_Some_iff)
    have ok1: "fd_ok me ?s" and g1: "fd_guar me s ?s"
      using frame_ok [OF close_on_exec_frame ok] frame_guar [OF close_on_exec_frame] by auto
    show ?thesis
    proof (cases "search (\<lambda>i. f_count (file_table s i) = 0) 0 NR_FILE")
      case None
      then show ?thesis using ok1 g1 Some by (simp add: sys_open_def kexec)
    next
      case (Some f)
      then have f: "f_count (file_table s f) = 0" by (auto simp: search_Some_iff)
      let ?t = "take_fd fd f ?s" and ?mode = "mode AND (0x1ff AND NOT (ucast (t_umask (cur s))))"
      have r: "reserved me [(fd, f)] ?t" and g: "fd_guar me ?s ?t"
        using take_reserved [of me "[]" ?s fd f] ok1 fd f by (simp_all add: reserved_def)
      have body: "until me [(fd, f)] (bind (open_namei filename flag ?mode) (\<lambda>(e, p).
             if e <s 0 then open_fail fd f e
             else deref p (\<lambda>ino.
               bind (get_inode ino) (\<lambda>m.
               bind (if S_ISCHR (i_mode m) then open_tty ino else ret False) (\<lambda>bad.
               if bad then seq (iput_ino ino) (open_fail fd f (- EPERM))
               else
                 seq (whenk (S_ISBLK (i_mode m)) (check_disk_change (ucast (i_zone m 0))))
                (seq (modify (\<lambda>s. upd_file f (\<lambda>p. p\<lparr>f_mode := i_mode (inode_table s ino), f_flags := ucast flag,
                        f_count := 1, f_inode := Some ino, f_pos := 0\<rparr>) s))
                     (ret (word_of_nat fd))))))))" (is "until _ _ ?body")
        by (intro until_bind until_case_prod until_if until_open_fail until_deref until_seq
            until_modify [of fd f] until_upholds weak.keeps_ret upkeep_intros) simp_all
      have "sys_open filename flag mode n s = ?body n ?t"
        using Some \<open>search _ 0 NR_OPEN = Some fd\<close>
        unfolding sys_open_def Let_def take_fd_def by (simp add: bind_exec [of "gets _"] gets_exec seq_exec modify_exec)
      then have "safe (fd_contract me) ?t (\<lambda>_. fd_ok me) (sys_open filename flag mode n s)"
        using body r by (simp only: until_def)
      then show ?thesis by (rule strict.safe_earlier) (use fd_guar_trans [OF g1 g] in simp)
    qed
  qed
qed

lemma upholds_sys_creat [upkeep_intros]: "upholds me (sys_creat a b)"
  unfolding sys_creat_def by (rule upholds_sys_open)

section \<open>Pipes\<close>

lemma first_two_cases:
  assumes "\<not> length (first_two P k) < 2" "a = first_two P k ! 0" "b = first_two P k ! 1"
  shows "a < k" "b < k" "P a" "P b" "a \<noteq> b"
proof -
  let ?xs = "first_two P k"
  have set: "set ?xs \<subseteq> {i. i < k \<and> P i}" using set_take_subset [of 2 "filter P [0..<k]"] by (auto simp: first_two_def)
  have "distinct ?xs" by (simp add: first_two_def)
  then show "a \<noteq> b" using assms nth_eq_iff_index_eq [of ?xs 0 1] by (cases ?xs) simp_all
  have len: "0 < length ?xs" "1 < length ?xs" using assms(1) by linarith+
  have "a \<in> set ?xs" "b \<in> set ?xs" using nth_mem [OF len(1)] nth_mem [OF len(2)] assms(2,3) by simp_all
  then show "a < k" "b < k" "P a" "P b" using set by auto
qed

text \<open>The order of the four stores of \<open>sys_pipe\<close> does not matter.\<close>

lemma take_two:
  assumes "f0 \<noteq> f1" "d0 \<noteq> d1"
  shows "set_filp d1 (Some f1) (set_filp d0 (Some f0) (upd_file f1 (\<lambda>p. p\<lparr>f_count := f_count p + 1\<rparr>)
     (upd_file f0 (\<lambda>p. p\<lparr>f_count := f_count p + 1\<rparr>) s))) = take_fd d1 f1 (take_fd d0 f0 s)"
  using assms by (simp add: take_fd_def set_filp_def upd_cur_def upd_defs fun_eq_iff)

lemma drop_two:
  assumes "f0 \<noteq> f1"
  shows "upd_file f0 (\<lambda>p. p\<lparr>f_count := 0\<rparr>) (upd_file f1 (\<lambda>p. p\<lparr>f_count := 0\<rparr>) (set_filp d0 None (set_filp d1 None s))) =
     upd_file f0 (\<lambda>p. p\<lparr>f_count := 0\<rparr>) (set_filp d0 None (upd_file f1 (\<lambda>p. p\<lparr>f_count := 0\<rparr>) (set_filp d1 None s)))"
  using assms by (simp add: set_filp_def upd_cur_def upd_defs fun_eq_iff)

lemma until_pipe_fail:
  assumes "f0 \<noteq> f1" "d0 \<noteq> d1"
  shows "until me [(d1, f1), (d0, f0)]
    (seq (modify (set_filp d1 None)) (seq (modify (set_filp d0 None))
    (seq (modify (upd_file f1 (\<lambda>p. p\<lparr>f_count := 0\<rparr>))) (seq (modify (upd_file f0 (\<lambda>p. p\<lparr>f_count := 0\<rparr>))) (ret e)))))"
  unfolding until_def
proof (intro allI impI)
  fix n s assume r: "reserved me [(d1, f1), (d0, f0)] s"
  let ?t = "drop_fd d1 f1 s"
  note one = drop_reserved [OF r]
  have r1: "reserved me [(d0, f0)] ?t" using one(2) assms by simp
  note two = drop_reserved [OF r1]
  have "fd_guar me s (drop_fd d0 f0 ?t)" using one(3) two(3) assms fd_guar_trans by simp
  moreover have "fd_ok me (drop_fd d0 f0 ?t)" using two(2) by (simp add: reserved_def)
  ultimately show "safe (fd_contract me) s (\<lambda>_. fd_ok me)
    (seq (modify (set_filp d1 None)) (seq (modify (set_filp d0 None))
    (seq (modify (upd_file f1 (\<lambda>p. p\<lparr>f_count := 0\<rparr>))) (seq (modify (upd_file f0 (\<lambda>p. p\<lparr>f_count := 0\<rparr>))) (ret e)))) n s)"
    using one(1) two(1) assms by (simp add: kexec drop_two)
qed

lemma restore_counts:
  assumes "f_count (file_table s f0) = 0" "f_count (file_table s f1) = 0"
  shows "upd_file f0 (\<lambda>p. p\<lparr>f_count := 0\<rparr>) (upd_file f1 (\<lambda>p. p\<lparr>f_count := 0\<rparr>)
     (upd_file f1 (\<lambda>p. p\<lparr>f_count := f_count p + 1\<rparr>) (upd_file f0 (\<lambda>p. p\<lparr>f_count := f_count p + 1\<rparr>) s))) = s"
proof -
  have "(file_table s f0)\<lparr>f_count := 0\<rparr> = file_table s f0" "(file_table s f1)\<lparr>f_count := 0\<rparr> = file_table s f1"
    using assms by simp_all
  then show ?thesis by (auto simp: upd_file_def fun_eq_iff intro!: kstate.equality)
qed

lemma upholds_sys_pipe [upkeep_intros]: "upholds me (sys_pipe fildes)"
proof (rule upholdsI)
  fix n s assume ok: "fd_ok me s"
  let ?fs = "first_two (\<lambda>i. f_count (file_table s i) = 0) NR_FILE" and ?ds = "first_two (\<lambda>i. filp (cur s) i = None) NR_OPEN"
  show "safe (fd_contract me) s (\<lambda>_. fd_ok me) (sys_pipe fildes n s)"
  proof (cases "length ?fs < 2")
    case True
    then show ?thesis using ok by (simp add: sys_pipe_def kexec)
  next
    case False
    define f0 f1 where f01: "f0 = ?fs ! 0" "f1 = ?fs ! 1"
    note f = first_two_cases [OF False f01]
    let ?s = "upd_file f1 (\<lambda>p. p\<lparr>f_count := f_count p + 1\<rparr>) (upd_file f0 (\<lambda>p. p\<lparr>f_count := f_count p + 1\<rparr>) s)"
    have cur: "filp (cur ?s) = filp (cur s)" by (simp add: cur_def upd_file_def)
    show ?thesis
    proof (cases "length ?ds < 2")
      case True
      then have "sys_pipe fildes n s = Done (-1) s"
        using False cur restore_counts [OF f(3,4)] by (simp add: sys_pipe_def kexec Let_def f01)
      then show ?thesis using ok by simp
    next
      case False
      define d0 d1 where d01: "d0 = ?ds ! 0" "d1 = ?ds ! 1"
      note d = first_two_cases [OF False d01]
      let ?u = "take_fd d0 f0 s" and ?t = "take_fd d1 f1 (take_fd d0 f0 s)"
      have r0: "reserved me [(d0, f0)] ?u" "fd_guar me s ?u" using take_reserved [of me "[]" s d0 f0] ok d f by (simp_all add: reserved_def)
      have "f_count (file_table ?u f1) = 0" using f by (simp add: take_fd_def upd_file_def)
      then have r: "reserved me [(d1, f1), (d0, f0)] ?t" "fd_guar me ?u ?t"
        using take_reserved [OF r0(1), of d1 f1] d by (simp_all add: filp_fd_updates)
      have body: "until me [(d1, f1), (d0, f0)] (bind get_pipe_inode (\<lambda>p.
         case p of
           None \<Rightarrow>
             seq (modify (set_filp d1 None))
            (seq (modify (set_filp d0 None))
            (seq (modify (upd_file f1 (\<lambda>p. p\<lparr>f_count := 0\<rparr>)))
            (seq (modify (upd_file f0 (\<lambda>p. p\<lparr>f_count := 0\<rparr>))) (ret (-1)))))
         | Some ino \<Rightarrow>
             seq (modify (upd_file f0 (\<lambda>p. p\<lparr>f_inode := Some ino, f_pos := 0, f_mode := 1\<rparr>)))
            (seq (modify (upd_file f1 (\<lambda>p. p\<lparr>f_inode := Some ino, f_pos := 0, f_mode := 2\<rparr>)))
            (seq (put_fs_long (word_of_nat d0) fildes)
            (seq (put_fs_long (word_of_nat d1) (fildes + 4))
                 (ret (0 :: u32)))))))" (is "until _ _ ?body")
        by (intro until_bind until_case_option until_pipe_fail f d until_seq until_upholds weak.keeps_ret upkeep_intros) simp_all
      have "sys_pipe fildes n s = ?body n ?t"
        using False \<open>\<not> length ?fs < 2\<close> cur take_two [OF f(5) d(5)]
        unfolding sys_pipe_def Let_def f01 [symmetric] d01 [symmetric]
        by (simp add: bind_exec [of "gets _"] gets_exec seq_exec [of "modify _"] modify_exec f01 [symmetric] d01 [symmetric] del: One_nat_def)
      then have "safe (fd_contract me) ?t (\<lambda>_. fd_ok me) (sys_pipe fildes n s)" using body r by (simp only: until_def)
      then show ?thesis by (rule strict.safe_earlier) (use fd_guar_trans [OF r0(2) r(2)] in simp)
    qed
  qed
qed

end
