(* ===== verification/Tasks.thy ===== *)
theory Tasks
  imports Process
begin

text \<open>
  Properties of processes: the search for a process number ends with a fresh one, \<open>kill\<close> reaches
  exactly the tasks it may signal, and no sequence of identity calls gains an identity.
\<close>

section \<open>Process numbers\<close>

lemma pid_used_iff: "pid_used p s \<longleftrightarrow> (\<exists>i<NR_TASKS. task_used s i \<and> pid (tasks s i) = p)"
  by (auto simp: pid_used_def search_None_iff)

lemma pid_used_last [simp]: "pid_used p (s\<lparr>last_pid := q\<rparr>) = pid_used p s"
  by (simp add: pid_used_iff)

text \<open>The numbers tried: a cycle through the positive numbers of an \<open>int\<close>.\<close>

lemma next_pid_unat:
  assumes "unat p < 2147483648"
  shows "unat (next_pid p) = unat p mod 2147483647 + 1"
proof -
  have "unat (p + 1) = unat p + 1" using assms by (simp add: unat_word_ariths)
  then show ?thesis using assms by (auto simp: next_pid_def mod_if sless_0_iff)
qed

lemma next_pids_unat:
  assumes "unat p < 2147483648"
  shows "unat ((next_pid ^^ Suc k) p) = (unat p + k) mod 2147483647 + 1"
proof (induction k)
  case 0
  show ?case using next_pid_unat [OF assms] by simp
next
  case (Suc k)
  have "(unat p + k) mod 2147483647 < 2147483647" by simp
  then have "unat ((next_pid ^^ Suc k) p) < 2147483648" using Suc by linarith
  from next_pid_unat [OF this] have "unat ((next_pid ^^ Suc (Suc k)) p) = ((unat p + k) mod 2147483647 + 1) mod 2147483647 + 1"
    using Suc by simp
  then show ?case by (simp add: mod_Suc_eq)
qed

lemma mod_inj: "(a + i) mod m = (a + j) mod m \<Longrightarrow> i < m \<Longrightarrow> j < m \<Longrightarrow> i = j" for a i j m :: nat
proof (induction i j rule: linorder_wlog)
  case (le i j)
  then have "m dvd (a + j) - (a + i)" by (metis add_le_cancel_left mod_eq_dvd_iff_nat)
  then show ?case using le by (auto dest: dvd_imp_le)
qed auto

lemma fresh_pid_within:
  assumes "unat p < 2147483648"
  shows "\<exists>k<65. \<not> pid_used ((next_pid ^^ Suc k) p) s"
proof (rule ccontr)
  assume "\<not> ?thesis"
  then have all: "\<And>k. k < 65 \<Longrightarrow> pid_used ((next_pid ^^ Suc k) p) s" by blast
  have inj: "inj_on (\<lambda>k. (next_pid ^^ Suc k) p) {..<65}"
  proof (rule inj_onI)
    fix i j :: nat
    assume ij: "i \<in> {..<65}" "j \<in> {..<65}" "(next_pid ^^ Suc i) p = (next_pid ^^ Suc j) p"
    from arg_cong [OF ij(3), of unat] show "i = j"
      using ij(1,2) mod_inj [of "unat p" i 2147483647 j] by (simp only: next_pids_unat [OF assms]) simp
  qed
  have "(\<lambda>k. (next_pid ^^ Suc k) p) ` {..<65} \<subseteq> (\<lambda>i. pid (tasks s i)) ` {..<NR_TASKS}"
    using all unfolding pid_used_iff by (force simp del: funpow.simps)
  then have "card {..<65 :: nat} \<le> card ((\<lambda>i. pid (tasks s i)) ` {..<NR_TASKS})"
    unfolding card_image [OF inj, symmetric] by (rule card_mono [rotated]) simp
  also have "\<dots> \<le> NR_TASKS" using card_image_le [of "{..<NR_TASKS}"] by force
  finally show False by simp
qed

lemma pid_step_exec:
  "pid_step u n s = Done (if pid_used (next_pid (last_pid s)) s then Inl () else Inr ()) (s\<lparr>last_pid := next_pid (last_pid s)\<rparr>)"
  by (simp add: pid_step_def kexec)

lemma pid_loop:
  assumes "\<exists>k<m. \<not> pid_used ((next_pid ^^ Suc k) (last_pid s)) s"
  shows "\<exists>k<m. loop_fuel m pid_step () n s = Done () (s\<lparr>last_pid := (next_pid ^^ Suc k) (last_pid s)\<rparr>) \<and>
     \<not> pid_used ((next_pid ^^ Suc k) (last_pid s)) s"
  using assms
proof (induction m arbitrary: s)
  case (Suc m)
  show ?case
  proof (cases "pid_used (next_pid (last_pid s)) s")
    case False
    then show ?thesis by (intro exI [of _ 0]) (simp add: pid_step_exec [of "()" n s] kexec)
  next
    case True
    let ?s = "s\<lparr>last_pid := next_pid (last_pid s)\<rparr>"
    obtain k where k: "k < Suc m" "\<not> pid_used ((next_pid ^^ Suc k) (last_pid s)) s" using Suc.prems by blast
    obtain j where j: "k = Suc j" using True k(2) by (cases k) auto
    have shift: "(next_pid ^^ Suc i) (next_pid p) = (next_pid ^^ Suc (Suc i)) p" for i p by (simp add: funpow_swap1)
    have "\<exists>k<m. \<not> pid_used ((next_pid ^^ Suc k) (last_pid ?s)) ?s"
      using k j by (intro exI [of _ j]) (simp add: shift del: funpow.simps)
    from Suc.IH [OF this] obtain i where i: "i < m"
      "loop_fuel m pid_step () n ?s = Done () (?s\<lparr>last_pid := (next_pid ^^ Suc i) (last_pid ?s)\<rparr>)"
      "\<not> pid_used ((next_pid ^^ Suc i) (last_pid ?s)) ?s" by blast
    then show ?thesis using True
      by (intro exI [of _ "Suc i"]) (simp add: pid_step_exec [of "()" n s] bind_exec shift del: funpow.simps)
  qed
qed simp

lemma find_empty_process_exec:
  assumes "unat (last_pid s) < 2147483648" and "65 \<le> n"
  shows "\<exists>p. find_empty_process n s = Done (case search (\<lambda>i. \<not> task_used s i) 1 63 of Some i \<Rightarrow> word_of_nat i | None \<Rightarrow> - EAGAIN)
       (s\<lparr>last_pid := p\<rparr>) \<and> 0 <s p \<and> (\<forall>i<NR_TASKS. task_used s i \<longrightarrow> pid (tasks s i) \<noteq> p)"
proof -
  obtain k where "k < n" "\<not> pid_used ((next_pid ^^ Suc k) (last_pid s)) s"
    using fresh_pid_within [OF assms(1), of s] assms(2) by (auto intro: less_le_trans)
  then obtain k where k: "loop_fuel n pid_step () n s = Done () (s\<lparr>last_pid := (next_pid ^^ Suc k) (last_pid s)\<rparr>)"
    "\<not> pid_used ((next_pid ^^ Suc k) (last_pid s)) s"
    using pid_loop [of n s n] by blast
  let ?p = "(next_pid ^^ Suc k) (last_pid s)"
  have u: "unat ?p = (unat (last_pid s) + k) mod 2147483647 + 1" by (rule next_pids_unat [OF assms(1)])
  have "(unat (last_pid s) + k) mod 2147483647 < 2147483647" by simp
  with u have "0 < unat ?p" "unat ?p < 2147483648" by linarith+
  then have "0 < sint ?p" using sint_unat [of ?p] by linarith
  then have "0 <s ?p" by (simp add: word_sless_alt)
  then show ?thesis using k by (intro exI [of _ ?p]) (simp add: find_empty_process_def loop_def kexec pid_used_iff del: funpow.simps)
qed

text \<open>
  \<open>find_empty_process\<close> always ends, after at most 65 rounds: from a counter that is not
  negative, whatever the 64 task slots hold and through the wrap-around of the counter, it
  leaves in \<open>last_pid\<close> a positive number that no task has, and it returns the least free slot
  from 1 on, or \<open>-EAGAIN\<close> when there is none. Nothing else changes.
\<close>

theorem find_empty_process_fresh:
  assumes "unat (last_pid s) < 2147483648" and "65 \<le> n"
  shows "\<exists>p. find_empty_process n s = Done (case search (\<lambda>i. \<not> task_used s i) 1 63 of Some i \<Rightarrow> word_of_nat i | None \<Rightarrow> - EAGAIN)
       (s\<lparr>last_pid := p\<rparr>) \<and> 0 <s p \<and> (\<forall>i<NR_TASKS. task_used s i \<longrightarrow> pid (tasks s i) \<noteq> p)"
  using assms by (rule find_empty_process_exec)

theorem find_empty_process_fresh_witness:
  "\<exists>p. find_empty_process 65 (boot_state\<lparr>last_pid := 0x7fffffff\<rparr>) = Done 1 (boot_state\<lparr>last_pid := p\<rparr>) \<and> 0 <s p \<and> p \<noteq> 0"
proof -
  have "search (\<lambda>i. \<not> task_used (boot_state\<lparr>last_pid := 0x7fffffff\<rparr>) i) 1 63 = Some 1"
    by (subst search_unfold) (simp add: boot_state_def)
  then show ?thesis using find_empty_process_fresh [of "boot_state\<lparr>last_pid := 0x7fffffff\<rparr>" 65] by (auto simp: boot_state_def INIT_TASK_def)
qed

section \<open>Identities\<close>

text \<open>A task makes identity calls one after the other.\<close>

primrec setreuids :: "(u32 \<times> u32) list \<Rightarrow> unit kernel" where
  "setreuids [] = skip"
| "setreuids (c # cs) = bind (sys_setreuid (fst c) (snd c)) (\<lambda>_. setreuids cs)"

definition ids :: "kstate \<Rightarrow> u16 set" where
  "ids s = {uid (cur s), euid (cur s)}"

lemma cur_upd_cur [simp]: "cur (upd_cur f s) = f (cur s)"
  by (simp add: cur_def upd_cur_def upd_task_def)

text \<open>Only the two identities of the running task may differ.\<close>

definition same_but_ids :: "kstate \<Rightarrow> kstate \<Rightarrow> bool" where
  "same_but_ids s t \<longleftrightarrow> (\<exists>u e. t = upd_cur (\<lambda>p. p\<lparr>uid := u, euid := e\<rparr>) s)"

lemma same_but_idsI [intro]:
  "same_but_ids s s"
  "same_but_ids s t \<Longrightarrow> same_but_ids s (upd_cur (\<lambda>p. p\<lparr>uid := u\<rparr>) t)"
  "same_but_ids s t \<Longrightarrow> same_but_ids s (upd_cur (\<lambda>p. p\<lparr>euid := u\<rparr>) t)"
proof -
  have "s = upd_cur (\<lambda>p. p\<lparr>uid := uid (cur s), euid := euid (cur s)\<rparr>) s"
    by (simp add: upd_cur_def upd_task_def cur_def fun_upd_idem)
  then show "same_but_ids s s" unfolding same_but_ids_def by blast
  assume "same_but_ids s t"
  then obtain v e where t: "t = upd_cur (\<lambda>p. p\<lparr>uid := v, euid := e\<rparr>) s" by (auto simp: same_but_ids_def)
  have "upd_cur (\<lambda>p. p\<lparr>uid := u\<rparr>) t = upd_cur (\<lambda>p. p\<lparr>uid := u, euid := e\<rparr>) s"
    "upd_cur (\<lambda>p. p\<lparr>euid := u\<rparr>) t = upd_cur (\<lambda>p. p\<lparr>uid := v, euid := u\<rparr>) s"
    by (cases "tasks s (current s)", simp_all add: t upd_cur_def upd_task_def)+
  then show "same_but_ids s (upd_cur (\<lambda>p. p\<lparr>uid := u\<rparr>) t)" "same_but_ids s (upd_cur (\<lambda>p. p\<lparr>euid := u\<rparr>) t)"
    unfolding same_but_ids_def by blast+
qed

lemma same_but_ids_trans:
  assumes "same_but_ids s t" "same_but_ids t u"
  shows "same_but_ids s u"
proof -
  obtain v e v' e' where "t = upd_cur (\<lambda>p. p\<lparr>uid := v, euid := e\<rparr>) s" "u = upd_cur (\<lambda>p. p\<lparr>uid := v', euid := e'\<rparr>) t"
    using assms by (auto simp: same_but_ids_def)
  then have "u = upd_cur (\<lambda>p. p\<lparr>uid := v', euid := e'\<rparr>) s" by (simp add: upd_cur_def upd_task_def)
  then show ?thesis unfolding same_but_ids_def by blast
qed

lemma sys_setreuid_exec:
  "sys_setreuid ru eu n s =
     (let old = uid (cur s); s1 = (if 0 <s ru then upd_cur (\<lambda>t. t\<lparr>uid := ucast ru\<rparr>) s else s) in
      if 0 <s ru \<and> \<not> (ucast (euid (cur s)) = ru \<or> ucast old = ru \<or> suser s) then Done (- EPERM) s
      else if \<not> 0 <s eu then Done 0 s1
      else if ucast old = eu \<or> ucast (euid (cur s1)) = eu \<or> suser s1 then Done 0 (upd_cur (\<lambda>t. t\<lparr>euid := ucast eu\<rparr>) s1)
      else Done (- EPERM) (upd_cur (\<lambda>t. t\<lparr>uid := old\<rparr>) s1))"
  by (simp add: sys_setreuid_def kexec Let_def)

lemma sys_setreuid_ids:
  assumes "\<not> suser s"
  shows "\<exists>r t. sys_setreuid ru eu n s = Done r t \<and> ids t \<subseteq> ids s \<and> \<not> suser t \<and> same_but_ids s t \<and> (r = - EPERM \<longrightarrow> ids t = ids s)"
proof -
  let ?s = "if 0 <s ru then upd_cur (\<lambda>t. t\<lparr>uid := ucast ru\<rparr>) s else s"
  have e: "euid (cur ?s) = euid (cur s)" by simp
  have su: "\<not> suser ?s" using assms by (simp add: suser_def)
  show ?thesis
  proof (cases "0 <s ru \<and> \<not> (ucast (euid (cur s)) = ru \<or> ucast (uid (cur s)) = ru \<or> suser s)")
    case True
    then show ?thesis using assms by (auto simp: sys_setreuid_exec Let_def)
  next
    case False
    then have u: "uid (cur ?s) \<in> ids s" using assms by (auto simp: ids_def ucast_u16)
    have fr: "same_but_ids s ?s" by auto
    consider (none) "\<not> 0 <s eu" | (set) "0 <s eu" "ucast (uid (cur s)) = eu \<or> ucast (euid (cur s)) = eu"
      | (deny) "0 <s eu" "\<not> (ucast (uid (cur s)) = eu \<or> ucast (euid (cur s)) = eu)" by blast
    then show ?thesis
    proof cases
      case none
      then have "sys_setreuid ru eu n s = Done 0 ?s" unfolding sys_setreuid_exec Let_def if_not_P [OF False] by simp
      then show ?thesis using u fr su by (auto simp: ids_def e)
    next
      case set
      then have "sys_setreuid ru eu n s = Done 0 (upd_cur (\<lambda>t. t\<lparr>euid := ucast eu\<rparr>) ?s)"
        unfolding sys_setreuid_exec Let_def if_not_P [OF False] e by auto
      moreover have "ucast eu \<in> ids s" using set(2) by (auto simp: ids_def ucast_u16)
      moreover have "ucast eu \<noteq> (0 :: u16)" using set by (auto simp: word_sless_alt ucast_u16)
      ultimately show ?thesis using u fr by (auto simp: ids_def suser_def)
    next
      case deny
      then have "sys_setreuid ru eu n s = Done (- EPERM) (upd_cur (\<lambda>t. t\<lparr>uid := uid (cur s)\<rparr>) ?s)"
        unfolding sys_setreuid_exec Let_def if_not_P [OF False] e using su by simp
      then show ?thesis using fr assms by (auto simp: ids_def suser_def e)
    qed
  qed
qed

text \<open>
  C28: No sequence of \<open>setuid\<close> and \<open>setreuid\<close> calls of an unprivileged task gains an identity:
  the calls all return, the real and effective user stay among those the task started with, it
  does not become the superuser, and nothing but these two fields of the task changes.
\<close>

theorem setreuids_safe:
  assumes "\<not> suser s"
  shows "returns (setreuids cs n s) (\<lambda>_ t. ids t \<subseteq> ids s \<and> \<not> suser t \<and> same_but_ids s t)"
  using assms
proof (induction cs arbitrary: s)
  case Nil
  then show ?case by (auto simp: kexec)
next
  case (Cons c cs)
  obtain r t where t: "sys_setreuid (fst c) (snd c) n s = Done r t" "ids t \<subseteq> ids s" "\<not> suser t" "same_but_ids s t"
    using sys_setreuid_ids [OF Cons.prems] by blast
  have "returns (setreuids cs n t) (\<lambda>_ u. ids u \<subseteq> ids s \<and> \<not> suser u \<and> same_but_ids s u)"
    by (rule returns_mono [OF Cons.IH [OF t(3)]]) (use t same_but_ids_trans in blast)
  then show ?case using t(1) by (simp add: bind_exec)
qed

theorem setreuids_safe_witness:
  "let s = upd_cur (\<lambda>p. p\<lparr>uid := 7, euid := 9\<rparr>) boot_state
   in returns (setreuids [(9, 7), (0, 0), (1, 1)] 0 s) (\<lambda>_ t. ids t \<subseteq> ids s \<and> \<not> suser t \<and> same_but_ids s t)"
  unfolding Let_def by (rule setreuids_safe) (simp add: suser_def)

section \<open>Sending signals\<close>

text \<open>The tasks \<open>kill\<close> matches, those it may signal, and the state in which they are signalled.\<close>

definition may_signal :: "bool \<Rightarrow> kstate \<Rightarrow> nat \<Rightarrow> bool" where
  "may_signal priv s i \<longleftrightarrow> priv \<or> euid (cur s) = euid (tasks s i) \<or> suser s"

definition signalled :: "nat \<Rightarrow> (nat \<Rightarrow> bool) \<Rightarrow> kstate \<Rightarrow> kstate" where
  "signalled sig M s = s\<lparr>tasks := (\<lambda>i. if M i then (tasks s i)\<lparr>t_signal := t_signal (tasks s i) OR push_bit (sig - 1) 1\<rparr> else tasks s i)\<rparr>"

lemma signalled_none: "(\<And>i. \<not> M i) \<Longrightarrow> signalled sig M s = s"
  by (simp add: signalled_def)

lemma signalled_raise:
  "\<not> M i \<Longrightarrow> signalled sig M (raise_signal sig i s) = signalled sig (\<lambda>j. j = i \<or> M j) s"
  by (auto simp: signalled_def raise_signal_def upd_task_def fun_eq_iff intro!: arg_cong [of _ _ "\<lambda>t. s\<lparr>tasks := t\<rparr>"])

lemma raise_signal_frame:
  "task_used (raise_signal sig i s) = task_used s" "may_signal priv (raise_signal sig i s) = may_signal priv s"
  by (auto simp: raise_signal_def upd_task_def may_signal_def suser_def cur_def fun_eq_iff)

lemma kill_where_exec:
  assumes sig: "\<not> (sig <s 1 \<or> 32 <s sig)" and "distinct is"
    and P: "\<And>s t f. P s (t\<lparr>t_signal := f\<rparr>) = P s t" "\<And>s t i. P (raise_signal (unat sig) i s) t = P s t"
  shows "kill_where sig priv P is rv n s =
     Done (if \<exists>i\<in>set is. task_used s i \<and> P s (tasks s i) \<and> \<not> may_signal priv s i then - EPERM else rv)
       (signalled (unat sig) (\<lambda>i. i \<in> set is \<and> task_used s i \<and> P s (tasks s i) \<and> may_signal priv s i) s)"
  using assms(2)
proof (induction "is" arbitrary: rv s)
  case Nil
  show ?case by (simp add: kexec signalled_none)
next
  case (Cons i "is")
  let ?r = "raise_signal (unat sig) i s"
  have same: "P ?r (tasks ?r j) = P s (tasks s j)" for j
    by (simp add: P(2)) (simp add: raise_signal_def upd_task_def P(1))
  consider (no) "\<not> (task_used s i \<and> P s (tasks s i))"
    | (deny) "task_used s i \<and> P s (tasks s i)" "\<not> may_signal priv s i"
    | (hit) "task_used s i \<and> P s (tasks s i)" "may_signal priv s i" by blast
  then show ?case
  proof cases
    case no
    then show ?thesis using Cons by (simp add: kexec) (auto intro!: arg_cong [of _ _ "\<lambda>M. signalled (unat sig) M s"])
  next
    case deny
    then have "kill_where sig priv P (i # is) rv n s = kill_where sig priv P is (- EPERM) n s"
      using sig by (simp add: kexec send_sig_def may_signal_def)
    then show ?thesis using Cons deny by simp (auto intro!: arg_cong [of _ _ "\<lambda>M. signalled (unat sig) M s"])
  next
    case hit
    then have "kill_where sig priv P (i # is) rv n s = kill_where sig priv P is rv n ?r"
      using sig by (auto simp: kexec send_sig_def may_signal_def)
    then show ?thesis using Cons hit
      by (simp add: same raise_signal_frame signalled_raise) (auto intro!: arg_cong [of _ _ "\<lambda>M. signalled (unat sig) M s"])
  qed
qed

text \<open>
  C29: \<open>kill\<close> with a positive process number and a valid signal always returns at once. It raises
  the signal in exactly the tasks of slots 1 to 63 that have the number and that the caller may
  signal, and it reports \<open>-EPERM\<close> exactly when one with the number may not be signalled; a
  number nobody has is not an error. With a number below \<open>-1\<close>, the code for process groups is
  never reached: no signal is raised and the result is 0.
\<close>

theorem sys_kill_signals:
  assumes "\<not> (sig <s 1 \<or> 32 <s sig)"
  shows "(0 <s p \<longrightarrow> sys_kill p sig n s =
       Done (if \<exists>i\<in>{1..<NR_TASKS}. task_used s i \<and> pid (tasks s i) = p \<and> \<not> may_signal False s i then - EPERM else 0)
         (signalled (unat sig) (\<lambda>i. i \<in> {1..<NR_TASKS} \<and> task_used s i \<and> pid (tasks s i) = p \<and> may_signal False s i) s)) \<and>
     (p <s -1 \<longrightarrow> sys_kill p sig n s = Done 0 s)"
proof -
  have "distinct (rev [1..<NR_TASKS])" "set (rev [1..<NR_TASKS]) = {1..<NR_TASKS}" by (simp_all del: upt_rec_numeral)
  note run = kill_where_exec [OF assms this(1), of "\<lambda>s t. pid t = p" False 0 n s, unfolded this(2)]
  show ?thesis
  proof (intro conjI impI)
    assume "0 <s p"
    then have "p \<noteq> 0" by auto
    then have "sys_kill p sig n s = kill_where sig False (\<lambda>s t. pid t = p) (rev [1..<NR_TASKS]) 0 n s"
      using \<open>0 <s p\<close> by (simp add: sys_kill_def Let_def del: upt_rec_numeral)
    then show "sys_kill p sig n s =
       Done (if \<exists>i\<in>{1..<NR_TASKS}. task_used s i \<and> pid (tasks s i) = p \<and> \<not> may_signal False s i then - EPERM else 0)
         (signalled (unat sig) (\<lambda>i. i \<in> {1..<NR_TASKS} \<and> task_used s i \<and> pid (tasks s i) = p \<and> may_signal False s i) s)"
      using run by simp
  next
    assume "p <s -1"
    then have "p \<noteq> 0" "\<not> 0 <s p" "p \<noteq> -1" by (auto simp: word_sless_alt)
    then show "sys_kill p sig n s = Done 0 s" by (simp add: sys_kill_def Let_def kexec)
  qed
qed

theorem sys_kill_signals_witness:
  "sys_kill 5 9 0 (boot_state\<lparr>task_used := (\<lambda>i. i = 0 \<or> i = 1), tasks := (\<lambda>i. INIT_TASK\<lparr>pid := 5\<rparr>)\<rparr>) =
     Done 0 (boot_state\<lparr>task_used := (\<lambda>i. i = 0 \<or> i = 1),
       tasks := (\<lambda>i. if i = 1 then INIT_TASK\<lparr>pid := 5, t_signal := 0x100\<rparr> else INIT_TASK\<lparr>pid := 5\<rparr>)\<rparr>)"
  using sys_kill_signals [of 9 5 0 "boot_state\<lparr>task_used := (\<lambda>i. i = 0 \<or> i = 1), tasks := (\<lambda>i. INIT_TASK\<lparr>pid := 5\<rparr>)\<rparr>"]
  by (simp add: word_sless_alt may_signal_def signalled_def cur_def) (auto simp: INIT_TASK_def fun_eq_iff)

end
