(* ===== verification/Address_Space.thy ===== *)
theory Address_Space
  imports Memory
begin

text \<open>
  User address spaces as the page tables describe them: the entries of a page directory, the
  well-formedness of the tree of tables, and what duplication with copy-on-write
  (\<open>copy_page_tables\<close>) and write-unsharing (\<open>un_wp_page\<close>) do to it.
\<close>

section \<open>The tree of a page directory\<close>

definition valid :: "u32 \<Rightarrow> bool" where
  "valid e \<longleftrightarrow> e AND PTE_V \<noteq> 0"

definition cow :: "u32 \<Rightarrow> u32" where
  "cow e = (if valid e then clear_W e else e)"

definition table :: "kstate \<Rightarrow> u32 \<Rightarrow> nat \<Rightarrow> u32" where
  "table s pgd i = pte_phys (ram s (word_at pgd i))"

definition used :: "kstate \<Rightarrow> u32 \<Rightarrow> bool" where
  "used s p \<longleftrightarrow> is_frame p \<and> mem_map s (MAP_NR p) \<noteq> 0"

definition has_table :: "kstate \<Rightarrow> u32 \<Rightarrow> nat \<Rightarrow> bool" where
  "has_table s pgd i \<longleftrightarrow> i < USER_PGD_ENTRIES \<and> valid (ram s (word_at pgd i))"

definition is_table :: "kstate \<Rightarrow> u32 \<Rightarrow> u32 \<Rightarrow> bool" where
  "is_table s pgd q \<longleftrightarrow> q = pgd \<or> (\<exists>i. has_table s pgd i \<and> q = table s pgd i)"

text \<open>
  A well-formed space: directory, tables and mapped pages are allocated frames of main
  memory, no two directory entries share a table, and no table is itself mapped.
\<close>

definition wf_space :: "kstate \<Rightarrow> u32 \<Rightarrow> bool" where
  "wf_space s pgd \<longleftrightarrow>
     used s pgd \<and>
     (\<forall>i. has_table s pgd i \<longrightarrow> used s (table s pgd i) \<and> table s pgd i \<noteq> pgd) \<and>
     (\<forall>i i'. has_table s pgd i \<and> has_table s pgd i' \<and> table s pgd i = table s pgd i' \<longrightarrow> i = i') \<and>
     (\<forall>i j. has_table s pgd i \<and> j < 1024 \<and> valid (ram s (word_at (table s pgd i) j))
        \<longrightarrow> used s (pte_phys (ram s (word_at (table s pgd i) j))) \<and>
            \<not> is_table s pgd (pte_phys (ram s (word_at (table s pgd i) j))))"

text \<open>How many leaf entries of a table, and of a whole space, map frame number \<open>f\<close>.\<close>

definition refs_pt :: "kstate \<Rightarrow> u32 \<Rightarrow> nat \<Rightarrow> nat \<Rightarrow> nat" where
  "refs_pt s pt m f =
     (\<Sum>j<m. if valid (ram s (word_at pt j)) \<and> MAP_NR (pte_phys (ram s (word_at pt j))) = f
            then 1 else 0)"

definition refs :: "kstate \<Rightarrow> u32 \<Rightarrow> nat \<Rightarrow> nat \<Rightarrow> nat" where
  "refs s pgd m f = (\<Sum>i<m. if has_table s pgd i then refs_pt s (table s pgd i) 1024 f else 0)"

lemma clear_W_bit: "bit (clear_W e) n \<longleftrightarrow> bit e n \<and> n \<noteq> 2"
proof -
  have "(4 :: u32) = 2 ^ 2" by simp
  then have "bit (4 :: u32) n \<longleftrightarrow> n = 2"
    by (auto simp only: bit_exp_iff possible_bit_word len_bit0 len_num1)
  then show ?thesis
    unfolding clear_W_def by (auto simp only: bit_and_iff bit_not_iff possible_bit_word
        dest: bit_imp_le_length)
qed

lemma valid_bit: "valid e \<longleftrightarrow> bit e 0"
  by (simp add: valid_def and_one_eq odd_iff_mod_2_eq_one bit_0)

lemma valid_clear_W [simp]: "valid (clear_W e) = valid e"
  by (simp add: valid_bit clear_W_bit)

lemma valid_cow [simp]: "valid (cow e) = valid e"
  by (simp add: cow_def)

lemma pte_phys_clear_W [simp]: "pte_phys (clear_W e) = pte_phys e"
  by (rule bit_word_eqI) (auto simp: pte_phys_bit clear_W_bit)

lemma pte_phys_cow [simp]: "pte_phys (cow e) = pte_phys e"
  by (simp add: cow_def)

lemma cow_not_writable: "valid e \<Longrightarrow> cow e AND PTE_W = 0"
  unfolding cow_def clear_W_def by (simp add: and.assoc)

lemma valid_table_entry: "valid (phys_ppn p OR PTE_V)"
  by (simp add: valid_def valid_ppn)

lemma pte_phys_table_entry: "is_frame p \<Longrightarrow> pte_phys (phys_ppn p OR PTE_V) = p"
  by (simp add: pte_phys_ppn is_frame_simps)

section \<open>Duplicating one table\<close>

definition copied_table :: "kstate \<Rightarrow> u32 \<Rightarrow> u32 \<Rightarrow> nat \<Rightarrow> kstate \<Rightarrow> bool" where
  "copied_table s pt nt m t \<longleftrightarrow>
     mm_frame s t \<and>
     (\<forall>j<1024. ram t (word_at pt j) =
        (if j < m then cow (ram s (word_at pt j)) else ram s (word_at pt j))) \<and>
     (\<forall>j<1024. ram t (word_at nt j) =
        (if j < m \<and> valid (ram s (word_at pt j)) then cow (ram s (word_at pt j))
         else ram s (word_at nt j))) \<and>
     (\<forall>q j. page_aligned q \<and> q \<noteq> pt \<and> q \<noteq> nt \<and> j < 1024 \<longrightarrow> ram t (word_at q j) = ram s (word_at q j)) \<and>
     (\<forall>f. mem_map t f = mem_map s f + of_nat (refs_pt s pt m f))"

lemma copy_pt_entry_step:
  assumes frames: "is_frame pt" "is_frame nt" "pt \<noteq> nt" and j: "j < 1024"
    and leaf: "valid (ram s (word_at pt j)) \<Longrightarrow> is_frame (pte_phys (ram s (word_at pt j)))"
    and P: "copied_table s pt nt j t"
  shows "returns (copy_pt_entry pt nt j n t) (\<lambda>_. copied_table s pt nt (Suc j))"
proof -
  let ?e = "ram s (word_at pt j)"
  from P j have e: "ram t (word_at pt j) = ?e"
    by (simp add: copied_table_def)
  note al = is_frame_simps(1) [OF frames(1)] is_frame_simps(1) [OF frames(2)]
  show ?thesis
  proof (cases "valid ?e")
    case False
    then have "copied_table s pt nt (Suc j) t"
      using P by (auto simp: copied_table_def refs_pt_def less_Suc_eq cow_def)
    with False e show ?thesis
      by (simp add: copy_pt_entry_def kexec valid_def)
  next
    case True
    with leaf have fr: "is_frame (pte_phys ?e)" by simp
    let ?f = "MAP_NR (pte_phys ?e)"
    let ?t = "set_map ?f (mem_map t ?f + 1)
                (set_ram (word_at nt j) (cow ?e) (set_ram (word_at pt j) (cow ?e) t))"
    have run: "copy_pt_entry pt nt j n t = Done () ?t"
      using True e fr is_frame_MAP_NR(1) [OF fr]
      by (simp add: copy_pt_entry_def kexec valid_def cow_def Let_def map_at_def is_frame_simps
          set_ram_def)
    have "mm_frame s ?t" using P by (simp add: copied_table_def)
    moreover have "copied_table s pt nt (Suc j) ?t" if "mm_frame s ?t"
      using P True j al frames(3) that
      by (auto simp: copied_table_def set_map_def set_ram_def refs_pt_def less_Suc_eq word_at_eq_iff)
    ultimately have "copied_table s pt nt (Suc j) ?t" by simp
    with run show ?thesis by simp
  qed
qed

lemma copy_table:
  assumes "is_frame pt" "is_frame nt" "pt \<noteq> nt"
    and "\<And>j. j < 1024 \<Longrightarrow> valid (ram s (word_at pt j)) \<Longrightarrow> is_frame (pte_phys (ram s (word_at pt j)))"
  shows "returns (for_each [0..<1024] (copy_pt_entry pt nt) n s) (\<lambda>_. copied_table s pt nt 1024)"
proof -
  have "copied_table s pt nt 0 s"
    by (simp add: copied_table_def refs_pt_def)
  then have "returns (for_each [0..<1024] (copy_pt_entry pt nt) n s)
      (\<lambda>_. copied_table s pt nt (length [0..<1024]))"
    by (rule returns_for_each) (use assms copy_pt_entry_step in simp)
  then show ?thesis by simp
qed

section \<open>Duplicating a whole space\<close>

text \<open>
  \<open>child_table s t e q\<close>: \<open>q\<close> is a table that was free in \<open>s\<close> and in \<open>t\<close> holds the
  write-protected copies of the valid entries of the table \<open>pt\<close> of \<open>s\<close>.
\<close>

definition child_table :: "kstate \<Rightarrow> kstate \<Rightarrow> u32 \<Rightarrow> u32 \<Rightarrow> bool" where
  "child_table s t pt q \<longleftrightarrow>
     is_frame q \<and> mem_map s (MAP_NR q) = 0 \<and> mem_map t (MAP_NR q) = 1 \<and>
     (\<forall>j<1024. ram t (word_at q j) =
        (if valid (ram s (word_at pt j)) then cow (ram s (word_at pt j)) else 0))"

definition copied_dirs :: "kstate \<Rightarrow> u32 \<Rightarrow> u32 \<Rightarrow> nat \<Rightarrow> kstate \<Rightarrow> bool" where
  "copied_dirs s fd td k t \<longleftrightarrow>
     mm_frame s t \<and>
     (\<forall>i<1024. ram t (word_at fd i) = ram s (word_at fd i)) \<and>
     (\<forall>i<1024. k \<le> i \<or> \<not> has_table s fd i \<longrightarrow> ram t (word_at td i) = ram s (word_at td i)) \<and>
     (\<forall>i j. has_table s fd i \<and> j < 1024 \<longrightarrow>
        ram t (word_at (table s fd i) j) =
          (if i < k then cow (ram s (word_at (table s fd i) j)) else ram s (word_at (table s fd i) j))) \<and>
     (\<forall>i<k. has_table s fd i \<longrightarrow>
        (\<exists>q. child_table s t (table s fd i) q \<and> ram t (word_at td i) = phys_ppn q OR PTE_V)) \<and>
     (\<forall>f. mem_map s f \<noteq> 0 \<longrightarrow> mem_map t f = mem_map s f + of_nat (refs s fd k f)) \<and>
     (\<forall>q j. used s q \<and> q \<noteq> td \<and> (\<forall>i. has_table s fd i \<longrightarrow> q \<noteq> table s fd i) \<and> j < 1024 \<longrightarrow>
        ram t (word_at q j) = ram s (word_at q j))"

text \<open>The situation in which \<open>copy_process\<close> duplicates a space.\<close>

definition can_copy :: "kstate \<Rightarrow> u32 \<Rightarrow> u32 \<Rightarrow> bool" where
  "can_copy s fd td \<longleftrightarrow>
     wf_space s fd \<and> used s td \<and> td \<noteq> fd \<and>
     (\<forall>i. has_table s fd i \<longrightarrow> table s fd i \<noteq> td) \<and>
     (\<forall>i<USER_PGD_ENTRIES. \<not> valid (ram s (word_at td i))) \<and>
     (\<forall>f. unat (mem_map s f) + refs s fd USER_PGD_ENTRIES f < 256)"

lemma refs_mono: "k \<le> m \<Longrightarrow> refs s pgd k f \<le> refs s pgd m f"
  unfolding refs_def by (rule sum_mono2) auto

lemma copied_dirs_used:
  assumes can: "can_copy s fd td" and P: "copied_dirs s fd td k t" and k: "k \<le> USER_PGD_ENTRIES"
    and f: "mem_map s f \<noteq> 0"
  shows "mem_map t f \<noteq> 0"
proof -
  let ?r = "refs s fd k f"
  have "unat (mem_map s f) + refs s fd USER_PGD_ENTRIES f < 256"
    using can by (simp add: can_copy_def)
  with refs_mono [OF k, of s fd f] have "unat (mem_map s f) + ?r < 256"
    by linarith
  then have "unat (mem_map s f + of_nat ?r) = unat (mem_map s f) + ?r"
    by (simp add: unat_word_ariths unat_of_nat)
  moreover have "unat (mem_map s f) \<noteq> 0" using f by (simp add: unat_eq_zero)
  ultimately have "mem_map s f + of_nat ?r \<noteq> 0"
    by (metis add_is_0 unat_0)
  with P f show ?thesis by (simp add: copied_dirs_def)
qed

lemma refs_pt_unused:
  assumes "wf_space s fd" "has_table s fd i" "is_frame q" "mem_map s (MAP_NR q) = 0"
  shows "refs_pt s (table s fd i) 1024 (MAP_NR q) = 0"
proof -
  have "\<not> (valid (ram s (word_at (table s fd i) j)) \<and>
          MAP_NR (pte_phys (ram s (word_at (table s fd i) j))) = MAP_NR q)" if "j < 1024" for j
    using assms that unfolding wf_space_def used_def by metis
  then show ?thesis by (simp add: refs_pt_def)
qed

text \<open>One round of the outer loop, once a fresh table \<open>p\<close> has been found and filled.\<close>

lemma copied_dirs_round:
  assumes can: "can_copy s fd td" and k: "k < USER_PGD_ENTRIES" and P: "copied_dirs s fd td k t"
    and tab: "has_table s fd k" and g: "grabbed t p t1"
    and u: "copied_table (set_ram (word_at td k) (phys_ppn p OR PTE_V) t1) (table s fd k) p 1024 u"
  shows "copied_dirs s fd td (Suc k) u"
proof -
  let ?t2 = "set_ram (word_at td k) (phys_ppn p OR PTE_V) t1"
  let ?pt = "table s fd k"
  note gr = grabbed_simps [OF g]
  have wf: "wf_space s fd" using can by (simp add: can_copy_def)
  have unused: "mem_map s (MAP_NR p) = 0"
    using copied_dirs_used [OF can P] k gr(2) by (metis less_imp_le)
  then have np: "q \<noteq> p" if "used s q" for q using that by (auto simp: used_def)
  have ufd: "used s fd" and utd: "used s td" and ne: "td \<noteq> fd" "?pt \<noteq> td" "?pt \<noteq> fd"
    and upt: "\<And>i. has_table s fd i \<Longrightarrow> used s (table s fd i)"
    and nt: "\<And>i. has_table s fd i \<Longrightarrow> table s fd i \<noteq> td \<and> table s fd i \<noteq> fd"
    and inj: "\<And>i. has_table s fd i \<Longrightarrow> table s fd i = ?pt \<longleftrightarrow> i = k"
    using can tab by (auto simp: can_copy_def wf_space_def)
  have al: "page_aligned q" if "used s q" for q using that by (simp add: used_def is_frame_simps)
  have alp: "page_aligned p" using gr(1) by (rule is_frame_simps)
  \<comment> \<open>what the two allocating steps leave of an aligned page other than \<open>p\<close>\<close>
  have r2: "ram ?t2 (word_at q j) =
      (if q = td \<and> j = k then phys_ppn p OR PTE_V else ram t (word_at q j))"
    if "page_aligned q" "q \<noteq> p" "j < 1024" for q j
    using that k gr(5) [of q j] al [OF utd] by (simp add: set_ram_def word_at_eq_iff)
  have p2: "ram ?t2 (word_at p j) = 0" if "j < 1024" for j
    using that k gr(4) [OF that] np [OF utd] al [OF utd] alp by (simp add: set_ram_def word_at_eq_iff)
  have pt2: "ram ?t2 (word_at ?pt j) = ram s (word_at ?pt j)" if "j < 1024" for j
    using r2 [of ?pt j] that P tab al [OF upt [OF tab]] np [OF upt [OF tab]] ne
    by (simp add: copied_dirs_def)
  have m2: "mem_map ?t2 = (mem_map t)(MAP_NR p := 1)"
    using gr(3) by (simp add: set_ram_def)
  have refs2: "refs_pt ?t2 ?pt 1024 f = refs_pt s ?pt 1024 f" for f
    unfolding refs_pt_def by (rule sum.cong) (simp_all add: pt2)
  \<comment> \<open>and what the inner loop makes of that\<close>
  have other: "ram u (word_at q j) =
      (if q = td \<and> j = k then phys_ppn p OR PTE_V else ram t (word_at q j))"
    if "page_aligned q" "q \<noteq> p" "q \<noteq> ?pt" "j < 1024" for q j
    using u r2 [OF that(1,2,4)] that by (simp add: copied_table_def)
  have mu: "mem_map u f = (if f = MAP_NR p then 1 else mem_map t f) + of_nat (refs_pt s ?pt 1024 f)" for f
    using u m2 refs2 by (simp add: copied_table_def)
  have fresh: "mem_map u (MAP_NR q) = (if q = p then 1 else mem_map t (MAP_NR q))"
    if "is_frame q" "mem_map s (MAP_NR q) = 0" for q
    using mu [of "MAP_NR q"] refs_pt_unused [OF wf tab that] MAP_NR_inj [OF that(1) gr(1)] by simp
  show ?thesis
    unfolding copied_dirs_def
  proof (intro conjI allI impI)
    have "mm_frame s t" "mm_frame ?t2 u" "mm_frame t1 ?t2"
      using P u by (simp_all add: copied_dirs_def copied_table_def)
    with gr(6) show "mm_frame s u" by (blast intro: mm_frame_trans)
  next
    fix i :: nat assume "i < 1024"
    then show "ram u (word_at fd i) = ram s (word_at fd i)"
      using other [of fd i] P al [OF ufd] np [OF ufd] ne by (simp add: copied_dirs_def)
  next
    fix i :: nat assume "i < 1024" "Suc k \<le> i \<or> \<not> has_table s fd i"
    then show "ram u (word_at td i) = ram s (word_at td i)"
      using other [of td i] P tab al [OF utd] np [OF utd] ne
      by (auto simp: copied_dirs_def)
  next
    fix i j :: nat assume ij: "has_table s fd i \<and> j < 1024"
    show "ram u (word_at (table s fd i) j) =
        (if i < Suc k then cow (ram s (word_at (table s fd i) j)) else ram s (word_at (table s fd i) j))"
    proof (cases "i = k")
      case True
      with ij u pt2 show ?thesis by (simp add: copied_table_def)
    next
      case False
      with ij other [of "table s fd i" j] P inj [of i] nt [of i] al upt np [OF upt [of i]]
      show ?thesis by (simp add: copied_dirs_def)
    qed
  next
    fix i assume i: "i < Suc k" and t: "has_table s fd i"
    show "\<exists>q. child_table s u (table s fd i) q \<and> ram u (word_at td i) = phys_ppn q OR PTE_V"
    proof (cases "i = k")
      case True
      have "child_table s u ?pt p"
        using u unused gr(1) fresh p2 pt2 by (auto simp: child_table_def copied_table_def)
      moreover have "ram u (word_at td k) = phys_ppn p OR PTE_V"
        using other [of td k] al [OF utd] np [OF utd] ne k by simp
      ultimately show ?thesis using True by blast
    next
      case False
      with i t P obtain q where q: "child_table s t (table s fd i) q"
          "ram t (word_at td i) = phys_ppn q OR PTE_V"
        unfolding copied_dirs_def by (metis less_antisym)
      have "q \<noteq> p" using q(1) gr(2) by (auto simp: child_table_def)
      moreover have "q \<noteq> ?pt" "q \<noteq> td"
        using q(1) upt [OF tab] utd by (auto simp: child_table_def used_def)
      ultimately have "child_table s u (table s fd i) q"
        using q(1) fresh [of q] other [of q] by (auto simp: child_table_def is_frame_simps)
      moreover have "ram u (word_at td i) = phys_ppn q OR PTE_V"
        using other [of td i] q(2) False al [OF utd] np [OF utd] ne i k by simp
      ultimately show ?thesis by blast
    qed
  next
    fix f assume "mem_map s f \<noteq> 0"
    then show "mem_map u f = mem_map s f + of_nat (refs s fd (Suc k) f)"
      using mu [of f] P unused tab by (auto simp: copied_dirs_def refs_def)
  next
    fix q and j :: nat
    assume "used s q \<and> q \<noteq> td \<and> (\<forall>i. has_table s fd i \<longrightarrow> q \<noteq> table s fd i) \<and> j < 1024"
    then show "ram u (word_at q j) = ram s (word_at q j)"
      using other [of q j] P tab al np by (auto simp: copied_dirs_def)
  qed
qed

lemma copied_dirs_entries:
  assumes can: "can_copy s fd td" and k: "k < USER_PGD_ENTRIES" and P: "copied_dirs s fd td k t"
    and tab: "has_table s fd k" and g: "grabbed t p t1"
  shows "is_frame (table s fd k)" "is_frame p" "table s fd k \<noteq> p"
    "\<And>j. j < 1024 \<Longrightarrow>
       ram (set_ram (word_at td k) (phys_ppn p OR PTE_V) t1) (word_at (table s fd k) j) =
         ram s (word_at (table s fd k) j)"
    "\<And>j. j < 1024 \<Longrightarrow> valid (ram s (word_at (table s fd k) j)) \<Longrightarrow>
       is_frame (pte_phys (ram s (word_at (table s fd k) j)))"
proof -
  note gr = grabbed_simps [OF g]
  have upt: "used s (table s fd k)" and utd: "used s td" and ne: "table s fd k \<noteq> td"
    using can tab by (auto simp: can_copy_def wf_space_def)
  have "mem_map s (MAP_NR p) = 0"
    using copied_dirs_used [OF can P] k gr(2) by (metis less_imp_le)
  with upt show np: "table s fd k \<noteq> p" and "is_frame (table s fd k)"
    by (auto simp: used_def)
  show "is_frame p" by (rule gr(1))
  show "ram (set_ram (word_at td k) (phys_ppn p OR PTE_V) t1) (word_at (table s fd k) j) =
      ram s (word_at (table s fd k) j)" if "j < 1024" for j
    using that P tab np ne k gr(5) [of "table s fd k" j] upt utd
    by (simp add: set_ram_def word_at_eq_iff copied_dirs_def used_def is_frame_simps)
  show "is_frame (pte_phys (ram s (word_at (table s fd k) j)))"
    if "j < 1024" "valid (ram s (word_at (table s fd k) j))" for j
    using can tab that by (simp add: can_copy_def wf_space_def used_def)
qed

lemma copy_dir_entry_step:
  assumes can: "can_copy s fd td" and k: "k < USER_PGD_ENTRIES" and P: "copied_dirs s fd td k t"
  shows "returns (copy_dir_entry fd td k n t)
     (\<lambda>r u. case r of None \<Rightarrow> copied_dirs s fd td (Suc k) u
            | Some a \<Rightarrow> a = -1 \<and> u = t \<and> (\<forall>f<PAGING_PAGES. mem_map t f \<noteq> 0))"
proof (cases "has_table s fd k")
  case False
  have ne: "i < k" if "i < Suc k" "has_table s fd i" for i
    using that False by (auto simp: less_Suc_eq)
  have "refs s fd (Suc k) f = refs s fd k f" for f
    using False by (simp add: refs_def)
  then have "copied_dirs s fd td (Suc k) t"
    using P unfolding copied_dirs_def by (auto simp: Suc_le_eq dest: ne)
  moreover have "\<not> valid (ram t (word_at fd k))"
    using False P k by (simp add: copied_dirs_def has_table_def)
  ultimately show ?thesis
    by (simp add: copy_dir_entry_def kexec valid_def)
next
  case True
  have fd: "ram t (word_at fd k) = ram s (word_at fd k)" "valid (ram s (word_at fd k))"
    and td: "ram t (word_at td k) = ram s (word_at td k)" "\<not> valid (ram s (word_at td k))"
    using P True k can by (auto simp: copied_dirs_def has_table_def can_copy_def)
  show ?thesis
  proof (cases rule: get_free_page_cases [of n t])
    case none
    with fd td show ?thesis
      by (simp add: copy_dir_entry_def kexec valid_def)
  next
    case (some p t1)
    let ?t2 = "set_ram (word_at td k) (phys_ppn p OR PTE_V) t1"
    let ?pt = "table s fd k"
    have run: "copy_dir_entry fd td k n t =
        bindp (for_each [0..<1024] (copy_pt_entry ?pt p) n ?t2) (\<lambda>_ u. Done None u)"
      using some fd td grabbed_simps(1) [OF some(2)]
      by (simp add: copy_dir_entry_def kexec valid_def table_def is_frame_simps)
    have wf: "wf_space s fd" using can by (simp add: can_copy_def)
    have "returns (for_each [0..<1024] (copy_pt_entry ?pt p) n ?t2) (\<lambda>_. copied_table ?t2 ?pt p 1024)"
      using copied_dirs_entries [OF can k P True some(2)] by (intro copy_table) simp_all
    then have "returns (for_each [0..<1024] (copy_pt_entry ?pt p) n ?t2)
        (\<lambda>_. copied_dirs s fd td (Suc k))"
      by (rule returns_mono) (rule copied_dirs_round [OF can k P True some(2)])
    then show ?thesis unfolding run by (rule returns_bindp) simp
  qed
qed

theorem copy_page_tables_returns:
  assumes can: "can_copy s fd td"
  shows "returns (copy_page_tables fd td n s)
     (\<lambda>r t. r = 0 \<and> copied_dirs s fd td USER_PGD_ENTRIES t \<or>
            r = -1 \<and> (\<exists>k<USER_PGD_ENTRIES. copied_dirs s fd td k t) \<and>
              (\<forall>f<PAGING_PAGES. mem_map t f \<noteq> 0))"
proof -
  have nz: "fd \<noteq> 0" "td \<noteq> 0"
    using can by (auto simp: can_copy_def wf_space_def used_def is_frame_simps)
  have 0: "copied_dirs s fd td 0 s"
    by (simp add: copied_dirs_def refs_def)
  show ?thesis
    unfolding copy_page_tables_def using nz
    by (simp, intro returns_for_ret [where P = "copied_dirs s fd td"] 0)
      (use copy_dir_entry_step [OF can] in \<open>fastforce simp: kexec elim!: returns_mono split: option.splits\<close>)+
qed

section \<open>The walk\<close>

definition walk :: "kstate \<Rightarrow> u32 \<Rightarrow> u32 \<Rightarrow> u32 option" where
  "walk s pgd va =
     (case pte_lookup pgd va s of
        None \<Rightarrow> None
      | Some a \<Rightarrow> if valid (ram s a) then Some (ram s a) else None)"

lemma dir_index_user: "va < USER_LIMIT \<Longrightarrow> dir_index va < USER_PGD_ENTRIES"
proof -
  assume "va < USER_LIMIT"
  then have "unat va < 2147483648" by (simp add: word_less_nat_alt)
  moreover have "dir_index va = unat va div 4194304"
    unfolding dir_index_def unat_drop_bit_eq by (simp add: drop_bit_eq_div)
  ultimately show ?thesis by simp
qed

lemma pt_index_bound: "pt_index va < 1024"
proof -
  have "(drop_bit 12 va AND 0x3ff) \<le> (0x3ff :: u32)" by (rule word_and_le1)
  then show ?thesis by (simp add: pt_index_def word_le_nat_alt)
qed

lemma walk_unfold:
  assumes "pgd \<noteq> 0"
  shows "walk s pgd va =
     (if valid (ram s (word_at pgd (dir_index va))) \<and>
         valid (ram s (word_at (table s pgd (dir_index va)) (pt_index va)))
      then Some (ram s (word_at (table s pgd (dir_index va)) (pt_index va))) else None)"
  using assms by (simp add: walk_def pte_lookup_def table_def valid_def Let_def)

text \<open>
  After a successful duplication parent and child see the same pages at the same addresses,
  both without the right to write.
\<close>

lemma copied_dirs_walk:
  assumes can: "can_copy s fd td" and P: "copied_dirs s fd td USER_PGD_ENTRIES t"
    and va: "va < USER_LIMIT"
  shows "walk t fd va = map_option cow (walk s fd va)"
    and "walk t td va = map_option cow (walk s fd va)"
proof -
  let ?i = "dir_index va" let ?j = "pt_index va"
  have i: "?i < USER_PGD_ENTRIES" using va by (rule dir_index_user)
  have j: "?j < 1024" by (rule pt_index_bound)
  have nz: "fd \<noteq> 0" "td \<noteq> 0"
    using can by (auto simp: can_copy_def wf_space_def used_def is_frame_simps)
  have fd: "ram t (word_at fd ?i) = ram s (word_at fd ?i)"
    using P i by (simp add: copied_dirs_def)
  then have tab: "table t fd ?i = table s fd ?i" by (simp add: table_def)
  show "walk t fd va = map_option cow (walk s fd va)"
    using P i j fd by (simp add: walk_unfold [OF nz(1)] tab copied_dirs_def has_table_def)
  show "walk t td va = map_option cow (walk s fd va)"
  proof (cases "has_table s fd ?i")
    case False
    then have "\<not> valid (ram t (word_at td ?i))" "\<not> valid (ram s (word_at fd ?i))"
      using P can i by (simp_all add: copied_dirs_def can_copy_def has_table_def)
    then show ?thesis by (simp add: walk_unfold [OF nz(1)] walk_unfold [OF nz(2)])
  next
    case True
    with P i obtain q where q: "child_table s t (table s fd ?i) q"
        "ram t (word_at td ?i) = phys_ppn q OR PTE_V"
      unfolding copied_dirs_def by blast
    then have "table t td ?i = q"
      by (simp add: table_def pte_phys_table_entry child_table_def)
    then show ?thesis
      using q j True
      by (simp add: walk_unfold [OF nz(1)] walk_unfold [OF nz(2)] valid_table_entry
          child_table_def has_table_def valid_def [of 0])
  qed
qed

section \<open>Unsharing a page before a write\<close>

text \<open>
  \<open>unshared s a t\<close>: the entry at \<open>a\<close> now maps a page no other entry maps (count 1), it may
  be written, and its contents are those of the page it mapped before.
\<close>

definition unshared :: "kstate \<Rightarrow> u32 \<Rightarrow> kstate \<Rightarrow> bool" where
  "unshared s a t \<longleftrightarrow>
     valid (ram t a) \<and> ram t a AND PTE_W \<noteq> 0 \<and> used t (pte_phys (ram t a)) \<and>
     mem_map t (MAP_NR (pte_phys (ram t a))) = 1 \<and>
     (\<forall>j<1024. ram t (word_at (pte_phys (ram t a)) j) = ram s (word_at (pte_phys (ram s a)) j)) \<and>
     (\<forall>q j. used s q \<and> j < 1024 \<and> word_at q j \<noteq> a \<longrightarrow> ram t (word_at q j) = ram s (word_at q j)) \<and>
     (\<forall>q. used s q \<longrightarrow> used t q) \<and>
     (pte_phys (ram t a) = pte_phys (ram s a) \<or> \<not> used s (pte_phys (ram t a))) \<and>
     mm_frame s t"

lemma set_W: "valid e \<Longrightarrow> valid (e OR 4) \<and> (e OR 4) AND PTE_W \<noteq> 0 \<and> pte_phys (e OR 4) = pte_phys e"
proof (intro conjI)
  have b4: "bit (4 :: u32) n \<longleftrightarrow> n = 2" for n
  proof -
    have "(4 :: u32) = 2 ^ 2" by simp
    then show ?thesis by (auto simp only: bit_exp_iff possible_bit_word len_bit0 len_num1)
  qed
  assume "valid e"
  then show "valid (e OR 4)" by (simp add: valid_bit bit_or_iff)
  have "bit ((e OR 4) AND PTE_W) 2" by (simp add: bit_and_iff bit_or_iff b4)
  then show "(e OR 4) AND PTE_W \<noteq> 0" by (metis bit_0_eq bot_apply bot_bool_def)
  show "pte_phys (e OR 4) = pte_phys e"
    by (rule bit_word_eqI) (auto simp only: pte_phys_bit bit_or_iff b4)
qed

lemma rw_writable: "fl AND 4 = 4 \<Longrightarrow> (e OR fl) AND PTE_W \<noteq> 0"
  by (simp add: word_ao_dist)

lemma un_wp_page_unshares:
  assumes pt: "used s pt" and j: "j < 1024" and e: "valid (ram s (word_at pt j))"
    and old: "used s (pte_phys (ram s (word_at pt j)))" "pte_phys (ram s (word_at pt j)) \<noteq> pt"
  obtains (ok) t where "un_wp_page (word_at pt j) n s = Done () t" "unshared s (word_at pt j) t"
  | (oom) "un_wp_page (word_at pt j) n s = Exit 11 s" "\<And>f. f < PAGING_PAGES \<Longrightarrow> mem_map s f \<noteq> 0"
proof -
  let ?a = "word_at pt j" let ?o = "pte_phys (ram s (word_at pt j))"
  have fr: "is_frame pt" "is_frame ?o" using pt old by (simp_all add: used_def)
  have al: "page_aligned q" if "used s q" for q using that by (simp add: used_def is_frame_simps)
  have oin: "MAP_NR ?o < PAGING_PAGES" using fr(2) by (rule is_frame_MAP_NR)
  show thesis
  proof (cases "mem_map s (MAP_NR ?o) = 1")
    case True
    let ?t = "set_ram ?a (ram s ?a OR PTE_W) s"
    have "un_wp_page ?a n s = Done () ?t"
      using True fr(2) oin by (simp add: un_wp_page_def kexec map_at_def is_frame_simps)
    moreover have "unshared s ?a ?t"
      using True fr old j al [OF pt] al [OF old(1)] set_W [OF e]
      by (auto simp: unshared_def set_ram_def word_at_eq_iff used_def mm_frame_def is_frame_simps)
    ultimately show thesis by (rule ok)
  next
    case False
    show thesis
    proof (cases rule: get_free_page_cases [of n s])
      case none
      then show thesis
        using False fr(2) oin
        by (intro oom) (simp_all add: un_wp_page_def kexec map_at_def is_frame_simps)
    next
      case (some p t1)
      note gr = grabbed_simps [OF some(2)]
      have po: "p \<noteq> ?o" "p \<noteq> pt" using old(1) pt gr(2) by (auto simp: used_def)
      let ?c = "mem_map s (MAP_NR ?o)"
      let ?t2 = "set_ram ?a (phys_ppn p OR PTE_USER_RW) (set_map (MAP_NR ?o) (?c - 1) t1)"
      let ?t = "copy_page ?o p ?t2"
      have run: "un_wp_page ?a n s = Done () ?t"
        using False fr(2) oin some gr(1,3) po MAP_NR_inj [OF fr(2) gr(1)]
        by (simp add: un_wp_page_def kexec map_at_def is_frame_simps)
      have alp: "page_aligned p" using gr(1) by (rule is_frame_simps)
      have ra: "ram ?t ?a = phys_ppn p OR PTE_USER_RW"
        using po al [OF pt] alp j
        by (auto simp: copy_page_def set_ram_def word_at_eq_iff intro!: copy_words_other [THEN trans])
      have ppa: "pte_phys (ram ?t ?a) = p"
        unfolding ra by (rule pte_phys_ppn [OF alp]) simp
      have rp: "ram ?t (word_at p i) = ram s (word_at ?o i)" if "i < 1024" for i
        using that po old(2) al [OF old(1)] al [OF pt] alp gr(5) [of ?o i] j
        by (simp add: copy_page_in set_ram_def set_map_def word_at_eq_iff)
      have rq: "ram ?t (word_at q i) = ram s (word_at q i)"
        if "used s q" "i < 1024" "word_at q i \<noteq> ?a" for q i
      proof -
        have "q \<noteq> p" using that(1) gr(2) by (auto simp: used_def)
        then show ?thesis
          using that al [OF that(1)] alp gr(5) [of q i]
          by (auto simp: copy_page_def set_ram_def set_map_def word_at_eq_iff
              intro!: copy_words_other [THEN trans])
      qed
      have mt: "mem_map ?t = (mem_map s)(MAP_NR p := 1, MAP_NR ?o := ?c - 1)"
        using gr(3) by (simp add: copy_page_def set_ram_def set_map_def)
      have c: "?c - 1 \<noteq> 0" using False by simp
      have "unshared s ?a ?t"
        unfolding unshared_def ppa
      proof (intro conjI allI impI)
        show "valid (ram ?t ?a)" unfolding ra by (simp add: valid_def valid_ppn)
        show "ram ?t ?a AND PTE_W \<noteq> 0" unfolding ra by (rule rw_writable) simp
        show "used ?t p" "mem_map ?t (MAP_NR p) = 1"
          using gr(1) mt po MAP_NR_inj [OF gr(1) fr(2)] by (simp_all add: used_def)
        show "mm_frame s ?t" using gr(6) by simp
        show "used ?t q" if "used s q" for q
          using that mt c by (auto simp: used_def)
        show "p = ?o \<or> \<not> used s p" using gr(2) by (simp add: used_def)
      qed (use rp rq in auto)
      with run show thesis by (rule ok)
    qed
  qed
qed

section \<open>Mapping a page\<close>

lemma wf_space_simps:
  assumes "wf_space s pgd"
  shows "page_aligned pgd" "pgd \<noteq> 0" "used s pgd"
    "\<And>i. has_table s pgd i \<Longrightarrow> used s (table s pgd i)"
    "\<And>i. has_table s pgd i \<Longrightarrow> table s pgd i \<noteq> pgd"
    "\<And>i i'. has_table s pgd i \<Longrightarrow> has_table s pgd i' \<Longrightarrow> table s pgd i = table s pgd i' \<longleftrightarrow> i = i'"
    "\<And>i j. has_table s pgd i \<Longrightarrow> j < 1024 \<Longrightarrow> valid (ram s (word_at (table s pgd i) j)) \<Longrightarrow>
       used s (pte_phys (ram s (word_at (table s pgd i) j))) \<and>
       \<not> is_table s pgd (pte_phys (ram s (word_at (table s pgd i) j)))"
  using assms by (auto simp: wf_space_def used_def is_frame_simps)

lemma used_aligned: "used s q \<Longrightarrow> page_aligned q"
  by (simp add: used_def is_frame_simps)

lemma used_set_ram [simp]: "used (set_ram a v s) q = used s q"
  by (simp add: used_def set_ram_def)

text \<open>Storing a leaf entry.\<close>

lemma set_leaf:
  fixes e :: u32
  assumes wf: "wf_space s pgd" and i: "has_table s pgd i" and j: "j < 1024"
  defines "t \<equiv> set_ram (word_at (table s pgd i) j) e s"
  shows "\<And>i'. i' < USER_PGD_ENTRIES \<Longrightarrow> ram t (word_at pgd i') = ram s (word_at pgd i')"
    and "\<And>i' j'. has_table s pgd i' \<Longrightarrow> j' < 1024 \<Longrightarrow>
      ram t (word_at (table s pgd i') j') =
        (if i' = i \<and> j' = j then e else ram s (word_at (table s pgd i') j'))"
    and "(valid e \<Longrightarrow> used s (pte_phys e) \<and> \<not> is_table s pgd (pte_phys e)) \<Longrightarrow> wf_space t pgd"
proof -
  note w = wf_space_simps [OF wf]
  show d: "ram t (word_at pgd i') = ram s (word_at pgd i')" if "i' < USER_PGD_ENTRIES" for i'
    using that w(1) used_aligned [OF w(4) [OF i]] w(5) [OF i] j
    by (simp add: t_def set_ram_def word_at_eq_iff)
  show l: "ram t (word_at (table s pgd i') j') =
        (if i' = i \<and> j' = j then e else ram s (word_at (table s pgd i') j'))"
    if "has_table s pgd i'" "j' < 1024" for i' j'
    using that used_aligned [OF w(4) [OF i]] used_aligned [OF w(4) [OF that(1)]] j w(6) [OF that(1) i]
    by (simp add: t_def set_ram_def word_at_eq_iff)
  have ht: "has_table t pgd i' = has_table s pgd i'" for i'
    using d by (auto simp: has_table_def)
  have tb: "table t pgd i' = table s pgd i'" if "has_table s pgd i'" for i'
    using d that by (simp add: table_def has_table_def)
  have ut: "used t q = used s q" for q by (simp add: t_def)
  have it: "is_table t pgd q = is_table s pgd q" for q
    using tb by (auto simp: is_table_def ht)
  assume e: "valid e \<Longrightarrow> used s (pte_phys e) \<and> \<not> is_table s pgd (pte_phys e)"
  have lf: "used s (pte_phys (ram t (word_at (table t pgd i') j'))) \<and>
      \<not> is_table s pgd (pte_phys (ram t (word_at (table t pgd i') j')))"
    if "has_table s pgd i'" "j' < 1024" "valid (ram t (word_at (table t pgd i') j'))" for i' j'
    using that tb l w(7) e by (auto split: if_splits)
  show "wf_space t pgd"
    unfolding wf_space_def ht ut it using tb w lf by auto
qed

text \<open>Hanging a fresh table into the directory.\<close>

lemma set_dir:
  assumes wf: "wf_space s pgd" and i: "i < USER_PGD_ENTRIES" "\<not> has_table s pgd i"
    and g: "grabbed s p t1"
  defines "t \<equiv> set_ram (word_at pgd i) (phys_ppn p OR PTE_V) t1"
  shows "wf_space t pgd" and "has_table t pgd i" and "table t pgd i = p"
    and "\<And>i'. has_table s pgd i' \<Longrightarrow> has_table t pgd i' \<and> table t pgd i' = table s pgd i'"
    and "\<And>i'. i' < USER_PGD_ENTRIES \<Longrightarrow> i' \<noteq> i \<Longrightarrow> ram t (word_at pgd i') = ram s (word_at pgd i')"
    and "\<And>q j. used s q \<Longrightarrow> q \<noteq> pgd \<Longrightarrow> j < 1024 \<Longrightarrow> ram t (word_at q j) = ram s (word_at q j)"
    and "\<And>j. j < 1024 \<Longrightarrow> ram t (word_at p j) = 0"
    and "\<And>q. used s q \<Longrightarrow> used t q"
proof -
  note w = wf_space_simps [OF wf] and gr = grabbed_simps [OF g]
  have np: "q \<noteq> p" if "used s q" for q using that gr(2) by (auto simp: used_def)
  have alp: "page_aligned p" using gr(1) by (rule is_frame_simps)
  show d: "ram t (word_at pgd i') = ram s (word_at pgd i')" if "i' < USER_PGD_ENTRIES" "i' \<noteq> i" for i'
    using that i w(1) np [OF w(3)] gr(5) [of pgd i'] by (simp add: t_def set_ram_def word_at_eq_iff)
  have di: "ram t (word_at pgd i) = phys_ppn p OR PTE_V" by (simp add: t_def set_ram_def)
  show r: "ram t (word_at q j) = ram s (word_at q j)" if "used s q" "q \<noteq> pgd" "j < 1024" for q j
    using that i w(1) np [OF that(1)] gr(5) [of q j] used_aligned [OF that(1)]
    by (simp add: t_def set_ram_def word_at_eq_iff)
  show z: "ram t (word_at p j) = 0" if "j < 1024" for j
    using that i w(1) alp np [OF w(3)] gr(4) by (simp add: t_def set_ram_def word_at_eq_iff)
  show u: "used t q" if "used s q" for q
    using that gr(3) by (auto simp: t_def used_def set_ram_def)
  show hi: "has_table t pgd i" using i di by (simp add: has_table_def valid_table_entry)
  show ti: "table t pgd i = p" using di gr(1) by (simp add: table_def pte_phys_table_entry)
  show old: "has_table t pgd i' \<and> table t pgd i' = table s pgd i'" if "has_table s pgd i'" for i'
    using that d [of i'] i(2) by (cases "i' = i") (auto simp: has_table_def table_def)
  have cases: "i' = i \<or> has_table s pgd i'" if "has_table t pgd i'" for i'
    using that d by (cases "i' = i") (auto simp: has_table_def)
  have up: "used t p" using gr(1,3) by (simp add: t_def used_def set_ram_def)
  show "wf_space t pgd"
    unfolding wf_space_def
  proof (intro conjI allI impI)
    show "used t pgd" by (rule u [OF w(3)])
    fix i' assume h: "has_table t pgd i'"
    show "used t (table t pgd i')" using cases [OF h] ti up old u w(4) by auto
    show "table t pgd i' \<noteq> pgd" using cases [OF h] ti old w(5) np [OF w(3)] by auto
  next
    fix i' i'' assume h: "has_table t pgd i' \<and> has_table t pgd i'' \<and> table t pgd i' = table t pgd i''"
    then show "i' = i''"
      using cases [of i'] cases [of i''] ti old w(6) np [OF w(4)] by metis
  next
    fix i' j assume h: "has_table t pgd i' \<and> j < 1024 \<and> valid (ram t (word_at (table t pgd i') j))"
    then have "i' \<noteq> i" using z ti by (auto simp: valid_def)
    then have "has_table s pgd i'" using h cases by blast
    then have leaf: "used s (pte_phys (ram t (word_at (table t pgd i') j)))"
        "\<not> is_table s pgd (pte_phys (ram t (word_at (table t pgd i') j)))"
      using h old r [OF w(4) w(5)] w(7) by auto
    then show "used t (pte_phys (ram t (word_at (table t pgd i') j)))" by (simp add: u)
    show "\<not> is_table t pgd (pte_phys (ram t (word_at (table t pgd i') j)))"
      using leaf np [OF leaf(1)] cases ti old unfolding is_table_def by metis
  qed
qed

text \<open>
  \<open>mapped s pgd va e t\<close>: \<open>t\<close> is \<open>s\<close> with the entry \<open>e\<close> stored for the page of \<open>va\<close>;
  every other address of the space keeps its entry.
\<close>

definition mapped :: "kstate \<Rightarrow> u32 \<Rightarrow> u32 \<Rightarrow> u32 \<Rightarrow> kstate \<Rightarrow> bool" where
  "mapped s pgd va e t \<longleftrightarrow>
     wf_space t pgd \<and> mm_frame s t \<and> walk t pgd va = Some e \<and>
     (\<forall>va'<USER_LIMIT. (dir_index va', pt_index va') \<noteq> (dir_index va, pt_index va)
        \<longrightarrow> walk t pgd va' = walk s pgd va') \<and>
     (\<forall>q. used s q \<longrightarrow> used t q)"

lemma mapped_leaf:
  assumes wf: "wf_space s pgd" and va: "va < USER_LIMIT" and h: "has_table s pgd (dir_index va)"
    and e: "valid e" "used s (pte_phys e)" "\<not> is_table s pgd (pte_phys e)"
  shows "mapped s pgd va e (set_ram (word_at (table s pgd (dir_index va)) (pt_index va)) e s)"
proof -
  let ?t = "set_ram (word_at (table s pgd (dir_index va)) (pt_index va)) e s"
  note l = set_leaf [OF wf h pt_index_bound [of va], where e = e]
  have nz: "pgd \<noteq> 0" by (rule wf_space_simps(2) [OF wf])
  have w: "walk ?t pgd va' =
      (if (dir_index va', pt_index va') = (dir_index va, pt_index va) then Some e else walk s pgd va')"
    if "va' < USER_LIMIT" for va'
    using that l(1) [of "dir_index va'"] l(2) [of "dir_index va'" "pt_index va'"] dir_index_user [OF that]
      pt_index_bound [of va'] e(1) h
    by (auto simp: walk_unfold [OF nz] table_def has_table_def)
  show ?thesis
    using w [OF va] w l(3) e by (auto simp: mapped_def mm_frame_def set_ram_def used_def)
qed

lemma put_page_pgdir_maps:
  assumes wf: "wf_space s pgd" and va: "va < USER_LIMIT"
    and page: "used s page" "\<not> is_table s pgd page"
  obtains (ok) t where "put_page_pgdir pgd page va n s = Done page t"
      "mapped s pgd va (phys_ppn page OR PTE_USER_RWX) t"
  | (oom) "put_page_pgdir pgd page va n s = Done 0 s" "\<And>f. f < PAGING_PAGES \<Longrightarrow> mem_map s f \<noteq> 0"
proof -
  let ?i = "dir_index va" let ?e = "phys_ppn page OR PTE_USER_RWX"
  have fr: "is_frame page" using page by (simp add: used_def)
  have e: "valid ?e" "pte_phys ?e = page"
    using fr by (simp_all add: valid_def valid_ppn pte_phys_ppn is_frame_simps)
  have guards: "\<not> USER_LIMIT \<le> va" "\<not> (page < RAM_BASE \<or> RAM_END \<le> page)"
    using va is_frame_simps [OF fr] by auto
  have i: "?i < USER_PGD_ENTRIES" by (rule dir_index_user [OF va])
  show thesis
  proof (cases "has_table s pgd ?i")
    case True
    then have "put_page_pgdir pgd page va n s =
        Done page (set_ram (word_at (table s pgd ?i) (pt_index va)) ?e s)"
      using guards by (simp add: put_page_pgdir_def kexec has_table_def valid_def table_def)
    with mapped_leaf [OF wf va True e(1)] page e(2) ok show thesis by simp
  next
    case False
    then have inv: "ram s (word_at pgd ?i) AND PTE_V = 0"
      using i by (simp add: has_table_def valid_def)
    show thesis
    proof (cases rule: get_free_page_cases [of n s])
      case none
      with inv guards oom show thesis by (simp add: put_page_pgdir_def kexec)
    next
      case (some p t1)
      let ?t = "set_ram (word_at pgd ?i) (phys_ppn p OR PTE_V) t1"
      note d = set_dir [OF wf i False some(2)]
      have run: "put_page_pgdir pgd page va n s =
          Done page (set_ram (word_at (table ?t pgd ?i) (pt_index va)) ?e ?t)"
        using inv guards some grabbed_simps(1) [OF some(2)] d(3)
        by (simp add: put_page_pgdir_def kexec is_frame_simps pte_phys_table_entry)
      have "page \<noteq> p" using page(1) grabbed_simps(2) [OF some(2)] by (auto simp: used_def)
      then have nt: "\<not> is_table ?t pgd page"
        using page(2) d(3,4,5) unfolding is_table_def has_table_def table_def by metis
      have m: "mapped ?t pgd va ?e (set_ram (word_at (table ?t pgd ?i) (pt_index va)) ?e ?t)"
        using mapped_leaf [OF d(1) va d(2) e(1)] d(8) page nt e(2) by simp
      have nz: "pgd \<noteq> 0" by (rule wf_space_simps(2) [OF wf])
      have "walk ?t pgd va' = walk s pgd va'" if "va' < USER_LIMIT" for va'
      proof (cases "has_table s pgd (dir_index va')")
        case True
        then show ?thesis
          using d(4) [OF True] d(6) wf_space_simps(4,5) [OF wf True] pt_index_bound [of va']
          by (simp add: walk_unfold [OF nz] has_table_def)
      next
        case False
        then have "\<not> valid (ram s (word_at pgd (dir_index va')))"
          using dir_index_user [OF that] by (simp add: has_table_def)
        then show ?thesis
          using d(3,5,7) dir_index_user [OF that] pt_index_bound [of va']
          by (cases "dir_index va' = ?i") (simp_all add: walk_unfold [OF nz] valid_def [of 0])
      qed
      moreover have "mm_frame s ?t" using grabbed_simps(6) [OF some(2)] by simp
      ultimately have "mapped s pgd va ?e (set_ram (word_at (table ?t pgd ?i) (pt_index va)) ?e ?t)"
        using m d(8) mm_frame_trans [of s ?t] unfolding mapped_def by auto
      with run show thesis by (rule ok)
    qed
  qed
qed

section \<open>Making user memory writable\<close>

definition writable :: "kstate \<Rightarrow> u32 \<Rightarrow> u32 \<Rightarrow> bool" where
  "writable s pgd va \<longleftrightarrow> (\<exists>e. walk s pgd va = Some e \<and> e AND PTE_W \<noteq> 0)"

text \<open>\<open>grown s pgd t\<close>: the space stays well-formed and no address stops being writable.\<close>

definition grown :: "kstate \<Rightarrow> u32 \<Rightarrow> kstate \<Rightarrow> bool" where
  "grown s pgd t \<longleftrightarrow> wf_space t pgd \<and> mm_frame s t \<and>
     (\<forall>va<USER_LIMIT. writable s pgd va \<longrightarrow> writable t pgd va)"

lemma grown_refl: "wf_space s pgd \<Longrightarrow> grown s pgd s"
  by (simp add: grown_def)

lemma grown_trans: "grown s pgd t \<Longrightarrow> grown t pgd u \<Longrightarrow> grown s pgd u"
  by (auto simp: grown_def intro: mm_frame_trans)

text \<open>At most one frame of main memory is free.\<close>

definition exhausted :: "kstate \<Rightarrow> bool" where
  "exhausted s \<longleftrightarrow> (\<exists>g. \<forall>f<PAGING_PAGES. mem_map s f \<noteq> 0 \<or> f = g)"

lemma exhaustedI: "(\<And>f. f < PAGING_PAGES \<Longrightarrow> mem_map s f \<noteq> 0) \<Longrightarrow> exhausted s"
  by (auto simp: exhausted_def)

lemma exhausted_set_map: "(\<And>f. f < PAGING_PAGES \<Longrightarrow> mem_map s f \<noteq> 0) \<Longrightarrow> exhausted (set_map g c s)"
  by (auto simp: exhausted_def set_map_def intro!: exI [of _ g])

text \<open>The code either returns with a grown space or, out of memory, ends the task.\<close>

definition grows_or_exits :: "kstate \<Rightarrow> u32 \<Rightarrow> (kstate \<Rightarrow> bool) \<Rightarrow> (kstate, unit) prog \<Rightarrow> bool" where
  "grows_or_exits s pgd Q p \<longleftrightarrow> (\<exists>t. p = Done () t \<and> grown s pgd t \<and> Q t) \<or> (\<exists>t. p = Exit 11 t \<and> exhausted t)"

lemma walk_cong:
  "pgd \<noteq> 0 \<Longrightarrow> dir_index va = dir_index va' \<Longrightarrow> pt_index va = pt_index va' \<Longrightarrow>
   walk s pgd va = walk s pgd va'"
  by (simp add: walk_unfold)

lemma mapped_grown:
  assumes m: "mapped s pgd va e t" and e: "e AND PTE_W \<noteq> 0" and nz: "pgd \<noteq> 0"
  shows "grown s pgd t" and "writable t pgd va"
proof -
  show w: "writable t pgd va" using m e by (simp add: mapped_def writable_def)
  have "writable t pgd va'" if "va' < USER_LIMIT" "writable s pgd va'" for va'
  proof (cases "(dir_index va', pt_index va') = (dir_index va, pt_index va)")
    case True
    then show ?thesis using w walk_cong [OF nz, of va' va t] by (simp add: writable_def)
  next
    case False
    with m that show ?thesis by (simp add: mapped_def writable_def)
  qed
  with m show "grown s pgd t" by (simp add: grown_def mapped_def)
qed

lemma grabbed_grown:
  assumes wf: "wf_space s pgd" and g: "grabbed s p t"
  shows "wf_space t pgd" "used t p" "\<not> is_table t pgd p" "grown s pgd t"
proof -
  note w = wf_space_simps [OF wf] and gr = grabbed_simps [OF g]
  have np: "q \<noteq> p" if "used s q" for q using that gr(2) by (auto simp: used_def)
  have r: "ram t (word_at q j) = ram s (word_at q j)" if "used s q" "j < 1024" for q j
    using gr(5) [OF used_aligned [OF that(1)] np [OF that(1)] that(2)] .
  have u: "used t q" if "used s q" for q using that gr(3) by (auto simp: used_def)
  have ht: "has_table t pgd i = has_table s pgd i" for i
    using r [OF w(3)] by (auto simp: has_table_def)
  have tb: "table t pgd i = table s pgd i" if "has_table s pgd i" for i
    using that r [OF w(3)] by (simp add: table_def has_table_def)
  have it: "is_table t pgd q = is_table s pgd q" for q
    using tb by (auto simp: is_table_def ht)
  show "used t p" using gr(1,3) by (simp add: used_def)
  show "\<not> is_table t pgd p" using it np w(3,4) unfolding is_table_def by metis
  show wft: "wf_space t pgd"
    unfolding wf_space_def ht it using tb r w u by auto
  have "walk t pgd va = walk s pgd va" if "va < USER_LIMIT" for va
    using tb r [OF w(3), of "dir_index va"] r [OF w(4), of "dir_index va" "pt_index va"]
      dir_index_user [OF that] pt_index_bound [of va]
    by (auto simp: walk_unfold [OF w(2)] has_table_def)
  with wft gr(6) show "grown s pgd t" by (simp add: grown_def writable_def)
qed

lemma get_empty_page_grows:
  assumes wf: "wf_space s (pgdir (cur s))" and va: "va < USER_LIMIT"
  shows "grows_or_exits s (pgdir (cur s)) (\<lambda>t. writable t (pgdir (cur s)) va) (get_empty_page va n s)"
proof (cases rule: get_free_page_cases [of n s])
  case none
  then show ?thesis
    using exhaustedI [of s] by (simp add: get_empty_page_def kexec grows_or_exits_def free_page_def)
next
  case (some p t1)
  let ?pgd = "pgdir (cur s)" let ?e = "phys_ppn p OR PTE_USER_RWX"
  note g = grabbed_grown [OF wf some(2)]
  have cur: "cur t1 = cur s" using grabbed_simps(6) [OF some(2)] by (rule mm_frame_simps)
  have fr: "is_frame p" and pz: "p \<noteq> 0"
    using grabbed_simps(1) [OF some(2)] by (simp_all add: is_frame_simps)
  show ?thesis
  proof (rule put_page_pgdir_maps [OF g(1) va g(2,3), of n], goal_cases)
    case ok: (1 t)
    have w: "?e AND PTE_W \<noteq> 0" by (rule rw_writable) simp
    have "get_empty_page va n s = Done () t"
      using some ok pz by (simp add: get_empty_page_def put_page_def kexec cur)
    with mapped_grown [OF ok(2) w wf_space_simps(2) [OF wf]] grown_trans [OF g(4)]
    show ?thesis by (auto simp: grows_or_exits_def)
  next
    case oom: 2
    have "mem_map t1 (MAP_NR p) \<noteq> 0" using g(2) by (simp add: used_def)
    then show ?thesis
      using some oom pz free_page_frame [OF fr] exhausted_set_map [of t1]
      by (simp add: get_empty_page_def put_page_def kexec cur grows_or_exits_def)
  qed
qed

lemma unshared_grown:
  assumes wf: "wf_space s pgd" and h: "has_table s pgd i" and j: "j < 1024"
    and e: "valid (ram s (word_at (table s pgd i) j))"
    and u: "unshared s (word_at (table s pgd i) j) t"
  shows "grown s pgd t" and "has_table t pgd i" and "table t pgd i = table s pgd i"
proof -
  let ?a = "word_at (table s pgd i) j"
  note w = wf_space_simps [OF wf]
  have fresh: "\<not> is_table s pgd (pte_phys (ram t ?a))"
    using u w(3,4) w(7) [OF h j e] unfolding unshared_def is_table_def by metis
  have r: "ram t (word_at q l) = ram s (word_at q l)" if "used s q" "l < 1024" "word_at q l \<noteq> ?a" for q l
    using u that by (simp add: unshared_def)
  have us: "used t q" if "used s q" for q using u that by (simp add: unshared_def)
  have na: "word_at pgd l \<noteq> ?a" if "l < 1024" for l
    using w(1) w(5) [of i] h j that used_aligned [OF w(4) [OF h]] by (simp add: word_at_eq_iff)
  have ni: "word_at (table s pgd i') l = ?a \<longleftrightarrow> i' = i \<and> l = j" if "has_table s pgd i'" "l < 1024" for i' l
    using w(6) [OF that(1) h] that j used_aligned [OF w(4) [OF h]] used_aligned [OF w(4) [OF that(1)]]
    by (simp add: word_at_eq_iff)
  have d: "ram t (word_at pgd l) = ram s (word_at pgd l)" if "l < 512" for l
    using r [OF w(3)] na [of l] that by simp
  have ht: "has_table t pgd l = has_table s pgd l" for l
    using d by (auto simp: has_table_def)
  have tb: "table t pgd l = table s pgd l" if "has_table s pgd l" for l
    using that d by (simp add: table_def has_table_def)
  have it: "is_table t pgd q = is_table s pgd q" for q
    using tb by (auto simp: is_table_def ht)
  have lf: "ram t (word_at (table s pgd i') l) = ram s (word_at (table s pgd i') l)"
    if "has_table s pgd i'" "l < 1024" "\<not> (i' = i \<and> l = j)" for i' l
    using r [OF w(4) [OF that(1)] that(2)] ni [OF that(1,2)] that(3) by simp
  have new: "used t (pte_phys (ram t ?a))" "valid (ram t ?a)" "ram t ?a AND PTE_W \<noteq> 0" "mm_frame s t"
    using u by (simp_all add: unshared_def)
  have ok: "used t (pte_phys (ram t (word_at (table s pgd i') l))) \<and>
      \<not> is_table s pgd (pte_phys (ram t (word_at (table s pgd i') l)))"
    if "has_table s pgd i'" "l < 1024" "valid (ram t (word_at (table s pgd i') l))" for i' l
    using that lf [of i' l] new(1) fresh w(7) [of i' l] us by (cases "i' = i \<and> l = j") auto
  have wft: "wf_space t pgd"
    unfolding wf_space_def ht it using tb ok w us by auto
  have "writable t pgd va" if "va < USER_LIMIT" "writable s pgd va" for va
  proof -
    let ?i = "dir_index va" let ?l = "pt_index va"
    have hi: "has_table s pgd ?i"
      using that dir_index_user by (auto simp: writable_def walk_unfold [OF w(2)] has_table_def split: if_splits)
    then have "valid (ram t (word_at pgd ?i))" using ht [of ?i] by (simp add: has_table_def)
    then show ?thesis
      using that hi tb [OF hi] lf [OF hi pt_index_bound] new(2,3)
      by (cases "?i = i \<and> ?l = j")
         (auto simp: writable_def walk_unfold [OF w(2)] split: if_splits)
  qed
  with wft new(4) show "grown s pgd t" by (simp add: grown_def)
  show "has_table t pgd i" "table t pgd i = table s pgd i" using h ht tb by simp_all
qed

lemma verify_page_grows:
  assumes wf: "wf_space s (pgdir (cur s))" and va: "va < USER_LIMIT"
  shows "grows_or_exits s (pgdir (cur s)) (\<lambda>t. writable t (pgdir (cur s)) va) (verify_page va n s)"
proof -
  let ?pgd = "pgdir (cur s)" let ?i = "dir_index va" let ?j = "pt_index va"
  note w = wf_space_simps [OF wf]
  have i: "?i < USER_PGD_ENTRIES" by (rule dir_index_user [OF va])
  note empty = get_empty_page_grows [OF wf va, of n]
  show ?thesis
  proof (cases "has_table s ?pgd ?i")
    case False
    then have "pte_lookup ?pgd va s = None"
      using i by (simp add: pte_lookup_def has_table_def valid_def)
    with empty show ?thesis by (simp add: verify_page_def kexec)
  next
    case h: True
    let ?a = "word_at (table s ?pgd ?i) ?j"
    have look: "pte_lookup ?pgd va s = Some ?a"
      using h w(2) by (simp add: pte_lookup_def has_table_def valid_def table_def)
    show ?thesis
    proof (cases "valid (ram s ?a)")
      case False
      with look empty show ?thesis by (simp add: verify_page_def kexec valid_def)
    next
      case e: True
      show ?thesis
      proof (cases "ram s ?a AND PTE_W = 0")
        case False
        then have "writable s ?pgd va"
          using e h by (simp add: writable_def walk_unfold [OF w(2)] has_table_def)
        then show ?thesis
          using False e look grown_refl [OF wf]
          by (simp add: verify_page_def kexec valid_def grows_or_exits_def)
      next
        case True
        have run: "verify_page va n s = un_wp_page ?a n s"
          using True e look by (simp add: verify_page_def kexec valid_def)
        have leaf: "used s (pte_phys (ram s ?a))" "pte_phys (ram s ?a) \<noteq> table s ?pgd ?i"
          using w(7) [OF h pt_index_bound e] h by (auto simp: is_table_def)
        show ?thesis
          unfolding run
        proof (rule un_wp_page_unshares [OF w(4) [OF h] pt_index_bound e leaf, of n], goal_cases)
          case (1 t)
          note g = unshared_grown [OF wf h pt_index_bound e 1(2)]
          have "writable t ?pgd va"
            using 1(2) g(2,3)
            by (simp add: writable_def walk_unfold [OF w(2)] has_table_def unshared_def)
          with 1(1) g(1) show ?case by (simp add: grows_or_exits_def)
        next
          case 2
          then show ?case using exhaustedI [of s] by (simp add: grows_or_exits_def)
        qed
      qed
    qed
  qed
qed

subsection \<open>The loop of \<open>verify_area\<close>\<close>

lemma sint_minus_page: "0 < sint (w :: u32) \<Longrightarrow> sint (w - 4096) = sint w - 4096"
proof -
  assume pos: "0 < sint w"
  have "sint w < 2 ^ 31" using sint_lt [of w] by simp
  with pos have "signed_take_bit 31 (sint w - 4096) = sint w - 4096"
    by (intro signed_take_bit_int_eq_self) simp_all
  then show ?thesis by (simp add: sint_word_ariths)
qed

definition verify_body :: "u32 \<times> u32 \<Rightarrow> (u32 \<times> u32 + unit) kernel" where
  "verify_body = (\<lambda>(left, start).
     if 0 <s left
     then seq (verify_page start) (ret (Inl (left - 4096, start + 4096)))
     else ret (Inr ()))"

lemma verify_loop_grows:
  assumes "wf_space s pgd" "pgd = pgdir (cur s)" "k < m" "sint left \<le> 4096 * int k"
    "unat start + 4096 * k \<le> 2147483648"
  shows "grows_or_exits s pgd
     (\<lambda>t. \<forall>i. 4096 * int i < sint left \<longrightarrow> writable t pgd (start + word_of_nat (4096 * i)))
     (loop_fuel m verify_body (left, start) n s)"
  using assms
proof (induction m arbitrary: k left start s)
  case 0
  then show ?case by simp
next
  case (Suc m)
  show ?case
  proof (cases "0 < sint left")
    case False
    then have "\<not> 4096 * int i < sint left" for i by (auto simp: not_less intro: order_trans)
    with False Suc.prems(1) show ?thesis
      by (simp add: verify_body_def kexec word_sless_alt grows_or_exits_def grown_refl)
  next
    case True
    then have k: "0 < k" using Suc.prems(4) by (cases k) auto
    have lt: "start < USER_LIMIT"
      using Suc.prems(5) k by (simp add: word_less_nat_alt)
    have st: "unat (start + 4096) = unat start + 4096"
      using Suc.prems(5) k by (simp add: unat_word_ariths)
    have "grows_or_exits s pgd (\<lambda>t. writable t pgd start) (verify_page start n s)"
      using verify_page_grows [of s start n] Suc.prems(1,2) lt by simp
    then consider (ok) t where "verify_page start n s = Done () t" "grown s pgd t" "writable t pgd start"
      | (oom) t where "verify_page start n s = Exit 11 t" "exhausted t"
      by (auto simp: grows_or_exits_def)
    then show ?thesis
    proof cases
      case oom
      with True show ?thesis
        by (simp add: verify_body_def kexec word_sless_alt grows_or_exits_def)
    next
      case ok
      have wft: "wf_space t pgd" "mm_frame s t" using ok(2) by (simp_all add: grown_def)
      then have "pgd = pgdir (cur t)" using Suc.prems(2) mm_frame_simps(3) by simp
      then have IH: "grows_or_exits t pgd
          (\<lambda>u. \<forall>i. 4096 * int i < sint (left - 4096) \<longrightarrow> writable u pgd (start + 4096 + word_of_nat (4096 * i)))
          (loop_fuel m verify_body (left - 4096, start + 4096) n t)"
        using Suc.prems k st sint_minus_page [OF True] wft(1)
        by (intro Suc.IH [of _ "k - 1"]) (auto simp: of_nat_diff algebra_simps)
      have run: "loop_fuel (Suc m) verify_body (left, start) n s =
          loop_fuel m verify_body (left - 4096, start + 4096) n t"
        using True ok(1) by (simp add: verify_body_def kexec word_sless_alt)
      show ?thesis
        unfolding run using IH unfolding grows_or_exits_def
      proof (elim disjE exE conjE, goal_cases)
        case (1 u)
        have "writable u pgd (start + word_of_nat (4096 * i))" if "4096 * int i < sint left" for i
        proof (cases i)
          case 0
          then show ?thesis using 1(2) ok(3) lt by (simp add: grown_def)
        next
          case (Suc i')
          then have "4096 * int i' < sint (left - 4096)" using that sint_minus_page [OF True] by simp
          with 1(3) Suc show ?thesis by (simp add: algebra_simps)
        qed
        with 1(1,2) grown_trans [OF ok(2)] show ?case by blast
      qed blast
    qed
  qed
qed

section \<open>Releasing a space\<close>

text \<open>
  How often the first \<open>k\<close> directory entries of a space hold frame number \<open>f\<close>: as a mapped
  page or as a table.
\<close>

definition holds :: "kstate \<Rightarrow> u32 \<Rightarrow> nat \<Rightarrow> nat \<Rightarrow> nat" where
  "holds s pgd k f =
     (\<Sum>i<k. if has_table s pgd i
            then refs_pt s (table s pgd i) 1024 f + (if MAP_NR (table s pgd i) = f then 1 else 0)
            else 0)"

lemma holds_mono: "k \<le> m \<Longrightarrow> holds s pgd k f \<le> holds s pgd m f"
  unfolding holds_def by (rule sum_mono2) auto

lemma refs_pt_mono: "k \<le> m \<Longrightarrow> refs_pt s pt k f \<le> refs_pt s pt m f"
  unfolding refs_pt_def by (rule sum_mono2) auto

lemma unat_dec: "c \<noteq> 0 \<Longrightarrow> unat (c - 1 :: u8) = unat c - 1"
  by (simp add: unat_minus_one)

definition freed_table :: "kstate \<Rightarrow> u32 \<Rightarrow> nat \<Rightarrow> kstate \<Rightarrow> bool" where
  "freed_table s pt m t \<longleftrightarrow>
     mm_frame s t \<and> ram t = ram s \<and> (\<forall>f. unat (mem_map t f) + refs_pt s pt m f = unat (mem_map s f))"

lemma free_table_entries:
  assumes leaf: "\<And>j. j < 1024 \<Longrightarrow> valid (ram s (word_at pt j)) \<Longrightarrow> is_frame (pte_phys (ram s (word_at pt j)))"
    and enough: "\<And>f. refs_pt s pt 1024 f \<le> unat (mem_map s f)"
  shows "returns (for_each [0..<1024] (free_pt_entry pt) n s) (\<lambda>_. freed_table s pt 1024)"
proof -
  have step: "returns (free_pt_entry pt j n t) (\<lambda>_. freed_table s pt (Suc j))"
    if j: "j < 1024" and P: "freed_table s pt j t" for j t
  proof (cases "valid (ram s (word_at pt j))")
    case False
    then show ?thesis
      using P by (simp add: free_pt_entry_def kexec freed_table_def valid_def refs_pt_def)
  next
    case True
    let ?p = "pte_phys (ram s (word_at pt j))" let ?f = "MAP_NR (pte_phys (ram s (word_at pt j)))"
    have suc: "refs_pt s pt (Suc j) f = refs_pt s pt j f + (if ?f = f then 1 else 0)" for f
      using True by (simp add: refs_pt_def)
    have "refs_pt s pt (Suc j) ?f \<le> unat (mem_map s ?f)"
      using enough [of ?f] refs_pt_mono [of "Suc j" 1024 s pt ?f] j by simp
    moreover have "unat (mem_map t ?f) + refs_pt s pt j ?f = unat (mem_map s ?f)"
      using P by (simp add: freed_table_def)
    ultimately have "unat (mem_map t ?f) \<noteq> 0"
      using suc [of ?f] by simp
    then have nz: "mem_map t ?f \<noteq> 0" by auto
    have run: "free_pt_entry pt j n t = Done () (set_map ?f (mem_map t ?f - 1) t)"
      using True P free_page_frame [OF leaf [OF j True] nz, of n]
      by (simp add: free_pt_entry_def kexec freed_table_def valid_def)
    have "unat (if f = ?f then mem_map t ?f - 1 else mem_map t f) + refs_pt s pt (Suc j) f
        = unat (mem_map s f)" for f
      using P suc [of f] unat_dec [OF nz] \<open>unat (mem_map t ?f) \<noteq> 0\<close>
      by (auto simp: freed_table_def)
    moreover have "mm_frame s (set_map ?f (mem_map t ?f - 1) t)" "ram t = ram s"
      using P by (simp_all add: freed_table_def)
    ultimately have "freed_table s pt (Suc j) (set_map ?f (mem_map t ?f - 1) t)"
      unfolding freed_table_def by (simp add: set_map_def)
    with run show ?thesis by simp
  qed
  have "freed_table s pt 0 s" by (simp add: freed_table_def refs_pt_def)
  then have "returns (for_each [0..<1024] (free_pt_entry pt) n s) (\<lambda>_. freed_table s pt (length [0..<1024]))"
    by (rule returns_for_each) (use step in simp)
  then show ?thesis by simp
qed

definition freed_dirs :: "kstate \<Rightarrow> u32 \<Rightarrow> nat \<Rightarrow> kstate \<Rightarrow> bool" where
  "freed_dirs s pgd k t \<longleftrightarrow>
     mm_frame s t \<and>
     (\<forall>i<1024. ram t (word_at pgd i) = (if i < k \<and> has_table s pgd i then 0 else ram s (word_at pgd i))) \<and>
     (\<forall>q j. page_aligned q \<and> q \<noteq> pgd \<and> j < 1024 \<longrightarrow> ram t (word_at q j) = ram s (word_at q j)) \<and>
     (\<forall>f. unat (mem_map t f) + holds s pgd k f = unat (mem_map s f))"

lemma free_dir_entry_step:
  assumes wf: "wf_space s pgd" and enough: "\<And>f. holds s pgd USER_PGD_ENTRIES f \<le> unat (mem_map s f)"
    and k: "k < USER_PGD_ENTRIES" and P: "freed_dirs s pgd k t"
  shows "returns (free_dir_entry pgd k n t) (\<lambda>_. freed_dirs s pgd (Suc k))"
proof -
  note w = wf_space_simps [OF wf]
  have d: "ram t (word_at pgd k) = ram s (word_at pgd k)" using P k by (simp add: freed_dirs_def)
  show ?thesis
  proof (cases "has_table s pgd k")
    case False
    then have nv: "ram s (word_at pgd k) AND PTE_V = 0" using k by (simp add: has_table_def valid_def)
    have "i < Suc k \<and> has_table s pgd i \<longleftrightarrow> i < k \<and> has_table s pgd i" for i
      using False by (auto simp: less_Suc_eq)
    then have "freed_dirs s pgd (Suc k) t" using P False by (simp add: freed_dirs_def holds_def)
    with nv d show ?thesis by (simp add: free_dir_entry_def kexec)
  next
    case True
    let ?pt = "table s pgd k" let ?f = "MAP_NR (table s pgd k)"
    have fr: "is_frame ?pt" using w(4) [OF True] by (simp add: used_def)
    have rt: "ram t (word_at ?pt j) = ram s (word_at ?pt j)" if "j < 1024" for j
      using P that w(5) [OF True] is_frame_simps(1) [OF fr] by (simp add: freed_dirs_def)
    have rp: "refs_pt t ?pt 1024 f = refs_pt s ?pt 1024 f" for f
      unfolding refs_pt_def by (rule sum.cong) (simp_all add: rt)
    have suc: "holds s pgd (Suc k) f =
        holds s pgd k f + refs_pt s ?pt 1024 f + (if ?f = f then 1 else 0)" for f
      using True by (simp add: holds_def)
    have bound: "holds s pgd (Suc k) f \<le> unat (mem_map s f)" for f
      using holds_mono [of "Suc k" USER_PGD_ENTRIES s pgd f] enough [of f] k by simp
    have mt: "unat (mem_map t f) + holds s pgd k f = unat (mem_map s f)" for f
      using P by (simp add: freed_dirs_def)
    have inner: "returns (for_each [0..<1024] (free_pt_entry ?pt) n t) (\<lambda>_. freed_table t ?pt 1024)"
    proof (rule free_table_entries)
      show "is_frame (pte_phys (ram t (word_at ?pt j)))"
        if "j < 1024" "valid (ram t (word_at ?pt j))" for j
        using that rt w(7) [OF True] by (simp add: used_def)
      show "refs_pt t ?pt 1024 f \<le> unat (mem_map t f)" for f
        using bound [of f] suc [of f] mt [of f] rp [of f] by linarith
    qed
    then obtain u where u: "for_each [0..<1024] (free_pt_entry ?pt) n t = Done () u"
        and fu: "freed_table t ?pt 1024 u"
      by (auto simp: returns_def)
    have mu: "unat (mem_map u f) + refs_pt s ?pt 1024 f = unat (mem_map t f)" for f
      using fu rp by (simp add: freed_table_def)
    have cnt: "unat (mem_map u ?f) \<noteq> 0"
      using bound [of ?f] suc [of ?f] mt [of ?f] mu [of ?f] by simp
    then have nz: "mem_map u ?f \<noteq> 0" by auto
    let ?v = "set_ram (word_at pgd k) 0 (set_map ?f (mem_map u ?f - 1) u)"
    have run: "free_dir_entry pgd k n t = Done () ?v"
      using True d u free_page_frame [OF fr nz]
      by (simp add: free_dir_entry_def kexec has_table_def valid_def table_def)
    have ru: "ram u = ram t" "mm_frame t u" using fu by (simp_all add: freed_table_def)
    have "freed_dirs s pgd (Suc k) ?v"
      unfolding freed_dirs_def
    proof (intro conjI allI impI)
      show "mm_frame s ?v" using P ru(2) by (auto simp: freed_dirs_def intro: mm_frame_trans)
      fix i :: nat assume "i < 1024"
      then show "ram ?v (word_at pgd i) =
          (if i < Suc k \<and> has_table s pgd i then 0 else ram s (word_at pgd i))"
        using P ru(1) True k w(1)
        by (auto simp: freed_dirs_def set_ram_def set_map_def word_at_eq_iff less_Suc_eq)
    next
      fix q and j :: nat assume "page_aligned q \<and> q \<noteq> pgd \<and> j < 1024"
      then show "ram ?v (word_at q j) = ram s (word_at q j)"
        using P ru(1) k w(1) by (simp add: freed_dirs_def set_ram_def set_map_def word_at_eq_iff)
    next
      fix f
      show "unat (mem_map ?v f) + holds s pgd (Suc k) f = unat (mem_map s f)"
        using suc [of f] mt [of f] mu [of f] unat_dec [OF nz] cnt
        by (auto simp: set_ram_def set_map_def)
    qed
    with run show ?thesis by simp
  qed
qed

lemma free_page_tables_releases:
  assumes wf: "wf_space s pgd"
    and enough: "\<And>f. holds s pgd USER_PGD_ENTRIES f + (if f = MAP_NR pgd then 1 else 0) \<le> unat (mem_map s f)"
  shows "returns (free_page_tables pgd n s)
     (\<lambda>r t. r = 0 \<and> mm_frame s t \<and>
        (\<forall>f. unat (mem_map t f) + holds s pgd USER_PGD_ENTRIES f + (if f = MAP_NR pgd then 1 else 0)
             = unat (mem_map s f)))"
proof -
  note w = wf_space_simps [OF wf]
  have en: "holds s pgd USER_PGD_ENTRIES f \<le> unat (mem_map s f)" for f
    using enough [of f] by simp
  have "freed_dirs s pgd 0 s" by (simp add: freed_dirs_def holds_def)
  then have "returns (for_each [0..<USER_PGD_ENTRIES] (free_dir_entry pgd) n s)
      (\<lambda>_. freed_dirs s pgd (length [0..<USER_PGD_ENTRIES]))"
    by (rule returns_for_each) (use free_dir_entry_step [OF wf en] in simp)
  then obtain t where t: "for_each [0..<USER_PGD_ENTRIES] (free_dir_entry pgd) n s = Done () t"
      "freed_dirs s pgd USER_PGD_ENTRIES t"
    by (auto simp: returns_def)
  have fr: "is_frame pgd" using w(3) by (simp add: used_def)
  have mt: "unat (mem_map t f) + holds s pgd USER_PGD_ENTRIES f = unat (mem_map s f)" for f
    using t(2) by (simp add: freed_dirs_def)
  have cnt: "unat (mem_map t (MAP_NR pgd)) \<noteq> 0"
    using mt [of "MAP_NR pgd"] enough [of "MAP_NR pgd"] by simp
  then have nz: "mem_map t (MAP_NR pgd) \<noteq> 0" by auto
  let ?u = "set_map (MAP_NR pgd) (mem_map t (MAP_NR pgd) - 1) t"
  have "free_page_tables pgd n s = Done 0 ?u"
    using t(1) free_page_frame [OF fr nz] w(2) by (simp add: free_page_tables_def kexec)
  moreover have "unat (mem_map ?u f) + holds s pgd USER_PGD_ENTRIES f
      + (if f = MAP_NR pgd then 1 else 0) = unat (mem_map s f)" for f
    using mt [of f] unat_dec [OF nz] cnt by (auto simp: set_map_def)
  moreover have "mm_frame s ?u" using t(2) by (simp add: freed_dirs_def)
  ultimately show ?thesis by simp
qed

section \<open>Properties\<close>

lemma translate_user_walk:
  assumes "pgdir (cur s) \<noteq> 0" "va < USER_LIMIT"
  shows "translate_user va s =
     (case walk s (pgdir (cur s)) va of
        None \<Rightarrow> -1
      | Some e \<Rightarrow> if e AND PTE_U = 0 then -1 else pte_phys e OR (va AND 0xfff))"
  using assms
  by (auto simp: translate_user_def walk_def valid_def split: option.splits)

lemma unat_add_refs:
  assumes "can_copy s fd td"
  shows "unat (mem_map s f + of_nat (refs s fd USER_PGD_ENTRIES f))
       = unat (mem_map s f) + refs s fd USER_PGD_ENTRIES f"
proof -
  have "unat (mem_map s f) + refs s fd USER_PGD_ENTRIES f < 256"
    using assms by (simp add: can_copy_def)
  then show ?thesis by (simp add: unat_word_ariths unat_of_nat)
qed

text \<open>
  C5: Duplicating a well-formed address space for a fork returns, and either runs out of
  memory (\<open>-1\<close>) or leaves parent and child with the same pages at the same user addresses,
  none of them writable, with every page's reference count raised by exactly the number of
  times the parent maps it, and with the contents of all pages unchanged.
\<close>

theorem copy_page_tables_cow:
  assumes "can_copy s fd td"
  shows "(\<exists>t. copy_page_tables fd td n s = Done 0 t \<and>
            (\<forall>va<USER_LIMIT. walk t fd va = map_option cow (walk s fd va) \<and>
               walk t td va = map_option cow (walk s fd va) \<and>
               (\<forall>e. walk t td va = Some e \<longrightarrow> e AND PTE_W = 0)) \<and>
            (\<forall>f. mem_map s f \<noteq> 0 \<longrightarrow>
               unat (mem_map t f) = unat (mem_map s f) + refs s fd USER_PGD_ENTRIES f) \<and>
            (\<forall>q j. used s q \<and> q \<noteq> td \<and> \<not> is_table s fd q \<and> j < 1024 \<longrightarrow>
               ram t (word_at q j) = ram s (word_at q j)))
         \<or> (\<exists>t. copy_page_tables fd td n s = Done (-1) t \<and> (\<forall>f<PAGING_PAGES. mem_map t f \<noteq> 0))"
proof -
  have nw: "e AND PTE_W = 0" if "map_option cow (walk s fd va) = Some e" for e va
    using that cow_not_writable by (auto simp: walk_def split: option.splits if_splits)
  from copy_page_tables_returns [OF assms, of n]
  obtain r t where run: "copy_page_tables fd td n s = Done r t"
    and c: "r = 0 \<and> copied_dirs s fd td USER_PGD_ENTRIES t \<or>
            r = -1 \<and> (\<forall>f<PAGING_PAGES. mem_map t f \<noteq> 0)"
    unfolding returns_def by blast
  show ?thesis
  proof (cases "r = 0 \<and> copied_dirs s fd td USER_PGD_ENTRIES t")
    case True
    then have P: "copied_dirs s fd td USER_PGD_ENTRIES t" by simp
    have "\<forall>va<USER_LIMIT. walk t fd va = map_option cow (walk s fd va) \<and>
        walk t td va = map_option cow (walk s fd va) \<and> (\<forall>e. walk t td va = Some e \<longrightarrow> e AND PTE_W = 0)"
      using copied_dirs_walk [OF assms P] nw by metis
    moreover have "\<forall>f. mem_map s f \<noteq> 0 \<longrightarrow>
        unat (mem_map t f) = unat (mem_map s f) + refs s fd USER_PGD_ENTRIES f"
      using P unat_add_refs [OF assms] by (simp add: copied_dirs_def)
    moreover have "\<forall>q j. used s q \<and> q \<noteq> td \<and> \<not> is_table s fd q \<and> j < 1024 \<longrightarrow>
        ram t (word_at q j) = ram s (word_at q j)"
      using P by (auto simp: copied_dirs_def is_table_def)
    ultimately show ?thesis using run True by blast
  next
    case False
    with c run show ?thesis by blast
  qed
qed

text \<open>
  A small space: directory in frame 0, one table in frame 4 that maps frame 3 at entry 5,
  and an empty directory for the child in frame 2.
\<close>

definition small_space :: kstate where
  "small_space = boot_state\<lparr>
     ram := (\<lambda>_. 0)(word_at (frame_addr 0) 0 := phys_ppn (frame_addr 4) OR PTE_V,
                   word_at (frame_addr 4) 5 := phys_ppn (frame_addr 3) OR PTE_USER_RWX),
     mem_map := (\<lambda>_. 0)(0 := 1, 2 := 1, 3 := 1, 4 := 1),
     tasks := (\<lambda>_. INIT_TASK\<lparr>pgdir := frame_addr 0\<rparr>)\<rparr>"

lemma small_aligned: "i < PAGING_PAGES \<Longrightarrow> page_aligned (frame_addr i)"
  using is_frame_frame_addr is_frame_simps(1) by blast

lemma frame_addr_eq: "i < PAGING_PAGES \<Longrightarrow> j < PAGING_PAGES \<Longrightarrow> frame_addr i = frame_addr j \<longleftrightarrow> i = j"
  by (metis MAP_NR_frame_addr)

lemma small_ram:
  "i < PAGING_PAGES \<Longrightarrow> j < 1024 \<Longrightarrow> ram small_space (word_at (frame_addr i) j) =
     (if i = 0 \<and> j = 0 then phys_ppn (frame_addr 4) OR PTE_V
      else if i = 4 \<and> j = 5 then phys_ppn (frame_addr 3) OR PTE_USER_RWX else 0)"
  by (simp add: small_space_def word_at_eq_iff small_aligned frame_addr_eq)

lemma small_has_table: "has_table small_space (frame_addr 0) i \<longleftrightarrow> i = 0"
  by (auto simp: has_table_def small_ram valid_table_entry valid_def [of 0] split: if_splits)

lemma small_table: "table small_space (frame_addr 0) 0 = frame_addr 4"
  by (simp add: table_def small_ram pte_phys_table_entry is_frame_frame_addr)

lemma small_used: "i \<in> {0, 2, 3, 4} \<Longrightarrow> used small_space (frame_addr i)"
  by (auto simp: used_def is_frame_frame_addr MAP_NR_frame_addr small_space_def)

lemma small_leaf:
  "j < 1024 \<Longrightarrow> valid (ram small_space (word_at (frame_addr 4) j)) \<longleftrightarrow> j = 5"
  "pte_phys (ram small_space (word_at (frame_addr 4) 5)) = frame_addr 3"
proof -
  have "valid (phys_ppn (frame_addr 3) OR PTE_USER_RWX)" by (simp add: valid_def valid_ppn)
  then show "j < 1024 \<Longrightarrow> valid (ram small_space (word_at (frame_addr 4) j)) \<longleftrightarrow> j = 5"
    by (simp add: small_ram valid_def [of 0])
  show "pte_phys (ram small_space (word_at (frame_addr 4) 5)) = frame_addr 3"
    by (simp add: small_ram pte_phys_ppn small_aligned)
qed

lemma small_wf: "wf_space small_space (frame_addr 0)"
  using small_used [of 0] small_used [of 4] small_used [of 3]
  by (auto simp: wf_space_def small_has_table small_table small_leaf is_table_def frame_addr_eq)

lemma small_refs: "refs small_space (frame_addr 0) USER_PGD_ENTRIES f \<le> 1"
proof -
  have "refs_pt small_space (frame_addr 4) 1024 f
      = (\<Sum>j<(1024::nat). if j = 5 then (if MAP_NR (frame_addr 3) = f then 1 else 0) else 0)"
    unfolding refs_pt_def by (rule sum.cong) (auto simp: small_leaf)
  also have "\<dots> \<le> 1" by (simp add: sum.delta)
  finally show ?thesis by (simp add: refs_def small_has_table small_table sum.delta)
qed

lemma small_can_copy: "can_copy small_space (frame_addr 0) (frame_addr 2)"
proof -
  have "unat (mem_map small_space f) \<le> 1" for f by (simp add: small_space_def)
  then have "unat (mem_map small_space f) + refs small_space (frame_addr 0) USER_PGD_ENTRIES f < 256" for f
    using add_mono [OF _ small_refs [of f], of "unat (mem_map small_space f)" 1] by simp
  then show ?thesis
    using small_wf small_used [of 2]
    by (auto simp: can_copy_def small_has_table small_table frame_addr_eq small_ram valid_def)
qed

theorem copy_page_tables_cow_witness:
  "\<exists>r t. copy_page_tables (frame_addr 0) (frame_addr 2) 0 small_space = Done r t \<and>
     (r = 0 \<or> (\<forall>f<PAGING_PAGES. mem_map t f \<noteq> 0))"
  using copy_page_tables_cow [OF small_can_copy, of 0] by blast

lemma small_cur: "pgdir (cur small_space) = frame_addr 0"
  by (simp add: small_space_def cur_def)

text \<open>
  C6: \<open>un_wp_page\<close> on a valid leaf entry of an allocated table returns with the entry
  writable and mapping a page that no other entry maps (count 1) with the old contents,
  leaving every other word of every allocated page as it was; only when no page is free does
  it end the task instead.
\<close>

theorem un_wp_page_private_copy:
  assumes "used s pt" "j < 1024" "valid (ram s (word_at pt j))"
    "used s (pte_phys (ram s (word_at pt j)))" "pte_phys (ram s (word_at pt j)) \<noteq> pt"
  shows "(\<exists>t. un_wp_page (word_at pt j) n s = Done () t \<and> unshared s (word_at pt j) t) \<or>
     (un_wp_page (word_at pt j) n s = Exit 11 s \<and> (\<forall>f<PAGING_PAGES. mem_map s f \<noteq> 0))"
  using un_wp_page_unshares [OF assms, of n] by metis

theorem un_wp_page_private_copy_witness:
  "\<exists>t. un_wp_page (word_at (frame_addr 4) 5) 0 small_space = Done () t \<and>
     unshared small_space (word_at (frame_addr 4) 5) t"
proof -
  have free: "\<not> (\<forall>f<PAGING_PAGES. mem_map small_space f \<noteq> 0)"
    by (auto simp: small_space_def intro!: exI [of _ 7])
  have "(\<exists>t. un_wp_page (word_at (frame_addr 4) 5) 0 small_space = Done () t \<and>
        unshared small_space (word_at (frame_addr 4) 5) t) \<or>
      (un_wp_page (word_at (frame_addr 4) 5) 0 small_space = Exit 11 small_space \<and>
        (\<forall>f<PAGING_PAGES. mem_map small_space f \<noteq> 0))"
    by (rule un_wp_page_private_copy) (simp_all add: small_used small_leaf frame_addr_eq)
  with free show ?thesis by blast
qed

text \<open>Both walk indices depend on the page number only.\<close>

lemma unat_and_page_mask: "unat (addr AND 0xfff :: u32) = unat addr mod 4096"
  unfolding mask12 take_bit_eq_mask [symmetric] unsigned_take_bit_eq by (simp add: take_bit_eq_mod)

lemma index_of_page:
  "dir_index va = unat va div 4096 div 1024" "pt_index va = unat va div 4096 mod 1024"
proof -
  show "dir_index va = unat va div 4096 div 1024"
    unfolding dir_index_def unat_drop_bit_eq by (simp add: drop_bit_eq_div flip: div_mult2_eq)
  have "(0x3ff :: u32) = mask 10" by (simp add: mask_eq_exp_minus_1)
  then have "drop_bit 12 va AND 0x3ff = take_bit 10 (drop_bit 12 va)"
    by (simp add: take_bit_eq_mask)
  then show "pt_index va = unat va div 4096 mod 1024"
    unfolding pt_index_def
    by (simp only: unsigned_take_bit_eq unat_drop_bit_eq) (simp add: take_bit_eq_mod drop_bit_eq_div)
qed

lemma unat_page_start: "unat (addr AND 0xfffff000 :: u32) = 4096 * (unat addr div 4096)"
proof -
  have "addr AND NOT (mask 12) = push_bit 12 (drop_bit 12 addr)"
    by (rule bit_word_eqI) (auto simp: bit_simps)
  moreover have "unat (push_bit 12 (drop_bit 12 addr)) = take_bit 32 (4096 * (unat addr div 4096))"
    unfolding unsigned_push_bit_eq unat_drop_bit_eq
    by (simp add: push_bit_eq_mult drop_bit_eq_div mult.commute)
  moreover have "4096 * (unat addr div 4096) < 2 ^ 32"
  proof -
    have "unat addr < 4294967296" using unsigned_less [where w = addr and 'a = nat] by simp
    moreover have "4096 * (unat addr div 4096) \<le> unat addr" by (rule times_div_less_eq_dividend)
    ultimately show ?thesis by (simp only: power_numeral Num.pow.simps Num.sqr.simps Num.mult_num_simps)
  qed
  ultimately show ?thesis by (simp add: page_mask take_bit_nat_eq_self)
qed

lemma index_eq_page: "(dir_index va, pt_index va) = (dir_index va', pt_index va') \<longleftrightarrow> unat va div 4096 = unat va' div 4096"
  unfolding index_of_page prod.inject by (metis div_mult_mod_eq)

text \<open>
  C7: Mapping an allocated page into a well-formed space with \<open>put_page\<close> makes every address
  of that page translate into it, leaves the translation of all other user addresses as it
  was and keeps the space well-formed; the only other outcome is \<open>0\<close>, with nothing changed,
  when no page is free for the table it needs.
\<close>

theorem put_page_translates:
  assumes wf: "wf_space s (pgdir (cur s))" and va: "va < USER_LIMIT"
    and page: "used s page" "\<not> is_table s (pgdir (cur s)) page"
  shows "(\<exists>t. put_page page va n s = Done page t \<and> wf_space t (pgdir (cur t)) \<and>
            (\<forall>va'<USER_LIMIT. translate_user va' t =
               (if unat va' div 4096 = unat va div 4096 then page OR (va' AND 0xfff) else translate_user va' s)))
       \<or> (put_page page va n s = Done 0 s \<and> (\<forall>f<PAGING_PAGES. mem_map s f \<noteq> 0))"
proof -
  let ?pgd = "pgdir (cur s)" let ?e = "phys_ppn page OR PTE_USER_RWX"
  have run: "put_page page va n s = put_page_pgdir ?pgd page va n s"
    by (simp add: put_page_def kexec)
  have e: "pte_phys ?e = page" "?e AND PTE_U \<noteq> 0"
    using page(1) by (simp_all add: pte_phys_ppn used_def is_frame_simps word_ao_dist)
  show ?thesis
  proof (rule put_page_pgdir_maps [OF wf va page, of n], goal_cases)
    case (1 t)
    then have m: "wf_space t ?pgd" "walk t ?pgd va = Some ?e" "cur t = cur s"
        "\<forall>va'<USER_LIMIT. (dir_index va', pt_index va') \<noteq> (dir_index va, pt_index va)
           \<longrightarrow> walk t ?pgd va' = walk s ?pgd va'"
      by (auto simp: mapped_def intro: mm_frame_simps)
    have nz: "pgdir (cur t) \<noteq> 0" "?pgd \<noteq> 0" using wf_space_simps(2) [OF wf] m(3) by simp_all
    have "translate_user va' t = (if unat va' div 4096 = unat va div 4096 then page OR (va' AND 0xfff) else translate_user va' s)"
      if va': "va' < USER_LIMIT" for va'
    proof (cases "unat va' div 4096 = unat va div 4096")
      case True
      then have "walk t ?pgd va' = Some ?e" using walk_cong [OF nz(2), of va' va t] m(2) by (simp add: index_of_page)
      then show ?thesis using translate_user_walk [OF nz(1) va'] m(3) e True by simp
    next
      case False
      then have "walk t ?pgd va' = walk s ?pgd va'" using m(4) va' index_eq_page [of va' va] by blast
      then show ?thesis
        using translate_user_walk [OF nz(1) va'] translate_user_walk [OF nz(2) va'] m(3) False by simp
    qed
    then show ?case using 1(1) run m(1,3) by simp
  next
    case 2
    then show ?case using run by simp
  qed
qed

theorem put_page_translates_witness:
  "\<exists>t. put_page (frame_addr 3) 0x3000 0 small_space = Done (frame_addr 3) t \<and>
     translate_user 0x3000 t = frame_addr 3 OR (0x3000 AND 0xfff) \<and> translate_user 0x3abc t = frame_addr 3 OR (0x3abc AND 0xfff)"
proof -
  have free: "\<not> (\<forall>f<PAGING_PAGES. mem_map small_space f \<noteq> 0)"
    by (auto simp: small_space_def intro!: exI [of _ 7])
  have nt: "\<not> is_table small_space (frame_addr 0) (frame_addr 3)"
    by (simp add: is_table_def small_has_table small_table frame_addr_eq)
  have "used small_space (frame_addr 3)" by (simp add: small_used)
  then obtain t where t: "put_page (frame_addr 3) 0x3000 0 small_space = Done (frame_addr 3) t"
      "\<forall>va'<USER_LIMIT. translate_user va' t =
         (if unat va' div 4096 = unat (0x3000 :: u32) div 4096 then frame_addr 3 OR (va' AND 0xfff) else translate_user va' small_space)"
    using put_page_translates [of small_space "0x3000" "frame_addr 3" 0] small_wf nt free small_cur by auto
  then show ?thesis using t(2) [rule_format, of "0x3000"] t(2) [rule_format, of "0x3abc"] by (intro exI [of _ t]) simp
qed

text \<open>
  C8: \<open>verify_area\<close>, called by a user task with a buffer that ends below \<open>2\<^sup>3\<^sup>1\<close> (so that the
  \<open>int\<close> the size is rounded up in does not overflow) and given enough fuel, returns with every
  byte of the buffer mapped and writable, and no other page made unwritable; or it ends the
  task, when at most one frame of memory is left.
\<close>

theorem verify_area_writable:
  assumes wf: "wf_space s (pgdir (cur s))" and sz: "0 < sint sz"
    and range: "unat addr + unat sz < 2147483648" and fuel: "unat sz + 4096 < n"
  shows "(\<exists>t. verify_area addr sz n s = Done () t \<and> grown s (pgdir (cur s)) t \<and>
             (\<forall>va. addr \<le> va \<and> unat va < unat addr + unat sz \<longrightarrow> writable t (pgdir (cur s)) va))
       \<or> (\<exists>t. verify_area addr sz n s = Exit 11 t \<and> exhausted t)"
proof -
  let ?pgd = "pgdir (cur s)"
  let ?a = "unat addr div 4096" and ?o = "unat addr mod 4096"
  let ?L = "unat sz + ?o" let ?k = "(?L + 4095) div 4096"
  let ?left = "sz + (addr AND 0xfff)" let ?start = "addr AND 0xfffff000"
  have addr: "unat addr = 4096 * ?a + ?o" by simp
  have o: "?o < 4096" by simp
  have L: "?L < 2147483648" using range by simp
  have uleft: "unat ?left = ?L"
    using L by (simp add: unat_word_ariths unat_and_page_mask)
  have left: "sint ?left = int ?L"
    using sint_unat [of ?left] L uleft by (simp only:)
  have start: "unat ?start = 4096 * ?a" by (rule unat_page_start)
  have "?L \<le> 4096 * ?k" by linarith
  then have kb: "sint ?left \<le> 4096 * int ?k" unfolding left by linarith
  have "?L < 4096 * (524288 - ?a)" using range addr by linarith
  then have "?k \<le> 524288 - ?a" by linarith
  then have bound: "unat ?start + 4096 * ?k \<le> 2147483648"
    using start range addr by linarith
  have "?k < n" using fuel o by linarith
  then have g: "grows_or_exits s ?pgd
     (\<lambda>t. \<forall>i. 4096 * int i < sint ?left \<longrightarrow> writable t ?pgd (?start + word_of_nat (4096 * i)))
     (loop_fuel n verify_body (?left, ?start) n s)"
    using kb bound by (intro verify_loop_grows [OF wf refl])
  have run: "verify_area addr sz n s = loop_fuel n verify_body (?left, ?start) n s"
    using wf_space_simps(2) [OF wf] range
    by (simp add: verify_area_def kexec loop_def verify_body_def word_le_nat_alt)
  have cover: "writable t ?pgd va"
    if all: "\<forall>i. 4096 * int i < sint ?left \<longrightarrow> writable t ?pgd (?start + word_of_nat (4096 * i))"
      and va: "addr \<le> va" "unat va < unat addr + unat sz" for t va
  proof -
    let ?i = "unat va div 4096 - ?a"
    have le: "?a \<le> unat va div 4096" using va(1) by (simp add: word_le_nat_alt div_le_mono)
    have "4096 * (unat va div 4096) \<le> unat va" by simp
    then have lt: "4096 * ?i < ?L" using va(2) addr le by linarith
    have "unat (?start + word_of_nat (4096 * ?i)) = 4096 * (?a + ?i)"
      using lt L start range addr unat_add_of_nat [of ?start "4096 * ?i"]
      by (simp only: distrib_left [of 4096 ?a])
    then have "unat (?start + word_of_nat (4096 * ?i)) div 4096 = unat va div 4096"
      using le by simp
    then have "dir_index (?start + word_of_nat (4096 * ?i)) = dir_index va"
        "pt_index (?start + word_of_nat (4096 * ?i)) = pt_index va"
      by (simp_all only: index_of_page)
    note walk_cong [OF wf_space_simps(2) [OF wf] this, of t]
    moreover have "4096 * int ?i < sint ?left" using lt left by linarith
    then have "writable t ?pgd (?start + word_of_nat (4096 * ?i))" by (rule all [rule_format])
    ultimately show ?thesis by (simp only: writable_def)
  qed
  show ?thesis
    using g cover unfolding run grows_or_exits_def by blast
qed

theorem verify_area_writable_witness:
  "\<exists>t. verify_area 0x5008 16 5000 small_space = Done () t \<and>
      (\<forall>va. 0x5008 \<le> va \<and> unat va < 0x5018 \<longrightarrow> writable t (frame_addr 0) va)"
proof -
  have "(phys_ppn (frame_addr 3) OR PTE_USER_RWX) AND PTE_W \<noteq> 0" by (rule rw_writable) simp
  then have e: "ram small_space (word_at (frame_addr 4) 5) AND PTE_W \<noteq> 0" "valid (ram small_space (word_at (frame_addr 4) 5))"
    using small_leaf(1) [of 5] by (simp_all add: small_ram)
  have "dir_index 0x5000 = 0" "pt_index 0x5000 = 5" by (simp_all add: index_of_page)
  then have "pte_lookup (frame_addr 0) 0x5000 small_space = Some (word_at (frame_addr 4) 5)"
    using small_table small_has_table [of 0] wf_space_simps(2) [OF small_wf] by (simp add: pte_lookup_def table_def has_table_def valid_def)
  then have "verify_page 0x5000 5000 small_space = Done () small_space"
    using e small_cur by (simp add: verify_page_def kexec valid_def)
  moreover have "loop_fuel (Suc (Suc 4998)) verify_body (24, 0x5000) 5000 small_space = Done () small_space"
    using calculation unfolding loop_fuel.simps by (simp add: verify_body_def kexec word_sless_alt)
  ultimately have "verify_area 0x5008 16 5000 small_space = Done () small_space"
    using small_cur wf_space_simps(2) [OF small_wf] by (simp add: verify_area_def kexec loop_def verify_body_def)
  then show ?thesis using verify_area_writable [of small_space 16 "0x5008" 5000] small_wf small_cur by auto
qed

text \<open>
  C10: Freeing a well-formed address space whose pages, tables and directory are all counted
  returns 0 without panicking and takes from every frame's reference count exactly the
  references this space held: one per leaf entry, one per table, one for the directory.
\<close>

theorem free_page_tables_exact:
  assumes "wf_space s pgd"
    and "\<And>f. holds s pgd USER_PGD_ENTRIES f + (if f = MAP_NR pgd then 1 else 0) \<le> unat (mem_map s f)"
  shows "\<exists>t. free_page_tables pgd n s = Done 0 t \<and> mm_frame s t \<and>
     (\<forall>f. unat (mem_map t f) + holds s pgd USER_PGD_ENTRIES f + (if f = MAP_NR pgd then 1 else 0)
          = unat (mem_map s f))"
  using free_page_tables_releases [OF assms, of n] by (auto simp: returns_def)

lemma small_holds:
  "holds small_space (frame_addr 0) USER_PGD_ENTRIES f = (if f = 3 \<or> f = 4 then 1 else 0)"
proof -
  have "refs_pt small_space (frame_addr 4) 1024 f
      = (\<Sum>j<(1024::nat). if j = 5 then (if MAP_NR (frame_addr 3) = f then 1 else 0) else 0)"
    unfolding refs_pt_def by (rule sum.cong) (auto simp: small_leaf)
  then show ?thesis
    by (auto simp: holds_def small_has_table small_table sum.delta MAP_NR_frame_addr)
qed

lemma small_map: "mem_map small_space f = (if f \<in> {0, 2, 3, 4} then 1 else 0)"
  by (simp add: small_space_def)

theorem free_page_tables_exact_witness:
  "\<exists>t. free_page_tables (frame_addr 0) 0 small_space = Done 0 t \<and> mem_map t 3 = 0 \<and> mem_map t 4 = 0"
proof -
  have "holds small_space (frame_addr 0) USER_PGD_ENTRIES f + (if f = MAP_NR (frame_addr 0) then 1 else 0)
      \<le> unat (mem_map small_space f)" for f
    by (simp add: small_holds small_map MAP_NR_frame_addr)
  from free_page_tables_exact [OF small_wf this, of 0]
  obtain t where t: "free_page_tables (frame_addr 0) 0 small_space = Done 0 t"
    and c: "\<And>f. unat (mem_map t f) + holds small_space (frame_addr 0) USER_PGD_ENTRIES f
       + (if f = MAP_NR (frame_addr 0) then 1 else 0) = unat (mem_map small_space f)" by blast
  have "unat (mem_map t 3) = 0" "unat (mem_map t 4) = 0"
    using c [of 3] c [of 4] by (simp_all add: small_holds small_map MAP_NR_frame_addr)
  with t show ?thesis by (simp add: unat_eq_zero)
qed

end
