(* ===== verification/Fork.thy ===== *)
theory Fork
  imports Tasks Address_Space
begin

text \<open>
  The system call \<open>fork\<close> as a whole: \<open>find_empty_process\<close>, \<open>copy_process\<close> and, in it, the page
  allocator, the duplication of the address space and the sharing of files and inodes.
\<close>

section \<open>States that agree on memory\<close>

lemma memory_cong:
  assumes "ram t = ram s" "mem_map t = mem_map s"
  shows "wf_space t pgd = wf_space s pgd" "walk t pgd va = walk s pgd va" "refs t pgd m f = refs s pgd m f"
    "used t q = used s q" "has_table t pgd i = has_table s pgd i" "table t pgd i = table s pgd i"
proof -
  show u: "used t q = used s q" for q using assms by (simp add: used_def)
  show h: "has_table t pgd i = has_table s pgd i" and tb: "table t pgd i = table s pgd i" for i
    using assms by (simp_all add: has_table_def table_def)
  have it: "is_table t pgd q = is_table s pgd q" for q by (simp add: is_table_def h tb)
  show "wf_space t pgd = wf_space s pgd" unfolding wf_space_def u h tb it assms ..
  show "walk t pgd va = walk s pgd va" unfolding walk_def pte_lookup_def assms ..
  show "refs t pgd m f = refs s pgd m f" unfolding refs_def refs_pt_def h tb assms ..
qed

text \<open>Taking a free page leaves the references and the walk of a space as they are.\<close>

lemma grabbed_refs:
  assumes wf: "wf_space s pgd" and g: "grabbed s p t"
  shows "refs t pgd m f = refs s pgd m f" "va < USER_LIMIT \<Longrightarrow> walk t pgd va = walk s pgd va"
    "has_table t pgd i = has_table s pgd i" "has_table s pgd i \<Longrightarrow> table t pgd i = table s pgd i"
    "used s q \<Longrightarrow> used t q \<and> q \<noteq> p" "used s q \<Longrightarrow> j < 1024 \<Longrightarrow> ram t (word_at q j) = ram s (word_at q j)"
proof -
  note w = wf_space_simps [OF wf] and gr = grabbed_simps [OF g]
  have np: "q \<noteq> p" if "used s q" for q using that gr(2) by (auto simp: used_def)
  show r: "ram t (word_at q j) = ram s (word_at q j)" if "used s q" "j < 1024" for q j
    using gr(5) [OF used_aligned [OF that(1)] np [OF that(1)] that(2)] .
  show "used t q \<and> q \<noteq> p" if "used s q" for q using that gr(3) np by (auto simp: used_def)
  show ht: "has_table t pgd i = has_table s pgd i" for i using r [OF w(3)] by (auto simp: has_table_def)
  show tb: "table t pgd i = table s pgd i" if "has_table s pgd i" for i
    using that r [OF w(3)] by (simp add: table_def has_table_def)
  have "refs_pt t (table t pgd i) 1024 f = refs_pt s (table s pgd i) 1024 f" if "has_table s pgd i" for i
    using that r [OF w(4)] by (simp add: refs_pt_def tb)
  then show "refs t pgd m f = refs s pgd m f" unfolding refs_def ht by (intro sum.cong) auto
  show "walk t pgd va = walk s pgd va" if "va < USER_LIMIT"
    using tb r [OF w(3), of "dir_index va"] r [OF w(4), of "dir_index va" "pt_index va"]
      dir_index_user [OF that] pt_index_bound [of va]
    by (auto simp: walk_unfold [OF w(2)] has_table_def)
qed

lemma zero_page_again: "(\<And>j. j < 1024 \<Longrightarrow> ram s (word_at p j) = 0) \<Longrightarrow> zero_page p s = s"
proof -
  assume z: "\<And>j. j < 1024 \<Longrightarrow> ram s (word_at p j) = 0"
  have "zero_words p is m = m" if "\<And>i. i \<in> set is \<Longrightarrow> m (word_at p i) = 0" for "is" m
    using that by (induction "is" arbitrary: m) (auto simp: fun_upd_idem)
  from this [of "[0..<1024]" "ram s"] z show ?thesis by (simp add: zero_page_def)
qed

section \<open>Sharing files and inodes\<close>

text \<open>How many of the descriptors in \<open>is\<close> refer to file \<open>f\<close>.\<close>

definition fd_refs :: "task_struct \<Rightarrow> nat list \<Rightarrow> nat \<Rightarrow> nat" where
  "fd_refs p is f = length (filter (\<lambda>i. filp p i = Some f) is)"

lemma share_files_exec:
  "for_each is (share_file nr) n s =
     Done () (s\<lparr>file_table := (\<lambda>f. (file_table s f)\<lparr>f_count := f_count (file_table s f) + of_nat (fd_refs (tasks s nr) is f)\<rparr>)\<rparr>)"
proof (induction "is" arbitrary: s)
  case Nil
  then show ?case by (simp add: kexec fd_refs_def)
next
  case (Cons i "is")
  show ?case
  proof (cases "filp (tasks s nr) i")
    case None
    then have "share_file nr i n s = Done () s" by (simp add: share_file_def kexec)
    then show ?thesis using Cons.IH [of s] None by (simp add: seq_exec fd_refs_def)
  next
    case (Some g)
    let ?t = "upd_file g (\<lambda>p. p\<lparr>f_count := f_count p + 1\<rparr>) s"
    have "share_file nr i n s = Done () ?t" using Some by (simp add: share_file_def kexec)
    moreover have "tasks ?t = tasks s" by (simp add: upd_file_def)
    ultimately show ?thesis using Cons.IH [of ?t] Some
      by (simp add: seq_exec fd_refs_def upd_file_def fun_eq_iff algebra_simps)
  qed
qed

definition inode_refs :: "task_struct \<Rightarrow> nat \<Rightarrow> nat" where
  "inode_refs p i = length (filter (\<lambda>q. q = Some i) [pwd p, root p, executable p])"

lemma share_inode_exec:
  "share_inode q n s = Done () (s\<lparr>inode_table := (\<lambda>i. (inode_table s i)\<lparr>i_count := i_count (inode_table s i) + (if q = Some i then 1 else 0)\<rparr>)\<rparr>)"
  by (cases q) (simp_all add: share_inode_def kexec upd_inode_def fun_eq_iff)

definition shared :: "task_struct \<Rightarrow> task_struct \<Rightarrow> kstate \<Rightarrow> kstate" where
  "shared child p s =
     s\<lparr>file_table := (\<lambda>f. (file_table s f)\<lparr>f_count := f_count (file_table s f) + of_nat (fd_refs child [0..<NR_OPEN] f)\<rparr>),
       inode_table := (\<lambda>i. (inode_table s i)\<lparr>i_count := i_count (inode_table s i) + of_nat (inode_refs p i)\<rparr>)\<rparr>"

lemma share_all_exec: "share_all nr n s = Done () (shared (tasks s nr) (cur s) s)"
  by (simp add: share_all_def seq_exec bind_exec gets_exec share_files_exec share_inode_exec shared_def inode_refs_def cur_def
      fun_eq_iff algebra_simps)

section \<open>The new process\<close>

lemma mm_frame_eq: "mm_frame s t \<Longrightarrow> t = s\<lparr>ram := ram t, mem_map := mem_map t\<rparr>"
proof -
  assume "mm_frame s t"
  then have "t\<lparr>ram := ram s, mem_map := mem_map s\<rparr> = s" by (simp add: mm_frame_def)
  from arg_cong [OF this, of "\<lambda>u. u\<lparr>ram := ram t, mem_map := mem_map t\<rparr>"] show ?thesis by simp
qed

text \<open>The situation in which a task forks: a well-formed space whose counts leave room.\<close>

definition can_fork :: "kstate \<Rightarrow> bool" where
  "can_fork s \<longleftrightarrow> wf_space s (pgdir (cur s)) \<and> (\<forall>f. unat (mem_map s f) + refs s (pgdir (cur s)) USER_PGD_ENTRIES f < 256)"

text \<open>The second page taken is fit to be the directory of the child.\<close>

lemma refs_unused:
  assumes "wf_space s fd" "is_frame q" "mem_map s (MAP_NR q) = 0"
  shows "refs s fd m (MAP_NR q) = 0"
  unfolding refs_def using refs_pt_unused [OF assms(1) _ assms(2,3)] by simp

lemma child_can_copy:
  assumes cf: "wf_space s fd" "\<forall>f. unat (mem_map s f) + refs s fd USER_PGD_ENTRIES f < 256"
    and g1: "grabbed s p t1" and t2: "ram t2 = ram t1" "mem_map t2 = mem_map t1" and g2: "grabbed t2 q t3"
    and t4: "ram t4 = ram t3" "mem_map t4 = mem_map t3"
  shows "can_copy t4 fd q" "va < USER_LIMIT \<Longrightarrow> walk t4 fd va = walk s fd va"
    "used s x \<Longrightarrow> used t4 x \<and> x \<noteq> q" "used s x \<Longrightarrow> j < 1024 \<Longrightarrow> ram t4 (word_at x j) = ram s (word_at x j)"
    "is_table t4 fd x = is_table s fd x"
proof -
  note G1 = grabbed_refs [OF cf(1) g1] and wf1 = grabbed_grown(1) [OF cf(1) g1]
  have wf2: "wf_space t2 fd" using wf1 memory_cong [OF t2] by simp
  note G2 = grabbed_refs [OF wf2 g2] and wf3 = grabbed_grown(1-3) [OF wf2 g2] and gr = grabbed_simps [OF g2]
  note M2 = memory_cong [OF t2] and M4 = memory_cong [OF t4]
  show "walk t4 fd va = walk s fd va" if "va < USER_LIMIT" using G1(2) G2(2) M2 M4 that by simp
  show u: "used t4 x \<and> x \<noteq> q" if "used s x" for x using G1(5) [OF that] G2(5) [of x] M2 M4 by simp
  show "ram t4 (word_at x j) = ram s (word_at x j)" if "used s x" "j < 1024" for x j
    using G1(5) [OF that(1)] G1(6) [OF that] G2(6) [of x j] M2 that(2) t2 t4 by simp
  have ht: "has_table t4 fd i = has_table s fd i" for i using G1(3) G2(3) M2 M4 by simp
  have tb: "table t4 fd i = table s fd i" if "has_table s fd i" for i using G1(3,4) G2(3,4) M2 M4 that by simp
  show "is_table t4 fd x = is_table s fd x" for x using ht tb by (auto simp: is_table_def)
  have count: "unat (mem_map t4 f) + refs t4 fd USER_PGD_ENTRIES f < 256" for f
  proof -
    have r: "refs t4 fd USER_PGD_ENTRIES f = refs s fd USER_PGD_ENTRIES f" using G1(1) G2(1) M2 M4 by simp
    note g1s = grabbed_simps [OF g1]
    have m: "mem_map t4 = (mem_map s)(MAP_NR p := 1, MAP_NR q := 1)" using g1s(3) gr(3) t2 t4 by simp
    have "mem_map s (MAP_NR q) = 0" using gr(2) t2 g1s(3) by (auto split: if_splits)
    then have "refs s fd USER_PGD_ENTRIES (MAP_NR p) = 0" "refs s fd USER_PGD_ENTRIES (MAP_NR q) = 0"
      using refs_unused [OF cf(1) g1s(1,2)] refs_unused [OF cf(1) gr(1)] by simp_all
    then show ?thesis using r m spec [OF cf(2), of f] by auto
  qed
  have "\<not> valid (ram t4 (word_at q i))" if "i < USER_PGD_ENTRIES" for i
    using gr(4) [of i] that t4 by (simp add: valid_def)
  moreover have "q \<noteq> fd" "\<forall>i. has_table t4 fd i \<longrightarrow> table t4 fd i \<noteq> q"
    using wf3(3) M4 by (auto simp: is_table_def)
  ultimately show "can_copy t4 fd q" using wf3(1,2) M4 count unfolding can_copy_def by simp
qed

text \<open>What a successful fork leaves, and what a failed one does.\<close>

definition forked :: "u32 \<Rightarrow> nat \<Rightarrow> kstate \<Rightarrow> kstate \<Rightarrow> bool" where
  "forked entry nr s t \<longleftrightarrow>
     (let p = cur s; c = tasks t nr in
      task_used t = (task_used s)(nr := True) \<and> (\<forall>i. i \<noteq> nr \<longrightarrow> tasks t i = tasks s i) \<and>
      father c = pid p \<and> t_state c = TASK_RUNNING \<and> t_counter c = t_priority p \<and> t_signal c = 0 \<and>
      t_tf c = (t_tf p)\<lparr>tf_x := (tf_x (t_tf p))(10 := 0), tf_from_user := 1\<rparr> \<and> kc_ra (kctx c) = entry \<and>
      filp c = filp p \<and> pgdir c \<noteq> pgdir p \<and>
      (\<forall>va<USER_LIMIT. walk t (pgdir p) va = map_option cow (walk s (pgdir p) va) \<and>
         walk t (pgdir c) va = map_option cow (walk s (pgdir p) va)) \<and>
      (\<forall>x j. used s x \<and> \<not> is_table s (pgdir p) x \<and> j < 1024 \<longrightarrow> ram t (word_at x j) = ram s (word_at x j)) \<and>
      (\<forall>f. f_count (file_table t f) = f_count (file_table s f) + of_nat (fd_refs p [0..<NR_OPEN] f)) \<and>
      (\<forall>i. i_count (inode_table t i) = i_count (inode_table s i) + of_nat (inode_refs p i)))"

definition not_forked :: "nat \<Rightarrow> kstate \<Rightarrow> kstate \<Rightarrow> bool" where
  "not_forked nr s t \<longleftrightarrow> task_used t = (task_used s)(nr := False) \<and> (\<forall>i. i \<noteq> nr \<longrightarrow> tasks t i = tasks s i) \<and>
     file_table t = file_table s \<and> inode_table t = inode_table s \<and>
     (\<exists>a b. \<forall>f<PAGING_PAGES. f \<noteq> a \<and> f \<noteq> b \<longrightarrow> mem_map t f \<noteq> 0)"

lemma forked_intro:
  assumes can: "can_copy t4 (pgdir (cur s)) q" and cd: "copied_dirs t4 (pgdir (cur s)) q USER_PGD_ENTRIES t6" and nr: "nr \<noteq> current s"
    and f4: "task_used t4 = (task_used s)(nr := True)" "\<And>i. i \<noteq> nr \<Longrightarrow> tasks t4 i = tasks s i"
      "tasks t4 nr = child_frame entry q (t_tf (cur s)) (child_of p s)" "file_table t4 = file_table s" "inode_table t4 = inode_table s"
      "last_pid t4 = last_pid s" "current t4 = current s"
    and w: "\<And>va. va < USER_LIMIT \<Longrightarrow> walk t4 (pgdir (cur s)) va = walk s (pgdir (cur s)) va"
    and us: "\<And>x. used s x \<Longrightarrow> used t4 x \<and> x \<noteq> q"
    and r: "\<And>x j. used s x \<Longrightarrow> j < 1024 \<Longrightarrow> ram t4 (word_at x j) = ram s (word_at x j)"
    and tb: "\<And>x. is_table t4 (pgdir (cur s)) x = is_table s (pgdir (cur s)) x"
  shows "forked entry nr s (set_state nr TASK_RUNNING (shared (tasks t6 nr) (cur t6) t6))" (is "forked _ _ _ ?u")
proof -
  let ?fd = "pgdir (cur s)"
  have e6: "t6 = t4\<lparr>ram := ram t6, mem_map := mem_map t6\<rparr>" using cd by (intro mm_frame_eq) (simp add: copied_dirs_def)
  have t6: "task_used t6 = (task_used s)(nr := True)" "\<And>i. i \<noteq> nr \<Longrightarrow> tasks t6 i = tasks s i"
    "tasks t6 nr = child_frame entry q (t_tf (cur s)) (child_of p s)" "file_table t6 = file_table s" "inode_table t6 = inode_table s"
    "current t6 = current s"
    using f4 by (subst e6, simp)+
  have cur6: "cur t6 = cur s" using t6(2) [OF nr [symmetric]] t6(6) by (simp add: cur_def)
  have mu: "ram ?u = ram t6" "mem_map ?u = mem_map t6" by (simp_all add: set_state_def upd_task_def shared_def)
  have child: "tasks ?u nr = (tasks t6 nr)\<lparr>t_state := TASK_RUNNING\<rparr>" by (simp add: set_state_def upd_task_def shared_def)
  have walks: "walk ?u ?fd va = map_option cow (walk s ?fd va)" "walk ?u q va = map_option cow (walk s ?fd va)"
    if "va < USER_LIMIT" for va
    using copied_dirs_walk [OF can cd that] memory_cong(2) [OF mu] w [OF that] by simp_all
  have keep: "ram ?u (word_at x j) = ram s (word_at x j)" if "used s x" "\<not> is_table s ?fd x" "j < 1024" for x j
  proof -
    have "\<forall>i. has_table t4 ?fd i \<longrightarrow> x \<noteq> table t4 ?fd i" using that(2) tb by (auto simp: is_table_def)
    then have "ram t6 (word_at x j) = ram t4 (word_at x j)" using cd us [OF that(1)] that(3) by (simp add: copied_dirs_def)
    then show ?thesis using r [OF that(1,3)] mu by simp
  qed
  have "q \<noteq> ?fd" using can by (simp add: can_copy_def)
  moreover have "fd_refs (tasks t6 nr) = fd_refs (cur s)"
    using t6(3) by (simp add: fd_refs_def fun_eq_iff child_frame_def child_of_def)
  ultimately show ?thesis
    using walks keep t6 cur6 unfolding forked_def Let_def child
    by (simp add: child_frame_def child_of_def set_state_def upd_task_def shared_def)
qed

lemma copy_process_forks:
  assumes cf: "can_fork s" and nr: "nr \<noteq> current s" "\<not> task_used s nr"
  shows "(\<exists>t. copy_process entry nr n s = Done (last_pid s) t \<and> pid (tasks t nr) = last_pid s \<and> forked entry nr s t) \<or>
     (\<exists>t. copy_process entry nr n s = Done (- EAGAIN) t \<and> not_forked nr s t)"
proof (cases rule: get_free_page_cases [of n s])
  case none
  moreover have "not_forked nr s s" using nr(2) none(2) by (simp add: not_forked_def fun_upd_idem)
  ultimately show ?thesis by (simp add: copy_process_def bind_exec ret_exec)
next
  case one: (some p t1)
  let ?fd = "pgdir (cur s)"
  have wf: "wf_space s ?fd" "\<forall>f. unat (mem_map s f) + refs s ?fd USER_PGD_ENTRIES f < 256" using cf by (simp_all add: can_fork_def)
  have fd: "?fd \<noteq> 0" using wf_space_simps(2) [OF wf(1)] .
  note g1 = grabbed_simps [OF one(2)]
  have e1: "t1 = s\<lparr>ram := ram t1, mem_map := mem_map t1\<rparr>" by (rule mm_frame_eq [OF g1(6)])
  have pz: "p \<noteq> 0" using g1(1) by (simp add: is_frame_simps)
  define t2 where "t2 = new_task nr p t1"
  have m2: "ram t2 = ram t1" "mem_map t2 = mem_map t1" by (simp_all add: t2_def new_task_def set_task_used_def)
  have cur2: "cur t2 = cur s" "current t2 = current s"
    using nr(1) by (subst (asm) eq_commute, subst t2_def, subst e1, simp add: new_task_def set_task_used_def cur_def)+
  have fields: "task_used t2 = (task_used s)(nr := True)" "\<And>i. i \<noteq> nr \<Longrightarrow> tasks t2 i = tasks s i" "tasks t2 nr = child_of p s"
    "file_table t2 = file_table s" "inode_table t2 = inode_table s" "last_pid t2 = last_pid s"
    unfolding t2_def by (subst e1, simp add: new_task_def set_task_used_def child_of_def cur_def)+
  have "copy_process entry nr n s = bindp (get_free_page n t2) (\<lambda>new_pgdir.
      (if new_pgdir = 0 then seq (modify (set_task_used nr False)) (seq (free_page p) (ret (- EAGAIN)))
       else seq (modify (zero_page new_pgdir)) (seq (modify (\<lambda>s. upd_task nr (child_frame entry new_pgdir (t_tf (cur s))) s))
         (bind (copy_page_tables (pgdir (cur t2)) new_pgdir) (\<lambda>e.
           if e \<noteq> 0 then seq (modify (set_task_used nr False)) (seq (free_page new_pgdir) (seq (free_page p) (ret (- EAGAIN))))
           else seq (share_all nr) (seq (modify (set_state nr TASK_RUNNING)) (gets last_pid)))))) n)"
    using one(1) pz cur2(1) fd unfolding copy_process_def t2_def by (simp add: bind_exec seq_exec modify_exec gets_exec)
  note start = this [unfolded cur2(1)]
  show ?thesis
  proof (cases rule: get_free_page_cases [of n t2])
    case none
    have used: "mem_map (set_task_used nr False t2) (MAP_NR p) \<noteq> 0" using m2 g1(3) by (simp add: set_task_used_def)
    obtain u where u: "copy_process entry nr n s = Done (- EAGAIN) u" "u = set_map (MAP_NR p) (mem_map t2 (MAP_NR p) - 1) (set_task_used nr False t2)"
      using start none(1) free_page_frame [OF g1(1) used, of n]
      by (simp add: seq_exec modify_exec ret_exec set_task_used_def)
    have "not_forked nr s u" using fields none(2) unfolding u(2) by (auto simp: not_forked_def set_map_def set_task_used_def)
    then show ?thesis using u(1) by blast
  next
    case two: (some q t3)
    note g2 = grabbed_simps [OF two(2)]
    have qz: "q \<noteq> 0" using g2(1) by (simp add: is_frame_simps)
    have e3: "t3 = t2\<lparr>ram := ram t3, mem_map := mem_map t3\<rparr>" by (rule mm_frame_eq [OF g2(6)])
    define t4 where "t4 = upd_task nr (child_frame entry q (t_tf (cur s))) t3"
    have m4: "ram t4 = ram t3" "mem_map t4 = mem_map t3" by (simp_all add: t4_def upd_task_def)
    note C = child_can_copy [OF wf one(2) m2 two(2) m4]
    have f4: "task_used t4 = (task_used s)(nr := True)" "\<And>i. i \<noteq> nr \<Longrightarrow> tasks t4 i = tasks s i"
      "tasks t4 nr = child_frame entry q (t_tf (cur s)) (child_of p s)" "file_table t4 = file_table s" "inode_table t4 = inode_table s"
      "last_pid t4 = last_pid s" "current t4 = current s"
      unfolding t4_def using fields cur2(2) by (subst e3, simp add: upd_task_def)+
    have cur3: "cur (zero_page q t3) = cur s"
      using cur2 by (subst e3) (simp add: zero_page_def cur_def)
    have "zero_page q t3 = t3" by (rule zero_page_again) (rule g2(4))
    then have run: "copy_process entry nr n s = bindp (copy_page_tables ?fd q n t4) (\<lambda>e.
        (if e \<noteq> 0 then seq (modify (set_task_used nr False)) (seq (free_page q) (seq (free_page p) (ret (- EAGAIN))))
         else seq (share_all nr) (seq (modify (set_state nr TASK_RUNNING)) (gets last_pid))) n)"
      using start two(1) qz cur3 by (simp add: seq_exec modify_exec bind_exec t4_def)
    obtain e t6 where e: "copy_page_tables ?fd q n t4 = Done e t6"
      "e = 0 \<and> copied_dirs t4 ?fd q USER_PGD_ENTRIES t6 \<or> e \<noteq> 0 \<and> (\<exists>k<USER_PGD_ENTRIES. copied_dirs t4 ?fd q k t6) \<and> (\<forall>f<PAGING_PAGES. mem_map t6 f \<noteq> 0)"
      using copy_page_tables_returns [OF C(1), of n] unfolding returns_def by fastforce
    show ?thesis
    proof (cases "e = 0")
      case True
      then have cd: "copied_dirs t4 ?fd q USER_PGD_ENTRIES t6" using e(2) by simp
      have e6: "t6 = t4\<lparr>ram := ram t6, mem_map := mem_map t6\<rparr>" using cd by (intro mm_frame_eq) (simp add: copied_dirs_def)
      define u where "u = set_state nr TASK_RUNNING (shared (tasks t6 nr) (cur t6) t6)"
      have "copy_process entry nr n s = Done (last_pid s) u"
      proof -
        have "last_pid u = last_pid s" using f4(6) unfolding u_def by (subst e6) (simp add: set_state_def upd_task_def shared_def)
        then show ?thesis using run e(1) True by (simp add: seq_exec share_all_exec modify_exec gets_exec u_def)
      qed
      moreover have "forked entry nr s u"
        unfolding u_def by (rule forked_intro [OF C(1) cd nr(1) f4 C(2-5)])
      moreover have "pid (tasks u nr) = last_pid s"
        using f4(3) unfolding u_def by (subst e6) (simp add: set_state_def upd_task_def shared_def child_frame_def child_of_def)
      ultimately show ?thesis by blast
    next
      case False
      then obtain k where cd: "k < USER_PGD_ENTRIES" "copied_dirs t4 ?fd q k t6" and full: "\<forall>f<PAGING_PAGES. mem_map t6 f \<noteq> 0" using e(2) by blast
      have e6: "t6 = t4\<lparr>ram := ram t6, mem_map := mem_map t6\<rparr>" using cd(2) by (intro mm_frame_eq) (simp add: copied_dirs_def)
      have f6: "task_used t6 = (task_used s)(nr := True)" "\<forall>i. i \<noteq> nr \<longrightarrow> tasks t6 i = tasks s i"
        "file_table t6 = file_table s" "inode_table t6 = inode_table s"
        using f4 by (subst e6, simp)+
      define u where "u = set_task_used nr False t6"
      have pq: "MAP_NR p \<noteq> MAP_NR q" using g1(3) g2(2) m2 by auto
      have "mem_map t4 (MAP_NR p) \<noteq> 0" "mem_map t4 (MAP_NR q) \<noteq> 0" using g1(3) g2(3) m2 m4 pq by simp_all
      then have used: "mem_map u (MAP_NR p) \<noteq> 0" "mem_map u (MAP_NR q) \<noteq> 0"
        using copied_dirs_used [OF C(1) cd(2)] cd(1) by (simp_all add: u_def set_task_used_def)
      let ?v = "set_map (MAP_NR q) (mem_map u (MAP_NR q) - 1) u"
      have "mem_map ?v (MAP_NR p) \<noteq> 0" using used pq by (simp add: set_map_def)
      then have "copy_process entry nr n s = Done (- EAGAIN) (set_map (MAP_NR p) (mem_map ?v (MAP_NR p) - 1) ?v)"
        using run e(1) False free_page_frame [OF g2(1) used(2), of n] free_page_frame [OF g1(1), of ?v n]
        by (simp add: seq_exec modify_exec ret_exec u_def)
      moreover have "not_forked nr s (set_map (MAP_NR p) (mem_map ?v (MAP_NR p) - 1) ?v)"
        using full f6 unfolding u_def by (auto simp: not_forked_def set_map_def set_task_used_def)
      ultimately show ?thesis by blast
    qed
  qed
qed

section \<open>The system call\<close>

text \<open>The choice of a process number does not touch what \<open>copy_process\<close> works on.\<close>

lemma can_fork_pid: "can_fork (s\<lparr>last_pid := p\<rparr>) = can_fork s"
  using memory_cong(1,3) [of "s\<lparr>last_pid := p\<rparr>" s] by (simp add: can_fork_def cur_def)

lemma forked_pid: "forked entry nr (s\<lparr>last_pid := p\<rparr>) t \<Longrightarrow> forked entry nr s t"
  using memory_cong [of "s\<lparr>last_pid := p\<rparr>" s] by (simp add: forked_def cur_def is_table_def)

lemma not_forked_pid: "not_forked nr (s\<lparr>last_pid := p\<rparr>) t = not_forked nr s t"
  by (simp add: not_forked_def)

text \<open>
  C2: \<open>sys_fork\<close>, called by a task whose address space is well formed and whose page counts leave
  room, returns in one of two ways. Either it returns a positive process number that no task has, and a
  slot that was free holds a runnable child with that number: a child of the caller with its
  descriptors and its trap frame except that register a0 reads zero, with a directory of its own through which
  every user address maps to the caller's frame, both sides write protected; every other task and every
  page that is not a page table keeps its contents, and each open file and inode counts the new references.
  Or it returns \<open>-EAGAIN\<close> with every task, file and inode as before, and then the task
  table was full or at most two frames of memory are free.
\<close>

theorem fork_duplicates:
  assumes "unat (last_pid s) < 2147483648" "65 \<le> n" "can_fork s" "task_used s (current s)"
  shows "(\<exists>nr p t. sys_fork entry n s = Done p t \<and> 1 \<le> nr \<and> nr < NR_TASKS \<and> \<not> task_used s nr \<and>
       0 <s p \<and> (\<forall>i<NR_TASKS. task_used s i \<longrightarrow> pid (tasks s i) \<noteq> p) \<and> pid (tasks t nr) = p \<and> forked entry nr s t) \<or>
     (\<exists>t. sys_fork entry n s = Done (- EAGAIN) t \<and> file_table t = file_table s \<and> inode_table t = inode_table s \<and>
       task_used t = task_used s \<and> (\<forall>i. task_used s i \<longrightarrow> tasks t i = tasks s i) \<and>
       ((\<forall>i. 1 \<le> i \<and> i < NR_TASKS \<longrightarrow> task_used s i) \<or>
        (\<exists>a b. \<forall>f<PAGING_PAGES. f \<noteq> a \<and> f \<noteq> b \<longrightarrow> mem_map t f \<noteq> 0)))"
proof -
  obtain p where p: "find_empty_process n s =
      Done (case search (\<lambda>i. \<not> task_used s i) 1 63 of Some i \<Rightarrow> word_of_nat i | None \<Rightarrow> - EAGAIN) (s\<lparr>last_pid := p\<rparr>)"
    "0 <s p" "\<forall>i<NR_TASKS. task_used s i \<longrightarrow> pid (tasks s i) \<noteq> p"
    using find_empty_process_exec [OF assms(1,2)] by blast
  let ?s = "s\<lparr>last_pid := p\<rparr>"
  show ?thesis
  proof (cases "search (\<lambda>i. \<not> task_used s i) 1 63")
    case None
    then have "\<forall>i. 1 \<le> i \<and> i < NR_TASKS \<longrightarrow> task_used s i" by (simp add: search_None_iff)
    moreover have "- EAGAIN <s (0 :: u32)" by (simp add: word_sless_alt)
    then have "sys_fork entry n s = Done (- EAGAIN) ?s" using p(1) None by (simp add: sys_fork_def bind_exec ret_exec)
    ultimately show ?thesis by simp
  next
    case (Some nr)
    then have nr: "1 \<le> nr" "nr < NR_TASKS" "\<not> task_used s nr" by (simp_all add: search_Some_iff)
    have slot: "unat (word_of_nat nr :: u32) = nr" using nr(2) by (simp add: unat_of_nat)
    then have "\<not> (word_of_nat nr :: u32) <s 0" using nr(2) sint_unat [of "word_of_nat nr :: u32"] by (simp add: word_sless_alt)
    then have run: "sys_fork entry n s = copy_process entry nr n ?s" using p(1) Some slot by (simp add: sys_fork_def bind_exec)
    have "nr \<noteq> current ?s" "\<not> task_used ?s nr" using assms(4) nr(3) by auto
    from copy_process_forks [OF _ this, of entry n] assms(3) run
    consider t where "sys_fork entry n s = Done p t" "pid (tasks t nr) = p" "forked entry nr ?s t"
      | t where "sys_fork entry n s = Done (- EAGAIN) t" "not_forked nr s t"
      by (auto simp: can_fork_pid not_forked_pid)
    then show ?thesis
    proof cases
      case 1
      then show ?thesis using 1 nr p(2,3) forked_pid by blast
    next
      case 2
      have "(task_used s)(nr := False) = task_used s" using nr(3) by (simp add: fun_upd_idem)
      moreover have "tasks t i = tasks s i" if "task_used s i" for i using 2(2) nr(3) that by (auto simp: not_forked_def)
      ultimately show ?thesis using 2 by (auto simp: not_forked_def)
    qed
  qed
qed

lemma small_can_fork: "can_fork small_space"
  using small_can_copy by (simp add: can_fork_def small_cur can_copy_def)

theorem fork_duplicates_witness:
  "(\<exists>nr p t. sys_fork 0x80001000 65 small_space = Done p t \<and> 0 <s p \<and> 1 \<le> nr \<and> pid (tasks t nr) = p \<and>
      forked 0x80001000 nr small_space t) \<or>
   (\<exists>t. sys_fork 0x80001000 65 small_space = Done (- EAGAIN) t \<and>
      (\<exists>a b. \<forall>f<PAGING_PAGES. f \<noteq> a \<and> f \<noteq> b \<longrightarrow> mem_map t f \<noteq> 0))"
proof -
  have "\<not> task_used small_space 1" "unat (last_pid small_space) < 2147483648" "task_used small_space (current small_space)"
    by (simp_all add: small_space_def boot_state_def)
  moreover from this(1) have "\<not> (\<forall>i. 1 \<le> i \<and> i < NR_TASKS \<longrightarrow> task_used small_space i)" by (metis le_refl one_less_numeral_iff semiring_norm(76) numeral_less_iff)
  ultimately show ?thesis using fork_duplicates [of small_space 65 "0x80001000"] small_can_fork by blast
qed

end
