(* ===== verification/Descriptor_Tasks.thy ===== *)
theory Descriptor_Tasks
  imports Descriptor_Calls Fork
begin

text \<open>
  Creation and end of a task under the contract of \<^verbatim>\<open>Descriptors\<close>: \<^verbatim>\<open>kernel/fork.c\<close>,
  \<^verbatim>\<open>kernel/exit.c\<close>, \<^verbatim>\<open>fs/exec.c\<close>, and with them every trap of a task, \<^verbatim>\<open>kernel/traps.c\<close>.
\<close>

section \<open>Memory management alone\<close>

text \<open>
  While a task is being created or released the invariant does not hold; the code that runs
  meanwhile is that of \<^verbatim>\<open>mm/memory.c\<close>, which does not sleep and touches memory only.
\<close>

definition quiet_contract :: "kstate contract" where
  "quiet_contract = \<lparr>c_inv = (\<lambda>_. False), c_next = (\<lambda>_. False), c_rely = (\<lambda>_ _. False), c_guar = mm_frame,
     c_panic = (\<lambda>m. m \<noteq> ''Close: file count is 0''), c_leave = (\<lambda>_. False)\<rparr>"

abbreviation quiet :: "'a kernel \<Rightarrow> bool" where
  "quiet f \<equiv> keeps quiet_contract (\<lambda>_. True) mm_frame f"

interpretation still: upkeep quiet_contract "\<lambda>_. True" mm_frame
  by unfold_locales (auto simp: quiet_contract_def intro: mm_frame_trans)

lemma quiet_modify: "(\<And>s. mm_frame s (f s)) \<Longrightarrow> quiet (modify f)"
  by (rule still.keeps_modify) (simp add: quiet_contract_def)

lemma quiet_panic: "m \<noteq> ''Close: file count is 0'' \<Longrightarrow> quiet (panic m)"
  by (rule still.keeps_panic) (simp add: quiet_contract_def)

lemmas quiet_control = still.keeps_ret still.keeps_skip still.keeps_gets still.keeps_bind still.keeps_seq still.keeps_if
  still.keeps_whenk still.keeps_let still.keeps_case_option still.keeps_for_each still.keeps_for_ret quiet_modify quiet_panic

lemma quiet_map_at: "quiet (map_at i)"
  unfolding map_at_def by (intro quiet_control still.keeps_fault)

lemma quiet_pages: "quiet get_free_page" "quiet (free_page a)" "quiet (copy_pt_entry a b i)"
  unfolding get_free_page_def free_page_def copy_pt_entry_def
  by (intro quiet_control quiet_map_at; simp add: mm_frame_def set_map_def set_ram_def zero_page_def)+

lemma quiet_copy_page_tables: "quiet (copy_page_tables a b)"
  unfolding copy_page_tables_def copy_dir_entry_def
  by (intro quiet_control quiet_pages; simp add: mm_frame_def set_ram_def)

lemma quiet_zero_page: "quiet (modify (zero_page p))"
  by (intro quiet_modify) (simp add: mm_frame_def zero_page_def)

text \<open>Running such code from a state of the other contract.\<close>

lemma quiet_bindp:
  assumes "quiet f" "\<And>a t. mm_frame s t \<Longrightarrow> safe (fd_contract me) s0 Q (g a t)"
  shows "safe (fd_contract me) s0 Q (bindp (f n s) g)"
proof -
  have "safe quiet_contract s (\<lambda>_ t. mm_frame s t) (f n s)" using assms(1) by (simp add: keeps_def)
  then show ?thesis using assms(2) by (cases "f n s") (simp_all add: quiet_contract_def)
qed

lemma quiet_bind:
  "quiet f \<Longrightarrow> (\<And>a t. mm_frame s t \<Longrightarrow> safe (fd_contract me) s0 Q (g a n t)) \<Longrightarrow> safe (fd_contract me) s0 Q (bind f g n s)"
  unfolding bind_def by (rule quiet_bindp)

lemma mm_frame_frame: "mm_frame s t \<Longrightarrow> frame s t"
  using mm_frame_eq [of s t] by (metis frame_fields(1,2) frame_refl)

section \<open>\<open>fork\<close>\<close>

text \<open>\<open>t\<close> is \<open>s\<close> with the new task \<open>nr\<close>, a copy of the running one whose files are not counted yet.\<close>

definition spawned :: "nat \<Rightarrow> kstate \<Rightarrow> kstate \<Rightarrow> bool" where
  "spawned nr s t \<longleftrightarrow> current t = current s \<and> last_pid t = last_pid s \<and> task_used t = (task_used s)(nr := True) \<and>
     (\<forall>j. j \<noteq> nr \<longrightarrow> tasks t j = tasks s j) \<and> file_table t = file_table s \<and>
     filp (tasks t nr) = filp (cur s) \<and> pid (tasks t nr) = last_pid s \<and> t_state (tasks t nr) \<noteq> TASK_ZOMBIE"

lemma mm_frame_fields:
  assumes "mm_frame s t"
  shows "last_pid t = last_pid s" "task_used t = task_used s" "file_table t = file_table s"
proof -
  have eq: "t\<lparr>ram := ram s, mem_map := mem_map s\<rparr> = s" using assms by (simp add: mm_frame_def)
  show "last_pid t = last_pid s" "task_used t = task_used s" "file_table t = file_table s"
    using arg_cong [OF eq, of last_pid] arg_cong [OF eq, of task_used] arg_cong [OF eq, of file_table] by simp_all
qed

lemma spawned_mm: "spawned nr s t \<Longrightarrow> mm_frame t u \<Longrightarrow> spawned nr s u"
  using mm_frame_fields [of t u] mm_frame_simps [of t u] by (simp add: spawned_def)

lemma spawned_new: "spawned nr s (new_task nr p s)"
  by (simp add: spawned_def new_task_def set_task_used_def child_of_def cur_def)

lemma spawned_child: "spawned nr s t \<Longrightarrow> spawned nr s (upd_task nr (child_frame entry q tf) t)"
  by (simp add: spawned_def upd_task_def child_frame_def)

lemma mm_frame_spawn: "mm_frame s t \<Longrightarrow> spawned nr t u \<Longrightarrow> spawned nr s u"
  using mm_frame_fields [of s t] mm_frame_simps [of s t] by (simp add: spawned_def)

lemma spawned_undo: "spawned nr s t \<Longrightarrow> \<not> task_used s nr \<Longrightarrow> frame s (set_task_used nr False t)"
  by (auto simp: spawned_def frame_def set_task_used_def fun_eq_iff)

lemma fd_refs_card: "fd_refs p [0..<NR_OPEN] f = card {d. d < NR_OPEN \<and> filp p d = Some f}"
proof -
  have "card (set (filter (\<lambda>i. filp p i = Some f) [0..<NR_OPEN])) = fd_refs p [0..<NR_OPEN] f"
    unfolding fd_refs_def by (rule distinct_card) simp
  moreover have "set (filter (\<lambda>i. filp p i = Some f) [0..<NR_OPEN]) = {d. d < NR_OPEN \<and> filp p d = Some f}" by auto
  ultimately show ?thesis by simp
qed

text \<open>Once the files are shared, the new task is a task like the others.\<close>

lemma spawned_shared:
  assumes ok: "fd_ok me s" and sp: "spawned nr s t"
    and nr: "\<not> task_used s nr" "nr < NR_TASKS" and pid: "\<not> pid_used (last_pid s) s"
  defines "u \<equiv> set_state nr TASK_RUNNING (shared (tasks t nr) (cur t) t)"
  shows "fd_ok me u \<and> fd_guar me s u"
proof -
  note ok' = fd_okD [OF ok]
  have u: "current u = me" "\<And>j. task_used u j = (j = nr \<or> task_used s j)"
    "\<And>j. filp (tasks u j) = (if j = nr then filp (tasks s me) else filp (tasks s j))"
    "\<And>j. pid (tasks u j) = (if j = nr then last_pid s else pid (tasks s j))"
    "\<And>j. t_state (tasks u j) = (if j = nr then TASK_RUNNING else t_state (tasks s j))"
    using sp ok' by (auto simp: u_def spawned_def set_state_def upd_task_def shared_def cur_def)
  have me: "me \<noteq> nr" using nr ok' by auto
  have d: "descriptors u f = descriptors s f \<union> {nr} \<times> {d. d < NR_OPEN \<and> filp (tasks s me) d = Some f}" for f
    using u nr by (auto simp: descriptors_def split: if_splits)
  have alive: "alive j u = (alive j s \<or> j = nr)" for j using u nr by (auto simp: alive_def)
  have count: "unat (f_count (file_table u f)) = card (descriptors u f)" for f
  proof -
    let ?r = "{d. d < NR_OPEN \<and> filp (tasks s me) d = Some f}"
    have fin: "finite ?r" by simp
    have "descriptors s f \<inter> {nr} \<times> ?r = {}" using nr by (auto simp: descriptors_def)
    then have c: "card (descriptors u f) = card (descriptors s f) + card ?r"
      unfolding d using fin by (simp add: card_Un_disjoint card_cartesian_product)
    have "filp (tasks t nr) = filp (tasks s me)" using sp ok' by (simp add: spawned_def)
    then have r: "fd_refs (tasks t nr) [0..<NR_OPEN] f = card ?r" by (simp add: fd_refs_card)
    have "f_count (file_table u f) = f_count (file_table s f) + of_nat (card ?r)"
      using sp r by (simp add: u_def spawned_def set_state_def upd_task_def shared_def)
    then show ?thesis using ok'(7) [of f] c card_descriptors [of u f] by (simp add: unat_word_ariths unat_of_nat)
  qed
  have "zombies_closed u" using ok'(5) u alive by (auto simp: fd_inv_def zombies_closed_def)
  moreover have "pids_unique u"
    using ok'(5) u pid nr by (auto simp: fd_inv_def pids_unique_def slots_ok_def pid_used_iff split: if_splits)
  ultimately have "fd_inv u" using ok'(5) u nr count by (auto simp: fd_inv_def files_counted_def slots_ok_def)
  moreover have "undisturbed j s u" if "j \<noteq> me" for j
  proof -
    have "owns j u f" if own: "owns j s f" for f
    proof -
      have "(me, e) \<notin> descriptors s f" for e using owns_other [OF own, of me e] \<open>j \<noteq> me\<close> by auto
      then have "descriptors u f = descriptors s f" using d [of f] own_descriptor [OF ok] ok' by auto
      then show ?thesis using own owns_cong by blast
    qed
    moreover have "j \<noteq> nr" if "alive j s" using that nr by (auto simp: alive_def)
    ultimately show ?thesis using u alive by (auto simp: undisturbed_def)
  qed
  ultimately show ?thesis using u alive ok' by (simp add: fd_ok_def fd_guar_def)
qed

text \<open>
  The code that runs between the creation of the task and the sharing of its files: \<open>s\<close> is the
  state in which the call began.
\<close>

definition spawning :: "nat \<Rightarrow> nat \<Rightarrow> kstate \<Rightarrow> 'a kernel \<Rightarrow> bool" where
  "spawning me nr s g \<longleftrightarrow> (\<forall>n t. spawned nr s t \<longrightarrow> safe (fd_contract me) s (\<lambda>_. fd_ok me) (g n t))"

lemma spawning_bind:
  assumes "quiet f" "\<And>a. spawning me nr s (g a)"
  shows "spawning me nr s (bind f g)"
  unfolding spawning_def bind_exec
  using assms(2) spawned_mm by (intro allI impI quiet_bindp [OF assms(1)]) (auto simp: spawning_def)

lemma spawning_seq: "quiet f \<Longrightarrow> spawning me nr s g \<Longrightarrow> spawning me nr s (seq f g)"
  by (simp add: seq_def spawning_bind)

lemma spawning_if: "spawning me nr s f \<Longrightarrow> spawning me nr s g \<Longrightarrow> spawning me nr s (if b then f else g)"
  by simp

lemma spawning_panic: "m \<noteq> ''Close: file count is 0'' \<Longrightarrow> spawning me nr s (panic m)"
  by (simp add: spawning_def kexec)

lemma spawning_update:
  "(\<And>t. spawned nr s t \<Longrightarrow> spawned nr s (h t)) \<Longrightarrow> spawning me nr s g \<Longrightarrow> spawning me nr s (seq (modify h) g)"
  by (simp add: spawning_def kexec)

text \<open>A fork that fails gives the slot back, one that succeeds shares the files.\<close>

lemma bindp_Done: "bindp p Done = p"
  by (induction p) simp_all

lemma spawning_undo:
  assumes "fd_ok me s" "\<not> task_used s nr" "quiet g"
  shows "spawning me nr s (seq (modify (set_task_used nr False)) g)"
proof -
  have "safe (fd_contract me) s (\<lambda>_. fd_ok me) (bindp (g n (set_task_used nr False t)) Done)" if "spawned nr s t" for n t
  proof (rule quiet_bindp [OF assms(3)])
    fix a u assume "mm_frame (set_task_used nr False t) u"
    then have "frame s u" using spawned_undo [OF that assms(2)] mm_frame_frame frame_trans by blast
    then show "safe (fd_contract me) s (\<lambda>_. fd_ok me) (Done a u)" using assms(1) frame_ok frame_guar by simp
  qed
  then show ?thesis by (simp add: spawning_def kexec bindp_Done)
qed

lemma spawning_share:
  assumes "fd_ok me s" "\<not> task_used s nr" "nr < NR_TASKS" "\<not> pid_used (last_pid s) s"
  shows "spawning me nr s (seq (share_all nr) (seq (modify (set_state nr TASK_RUNNING)) (gets f)))"
  using spawned_shared [OF assms(1) _ assms(2-4)] by (simp add: spawning_def kexec share_all_exec)

lemma spawning_start:
  assumes "fd_ok me s" "mm_frame s t" "spawning me nr s g"
  shows "safe (fd_contract me) s (\<lambda>_. fd_ok me) ((if p = 0 then ret e else seq (modify (new_task nr p)) g) n t)"
proof -
  have "frame s t" by (rule mm_frame_frame [OF assms(2)])
  moreover have "spawned nr s (new_task nr p t)" by (rule mm_frame_spawn [OF assms(2) spawned_new])
  ultimately show ?thesis using assms(1,3) frame_ok frame_guar by (simp add: kexec spawning_def)
qed

lemma copy_process_safe:
  assumes "fd_ok me s" "\<not> task_used s nr" "nr < NR_TASKS" "\<not> pid_used (last_pid s) s"
  shows "safe (fd_contract me) s (\<lambda>_. fd_ok me) (copy_process entry nr n s)"
  unfolding copy_process_def
  by (rule quiet_bind [OF quiet_pages(1)], rule spawning_start, rule assms, assumption)
    (intro spawning_bind spawning_if spawning_panic spawning_undo spawning_share spawning_seq [OF quiet_zero_page]
      spawning_update spawned_child quiet_control quiet_pages quiet_copy_page_tables assms; simp)

lemma find_empty_process_safe:
  assumes "fd_ok me s"
  shows "safe (fd_contract me) s (\<lambda>r t. fd_ok me t \<and> (\<not> r <s 0 \<longrightarrow>
     \<not> task_used t (unat r) \<and> unat r < NR_TASKS \<and> \<not> pid_used (last_pid t) t)) (find_empty_process n s)"
proof -
  have pids: "safe (fd_contract me) s (\<lambda>_ t. fd_ok me t \<and> \<not> pid_used (last_pid t) t) (loop_fuel k pid_step () n s)"
    if "fd_ok me s" for k s
    using that
  proof (induction k arbitrary: s)
    case (Suc k)
    let ?t = "s\<lparr>last_pid := next_pid (last_pid s)\<rparr>"
    have f: "frame s ?t" by simp
    have "safe (fd_contract me) s (\<lambda>_ t. fd_ok me t \<and> \<not> pid_used (last_pid t) t) (loop_fuel k pid_step () n ?t)"
      using Suc.IH [OF frame_ok [OF f Suc.prems]] by (rule strict.safe_earlier) (simp add: frame_guar)
    moreover have "pid_used p ?t = pid_used p s" for p by (simp add: pid_used_def)
    ultimately show ?case using frame_ok [OF f Suc.prems] frame_guar [OF f] by (simp add: bind_exec pid_step_exec [of "()" n s] ret_exec)
  qed simp
  have neg: "- EAGAIN <s 0" by (simp add: sless_0_iff)
  have slot: "unat (word_of_nat i :: u32) = i" if "i < NR_TASKS" for i using that by (simp add: unat_of_nat)
  show ?thesis unfolding find_empty_process_def seq_exec loop_def
    by (rule strict.safe_bindp [OF pids [OF assms]])
      (auto simp: kexec neg slot search_Some_iff split: option.split)
qed

lemma upholds_sys_fork [upkeep_intros]: "upholds me (sys_fork entry)"
proof (rule upholdsI)
  fix n s assume "fd_ok me s"
  from find_empty_process_safe [OF this] show "safe (fd_contract me) s (\<lambda>_. fd_ok me) (sys_fork entry n s)"
    unfolding sys_fork_def by (rule strict.safe_bind) (auto simp: ret_exec intro: copy_process_safe)
qed

lemma upholds_kernel_thread [upkeep_intros]: "upholds me (kernel_thread fn)"
proof (rule upholdsI)
  fix n s assume "fd_ok me s"
  have child: "spawned nr t v \<Longrightarrow> spawned nr t (upd_task nr (\<lambda>t. t\<lparr>pgdir := 0, kctx := h t\<rparr>) v)" for nr t v h
    by (simp add: spawned_def upd_task_def)
  from find_empty_process_safe [OF \<open>fd_ok me s\<close>] show "safe (fd_contract me) s (\<lambda>_. fd_ok me) (kernel_thread fn n s)"
    unfolding kernel_thread_def Let_def
  proof (rule strict.safe_bind, goal_cases)
    case (1 r t)
    show ?case
    proof (cases "r <s 0")
      case True
      then show ?thesis using 1 by (simp add: kexec)
    next
      case False
      then have t: "fd_ok me t" "\<not> task_used t (unat r)" "unat r < NR_TASKS" "\<not> pid_used (last_pid t) t" using 1 by auto
      show ?thesis unfolding if_not_P [OF False]
        by (intro quiet_bind [OF quiet_pages(1)] spawning_start spawning_update spawning_share child t)
    qed
  qed
qed

section \<open>\<open>exit\<close> and \<open>wait\<close>\<close>

text \<open>An exited task has no descriptors, so its slot can be given up.\<close>

lemma released_inv:
  assumes inv: "fd_inv s" and i: "1 \<le> i" "task_used s i" "\<not> alive i s"
  shows "fd_inv (set_task_used i False s)" "undisturbed j s (set_task_used i False s)"
proof -
  let ?t = "set_task_used i False s"
  have none: "filp (tasks s i) d = None" if "d < NR_OPEN" for d using inv i that by (simp add: fd_inv_def zombies_closed_def)
  have d: "descriptors ?t f = descriptors s f" for f using none by (auto simp: descriptors_def set_task_used_def split: if_splits)
  have alive: "alive j ?t = (alive j s \<and> j \<noteq> i)" for j by (simp add: alive_def set_task_used_def)
  show "fd_inv ?t" using inv i d alive
    by (auto simp: fd_inv_def files_counted_def zombies_closed_def pids_unique_def slots_ok_def set_task_used_def)
  show "undisturbed j s ?t" using i alive d by (auto simp: undisturbed_def owns_def set_task_used_def)
qed

lemma release_safe:
  assumes inv: "fd_inv s" "current s = me" and i: "1 \<le> i \<Longrightarrow> \<not> alive i s"
  shows "safe (fd_contract me) s (\<lambda>_ t. fd_ok me t \<and> undisturbed me s t) (release (Some i) n s)"
proof (cases "1 \<le> i \<and> i < NR_TASKS \<and> task_used s i")
  case False
  then show ?thesis by (auto simp: release_def kexec)
next
  case True
  let ?t = "set_task_used i False s"
  have t: "fd_inv ?t" and und: "\<And>j. undisturbed j s ?t" using released_inv [OF inv(1)] True i by auto
  have "safe (fd_contract me) s (\<lambda>_ t. fd_ok me t \<and> undisturbed me s t)
     (bindp (free_page (t_page (tasks s i)) n ?t) (\<lambda>_. schedule n))"
  proof (rule quiet_bindp [OF quiet_pages(2)])
    fix u assume "mm_frame ?t u"
    then have f: "frame ?t u" by (rule mm_frame_frame)
    have u: "fd_inv u" "current u = me" "\<And>j. undisturbed j s u"
      using frame_inv [OF f t] f inv(2) undisturbed_trans [OF und frame_undisturbed [OF f]] by (auto simp: frame_def set_task_used_def)
    from schedule_safe [OF u(1,2)] have "safe (fd_contract me) s (\<lambda>_ t. fd_ok me t \<and> undisturbed me u t) (schedule n u)"
      by (rule strict.safe_earlier) (simp add: u fd_guar_def)
    then show "safe (fd_contract me) s (\<lambda>_ t. fd_ok me t \<and> undisturbed me s t) (schedule n u)"
      by (rule safe_mono) (use u(3) undisturbed_trans in blast)
  qed
  then show ?thesis using True by (simp add: release_def kexec)
qed

lemma reap_safe:
  assumes ok: "fd_ok me s" and i: "1 \<le> i \<Longrightarrow> \<not> alive i s"
  shows "safe (fd_contract me) s (\<lambda>_. fd_ok me) (reap stat_addr i n s)"
proof -
  let ?h = "\<lambda>p. p\<lparr>cutime := cutime p + utime (tasks s i), cstime := cstime p + stime (tasks s i)\<rparr>"
  have f: "frame s (upd_cur ?h s)" by (rule frame_upd_cur) (simp_all add: kept_def)
  have u: "fd_inv (upd_cur ?h s)" "current (upd_cur ?h s) = me" using frame_ok [OF f ok] by (simp_all add: fd_ok_def)
  have l: "1 \<le> i \<Longrightarrow> \<not> alive i (upd_cur ?h s)" using i by (auto simp: alive_def upd_cur_def upd_task_def)
  from release_safe [OF u l] have "safe (fd_contract me) (upd_cur ?h s) (\<lambda>_. fd_ok me) (release (Some i) n (upd_cur ?h s))"
    by (rule safe_mono) auto
  then have "safe (fd_contract me) (upd_cur ?h s) (\<lambda>_. fd_ok me)
     (seq (release (Some i)) (seq (put_fs_long (t_exit_code (tasks s i)) stat_addr) (ret (pid (tasks s i)))) n (upd_cur ?h s))"
    by (rule strict.safe_seq) (intro upholdsD weak.keeps_control steady_upholds upkeep_intros)
  from strict.safe_earlier [OF this, of s] show ?thesis
    by (simp add: reap_def frame_guar [OF f] bind_exec [of "gets _"] gets_exec seq_exec [of "modify _"] modify_exec)
qed

lemma upholds_wait_scan: "upholds me (wait_scan pid' stat_addr options is flag)"
proof (induction "is" arbitrary: flag)
  case Nil
  show ?case by (simp add: weak.keeps_ret)
next
  case (Cons i "is")
  have reap: "safe (fd_contract me) s (\<lambda>_. fd_ok me) (bind (reap stat_addr i) (\<lambda>p. ret (Inr p :: bool + u32)) n s)"
    if "fd_ok me s" "t_state (tasks s i) = TASK_ZOMBIE" for n s
    using reap_safe [OF that(1), of i stat_addr n] that by (intro strict.safe_bind [of _ _ "\<lambda>_. fd_ok me"]) (auto simp: alive_def ret_exec)
  have stopped: "upholds me (seq (put_fs_long 0x7f stat_addr) (bind (gets (\<lambda>s. pid (tasks s i))) (\<lambda>p. ret (Inr p :: bool + u32))))"
    by (intro weak.keeps_control steady_upholds upkeep_intros)
  show ?case
    using upholdsD [OF Cons.IH] upholdsD [OF stopped] reap
    by (intro upholdsI) (simp add: bind_exec [of "gets _"] gets_exec)
qed

lemma upholds_sys_waitpid [upkeep_intros]: "upholds me (sys_waitpid a b c)"
  unfolding sys_waitpid_def wait_step_def
  by (intro upholds_control upholds_wait_scan steady_upholds [OF steady_schedule]
      steady_upholds [OF steady_memory_11(1)]; simp add: frame_defs)

section \<open>\<open>exit\<close>\<close>

text \<open>A task that has closed its descriptors opens none while it exits.\<close>

definition closed :: "nat \<Rightarrow> kstate \<Rightarrow> bool" where
  "closed me s \<longleftrightarrow> fd_ok me s \<and> (\<forall>d<NR_OPEN. filp (cur s) d = None)"

interpretation closing: upkeep "fd_contract me" "closed me" "\<lambda>_ _. True" for me
  by unfold_locales (auto intro: fd_guar_trans)

lemma steady_closing:
  assumes "steady me f"
  shows "keeps (fd_contract me) (closed me) (\<lambda>_ _. True) f"
proof (rule keepsI)
  fix n s assume c: "closed me s"
  then have ok: "fd_ok me s" by (simp add: closed_def)
  show "safe (fd_contract me) s (\<lambda>_ t. closed me t \<and> True) (f n s)"
    by (rule safe_mono [OF steadyD [OF assms ok]]) (use c fd_rely_filp [OF ok] in \<open>auto simp: closed_def\<close>)
qed

lemma close_all_safe:
  "fd_ok me s \<Longrightarrow> set is \<subseteq> {..<NR_OPEN} \<Longrightarrow>
   safe (fd_contract me) s (\<lambda>_ t. fd_ok me t \<and> (\<forall>d\<in>set is. filp (cur t) d = None) \<and>
     (\<forall>d. filp (cur s) d = None \<longrightarrow> filp (cur t) d = None)) (for_each is close_all n s)"
proof (induction "is" arbitrary: s)
  case Nil
  then show ?case by (simp add: kexec)
next
  case (Cons i "is")
  let ?one = "\<lambda>t. fd_ok me t \<and> filp (cur t) i = None \<and> (\<forall>d. filp (cur s) d = None \<longrightarrow> filp (cur t) d = None)"
  have i: "unat (word_of_nat i :: u32) = i" using Cons.prems(2) by (simp add: unat_of_nat)
  have "safe (fd_contract me) s (\<lambda>_. ?one) (sys_close (word_of_nat i) n s)"
    using sys_close_safe [OF Cons.prems(1), of "word_of_nat i" n] Cons.prems(2) i by (auto elim!: safe_mono)
  then have "safe (fd_contract me) s (\<lambda>_. ?one) (bindp (sys_close (word_of_nat i) n s) (\<lambda>_ t. Done () t))"
    by (rule strict.safe_bindp) simp
  then have "safe (fd_contract me) s (\<lambda>_. ?one) (close_all i n s)"
    using Cons.prems(1) by (simp add: close_all_def kexec)
  then show ?case unfolding for_each.simps
  proof (rule strict.safe_seq, goal_cases)
    case (1 a t)
    show ?case by (rule safe_mono [OF Cons.IH [of t]]) (use 1 Cons.prems(2) in auto)
  qed
qed

text \<open>From the moment the task is a zombie until it is switched away from.\<close>

lemma zombie_inv:
  fixes code :: u32
  assumes "closed me s"
  defines "t \<equiv> upd_cur (\<lambda>p. p\<lparr>t_state := TASK_ZOMBIE, t_exit_code := code\<rparr>) s"
  shows "fd_inv t" "current t = me" "1 \<le> me \<Longrightarrow> \<not> alive me t" "fd_guar me s t"
proof -
  note ok = fd_okD [of me s]
  have s: "fd_ok me s" "\<And>d. d < NR_OPEN \<Longrightarrow> filp (tasks s me) d = None" using assms(1) ok by (auto simp: closed_def)
  have t: "task_used t = task_used s" "\<And>j. filp (tasks t j) = filp (tasks s j)" "\<And>j. pid (tasks t j) = pid (tasks s j)"
    "\<And>j. t_state (tasks t j) = (if j = me then TASK_ZOMBIE else t_state (tasks s j))" "file_table t = file_table s"
    using ok [OF s(1)] by (auto simp: t_def upd_cur_def upd_task_def)
  have d: "descriptors t f = descriptors s f" for f using t by (simp add: descriptors_def)
  have alive: "alive j t = (if j = me then alive me s \<and> me = 0 else alive j s)" for j using t by (auto simp: alive_def)
  have "zombies_closed t" using s ok(5) t alive by (auto simp: fd_inv_def zombies_closed_def split: if_splits)
  then show "fd_inv t" using ok(5) [OF s(1)] t d by (simp add: fd_inv_def files_counted_def pids_unique_def slots_ok_def)
  show "current t = me" using ok [OF s(1)] by (simp add: t_def upd_cur_def upd_task_def)
  show "\<not> alive me t" if "1 \<le> me" using alive [of me] that by simp
  show "fd_guar me s t" using t alive d by (simp add: fd_guar_def undisturbed_def owns_def)
qed

lemma tell_father_safe:
  assumes "fd_inv s" "current s = me" "1 \<le> me \<Longrightarrow> \<not> alive me s"
  shows "safe (fd_contract me) s (\<lambda>_ t. fd_inv t \<and> current t = me) (tell_father f n s)"
proof -
  have f: "frame s (raise_signal sig i s)" for sig i by (simp add: frame_defs)
  have sig: "fd_inv (raise_signal sig i s) \<and> current (raise_signal sig i s) = me \<and> fd_guar me s (raise_signal sig i s)" for sig i
    using frame_inv [OF f assms(1)] frame_guar [OF f] f [of sig i] assms(2) by (simp add: frame_def)
  have "safe (fd_contract me) s (\<lambda>_ t. fd_inv t \<and> current t = me) (release (Some me) n s)"
    by (rule safe_mono [OF release_safe [OF assms(1,2)]]) (use assms(3) in \<open>auto simp: fd_ok_def\<close>)
  then show ?thesis using assms(2) sig by (auto simp: tell_father_def kexec split: option.split)
qed

text \<open>\<open>runs me P g\<close>: started in a state with \<open>P\<close>, the code respects the contract and ends in \<open>fd_ok\<close>.\<close>

definition runs :: "nat \<Rightarrow> (kstate \<Rightarrow> bool) \<Rightarrow> 'a kernel \<Rightarrow> bool" where
  "runs me P g \<longleftrightarrow> (\<forall>n s. P s \<longrightarrow> safe (fd_contract me) s (\<lambda>_. fd_ok me) (g n s))"

lemma runs_bind:
  assumes "\<And>n s. P s \<Longrightarrow> safe (fd_contract me) s (\<lambda>_. P') (f n s)" "\<And>a. runs me P' (g a)"
  shows "runs me P (bind f g)"
  unfolding runs_def
proof (intro allI impI)
  fix n s assume "P s"
  from assms(1) [OF this] show "safe (fd_contract me) s (\<lambda>_. fd_ok me) (bind f g n s)"
    by (rule strict.safe_bind) (use assms(2) in \<open>simp add: runs_def\<close>)
qed

lemma runs_closing: "steady me f \<Longrightarrow> (\<And>a. runs me (closed me) (g a)) \<Longrightarrow> runs me (closed me) (bind f g)"
  by (rule runs_bind [where P' = "closed me"]) (use keepsD [OF steady_closing] in auto)

lemma runs_upholds: "upholds me f \<Longrightarrow> (\<And>a. runs me (fd_ok me) (g a)) \<Longrightarrow> runs me (fd_ok me) (bind f g)"
  by (rule runs_bind [where P' = "fd_ok me"]) (auto intro: upholdsD)

lemma runs_close_all: "runs me (closed me) g \<Longrightarrow> runs me (fd_ok me) (bind (for_each [0..<NR_OPEN] close_all) (\<lambda>_. g))"
  by (rule runs_bind [where P' = "closed me"], rule safe_mono [OF close_all_safe]) (auto simp: closed_def)

lemma runs_zombie:
  "runs me (closed me) (seq (modify (upd_cur (\<lambda>t. t\<lparr>t_state := TASK_ZOMBIE, t_exit_code := code\<rparr>)))
     (bind (gets (\<lambda>s. father (cur s))) (\<lambda>f. seq (tell_father f) (seq schedule (ret r)))))"
  unfolding runs_def
proof (intro allI impI)
  fix n t assume c: "closed me t"
  let ?z = "upd_cur (\<lambda>p. p\<lparr>t_state := TASK_ZOMBIE, t_exit_code := code\<rparr>) t"
  note z = zombie_inv [OF c, of code]
  have "safe (fd_contract me) ?z (\<lambda>_. fd_ok me) (seq (tell_father f) (seq schedule (ret r)) n ?z)" for f
  proof (rule strict.safe_seq, rule tell_father_safe [OF z(1-3)])
    fix u assume "fd_inv u \<and> current u = me"
    then have "safe (fd_contract me) u (\<lambda>_ v. fd_ok me v \<and> undisturbed me u v) (schedule n u)" by (auto intro: schedule_safe)
    then show "safe (fd_contract me) u (\<lambda>_. fd_ok me) (seq schedule (ret r) n u)"
      by (rule strict.safe_seq) (simp add: kexec)
  qed
  from strict.safe_earlier [OF this, of t] z(4)
  show "safe (fd_contract me) t (\<lambda>_. fd_ok me)
     (seq (modify (upd_cur (\<lambda>t. t\<lparr>t_state := TASK_ZOMBIE, t_exit_code := code\<rparr>)))
       (bind (gets (\<lambda>s. father (cur s))) (\<lambda>f. seq (tell_father f) (seq schedule (ret r)))) n t)"
    by (simp add: bind_exec [of "gets _"] gets_exec seq_exec [of "modify _"] modify_exec)
qed

lemma upholds_do_exit [upkeep_intros]: "upholds me (do_exit code)"
proof -
  have "runs me (fd_ok me) (do_exit code)"
    unfolding do_exit_def seq_def
    by (intro runs_upholds runs_close_all runs_closing runs_zombie [unfolded seq_def] steady_upholds upkeep_intros;
        simp add: frame_defs)
  then show ?thesis by (simp add: runs_def keeps_def)
qed

lemma upholds_sys_exit [upkeep_intros]: "upholds me (sys_exit code)"
  unfolding sys_exit_def by (rule upholds_do_exit)

section \<open>Program loading and traps\<close>

lemma upholds_close_exec [upkeep_intros]: "upholds me (close_exec i)"
  unfolding close_exec_def by (intro upholds_control upholds_sys_close)

lemma upholds_exec_commit [upkeep_intros]: "upholds me (exec_commit a b i x a' a'' i' i'')"
  unfolding exec_commit_def
  by (intro upholds_control upkeep_intros; (rule steady_upholds, intro upkeep_intros | simp add: frame_defs)?)

lemma upholds_exec_image [upkeep_intros]: "upholds me (exec_image a b i x a' a'' i' i'')"
  unfolding exec_image_def
  by (intro upholds_control upkeep_intros; (rule steady_upholds, intro upkeep_intros | simp add: frame_defs)?)

lemma upholds_sys_execve [upkeep_intros]: "upholds me (sys_execve a b c d)"
  unfolding sys_execve_def do_execve_def
  by (intro upholds_control upkeep_intros; (rule steady_upholds, intro upkeep_intros | simp add: frame_defs)?)

lemma upholds_table: "list_all (\<lambda>f. \<forall>a b c. upholds me (f a b c)) (sys_call_table M)"
  unfolding sys_call_table_def list.pred_inject
  by (intro conjI allI upkeep_intros; (rule steady_upholds, intro upkeep_intros)?; simp)

lemma upholds_do_syscall [upkeep_intros]: "upholds me (do_syscall M tf)"
proof -
  have len: "length (sys_call_table M) = NR_SYSCALLS" by (simp add: sys_call_table_def)
  have "upholds me ((sys_call_table M ! i) a b c)" if "i < NR_SYSCALLS" for i a b c
    using upholds_table [of me M] that len by (simp add: list_all_length)
  then show ?thesis unfolding do_syscall_def
    by (intro upholds_control upkeep_intros; simp add: frame_defs)
qed

text \<open>
  A trap as a whole. The timer functions are not part of the sources: they are to leave the
  descriptors alone, as the code of the kernel does.
\<close>

lemma upholds_trap_handler:
  assumes "\<And>fn. steady me (m_call M fn)"
  shows "upholds me (trap_handler M mtval tf)"
  unfolding trap_handler_def
  by (intro upholds_control upkeep_intros; (rule steady_upholds, intro upkeep_intros assms | simp add: frame_defs)?)

lemma safe_with_exit:
  assumes "safe (fd_contract me) s0 Q p" "\<And>c s. fd_ok me s \<Longrightarrow> safe (fd_contract me) s Q (h c s)"
  shows "safe (fd_contract me) s0 Q (with_exit p h)"
  using assms(1)
proof (induction p arbitrary: s0)
  case (Exit c s)
  then show ?case using strict.safe_earlier [OF assms(2) [of s c], of s0] by simp
qed auto

lemma trap_safe:
  assumes "\<And>fn. steady me (m_call M fn)" "fd_ok me s"
  shows "safe (fd_contract me) s (\<lambda>_. fd_ok me) (trap M mtval tf n s)"
  unfolding trap_def
proof (rule safe_with_exit [OF upholdsD [OF upholds_trap_handler [OF assms(1)] assms(2)]])
  fix c t assume "fd_ok me t"
  then show "safe (fd_contract me) t (\<lambda>_. fd_ok me) (bind (do_exit c) (\<lambda>_. skip) n t)"
    by (intro upholdsD weak.keeps_bind upholds_do_exit weak.keeps_skip)
qed

end
