(* ===== verification/Linked.thy ===== *)
theory Linked
  imports Prelude
begin

text \<open>
  Doubly linked structures over tables: rings, as the free list of the buffer cache, and
  null-terminated lists, as its hash queues. \<open>nx\<close> and \<open>pv\<close> are the two pointer fields as
  functions of the index.
\<close>

section \<open>Rings\<close>

text \<open>\<open>links nx pv xs\<close>: neighbours in \<open>xs\<close> point to each other.\<close>

fun links :: "(nat \<Rightarrow> nat option) \<Rightarrow> (nat \<Rightarrow> nat option) \<Rightarrow> nat list \<Rightarrow> bool" where
  "links nx pv (a # b # xs) \<longleftrightarrow> nx a = Some b \<and> pv b = Some a \<and> links nx pv (b # xs)"
| "links nx pv _ \<longleftrightarrow> True"

definition ring :: "(nat \<Rightarrow> nat option) \<Rightarrow> (nat \<Rightarrow> nat option) \<Rightarrow> nat list \<Rightarrow> bool" where
  "ring nx pv xs \<longleftrightarrow> xs \<noteq> [] \<and> distinct xs \<and> links nx pv (xs @ [hd xs])"

lemma links_append:
  "links nx pv (xs @ a # ys) \<longleftrightarrow> links nx pv (xs @ [a]) \<and> links nx pv (a # ys)"
proof (induction xs)
  case (Cons x xs)
  then show ?case by (cases xs) auto
qed simp

lemma links_cong:
  "(\<And>i. i \<in> set (butlast xs) \<Longrightarrow> nx i = nx' i) \<Longrightarrow> (\<And>i. i \<in> set (tl xs) \<Longrightarrow> pv i = pv' i) \<Longrightarrow>
   links nx pv xs = links nx' pv' xs"
proof (induction nx pv xs rule: links.induct)
  case (1 nx pv a b xs)
  have "links nx pv (b # xs) = links nx' pv' (b # xs)"
    by (rule "1.IH") (use "1.prems" in \<open>auto split: if_splits\<close>)
  then show ?case using "1.prems" by simp
qed simp_all

lemma ring_cong:
  "(\<And>i. i \<in> set xs \<Longrightarrow> nx i = nx' i) \<Longrightarrow> (\<And>i. i \<in> set xs \<Longrightarrow> pv i = pv' i) \<Longrightarrow> ring nx pv xs = ring nx' pv' xs"
proof -
  assume nx: "\<And>i. i \<in> set xs \<Longrightarrow> nx i = nx' i" and pv: "\<And>i. i \<in> set xs \<Longrightarrow> pv i = pv' i"
  have "i \<in> set xs" if "i \<in> set (tl (xs @ [hd xs]))" for i
    using that by (cases xs) auto
  then have "links nx pv (xs @ [hd xs]) = links nx' pv' (xs @ [hd xs])"
    by (intro links_cong) (auto simp: nx pv)
  then show ?thesis by (simp add: ring_def)
qed

lemma ring_rotate: "ring nx pv (x # xs) \<Longrightarrow> ring nx pv (xs @ [x])"
proof (cases xs)
  case (Cons y ys)
  assume r: "ring nx pv (x # xs)"
  then have "links nx pv ((y # ys) @ [x])" "nx x = Some y" "pv y = Some x"
    by (simp_all add: ring_def Cons)
  then have "links nx pv (ys @ x # [y])" if "ys = []" using that by simp
  have "links nx pv ((y # ys) @ x # [y])"
    using \<open>links nx pv ((y # ys) @ [x])\<close> \<open>nx x = Some y\<close> \<open>pv y = Some x\<close>
    by (subst links_append) simp
  with r show ?thesis by (simp add: ring_def Cons)
qed simp

lemma ring_swap: "ring nx pv (xs @ ys) \<Longrightarrow> ring nx pv (ys @ xs)"
proof (induction xs arbitrary: ys)
  case (Cons x xs)
  then have "ring nx pv (xs @ (ys @ [x]))" using ring_rotate [of nx pv x "xs @ ys"] by simp
  from Cons.IH [OF this] show ?case by simp
qed simp

lemma links_last:
  "links nx pv (xs @ [a, b]) \<longleftrightarrow> links nx pv (xs @ [a]) \<and> nx a = Some b \<and> pv b = Some a"
  using links_append [of nx pv xs a "[b]"] by simp

lemma ring_neighbours:
  assumes "ring nx pv (i # xs)" "xs \<noteq> []"
  shows "nx i = Some (hd xs)" "pv i = Some (last xs)"
proof -
  obtain ys y where xs: "xs = ys @ [y]" using assms(2) by (cases xs rule: rev_cases) auto
  have l: "links nx pv (i # xs @ [i])" using assms(1) by (simp add: ring_def)
  show "nx i = Some (hd xs)" using l assms(2) by (cases xs) auto
  have "links nx pv ((i # ys) @ [y, i])" using l xs by simp
  then show "pv i = Some (last xs)" unfolding links_last using xs by simp
qed

text \<open>Taking the element \<open>i\<close> out, and putting it back at the end.\<close>

lemma ring_remove:
  assumes r: "ring nx pv (i # xs)" and ne: "xs \<noteq> []"
  shows "ring (nx(last xs := Some (hd xs))) (pv(hd xs := Some (last xs))) xs"
proof -
  obtain ys y where xs: "xs = ys @ [y]" using ne by (cases xs rule: rev_cases) auto
  have d: "distinct (i # xs)" and l: "links nx pv (i # xs @ [i])" using r by (simp_all add: ring_def)
  have "links nx pv (i # xs)" using l links_append [of nx pv "i # ys" y "[i]"] xs by simp
  then have "links nx pv xs" by (cases xs) auto
  moreover have "links nx pv xs = links (nx(last xs := Some (hd xs))) (pv(hd xs := Some (last xs))) xs"
  proof (rule links_cong)
    fix j assume "j \<in> set (butlast xs)"
    then show "nx j = (nx(last xs := Some (hd xs))) j" using d xs by auto
  next
    fix j assume "j \<in> set (tl xs)"
    then show "pv j = (pv(hd xs := Some (last xs))) j" using d by (cases xs) auto
  qed
  ultimately have "links (nx(last xs := Some (hd xs))) (pv(hd xs := Some (last xs))) (ys @ [y, hd xs])"
    unfolding links_last using xs by simp
  with d ne xs show ?thesis by (simp add: ring_def)
qed

lemma ring_insert:
  assumes r: "ring nx pv xs" and new: "i \<notin> set xs"
  shows "ring (nx(i := Some (hd xs), last xs := Some i)) (pv(i := Some (last xs), hd xs := Some i)) (xs @ [i])"
    (is "ring ?nx ?pv _")
proof -
  have ne: "xs \<noteq> []" and d: "distinct xs" using r by (simp_all add: ring_def)
  obtain ys y where xs: "xs = ys @ [y]" using ne by (cases xs rule: rev_cases) auto
  have "links nx pv xs" using r links_last [of nx pv ys y "hd xs"] xs by (simp add: ring_def)
  moreover have "links nx pv xs = links ?nx ?pv xs"
  proof (rule links_cong)
    fix j assume "j \<in> set (butlast xs)"
    then show "nx j = ?nx j" using d new xs by auto
  next
    fix j assume "j \<in> set (tl xs)"
    then show "pv j = ?pv j" using d new by (cases xs) auto
  qed
  moreover have "hd xs \<noteq> i" "last xs \<noteq> i" using new ne by auto
  ultimately have "links ?nx ?pv (ys @ [y, i])" unfolding links_last using xs by simp
  then have "links ?nx ?pv ((xs @ [i]) @ [hd xs])"
    using \<open>hd xs \<noteq> i\<close> \<open>last xs \<noteq> i\<close> links_last [of ?nx ?pv "ys @ [y]" i "hd xs"] xs by simp
  with d new ne show ?thesis by (simp add: ring_def)
qed

section \<open>Null-terminated lists\<close>

primrec dll :: "(nat \<Rightarrow> nat option) \<Rightarrow> (nat \<Rightarrow> nat option) \<Rightarrow> nat option \<Rightarrow> nat option \<Rightarrow> nat list \<Rightarrow> bool" where
  "dll nx pv q p [] \<longleftrightarrow> p = None"
| "dll nx pv q p (i # is) \<longleftrightarrow> p = Some i \<and> pv i = q \<and> dll nx pv (Some i) (nx i) is"

lemma dll_cong:
  "(\<And>i. i \<in> set is \<Longrightarrow> nx i = nx' i) \<Longrightarrow> (\<And>i. i \<in> set is \<Longrightarrow> pv i = pv' i) \<Longrightarrow>
   dll nx pv q p is = dll nx' pv' q p is"
  by (induction "is" arbitrary: q p) auto

lemma dll_chain: "dll nx pv q p is \<Longrightarrow> chain nx p is"
  by (induction "is" arbitrary: q p) auto

lemma dll_fields:
  "dll nx pv q p (xs @ i # ys) \<Longrightarrow>
   pv i = (if xs = [] then q else Some (last xs)) \<and> nx i = (if ys = [] then None else Some (hd ys))"
proof (induction xs arbitrary: q p)
  case Nil
  then show ?case by (cases ys) auto
next
  case (Cons x xs)
  have "dll nx pv (Some x) (nx x) (xs @ i # ys)" using Cons.prems by simp
  from Cons.IH [OF this] show ?case by (cases xs) simp_all
qed

definition unlink_next :: "(nat \<Rightarrow> nat option) \<Rightarrow> (nat \<Rightarrow> nat option) \<Rightarrow> nat \<Rightarrow> nat \<Rightarrow> nat option" where
  "unlink_next nx pv i = (case pv i of None \<Rightarrow> nx | Some a \<Rightarrow> nx(a := nx i))"

lemma dll_remove:
  assumes "dll nx pv q p (xs @ i # ys)" "distinct (xs @ i # ys)" "\<And>a. q = Some a \<Longrightarrow> a \<notin> set (xs @ i # ys)"
  shows "dll (unlink_next nx pv i) (unlink_next pv nx i) q (if p = Some i then nx i else p) (xs @ ys)"
  using assms
proof (induction xs arbitrary: q p)
  case Nil
  then have p: "p = Some i" "pv i = q" "dll nx pv (Some i) (nx i) ys" by simp_all
  show ?case
  proof (cases ys)
    case Nil
    with p show ?thesis by simp
  next
    case (Cons y zs)
    with p(3) have y: "nx i = Some y" "dll nx pv (Some y) (nx y) zs" by simp_all
    have "dll (unlink_next nx pv i) (unlink_next pv nx i) (Some y) (nx y) zs = dll nx pv (Some y) (nx y) zs"
      by (rule dll_cong) (use Nil.prems Cons y p in \<open>auto simp: unlink_next_def split: option.splits\<close>)
    moreover have "unlink_next nx pv i y = nx y" "unlink_next pv nx i y = q"
      using Nil.prems Cons y p by (auto simp: unlink_next_def split: option.splits)
    ultimately show ?thesis using p y Cons by simp
  qed
next
  case (Cons x xs)
  then have p: "p = Some x" "pv x = q" "dll nx pv (Some x) (nx x) (xs @ i # ys)" "x \<noteq> i" by auto
  have IH: "dll (unlink_next nx pv i) (unlink_next pv nx i) (Some x) (if nx x = Some i then nx i else nx x) (xs @ ys)"
    by (rule Cons.IH [OF p(3)]) (use Cons.prems in auto)
  note f = dll_fields [OF p(3)]
  have "nx x = Some i \<longleftrightarrow> xs = []" using p(3) Cons.prems(2) by (cases xs) auto
  moreover have "pv i = Some x \<longleftrightarrow> xs = []" using f Cons.prems(2) by (auto split: if_splits)
  ultimately have nx: "unlink_next nx pv i x = (if nx x = Some i then nx i else nx x)"
    using f by (auto simp: unlink_next_def split: option.splits)
  have "nx i \<noteq> Some x" using f Cons.prems(2) by (cases ys) auto
  then have "unlink_next pv nx i x = q" using p(2) by (auto simp: unlink_next_def split: option.splits)
  with IH p nx show ?case by simp
qed

lemma dll_insert:
  assumes "dll nx pv None p is" "i \<notin> set is" "distinct is"
  shows "dll (nx(i := p)) (case p of None \<Rightarrow> pv(i := None) | Some a \<Rightarrow> pv(i := None, a := Some i)) None (Some i) (i # is)"
proof (cases "is")
  case Nil
  with assms show ?thesis by simp
next
  case (Cons a as)
  with assms have p: "p = Some a" "dll nx pv (Some a) (nx a) as" "a \<noteq> i" "i \<notin> set as" by auto
  have "dll (nx(i := p)) (pv(i := None, a := Some i)) (Some a) (nx a) as = dll nx pv (Some a) (nx a) as"
    by (rule dll_cong) (use p assms(3) Cons in auto)
  with p Cons show ?thesis by simp
qed

end
