(* ===== verification/Cache.thy ===== *)
theory Cache
  imports Sync Linked
begin

text \<open>
  Correctness of the buffer cache: the free list is a ring of all buffers in the order of their
  use, the hash queues are lists that hold every buffer with a device under its hash value, and
  no block is cached twice. On such a cache the search finds exactly the cached blocks, and
  \<open>getblk\<close> recycles the least recently used clean buffer.
\<close>

section \<open>The invariant\<close>

definition nh :: "kstate \<Rightarrow> nat \<Rightarrow> nat option" where "nh s i = b_next (buffers s i)"
definition ph :: "kstate \<Rightarrow> nat \<Rightarrow> nat option" where "ph s i = b_prev (buffers s i)"
definition nf :: "kstate \<Rightarrow> nat \<Rightarrow> nat option" where "nf s i = b_next_free (buffers s i)"
definition pf :: "kstate \<Rightarrow> nat \<Rightarrow> nat option" where "pf s i = b_prev_free (buffers s i)"

lemmas field_defs = nh_def [abs_def] ph_def [abs_def] nf_def [abs_def] pf_def [abs_def]

text \<open>
  \<open>queues s A L F\<close>: the buffers in \<open>A\<close> are on the free list in the order \<open>F\<close>, and hash queue
  \<open>h\<close> is the list \<open>L h\<close> of those that have a device and this hash value.
\<close>

definition queues :: "kstate \<Rightarrow> nat set \<Rightarrow> (nat \<Rightarrow> nat list) \<Rightarrow> nat list \<Rightarrow> bool" where
  "queues s A L F \<longleftrightarrow>
     ring (nf s) (pf s) F \<and> set F = A \<and> free_list s = hd F \<and>
     (\<forall>h<NR_HASH. dll (nh s) (ph s) None (hash_table s h) (L h) \<and> distinct (L h) \<and>
        set (L h) = {i \<in> A. b_dev (buffers s i) \<noteq> 0 \<and> hash_of (buffers s i) = h}) \<and>
     (\<forall>i\<in>A. b_dev (buffers s i) = 0 \<longrightarrow> nh s i = None \<and> ph s i = None)"

text \<open>A buffer holds block \<open>block\<close> of device \<open>dev\<close>.\<close>

definition caches :: "buffer_head \<Rightarrow> u32 \<Rightarrow> u32 \<Rightarrow> bool" where
  "caches b dev block \<longleftrightarrow> b_dev b \<noteq> 0 \<and> ucast (b_dev b) = dev \<and> b_blocknr b = block"

definition cache_ok :: "kstate \<Rightarrow> (nat \<Rightarrow> nat list) \<Rightarrow> nat list \<Rightarrow> bool" where
  "cache_ok s L F \<longleftrightarrow> queues s {..<nr_buffers s} L F \<and>
     (\<forall>i<nr_buffers s. \<forall>j<nr_buffers s. \<forall>dev block.
        caches (buffers s i) dev block \<and> caches (buffers s j) dev block \<longrightarrow> i = j)"

lemma cache_unique:
  "cache_ok s L F \<Longrightarrow> i < nr_buffers s \<Longrightarrow> j < nr_buffers s \<Longrightarrow>
   caches (buffers s i) dev block \<Longrightarrow> caches (buffers s j) dev block \<Longrightarrow> i = j"
  unfolding cache_ok_def by blast

text \<open>A buffer head without its queue pointers; two states that differ in queue pointers only.\<close>

definition strip :: "buffer_head \<Rightarrow> buffer_head" where
  "strip b = b\<lparr>b_prev := None, b_next := None, b_prev_free := None, b_next_free := None\<rparr>"

definition requeued :: "kstate \<Rightarrow> kstate \<Rightarrow> bool" where
  "requeued s t \<longleftrightarrow> (\<forall>i. strip (buffers t i) = strip (buffers s i)) \<and>
     t\<lparr>buffers := buffers s, hash_table := hash_table s, free_list := free_list s\<rparr> = s"

lemma strip_fields:
  "strip b = strip c \<Longrightarrow> b_dev b = b_dev c \<and> b_blocknr b = b_blocknr c \<and> hash_of b = hash_of c \<and>
     b_count b = b_count c \<and> b_dirt b = b_dirt c \<and> b_lock b = b_lock c \<and> b_uptodate b = b_uptodate c \<and>
     b_data b = b_data c \<and> b_wait b = b_wait c"
  by (cases b; cases c) (simp add: strip_def hash_of_def)

lemma strip_dev: "strip b = strip c \<Longrightarrow> strip (b\<lparr>b_dev := d, b_blocknr := k\<rparr>) = strip (c\<lparr>b_dev := d, b_blocknr := k\<rparr>)"
  by (cases b; cases c) (simp add: strip_def)

lemma requeued_refl: "requeued s s"
  by (simp add: requeued_def)

lemma requeued_trans:
  assumes "requeued s t" "requeued t u"
  shows "requeued s u"
proof -
  let ?set = "\<lambda>w s. w\<lparr>buffers := buffers s, hash_table := hash_table s, free_list := free_list s\<rparr>"
  have "?set u s = ?set (?set u t) s" by simp
  with assms show ?thesis by (simp add: requeued_def)
qed

lemma requeued_upd:
  "(\<And>b. strip (f b) = strip b) \<Longrightarrow> requeued s t \<Longrightarrow> requeued s (upd_buffer i f t)"
  by (simp add: requeued_def upd_buffer_def)

lemma requeued_set [simp]:
  "requeued s (set_hash h p t) = requeued s t" "requeued s (t\<lparr>free_list := f\<rparr>) = requeued s t"
  by (simp_all add: requeued_def set_hash_def)

lemma strip_upd [simp]:
  "strip (b\<lparr>b_next := x\<rparr>) = strip b" "strip (b\<lparr>b_prev := x\<rparr>) = strip b"
  "strip (b\<lparr>b_next_free := x\<rparr>) = strip b" "strip (b\<lparr>b_prev_free := x\<rparr>) = strip b"
  by (simp_all add: strip_def)

section \<open>Searching\<close>

lemma find_loop:
  assumes "chain (nh s) p is" "length is < k"
  shows "loop_fuel k (find_step dev block) p n s =
     Done (List.find (\<lambda>i. ucast (b_dev (buffers s i)) = dev \<and> b_blocknr (buffers s i) = block) is) s"
  using assms
proof (induction "is" arbitrary: p k)
  case Nil
  then show ?case by (cases k) (simp_all add: find_step_def kexec)
next
  case (Cons i "is")
  obtain k' where k: "k = Suc k'" "length is < k'" using Cons.prems(2) by (cases k) auto
  have p: "p = Some i" "chain (nh s) (b_next (buffers s i)) is" using Cons.prems(1) by (simp_all add: nh_def [of s i])
  show ?case using Cons.IH [OF p(2) k(2)] by (simp add: k(1) p(1) find_step_def kexec)
qed

lemma hashfn_less: "hashfn dev block < NR_HASH"
  by (simp add: hashfn_def)

lemma caches_hash: "caches b dev block \<Longrightarrow> hash_of b = hashfn dev block"
  by (simp add: caches_def hash_of_def)

lemma queue_length: "queues s {..<m} L F \<Longrightarrow> h < NR_HASH \<Longrightarrow> length (L h) \<le> m"
proof -
  assume q: "queues s {..<m} L F" "h < NR_HASH"
  then have "distinct (L h)" "set (L h) \<subseteq> {..<m}" by (auto simp: queues_def)
  then show ?thesis by (metis card_lessThan card_mono distinct_card finite_lessThan)
qed

lemma find_buffer_exec:
  assumes q: "queues s {..<m} L F" and fuel: "m < n"
  shows "\<exists>r. find_buffer dev block n s = Done r s \<and>
     (case r of None \<Rightarrow> \<forall>i<m. \<not> caches (buffers s i) dev block
      | Some i \<Rightarrow> i < m \<and> caches (buffers s i) dev block)"
proof -
  let ?h = "hashfn dev block" and ?P = "\<lambda>i. ucast (b_dev (buffers s i)) = dev \<and> b_blocknr (buffers s i) = block"
  have d: "dll (nh s) (ph s) None (hash_table s ?h) (L ?h)"
    and set: "set (L ?h) = {i \<in> {..<m}. b_dev (buffers s i) \<noteq> 0 \<and> hash_of (buffers s i) = ?h}"
    using q hashfn_less by (auto simp: queues_def)
  have "length (L ?h) < n" using queue_length [OF q hashfn_less] fuel by (rule le_less_trans)
  then have run: "find_buffer dev block n s = Done (List.find ?P (L ?h)) s"
    using find_loop [OF dll_chain [OF d]] by (simp add: find_buffer_def loop_def kexec)
  have c: "i \<in> set (L ?h) \<and> ?P i \<longleftrightarrow> i < m \<and> caches (buffers s i) dev block" for i
    using set caches_hash [of "buffers s i" dev block] by (auto simp: caches_def)
  show ?thesis
  proof (cases "List.find ?P (L ?h)")
    case None
    then have "\<forall>i<m. \<not> caches (buffers s i) dev block" using c by (auto simp: find_None_iff)
    with None run show ?thesis by simp
  next
    case (Some i)
    then have "i \<in> set (L ?h) \<and> ?P i" by (auto simp: find_Some_iff)
    with c Some run show ?thesis by simp
  qed
qed

text \<open>
  On a well-formed cache, and with more fuel than there are buffers, the search for a block
  ends and changes nothing: it returns the one buffer that holds the block if there is one,
  and a null pointer exactly when no buffer does.
\<close>

theorem find_buffer_correct:
  assumes ok: "cache_ok s L F" and fuel: "nr_buffers s < n"
  shows "\<exists>r. find_buffer dev block n s = Done r s \<and>
     (\<forall>i. r = Some i \<longleftrightarrow> i < nr_buffers s \<and> caches (buffers s i) dev block)"
proof -
  have q: "queues s {..<nr_buffers s} L F" using ok by (simp add: cache_ok_def)
  from find_buffer_exec [OF q fuel, of dev block] obtain r where
    "find_buffer dev block n s = Done r s" and
    "case r of None \<Rightarrow> \<forall>i<nr_buffers s. \<not> caches (buffers s i) dev block
     | Some i \<Rightarrow> i < nr_buffers s \<and> caches (buffers s i) dev block" by blast
  with cache_unique [OF ok, of _ _ dev block] show ?thesis by (intro exI [of _ r]) (auto split: option.splits)
qed

section \<open>Moving a buffer between the queues\<close>

lemma unlink_hash_fields:
  "nh (unlink_hash i s) = unlink_next (nh s) (ph s) i" "ph (unlink_hash i s) = unlink_next (ph s) (nh s) i"
  "nf (unlink_hash i s) = nf s" "pf (unlink_hash i s) = pf s" "free_list (unlink_hash i s) = free_list s"
  "hash_table (unlink_hash i s) = (if hash_table s (hash_of (buffers s i)) = Some i
     then (hash_table s)(hash_of (buffers s i) := nh s i) else hash_table s)"
  by (auto simp: unlink_hash_def unlink_next_def field_defs set_hash_def upd_buffer_def Let_def fun_eq_iff
      split: option.split)

lemma unlink_hash_requeued: "requeued s (unlink_hash i s)"
  by (auto simp: unlink_hash_def Let_def requeued_refl intro!: requeued_upd split: option.split)

lemma dll_member_bucket:
  assumes "queues s A L F" "i \<in> A" "b_dev (buffers s i) \<noteq> 0"
  obtains us vs where "L (hash_of (buffers s i)) = us @ i # vs"
proof -
  have "hash_of (buffers s i) < NR_HASH" by (simp add: hash_of_def hashfn_less)
  then have "i \<in> set (L (hash_of (buffers s i)))" using assms by (simp add: queues_def)
  then show thesis by (meson split_list that)
qed

lemma unlink_hash_queues:
  assumes q: "queues s A L F" and i: "i \<in> A" and h: "h < NR_HASH"
  defines "t \<equiv> unlink_hash i s"
  shows "dll (nh t) (ph t) None (hash_table t h) (remove1 i (L h))"
proof -
  let ?h = "hash_of (buffers s i)"
  have L: "dll (nh s) (ph s) None (hash_table s h) (L h)" "distinct (L h)"
    "set (L h) = {i \<in> A. b_dev (buffers s i) \<noteq> 0 \<and> hash_of (buffers s i) = h}"
    using q h by (simp_all add: queues_def)
  note t = unlink_hash_fields [of i s, folded t_def]
  show ?thesis
  proof (cases "b_dev (buffers s i) = 0")
    case True
    then have none: "nh s i = None" "ph s i = None" using q i by (simp_all add: queues_def)
    have "i \<notin> set (L h)" using L(3) True by auto
    moreover have "hash_table s ?h \<noteq> Some i"
    proof
      assume a: "hash_table s ?h = Some i"
      have "?h < NR_HASH" by (simp add: hash_of_def hashfn_less)
      then have "dll (nh s) (ph s) None (hash_table s ?h) (L ?h)" "i \<notin> set (L ?h)"
        using q True by (auto simp: queues_def)
      with a show False by (cases "L ?h") auto
    qed
    ultimately show ?thesis using L(1) none by (simp add: t unlink_next_def remove1_idem)
  next
    case False
    obtain us vs where B: "L ?h = us @ i # vs" using dll_member_bucket [OF q i False] .
    have hb: "?h < NR_HASH" by (simp add: hash_of_def hashfn_less)
    then have D: "dll (nh s) (ph s) None (hash_table s ?h) (us @ i # vs)" "distinct (us @ i # vs)"
      "set (us @ i # vs) = {i \<in> A. b_dev (buffers s i) \<noteq> 0 \<and> hash_of (buffers s i) = ?h}"
      using q unfolding queues_def B [symmetric] by simp_all
    show ?thesis
    proof (cases "h = ?h")
      case True
      have "remove1 i (us @ i # vs) = us @ vs" using D(2) by (simp add: remove1_append)
      then show ?thesis using dll_remove [OF D(1,2)] True B by (auto simp: t)
    next
      case False
      have f: "ph s i = (if us = [] then None else Some (last us))" "nh s i = (if vs = [] then None else Some (hd vs))"
        using dll_fields [OF D(1)] by simp_all
      have nb: "ph s i = Some j \<Longrightarrow> j \<in> set (us @ i # vs)" "nh s i = Some j \<Longrightarrow> j \<in> set (us @ i # vs)" for j
        using f by (auto split: if_splits)
      have "j \<notin> set (us @ i # vs)" if "j \<in> set (L h)" for j using that L(3) D(3) False by auto
      with nb have out: "j \<noteq> i" "ph s i \<noteq> Some j" "nh s i \<noteq> Some j" if "j \<in> set (L h)" for j
        using that by auto
      have "dll (nh t) (ph t) None (hash_table s h) (L h) = dll (nh s) (ph s) None (hash_table s h) (L h)"
        by (rule dll_cong) (auto simp: t unlink_next_def dest: out split: option.splits)
      moreover have "i \<notin> set (L h)" using out(1) by auto
      ultimately show ?thesis using L(1) False by (simp add: t remove1_idem)
    qed
  qed
qed

lemma ring_hd: "ring nx pv xs \<Longrightarrow> pv (hd xs) = Some (last xs)"
proof -
  assume r: "ring nx pv xs"
  then obtain ys y where xs: "xs = ys @ [y]" by (cases xs rule: rev_cases) (auto simp: ring_def)
  have "links nx pv (ys @ [y, hd xs])" using r xs by (simp add: ring_def)
  then show ?thesis using xs unfolding links_last by simp
qed

lemma remove_from_queues_exec:
  assumes q: "queues s A L (xs @ i # ys)" and ne: "xs @ ys \<noteq> []"
  shows "\<exists>t. remove_from_queues i n s = Done () t \<and> requeued s t \<and>
     queues t (A - {i}) (\<lambda>h. remove1 i (L h)) (xs @ ys)"
proof -
  let ?u = "unlink_hash i s" and ?p = "last (ys @ xs)" and ?q = "hd (ys @ xs)"
  note u = unlink_hash_fields [of i s]
  have i: "i \<in> A" and F: "set (xs @ i # ys) = A" and fl: "free_list s = hd (xs @ i # ys)"
    using q by (auto simp: queues_def)
  have r: "ring (nf s) (pf s) (i # ys @ xs)" using q ring_swap [of "nf s" "pf s" xs "i # ys"] by (simp add: queues_def)
  have ne': "ys @ xs \<noteq> []" using ne by auto
  have d: "distinct (i # ys @ xs)" using r by (simp add: ring_def)
  have pq: "b_next_free (buffers ?u i) = Some ?q" "b_prev_free (buffers ?u i) = Some ?p"
    using ring_neighbours [OF r ne'] fun_cong [OF u(3), of i] fun_cong [OF u(4), of i] by (simp_all add: nf_def pf_def)
  define t where "t = (let v = upd_buffer ?q (b_prev_free_update (\<lambda>_. Some ?p))
      (upd_buffer ?p (b_next_free_update (\<lambda>_. Some ?q)) ?u)
     in if free_list v = i then v\<lparr>free_list := ?q\<rparr> else v)"
  have run: "remove_from_queues i n s = Done () t"
    by (simp add: remove_from_queues_def kexec pq t_def Let_def)
  have rq: "requeued s t"
    by (simp add: t_def Let_def requeued_upd unlink_hash_requeued)
  have t: "nh t = nh ?u" "ph t = ph ?u" "hash_table t = hash_table ?u" "nf t = (nf s)(?p := Some ?q)"
    "pf t = (pf s)(?q := Some ?p)" "free_list t = (if free_list s = i then ?q else free_list s)"
    using u(3,4,5) by (auto simp: t_def Let_def field_defs upd_buffer_def fun_eq_iff)
  have heads: "b_dev (buffers t j) = b_dev (buffers s j)" "hash_of (buffers t j) = hash_of (buffers s j)" for j
    using rq strip_fields [of "buffers t j" "buffers s j"] by (auto simp: requeued_def)
  have "ring (nf t) (pf t) (xs @ ys)"
    using ring_swap [OF ring_remove [OF r ne']] by (simp only: t)
  moreover have "set (xs @ ys) = A - {i}" using F d by auto
  moreover have "free_list t = hd (xs @ ys)" using d fl ne by (cases xs) (auto simp: t)
  moreover have "dll (nh t) (ph t) None (hash_table t h) (remove1 i (L h)) \<and> distinct (remove1 i (L h)) \<and>
      set (remove1 i (L h)) = {j \<in> A - {i}. b_dev (buffers t j) \<noteq> 0 \<and> hash_of (buffers t j) = h}" if "h < NR_HASH" for h
    using unlink_hash_queues [OF q i that] q that by (auto simp: queues_def t heads)
  moreover have "nh t j = None \<and> ph t j = None" if "j \<in> A - {i}" "b_dev (buffers t j) = 0" for j
  proof -
    have n: "nh s j = None" "ph s j = None" using that q heads by (auto simp: queues_def)
    have "ph s i \<noteq> Some j \<and> nh s i \<noteq> Some j"
    proof (cases "b_dev (buffers s i) = 0")
      case True
      then show ?thesis using q i by (auto simp: queues_def)
    next
      case False
      obtain us vs where B: "L (hash_of (buffers s i)) = us @ i # vs" using dll_member_bucket [OF q i False] .
      have "hash_of (buffers s i) < NR_HASH" by (simp add: hash_of_def hashfn_less)
      then have D: "dll (nh s) (ph s) None (hash_table s (hash_of (buffers s i))) (us @ i # vs)"
        "j \<notin> set (us @ i # vs)"
        using q that heads unfolding queues_def B [symmetric] by auto
      then show ?thesis using dll_fields [OF D(1)] by (auto split: if_splits)
    qed
    with n show ?thesis by (auto simp: t u unlink_next_def split: option.splits)
  qed
  ultimately have "queues t (A - {i}) (\<lambda>h. remove1 i (L h)) (xs @ ys)" by (simp add: queues_def)
  with run rq show ?thesis by blast
qed

lemma link_hash_fields:
  assumes "hash_table s (hash_of (buffers s i)) \<noteq> Some i"
  shows "nh (link_hash i s) = (nh s)(i := hash_table s (hash_of (buffers s i)))"
    "ph (link_hash i s) = (case hash_table s (hash_of (buffers s i)) of None \<Rightarrow> ph s | Some a \<Rightarrow> (ph s)(a := Some i))"
    "nf (link_hash i s) = nf s" "pf (link_hash i s) = pf s" "free_list (link_hash i s) = free_list s"
    "hash_table (link_hash i s) = (hash_table s)(hash_of (buffers s i) := Some i)"
  using assms by (auto simp: link_hash_def field_defs set_hash_def upd_buffer_def Let_def fun_eq_iff split: option.split)

lemma link_hash_requeued: "requeued s u \<Longrightarrow> requeued s (link_hash i u)"
  by (auto simp: link_hash_def Let_def intro!: requeued_upd split: option.split)

lemma insert_into_queues_exec:
  assumes q: "queues s A L F" and new: "i \<notin> A"
  defines "b \<equiv> buffers s i"
  shows "\<exists>t. insert_into_queues i n s = Done () t \<and> requeued s t \<and>
     queues t (insert i A) (if b_dev b = 0 then L else L(hash_of b := i # L (hash_of b))) (F @ [i])"
proof -
  have r: "ring (nf s) (pf s) F" and F: "set F = A" and fl: "free_list s = hd F" using q by (auto simp: queues_def)
  have ne: "F \<noteq> []" and hd: "hd F \<noteq> i" and la: "last F \<noteq> i" using r new F by (auto simp: ring_def)
  define u where "u = upd_buffer i (\<lambda>b. b\<lparr>b_prev := None, b_next := None\<rparr>) (upd_buffer (hd F) (b_prev_free_update (\<lambda>_. Some i))
      (upd_buffer (last F) (b_next_free_update (\<lambda>_. Some i))
      (upd_buffer i (\<lambda>b. b\<lparr>b_next_free := Some (hd F), b_prev_free := Some (last F)\<rparr>) s)))"
  define t where "t = (if b_dev b = 0 then u else link_hash i u)"
  have p: "b_prev_free (buffers s (hd F)) = Some (last F)" using ring_hd [OF r] by (simp add: pf_def)
  have ru: "requeued s u" unfolding u_def by (intro requeued_upd requeued_refl) (simp_all add: strip_def)
  have same: "b_dev (buffers u j) = b_dev (buffers s j)" "hash_of (buffers u j) = hash_of (buffers s j)" for j
    using ru strip_fields [of "buffers u j" "buffers s j"] by (auto simp: requeued_def)
  have run: "insert_into_queues i n s = Done () t"
    using p hd same by (simp add: insert_into_queues_def kexec fl t_def u_def upd_buffer_def b_def)
  have rt: "requeued s t" using ru by (simp add: t_def link_hash_requeued)
  have u: "nf u = (nf s)(i := Some (hd F), last F := Some i)" "pf u = (pf s)(i := Some (last F), hd F := Some i)"
    "nh u = (nh s)(i := None)" "ph u = (ph s)(i := None)" "hash_table u = hash_table s" "free_list u = free_list s"
    using hd la by (auto simp: u_def field_defs upd_buffer_def fun_eq_iff)
  have hb: "hash_of b < NR_HASH" by (simp add: hash_of_def hashfn_less)
  have Lh: "dll (nh s) (ph s) None (hash_table s h) (L h)" "distinct (L h)" "i \<notin> set (L h)"
    "set (L h) = {j \<in> A. b_dev (buffers s j) \<noteq> 0 \<and> hash_of (buffers s j) = h}" if "h < NR_HASH" for h
    using q that new by (auto simp: queues_def)
  have du: "dll (nh u) (ph u) None (hash_table s h) (L h)" if "h < NR_HASH" for h
  proof -
    have "dll (nh u) (ph u) None (hash_table s h) (L h) = dll (nh s) (ph s) None (hash_table s h) (L h)"
      by (rule dll_cong) (use Lh(3) [OF that] in \<open>auto simp: u\<close>)
    with Lh(1) [OF that] show ?thesis by simp
  qed
  have nohead: "hash_table u (hash_of (buffers u i)) \<noteq> Some i"
    using Lh(1,3) [OF hb] by (cases "L (hash_of b)") (auto simp: u same b_def)
  note k = link_hash_fields [OF nohead]
  have heads: "b_dev (buffers t j) = b_dev (buffers s j)" "hash_of (buffers t j) = hash_of (buffers s j)" for j
    using rt strip_fields [of "buffers t j" "buffers s j"] by (auto simp: requeued_def)
  let ?L = "if b_dev b = 0 then L else L(hash_of b := i # L (hash_of b))"
  have "ring (nf t) (pf t) (F @ [i])" using ring_insert [OF r] new F by (auto simp: t_def k u)
  moreover have "free_list t = hd (F @ [i])" using ne fl by (simp add: t_def k u)
  moreover have "dll (nh t) (ph t) None (hash_table t h) (?L h)" if "h < NR_HASH" for h
  proof (cases "b_dev b = 0")
    case True
    with du [OF that] show ?thesis by (simp add: t_def u)
  next
    case False
    show ?thesis
    proof (cases "h = hash_of b")
      case True
      have "ph (link_hash i u) = (case hash_table u h of None \<Rightarrow> (ph u)(i := None) | Some a \<Rightarrow> (ph u)(i := None, a := Some i))"
        using True by (auto simp: k u same b_def fun_eq_iff split: option.splits)
      then show ?thesis using dll_insert [OF du [OF that] Lh(3,2) [OF that]] True False
        by (simp add: t_def k u same b_def)
    next
      case other: False
      have out: "j \<noteq> i" "hash_table s (hash_of b) \<noteq> Some j" if "j \<in> set (L h)" for j
        using that Lh [OF \<open>h < NR_HASH\<close>] Lh [OF hb] other by (cases "L (hash_of b)"; auto)+
      have "dll (nh t) (ph t) None (hash_table s h) (L h) = dll (nh u) (ph u) None (hash_table s h) (L h)"
        by (rule dll_cong) (use out False in \<open>auto simp: t_def k u same b_def [symmetric] split: option.splits\<close>)
      with du [OF that] other False show ?thesis by (simp add: t_def k u same b_def [symmetric])
    qed
  qed
  moreover have "distinct (?L h) \<and> set (?L h) = {j \<in> insert i A. b_dev (buffers t j) \<noteq> 0 \<and> hash_of (buffers t j) = h}"
    if "h < NR_HASH" for h
    using Lh [OF that] by (auto simp: heads b_def)
  moreover have "nh t j = None \<and> ph t j = None" if "j \<in> insert i A" "b_dev (buffers t j) = 0" for j
  proof -
    have n: "nh u j = None \<and> ph u j = None" using that q heads by (auto simp: queues_def u)
    have "b_dev b \<noteq> 0 \<Longrightarrow> j \<noteq> i \<and> hash_table s (hash_of b) \<noteq> Some j"
      using that Lh [OF hb] heads by (cases "L (hash_of b)") (auto simp: b_def)
    with n show ?thesis by (auto simp: t_def k u same b_def [symmetric] split: option.splits)
  qed
  moreover have "set (F @ [i]) = insert i A" using F by auto
  ultimately have "queues t (insert i A) ?L (F @ [i])" unfolding queues_def by (intro conjI allI impI ballI) simp_all
  with run rt show ?thesis by blast
qed

lemma queues_cong:
  assumes "nh t = nh s" "ph t = ph s" "nf t = nf s" "pf t = pf s" "hash_table t = hash_table s" "free_list t = free_list s"
    and "\<And>i. i \<in> A \<Longrightarrow> b_dev (buffers t i) = b_dev (buffers s i) \<and> hash_of (buffers t i) = hash_of (buffers s i)"
  shows "queues t A L F = queues s A L F"
proof -
  have "{i \<in> A. b_dev (buffers t i) \<noteq> 0 \<and> hash_of (buffers t i) = h} =
      {i \<in> A. b_dev (buffers s i) \<noteq> 0 \<and> hash_of (buffers s i) = h}" for h using assms(7) by auto
  moreover have "(\<forall>i\<in>A. b_dev (buffers t i) = 0 \<longrightarrow> P i) \<longleftrightarrow> (\<forall>i\<in>A. b_dev (buffers s i) = 0 \<longrightarrow> P i)" for P
    using assms(7) by auto
  ultimately show ?thesis using assms(1-6) by (simp add: queues_def)
qed

text \<open>The state of all but the queue variables of the cache.\<close>

definition cache_frame :: "kstate \<Rightarrow> kstate \<Rightarrow> bool" where
  "cache_frame s t \<longleftrightarrow> t\<lparr>buffers := buffers s, hash_table := hash_table s, free_list := free_list s\<rparr> = s"

lemma cache_frame_upd [simp]:
  "cache_frame s (upd_buffer i f t) = cache_frame s t" "cache_frame (upd_buffer i f s) t = cache_frame s t"
proof -
  show "cache_frame s (upd_buffer i f t) = cache_frame s t" by (simp add: cache_frame_def upd_buffer_def)
  have "t\<lparr>buffers := b, hash_table := h, free_list := fl\<rparr> = s\<lparr>buffers := b\<rparr> \<longleftrightarrow>
      t\<lparr>buffers := buffers s, hash_table := h, free_list := fl\<rparr> = s" for b h fl
    by (cases s; cases t) auto
  then show "cache_frame (upd_buffer i f s) t = cache_frame s t"
    by (simp add: cache_frame_def upd_buffer_def)
qed

lemma requeued_frame: "requeued s t \<Longrightarrow> cache_frame s t"
  by (simp add: requeued_def cache_frame_def)

lemma cache_frame_trans:
  assumes "cache_frame s t" "cache_frame t u"
  shows "cache_frame s u"
proof -
  let ?set = "\<lambda>w s. w\<lparr>buffers := buffers s, hash_table := hash_table s, free_list := free_list s\<rparr>"
  have "?set u s = ?set (?set u t) s" by simp
  with assms show ?thesis by (simp add: cache_frame_def)
qed

lemma cache_frame_fields:
  assumes "cache_frame s t"
  shows "nr_buffers t = nr_buffers s" "rd_image t = rd_image s" "rd_length t = rd_length s" "rd_start t = rd_start s"
    "requests t = requests s" "current_request t = current_request s" "request_fn t = request_fn s"
proof -
  have eq: "t\<lparr>buffers := buffers s, hash_table := hash_table s, free_list := free_list s\<rparr> = s"
    using assms by (simp add: cache_frame_def)
  show "nr_buffers t = nr_buffers s" "rd_image t = rd_image s" "rd_length t = rd_length s" "rd_start t = rd_start s"
    "requests t = requests s" "current_request t = current_request s" "request_fn t = request_fn s"
    using arg_cong [OF eq, of nr_buffers] arg_cong [OF eq, of rd_image] arg_cong [OF eq, of rd_length]
      arg_cong [OF eq, of rd_start] arg_cong [OF eq, of requests] arg_cong [OF eq, of current_request]
      arg_cong [OF eq, of request_fn] by simp_all
qed

lemma take_buffer_exec:
  assumes ok: "cache_ok s L F" and i: "i < nr_buffers s" and two: "2 \<le> nr_buffers s" and d: "d \<noteq> 0"
    and new: "\<And>j. j < nr_buffers s \<Longrightarrow> \<not> caches (buffers s j) (ucast d) block"
  shows "\<exists>t L'. take_buffer (ucast d) block i n s = Done () t \<and> cache_ok t L' (remove1 i F @ [i]) \<and> cache_frame s t \<and>
     strip (buffers t i) = strip ((buffers s i)\<lparr>b_count := 1, b_dirt := 0, b_uptodate := 0, b_dev := d, b_blocknr := block\<rparr>) \<and>
     (\<forall>j. j \<noteq> i \<longrightarrow> strip (buffers t j) = strip (buffers s j))"
proof -
  let ?A = "{..<nr_buffers s}"
  have q: "queues s ?A L F" using ok by (simp add: cache_ok_def)
  then have "i \<in> set F" "distinct F" "card (set F) = nr_buffers s" using i by (auto simp: queues_def ring_def)
  then obtain xs ys where F: "F = xs @ i # ys" by (meson split_list)
  have ne: "xs @ ys \<noteq> []" using two \<open>card (set F) = nr_buffers s\<close> by (auto simp: F)
  have rm: "remove1 i F = xs @ ys" using \<open>distinct F\<close> by (simp add: F remove1_append)
  define s1 where "s1 = upd_buffer i (\<lambda>b. b\<lparr>b_count := 1, b_dirt := 0, b_uptodate := 0\<rparr>) s"
  have "queues s1 ?A L F = queues s ?A L F"
    by (rule queues_cong) (auto simp: s1_def field_defs upd_buffer_def hash_of_def fun_eq_iff)
  with q have "queues s1 ?A L (xs @ i # ys)" by (simp add: F)
  from remove_from_queues_exec [OF this ne, of n] obtain s2 where
    s2: "remove_from_queues i n s1 = Done () s2" "requeued s1 s2" "queues s2 (?A - {i}) (\<lambda>h. remove1 i (L h)) (xs @ ys)"
    by blast
  define s3 where "s3 = upd_buffer i (\<lambda>b. b\<lparr>b_dev := d, b_blocknr := block\<rparr>) s2"
  have "queues s3 (?A - {i}) (\<lambda>h. remove1 i (L h)) (xs @ ys) = queues s2 (?A - {i}) (\<lambda>h. remove1 i (L h)) (xs @ ys)"
    by (rule queues_cong) (auto simp: s3_def field_defs upd_buffer_def fun_eq_iff)
  with s2(3) have "queues s3 (?A - {i}) (\<lambda>h. remove1 i (L h)) (xs @ ys)" by simp
  from insert_into_queues_exec [OF this, of i n] obtain t L' where
    t: "insert_into_queues i n s3 = Done () t" "requeued s3 t" "queues t (insert i (?A - {i})) L' (xs @ ys @ [i])"
    by auto
  have run: "take_buffer (ucast d) block i n s = Done () t"
    using s2(1) t(1) by (simp add: take_buffer_def kexec ucast_u16 s1_def [symmetric] s3_def [symmetric])
  have fr: "cache_frame s t"
    using cache_frame_trans [of s s2 t] requeued_frame [OF s2(2)] requeued_frame [OF t(2)]
    by (simp add: s1_def s3_def)
  have st2: "strip (buffers s2 j) = strip (buffers s1 j)" for j using s2(2) by (simp add: requeued_def)
  have st: "strip (buffers t j) = strip (buffers s3 j)" for j using t(2) by (simp add: requeued_def)
  have self: "strip (buffers t i) = strip ((buffers s i)\<lparr>b_count := 1, b_dirt := 0, b_uptodate := 0, b_dev := d, b_blocknr := block\<rparr>)"
    using st [of i] strip_dev [OF st2 [of i], where d = d and k = block] by (simp add: s3_def s1_def upd_buffer_def)
  have other: "strip (buffers t j) = strip (buffers s j)" if "j \<noteq> i" for j
    using st [of j] st2 [of j] that by (simp add: s3_def s1_def upd_buffer_def)
  have dev: "b_dev (buffers t i) = d" "b_blocknr (buffers t i) = block"
    using strip_fields [OF self] by simp_all
  have c: "caches (buffers t j) dv bl \<longleftrightarrow> caches (buffers s j) dv bl" if "j \<noteq> i" for j dv bl
    using strip_fields [OF other [OF that]] by (simp add: caches_def)
  have ci: "caches (buffers t i) dv bl \<longleftrightarrow> dv = ucast d \<and> bl = block" for dv bl
    using d dev by (auto simp: caches_def)
  have "cache_ok t L' (remove1 i F @ [i])"
    unfolding cache_ok_def
  proof (intro conjI allI impI)
    show "queues t {..<nr_buffers t} L' (remove1 i F @ [i])"
      using t(3) i cache_frame_fields(1) [OF fr] by (simp add: rm insert_absorb)
  next
    fix j k dv bl
    assume "j < nr_buffers t" "k < nr_buffers t" "caches (buffers t j) dv bl \<and> caches (buffers t k) dv bl"
    then show "j = k" using cache_unique [OF ok, of j k dv bl] new c ci cache_frame_fields(1) [OF fr]
      by (cases "j = i"; cases "k = i") auto
  qed
  with run fr self other show ?thesis by blast
qed

section \<open>\<open>getblk\<close>\<close>

text \<open>The first buffer of the free list that can be recycled at once: unused, clean and unlocked.\<close>

definition recyclable :: "buffer_head \<Rightarrow> bool" where
  "recyclable b \<longleftrightarrow> b_count b = 0 \<and> b_dirt b = 0 \<and> b_lock b = 0"

lemma BADNESS_0: "BADNESS b = 0 \<longleftrightarrow> b_dirt b = 0 \<and> b_lock b = 0"
  by (auto simp: BADNESS_def unat_eq_zero)

lemma victim_step_exec:
  fixes s tmp bh
  defines "bt \<equiv> b_count (buffers s tmp) = 0 \<and>
     (case bh of None \<Rightarrow> True | Some i \<Rightarrow> BADNESS (buffers s tmp) < BADNESS (buffers s i))"
  shows "victim_step (tmp, bh) n s =
    (if bt \<and> BADNESS (buffers s tmp) = 0 then Done (Inr (Some tmp)) s
     else case b_next_free (buffers s tmp) of
       None \<Rightarrow> Fault s
     | Some nx \<Rightarrow> Done (let b = (if bt then Some tmp else bh) in if nx = free_list s then Inr b else Inl (nx, b)) s)"
  by (auto simp: victim_step_def bt_def kexec deref_def Let_def split: option.split)

lemma victim_loop:
  assumes "links (nf s) (pf s) (xs @ [v])" "\<forall>x\<in>set xs. \<not> recyclable (buffers s x)" "recyclable (buffers s v)"
    and "free_list s \<notin> set (tl (xs @ [v]))" "\<And>i. bh = Some i \<Longrightarrow> 0 < BADNESS (buffers s i)" "length xs < k"
  shows "loop_fuel k victim_step (hd (xs @ [v]), bh) n s = Done (Some v) s"
  using assms
proof (induction xs arbitrary: bh k)
  case Nil
  obtain k' where "k = Suc k'" using Nil.prems(6) by (cases k) auto
  moreover have "BADNESS (buffers s v) = 0" using Nil.prems(3) by (simp add: recyclable_def BADNESS_0)
  ultimately show ?case using Nil.prems(3,5) by (cases bh) (auto simp: victim_step_exec kexec recyclable_def)
next
  case (Cons x xs)
  obtain k' where k: "k = Suc k'" "length xs < k'" using Cons.prems(6) by (cases k) auto
  let ?nx = "hd (xs @ [v])"
  have nx: "b_next_free (buffers s x) = Some ?nx" "links (nf s) (pf s) (xs @ [v])" "?nx \<noteq> free_list s"
    using Cons.prems(1,4) by (cases xs; auto simp: nf_def [of s x])+
  have bad: "b_count (buffers s x) = 0 \<Longrightarrow> 0 < BADNESS (buffers s x)"
    using Cons.prems(2) BADNESS_0 [of "buffers s x"] by (auto simp: recyclable_def)
  have IH: "loop_fuel k' victim_step (?nx, b') n s = Done (Some v) s"
    if "\<And>i. b' = Some i \<Longrightarrow> 0 < BADNESS (buffers s i)" for b'
    by (rule Cons.IH) (use Cons.prems nx k that in \<open>cases xs; auto\<close>)+
  show ?case using nx bad Cons.prems(5)
    by (auto simp: k(1) victim_step_exec kexec Let_def intro!: IH split: option.splits)
qed

lemma ring_links: "ring nx pv xs \<Longrightarrow> links nx pv xs"
proof (cases xs rule: rev_cases)
  case (snoc ys y)
  assume "ring nx pv xs"
  then have "links nx pv (ys @ [y, hd xs])" by (simp add: ring_def snoc)
  then show ?thesis unfolding links_last by (simp add: snoc)
qed (simp add: ring_def)

lemma find_victim_exec:
  assumes q: "queues s A L (xs @ v # ys)" and xs: "\<forall>x\<in>set xs. \<not> recyclable (buffers s x)"
    and v: "recyclable (buffers s v)" and fuel: "length xs < n"
  shows "find_victim n s = Done (Some v) s"
proof -
  have r: "ring (nf s) (pf s) (xs @ v # ys)" and fl: "free_list s = hd (xs @ v # ys)" using q by (simp_all add: queues_def)
  have "links (nf s) (pf s) (xs @ [v])" using ring_links [OF r] links_append [of _ _ xs v ys] by simp
  moreover have "free_list s \<notin> set (tl (xs @ [v]))" using r fl by (cases xs) (auto simp: ring_def)
  moreover have "hd (xs @ [v]) = free_list s" using fl by (cases xs) auto
  ultimately show ?thesis
    using victim_loop [of s xs v None n n] xs v fuel by (simp add: find_victim_def loop_def kexec)
qed

lemma wait_on_buffer_exec: "b_lock (buffers s i) = 0 \<Longrightarrow> 0 < n \<Longrightarrow> wait_on_buffer i n s = Done () s"
  unfolding wait_on_buffer_def by (rule wait_while_exec) simp_all

definition use_buffer :: "nat \<Rightarrow> kstate \<Rightarrow> kstate" where
  "use_buffer i s = upd_buffer i (\<lambda>b. b\<lparr>b_count := b_count b + 1\<rparr>) s"

lemma getblk_exec: "m < n \<Longrightarrow> \<exists>sync. getblk dev block n s = loop (getblk_step sync dev block) () n s"
  by (cases n) (auto simp: getblk_def getblk_with_def)

lemma get_hash_table_exec:
  assumes "find_buffer dev block n s = Done r s" and "0 < n"
    and "\<And>i. r = Some i \<Longrightarrow> caches (buffers s i) dev block \<and> b_lock (buffers s i) = 0"
  shows "get_hash_table dev block n s = Done r (case r of None \<Rightarrow> s | Some i \<Rightarrow> use_buffer i s)"
proof (cases r)
  case None
  then show ?thesis unfolding get_hash_table_def by (intro loop_exit) (simp_all add: kexec assms)
next
  case (Some i)
  have "wait_on_buffer i n (use_buffer i s) = Done () (use_buffer i s)"
    using assms(2,3) Some by (intro wait_on_buffer_exec) (simp_all add: use_buffer_def upd_buffer_def)
  moreover have "caches (buffers (use_buffer i s) i) dev block"
    using assms(3) Some by (simp add: use_buffer_def upd_buffer_def caches_def)
  ultimately show ?thesis using Some unfolding get_hash_table_def
    by (intro loop_exit) (simp_all add: kexec assms use_buffer_def [symmetric] caches_def)
qed

lemma getblk_hit:
  assumes ok: "cache_ok s L F" and fuel: "nr_buffers s < n"
    and i: "i < nr_buffers s" "caches (buffers s i) dev block" "b_lock (buffers s i) = 0"
  shows "getblk dev block n s = Done i (use_buffer i s)"
proof -
  have q: "queues s {..<nr_buffers s} L F" using ok by (simp add: cache_ok_def)
  obtain r where r: "find_buffer dev block n s = Done r s"
    "case r of None \<Rightarrow> \<forall>i<nr_buffers s. \<not> caches (buffers s i) dev block
     | Some i \<Rightarrow> i < nr_buffers s \<and> caches (buffers s i) dev block"
    using find_buffer_exec [OF q fuel, of dev block] by blast
  have "r = Some i"
  proof (cases r)
    case None
    with r(2) i show ?thesis by simp
  next
    case (Some j)
    with r(2) have "j = i" using cache_unique [OF ok, of j i dev block] i by simp
    with Some show ?thesis by simp
  qed
  with r(1) have "find_buffer dev block n s = Done (Some i) s" by simp
  then have "get_hash_table dev block n s = Done (Some i) (use_buffer i s)"
    using get_hash_table_exec [of dev block n s "Some i"] i fuel by simp
  moreover obtain sync where "getblk dev block n s = loop (getblk_step sync dev block) () n s"
    using getblk_exec [OF fuel] by blast
  ultimately show ?thesis using fuel by (auto intro!: loop_exit simp: getblk_step_def kexec)
qed

lemma first_recyclable:
  assumes "\<exists>i\<in>set F. recyclable (buffers s i)"
  obtains xs v ys where "F = xs @ v # ys" "\<forall>x\<in>set xs. \<not> recyclable (buffers s x)" "recyclable (buffers s v)"
proof -
  obtain ys x zs where "F = ys @ x # zs" "recyclable (buffers s x)" "\<forall>y\<in>set ys. \<not> recyclable (buffers s y)"
    using split_list_first_prop [OF assms] by blast
  then show thesis using that by blast
qed

lemma getblk_miss:
  assumes ok: "cache_ok s L F" and fuel: "nr_buffers s < n" and two: "2 \<le> nr_buffers s" and d: "d \<noteq> 0"
    and new: "\<And>j. j < nr_buffers s \<Longrightarrow> \<not> caches (buffers s j) (ucast d) block"
    and F: "F = xs @ v # ys" "\<forall>x\<in>set xs. \<not> recyclable (buffers s x)" "recyclable (buffers s v)"
  shows "\<exists>t L'. getblk (ucast d) block n s = Done v t \<and> cache_ok t L' (remove1 v F @ [v]) \<and> cache_frame s t \<and>
     strip (buffers t v) = strip ((buffers s v)\<lparr>b_count := 1, b_dirt := 0, b_uptodate := 0, b_dev := d, b_blocknr := block\<rparr>) \<and>
     (\<forall>j. j \<noteq> v \<longrightarrow> strip (buffers t j) = strip (buffers s j))"
proof -
  have q: "queues s {..<nr_buffers s} L F" using ok by (simp add: cache_ok_def)
  then have "v < nr_buffers s" "distinct F" "set F = {..<nr_buffers s}" using F(1) by (auto simp: queues_def ring_def)
  then have len: "length F = nr_buffers s" using distinct_card [of F] by simp
  obtain t L' where t: "take_buffer (ucast d) block v n s = Done () t" "cache_ok t L' (remove1 v F @ [v])" "cache_frame s t"
    "strip (buffers t v) = strip ((buffers s v)\<lparr>b_count := 1, b_dirt := 0, b_uptodate := 0, b_dev := d, b_blocknr := block\<rparr>)"
    "\<forall>j. j \<noteq> v \<longrightarrow> strip (buffers t j) = strip (buffers s j)"
    using take_buffer_exec [OF ok \<open>v < nr_buffers s\<close> two d new] by blast
  have find: "find_buffer (ucast d) block n s = Done None s"
    using find_buffer_exec [OF q fuel, of "ucast d" block] new by (auto split: option.splits)
  have table: "get_hash_table (ucast d) block n s = Done None s"
    using get_hash_table_exec [OF find] fuel by simp
  have "length xs < n" using len fuel F(1) by simp
  then have victim: "find_victim n s = Done (Some v) s"
    using find_victim_exec [of s _ L xs v ys n] q F by simp
  have v: "b_lock (buffers s v) = 0" "b_count (buffers s v) = 0" "b_dirt (buffers s v) = 0"
    using F(3) by (simp_all add: recyclable_def)
  have clean: "loop (clean_step sync v) () n s = Done False s" for sync
    using fuel v by (intro loop_exit) (simp_all add: clean_step_def kexec)
  obtain sync where "getblk (ucast d) block n s = loop (getblk_step sync (ucast d) block) () n s"
    using getblk_exec [OF fuel] by blast
  moreover have "getblk_step sync (ucast d) block () n s = Done (Inr v) t"
    using fuel by (simp add: getblk_step_def kexec table victim wait_on_buffer_exec v clean find t(1))
  ultimately have "getblk (ucast d) block n s = Done v t" using fuel by (simp add: loop_exit)
  with t(2-5) show ?thesis by blast
qed

lemma use_buffer_ok: "cache_ok s L F \<Longrightarrow> cache_ok (use_buffer i s) L F"
proof -
  assume ok: "cache_ok s L F"
  have "queues (use_buffer i s) A L F = queues s A L F" for A
    by (rule queues_cong) (auto simp: use_buffer_def field_defs upd_buffer_def hash_of_def fun_eq_iff)
  moreover have "caches (buffers (use_buffer i s) j) = caches (buffers s j)" for j
    by (auto simp: use_buffer_def upd_buffer_def caches_def fun_eq_iff)
  moreover have "nr_buffers (use_buffer i s) = nr_buffers s" by (simp add: use_buffer_def upd_buffer_def)
  ultimately show ?thesis using ok by (simp add: cache_ok_def)
qed

text \<open>
  C13: \<open>getblk\<close> on a well-formed cache in which some buffer is unused, clean and unlocked returns
  a buffer for the block asked for and keeps the cache well-formed, so that no block is ever
  cached twice. If a buffer holds the block already it is that one, and only its use count
  changes. Otherwise it is the first recyclable buffer in the order of the free list, which
  moves to the end of that list; the other buffers keep everything but their queue pointers.
\<close>

theorem getblk_correct:
  fixes d :: u16
  assumes ok: "cache_ok s L F" and fuel: "nr_buffers s < n" and two: "2 \<le> nr_buffers s" and d: "d \<noteq> 0"
    and free: "\<exists>i\<in>set F. recyclable (buffers s i)"
    and unlocked: "\<And>i. i < nr_buffers s \<Longrightarrow> caches (buffers s i) (ucast d) block \<Longrightarrow> b_lock (buffers s i) = 0"
  shows "\<exists>i t L' F'. getblk (ucast d) block n s = Done i t \<and> cache_ok t L' F' \<and>
     i < nr_buffers t \<and> caches (buffers t i) (ucast d) block \<and>
     (\<forall>j. j \<noteq> i \<longrightarrow> strip (buffers t j) = strip (buffers s j)) \<and>
     (if \<exists>j<nr_buffers s. caches (buffers s j) (ucast d) block
      then F' = F \<and> buffers t i = (buffers s i)\<lparr>b_count := b_count (buffers s i) + 1\<rparr>
      else F' = remove1 i F @ [i] \<and> Some i = List.find (\<lambda>j. recyclable (buffers s j)) F \<and>
        b_count (buffers t i) = 1 \<and> b_uptodate (buffers t i) = 0)"
proof (cases "\<exists>j<nr_buffers s. caches (buffers s j) (ucast d) block")
  case True
  then obtain i where i: "i < nr_buffers s" "caches (buffers s i) (ucast d) block" by blast
  have "getblk (ucast d) block n s = Done i (use_buffer i s)"
    by (rule getblk_hit [OF ok fuel i unlocked [OF i]])
  moreover have "cache_ok (use_buffer i s) L F" by (rule use_buffer_ok [OF ok])
  ultimately show ?thesis using True i
    by (intro exI [of _ i] exI [of _ "use_buffer i s"] exI [of _ L] exI [of _ F])
      (auto simp: use_buffer_def upd_buffer_def caches_def)
next
  case False
  obtain xs v ys where F: "F = xs @ v # ys" "\<forall>x\<in>set xs. \<not> recyclable (buffers s x)" "recyclable (buffers s v)"
    by (rule first_recyclable [OF free])
  have "\<not> caches (buffers s j) (ucast d) block" if "j < nr_buffers s" for j using False that by blast
  from getblk_miss [OF ok fuel two d this F] obtain t L' where
    t: "getblk (ucast d) block n s = Done v t" "cache_ok t L' (remove1 v F @ [v])" "cache_frame s t"
    "strip (buffers t v) = strip ((buffers s v)\<lparr>b_count := 1, b_dirt := 0, b_uptodate := 0, b_dev := d, b_blocknr := block\<rparr>)"
    "\<forall>j. j \<noteq> v \<longrightarrow> strip (buffers t j) = strip (buffers s j)" by blast
  have "v < nr_buffers s" using ok F(1) by (auto simp: cache_ok_def queues_def)
  moreover have "caches (buffers t v) (ucast d) block" "b_count (buffers t v) = 1" "b_uptodate (buffers t v) = 0"
    using strip_fields [OF t(4)] d by (simp_all add: caches_def)
  moreover have "List.find (\<lambda>j. recyclable (buffers s j)) F = Some v"
    using F by (auto simp: find_Some_iff nth_append intro!: exI [of _ "length xs"])
  ultimately show ?thesis using False t cache_frame_fields(1) [OF t(3)]
    by (intro exI [of _ v] exI [of _ t] exI [of _ L'] exI [of _ "remove1 v F @ [v]"]) auto
qed

section \<open>The cache is transparent\<close>

text \<open>
  The contents of the RAM disk as its users see it: a block is what an up-to-date buffer holds,
  or else what is in the image.
\<close>

abbreviation RD_DEV :: u32 where "RD_DEV \<equiv> 0x101"

definition live :: "kstate \<Rightarrow> u32 \<Rightarrow> nat \<Rightarrow> bool" where
  "live s k i \<longleftrightarrow> caches (buffers s i) RD_DEV k \<and> b_uptodate (buffers s i) \<noteq> 0"

definition contents :: "kstate \<Rightarrow> u32 \<Rightarrow> nat \<Rightarrow> u8" where
  "contents s k j = (case List.find (live s k) [0..<nr_buffers s] of
     Some i \<Rightarrow> b_data (buffers s i) j
   | None \<Rightarrow> rd_image s (1024 * unat k + j))"

text \<open>An up-to-date buffer that is not marked dirty agrees with the image.\<close>

definition coherent :: "kstate \<Rightarrow> bool" where
  "coherent s \<longleftrightarrow> (\<forall>i<nr_buffers s. \<forall>k. live s k i \<and> b_dirt (buffers s i) = 0 \<longrightarrow>
     (\<forall>j<1024. b_data (buffers s i) j = rd_image s (1024 * unat k + j)))"

lemma contents_live:
  assumes "cache_ok s L F" "i < nr_buffers s" "live s k i"
  shows "contents s k j = b_data (buffers s i) j"
proof -
  have "List.find (live s k) [0..<nr_buffers s] \<noteq> None" using assms(2,3) by (auto simp: find_None_iff)
  then obtain m where m: "List.find (live s k) [0..<nr_buffers s] = Some m" by blast
  then have "m < nr_buffers s" "live s k m" by (auto simp: find_Some_iff)
  then have "m = i" using cache_unique [OF assms(1), of m i RD_DEV k] assms(2,3) by (simp add: live_def)
  with m show ?thesis by (simp add: contents_def)
qed

lemma contents_image:
  "(\<And>i. i < nr_buffers s \<Longrightarrow> \<not> live s k i) \<Longrightarrow> contents s k j = rd_image s (1024 * unat k + j)"
proof -
  assume none: "\<And>i. i < nr_buffers s \<Longrightarrow> \<not> live s k i"
  have "List.find (live s k) [0..<nr_buffers s] = None" using none by (auto simp: find_None_iff)
  then show ?thesis by (simp add: contents_def)
qed

lemma blk_frame_queues:
  assumes "blk_frame s t"
  shows "hash_table t = hash_table s" "free_list t = free_list s" "nr_buffers t = nr_buffers s"
proof -
  have eq: "t\<lparr>buffers := buffers s, requests := requests s, current_request := current_request s,
     tasks := tasks s, wait_for_request := wait_for_request s, rd_image := rd_image s\<rparr> = s"
    using assms by (simp add: blk_frame_def)
  show "hash_table t = hash_table s" "free_list t = free_list s" "nr_buffers t = nr_buffers s"
    using arg_cong [OF eq, of hash_table] arg_cong [OF eq, of free_list] arg_cong [OF eq, of nr_buffers] by simp_all
qed

text \<open>Reading a buffer in changes neither the queues nor the contents of the disk.\<close>

lemma fill_exec:
  assumes ok: "cache_ok s L F" and idle: "idle s" and fuel: "2 \<le> n"
    and i: "caches (buffers s i) RD_DEV k" "b_lock (buffers s i) = 0" "b_uptodate (buffers s i) = 0"
    and disk: "1024 * (unat k + 1) \<le> unat (rd_length s)"
  shows "\<exists>t. ll_rw_block READ i n s = Done () t \<and> blk_frame s t \<and> idle t \<and> cache_ok t L F \<and>
     buffers t = (buffers s)(i := done_buffer s READ (buffers s i)) \<and> rd_image t = rd_image s \<and>
     b_dev (buffers s i) = 0x101 \<and> b_blocknr (buffers s i) = k"
proof -
  have dev: "b_dev (buffers s i) = 0x101" "b_blocknr (buffers s i) = k"
  proof -
    have "ucast (b_dev (buffers s i)) = (ucast (0x101 :: u16) :: u32)" using i(1) by (simp add: caches_def)
    then show "b_dev (buffers s i) = 0x101" using ucast_u16 by metis
    show "b_blocknr (buffers s i) = k" using i(1) by (simp add: caches_def)
  qed
  have "on_disk s (buffers s i)" using dev disk by (simp add: on_disk_def)
  then obtain t where t: "ll_rw_block READ i n s = Done () t" "blk_frame s t" "idle t"
    "buffers t = (buffers s)(i := done_buffer s READ (buffers s i))" "rd_image t = rd_image s"
    using ll_rw_block_transfers [OF idle i(2), of READ n] i(3) fuel by (auto simp: returns_def done_image_def)
  note fr = blk_frame_queues [OF t(2)]
  have same: "caches (buffers t j) = caches (buffers s j)" for j
    by (auto simp: t(4) done_buffer_def caches_def fun_eq_iff)
  have "queues t A L F = queues s A L F" for A
    by (rule queues_cong) (auto simp: t(4) fr done_buffer_def field_defs hash_of_def fun_eq_iff)
  then have "cache_ok t L F" using ok by (simp add: cache_ok_def fr same)
  then show ?thesis using t dev by blast
qed

lemma fill_buffer:
  assumes ok: "cache_ok s L F" and co: "coherent s" and idle: "idle s" and fuel: "2 \<le> n"
    and i: "i < nr_buffers s" "caches (buffers s i) RD_DEV k" "b_lock (buffers s i) = 0" "b_uptodate (buffers s i) = 0"
    and disk: "1024 * (unat k + 1) \<le> unat (rd_length s)"
  shows "\<exists>t. ll_rw_block READ i n s = Done () t \<and> cache_ok t L F \<and> coherent t \<and> idle t \<and> live t k i \<and>
     nr_buffers t = nr_buffers s \<and> b_lock (buffers t i) = 0 \<and> b_count (buffers t i) = b_count (buffers s i) \<and>
     (\<forall>l. \<forall>j<1024. contents t l j = contents s l j)"
proof -
  obtain t where t: "ll_rw_block READ i n s = Done () t" "blk_frame s t" "idle t"
    "buffers t = (buffers s)(i := done_buffer s READ (buffers s i))" "rd_image t = rd_image s" and ok': "cache_ok t L F"
    and dev: "b_dev (buffers s i) = 0x101" "b_blocknr (buffers s i) = k"
    using fill_exec [OF ok idle fuel i(2-4) disk] by blast
  note fr = blk_frame_queues [OF t(2)]
  have fill: "b_data (buffers t i) j = rd_image s (1024 * unat k + j)" if "j < 1024" for j
    using that by (simp add: t(4) done_buffer_def image_read_def dev)
  have same: "caches (buffers t j) = caches (buffers s j)" for j
    by (auto simp: t(4) done_buffer_def caches_def fun_eq_iff)
  have live_i: "live t l i \<longleftrightarrow> l = k" for l
    using i(2) by (auto simp: live_def same caches_def dev) (simp add: t(4) done_buffer_def)
  have live_j: "live t l j \<longleftrightarrow> live s l j" if "j \<noteq> i" for l j using that by (simp add: live_def t(4))
  have not_i: "\<not> live s l i" for l using i(4) by (simp add: live_def)
  have "coherent t" using co fill unfolding coherent_def fr t(5)
    by (metis fun_upd_other live_i live_j t(4))
  moreover have "contents t l j = contents s l j" if j: "j < 1024" for l j
  proof (cases "l = k")
    case True
    have "\<not> live s k m" if "m < nr_buffers s" for m
      using cache_unique [OF ok that i(1) _ i(2)] not_i by (auto simp: live_def)
    then have "contents s k j = rd_image s (1024 * unat k + j)" by (rule contents_image)
    moreover have "contents t k j = b_data (buffers t i) j" using contents_live [OF ok'] live_i i(1) fr by simp
    ultimately show ?thesis using True fill [OF j] by simp
  next
    case False
    then have "live t l m = live s l m" for m using live_i [of l] live_j [of m l] not_i [of l] by (cases "m = i") auto
    then have eq: "live t l = live s l" by auto
    show ?thesis
    proof (cases "List.find (live s l) [0..<nr_buffers s]")
      case None
      then show ?thesis by (simp add: contents_def eq fr t(5))
    next
      case (Some m)
      then have "live s l m" by (auto simp: find_Some_iff)
      then have "m \<noteq> i" using not_i by auto
      with Some show ?thesis by (simp add: contents_def eq fr t(4))
    qed
  qed
  ultimately show ?thesis using t(1,3) ok' live_i fr by (auto simp: t(4) done_buffer_def)
qed

text \<open>Recycling a clean buffer loses nothing: its block is in the image.\<close>

lemma evict_buffer:
  assumes ok: "cache_ok s L F" and co: "coherent s" and v: "v < nr_buffers s" "recyclable (buffers s v)"
    and fr: "cache_frame s t" and empty: "b_uptodate (buffers t v) = 0"
    and other: "\<And>j. j \<noteq> v \<Longrightarrow> strip (buffers t j) = strip (buffers s j)"
  shows "coherent t" "j < 1024 \<Longrightarrow> contents t l j = contents s l j"
proof -
  note im = cache_frame_fields(1,2) [OF fr]
  have live_v: "\<not> live t l v" for l using empty by (simp add: live_def)
  have live_j: "live t l j = live s l j" "b_dirt (buffers t j) = b_dirt (buffers s j)"
    "b_data (buffers t j) = b_data (buffers s j)" if "j \<noteq> v" for l j
    using strip_fields [OF other [OF that]] by (simp_all add: live_def caches_def)
  show "coherent t" using co live_v live_j unfolding coherent_def im by metis
  assume j: "j < 1024"
  show "contents t l j = contents s l j"
  proof (cases "live s l v")
    case True
    have "\<not> live t l m" if "m < nr_buffers t" for m
      using cache_unique [OF ok, of m v RD_DEV l] True live_v [of l] live_j(1) [of m l] v that im
      by (auto simp: live_def)
    then have "contents t l j = rd_image s (1024 * unat l + j)" using contents_image im by metis
    moreover have "contents s l j = b_data (buffers s v) j" by (rule contents_live [OF ok v(1) True])
    moreover have "b_dirt (buffers s v) = 0" using v(2) by (simp add: recyclable_def)
    ultimately show ?thesis using co True v(1) j by (simp add: coherent_def)
  next
    case False
    then have "live t l m = live s l m" for m using live_v [of l] live_j(1) [of m l] by (cases "m = v") auto
    then have eq: "live t l = live s l" by auto
    show ?thesis
    proof (cases "List.find (live s l) [0..<nr_buffers s]")
      case None
      then show ?thesis by (simp add: contents_def eq im)
    next
      case (Some m)
      then have "m \<noteq> v" using False by (auto simp: find_Some_iff)
      with Some show ?thesis by (simp add: contents_def eq im live_j)
    qed
  qed
qed

lemma use_buffer_contents:
  "coherent (use_buffer i s) = coherent s" "contents (use_buffer i s) l j = contents s l j"
proof -
  have live: "live (use_buffer i s) = live s"
    by (auto simp: live_def use_buffer_def upd_buffer_def caches_def fun_eq_iff)
  have same: "nr_buffers (use_buffer i s) = nr_buffers s" "rd_image (use_buffer i s) = rd_image s"
    "b_data (buffers (use_buffer i s) m) = b_data (buffers s m)"
    "b_dirt (buffers (use_buffer i s) m) = b_dirt (buffers s m)" for m
    by (simp_all add: use_buffer_def upd_buffer_def)
  show "coherent (use_buffer i s) = coherent s" by (simp add: coherent_def live same)
  show "contents (use_buffer i s) l j = contents s l j" by (simp add: contents_def live same split: option.split)
qed

lemma no_wrap_255: "(c :: u8) < 255 \<Longrightarrow> 0 < c + 1"
  by (simp add: word_less_nat_alt unat_word_ariths)

lemma idle_frame: "cache_frame s t \<Longrightarrow> idle t = idle s"
  by (simp add: idle_def cache_frame_fields)

text \<open>\<open>bread\<close> once \<open>getblk\<close> has delivered the buffer \<open>i\<close>.\<close>

lemma bread_after_getblk:
  assumes g: "getblk RD_DEV k n s = Done i t" and fuel: "2 \<le> n"
    and t: "cache_ok t L F" "coherent t" "idle t" "i < nr_buffers t" "caches (buffers t i) RD_DEV k"
      "b_lock (buffers t i) = 0" "1024 * (unat k + 1) \<le> unat (rd_length t)"
  shows "\<exists>u. bread RD_DEV k n s = Done (Some i) u \<and> cache_ok u L F \<and> coherent u \<and> idle u \<and> live u k i \<and>
     nr_buffers u = nr_buffers t \<and> b_count (buffers u i) = b_count (buffers t i) \<and>
     (\<forall>l. \<forall>j<1024. contents u l j = contents t l j)"
proof (cases "b_uptodate (buffers t i) = 0")
  case True
  obtain u where u: "ll_rw_block READ i n t = Done () u" "cache_ok u L F" "coherent u" "idle u" "live u k i"
    "nr_buffers u = nr_buffers t" "b_lock (buffers u i) = 0" "b_count (buffers u i) = b_count (buffers t i)"
    "\<forall>l. \<forall>j<1024. contents u l j = contents t l j"
    using fill_buffer [OF t(1-3) fuel t(4-6) True t(7)] by blast
  have "bread RD_DEV k n s = Done (Some i) u"
    using u fuel by (simp add: bread_def bread_with_def kexec g True wait_on_buffer_exec live_def)
  with u show ?thesis by blast
next
  case False
  then have "bread RD_DEV k n s = Done (Some i) t" by (simp add: bread_def bread_with_def kexec g)
  with t False show ?thesis by (auto simp: live_def)
qed

text \<open>
  C12: The cache is transparent. \<open>bread\<close> of a block of the RAM disk, in a well-formed and
  coherent cache with a recyclable buffer and no transfer under way, returns a buffer in use
  that holds the block's current contents; whatever buffer is recycled for it, the contents of
  every block of the disk stay the same, and the cache stays well-formed and coherent.
\<close>

theorem bread_transparent:
  assumes ok: "cache_ok s L F" and co: "coherent s" and idle: "idle s"
    and fuel: "nr_buffers s < n" and two: "2 \<le> nr_buffers s"
    and free: "\<exists>i\<in>set F. recyclable (buffers s i)"
    and hit: "\<And>i. i < nr_buffers s \<Longrightarrow> caches (buffers s i) RD_DEV k \<Longrightarrow>
      b_lock (buffers s i) = 0 \<and> b_count (buffers s i) < 255"
    and disk: "1024 * (unat k + 1) \<le> unat (rd_length s)"
  shows "\<exists>i t L' F'. bread RD_DEV k n s = Done (Some i) t \<and> cache_ok t L' F' \<and> coherent t \<and> idle t \<and>
     live t k i \<and> 0 < b_count (buffers t i) \<and>
     (\<forall>j<1024. b_data (buffers t i) j = contents s k j) \<and> (\<forall>l. \<forall>j<1024. contents t l j = contents s l j)"
proof -
  have "\<exists>i t L' F'. getblk RD_DEV k n s = Done i t \<and> cache_ok t L' F' \<and> coherent t \<and> idle t \<and> i < nr_buffers t \<and>
     caches (buffers t i) RD_DEV k \<and> b_lock (buffers t i) = 0 \<and> rd_length t = rd_length s \<and>
     0 < b_count (buffers t i) \<and> (\<forall>l. \<forall>j<1024. contents t l j = contents s l j)"
  proof (cases "\<exists>i<nr_buffers s. caches (buffers s i) RD_DEV k")
    case True
    then obtain i where i: "i < nr_buffers s" "caches (buffers s i) RD_DEV k" by blast
    let ?t = "use_buffer i s"
    have "b_count (buffers ?t i) = b_count (buffers s i) + 1" "rd_length ?t = rd_length s"
      "nr_buffers ?t = nr_buffers s" "idle ?t = idle s"
      by (simp_all add: use_buffer_def upd_buffer_def idle_def)
    moreover have "0 < b_count (buffers s i) + 1" using hit [OF i] by (simp add: no_wrap_255)
    ultimately show ?thesis
      using getblk_hit [OF ok fuel i] hit [OF i] use_buffer_ok [OF ok, of i] use_buffer_contents [of i s] i co idle
      by (intro exI [of _ i] exI [of _ ?t] exI [of _ L] exI [of _ F])
        (auto simp: use_buffer_def upd_buffer_def caches_def)
  next
    case False
    obtain xs v ys where F: "F = xs @ v # ys" "\<forall>x\<in>set xs. \<not> recyclable (buffers s x)" "recyclable (buffers s v)"
      by (rule first_recyclable [OF free])
    have new: "\<not> caches (buffers s j) (ucast (0x101 :: u16)) k" if "j < nr_buffers s" for j using False that by simp
    obtain t L' where t: "getblk RD_DEV k n s = Done v t" "cache_ok t L' (remove1 v F @ [v])" "cache_frame s t"
      "strip (buffers t v) = strip ((buffers s v)\<lparr>b_count := 1, b_dirt := 0, b_uptodate := 0, b_dev := 0x101, b_blocknr := k\<rparr>)"
      "\<forall>j. j \<noteq> v \<longrightarrow> strip (buffers t j) = strip (buffers s j)"
      using getblk_miss [OF ok fuel two _ new F] by auto
    have v: "v < nr_buffers s" using ok F(1) by (auto simp: cache_ok_def queues_def)
    have tv: "b_uptodate (buffers t v) = 0" "caches (buffers t v) RD_DEV k" "b_lock (buffers t v) = 0" "b_count (buffers t v) = 1"
      using strip_fields [OF t(4)] F(3) by (simp_all add: caches_def recyclable_def)
    show ?thesis
      using t evict_buffer [OF ok co v F(3) t(3) tv(1)] tv v cache_frame_fields [OF t(3)] idle idle_frame [OF t(3)]
      by (intro exI [of _ v] exI [of _ t] exI [of _ L'] exI [of _ "remove1 v F @ [v]"]) auto
  qed
  then obtain i t L' F' where t: "getblk RD_DEV k n s = Done i t" "cache_ok t L' F'" "coherent t" "idle t" "i < nr_buffers t"
     "caches (buffers t i) RD_DEV k" "b_lock (buffers t i) = 0" "rd_length t = rd_length s"
     "0 < b_count (buffers t i)" "\<forall>l. \<forall>j<1024. contents t l j = contents s l j" by blast
  obtain u where u: "bread RD_DEV k n s = Done (Some i) u" "cache_ok u L' F'" "coherent u" "idle u" "live u k i"
    "nr_buffers u = nr_buffers t" "b_count (buffers u i) = b_count (buffers t i)"
    "\<forall>l. \<forall>j<1024. contents u l j = contents t l j"
    using bread_after_getblk [OF t(1) _ t(2-7)] fuel two disk t(8) by auto
  have "b_data (buffers u i) j = contents s k j" if "j < 1024" for j
    using contents_live [OF u(2) _ u(5), of j] u(6,8) t(5,10) that by simp
  with u t show ?thesis by (intro exI [of _ i] exI [of _ u] exI [of _ L'] exI [of _ F']) auto
qed

section \<open>The cache at start\<close>

lemma buffer_layout_exec:
  assumes "unat b = unat h + 1060 * m + r" "r < 1060" "0x200000 \<le> unat h" "unat b \<le> 0x88000000" "m < k"
  shows "buffer_layout k h b = Some (map (\<lambda>i. b - 1024 * word_of_nat (Suc i)) [0..<m])"
  using assms
proof (induction m arbitrary: k h b)
  case 0
  have "unat (b - 1024) = unat b - 1024" "unat (h + 36) = unat h + 36"
    using "0.prems" by (simp_all add: unat_sub_if' unat_word_ariths)
  then have "\<not> h + 36 \<le> b - 1024" using "0.prems" by (simp add: word_le_nat_alt)
  then show ?case using "0.prems"(5) by (cases k) simp_all
next
  case (Suc m)
  obtain k' where k: "k = Suc k'" "m < k'" using Suc.prems(5) by (cases k) auto
  have u: "unat (b - 1024) = unat b - 1024" "unat (h + 36) = unat h + 36"
    using Suc.prems by (simp_all add: unat_sub_if' unat_word_ariths)
  then have le: "h + 36 \<le> b - 1024" using Suc.prems by (simp add: word_le_nat_alt)
  have "unat (b - 1024) \<noteq> 0x100000" using u Suc.prems by simp
  then have ne: "b - 1024 \<noteq> 0x100000" by auto
  have IH: "buffer_layout k' (h + 36) (b - 1024) = Some (map (\<lambda>i. b - 1024 - 1024 * word_of_nat (Suc i)) [0..<m])"
    by (rule Suc.IH) (use u Suc.prems k in simp_all)
  have "[0..<Suc m] = 0 # map Suc [0..<m]" by (simp add: map_Suc_upt upt_conv_Cons)
  then show ?case using le ne IH k by (simp add: algebra_simps Let_def comp_def del: upt_Suc)
qed

lemma init_ring:
  assumes "0 < m" and "\<And>i. i < m \<Longrightarrow> nx i = Some (if i = m - 1 then 0 else i + 1)"
    and "\<And>i. i < m \<Longrightarrow> pv i = Some (if i = 0 then m - 1 else i - 1)"
  shows "ring nx pv [0..<m]"
proof -
  have "links nx pv [a..<b]" if "b \<le> m" for a b
    using that
  proof (induction "b - a" arbitrary: a)
    case (Suc c)
    show ?case
    proof (cases "Suc a < b")
      case True
      then have "[a..<b] = a # Suc a # [Suc (Suc a)..<b]" "[Suc a..<b] = Suc a # [Suc (Suc a)..<b]"
        by (simp_all add: upt_conv_Cons)
      then show ?thesis using Suc.hyps(1) [of "Suc a"] Suc.hyps(2) Suc.prems True assms(2) [of a] assms(3) [of "Suc a"] by simp
    next
      case False
      then have "b = Suc a" using Suc.hyps(2) by simp
      then show ?thesis by simp
    qed
  qed simp
  then have "links nx pv [0..<m]" by simp
  moreover have up: "[0..<m] = [0..<m - 1] @ [m - 1]" using assms(1) by (cases m) simp_all
  ultimately have "links nx pv ([0..<m - 1] @ [m - 1, 0])"
    unfolding links_last using assms(1) assms(2) [of "m - 1"] assms(3) [of 0] by simp
  moreover have "hd [0..<m] = 0" using assms(1) by simp
  ultimately have "links nx pv ([0..<m] @ [hd [0..<m]])" unfolding up by simp
  then show ?thesis using assms(1) by (simp add: ring_def)
qed

text \<open>
  \<open>buffer_init\<close> sets up a well-formed cache: with the buffer memory above the kernel it ends,
  cuts the memory into as many pairs of a 36-byte head and a 1024-byte block as fit, without
  overlap (heads from the bottom, blocks from the top), and leaves every buffer unused and clean
  on the free list, in order, and every hash queue empty.
\<close>

definition fresh_cache :: "nat \<Rightarrow> kstate \<Rightarrow> kstate" where
  "fresh_cache m s = s\<lparr>buffers := (\<lambda>i. if i < m then init_head m i (buffers s i) else buffers s i),
     nr_buffers := m, free_list := 0, hash_table := (\<lambda>i. if i < NR_HASH then None else hash_table s i)\<rparr>"

lemma fresh_cache_ok:
  assumes "0 < m"
  shows "cache_ok (fresh_cache m s) (\<lambda>_. []) [0..<m]"
    "\<And>i. i < m \<Longrightarrow> recyclable (buffers (fresh_cache m s) i) \<and> b_uptodate (buffers (fresh_cache m s) i) = 0"
    "coherent (fresh_cache m s)"
proof -
  have nr: "nr_buffers (fresh_cache m s) = m" by (simp add: fresh_cache_def)
  have "ring (nf (fresh_cache m s)) (pf (fresh_cache m s)) [0..<m]"
    by (rule init_ring [OF assms]) (simp_all add: fresh_cache_def nf_def pf_def init_head_def)
  then have "queues (fresh_cache m s) {..<m} (\<lambda>_. []) [0..<m]"
    using assms by (auto simp: queues_def) (auto simp: fresh_cache_def init_head_def nh_def ph_def)
  then show "cache_ok (fresh_cache m s) (\<lambda>_. []) [0..<m]"
    unfolding cache_ok_def nr by (auto simp: caches_def) (auto simp: fresh_cache_def init_head_def)
  show "recyclable (buffers (fresh_cache m s) i) \<and> b_uptodate (buffers (fresh_cache m s) i) = 0" if "i < m" for i
    using that by (simp add: fresh_cache_def init_head_def recyclable_def)
  show "coherent (fresh_cache m s)" unfolding coherent_def nr live_def by (simp add: fresh_cache_def init_head_def)
qed

lemma buffer_init_exec:
  assumes "0x200000 \<le> unat start" "unat start + 1060 \<le> unat top_addr" "unat top_addr \<le> 0x88000000"
    and "nr_buffers s = 0" and "(unat top_addr - unat start) div 1060 < n"
  defines "m \<equiv> (unat top_addr - unat start) div 1060"
  shows "0 < m" "buffer_init start top_addr n s = Done () (fresh_cache m s)"
    "buffer_layout n start top_addr = Some (map (\<lambda>i. top_addr - 1024 * word_of_nat (Suc i)) [0..<m])"
    "unat start + 36 * m \<le> unat top_addr - 1024 * m"
proof -
  let ?r = "(unat top_addr - unat start) mod 1060"
  have eq: "unat top_addr = unat start + 1060 * m + ?r" unfolding m_def using assms(2) by simp
  show lay: "buffer_layout n start top_addr = Some (map (\<lambda>i. top_addr - 1024 * word_of_nat (Suc i)) [0..<m])"
    using buffer_layout_exec [OF eq _ assms(1,3), of n] assms(5) m_def by simp
  show m: "0 < m" using assms(2) unfolding m_def by (simp add: div_greater_zero_iff)
  have ne: "top_addr \<noteq> 0x100000" using assms(1,2) by auto
  obtain x xs where xs: "map (\<lambda>i. top_addr - 1024 * word_of_nat (Suc i)) [0..<m] = x # xs"
    using m by (cases "map (\<lambda>i. top_addr - 1024 * word_of_nat (Suc i)) [0..<m]") auto
  then have len: "m = Suc (length xs)" by (metis length_Cons length_map length_upt minus_nat.diff_0)
  then show "buffer_init start top_addr n s = Done () (fresh_cache m s)"
    unfolding buffer_init_def fresh_cache_def len using ne assms(4) lay unfolding xs by simp
  show "unat start + 36 * m \<le> unat top_addr - 1024 * m" using eq by simp
qed

text \<open>A small cache for the examples: three fresh buffers and a RAM disk of 64 blocks.\<close>

definition small_cache :: kstate where
  "small_cache = rd_init 0x80100000 0x80110000 (blk_dev_init (boot_state\<lparr>
     buffers := (\<lambda>i. if i < 3 then init_head 3 i zero_buffer else zero_buffer), nr_buffers := 3\<rparr>))"

lemma small_cache_simps:
  "buffers small_cache i = (if i < 3 then init_head 3 i zero_buffer else zero_buffer)" "nr_buffers small_cache = 3"
  "free_list small_cache = 0" "hash_table small_cache = (\<lambda>_. None)" "rd_length small_cache = 0x10000"
  by (simp_all add: small_cache_def rd_init_def blk_dev_init_def boot_state_def)

lemma small_cache_ok: "cache_ok small_cache (\<lambda>_. []) [0..<3]" "idle small_cache" "coherent small_cache"
proof -
  have "ring (nf small_cache) (pf small_cache) [0..<3]"
    by (rule init_ring) (simp_all add: nf_def pf_def small_cache_simps init_head_def)
  then have "queues small_cache {..<3} (\<lambda>_. []) [0..<3]"
    by (auto simp: queues_def) (auto simp: small_cache_simps init_head_def nh_def ph_def)
  then show "cache_ok small_cache (\<lambda>_. []) [0..<3]"
    by (auto simp: cache_ok_def small_cache_simps(2) caches_def) (auto simp: small_cache_simps init_head_def)
  show "idle small_cache"
    by (simp add: idle_def small_cache_def rd_init_def blk_dev_init_def boot_state_def word_sless_alt)
  show "coherent small_cache" by (simp add: coherent_def live_def small_cache_simps init_head_def)
qed

lemma small_cache_free: "caches (buffers small_cache i) dev k = False" "recyclable (buffers small_cache i)"
  by (simp_all add: caches_def recyclable_def small_cache_simps init_head_def zero_buffer_def)

theorem find_buffer_correct_witness: "find_buffer 0x101 5 4 small_cache = Done None small_cache"
  using find_buffer_correct [OF small_cache_ok(1), of 4 "0x101" 5]
  by (auto simp: small_cache_free) (simp_all add: small_cache_simps)

theorem getblk_correct_witness:
  "\<exists>t L'. getblk 0x101 5 4 small_cache = Done 0 t \<and> cache_ok t L' [1, 2, 0] \<and> caches (buffers t 0) 0x101 5"
proof -
  have "[0..<3 :: nat] = [0, 1, 2]" by (simp add: upt_rec)
  then show ?thesis
    using getblk_correct [OF small_cache_ok(1), of 4 "0x101" 5] small_cache_free(2) [of 0]
    by (auto simp: small_cache_free small_cache_simps(2))
qed

theorem bread_transparent_witness:
  "\<exists>i t. bread 0x101 5 4 small_cache = Done (Some i) t \<and> b_data (buffers t i) 7 = rd_image small_cache 5127"
proof -
  have "contents small_cache 5 7 = rd_image small_cache (1024 * unat (5 :: u32) + 7)"
    by (rule contents_image) (simp add: live_def small_cache_free)
  moreover have "\<exists>i\<in>set [0..<3]. recyclable (buffers small_cache i)" using small_cache_free(2) by (auto intro: exI [of _ 0])
  ultimately show ?thesis
    using bread_transparent [OF small_cache_ok(1,3,2), of 4 5] small_cache_simps(2,5)
    by (auto simp: small_cache_free)
qed

end
