(* ===== verification/Allocator.thy ===== *)
theory Allocator
  imports Memory
begin

text \<open>
  The contract of the page allocator (\<open>get_free_page\<close>, \<open>free_page\<close> of
  \<^verbatim>\<open>mm/memory.c\<close>) as a locale over reference counts, what its clients may rely on proved
  once inside it, and the interpretation on the allocator's model.
\<close>

section \<open>The contract\<close>

text \<open>\<open>repeatk k f\<close> runs \<open>f\<close> \<open>k\<close> times and collects the results.\<close>

primrec repeatk :: "nat \<Rightarrow> ('s, 'a) kern \<Rightarrow> ('s, 'a list) kern" where
  "repeatk 0 f = ret []"
| "repeatk (Suc k) f = bind f (\<lambda>a. bind (repeatk k f) (\<lambda>as. ret (a # as)))"

locale page_allocator =
  fixes alloc :: "('s, 'p) kern"
    and release :: "'p \<Rightarrow> ('s, unit) kern"
    and pages :: "'p set"
    and count :: "'s \<Rightarrow> 'p \<Rightarrow> nat"
    and failure :: 'p
  assumes finite_pages: "finite pages"
    and failure_no_page: "failure \<notin> pages"
    and alloc_free:
      "q \<in> pages \<Longrightarrow> count s q = 0 \<Longrightarrow>
       returns (alloc n s) (\<lambda>p t. p \<in> pages \<and> count s p = 0 \<and>
         (\<forall>q\<in>pages. count t q = (if q = p then 1 else count s q)))"
    and alloc_full:
      "(\<And>q. q \<in> pages \<Longrightarrow> count s q \<noteq> 0) \<Longrightarrow> alloc n s = Done failure s"
    and release_dec:
      "p \<in> pages \<Longrightarrow> 0 < count s p \<Longrightarrow>
       returns (release p n s) (\<lambda>_ t. \<forall>q\<in>pages. count t q = (if q = p then count s p - 1 else count s q))"
begin

definition free_pages :: "'s \<Rightarrow> 'p set" where
  "free_pages s = {p \<in> pages. count s p = 0}"

lemma finite_free_pages: "finite (free_pages s)"
  unfolding free_pages_def using finite_pages by simp

lemma alloc_many:
  "k \<le> card (free_pages s) \<Longrightarrow>
   returns (repeatk k alloc n s) (\<lambda>ps t. distinct ps \<and> length ps = k \<and> set ps \<subseteq> free_pages s \<and>
     (\<forall>q\<in>pages. count t q = (if q \<in> set ps then 1 else count s q)))"
proof (induction k arbitrary: s)
  case 0
  then show ?case by (simp add: kexec)
next
  case (Suc k)
  then obtain q where q: "q \<in> free_pages s" by (metis card.empty ex_in_conv not_less_eq_eq zero_le)
  then have "returns (alloc n s) (\<lambda>p t. p \<in> pages \<and> count s p = 0 \<and>
      (\<forall>q\<in>pages. count t q = (if q = p then 1 else count s q)))"
    unfolding free_pages_def by (intro alloc_free [of q]) auto
  then show ?case unfolding repeatk.simps bind_exec
  proof (rule returns_bindp, elim conjE)
    fix p t
    assume p: "p \<in> pages" "count s p = 0"
      and t: "\<forall>q\<in>pages. count t q = (if q = p then 1 else count s q)"
    then have free: "free_pages t = free_pages s - {p}" by (auto simp: free_pages_def split: if_splits)
    have "p \<in> free_pages s" using p by (simp add: free_pages_def)
    then have "k \<le> card (free_pages t)"
      using Suc.prems by (simp add: free card_Diff_singleton)
    from Suc.IH [OF this]
    show "returns (bindp (repeatk k alloc n t) (\<lambda>a s'. ret (p # a) n s'))
       (\<lambda>ps u. distinct ps \<and> length ps = Suc k \<and> set ps \<subseteq> free_pages s \<and>
          (\<forall>q\<in>pages. count u q = (if q \<in> set ps then 1 else count s q)))"
      by (rule returns_bindp) (use p t free in \<open>auto simp: kexec free_pages_def\<close>)
  qed
qed

lemma release_many:
  "distinct ps \<Longrightarrow> set ps \<subseteq> pages \<Longrightarrow> (\<And>p. p \<in> set ps \<Longrightarrow> 0 < count s p) \<Longrightarrow>
   returns (for_each ps release n s)
     (\<lambda>_ t. \<forall>q\<in>pages. count t q = (if q \<in> set ps then count s q - 1 else count s q))"
proof (induction ps arbitrary: s)
  case Nil
  then show ?case by (simp add: kexec)
next
  case (Cons p ps)
  have "returns (release p n s) (\<lambda>_ t. \<forall>q\<in>pages. count t q = (if q = p then count s p - 1 else count s q))"
    using Cons.prems by (intro release_dec) auto
  then show ?case unfolding for_each.simps seq_exec
  proof (rule returns_bindp)
    fix t
    assume t: "\<forall>q\<in>pages. count t q = (if q = p then count s p - 1 else count s q)"
    have "returns (for_each ps release n t)
       (\<lambda>_ u. \<forall>q\<in>pages. count u q = (if q \<in> set ps then count t q - 1 else count t q))"
      using Cons.prems t by (intro Cons.IH) auto
    then show "returns (for_each ps release n t)
       (\<lambda>_ u. \<forall>q\<in>pages. count u q = (if q \<in> set (p # ps) then count s q - 1 else count s q))"
      by (rule returns_mono) (use Cons.prems t in auto)
  qed
qed

lemma alloc_release:
  assumes "k \<le> card (free_pages s)"
  shows "returns (repeatk k alloc n s) (\<lambda>ps t. distinct ps \<and> length ps = k \<and> set ps \<subseteq> free_pages s \<and>
     (\<forall>qs. distinct qs \<and> set qs = set ps \<longrightarrow>
        returns (for_each qs release n t) (\<lambda>_ u. \<forall>q\<in>pages. count u q = count s q)))"
proof (rule returns_mono [OF alloc_many [OF assms]], elim conjE, intro conjI allI impI)
  fix ps t qs
  assume ps: "set ps \<subseteq> free_pages s" and q: "distinct qs \<and> set qs = set ps"
    and t: "\<forall>q\<in>pages. count t q = (if q \<in> set ps then 1 else count s q)"
  have "returns (for_each qs release n t)
     (\<lambda>_ u. \<forall>q\<in>pages. count u q = (if q \<in> set qs then count t q - 1 else count t q))"
    by (rule release_many) (use ps q t in \<open>auto simp: free_pages_def\<close>)
  then show "returns (for_each qs release n t) (\<lambda>_ u. \<forall>q\<in>pages. count u q = count s q)"
    by (rule returns_mono) (use ps q t in \<open>auto simp: free_pages_def\<close>)
qed

end

section \<open>The allocator of \<open>memory.c\<close>\<close>

definition frame_count :: "kstate \<Rightarrow> u32 \<Rightarrow> nat" where
  "frame_count s p = unat (mem_map s (MAP_NR p))"

lemma frames_image: "{p. is_frame p} = frame_addr ` {..<PAGING_PAGES}"
proof (intro equalityI subsetI)
  fix p assume "p \<in> {p. is_frame p}"
  then have "is_frame p" by simp
  then obtain i where "i < PAGING_PAGES" "p = frame_addr i" by (rule is_frame_cases)
  then show "p \<in> frame_addr ` {..<PAGING_PAGES}" by simp
qed (auto intro: is_frame_frame_addr)

lemma get_free_page_counts:
  assumes "is_frame q" "frame_count s q = 0"
  shows "returns (get_free_page n s) (\<lambda>p t. p \<in> {p. is_frame p} \<and> frame_count s p = 0 \<and>
     (\<forall>q\<in>{p. is_frame p}. frame_count t q = (if q = p then 1 else frame_count s q)))"
proof (rule get_free_page_cases [of n s], goal_cases)
  case 1
  with assms show ?thesis by (auto simp: frame_count_def unat_eq_zero dest: is_frame_MAP_NR)
next
  case (2 p t)
  note g = grabbed_simps [OF 2(2)]
  with 2(1) show ?thesis by (auto simp: frame_count_def dest: MAP_NR_inj)
qed

lemma get_free_page_full:
  assumes "\<And>q. is_frame q \<Longrightarrow> frame_count s q \<noteq> 0"
  shows "get_free_page n s = Done 0 s"
proof (rule get_free_page_cases [of n s], goal_cases)
  case (2 p t)
  with assms [of p] show ?thesis by (simp add: grabbed_def frame_count_def)
qed

lemma free_page_counts:
  assumes "is_frame p" "0 < frame_count s p"
  shows "returns (free_page p n s)
     (\<lambda>_ t. \<forall>q\<in>{p. is_frame p}. frame_count t q = (if q = p then frame_count s p - 1 else frame_count s q))"
proof -
  have nz: "mem_map s (MAP_NR p) \<noteq> 0" using assms(2) by (auto simp: frame_count_def)
  then have "unat (mem_map s (MAP_NR p) - 1) = unat (mem_map s (MAP_NR p)) - 1"
    by (simp add: unat_minus_one)
  with assms(1) nz show ?thesis
    by (auto simp: free_page_frame frame_count_def set_map_def dest: MAP_NR_inj)
qed

interpretation frames: page_allocator get_free_page free_page "{p. is_frame p}" frame_count 0
proof unfold_locales
  show "finite {p. is_frame p}" by (simp add: frames_image)
  show "0 \<notin> {p. is_frame p}" by (simp add: is_frame_def)
qed (rule get_free_page_counts get_free_page_full free_page_counts; simp)+

text \<open>
  C9: \<open>k\<close> calls of \<open>get_free_page\<close>, with \<open>k\<close> frames free, return \<open>k\<close> different frames of
  main memory that were free; giving them back with \<open>free_page\<close>, in any order, restores
  the reference count of every frame.
\<close>

theorem get_free_page_release:
  assumes "k \<le> card {p. is_frame p \<and> mem_map s (MAP_NR p) = 0}"
  shows "returns (repeatk k get_free_page n s)
     (\<lambda>ps t. distinct ps \<and> length ps = k \<and> (\<forall>p\<in>set ps. is_frame p \<and> mem_map s (MAP_NR p) = 0) \<and>
        (\<forall>qs. distinct qs \<and> set qs = set ps \<longrightarrow>
           returns (for_each qs free_page n t) (\<lambda>_ u. \<forall>f<PAGING_PAGES. mem_map u f = mem_map s f)))"
proof -
  have eq: "{p. is_frame p \<and> mem_map s (MAP_NR p) = 0} = frames.free_pages s"
    by (auto simp: frames.free_pages_def frame_count_def unat_eq_zero)
  have cnt: "\<forall>f<PAGING_PAGES. mem_map u f = mem_map s f"
    if "\<forall>q\<in>{p. is_frame p}. frame_count u q = frame_count s q" for u
  proof (intro allI impI)
    fix f :: nat assume f: "f < PAGING_PAGES"
    then show "mem_map u f = mem_map s f"
      using bspec [OF that, of "frame_addr f"]
      by (simp add: is_frame_frame_addr frame_count_def MAP_NR_frame_addr word_unat_eq_iff)
  qed
  have "k \<le> card (frames.free_pages s)" using assms eq by simp
  note this [THEN frames.alloc_release, of n]
  then show ?thesis
  proof (rule returns_mono, elim conjE, intro conjI allI impI ballI)
    fix ps t qs assume "\<forall>qs. distinct qs \<and> set qs = set ps \<longrightarrow>
        returns (for_each qs free_page n t) (\<lambda>_ u. \<forall>q\<in>{p. is_frame p}. frame_count u q = frame_count s q)"
      and "distinct qs \<and> set qs = set ps"
    then have "returns (for_each qs free_page n t)
        (\<lambda>_ u. \<forall>q\<in>{p. is_frame p}. frame_count u q = frame_count s q)" by blast
    then show "returns (for_each qs free_page n t) (\<lambda>_ u. \<forall>f<PAGING_PAGES. mem_map u f = mem_map s f)"
      by (rule returns_mono) (rule cnt)
  qed (auto simp: frames.free_pages_def frame_count_def unat_eq_zero)
qed

theorem get_free_page_release_witness:
  "returns (repeatk 2 get_free_page 0 boot_state)
     (\<lambda>ps t. distinct ps \<and> length ps = 2 \<and> (\<forall>p\<in>set ps. is_frame p \<and> mem_map boot_state (MAP_NR p) = 0) \<and>
        (\<forall>qs. distinct qs \<and> set qs = set ps \<longrightarrow>
           returns (for_each qs free_page 0 t) (\<lambda>_ u. \<forall>f<PAGING_PAGES. mem_map u f = mem_map boot_state f)))"
proof -
  have "frame_addr ` {0, 1} \<subseteq> {p. is_frame p \<and> mem_map boot_state (MAP_NR p) = 0}"
    by (auto simp: boot_state_def is_frame_frame_addr)
  then have "card (frame_addr ` {0, 1}) \<le> card {p. is_frame p \<and> mem_map boot_state (MAP_NR p) = 0}"
    by (intro card_mono finite_subset [OF _ frames.finite_pages]) auto
  moreover have "card (frame_addr ` {0, 1}) = 2" by (simp add: frame_addr_def)
  ultimately have "2 \<le> card {p. is_frame p \<and> mem_map boot_state (MAP_NR p) = 0}" by simp
  then show ?thesis by (rule get_free_page_release)
qed

end
