(* ===== verification/Start.thy ===== *)
theory Start
  imports Trap Cache Allocator
begin

text \<open>
  The start of the kernel, \<open>main\<close> of \<^verbatim>\<open>init/main.c\<close>: main memory is divided between the kernel,
  the buffer cache and the page allocator, the drivers are set up, the root is mounted and the
  first process is created. The addresses the linker provides (the end of the kernel, the
  ramdisk image, the function \<open>init\<close>) are parameters.
\<close>

section \<open>The start\<close>

definition PAGE_ALIGN :: "u32 \<Rightarrow> u32" where
  "PAGE_ALIGN n = (n + 0xfff) AND 0xfffff000"

text \<open>The end of the buffer memory; the comparison is one of signed numbers.\<close>

definition buffer_memory_end :: "u32 \<Rightarrow> u32" where
  "buffer_memory_end kernel_end =
     (let memory_end = RAM_END AND 0xfffff000;
          b = PAGE_ALIGN kernel_end + 1024 * 1024
      in if memory_end <s b then memory_end else b)"

definition main_setup :: "u32 \<Rightarrow> u32 \<Rightarrow> u32 \<Rightarrow> unit kernel" where
  "main_setup kernel_end img_start img_end =
     (let memory_end = RAM_END AND 0xfffff000;
          main_memory_start = buffer_memory_end kernel_end in
      seq (modify (\<lambda>s. s\<lparr>ROOT_DEV := 0x0101\<rparr>))
     (seq (modify uart_init)
     (seq (modify (rd_init img_start img_end))
     (seq (modify (mem_init main_memory_start memory_end))
     (seq (modify blk_dev_init)
     (seq (modify tty_init)
     (seq (modify (\<lambda>s. s\<lparr>startup_time := 0\<rparr>))
     (seq (modify sched_init)
          (buffer_init kernel_end (buffer_memory_end kernel_end))))))))))"

text \<open>
  After the setup, the root is mounted and \<open>init\<close> is started; task 0 then pauses for ever. Its
  \<open>pause()\<close> traps into \<open>sys_pause\<close>.
\<close>

definition idle_task :: "unit kernel" where
  "idle_task = loop (\<lambda>_. bind sys_pause (\<lambda>_. ret (Inl ()))) ()"

definition kernel_main :: "u32 \<Rightarrow> u32 \<Rightarrow> u32 \<Rightarrow> u32 \<Rightarrow> unit kernel \<Rightarrow> unit kernel" where
  "kernel_main kernel_end img_start img_end init keypress =
     seq (main_setup kernel_end img_start img_end)
    (seq (mount_root keypress)
    (bind (kernel_thread init) (\<lambda>_. idle_task)))"

section \<open>The division of main memory\<close>

lemma clear_map_exec: "clear_map a k m i = (if a \<le> i \<and> i < a + k then 0 else m i)"
  by (induction k arbitrary: a m) auto

lemma PAGE_ALIGN_unat:
  assumes "unat n + 4095 < 4294967296"
  shows "unat (PAGE_ALIGN n) = (unat n + 4095) div 4096 * 4096"
proof -
  have "unat (n + 0xfff) = unat n + 4095" using assms by (simp add: unat_word_ariths)
  moreover have "unat (w AND 0xfffff000) = unat w div 4096 * 4096" for w :: u32
  proof -
    have "w AND 0xfffff000 = push_bit 12 (drop_bit 12 w)"
      unfolding page_mask by (rule bit_word_eqI) (auto simp: bit_simps)
    moreover have "unat (push_bit 12 (drop_bit 12 w)) = unat w div 4096 * 4096"
    proof -
      have "unat w div 4096 * 4096 \<le> unat w" by simp
      moreover have "unat w < 4294967296" using unsigned_less [of w] by simp
      ultimately have "unat w div 4096 * 4096 < 4294967296" by linarith
      then show ?thesis by (simp add: push_bit_eq_mult unat_word_ariths unat_drop_bit_eq drop_bit_eq_div)
    qed
    ultimately show ?thesis by simp
  qed
  ultimately show ?thesis unfolding PAGE_ALIGN_def by simp
qed

lemma round_up:
  fixes x :: nat
  shows "x \<le> (x + 4095) div 4096 * 4096" "(x + 4095) div 4096 * 4096 \<le> x + 4095"
  using div_mult_mod_eq [of "x + 4095" 4096] mod_less_divisor [of 4096 "x + 4095"] by linarith+

text \<open>The buffer memory ends below the end of main memory when the kernel leaves room for it.\<close>

lemma buffer_memory_end_unat:
  assumes "0x80000000 \<le> unat kernel_end" "unat kernel_end + 0x101000 \<le> 0x88000000"
  shows "unat (buffer_memory_end kernel_end) = (unat kernel_end + 4095) div 4096 * 4096 + 0x100000"
proof -
  let ?a = "(unat kernel_end + 4095) div 4096 * 4096"
  have a: "unat (PAGE_ALIGN kernel_end) = ?a" by (rule PAGE_ALIGN_unat) (use assms(2) in simp)
  have bound: "?a + 0x100000 < 0x88000000" "0x80000000 \<le> ?a" using assms round_up [of "unat kernel_end"] by linarith+
  then have sum: "unat (PAGE_ALIGN kernel_end + 1024 * 1024) = ?a + 0x100000" using a by (simp add: unat_word_ariths)
  define b where "b = PAGE_ALIGN kernel_end + 1024 * 1024"
  have "uint b = int (unat b)" by simp
  also have "\<dots> = int (?a + 0x100000)" by (simp only: b_def sum)
  finally have "sint b < - 2013265920" using bound by (simp add: sint_u32)
  moreover have "sint (RAM_END AND 0xfffff000) = - 2013265920" by (simp add: sint_u32)
  ultimately have "\<not> RAM_END AND 0xfffff000 <s PAGE_ALIGN kernel_end + 1024 * 1024"
    unfolding b_def word_sless_alt by linarith
  then show ?thesis using sum by (simp add: buffer_memory_end_def Let_def)
qed

text \<open>\<open>mem_init\<close> from a frame to the end of memory leaves exactly the frames from there on free.\<close>

lemma mem_init_free:
  assumes "is_frame a" "is_frame p"
  shows "mem_map (mem_init a (RAM_END AND 0xfffff000) s) (MAP_NR p) = 0 \<longleftrightarrow> a \<le> p"
proof -
  obtain j where j: "a = frame_addr j" "j < PAGING_PAGES" using assms(1) by (rule is_frame_cases)
  obtain i where i: "p = frame_addr i" "i < PAGING_PAGES" using assms(2) by (rule is_frame_cases)
  have sub: "unat ((RAM_END AND 0xfffff000) - a) = 4096 * (PAGING_PAGES - j)"
    using j by (simp add: unat_sub word_le_nat_alt unat_frame_addr)
  then have "\<not> (RAM_END AND 0xfffff000) - a <s 0" using j(2) by (simp add: sless_0_iff)
  moreover have "unat (drop_bit 12 ((RAM_END AND 0xfffff000) - a)) = PAGING_PAGES - j"
    unfolding unat_drop_bit_eq sub by (simp add: drop_bit_eq_div)
  moreover have "unat (drop_bit 12 (a - RAM_BASE)) = j" using MAP_NR_frame_addr [OF j(2)] j(1) by (simp add: MAP_NR_def)
  moreover have "a \<le> p \<longleftrightarrow> j \<le> i" using i j by (simp add: word_le_nat_alt unat_frame_addr)
  moreover have "MAP_NR p = i" using MAP_NR_frame_addr [OF i(2)] i(1) by simp
  ultimately show ?thesis using i(2) j(2) by (simp add: mem_init_def clear_map_exec)
qed

text \<open>
  The whole setup: \<open>prepared\<close> is the state it hands to \<open>buffer_init\<close>, which adds the cache. The
  initial state carries the ramdisk image \<open>im\<close> that is linked into the kernel.
\<close>

definition prepared :: "u32 \<Rightarrow> u32 \<Rightarrow> u32 \<Rightarrow> (nat \<Rightarrow> u8) \<Rightarrow> kstate" where
  "prepared mtop img_start img_end im = sched_init ((tty_init (blk_dev_init (mem_init mtop (RAM_END AND 0xfffff000)
     (rd_init img_start img_end (uart_init (boot_state\<lparr>rd_image := im, ROOT_DEV := 0x0101\<rparr>))))))\<lparr>startup_time := 0\<rparr>)"

lemmas prepared_defs = prepared_def sched_init_def tty_init_def con_init_def uart_init_def outb_def blk_dev_init_def
  mem_init_def rd_init_def boot_state_def

lemma main_setup_exec:
  assumes k: "0x80000000 \<le> unat kernel_end" "unat kernel_end + 0x101000 \<le> 0x88000000" and n: "1000 \<le> n"
  defines "mtop \<equiv> buffer_memory_end kernel_end"
  defines "m \<equiv> (unat mtop - unat kernel_end) div 1060"
  shows "main_setup kernel_end img_start img_end n (boot_state\<lparr>rd_image := im\<rparr>) = Done () (fresh_cache m (prepared mtop img_start img_end im))"
    and "buffer_layout n kernel_end mtop = Some (map (\<lambda>i. mtop - 1024 * word_of_nat (Suc i)) [0..<m])"
    and "unat kernel_end + 36 * m \<le> unat mtop - 1024 * m" "989 \<le> m" "m < 1000" "is_frame mtop" "unat mtop \<le> 0x88000000"
      "unat kernel_end + 1060 \<le> unat mtop"
proof -
  let ?u = "prepared mtop img_start img_end im"
  have mtopu: "unat mtop = (unat kernel_end + 4095) div 4096 * 4096 + 0x100000"
    unfolding mtop_def by (rule buffer_memory_end_unat [OF k])
  have tp: "unat kernel_end + 1060 \<le> unat mtop" "unat mtop < 0x88000000" "unat mtop - unat kernel_end < 1060 * 1000"
      "1060 * 989 \<le> unat mtop - unat kernel_end"
    using mtopu k round_up [of "unat kernel_end"] by linarith+
  show m: "m < 1000" using tp(3) unfolding m_def by (simp add: less_mult_imp_div_less)
  show "989 \<le> m" using div_le_mono [OF tp(4), of 1060] unfolding m_def by simp
  have mn: "m < n" using m n by simp
  have s: "0x200000 \<le> unat kernel_end" using k(1) by simp
  have nr: "nr_buffers ?u = 0" by (simp add: prepared_defs)
  note bi = buffer_init_exec [OF s tp(1) less_imp_le [OF tp(2)] nr mn [unfolded m_def], folded m_def]
  show "main_setup kernel_end img_start img_end n (boot_state\<lparr>rd_image := im\<rparr>) = Done () (fresh_cache m ?u)"
    unfolding main_setup_def Let_def using bi(2) unfolding prepared_def mtop_def by (simp add: seq_exec modify_exec)
  show "buffer_layout n kernel_end mtop = Some (map (\<lambda>i. mtop - 1024 * word_of_nat (Suc i)) [0..<m])" by (rule bi(3))
  show "unat kernel_end + 36 * m \<le> unat mtop - 1024 * m" by (rule bi(4))
  have "4096 dvd unat mtop" unfolding mtopu by simp
  then show "is_frame mtop" using k(1) tp(1,2) by (simp add: is_frame_def page_aligned_unat word_le_nat_alt word_less_nat_alt)
  show "unat mtop \<le> 0x88000000" "unat kernel_end + 1060 \<le> unat mtop" using tp by simp_all
qed

lemma prepared_idle: "img_start \<le> img_end \<Longrightarrow> idle (fresh_cache m (prepared mtop img_start img_end im))"
  using unsigned_less [of img_end]
  by (simp add: idle_def fresh_cache_def prepared_defs word_sless_alt unat_sub word_le_nat_alt)

text \<open>
  C14: The start divides main memory without overlap. When the kernel ends at least 1 MB and a
  page below the end of memory, the setup runs to its end; the megabyte above the kernel holds
  the buffer cache, heads and blocks apart, which is well-formed, empty and agrees with the
  disk; the page allocator has exactly the frames above it free; the request queue is empty
  with the ramdisk attached as root device, and task 0 is the only task.
\<close>

theorem boot_layout:
  assumes k: "0x80000000 \<le> unat kernel_end" "unat kernel_end + 0x101000 \<le> 0x88000000"
    and img: "img_start \<le> img_end" and n: "1000 \<le> n"
  shows "\<exists>t ds. main_setup kernel_end img_start img_end n boot_state = Done () t \<and>
     (\<forall>p. is_frame p \<longrightarrow> (mem_map t (MAP_NR p) = 0 \<longleftrightarrow> buffer_memory_end kernel_end \<le> p)) \<and>
     buffer_layout n kernel_end (buffer_memory_end kernel_end) = Some ds \<and> length ds = nr_buffers t \<and>
     (\<forall>d\<in>set ds. unat kernel_end + 36 * nr_buffers t \<le> unat d \<and> unat d + 1024 \<le> unat (buffer_memory_end kernel_end)) \<and>
     cache_ok t (\<lambda>_. []) [0..<nr_buffers t] \<and> coherent t \<and> idle t \<and> ROOT_DEV t = 0x101 \<and> (\<forall>i<NR_TASKS. task_used t i \<longleftrightarrow> i = 0)"
proof -
  define mtop where "mtop = buffer_memory_end kernel_end"
  define m where "m = (unat mtop - unat kernel_end) div 1060"
  define u where "u = prepared mtop img_start img_end (rd_image boot_state)"
  note ms = main_setup_exec [OF k n, folded mtop_def, folded m_def]
  have run: "main_setup kernel_end img_start img_end n boot_state = Done () (fresh_cache m u)"
    using ms(1) [of img_start img_end "rd_image boot_state"] by (simp add: u_def)
  have "idle (fresh_cache m u)" using prepared_idle [OF img] by (simp add: u_def)
  moreover have "mem_map (fresh_cache m u) (MAP_NR p) = 0 \<longleftrightarrow> mtop \<le> p" if "is_frame p" for p
    using mem_init_free [of mtop p] that ms(6)
    by (simp add: fresh_cache_def u_def prepared_def sched_init_def tty_init_def con_init_def uart_init_def outb_def blk_dev_init_def
        mem_init_def)
  moreover have "unat kernel_end + 36 * m \<le> unat (mtop - 1024 * word_of_nat (Suc i)) \<and>
      unat (mtop - 1024 * word_of_nat (Suc i)) + 1024 \<le> unat mtop" if "i < m" for i
  proof -
    have le: "1024 * (Suc i) \<le> 1024 * m" "1024 * m < unat mtop" "unat mtop < 4294967296" using that ms(3,7,8) k by simp_all
    then have "unat (1024 * word_of_nat (Suc i) :: u32) = 1024 * Suc i" by (simp add: unat_word_ariths unat_of_nat del: of_nat_Suc)
    then have "unat (mtop - 1024 * word_of_nat (Suc i)) = unat mtop - 1024 * Suc i"
      using le by (simp add: unat_sub word_le_nat_alt del: of_nat_Suc)
    moreover have "unat kernel_end + 36 * m \<le> unat mtop - 1024 * Suc i"
      using diff_le_mono2 [OF le(1), of "unat mtop"] ms(3) by (rule order_trans [rotated])
    moreover have "unat mtop - 1024 * Suc i + 1024 \<le> unat mtop" using le by simp
    ultimately show ?thesis by simp
  qed
  moreover have "nr_buffers (fresh_cache m u) = m" by (simp add: fresh_cache_def)
  moreover have "ROOT_DEV (fresh_cache m u) = 0x101" "\<forall>i<NR_TASKS. task_used (fresh_cache m u) i \<longleftrightarrow> i = 0"
    by (auto simp: fresh_cache_def u_def prepared_defs)
  moreover have "0 < m" using ms(4) by simp
  ultimately show ?thesis using run ms(2) fresh_cache_ok [where m = m and s = u] unfolding mtop_def [symmetric]
    by (intro exI [of _ "fresh_cache m u"] exI [of _ "map (\<lambda>i. mtop - 1024 * word_of_nat (Suc i)) [0..<m]"]) auto
qed

theorem boot_layout_witness:
  "\<exists>t. main_setup 0x80200000 0x80100000 0x80180000 1000 boot_state = Done () t \<and>
     mem_map t (MAP_NR 0x80300000) = 0 \<and> mem_map t (MAP_NR 0x802ff000) \<noteq> 0"
proof -
  have frames: "is_frame 0x80300000" "is_frame 0x802ff000" by (simp_all add: is_frame_def page_aligned_def)
  have "buffer_memory_end 0x80200000 = 0x80300000" by (simp add: buffer_memory_end_def PAGE_ALIGN_def word_sless_alt)
  then show ?thesis using boot_layout [where kernel_end = "0x80200000" and img_start = "0x80100000" and img_end = "0x80180000" and n = 1000] frames by force
qed

end
