(* ===== verification/Mkfs.thy ===== *)
theory Mkfs
  imports Blockdata
begin

text \<open>
  The program that builds the image of the root file system, \<^verbatim>\<open>tools/mkfs.c\<close>: the image is a
  byte array, the positions of its tables are those of the source after \<open>main\<close> has set
  \<open>first_data\<close> and \<open>nzones\<close>. The messages and the final write of the image are not modelled;
  a call of \<open>exit(1)\<close> or a return of 1 is an error value.
\<close>

section \<open>The image\<close>

record mkfs_state =
  img :: "nat \<Rightarrow> u8"
  next_zone :: nat
  next_inode :: nat

datatype mkfs_error = Usage | No_file | Bad_file | Out_of_zones | Out_of_inodes | Directory_full | Too_big

type_synonym 'a mkfs = "mkfs_state \<Rightarrow> mkfs_error + 'a \<times> mkfs_state"

abbreviation NINODES :: nat where "NINODES \<equiv> 96"
abbreviation IMAGE_BLOCKS :: nat where "IMAGE_BLOCKS \<equiv> 2048"
abbreviation inode_blocks :: nat where "inode_blocks \<equiv> (NINODES * 32 + 1024 - 1) div 1024"
abbreviation first_data :: nat where "first_data \<equiv> 2 + 1 + 1 + inode_blocks"
abbreviation nzones :: nat where "nzones \<equiv> IMAGE_BLOCKS - first_data"
abbreviation imap :: nat where "imap \<equiv> 2 * 1024"
abbreviation zmap :: nat where "zmap \<equiv> 3 * 1024"

definition inode_ptr :: "nat \<Rightarrow> nat" where
  "inode_ptr ino = 4 * 1024 + 32 * (ino - 1)"

definition bindm :: "'a mkfs \<Rightarrow> ('a \<Rightarrow> 'b mkfs) \<Rightarrow> 'b mkfs" where
  "bindm f g s = (case f s of Inl e \<Rightarrow> Inl e | Inr (a, t) \<Rightarrow> g a t)"

definition edit_img :: "((nat \<Rightarrow> u8) \<Rightarrow> nat \<Rightarrow> u8) \<Rightarrow> unit mkfs" where
  "edit_img f s = Inr ((), s\<lparr>img := f (img s)\<rparr>)"

text \<open>\<open>memset(p, 0, n)\<close> and \<open>memcpy(p, bs, length bs)\<close>.\<close>

definition clear :: "nat \<Rightarrow> nat \<Rightarrow> (nat \<Rightarrow> u8) \<Rightarrow> nat \<Rightarrow> u8" where
  "clear a n d = (\<lambda>i. if a \<le> i \<and> i < a + n then 0 else d i)"

definition copy_to :: "nat \<Rightarrow> u8 list \<Rightarrow> (nat \<Rightarrow> u8) \<Rightarrow> nat \<Rightarrow> u8" where
  "copy_to a bs d = (\<lambda>i. if a \<le> i \<and> i < a + length bs then bs ! (i - a) else d i)"

definition mark_bit :: "nat \<Rightarrow> nat \<Rightarrow> (nat \<Rightarrow> u8) \<Rightarrow> nat \<Rightarrow> u8" where
  "mark_bit m nr d = d(m + nr div 8 := d (m + nr div 8) OR push_bit (nr mod 8) 1)"

definition alloc_zone :: "nat mkfs" where
  "alloc_zone s =
     (let z = next_zone s in
      if nzones < z then Inl Out_of_zones
      else Inr (z, s\<lparr>next_zone := z + 1, img := mark_bit zmap z (img s)\<rparr>))"

definition alloc_inode :: "nat mkfs" where
  "alloc_inode s =
     (let i = next_inode s in
      if NINODES < i then Inl Out_of_inodes
      else Inr (i, s\<lparr>next_inode := i + 1, img := mark_bit imap i (img s)\<rparr>))"

definition zone_ptr :: "nat \<Rightarrow> nat" where
  "zone_ptr z = (first_data + z - 1) * 1024"

definition block_ptr :: "nat \<Rightarrow> nat" where
  "block_ptr b = b * 1024"

section \<open>Directories, files and devices\<close>

text \<open>The places of the entries of a directory, in the order of the search.\<close>

definition entry_places :: "(nat \<Rightarrow> u8) \<Rightarrow> nat \<Rightarrow> nat list" where
  "entry_places d dir =
     concat (map (\<lambda>z. map (\<lambda>k. block_ptr (unat z) + 16 * k) [0..<64])
       (takeWhile (\<lambda>z. z \<noteq> 0) (map (\<lambda>i. get16 d (dir + 14 + 2 * i)) [0..<7])))"

definition add_dir_entry :: "nat \<Rightarrow> nat \<Rightarrow> u8 list \<Rightarrow> unit mkfs" where
  "add_dir_entry dir ino name s =
     (case List.find (\<lambda>a. get16 (img s) a = 0) (entry_places (img s) dir) of
        None \<Rightarrow> Inl Directory_full
      | Some a \<Rightarrow>
          edit_img (\<lambda>d.
            let d = put16 a (word_of_nat ino) d;
                d = clear (a + 2) 14 d;
                d = copy_to (a + 2) (take 14 name @ replicate (14 - length name) 0) d
            in put32 (dir + 4) (get32 d (dir + 4) + 16) d) s)"

definition add_dir :: "nat \<Rightarrow> nat mkfs" where
  "add_dir parent_ino =
     bindm alloc_inode (\<lambda>ino.
     bindm alloc_zone (\<lambda>z.
     let a = inode_ptr ino; b = first_data + z - 1 in
     bindm (edit_img (\<lambda>d.
       let d = clear a 32 d;
           d = put16 a 0x41ed d;
           d = put16 (a + 2) 0 d;
           d = d(a + 12 := 0);
           d = d(a + 13 := 2);
           d = put16 (a + 14) (word_of_nat b) d;
           d = put32 (a + 4) 32 d;
           d = clear (block_ptr b) 1024 d;
           d = put16 (block_ptr b) (word_of_nat ino) d;
           d = copy_to (block_ptr b + 2) [46, 0] d;
           d = put16 (block_ptr b + 16) (word_of_nat parent_ino) d
       in copy_to (block_ptr b + 18) [46, 46, 0] d)) (\<lambda>_ s.
     Inr (ino, s))))"

text \<open>
  The loop of \<open>add_file\<close> over the blocks \<open>ks\<close> of the file. It stores the block numbers from
  \<open>i_zone[0]\<close> on without a bound, as the source does; the size is checked after the loop.
\<close>

primrec store_blocks :: "nat \<Rightarrow> u8 list \<Rightarrow> nat list \<Rightarrow> unit mkfs" where
  "store_blocks a data [] = (\<lambda>s. Inr ((), s))"
| "store_blocks a data (k # ks) =
     bindm alloc_zone (\<lambda>z.
     bindm (edit_img (\<lambda>d.
       put16 (a + 14 + 2 * k) (word_of_nat (first_data + z - 1))
         (copy_to (zone_ptr z) (take 1024 (drop (1024 * k) data)) d))) (\<lambda>_.
     store_blocks a data ks))"

definition add_file :: "u16 \<Rightarrow> u8 list \<Rightarrow> nat mkfs" where
  "add_file mode data =
     bindm alloc_inode (\<lambda>ino.
     let a = inode_ptr ino in
     bindm (edit_img (\<lambda>d.
       let d = clear a 32 d;
           d = put16 a mode d;
           d = put16 (a + 2) 0 d;
           d = d(a + 12 := 0);
           d = put32 (a + 4) (word_of_nat (length data)) d
       in d(a + 13 := 1))) (\<lambda>_.
     bindm (store_blocks a data [0..<(length data + 1023) div 1024]) (\<lambda>_ s.
     if 7 * 1024 < length data then Inl Too_big else Inr (ino, s))))"

definition add_dev :: "u16 \<Rightarrow> nat mkfs" where
  "add_dev dev =
     bindm alloc_inode (\<lambda>ino.
     let a = inode_ptr ino in
     bindm (edit_img (\<lambda>d.
       let d = clear a 32 d;
           d = put16 a 0x21b6 d;
           d = put16 (a + 2) 0 d;
           d = d(a + 12 := 0);
           d = d(a + 13 := 1)
       in put16 (a + 14) dev d)) (\<lambda>_ s.
     Inr (ino, s)))"

section \<open>The program\<close>

text \<open>
  The name a file gets in \<open>/bin\<close>: the part of its path after the last slash, which must have
  the extension \<open>.elf\<close> after its last dot and at most 14 characters before it.
\<close>

definition base_name :: "u8 list \<Rightarrow> u8 list" where
  "base_name path = rev (takeWhile (\<lambda>c. c \<noteq> 47) (rev path))"

definition program_name :: "u8 list \<Rightarrow> u8 list option" where
  "program_name path =
     (let base = base_name path;
          ext = takeWhile (\<lambda>c. c \<noteq> 46) (rev base);
          name = take (length base - length ext - 1) base in
      if 46 \<notin> set base \<or> rev ext \<noteq> [101, 108, 102] \<or> 14 < length name then None else Some name)"

text \<open>A file given is its path and its contents, \<open>None\<close> when it cannot be read.\<close>

definition add_program :: "nat \<Rightarrow> u8 list \<times> u8 list option \<Rightarrow> unit mkfs" where
  "add_program bin f =
     (case f of (path, contents) \<Rightarrow>
      case contents of
        None \<Rightarrow> (\<lambda>s. Inl No_file)
      | Some data \<Rightarrow>
          (case program_name path of
             None \<Rightarrow> (\<lambda>s. Inl Bad_file)
           | Some name \<Rightarrow>
               bindm (add_file 0x81ed data) (\<lambda>f_ino. add_dir_entry (inode_ptr bin) f_ino name)))"

primrec add_programs :: "nat \<Rightarrow> (u8 list \<times> u8 list option) list \<Rightarrow> unit mkfs" where
  "add_programs bin [] = (\<lambda>s. Inr ((), s))"
| "add_programs bin (f # fs) = bindm (add_program bin f) (\<lambda>_. add_programs bin fs)"

definition fill_super :: "(nat \<Rightarrow> u8) \<Rightarrow> nat \<Rightarrow> u8" where
  "fill_super d =
     (let d = put16 1024 (word_of_nat NINODES) d;
          d = put16 1026 (word_of_nat nzones) d;
          d = put16 1028 1 d;
          d = put16 1030 1 d;
          d = put16 1032 (word_of_nat first_data) d;
          d = put16 1034 0 d;
          d = put32 1036 (7 * 1024 + 512 * 1024 + 512 * 512 * 1024) d
      in put16 1040 SUPER_MAGIC d)"

definition mkfs_main :: "(u8 list \<times> u8 list option) list \<Rightarrow> mkfs_error + (nat \<Rightarrow> u8)" where
  "mkfs_main files =
     (if length files < 2 then Inl Usage
      else
        case
          bindm (add_dir 1) (\<lambda>root.
          bindm (add_dir root) (\<lambda>bin.
          bindm (add_dir root) (\<lambda>dev.
          bindm (add_dir_entry (inode_ptr root) bin [98, 105, 110]) (\<lambda>_.
          bindm (add_dir_entry (inode_ptr root) dev [100, 101, 118]) (\<lambda>_.
          bindm (add_programs bin files) (\<lambda>_.
          bindm (add_dev 0x0400) (\<lambda>tty_ino.
          add_dir_entry (inode_ptr dev) tty_ino [116, 116, 121, 48])))))))
          \<lparr>img = fill_super (\<lambda>_. 0), next_zone = 1, next_inode = 1\<rparr>
        of Inl e \<Rightarrow> Inl e | Inr (_, s) \<Rightarrow> Inr (img s))"

end
