(* ===== verification/Rootfs.thy ===== *)
theory Rootfs
  imports Mkfs
begin

text \<open>
  The image that \<^verbatim>\<open>tools/mkfs.c\<close> builds, read with the structures of the kernel: every program
  is found in \<open>/bin\<close> under its name, with its contents, and the two bitmaps mark exactly what
  is in use.
\<close>

section \<open>What the kernel reads\<close>

definition kblock :: "(nat \<Rightarrow> u8) \<Rightarrow> nat \<Rightarrow> block" where
  "kblock d b = (\<lambda>j. d (1024 * b + j))"

definition marked :: "(nat \<Rightarrow> u8) \<Rightarrow> nat \<Rightarrow> nat \<Rightarrow> bool" where
  "marked d b nr \<longleftrightarrow> bit (kblock d b (nr div 8)) (nr mod 8)"

definition kinode :: "(nat \<Rightarrow> u8) \<Rightarrow> nat \<Rightarrow> d_inode" where
  "kinode d ino = get_d_inode (kblock d (4 + (ino - 1) div 32)) ((ino - 1) mod 32)"

definition kentry :: "(nat \<Rightarrow> u8) \<Rightarrow> nat \<Rightarrow> nat \<Rightarrow> dir_entry" where
  "kentry d b k = get_dir_entry (kblock d b) k"

lemma get16_kblock: "get16 (kblock d b) a = get16 d (1024 * b + a)"
  by (simp add: get16_def kblock_def add.assoc)

lemma get32_kblock: "get32 (kblock d b) a = get32 d (1024 * b + a)"
  by (simp add: get32_def get16_kblock add.assoc)

lemma kblock_at: "kblock d b j = d (1024 * b + j)"
  by (simp add: kblock_def)

lemma slot_place: "1024 * (4 + (ino - 1) div 32) + (32 * ((ino - 1) mod 32) + i) = inode_ptr ino + i"
proof -
  have gen: "1024 * (4 + q) + (32 * r + i) = 4 * 1024 + 32 * x + i" if "32 * q + r = x" for q r x :: nat using that by (auto simp: algebra_simps)
  show ?thesis unfolding inode_ptr_def by (rule gen) (rule mult_div_mod_eq)
qed

lemma kinode_eq:
  "kinode d ino = \<lparr>d_mode = get16 d (inode_ptr ino), d_uid = get16 d (inode_ptr ino + 2),
     d_size = get32 d (inode_ptr ino + 4), d_time = get32 d (inode_ptr ino + 8),
     d_gid = d (inode_ptr ino + 12), d_nlinks = d (inode_ptr ino + 13),
     d_zone = (\<lambda>i. if i < 9 then get16 d (inode_ptr ino + 14 + 2 * i) else 0)\<rparr>"
  using slot_place [of ino 0] slot_place [of ino]
  by (simp only: kinode_def get_d_inode_def get16_kblock get32_kblock kblock_at add.assoc add_0_right)

lemma kentry_eq:
  "kentry d b k = \<lparr>de_inode = get16 d (1024 * b + 16 * k),
     de_name = (\<lambda>i. if i < 14 then d (1024 * b + 16 * k + 2 + i) else 0)\<rparr>"
  by (simp only: kentry_def get_dir_entry_def get16_kblock kblock_at add.assoc)

section \<open>Bytes that stay\<close>

lemma get16_cong: "d a = e a \<Longrightarrow> d (a + 1) = e (a + 1) \<Longrightarrow> get16 d a = get16 e a"
  by (simp add: get16_def)

lemma get32_cong: "(\<And>i. i < 4 \<Longrightarrow> d (a + i) = e (a + i)) \<Longrightarrow> get32 d a = get32 e a"
proof -
  assume "\<And>i. i < 4 \<Longrightarrow> d (a + i) = e (a + i)"
  from this [of 0] this [of 1] this [of 2] this [of 3] show ?thesis by (simp add: get32_def get16_def eval_nat_numeral)
qed

lemma kinode_cong:
  assumes "\<And>i. i < 32 \<Longrightarrow> d (inode_ptr ino + i) = e (inode_ptr ino + i)"
  shows "kinode d ino = kinode e ino"
proof -
  have g16: "get16 d (inode_ptr ino + i) = get16 e (inode_ptr ino + i)" if "i < 31" for i
    using that assms [of i] assms [of "i + 1"] by (intro get16_cong) (simp_all add: add.assoc)
  have g32: "get32 d (inode_ptr ino + i) = get32 e (inode_ptr ino + i)" if "i < 29" for i
    using that assms by (intro get32_cong) (simp add: add.assoc)
  show ?thesis
    using g16 [of 0] g16 [of 2] g32 [of 4] g32 [of 8] assms [of 12] assms [of 13] g16 [of "14 + 2 * _"]
    by (simp add: kinode_eq fun_eq_iff add.assoc)
qed

lemma kentry_cong:
  assumes "\<And>i. i < 16 \<Longrightarrow> d (1024 * b + 16 * k + i) = e (1024 * b + 16 * k + i)"
  shows "kentry d b k = kentry e b k"
proof -
  have "get16 d (1024 * b + 16 * k) = get16 e (1024 * b + 16 * k)"
    using assms [of 0] assms [of 1] by (intro get16_cong) simp_all
  then show ?thesis using assms [of "2 + _"] by (simp add: kentry_eq fun_eq_iff add.assoc)
qed

lemma marked_cong: "(\<And>j. j < 1024 \<Longrightarrow> d (1024 * b + j) = e (1024 * b + j)) \<Longrightarrow> nr < 8192 \<Longrightarrow> marked d b nr = marked e b nr"
  by (simp add: marked_def kblock_def less_mult_imp_div_less)

lemma clear_simps: "i < a \<or> a + n \<le> i \<Longrightarrow> clear a n d i = d i" "a \<le> i \<Longrightarrow> i < a + n \<Longrightarrow> clear a n d i = 0"
  by (auto simp: clear_def)

lemma copy_to_simps:
  "i < a \<or> a + length bs \<le> i \<Longrightarrow> copy_to a bs d i = d i"
  "i < length bs \<Longrightarrow> copy_to a bs d (a + i) = bs ! i"
  by (auto simp: copy_to_def)

lemma mark_bit_other: "i \<noteq> m + nr div 8 \<Longrightarrow> mark_bit m nr d i = d i"
  by (simp add: mark_bit_def)

lemma marked_mark_bit: "marked (mark_bit (1024 * b) nr d) b nr' \<longleftrightarrow> nr' = nr \<or> marked d b nr'"
proof (cases "nr' div 8 = nr div 8")
  case True
  have "nr' mod 8 = nr mod 8 \<longleftrightarrow> nr' = nr" using True div_mult_mod_eq [of nr' 8] div_mult_mod_eq [of nr 8] by metis
  then show ?thesis using True by (auto simp: marked_def kblock_def mark_bit_def bit_simps bit_1_iff)
next
  case False
  then show ?thesis by (auto simp: marked_def kblock_def mark_bit_def)
qed

section \<open>The operations\<close>

lemma alloc_zone_exec:
  "next_zone s \<le> 2041 \<Longrightarrow>
   alloc_zone s = Inr (next_zone s, s\<lparr>next_zone := next_zone s + 1, img := mark_bit 3072 (next_zone s) (img s)\<rparr>)"
  by (simp add: alloc_zone_def Let_def)

lemma alloc_inode_exec:
  "next_inode s \<le> 96 \<Longrightarrow>
   alloc_inode s = Inr (next_inode s, s\<lparr>next_inode := next_inode s + 1, img := mark_bit 2048 (next_inode s) (img s)\<rparr>)"
  by (simp add: alloc_inode_def Let_def)

lemma bindm_exec: "bindm f g s = (case f s of Inl e \<Rightarrow> Inl e | Inr (a, t) \<Rightarrow> g a t)"
  by (simp add: bindm_def)

text \<open>One round of the loop of \<open>add_file\<close>: block \<open>k\<close> of the file goes to zone \<open>z\<close>.\<close>

definition block_stored :: "nat \<Rightarrow> u8 list \<Rightarrow> nat \<Rightarrow> nat \<Rightarrow> (nat \<Rightarrow> u8) \<Rightarrow> nat \<Rightarrow> u8" where
  "block_stored a data k z d =
     put16 (a + 14 + 2 * k) (word_of_nat (6 + z)) (copy_to (1024 * (6 + z)) (take 1024 (drop (1024 * k) data)) (mark_bit 3072 z d))"

lemma store_blocks_Cons:
  assumes "0 < next_zone s" "next_zone s \<le> 2041"
  shows "store_blocks a data (k # ks) s =
     store_blocks a data ks (s\<lparr>next_zone := next_zone s + 1, img := block_stored a data k (next_zone s) (img s)\<rparr>)"
proof -
  have "zone_ptr (next_zone s) = 1024 * (6 + next_zone s)" "first_data + next_zone s - 1 = 6 + next_zone s"
    using assms(1) by (simp_all add: zone_ptr_def)
  then show ?thesis using assms(2) by (simp add: bindm_exec alloc_zone_exec edit_img_def block_stored_def)
qed

lemma block_stored_facts:
  assumes "4096 \<le> a" "a + 14 + 2 * k + 2 \<le> 7168" "0 < z" "z \<le> 2041"
  shows "\<And>x. x \<notin> {3072..<4096} \<Longrightarrow> x \<noteq> a + 14 + 2 * k \<Longrightarrow> x \<noteq> a + 15 + 2 * k \<Longrightarrow> x < 1024 * (6 + z) \<Longrightarrow> block_stored a data k z d x = d x"
    and "get16 (block_stored a data k z d) (a + 14 + 2 * k) = word_of_nat (6 + z)"
    and "\<And>nr. nr < 8192 \<Longrightarrow> marked (block_stored a data k z d) 3 nr \<longleftrightarrow> nr = z \<or> marked d 3 nr"
    and "\<And>i. i < 1024 \<Longrightarrow> 1024 * k + i < length data \<Longrightarrow> block_stored a data k z d (1024 * (6 + z) + i) = data ! (1024 * k + i)"
proof -
  let ?e = "copy_to (1024 * (6 + z)) (take 1024 (drop (1024 * k) data)) (mark_bit 3072 z d)"
  have e: "?e x = mark_bit 3072 z d x" if "x < 1024 * (6 + z)" for x using that by (intro copy_to_simps) simp
  have z8: "3072 + z div 8 \<in> {3072..<4096}" using assms(4) by auto
  show "block_stored a data k z d x = d x"
    if "x \<notin> {3072..<4096}" "x \<noteq> a + 14 + 2 * k" "x \<noteq> a + 15 + 2 * k" "x < 1024 * (6 + z)" for x
    using that e [of x] z8 mark_bit_other [of x 3072 z d] by (auto simp: block_stored_def)
  show "get16 (block_stored a data k z d) (a + 14 + 2 * k) = word_of_nat (6 + z)" unfolding block_stored_def by (rule get16_put16)
  show "marked (block_stored a data k z d) 3 nr \<longleftrightarrow> nr = z \<or> marked d 3 nr" if "nr < 8192" for nr
  proof -
    have "marked (block_stored a data k z d) 3 nr = marked (mark_bit 3072 z d) 3 nr"
      by (rule marked_cong [OF _ that]) (use assms e in \<open>simp add: block_stored_def\<close>)
    then show ?thesis using marked_mark_bit [of 3 z d nr] by simp
  qed
  show "block_stored a data k z d (1024 * (6 + z) + i) = data ! (1024 * k + i)" if "i < 1024" "1024 * k + i < length data" for i
  proof -
    have "block_stored a data k z d (1024 * (6 + z) + i) = ?e (1024 * (6 + z) + i)" using assms unfolding block_stored_def by (intro put16_other) simp_all
    also have "\<dots> = data ! (1024 * k + i)" using that by (subst copy_to_simps(2)) simp_all
    finally show ?thesis .
  qed
qed

text \<open>
  \<open>stored a data z k m e d\<close>: image \<open>d\<close> is image \<open>e\<close> with the blocks from \<open>k\<close> to \<open>m\<close> of a file in
  the zones from \<open>z + k\<close> on.
\<close>

definition stored :: "nat \<Rightarrow> u8 list \<Rightarrow> nat \<Rightarrow> nat \<Rightarrow> nat \<Rightarrow> (nat \<Rightarrow> u8) \<Rightarrow> (nat \<Rightarrow> u8) \<Rightarrow> bool" where
  "stored a data z k m e d \<longleftrightarrow>
     (\<forall>x. x \<notin> {3072..<4096} \<and> x \<notin> {a + 14 + 2 * k..<a + 14 + 2 * m} \<and> x < 1024 * (6 + z + k) \<longrightarrow> d x = e x) \<and>
     (\<forall>j\<in>{k..<m}. get16 d (a + 14 + 2 * j) = word_of_nat (6 + z + j)) \<and>
     (\<forall>nr<8192. marked d 3 nr \<longleftrightarrow> marked e 3 nr \<or> nr \<in> {z + k..<z + m}) \<and>
     (\<forall>i<length data. 1024 * k \<le> i \<longrightarrow> d (1024 * (6 + z) + i) = data ! i)"

lemma storedD:
  assumes "stored a data z k m e d"
  shows "x \<notin> {3072..<4096} \<Longrightarrow> x \<notin> {a + 14 + 2 * k..<a + 14 + 2 * m} \<Longrightarrow> x < 1024 * (6 + z + k) \<Longrightarrow> d x = e x"
    and "j \<in> {k..<m} \<Longrightarrow> get16 d (a + 14 + 2 * j) = word_of_nat (6 + z + j)"
    and "nr < 8192 \<Longrightarrow> marked d 3 nr \<longleftrightarrow> marked e 3 nr \<or> nr \<in> {z + k..<z + m}"
    and "i < length data \<Longrightarrow> 1024 * k \<le> i \<Longrightarrow> d (1024 * (6 + z) + i) = data ! i"
  using assms unfolding stored_def by blast+

lemma stored_Suc:
  assumes "k < m" "0 < z" "z + m \<le> 2042" "4096 \<le> a" "a + 14 + 2 * m \<le> 7168"
    and "stored a data z (Suc k) m (block_stored a data k (z + k) e) d"
  shows "stored a data z k m e d"
proof -
  let ?b = "block_stored a data k (z + k) e"
  have "a + 14 + 2 * k + 2 \<le> 7168" "0 < z + k" "z + k \<le> 2041" using assms by simp_all
  note F = block_stored_facts [OF assms(4) this, where data = data and d = e]
  note D = storedD [OF assms(6)]
  have "d x = e x" if "x \<notin> {3072..<4096}" "x \<notin> {a + 14 + 2 * k..<a + 14 + 2 * m}" "x < 1024 * (6 + z + k)" for x
  proof -
    have "x \<noteq> a + 14 + 2 * k" "x \<noteq> a + 15 + 2 * k" using that(2) assms(1) by auto
    then show ?thesis using that D(1) [of x] F(1) [of x] by (simp add: add.assoc)
  qed
  moreover have "get16 d (a + 14 + 2 * j) = word_of_nat (6 + z + j)" if "j \<in> {k..<m}" for j
  proof (cases "j = k")
    case True
    have "get16 d (a + 14 + 2 * k) = get16 ?b (a + 14 + 2 * k)"
      using assms by (intro get16_cong D(1)) auto
    then show ?thesis using True F(2) by (simp add: add.assoc)
  next
    case False
    then show ?thesis using that by (intro D(2)) simp
  qed
  moreover have "marked d 3 nr \<longleftrightarrow> marked e 3 nr \<or> nr \<in> {z + k..<z + m}" if "nr < 8192" for nr
    using D(3) [OF that] F(3) [OF that] assms(1) by auto
  moreover have "d (1024 * (6 + z) + i) = data ! i" if i: "i < length data" "1024 * k \<le> i" for i
  proof (cases "1024 * Suc k \<le> i")
    case False
    have "d (1024 * (6 + z) + i) = ?b (1024 * (6 + z) + i)" using False assms i by (intro D(1)) auto
    moreover have "1024 * (6 + z) + i = 1024 * (6 + (z + k)) + (i - 1024 * k)" using i(2) by simp
    moreover have "?b (1024 * (6 + (z + k)) + (i - 1024 * k)) = data ! i" using F(4) [of "i - 1024 * k"] i False by simp
    ultimately show ?thesis by metis
  qed (use D(4) i in blast)
  ultimately show ?thesis unfolding stored_def by blast
qed

lemma store_blocks_exec:
  assumes "k \<le> m" "next_zone s = z + k" "0 < z" "z + m \<le> 2042" "4096 \<le> a" "a + 14 + 2 * m \<le> 7168" "length data \<le> 1024 * m"
  shows "\<exists>d. store_blocks a data [k..<m] s = Inr ((), s\<lparr>next_zone := z + m, img := d\<rparr>) \<and> stored a data z k m (img s) d"
  using assms
proof (induction "m - k" arbitrary: k s)
  case 0
  then show ?case by (intro exI [of _ "img s"]) (auto simp: stored_def)
next
  case (Suc l)
  then have k: "k < m" by simp
  let ?t = "s\<lparr>next_zone := z + Suc k, img := block_stored a data k (z + k) (img s)\<rparr>"
  have run: "store_blocks a data [k..<m] s = store_blocks a data [Suc k..<m] ?t"
    using k Suc.prems store_blocks_Cons [of s a data k] by (simp add: upt_conv_Cons)
  have "\<exists>d. store_blocks a data [Suc k..<m] ?t = Inr ((), ?t\<lparr>next_zone := z + m, img := d\<rparr>) \<and> stored a data z (Suc k) m (img ?t) d"
    by (rule Suc.hyps(1)) (use k Suc.hyps(2) Suc.prems in simp_all)
  then obtain d where "store_blocks a data [Suc k..<m] ?t = Inr ((), ?t\<lparr>next_zone := z + m, img := d\<rparr>)"
    "stored a data z (Suc k) m (block_stored a data k (z + k) (img s)) d" by auto
  then show ?case using run stored_Suc [of k m z a data "img s" d] k Suc.prems by auto
qed

section \<open>Files\<close>

definition blocks :: "u8 list \<Rightarrow> nat" where
  "blocks data = (length data + 1023) div 1024"

lemma blocks_bounds: "length data \<le> 1024 * blocks data" "length data \<le> 7168 \<Longrightarrow> blocks data \<le> 7"
proof -
  show "length data \<le> 1024 * blocks data"
    unfolding blocks_def using div_mult_mod_eq [of "length data + 1023" 1024] mod_less_divisor [of 1024 "length data + 1023"] by linarith
  assume "length data \<le> 7168"
  then have "(length data + 1023) div 1024 \<le> (7168 + 1023) div 1024" by (intro div_le_mono) simp
  then show "blocks data \<le> 7" by (simp add: blocks_def)
qed

text \<open>The inode and the contents of a file in the zones from \<open>z\<close> on.\<close>

definition file_at :: "(nat \<Rightarrow> u8) \<Rightarrow> nat \<Rightarrow> u8 list \<Rightarrow> nat \<Rightarrow> bool" where
  "file_at d ino data z \<longleftrightarrow>
     kinode d ino = \<lparr>d_mode = 0x81ed, d_uid = 0, d_size = word_of_nat (length data), d_time = 0, d_gid = 0, d_nlinks = 1,
       d_zone = (\<lambda>i. if i < blocks data then word_of_nat (6 + z + i) else 0)\<rparr> \<and>
     (\<forall>i<length data. d (1024 * (6 + z) + i) = data ! i)"

definition file_header :: "nat \<Rightarrow> u8 list \<Rightarrow> (nat \<Rightarrow> u8) \<Rightarrow> nat \<Rightarrow> u8" where
  "file_header a data d =
     (put32 (a + 4) (word_of_nat (length data)) ((put16 (a + 2) 0 (put16 a 0x81ed (clear a 32 d)))(a + 12 := 0)))(a + 13 := 1)"

lemma get_clear: "a \<le> i \<Longrightarrow> i + 2 \<le> a + n \<Longrightarrow> get16 (clear a n d) i = 0" "a \<le> i \<Longrightarrow> i + 4 \<le> a + n \<Longrightarrow> get32 (clear a n d) i = 0"
  by (simp_all add: get16_def get32_def clear_def)

lemma file_header_facts:
  "x < a \<or> a + 32 \<le> x \<Longrightarrow> file_header a data d x = d x"
  "get16 (file_header a data d) a = 0x81ed" "get16 (file_header a data d) (a + 2) = 0"
  "get32 (file_header a data d) (a + 4) = word_of_nat (length data)" "get32 (file_header a data d) (a + 8) = 0"
  "file_header a data d (a + 12) = 0" "file_header a data d (a + 13) = 1"
  "i < 9 \<Longrightarrow> get16 (file_header a data d) (a + 14 + 2 * i) = 0"
  by (auto simp: file_header_def clear_simps get_clear)

lemma inode_ptr_bounds: "1 \<le> ino \<Longrightarrow> ino \<le> 96 \<Longrightarrow> 4096 \<le> inode_ptr ino \<and> inode_ptr ino + 32 \<le> 7168"
  by (simp add: inode_ptr_def)

lemma add_file_exec:
  assumes "1 \<le> next_inode s" "next_inode s \<le> 96" "0 < next_zone s" "next_zone s + blocks data \<le> 2042" "length data \<le> 7168"
  shows "\<exists>d. add_file 0x81ed data s = Inr (next_inode s, \<lparr>img = d, next_zone = next_zone s + blocks data, next_inode = next_inode s + 1\<rparr>) \<and>
     file_at d (next_inode s) data (next_zone s) \<and>
     (\<forall>x. x \<notin> {2048..<4096} \<and> x \<notin> {inode_ptr (next_inode s)..<inode_ptr (next_inode s) + 32} \<and> x < 1024 * (6 + next_zone s) \<longrightarrow> d x = img s x) \<and>
     (\<forall>nr<8192. marked d 2 nr \<longleftrightarrow> nr = next_inode s \<or> marked (img s) 2 nr) \<and>
     (\<forall>nr<8192. marked d 3 nr \<longleftrightarrow> marked (img s) 3 nr \<or> nr \<in> {next_zone s..<next_zone s + blocks data})"
proof -
  define ino z a m where "ino = next_inode s" and "z = next_zone s" and "a = inode_ptr ino" and "m = blocks data"
  define b where "b = mark_bit 2048 ino (img s)"
  define e where "e = file_header a data b"
  let ?t = "s\<lparr>next_inode := ino + 1, img := e\<rparr>"
  have a: "4096 \<le> a" "a + 32 \<le> 7168" using inode_ptr_bounds [of ino] assms by (simp_all add: a_def ino_def)
  have m: "m \<le> 7" "length data \<le> 1024 * m" using blocks_bounds assms(5) by (simp_all add: m_def)
  have "\<exists>d. store_blocks a data [0..<m] ?t = Inr ((), ?t\<lparr>next_zone := z + m, img := d\<rparr>) \<and> stored a data z 0 m (img ?t) d"
    by (rule store_blocks_exec) (use assms a m in \<open>simp_all add: z_def m_def\<close>)
  then obtain d where d: "store_blocks a data [0..<m] ?t = Inr ((), ?t\<lparr>next_zone := z + m, img := d\<rparr>)" "stored a data z 0 m e d" by auto
  note D = storedD [OF d(2)]
  note H = file_header_facts [where a = a and data = data and d = b, folded e_def]
  have run: "add_file 0x81ed data s = Inr (ino, \<lparr>img = d, next_zone = z + m, next_inode = ino + 1\<rparr>)"
    using d(1) assms(2,5) unfolding add_file_def Let_def
    by (simp add: bindm_exec alloc_inode_exec edit_img_def a_def ino_def e_def b_def file_header_def m_def blocks_def)
  have keep: "d x = e x" if "4096 \<le> x" "x < a + 14 \<or> a + 14 + 2 * m \<le> x" "x < 7168" for x
    using that assms(3) by (intro D(1)) (auto simp: z_def)
  have zone: "get16 d (a + 14 + 2 * i) = (if i < m then word_of_nat (6 + z + i) else 0)" if "i < 9" for i
  proof (cases "i < m")
    case False
    have "get16 d (a + 14 + 2 * i) = get16 e (a + 14 + 2 * i)" using False that a by (intro get16_cong keep) auto
    then show ?thesis using False H(8) [OF that] by simp
  qed (use D(2) [of i] in simp)
  have "get16 d a = get16 e a" "get16 d (a + 2) = get16 e (a + 2)" "get32 d (a + 4) = get32 e (a + 4)"
    "get32 d (a + 8) = get32 e (a + 8)" "d (a + 12) = e (a + 12)" "d (a + 13) = e (a + 13)"
    using a by (auto intro!: get16_cong get32_cong keep)
  then have "file_at d ino data z"
    unfolding file_at_def kinode_eq a_def [symmetric] using H zone D(4) m by (auto simp: fun_eq_iff m_def [symmetric])
  moreover have "d x = img s x" if "x \<notin> {2048..<4096}" "x \<notin> {a..<a + 32}" "x < 1024 * (6 + z)" for x
  proof -
    have "d x = e x" using that m by (intro D(1)) auto
    also have "\<dots> = b x" using that by (intro H(1)) auto
    also have "\<dots> = img s x" unfolding b_def by (rule mark_bit_other) (use that(1) assms(2) in \<open>auto simp: ino_def\<close>)
    finally show ?thesis .
  qed
  moreover have b_eq: "e x = b x" if "x < 4096" for x using that a by (intro H(1)) auto
  have "marked d 2 nr \<longleftrightarrow> nr = ino \<or> marked (img s) 2 nr" if "nr < 8192" for nr
  proof -
    have "marked d 2 nr = marked b 2 nr"
      by (rule marked_cong [OF _ that]) (use a assms(3) b_eq D(1) in \<open>auto simp: z_def\<close>)
    then show ?thesis using marked_mark_bit [of 2 ino "img s" nr] by (simp add: b_def)
  qed
  moreover have "marked d 3 nr \<longleftrightarrow> marked (img s) 3 nr \<or> nr \<in> {z..<z + m}" if "nr < 8192" for nr
  proof -
    have "marked e 3 nr = marked (img s) 3 nr"
      by (rule marked_cong [OF _ that]) (use b_eq assms(2) in \<open>auto simp: b_def ino_def mark_bit_other\<close>)
    then show ?thesis using D(3) [OF that] by simp
  qed
  ultimately show ?thesis using run unfolding a_def ino_def z_def m_def by blast
qed

section \<open>Directories\<close>

definition entry :: "nat \<Rightarrow> u8 list \<Rightarrow> dir_entry" where
  "entry ino name = \<lparr>de_inode = word_of_nat ino, de_name = (\<lambda>i. if i < 14 \<and> i < length name then name ! i else 0)\<rparr>"

text \<open>The directory with the entries \<open>es\<close> in block \<open>b\<close>; the other places of the block are free.\<close>

definition dir_at :: "(nat \<Rightarrow> u8) \<Rightarrow> nat \<Rightarrow> nat \<Rightarrow> dir_entry list \<Rightarrow> bool" where
  "dir_at d ino b es \<longleftrightarrow>
     kinode d ino = \<lparr>d_mode = 0x41ed, d_uid = 0, d_size = word_of_nat (16 * length es), d_time = 0, d_gid = 0, d_nlinks = 2,
       d_zone = (\<lambda>i. if i = 0 then word_of_nat b else 0)\<rparr> \<and>
     (\<forall>k<length es. kentry d b k = es ! k \<and> de_inode (es ! k) \<noteq> 0) \<and>
     (\<forall>k<64. length es \<le> k \<longrightarrow> de_inode (kentry d b k) = 0)"

lemma dir_atD:
  assumes "dir_at d ino b es"
  shows "get32 d (inode_ptr ino + 4) = word_of_nat (16 * length es)" "get16 d (inode_ptr ino + 14) = word_of_nat b"
    "get16 d (inode_ptr ino + 16) = 0" "k < length es \<Longrightarrow> get16 d (1024 * b + 16 * k) \<noteq> 0"
    "length es \<le> k \<Longrightarrow> k < 64 \<Longrightarrow> get16 d (1024 * b + 16 * k) = 0"
proof -
  have i: "kinode d ino = \<lparr>d_mode = 0x41ed, d_uid = 0, d_size = word_of_nat (16 * length es), d_time = 0, d_gid = 0, d_nlinks = 2,
       d_zone = (\<lambda>i. if i = 0 then word_of_nat b else 0)\<rparr>" using assms by (simp add: dir_at_def)
  show "get32 d (inode_ptr ino + 4) = word_of_nat (16 * length es)"
    using arg_cong [OF i, of d_size] by (simp add: kinode_eq)
  show "get16 d (inode_ptr ino + 14) = word_of_nat b" "get16 d (inode_ptr ino + 16) = 0"
    using arg_cong [OF i, of "\<lambda>v. d_zone v 0"] arg_cong [OF i, of "\<lambda>v. d_zone v 1"] by (simp_all add: kinode_eq add.commute)
  have e: "get16 d (1024 * b + 16 * k) = de_inode (kentry d b k)" by (simp add: kentry_eq)
  show "get16 d (1024 * b + 16 * k) \<noteq> 0" if "k < length es" using assms that unfolding e by (simp add: dir_at_def)
  show "get16 d (1024 * b + 16 * k) = 0" if "length es \<le> k" "k < 64" using assms that by (auto simp: dir_at_def kentry_eq)
qed

lemma dir_at_cong:
  assumes "dir_at e ino b es" "\<And>i. i < 32 \<Longrightarrow> d (inode_ptr ino + i) = e (inode_ptr ino + i)"
    "\<And>j. j < 1024 \<Longrightarrow> d (1024 * b + j) = e (1024 * b + j)" "length es \<le> 64"
  shows "dir_at d ino b es"
proof -
  have "kinode d ino = kinode e ino" by (rule kinode_cong) (rule assms(2))
  moreover have "kentry d b k = kentry e b k" if "k < 64" for k
    by (rule kentry_cong) (use that assms(3) [of "16 * k + _"] in \<open>simp add: add.assoc\<close>)
  ultimately show ?thesis using assms(1,4) by (simp add: dir_at_def)
qed

lemma places_one:
  assumes "get16 d (p + 14) = word_of_nat b" "get16 d (p + 16) = 0" "0 < b" "b < 65536"
  shows "entry_places d p = map (\<lambda>k. 1024 * b + 16 * k) [0..<64]"
proof -
  have w: "word_of_nat b \<noteq> (0 :: u16)" "unat (word_of_nat b :: u16) = b" using assms(3,4) by (simp_all add: unat_of_nat word_unat_eq_iff)
  have "map (\<lambda>i. get16 d (p + 14 + 2 * i)) [0..<7] = word_of_nat b # 0 # map (\<lambda>i. get16 d (p + 14 + 2 * i)) [2..<7]"
    using assms(1,2) by (simp add: upt_rec add.commute)
  then have "takeWhile (\<lambda>z. z \<noteq> 0) (map (\<lambda>i. get16 d (p + 14 + 2 * i)) [0..<7]) = [word_of_nat b]" using w by simp
  then show ?thesis unfolding entry_places_def using w by (simp add: block_ptr_def mult.commute)
qed

lemma add_dir_entry_exec:
  assumes dir: "dir_at (img s) ino b es" and "length es < 64" "1 \<le> ino" "ino \<le> 96" "7 \<le> b" "b < 2048" "0 < f" "f < 65536"
  shows "\<exists>d. add_dir_entry (inode_ptr ino) f name s = Inr ((), s\<lparr>img := d\<rparr>) \<and> dir_at d ino b (es @ [entry f name]) \<and>
     (\<forall>x. x \<notin> {inode_ptr ino + 4..<inode_ptr ino + 8} \<and> x \<notin> {1024 * b + 16 * length es..<1024 * b + 16 * length es + 16} \<longrightarrow> d x = img s x)"
proof -
  define n p a where "n = length es" and "p = inode_ptr ino" and "a = 1024 * b + 16 * n"
  define bs where "bs = take 14 name @ replicate (14 - length name) 0"
  define e where "e = copy_to (a + 2) bs (clear (a + 2) 14 (put16 a (word_of_nat f) (img s)))"
  define d where "d = put32 (p + 4) (get32 e (p + 4) + 16) e"
  note D = dir_atD [OF dir, folded p_def n_def]
  have p: "4096 \<le> p" "p + 32 \<le> 7168" using inode_ptr_bounds [of ino] assms by (simp_all add: p_def)
  have a: "7168 \<le> a" using assms(5) by (simp add: a_def)
  have bs: "length bs = 14" by (simp add: bs_def)
  have n: "n < 64" using assms(2) by (simp add: n_def)
  have f: "word_of_nat f \<noteq> (0 :: u16)" using assms(7,8) by (simp add: word_unat_eq_iff unat_of_nat)
  have "List.find (\<lambda>a. get16 (img s) a = 0) (map (\<lambda>k. 1024 * b + 16 * k) [0..<64]) = Some a"
    unfolding find_Some_iff using D(4,5) n by (intro exI [of _ n]) (auto simp: a_def)
  moreover have "entry_places (img s) p = map (\<lambda>k. 1024 * b + 16 * k) [0..<64]"
    by (rule places_one) (use D assms in simp_all)
  ultimately have run: "add_dir_entry p f name s = Inr ((), s\<lparr>img := d\<rparr>)"
    by (simp add: add_dir_entry_def edit_img_def d_def e_def bs_def Let_def)
  have keep: "e x = img s x" if "x < a \<or> a + 16 \<le> x" for x
    using that bs by (auto simp: e_def copy_to_simps clear_simps)
  have keep': "d x = e x" if "x < p + 4 \<or> p + 8 \<le> x" for x
    using that unfolding d_def by (intro put32_other) linarith
  have "get32 e (p + 4) = get32 (img s) (p + 4)" using p a by (intro get32_cong keep) auto
  then have size: "get32 d (p + 4) = word_of_nat (16 * (n + 1))" using D(1) by (simp add: d_def)
  have same: "d x = img s x" if "x < p + 4 \<or> p + 8 \<le> x" "x < a \<or> a + 16 \<le> x" for x using keep [OF that(2)] keep' [OF that(1)] by simp
  have "get16 d p = get16 (img s) p" "get16 d (p + 2) = get16 (img s) (p + 2)" "get32 d (p + 8) = get32 (img s) (p + 8)"
    "d (p + 12) = img s (p + 12)" "d (p + 13) = img s (p + 13)"
    "\<And>i. i < 9 \<Longrightarrow> get16 d (p + 14 + 2 * i) = get16 (img s) (p + 14 + 2 * i)"
    using p a by (auto intro!: get16_cong get32_cong same)
  then have "kinode d ino = (kinode (img s) ino)\<lparr>d_size := word_of_nat (16 * (n + 1))\<rparr>"
    using size unfolding kinode_eq p_def [symmetric] by (simp add: fun_eq_iff)
  then have inode: "kinode d ino = \<lparr>d_mode = 0x41ed, d_uid = 0, d_size = word_of_nat (16 * length (es @ [entry f name])), d_time = 0,
       d_gid = 0, d_nlinks = 2, d_zone = (\<lambda>i. if i = 0 then word_of_nat b else 0)\<rparr>"
    using dir by (simp add: dir_at_def n_def)
  have old: "kentry d b k = kentry (img s) b k" if "k \<noteq> n" for k
  proof (rule kentry_cong, rule same)
    fix i :: nat assume i: "i < 16"
    then show "1024 * b + 16 * k + i < a \<or> a + 16 \<le> 1024 * b + 16 * k + i"
      using that unfolding a_def by (cases k n rule: linorder_cases) linarith+
    show "1024 * b + 16 * k + i < p + 4 \<or> p + 8 \<le> 1024 * b + 16 * k + i" using p assms(5) by simp
  qed
  have "d (a + 2 + i) = bs ! i" if "i < 14" for i
    using that p a bs keep' [of "a + 2 + i"] copy_to_simps(2) [of i bs "a + 2"] by (simp add: e_def)
  moreover have "bs ! i = (if i < length name then name ! i else 0)" if "i < 14" for i using that by (auto simp: bs_def nth_append)
  moreover have "get16 d a = word_of_nat f"
  proof -
    have "get16 d a = get16 (put16 a (word_of_nat f) (img s)) a"
      using p a bs by (intro get16_cong) (simp_all add: keep' e_def copy_to_simps clear_simps)
    then show ?thesis by simp
  qed
  ultimately have new: "kentry d b n = entry f name"
    by (simp add: kentry_eq a_def [symmetric] entry_def fun_eq_iff)
  have "dir_at d ino b (es @ [entry f name])" unfolding dir_at_def
  proof (intro conjI allI impI)
    show "kentry d b k = (es @ [entry f name]) ! k" if "k < length (es @ [entry f name])" for k
      using that old [of k] new dir by (auto simp: dir_at_def n_def nth_append less_Suc_eq)
    show "de_inode ((es @ [entry f name]) ! k) \<noteq> 0" if "k < length (es @ [entry f name])" for k
      using that dir f by (auto simp: dir_at_def n_def nth_append less_Suc_eq entry_def)
    show "de_inode (kentry d b k) = 0" if "k < 64" "length (es @ [entry f name]) \<le> k" for k
      using that old [of k] dir by (auto simp: dir_at_def n_def)
  qed (rule inode)
  moreover have "d x = img s x" if "x \<notin> {p + 4..<p + 8}" "x \<notin> {a..<a + 16}" for x using that by (intro same) auto
  ultimately show ?thesis using run unfolding p_def a_def n_def by blast
qed

text \<open>A fresh inode of mode \<open>mode\<close>, \<open>links\<close> links, size \<open>sz\<close> and first zone \<open>b\<close>.\<close>

definition fresh_inode :: "nat \<Rightarrow> u16 \<Rightarrow> u8 \<Rightarrow> u16 \<Rightarrow> (nat \<Rightarrow> u8) \<Rightarrow> nat \<Rightarrow> u8" where
  "fresh_inode a mode links b d =
     put16 (a + 14) b ((put16 (a + 2) 0 (put16 a mode (clear a 32 d)))(a + 12 := 0, a + 13 := links))"

lemma fresh_inode_other: "x < a \<or> a + 32 \<le> x \<Longrightarrow> fresh_inode a mode links b d x = d x"
  by (auto simp: fresh_inode_def clear_simps)

lemma fresh_inode_facts:
  "get16 (fresh_inode a mode links b d) a = mode" "get16 (fresh_inode a mode links b d) (a + 2) = 0"
  "get32 (fresh_inode a mode links b d) (a + 4) = 0" "get32 (fresh_inode a mode links b d) (a + 8) = 0"
  "fresh_inode a mode links b d (a + 12) = 0" "fresh_inode a mode links b d (a + 13) = links"
  "i < 9 \<Longrightarrow> get16 (fresh_inode a mode links b d) (a + 14 + 2 * i) = (if i = 0 then b else 0)"
  by (auto simp: fresh_inode_def get_clear)

definition fresh_dir :: "nat \<Rightarrow> nat \<Rightarrow> nat \<Rightarrow> (nat \<Rightarrow> u8) \<Rightarrow> nat \<Rightarrow> u8" where
  "fresh_dir B ino parent d =
     copy_to (B + 18) [46, 46, 0] (put16 (B + 16) (word_of_nat parent)
       (copy_to (B + 2) [46, 0] (put16 B (word_of_nat ino) (clear B 1024 d))))"

lemma fresh_dir_other: "x < B \<or> B + 1024 \<le> x \<Longrightarrow> fresh_dir B ino parent d x = d x"
  by (auto simp: fresh_dir_def clear_simps copy_to_simps)

lemma fresh_dir_entries:
  assumes "k < 64"
  shows "kentry (fresh_dir (1024 * b) ino parent d) b k =
    (if k = 0 then entry ino [46] else if k = 1 then entry parent [46, 46] else entry 0 [])"
proof -
  let ?B = "1024 * b" let ?d = "fresh_dir (1024 * b) ino parent d"
  have zero: "?d (?B + i) = 0" if "i < 1024" "i \<notin> {0, 1, 2, 16, 17, 18, 19}" for i
    using that by (auto simp: fresh_dir_def copy_to_def clear_def put16_def nth_Cons split: nat.splits)
  have one: "?d (?B + 2) = 46" "?d (?B + 18) = 46" "?d (?B + 19) = 46"
    by (simp_all add: fresh_dir_def copy_to_def put16_def)
  have "get16 ?d ?B = get16 (put16 ?B (word_of_nat ino) (clear ?B 1024 d)) ?B"
    by (rule get16_cong) (simp_all add: fresh_dir_def copy_to_def)
  moreover have "get16 ?d (?B + 16) = get16 (put16 (?B + 16) (word_of_nat parent)
      (copy_to (?B + 2) [46, 0] (put16 ?B (word_of_nat ino) (clear ?B 1024 d)))) (?B + 16)"
    by (rule get16_cong) (simp_all add: fresh_dir_def copy_to_def)
  ultimately have ino: "get16 ?d ?B = word_of_nat ino" "get16 ?d (?B + 16) = word_of_nat parent" by simp_all
  consider "k = 0" | "k = 1" | "2 \<le> k" by linarith
  then show ?thesis
  proof cases
    case 1
    have "?d (?B + 2 + i) = (if i < 1 then 46 else 0)" if "i < 14" for i
      using that zero [of "2 + i"] one(1) by (cases "i = 0") (simp_all add: add.assoc)
    then show ?thesis using 1 ino(1) one(1) by (simp add: kentry_eq entry_def fun_eq_iff)
  next
    case 2
    have "?d (?B + 16 + 2 + i) = (if i < 2 then 46 else 0)" if "i < 14" for i
    proof -
      have "i = 0 \<or> i = 1 \<or> 2 \<le> i" by linarith
      then show ?thesis using that zero [of "18 + i"] one(2,3) by (auto simp: add.assoc add.commute)
    qed
    then show ?thesis using 2 ino(2) by (simp add: kentry_eq entry_def fun_eq_iff nth_Cons split: nat.split)
  next
    case 3
    have "?d (?B + 16 * k + i) = 0" if "i < 16" for i using that 3 assms zero [of "16 * k + i"] by (simp add: add.assoc)
    from this [of 0] this [of 1] this [of "2 + _"] show ?thesis using 3
      by (simp add: kentry_eq entry_def fun_eq_iff get16_def add.assoc)
  qed
qed

text \<open>Addresses that creating an inode and its first zone changes.\<close>

definition touched :: "nat \<Rightarrow> nat \<Rightarrow> nat set" where
  "touched ino z = {2048..<4096} \<union> {inode_ptr ino..<inode_ptr ino + 32} \<union> {1024 * (6 + z)..<1024 * (7 + z)}"

lemma add_dir_exec:
  assumes "1 \<le> next_inode s" "next_inode s \<le> 96" "0 < next_zone s" "next_zone s \<le> 2041" "0 < parent" "parent < 65536"
  shows "\<exists>d. add_dir parent s = Inr (next_inode s, \<lparr>img = d, next_zone = next_zone s + 1, next_inode = next_inode s + 1\<rparr>) \<and>
     dir_at d (next_inode s) (6 + next_zone s) [entry (next_inode s) [46], entry parent [46, 46]] \<and>
     (\<forall>x. x \<notin> touched (next_inode s) (next_zone s) \<longrightarrow> d x = img s x) \<and>
     (\<forall>nr<8192. marked d 2 nr \<longleftrightarrow> nr = next_inode s \<or> marked (img s) 2 nr) \<and>
     (\<forall>nr<8192. marked d 3 nr \<longleftrightarrow> nr = next_zone s \<or> marked (img s) 3 nr)"
proof -
  define ino z a b where "ino = next_inode s" and "z = next_zone s" and "a = inode_ptr ino" and "b = 6 + z"
  define m where "m = mark_bit 3072 z (mark_bit 2048 ino (img s))"
  define h where "h = put32 (a + 4) 32 (fresh_inode a 0x41ed 2 (word_of_nat b) m)"
  define d where "d = fresh_dir (1024 * b) ino parent h"
  have bb: "block_ptr (6 + next_zone s) = 1024 * (6 + next_zone s)" by (simp add: block_ptr_def)
  have a: "4096 \<le> a" "a + 32 \<le> 7168" using inode_ptr_bounds [of ino] assms by (simp_all add: a_def ino_def)
  have b: "7168 \<le> 1024 * b" using assms(3) by (simp add: b_def z_def)
  have run: "add_dir parent s = Inr (ino, \<lparr>img = d, next_zone = z + 1, next_inode = ino + 1\<rparr>)"
    using assms(2,4) bb unfolding add_dir_def Let_def
    by (simp add: bindm_exec alloc_inode_exec alloc_zone_exec edit_img_def a_def b_def ino_def z_def d_def h_def m_def
        fresh_dir_def fresh_inode_def)
  note H = fresh_inode_facts [where a = a and mode = "0x41ed" and links = 2 and b = "word_of_nat b" and d = m]
  have hk: "h x = m x" if "x < a \<or> a + 32 \<le> x" for x using that by (auto simp: h_def fresh_inode_other)
  have dk: "d x = h x" if "x < 1024 * b \<or> 1024 * b + 1024 \<le> x" for x using that by (simp add: d_def fresh_dir_other)
  have inode: "kinode d ino = kinode h ino" by (rule kinode_cong) (use dk a b in \<open>simp add: a_def\<close>)
  have "kinode h ino = \<lparr>d_mode = 0x41ed, d_uid = 0, d_size = 32, d_time = 0, d_gid = 0, d_nlinks = 2,
       d_zone = (\<lambda>i. if i = 0 then word_of_nat b else 0)\<rparr>"
    unfolding kinode_eq a_def [symmetric] using H H(7) [of 0] by (auto simp: h_def fun_eq_iff)
  moreover have "word_of_nat ino \<noteq> (0 :: u16)" "word_of_nat parent \<noteq> (0 :: u16)"
    using assms by (simp_all add: word_unat_eq_iff unat_of_nat ino_def)
  ultimately have "dir_at d ino b [entry ino [46], entry parent [46, 46]]"
    unfolding dir_at_def inode using fresh_dir_entries [of _ b ino parent h]
    by (auto simp: d_def entry_def less_Suc_eq)
  moreover have mk: "m x = img s x" if "x \<notin> {2048..<4096}" for x
    using that assms(2,4) by (auto simp: m_def mark_bit_def ino_def z_def)
  have "d x = img s x" if "x \<notin> touched ino z" for x
    using that dk [of x] hk [of x] mk [of x] by (auto simp: touched_def a_def b_def)
  moreover have low: "d x = m x" if "x < 4096" for x using that dk [of x] hk [of x] a b by simp
  have "marked d 2 nr \<longleftrightarrow> nr = ino \<or> marked (img s) 2 nr" "marked d 3 nr \<longleftrightarrow> nr = z \<or> marked (img s) 3 nr" if "nr < 8192" for nr
  proof -
    have "marked d 2 nr = marked (mark_bit (1024 * 2) ino (img s)) 2 nr"
      by (rule marked_cong [OF _ that]) (simp add: low m_def mark_bit_other)
    then show "marked d 2 nr \<longleftrightarrow> nr = ino \<or> marked (img s) 2 nr" by (simp only: marked_mark_bit)
    have "marked d 3 nr = marked (mark_bit (1024 * 3) z (mark_bit 2048 ino (img s))) 3 nr"
      by (rule marked_cong [OF _ that]) (simp add: low m_def)
    moreover have "marked (mark_bit 2048 ino (img s)) 3 nr = marked (img s) 3 nr"
      by (rule marked_cong [OF _ that]) (use assms(2) in \<open>simp add: mark_bit_other ino_def\<close>)
    ultimately show "marked d 3 nr \<longleftrightarrow> nr = z \<or> marked (img s) 3 nr" by (simp only: marked_mark_bit)
  qed
  ultimately show ?thesis using run unfolding b_def ino_def z_def by blast
qed

lemma add_dev_exec:
  assumes "1 \<le> next_inode s" "next_inode s \<le> 96"
  shows "\<exists>d. add_dev dev s = Inr (next_inode s, s\<lparr>img := d, next_inode := next_inode s + 1\<rparr>) \<and>
     kinode d (next_inode s) = \<lparr>d_mode = 0x21b6, d_uid = 0, d_size = 0, d_time = 0, d_gid = 0, d_nlinks = 1,
       d_zone = (\<lambda>i. if i = 0 then dev else 0)\<rparr> \<and>
     (\<forall>x. x \<notin> {2048..<3072} \<and> x \<notin> {inode_ptr (next_inode s)..<inode_ptr (next_inode s) + 32} \<longrightarrow> d x = img s x) \<and>
     (\<forall>nr<8192. marked d 2 nr \<longleftrightarrow> nr = next_inode s \<or> marked (img s) 2 nr)"
proof -
  define ino a where "ino = next_inode s" and "a = inode_ptr ino"
  define m where "m = mark_bit 2048 ino (img s)"
  define d where "d = fresh_inode a 0x21b6 1 dev m"
  have a: "4096 \<le> a" "a + 32 \<le> 7168" using inode_ptr_bounds [of ino] assms by (simp_all add: a_def ino_def)
  have run: "add_dev dev s = Inr (ino, s\<lparr>img := d, next_inode := ino + 1\<rparr>)"
    using assms(2) unfolding add_dev_def Let_def
    by (simp add: bindm_exec alloc_inode_exec edit_img_def a_def ino_def d_def m_def fresh_inode_def)
  note H = fresh_inode_facts [where a = a and mode = "0x21b6" and links = 1 and b = dev and d = m, folded d_def]
  have "kinode d ino = \<lparr>d_mode = 0x21b6, d_uid = 0, d_size = 0, d_time = 0, d_gid = 0, d_nlinks = 1,
       d_zone = (\<lambda>i. if i = 0 then dev else 0)\<rparr>"
    unfolding kinode_eq a_def [symmetric] using H H(7) [of 0] by (auto simp: fun_eq_iff)
  moreover have keep: "d x = m x" if "x < a \<or> a + 32 \<le> x" for x using that by (simp add: d_def fresh_inode_other)
  moreover have "m x = img s x" if "x \<notin> {2048..<3072}" for x
    using that assms(2) by (auto simp: m_def mark_bit_def ino_def)
  moreover have "marked d 2 nr \<longleftrightarrow> nr = ino \<or> marked (img s) 2 nr" if "nr < 8192" for nr
  proof -
    have "marked d 2 nr = marked (mark_bit (1024 * 2) ino (img s)) 2 nr"
      by (rule marked_cong [OF _ that]) (use a in \<open>simp add: keep m_def\<close>)
    then show ?thesis by (simp only: marked_mark_bit)
  qed
  ultimately show ?thesis using run unfolding a_def ino_def by (intro exI [of _ d]) auto
qed

section \<open>The image\<close>

definition nblocks :: "(u8 list \<times> u8 list) list \<Rightarrow> nat" where
  "nblocks fs = sum_list (map (\<lambda>f. blocks (snd f)) fs)"

lemma nblocks_append [simp]: "nblocks (fs @ gs) = nblocks fs + nblocks gs"
  by (simp add: nblocks_def)

lemma nblocks_simps [simp]: "nblocks [] = 0" "nblocks (f # fs) = blocks (snd f) + nblocks fs"
  by (simp_all add: nblocks_def)

lemma nblocks_take: "k < length fs \<Longrightarrow> nblocks (take k fs) + blocks (snd (fs ! k)) \<le> nblocks fs"
proof -
  assume "k < length fs"
  then have "fs = take k fs @ fs ! k # drop (Suc k) fs" by (rule id_take_nth_drop)
  then show ?thesis by (metis nblocks_append nblocks_simps(2) add.assoc le_add1)
qed

text \<open>
  \<open>image_ok d fs D n ni\<close>: the super block is in place, the directories with the inodes up to \<open>n\<close> have
  the entries \<open>D\<close>, the programs \<open>fs\<close> (names and contents) are stored from inode 4 and zone 4 on, and
  the bitmaps mark the inodes below \<open>ni\<close> and the zones in use.
\<close>

definition image_ok :: "(nat \<Rightarrow> u8) \<Rightarrow> (u8 list \<times> u8 list) list \<Rightarrow> (nat \<Rightarrow> dir_entry list) \<Rightarrow> nat \<Rightarrow> nat \<Rightarrow> bool" where
  "image_ok d fs D n ni \<longleftrightarrow>
     (\<forall>x\<in>{1024..<2048}. d x = fill_super (\<lambda>_. 0) x) \<and>
     (\<forall>ino\<in>{1..n}. dir_at d ino (6 + ino) (D ino)) \<and>
     (\<forall>k<length fs. file_at d (4 + k) (snd (fs ! k)) (4 + nblocks (take k fs))) \<and>
     (\<forall>nr<8192. marked d 2 nr \<longleftrightarrow> nr \<in> {1..<ni}) \<and>
     (\<forall>nr<8192. marked d 3 nr \<longleftrightarrow> nr \<in> {1..n + nblocks fs})"

lemma file_at_cong:
  assumes "file_at e ino data z" "\<And>i. i < 32 \<Longrightarrow> d (inode_ptr ino + i) = e (inode_ptr ino + i)"
    "\<And>i. i < length data \<Longrightarrow> d (1024 * (6 + z) + i) = e (1024 * (6 + z) + i)"
  shows "file_at d ino data z"
  using assms kinode_cong [of d ino e] by (simp add: file_at_def)

text \<open>Where the files already stored lie: above the tables and below the next zone.\<close>

lemma file_place:
  assumes "k < length fs" "i < length (snd (fs ! k))"
  shows "7168 \<le> 1024 * (6 + (4 + nblocks (take k fs))) + i" "1024 * (6 + (4 + nblocks (take k fs))) + i < 1024 * (6 + (4 + nblocks fs))"
proof -
  have "i < 1024 * blocks (snd (fs ! k))" using assms(2) blocks_bounds(1) [of "snd (fs ! k)"] by simp
  moreover have "nblocks (take k fs) + blocks (snd (fs ! k)) \<le> nblocks fs" using assms(1) by (rule nblocks_take)
  ultimately show "1024 * (6 + (4 + nblocks (take k fs))) + i < 1024 * (6 + (4 + nblocks fs))" by simp
qed simp

lemma add_file_image:
  assumes ok: "image_ok (img s) fs D 3 (4 + length fs)" and st: "next_inode s = 4 + length fs" "next_zone s = 4 + nblocks fs"
    and len: "length fs \<le> 92" "\<And>ino. length (D ino) \<le> 64" "nblocks fs + blocks data \<le> 2038" "length data \<le> 7168"
  shows "\<exists>d. add_file 0x81ed data s = Inr (4 + length fs, \<lparr>img = d, next_zone = 4 + nblocks (fs @ [(name, data)]), next_inode = 5 + length fs\<rparr>) \<and>
     image_ok d (fs @ [(name, data)]) D 3 (5 + length fs)"
proof -
  define z where "z = 4 + nblocks fs"
  define p where "p = inode_ptr (4 + length fs)"
  obtain d where run: "add_file 0x81ed data s = Inr (4 + length fs, \<lparr>img = d, next_zone = z + blocks data, next_inode = 4 + length fs + 1\<rparr>)"
    and f: "file_at d (4 + length fs) data z"
    and keep: "\<And>x. x \<notin> {2048..<4096} \<Longrightarrow> x \<notin> {p..<p + 32} \<Longrightarrow> x < 1024 * (6 + z) \<Longrightarrow> d x = img s x"
    and m2: "\<And>nr. nr < 8192 \<Longrightarrow> marked d 2 nr \<longleftrightarrow> nr = 4 + length fs \<or> marked (img s) 2 nr"
    and m3: "\<And>nr. nr < 8192 \<Longrightarrow> marked d 3 nr \<longleftrightarrow> marked (img s) 3 nr \<or> nr \<in> {z..<z + blocks data}"
    using add_file_exec [of s data] st len unfolding p_def z_def by auto
  have p: "4096 + 96 \<le> p" "p + 32 \<le> 7168" using len(1) by (simp_all add: p_def inode_ptr_def)
  have slot: "d (inode_ptr ino + i) = img s (inode_ptr ino + i)" if "1 \<le> ino" "ino < 4 + length fs" "i < 32" for ino i
    using that len(1) by (intro keep) (auto simp: p_def inode_ptr_def z_def)
  have "dir_at d ino (6 + ino) (D ino)" if "ino \<in> {1..3}" for ino
  proof (rule dir_at_cong)
    show "dir_at (img s) ino (6 + ino) (D ino)" using ok that by (simp add: image_ok_def)
    show "d (inode_ptr ino + i) = img s (inode_ptr ino + i)" if "i < 32" for i using that \<open>ino \<in> {1..3}\<close> by (intro slot) auto
    show "d (1024 * (6 + ino) + j) = img s (1024 * (6 + ino) + j)" if "j < 1024" for j
      using that \<open>ino \<in> {1..3}\<close> p by (intro keep) (auto simp: z_def)
  qed (rule len(2))
  moreover have "file_at d (4 + k) (snd (fs ! k)) (4 + nblocks (take k fs))" if "k < length fs" for k
  proof (rule file_at_cong)
    show "file_at (img s) (4 + k) (snd (fs ! k)) (4 + nblocks (take k fs))" using ok that by (simp add: image_ok_def)
    show "d (inode_ptr (4 + k) + i) = img s (inode_ptr (4 + k) + i)" if "i < 32" for i using that \<open>k < length fs\<close> by (intro slot) simp_all
    show "d (1024 * (6 + (4 + nblocks (take k fs))) + i) = img s (1024 * (6 + (4 + nblocks (take k fs))) + i)" if "i < length (snd (fs ! k))" for i
      using file_place [OF \<open>k < length fs\<close> that] p by (intro keep) (auto simp: z_def)
  qed
  then have "\<forall>k<length (fs @ [(name, data)]). file_at d (4 + k) (snd ((fs @ [(name, data)]) ! k)) (4 + nblocks (take k (fs @ [(name, data)])))"
    using f by (auto simp: less_Suc_eq nth_append z_def)
  moreover have "d x = fill_super (\<lambda>_. 0) x" if "x \<in> {1024..<2048}" for x using ok keep [of x] that p by (auto simp: image_ok_def z_def)
  moreover have "marked d 2 nr \<longleftrightarrow> nr \<in> {1..<5 + length fs}" if "nr < 8192" for nr using ok m2 [OF that] that by (auto simp: image_ok_def)
  moreover have "marked d 3 nr \<longleftrightarrow> nr \<in> {1..3 + nblocks (fs @ [(name, data)])}" if "nr < 8192" for nr
    using ok m3 [OF that] that by (auto simp: image_ok_def z_def)
  ultimately have "image_ok d (fs @ [(name, data)]) D 3 (5 + length fs)" unfolding image_ok_def by blast
  then show ?thesis using run by (simp add: z_def)
qed

lemma add_entry_image:
  assumes ok: "image_ok (img s) fs D 3 ni" and ino: "ino \<in> {1..3}"
    and len: "length (D ino) < 64" "0 < f" "f < 65536" "length fs \<le> 92" "\<forall>i. length (D i) \<le> 64"
  shows "\<exists>d. add_dir_entry (inode_ptr ino) f name s = Inr ((), s\<lparr>img := d\<rparr>) \<and> image_ok d fs (D(ino := D ino @ [entry f name])) 3 ni \<and>
     (\<forall>i\<in>{4..96}. kinode d i = kinode (img s) i)"
proof -
  define p a where "p = inode_ptr ino" and "a = 1024 * (6 + ino) + 16 * length (D ino)"
  have "dir_at (img s) ino (6 + ino) (D ino)" using ok ino by (simp add: image_ok_def)
  then obtain d where run: "add_dir_entry p f name s = Inr ((), s\<lparr>img := d\<rparr>)" and new: "dir_at d ino (6 + ino) (D ino @ [entry f name])"
    and keep: "\<And>x. x \<notin> {p + 4..<p + 8} \<Longrightarrow> x \<notin> {a..<a + 16} \<Longrightarrow> d x = img s x"
    using add_dir_entry_exec [of s ino "6 + ino" "D ino" f name] ino len unfolding p_def a_def by auto
  have p: "p = 4096 + 32 * (ino - 1)" "a + 16 \<le> 1024 * (7 + ino)" "1024 * (6 + ino) \<le> a" "p + 8 \<le> 7168"
    using ino len(1) by (auto simp: p_def a_def inode_ptr_def)
  have "dir_at d i (6 + i) ((D(ino := D ino @ [entry f name])) i)" if i: "i \<in> {1..3}" for i
  proof (cases "i = ino")
    case False
    have "dir_at d i (6 + i) (D i)"
    proof (rule dir_at_cong)
      show "dir_at (img s) i (6 + i) (D i)" using ok i by (simp add: image_ok_def)
      show "d (inode_ptr i + j) = img s (inode_ptr i + j)" if "j < 32" for j
        using that False i ino p by (intro keep) (auto simp: inode_ptr_def)
      show "d (1024 * (6 + i) + j) = img s (1024 * (6 + i) + j)" if "j < 1024" for j
        using that False i ino p by (intro keep) auto
    qed (use len(5) in blast)
    then show ?thesis using False by simp
  qed (use new in simp)
  moreover have "file_at d (4 + k) (snd (fs ! k)) (4 + nblocks (take k fs))" if "k < length fs" for k
  proof (rule file_at_cong)
    show "file_at (img s) (4 + k) (snd (fs ! k)) (4 + nblocks (take k fs))" using ok that by (simp add: image_ok_def)
    show "d (inode_ptr (4 + k) + i) = img s (inode_ptr (4 + k) + i)" if "i < 32" for i
      using that \<open>k < length fs\<close> ino p len(4) by (intro keep) (auto simp: inode_ptr_def)
    show "d (1024 * (6 + (4 + nblocks (take k fs))) + i) = img s (1024 * (6 + (4 + nblocks (take k fs))) + i)" if "i < length (snd (fs ! k))" for i
      using ino p by (intro keep) auto
  qed
  moreover have low: "d x = img s x" if "x < 4096" for x using that p ino by (intro keep) auto
  moreover have "marked d 2 nr = marked (img s) 2 nr" "marked d 3 nr = marked (img s) 3 nr" if "nr < 8192" for nr
    by (intro marked_cong; use that low in simp)+
  ultimately have "image_ok d fs (D(ino := D ino @ [entry f name])) 3 ni" using ok unfolding image_ok_def by simp
  moreover have "kinode d i = kinode (img s) i" if "i \<in> {4..96}" for i
    using that ino p by (intro kinode_cong keep) (auto simp: inode_ptr_def)
  ultimately show ?thesis using run by (auto simp: p_def)
qed

lemma add_dir_image:
  assumes ok: "image_ok (img s) [] D n m" and n: "n < 3" "m = n + 1" "k = n + 2" and st: "next_inode s = m" "next_zone s = m" "\<forall>ino. length (D ino) \<le> 64"
  shows "\<exists>d. add_dir 1 s = Inr (m, \<lparr>img = d, next_zone = k, next_inode = k\<rparr>) \<and> image_ok d [] (D(m := [entry m [46], entry 1 [46, 46]])) m k"
proof -
  obtain d where run: "add_dir 1 s = Inr (m, \<lparr>img = d, next_zone = k, next_inode = k\<rparr>)"
    and new: "dir_at d m (6 + m) [entry m [46], entry 1 [46, 46]]"
    and keep: "\<And>x. x \<notin> touched m m \<Longrightarrow> d x = img s x"
    and m2: "\<And>nr. nr < 8192 \<Longrightarrow> marked d 2 nr \<longleftrightarrow> nr = m \<or> marked (img s) 2 nr"
    and m3: "\<And>nr. nr < 8192 \<Longrightarrow> marked d 3 nr \<longleftrightarrow> nr = m \<or> marked (img s) 3 nr"
    using add_dir_exec [of s 1] st n by auto
  have "dir_at d i (6 + i) ((D(m := [entry m [46], entry 1 [46, 46]])) i)" if i: "i \<in> {1..m}" for i
  proof (cases "i = m")
    case False
    have "dir_at d i (6 + i) (D i)"
    proof (rule dir_at_cong)
      show "dir_at (img s) i (6 + i) (D i)" using ok i False n by (simp add: image_ok_def)
      show "d (inode_ptr i + j) = img s (inode_ptr i + j)" if "j < 32" for j
        using that False i n by (intro keep) (auto simp: inode_ptr_def touched_def)
      show "d (1024 * (6 + i) + j) = img s (1024 * (6 + i) + j)" if "j < 1024" for j
        using that False i n by (intro keep) (auto simp: inode_ptr_def touched_def)
    qed (use st(3) in blast)
    then show ?thesis using False by simp
  qed (use new in simp)
  moreover have "d x = fill_super (\<lambda>_. 0) x" if "x \<in> {1024..<2048}" for x
    using ok keep [of x] that by (auto simp: image_ok_def touched_def inode_ptr_def)
  moreover have "marked d 2 nr \<longleftrightarrow> nr \<in> {1..<k}" "marked d 3 nr \<longleftrightarrow> nr \<in> {1..m}" if "nr < 8192" for nr
    using ok m2 [OF that] m3 [OF that] that n by (auto simp: image_ok_def)
  ultimately show ?thesis using run unfolding image_ok_def by auto
qed

definition dev_inode :: "u16 \<Rightarrow> d_inode" where
  "dev_inode dev = \<lparr>d_mode = 0x21b6, d_uid = 0, d_size = 0, d_time = 0, d_gid = 0, d_nlinks = 1, d_zone = (\<lambda>i. if i = 0 then dev else 0)\<rparr>"

lemma add_dev_image:
  assumes ok: "image_ok (img s) fs D 3 (4 + length fs)" and st: "next_inode s = 4 + length fs"
    and len: "length fs \<le> 92" "\<And>ino. length (D ino) \<le> 64"
  shows "\<exists>d. add_dev dev s = Inr (4 + length fs, s\<lparr>img := d, next_inode := 5 + length fs\<rparr>) \<and>
     image_ok d fs D 3 (5 + length fs) \<and> kinode d (4 + length fs) = dev_inode dev"
proof -
  define p where "p = inode_ptr (4 + length fs)"
  obtain d where run: "add_dev dev s = Inr (4 + length fs, s\<lparr>img := d, next_inode := 5 + length fs\<rparr>)"
    and inode: "kinode d (4 + length fs) = dev_inode dev"
    and keep: "\<And>x. x \<notin> {2048..<3072} \<Longrightarrow> x \<notin> {p..<p + 32} \<Longrightarrow> d x = img s x"
    and m2: "\<And>nr. nr < 8192 \<Longrightarrow> marked d 2 nr \<longleftrightarrow> nr = 4 + length fs \<or> marked (img s) 2 nr"
    using add_dev_exec [of s dev] st len unfolding p_def dev_inode_def by auto
  have p: "4096 + 96 \<le> p" "p + 32 \<le> 7168" using len(1) by (simp_all add: p_def inode_ptr_def)
  have slot: "d (inode_ptr ino + i) = img s (inode_ptr ino + i)" if "1 \<le> ino" "ino < 4 + length fs" "i < 32" for ino i
    using that len(1) by (intro keep) (auto simp: p_def inode_ptr_def)
  have high: "d x = img s x" if "7168 \<le> x" for x using that p by (intro keep) auto
  have "dir_at d ino (6 + ino) (D ino)" if "ino \<in> {1..3}" for ino
    by (rule dir_at_cong [of "img s"]) (use ok that slot high len in \<open>auto simp: image_ok_def\<close>)
  moreover have "file_at d (4 + k) (snd (fs ! k)) (4 + nblocks (take k fs))" if "k < length fs" for k
    by (rule file_at_cong [of "img s"]) (use ok that slot high in \<open>auto simp: image_ok_def\<close>)
  moreover have "d x = fill_super (\<lambda>_. 0) x" if "x \<in> {1024..<2048}" for x using ok keep [of x] that p by (auto simp: image_ok_def)
  moreover have "marked d 2 nr \<longleftrightarrow> nr \<in> {1..<5 + length fs}" if "nr < 8192" for nr using ok m2 [OF that] that by (auto simp: image_ok_def)
  moreover have "marked d 3 nr = marked (img s) 3 nr" if "nr < 8192" for nr by (rule marked_cong [OF _ that]) (use p keep in auto)
  ultimately have "image_ok d fs D 3 (5 + length fs)" using ok unfolding image_ok_def by simp
  then show ?thesis using run inode by blast
qed

section \<open>The programs\<close>

definition bin_entries :: "(u8 list \<times> u8 list) list \<Rightarrow> dir_entry list" where
  "bin_entries fs = [entry 2 [46], entry 1 [46, 46]] @ map (\<lambda>k. entry (4 + k) (fst (fs ! k))) [0..<length fs]"

lemma bin_entries_snoc: "bin_entries (fs @ [f]) = bin_entries fs @ [entry (4 + length fs) (fst f)]"
  by (simp add: bin_entries_def nth_append)

definition programs :: "(u8 list \<times> u8 list) list \<Rightarrow> (u8 list \<times> u8 list) list" where
  "programs ps = map (\<lambda>(path, data). (the (program_name path), data)) ps"

definition accepted :: "(u8 list \<times> u8 list) list \<Rightarrow> bool" where
  "accepted ps \<longleftrightarrow> (\<forall>(path, data)\<in>set ps. program_name path \<noteq> None \<and> length data \<le> 7168)"

lemma add_programs_image:
  assumes "image_ok (img s) fs D 3 (4 + length fs)" "next_inode s = 4 + length fs" "next_zone s = 4 + nblocks fs"
    "D 2 = bin_entries fs" "\<And>ino. ino \<noteq> 2 \<Longrightarrow> length (D ino) < 64" "length fs + length ps \<le> 62" "nblocks fs + nblocks ps \<le> 2038" "accepted ps"
  shows "\<exists>d. add_programs 2 (map (\<lambda>(path, data). (path, Some data)) ps) s =
       Inr ((), \<lparr>img = d, next_zone = 4 + nblocks fs + nblocks ps, next_inode = 4 + length fs + length ps\<rparr>) \<and>
     image_ok d (fs @ programs ps) (D(2 := bin_entries (fs @ programs ps))) 3 (4 + length fs + length ps)"
  using assms
proof (induction ps arbitrary: s fs D)
  case Nil
  then show ?case by (intro exI [of _ "img s"]) (auto simp: programs_def fun_upd_idem)
next
  case (Cons f ps)
  obtain path data where f: "f = (path, data)" by (cases f)
  with Cons.prems(8) obtain name where name: "program_name path = Some name" "length data \<le> 7168" "accepted ps" by (auto simp: accepted_def)
  let ?fs = "fs @ [(name, data)]" let ?D = "D(2 := bin_entries ?fs)"
  have D: "length (D ino) \<le> 64" "length (D ino) < 64" for ino
    using Cons.prems(4,6) Cons.prems(5) [of ino] by (cases "ino = 2"; simp add: bin_entries_def)+
  obtain d where d: "add_file 0x81ed data s = Inr (4 + length fs, \<lparr>img = d, next_zone = 4 + nblocks ?fs, next_inode = 5 + length fs\<rparr>)"
    "image_ok d ?fs D 3 (5 + length fs)"
    using add_file_image [OF Cons.prems(1-3), of data name] D(1) Cons.prems(6,7) name f by auto
  let ?t = "\<lparr>img = d, next_zone = 4 + nblocks ?fs, next_inode = 5 + length fs\<rparr>"
  obtain e where e: "add_dir_entry (inode_ptr 2) (4 + length fs) name ?t = Inr ((), ?t\<lparr>img := e\<rparr>)"
    "image_ok e ?fs (D(2 := D 2 @ [entry (4 + length fs) name])) 3 (5 + length fs)"
    using add_entry_image [of ?t ?fs D "5 + length fs" 2 "4 + length fs" name] d(2) D Cons.prems(6) by auto
  have step: "add_program 2 (path, Some data) s = Inr ((), ?t\<lparr>img := e\<rparr>)"
    using d(1) e(1) name(1) by (simp add: add_program_def bindm_exec)
  have "\<exists>d'. add_programs 2 (map (\<lambda>(path, data). (path, Some data)) ps) (?t\<lparr>img := e\<rparr>) =
       Inr ((), \<lparr>img = d', next_zone = 4 + nblocks ?fs + nblocks ps, next_inode = 4 + length ?fs + length ps\<rparr>) \<and>
     image_ok d' (?fs @ programs ps) (?D(2 := bin_entries (?fs @ programs ps))) 3 (4 + length ?fs + length ps)"
  proof (rule Cons.IH [of "?t\<lparr>img := e\<rparr>" ?fs ?D])
    show "image_ok (img (?t\<lparr>img := e\<rparr>)) ?fs ?D 3 (4 + length ?fs)" using e(2) Cons.prems(4) by (simp add: bin_entries_snoc)
  qed (use Cons.prems name(3) f in simp_all)
  then show ?case using step by (simp add: f bindm_exec programs_def name(1) add.assoc del: fun_upd_apply)
qed

text \<open>The image before the programs: the three directories, with the two below the root in it.\<close>

definition base_dirs :: "nat \<Rightarrow> dir_entry list" where
  "base_dirs = (\<lambda>_. [])(1 := [entry 1 [46], entry 1 [46, 46], entry 2 [98, 105, 110], entry 3 [100, 101, 118]],
     2 := [entry 2 [46], entry 1 [46, 46]], 3 := [entry 3 [46], entry 1 [46, 46]])"

definition start_state :: mkfs_state where
  "start_state = \<lparr>img = fill_super (\<lambda>_. 0), next_zone = 1, next_inode = 1\<rparr>"

definition add_tree :: "(nat \<times> nat) mkfs" where
  "add_tree = bindm (add_dir 1) (\<lambda>root. bindm (add_dir root) (\<lambda>bin. bindm (add_dir root) (\<lambda>dev.
     bindm (add_dir_entry (inode_ptr root) bin [98, 105, 110]) (\<lambda>_.
     bindm (add_dir_entry (inode_ptr root) dev [100, 101, 118]) (\<lambda>_ s. Inr ((bin, dev), s))))))"

lemma image_start: "image_ok (fill_super (\<lambda>_. 0)) [] (\<lambda>_. []) 0 1"
proof -
  have "fill_super (\<lambda>_. 0) x = 0" if "2048 \<le> x" for x using that by (simp add: fill_super_def Let_def)
  then have "\<not> marked (fill_super (\<lambda>_. 0)) b nr" if "2 \<le> b" for b nr using that by (simp add: marked_def kblock_def)
  then show ?thesis by (simp add: image_ok_def)
qed

lemma add_tree_image:
  "\<exists>d. add_tree start_state = Inr ((2, 3), \<lparr>img = d, next_zone = 4, next_inode = 4\<rparr>) \<and> image_ok d [] base_dirs 3 4"
proof -
  let ?e = "\<lambda>i. [entry i [46], entry 1 [46, 46]]"
  let ?s = "\<lambda>d k. \<lparr>img = d, next_zone = k, next_inode = k\<rparr>"
  have "\<exists>d. add_dir 1 start_state = Inr (1, ?s d 2) \<and> image_ok d [] ((\<lambda>_. [])(1 := ?e 1)) 1 2"
    by (rule add_dir_image [where n = 0]) (use image_start in \<open>simp_all add: start_state_def\<close>)
  then obtain d1 where 1: "add_dir 1 start_state = Inr (1, ?s d1 2)" "image_ok d1 [] ((\<lambda>_. [])(1 := ?e 1)) 1 2" by blast
  have "\<exists>d. add_dir 1 (?s d1 2) = Inr (2, ?s d 3) \<and> image_ok d [] ((\<lambda>_. [])(1 := ?e 1, 2 := ?e 2)) 2 3"
    by (rule add_dir_image [where n = 1]) (use 1(2) in simp_all)
  then obtain d2 where 2: "add_dir 1 (?s d1 2) = Inr (2, ?s d2 3)" "image_ok d2 [] ((\<lambda>_. [])(1 := ?e 1, 2 := ?e 2)) 2 3" by blast
  have "\<exists>d. add_dir 1 (?s d2 3) = Inr (3, ?s d 4) \<and> image_ok d [] ((\<lambda>_. [])(1 := ?e 1, 2 := ?e 2, 3 := ?e 3)) 3 4"
    by (rule add_dir_image [where n = 2]) (use 2(2) in simp_all)
  then obtain d3 where 3: "add_dir 1 (?s d2 3) = Inr (3, ?s d3 4)" "image_ok d3 [] ((\<lambda>_. [])(1 := ?e 1, 2 := ?e 2, 3 := ?e 3)) 3 4" by blast
  let ?D = "(\<lambda>_ :: nat. [])(1 := ?e 1, 2 := ?e 2, 3 := ?e 3)"
  let ?D4 = "?D(1 := ?D 1 @ [entry 2 [98, 105, 110]])"
  have "\<exists>d. add_dir_entry (inode_ptr 1) 2 [98, 105, 110] (?s d3 4) = Inr ((), (?s d3 4)\<lparr>img := d\<rparr>) \<and> image_ok d [] ?D4 3 4 \<and>
      (\<forall>i\<in>{4..96}. kinode d i = kinode (img (?s d3 4)) i)"
    by (rule add_entry_image) (use 3(2) in simp_all)
  then obtain d4 where 4: "add_dir_entry (inode_ptr 1) 2 [98, 105, 110] (?s d3 4) = Inr ((), ?s d4 4)" "image_ok d4 [] ?D4 3 4" by auto
  have "\<exists>d. add_dir_entry (inode_ptr 1) 3 [100, 101, 118] (?s d4 4) = Inr ((), (?s d4 4)\<lparr>img := d\<rparr>) \<and>
      image_ok d [] (?D4(1 := ?D4 1 @ [entry 3 [100, 101, 118]])) 3 4 \<and> (\<forall>i\<in>{4..96}. kinode d i = kinode (img (?s d4 4)) i)"
    by (rule add_entry_image) (use 4(2) in simp_all)
  then obtain d5 where 5: "add_dir_entry (inode_ptr 1) 3 [100, 101, 118] (?s d4 4) = Inr ((), ?s d5 4)"
    "image_ok d5 [] (?D4(1 := ?D4 1 @ [entry 3 [100, 101, 118]])) 3 4" by auto
  have "?D4(1 := ?D4 1 @ [entry 3 [100, 101, 118]]) = base_dirs" by (simp add: base_dirs_def fun_eq_iff)
  then show ?thesis using 1(1) 2(1) 3(1) 4(1) 5 by (simp add: add_tree_def bindm_exec)
qed

lemma mkfs_main_image:
  assumes "2 \<le> length ps" "length ps \<le> 62" "accepted ps" "nblocks ps \<le> 2038"
  shows "\<exists>d D. mkfs_main (map (\<lambda>(path, data). (path, Some data)) ps) = Inr d \<and>
     image_ok d (programs ps) D 3 (5 + length ps) \<and> D 1 = base_dirs 1 \<and> D 2 = bin_entries (programs ps) \<and>
     D 3 = [entry 3 [46], entry 1 [46, 46], entry (4 + length ps) [116, 116, 121, 48]] \<and> kinode d (4 + length ps) = dev_inode 0x400"
proof -
  let ?n = "length ps" let ?D = "base_dirs(2 := bin_entries (programs ps))"
  have np: "length (programs ps) = ?n" "nblocks (programs ps) = nblocks ps"
    by (simp_all add: programs_def nblocks_def comp_def case_prod_unfold)
  obtain d where d: "add_tree start_state = Inr ((2, 3), \<lparr>img = d, next_zone = 4, next_inode = 4\<rparr>)" "image_ok d [] base_dirs 3 4"
    using add_tree_image by blast
  have "\<exists>e. add_programs 2 (map (\<lambda>(path, data). (path, Some data)) ps) \<lparr>img = d, next_zone = 4, next_inode = 4\<rparr> =
       Inr ((), \<lparr>img = e, next_zone = 4 + nblocks [] + nblocks ps, next_inode = 4 + length ([] :: (u8 list \<times> u8 list) list) + ?n\<rparr>) \<and>
     image_ok e ([] @ programs ps) (base_dirs(2 := bin_entries ([] @ programs ps))) 3 (4 + length ([] :: (u8 list \<times> u8 list) list) + ?n)"
    by (rule add_programs_image) (use d(2) assms in \<open>auto simp: base_dirs_def bin_entries_def\<close>)
  then obtain e where e: "add_programs 2 (map (\<lambda>(path, data). (path, Some data)) ps) \<lparr>img = d, next_zone = 4, next_inode = 4\<rparr> =
       Inr ((), \<lparr>img = e, next_zone = 4 + nblocks ps, next_inode = 4 + ?n\<rparr>)" "image_ok e (programs ps) ?D 3 (4 + ?n)" by auto
  let ?e = "\<lparr>img = e, next_zone = 4 + nblocks ps, next_inode = 4 + ?n\<rparr>"
  have lens: "length (?D ino) \<le> 64" for ino using assms(2) np(1) by (simp add: base_dirs_def bin_entries_def)
  have "\<exists>f. add_dev 0x400 ?e = Inr (4 + length (programs ps), ?e\<lparr>img := f, next_inode := 5 + length (programs ps)\<rparr>) \<and>
     image_ok f (programs ps) ?D 3 (5 + length (programs ps)) \<and> kinode f (4 + length (programs ps)) = dev_inode 0x400"
    by (rule add_dev_image [where D = ?D]) (use e(2) np assms lens in auto)
  then obtain f where f: "add_dev 0x400 ?e = Inr (4 + ?n, ?e\<lparr>img := f, next_inode := 5 + ?n\<rparr>)"
    "image_ok f (programs ps) ?D 3 (5 + ?n)" "kinode f (4 + ?n) = dev_inode 0x400" unfolding np by blast
  let ?f = "\<lparr>img = f, next_zone = 4 + nblocks ps, next_inode = 5 + ?n\<rparr>"
  let ?D' = "?D(3 := ?D 3 @ [entry (4 + ?n) [116, 116, 121, 48]])"
  have "\<exists>g. add_dir_entry (inode_ptr 3) (4 + ?n) [116, 116, 121, 48] ?f = Inr ((), ?f\<lparr>img := g\<rparr>) \<and> image_ok g (programs ps) ?D' 3 (5 + ?n) \<and>
      (\<forall>i\<in>{4..96}. kinode g i = kinode (img ?f) i)"
    by (rule add_entry_image) (use f(2) np assms lens in \<open>auto simp: base_dirs_def\<close>)
  then obtain g where g: "add_dir_entry (inode_ptr 3) (4 + ?n) [116, 116, 121, 48] ?f = Inr ((), ?f\<lparr>img := g\<rparr>)"
    "image_ok g (programs ps) ?D' 3 (5 + ?n)" "\<forall>i\<in>{4..96}. kinode g i = kinode f i" by auto
  have "mkfs_main (map (\<lambda>(path, data). (path, Some data)) ps) =
      (case bindm add_tree (\<lambda>(bin, dev). bindm (add_programs bin (map (\<lambda>(path, data). (path, Some data)) ps)) (\<lambda>_.
         bindm (add_dev 0x0400) (\<lambda>tty_ino. add_dir_entry (inode_ptr dev) tty_ino [116, 116, 121, 48]))) start_state
       of Inl e \<Rightarrow> Inl e | Inr (_, s) \<Rightarrow> Inr (img s))"
    using assms(1) by (simp add: mkfs_main_def add_tree_def start_state_def bindm_def split: sum.split prod.split)
  also have "\<dots> = Inr g" using d(1) e(1) f(1) g(1) by (simp add: bindm_exec)
  finally have "mkfs_main (map (\<lambda>(path, data). (path, Some data)) ps) = Inr g" .
  moreover have "kinode g (4 + ?n) = dev_inode 0x400" using g(3) f(3) assms(2) by simp
  moreover have "?D' 1 = base_dirs 1" "?D' 2 = bin_entries (programs ps)"
    "?D' 3 = [entry 3 [46], entry 1 [46, 46], entry (4 + ?n) [116, 116, 121, 48]]" by (simp_all add: base_dirs_def)
  ultimately show ?thesis using g(2) by blast
qed

lemma super_reads:
  assumes "\<forall>x\<in>{1024..<2048}. d x = fill_super (\<lambda>_. 0) x"
  shows "let sb = get_d_super (kblock d 1) zero_super in s_magic sb = SUPER_MAGIC \<and> s_ninodes sb = 96 \<and> s_nzones sb = 2041 \<and>
        s_imap_blocks sb = 1 \<and> s_zmap_blocks sb = 1 \<and> s_firstdatazone sb = 7"
proof -
  have g: "get16 (kblock d 1) a = get16 (fill_super (\<lambda>_. 0)) (1024 + a)" if "a < 1023" for a
    using that bspec [OF assms, of "1024 + a"] bspec [OF assms, of "1025 + a"] by (simp add: get16_def kblock_at)
  show ?thesis using g [of 0] g [of 2] g [of 4] g [of 6] g [of 8] g [of 16]
    by (simp add: get_d_super_def Let_def) (simp add: fill_super_def Let_def)
qed

lemma file_at_reads:
  assumes "file_at d ino data z" "length data \<le> 7168" "z + blocks data \<le> 2042"
  shows "d_mode (kinode d ino) = 0x81ed" "d_nlinks (kinode d ino) = 1" "unat (d_size (kinode d ino)) = length data"
    "i < length data \<Longrightarrow> kblock d (unat (d_zone (kinode d ino) (i div 1024))) (i mod 1024) = data ! i"
proof -
  note f = assms(1) [unfolded file_at_def]
  show "d_mode (kinode d ino) = 0x81ed" "d_nlinks (kinode d ino) = 1" "unat (d_size (kinode d ino)) = length data"
    using f assms(2) by (simp_all add: unat_of_nat)
  assume i: "i < length data"
  then have q: "i div 1024 < blocks data" using blocks_bounds(1) [of data] by (simp add: less_mult_imp_div_less mult.commute)
  have u: "unat (word_of_nat k :: u16) = k" if "k < 65536" for k using that by (simp add: unat_of_nat)
  have "d_zone (kinode d ino) (i div 1024) = word_of_nat (6 + z + i div 1024)" using f q by simp
  then have "unat (d_zone (kinode d ino) (i div 1024)) = 6 + z + i div 1024" using q assms(3) u [of "6 + z + i div 1024"] by simp
  moreover have "1024 * (6 + z + i div 1024) + i mod 1024 = 1024 * (6 + z) + i"
    using mult_div_mod_eq [of 1024 i] by (simp add: algebra_simps)
  ultimately show "kblock d (unat (d_zone (kinode d ino) (i div 1024))) (i mod 1024) = data ! i"
    using conjunct2 [OF f] i by (simp only: kblock_at)
qed

text \<open>
  C16: Every set of programs that fits is turned into an image from which the kernel's structures
  give it back. For two to 62 files named \<open>*.elf\<close> of at most seven blocks each and 2038 in all,
  \<open>mkfs\<close> succeeds and, read with the kernel's layout of super block, inodes and directory
  entries, the image has the magic number and table sizes; \<open>/bin\<close> holds each program under its
  name, executable, with its length and its contents byte by byte; \<open>/dev/tty0\<close> is the character
  device 4, 0; and the two bitmaps mark exactly the inodes and zones in use.
\<close>

theorem mkfs_image:
  assumes "2 \<le> length ps" "length ps \<le> 62" "sum_list (map (\<lambda>(path, data). (length data + 1023) div 1024) ps) \<le> 2038"
    and "\<forall>(path, data)\<in>set ps. program_name path \<noteq> None \<and> length data \<le> 7168"
  shows "\<exists>d. mkfs_main (map (\<lambda>(path, data). (path, Some data)) ps) = Inr d \<and>
     (let sb = get_d_super (kblock d 1) zero_super in s_magic sb = SUPER_MAGIC \<and> s_ninodes sb = 96 \<and> s_nzones sb = 2041 \<and>
        s_imap_blocks sb = 1 \<and> s_zmap_blocks sb = 1 \<and> s_firstdatazone sb = 7) \<and>
     d_zone (kinode d 1) 0 = 7 \<and> kentry d 7 2 = entry 2 [98, 105, 110] \<and> kentry d 7 3 = entry 3 [100, 101, 118] \<and>
     d_zone (kinode d 2) 0 = 8 \<and> d_size (kinode d 2) = word_of_nat (16 * (2 + length ps)) \<and>
     (\<forall>k<length ps. kentry d 8 (2 + k) = entry (4 + k) (the (program_name (fst (ps ! k)))) \<and>
        d_mode (kinode d (4 + k)) = 0x81ed \<and> d_nlinks (kinode d (4 + k)) = 1 \<and> unat (d_size (kinode d (4 + k))) = length (snd (ps ! k)) \<and>
        (\<forall>i<length (snd (ps ! k)). kblock d (unat (d_zone (kinode d (4 + k)) (i div 1024))) (i mod 1024) = snd (ps ! k) ! i)) \<and>
     d_zone (kinode d 3) 0 = 9 \<and> kentry d 9 2 = entry (4 + length ps) [116, 116, 121, 48] \<and> kinode d (4 + length ps) = dev_inode 0x400 \<and>
     (\<forall>nr<8192. marked d 2 nr \<longleftrightarrow> nr \<in> {1..4 + length ps}) \<and>
     (\<forall>nr<8192. marked d 3 nr \<longleftrightarrow> nr \<in> {1..3 + sum_list (map (\<lambda>(path, data). (length data + 1023) div 1024) ps)})"
proof -
  have nb: "nblocks ps = sum_list (map (\<lambda>(path, data). (length data + 1023) div 1024) ps)"
    unfolding nblocks_def blocks_def by (simp add: case_prod_unfold)
  obtain d D where run: "mkfs_main (map (\<lambda>(path, data). (path, Some data)) ps) = Inr d"
    and ok: "image_ok d (programs ps) D 3 (5 + length ps)" and D: "D 1 = base_dirs 1" "D 2 = bin_entries (programs ps)"
     "D 3 = [entry 3 [46], entry 1 [46, 46], entry (4 + length ps) [116, 116, 121, 48]]"
    and dev: "kinode d (4 + length ps) = dev_inode 0x400"
    using mkfs_main_image [of ps] assms unfolding accepted_def nb by blast
  have dirs: "dir_at d ino (6 + ino) (D ino)" if "ino \<in> {1..3}" for ino using ok that by (simp add: image_ok_def)
  have root: "d_zone (kinode d 1) 0 = 7" "kentry d 7 2 = entry 2 [98, 105, 110]" "kentry d 7 3 = entry 3 [100, 101, 118]"
    using dirs [of 1] D(1) by (auto simp: dir_at_def base_dirs_def)
  have bin: "d_zone (kinode d 2) 0 = 8" "d_size (kinode d 2) = word_of_nat (16 * (2 + length ps))"
    using dirs [of 2] D(2) by (simp_all add: dir_at_def bin_entries_def programs_def)
  have devs: "d_zone (kinode d 3) 0 = 9" "kentry d 9 2 = entry (4 + length ps) [116, 116, 121, 48]"
    using dirs [of 3] D(3) by (auto simp: dir_at_def)
  have files: "kentry d 8 (2 + k) = entry (4 + k) (the (program_name (fst (ps ! k)))) \<and>
      d_mode (kinode d (4 + k)) = 0x81ed \<and> d_nlinks (kinode d (4 + k)) = 1 \<and> unat (d_size (kinode d (4 + k))) = length (snd (ps ! k)) \<and>
      (\<forall>i<length (snd (ps ! k)). kblock d (unat (d_zone (kinode d (4 + k)) (i div 1024))) (i mod 1024) = snd (ps ! k) ! i)" if k: "k < length ps" for k
  proof -
    have p: "programs ps ! k = (the (program_name (fst (ps ! k))), snd (ps ! k))" "length (programs ps) = length ps" "nblocks (programs ps) = nblocks ps"
      using k by (simp_all add: programs_def nblocks_def comp_def case_prod_unfold)
    have "kentry d 8 (2 + k) = D 2 ! (2 + k)" using dirs [of 2] D(2) k p(2) by (simp add: dir_at_def bin_entries_def)
    then have "kentry d 8 (2 + k) = entry (4 + k) (the (program_name (fst (ps ! k))))" using D(2) k p by (simp add: bin_entries_def)
    moreover have "file_at d (4 + k) (snd (programs ps ! k)) (4 + nblocks (take k (programs ps)))" using ok k p(2) by (simp add: image_ok_def)
    then have "file_at d (4 + k) (snd (ps ! k)) (4 + nblocks (take k (programs ps)))" unfolding p(1) by simp
    moreover have "length (snd (ps ! k)) \<le> 7168" using assms(4) nth_mem [OF k] by (auto simp: case_prod_unfold)
    moreover have "4 + nblocks (take k (programs ps)) + blocks (snd (ps ! k)) \<le> 2042"
      using nblocks_take [of k "programs ps"] k p assms(3) nb by simp
    ultimately show ?thesis using file_at_reads [of d "4 + k" "snd (ps ! k)"] by blast
  qed
  have "nblocks (programs ps) = nblocks ps" by (simp add: programs_def nblocks_def comp_def case_prod_unfold)
  then have marks: "\<forall>nr<8192. marked d 2 nr \<longleftrightarrow> nr \<in> {1..4 + length ps}" "\<forall>nr<8192. marked d 3 nr \<longleftrightarrow> nr \<in> {1..3 + nblocks ps}"
    using ok by (auto simp: image_ok_def)
  have "\<forall>x\<in>{1024..<2048}. d x = fill_super (\<lambda>_. 0) x" using ok by (simp add: image_ok_def)
  note super_reads [OF this]
  then show ?thesis using run root bin devs dev files marks unfolding nb by blast
qed

theorem mkfs_image_witness:
  "\<exists>d. mkfs_main [([115, 104, 46, 101, 108, 102], Some [1, 2, 3]), ([47, 116, 46, 101, 108, 102], Some [])] = Inr d \<and>
     kentry d 8 2 = entry 4 [115, 104] \<and> kblock d (unat (d_zone (kinode d 4) 0)) 2 = 3"
proof -
  let ?ps = "[([115, 104, 46, 101, 108, 102], [1, 2, 3]), ([47, 116, 46, 101, 108, 102], [])] :: (u8 list \<times> u8 list) list"
  have names: "program_name [115, 104, 46, 101, 108, 102] = Some [115, 104]" "program_name [47, 116, 46, 101, 108, 102] = Some [116]"
    by (simp_all add: program_name_def base_name_def Let_def)
  obtain d where d: "mkfs_main (map (\<lambda>(path, data). (path, Some data)) ?ps) = Inr d"
    "\<forall>k<length ?ps. kentry d 8 (2 + k) = entry (4 + k) (the (program_name (fst (?ps ! k)))) \<and>
       (\<forall>i<length (snd (?ps ! k)). kblock d (unat (d_zone (kinode d (4 + k)) (i div 1024))) (i mod 1024) = snd (?ps ! k) ! i)"
    using mkfs_image [of ?ps] names by auto
  from d(2) [rule_format, of 0] have "kentry d 8 2 = entry 4 [115, 104]" "kblock d (unat (d_zone (kinode d 4) 0)) 2 = 3"
    using names by auto
  then show ?thesis using d(1) by auto
qed

end
