(* ===== verification/Pool.thy ===== *)
theory Pool
  imports Prelude
begin

text \<open>
  The contract of a pool of numbers: a set of numbers in use below a bound, a search for the
  first free one, and operations that take and return a single number and report its old state.
  Whatever the order of allocations and releases, no number is ever held twice.
\<close>

locale id_pool =
  fixes used :: "'m \<Rightarrow> nat set"
    and bound :: nat
    and first_free :: "'m \<Rightarrow> nat"
    and take :: "nat \<Rightarrow> 'm \<Rightarrow> bool \<times> 'm"
    and give :: "nat \<Rightarrow> 'm \<Rightarrow> bool \<times> 'm"
  assumes used_bound: "used m \<subseteq> {..<bound}"
    and first_le: "first_free m \<le> bound"
    and first_used: "i < first_free m \<Longrightarrow> i \<in> used m"
    and first_notin: "first_free m < bound \<Longrightarrow> first_free m \<notin> used m"
    and take_was: "i < bound \<Longrightarrow> fst (take i m) \<longleftrightarrow> i \<in> used m"
    and take_used: "i < bound \<Longrightarrow> used (snd (take i m)) = insert i (used m)"
    and give_was: "i < bound \<Longrightarrow> fst (give i m) \<longleftrightarrow> i \<notin> used m"
    and give_used: "i < bound \<Longrightarrow> used (snd (give i m)) = used m - {i}"
begin

lemma full_iff: "first_free m = bound \<longleftrightarrow> used m = {..<bound}"
proof
  assume "first_free m = bound"
  then have "{..<bound} \<subseteq> used m" using first_used by auto
  then show "used m = {..<bound}" using used_bound by blast
next
  assume "used m = {..<bound}"
  then show "first_free m = bound" using first_notin [of m] first_le [of m] by force
qed

text \<open>
  A run of requests: \<open>None\<close> allocates the first free number, if there is one; \<open>Some i\<close> returns
  \<open>i\<close>, if it is held. The result is the pool and the numbers held by the clients.
\<close>

fun serve :: "nat option list \<Rightarrow> 'm \<times> nat list \<Rightarrow> 'm \<times> nat list" where
  "serve [] (m, held) = (m, held)"
| "serve (None # rs) (m, held) =
     serve rs (if first_free m < bound then (snd (take (first_free m) m), first_free m # held) else (m, held))"
| "serve (Some i # rs) (m, held) =
     serve rs (if i \<in> set held then (snd (give i m), remove1 i held) else (m, held))"

definition serves :: "nat set \<Rightarrow> 'm \<times> nat list \<Rightarrow> bool" where
  "serves base = (\<lambda>(m, held). distinct held \<and> used m = base \<union> set held \<and> base \<inter> set held = {})"

lemma serve_serves: "serves base x \<Longrightarrow> serves base (serve rs x)"
proof (induction rs x rule: serve.induct)
  case (2 rs m held)
  show ?case
  proof (cases "first_free m < bound")
    case True
    have "serves base (snd (take (first_free m) m), first_free m # held)"
      using "2.prems" first_notin [OF True] take_used [OF True] by (auto simp: serves_def)
    with "2.IH" True show ?thesis by simp
  next
    case False
    with 2 show ?thesis by simp
  qed
next
  case (3 i rs m held)
  show ?case
  proof (cases "i \<in> set held")
    case True
    have "i < bound" using "3.prems" True used_bound [of m] by (auto simp: serves_def)
    then have "serves base (snd (give i m), remove1 i held)"
      using "3.prems" True give_used [of i m] by (auto simp: serves_def)
    with "3.IH" True show ?thesis by simp
  next
    case False
    with 3 show ?thesis by simp
  qed
qed simp

end

end
