(* ===== verification/Zones.thy ===== *)
theory Zones
  imports Bitmap Cache Pool
begin

text \<open>
  The bitmaps refine sets: the bit operations on a bitmap block are insertion, deletion and
  least free element of the set of its bits, and \<open>new_block\<close> allocates.
\<close>

section \<open>A bitmap block is a set\<close>

definition bits :: "block \<Rightarrow> nat set" where
  "bits d = {i. i < 8192 \<and> test_bit i d}"

lemma test_bit_iff: "test_bit nr d \<longleftrightarrow> bit (d (nr div 8)) (nr mod 8)"
  by (simp add: test_bit_def and_one_eq bit_iff_odd_drop_bit odd_iff_mod_2_eq_one)

lemma mask_bit: "(b :: u8) AND push_bit k 1 \<noteq> 0 \<longleftrightarrow> bit b k"
  by (simp only: bit_iff_and_push_bit_not_eq_0)

lemma div_mod_8: "i div 8 = j div 8 \<Longrightarrow> i mod 8 = j mod 8 \<Longrightarrow> i = j" for i j :: nat
  by (metis div_mult_mod_eq)

lemma test_set_bit: "test_bit i (snd (set_bit nr d)) \<longleftrightarrow> i = nr \<or> test_bit i d"
  using div_mod_8 [of i nr] by (auto simp: test_bit_iff set_bit_def Let_def bit_simps)

lemma test_clear_bit: "test_bit i (snd (clear_bit nr d)) \<longleftrightarrow> i \<noteq> nr \<and> test_bit i d"
  using div_mod_8 [of i nr] by (auto simp: test_bit_iff clear_bit_def Let_def bit_simps)

lemma fst_set_bit: "fst (set_bit nr d) \<longleftrightarrow> test_bit nr d"
  by (simp only: set_bit_def Let_def mask_bit test_bit_iff fst_conv)

lemma fst_clear_bit: "fst (clear_bit nr d) \<longleftrightarrow> \<not> test_bit nr d"
  by (simp only: clear_bit_def Let_def mask_bit test_bit_iff fst_conv)

lemma find_first_zero_cases:
  "find_first_zero d \<le> 8192 \<and> (\<forall>i<find_first_zero d. test_bit i d) \<and>
   (find_first_zero d < 8192 \<longrightarrow> \<not> test_bit (find_first_zero d) d)"
proof (cases "search (\<lambda>i. \<not> test_bit i d) 0 8192")
  case None
  then have "\<forall>i<8192. test_bit i d" by (simp add: search_None_iff)
  with None show ?thesis by (simp add: find_first_zero_def)
next
  case (Some i)
  then have "i < 8192 \<and> \<not> test_bit i d \<and> (\<forall>j<i. test_bit j d)" by (simp add: search_Some_iff)
  with Some show ?thesis by (simp add: find_first_zero_def)
qed

interpretation bitmap: id_pool bits 8192 find_first_zero set_bit clear_bit
proof
  fix m i
  show "bits m \<subseteq> {..<8192}" by (auto simp: bits_def)
  show "find_first_zero m \<le> 8192" using find_first_zero_cases by blast
  show "i < find_first_zero m \<Longrightarrow> i \<in> bits m" using find_first_zero_cases [of m] by (simp add: bits_def)
  show "find_first_zero m < 8192 \<Longrightarrow> find_first_zero m \<notin> bits m" using find_first_zero_cases [of m] by (simp add: bits_def)
  assume i: "i < 8192"
  then show "fst (set_bit i m) \<longleftrightarrow> i \<in> bits m" "fst (clear_bit i m) \<longleftrightarrow> i \<notin> bits m"
    by (simp_all add: fst_set_bit fst_clear_bit bits_def)
  show "bits (snd (set_bit i m)) = insert i (bits m)" "bits (snd (clear_bit i m)) = bits m - {i}"
    using i by (auto simp: bits_def test_set_bit test_clear_bit)
qed

text \<open>
  C31: A bitmap block implements a set of numbers below 8192: \<open>set_bit\<close> inserts and \<open>clear_bit\<close>
  deletes, each answering with the old state of the bit, and \<open>find_first_zero\<close> is the least
  number that is free, 8192 exactly when none is.
\<close>

theorem bitmap_refines_set:
  assumes "nr < 8192"
  shows "fst (set_bit nr d) = (nr \<in> bits d) \<and> bits (snd (set_bit nr d)) = insert nr (bits d) \<and>
    fst (clear_bit nr d) = (nr \<notin> bits d) \<and> bits (snd (clear_bit nr d)) = bits d - {nr} \<and>
    (if bits d = {..<8192} then find_first_zero d = 8192
     else find_first_zero d = (LEAST i. i \<notin> bits d))"
proof -
  have "find_first_zero d = (LEAST i. i \<notin> bits d)" if "bits d \<noteq> {..<8192}"
  proof (rule Least_equality [symmetric])
    have "find_first_zero d < 8192" using that bitmap.full_iff [of d] bitmap.first_le [of d] by linarith
    then show "find_first_zero d \<notin> bits d" by (rule bitmap.first_notin)
    show "find_first_zero d \<le> i" if "i \<notin> bits d" for i using that bitmap.first_used not_less by blast
  qed
  then show ?thesis
    using assms bitmap.take_was bitmap.take_used bitmap.give_was bitmap.give_used bitmap.full_iff by simp
qed

text \<open>
  Whatever the order in which numbers are allocated from a bitmap block and given back, no
  number is handed out while a client holds it or while it was in use at the start, and at any
  time the bits set are those of the start and those held.
\<close>

theorem bitmap_never_twice:
  assumes "distinct held" "bits d = base \<union> set held" "base \<inter> set held = {}"
    and "bitmap.serve rs (d, held) = (d', held')"
  shows "distinct held' \<and> bits d' = base \<union> set held' \<and> base \<inter> set held' = {}"
  using bitmap.serve_serves [of base "(d, held)" rs] assms by (simp add: bitmap.serves_def)

theorem bitmap_refines_set_witness:
  "let d = (\<lambda>_. 0)(0 := 7) in fst (set_bit 5 d) = (5 \<in> bits d) \<and> bits (snd (set_bit 5 d)) = insert 5 (bits d) \<and>
    fst (clear_bit 5 d) = (5 \<notin> bits d) \<and> bits (snd (clear_bit 5 d)) = bits d - {5} \<and>
    (if bits d = {..<8192} then find_first_zero d = 8192 else find_first_zero d = (LEAST i. i \<notin> bits d))"
  using bitmap_refines_set [of 5 "(\<lambda>_. 0)(0 := 7)"] by (simp only: Let_def) simp

theorem bitmap_never_twice_witness:
  "let (d', held') = bitmap.serve [None, None, Some 0, None] (\<lambda>_. 0, [])
   in distinct held' \<and> bits d' = {} \<union> set held' \<and> {} \<inter> set held' = ({} :: nat set)"
proof -
  obtain d' held' where run: "bitmap.serve [None, None, Some 0, None] (\<lambda>_. 0, []) = (d', held')" by fastforce
  have "bits (\<lambda>_. 0) = {} \<union> set []" by (simp add: bits_def test_bit_iff)
  from bitmap_never_twice [OF _ this _ run] show ?thesis unfolding run by simp
qed

section \<open>Allocating a zone\<close>

lemma get_super_loop:
  assumes "k < NR_SUPER" "ucast (s_dev (super_blocks s k)) = dev" "s_lock (super_blocks s k) = 0"
    "\<And>j. j < k \<Longrightarrow> ucast (s_dev (super_blocks s j)) \<noteq> dev" "i \<le> k" "k - i < m" "0 < n"
  shows "loop_fuel m (get_super_step dev) i n s = Done (Some k) s"
  using assms(5,6)
proof (induction m arbitrary: i)
  case (Suc m)
  show ?case
  proof (cases "i = k")
    case True
    have "wait_on_super k n s = Done () s" unfolding wait_on_super_def by (rule wait_while_exec) (use assms in simp_all)
    then show ?thesis using True assms(1,2) by (simp add: get_super_step_def kexec)
  next
    case False
    then have "i < k" using Suc.prems by simp
    then have "get_super_step dev i n s = Done (Inl (i + 1)) s"
      using assms(1,4) by (simp add: get_super_step_def kexec)
    then show ?thesis using Suc.IH [of "i + 1"] Suc.prems \<open>i < k\<close> by (simp add: bind_exec)
  qed
qed simp

lemma get_super_exec:
  fixes d :: u16
  assumes "k < NR_SUPER" "s_dev (super_blocks s k) = d" "s_lock (super_blocks s k) = 0" "d \<noteq> 0"
    "\<And>j. j < k \<Longrightarrow> s_dev (super_blocks s j) \<noteq> d" "k < n"
  shows "get_super (ucast d) n s = Done (Some k) s"
proof -
  have inj: "ucast a = (ucast d :: u32) \<longleftrightarrow> a = d" for a :: u16 by (metis ucast_u16)
  then have "ucast d \<noteq> (0 :: u32)" using assms(4) inj [of 0] by (metis unsigned_0)
  then show ?thesis using get_super_loop [of k s "ucast d" 0 n n] assms by (simp add: get_super_def loop_def inj)
qed

lemma brelse_exec:
  assumes "b_lock (buffers s i) = 0" "b_count (buffers s i) \<noteq> 0" "0 < n"
  shows "brelse (Some i) n s = Done () (wake_up_state Buffer_wait (upd_buffer i (\<lambda>b. b\<lparr>b_count := b_count b - 1\<rparr>) s))"
  using assms by (simp add: brelse_def brelse_buf_def kexec wait_on_buffer_exec wake_up_def)

text \<open>Changes that the queues of the cache do not see.\<close>

definition same_place :: "buffer_head \<Rightarrow> buffer_head \<Rightarrow> bool" where
  "same_place b c \<longleftrightarrow> b_dev c = b_dev b \<and> b_blocknr c = b_blocknr b \<and> b_next c = b_next b \<and> b_prev c = b_prev b \<and>
     b_next_free c = b_next_free b \<and> b_prev_free c = b_prev_free b"

lemma cache_ok_cong:
  assumes "\<And>i. same_place (buffers s i) (buffers t i)" "hash_table t = hash_table s" "free_list t = free_list s"
    "nr_buffers t = nr_buffers s"
  shows "cache_ok t L F = cache_ok s L F"
proof -
  have "queues t A L F = queues s A L F" for A
    by (rule queues_cong) (use assms in \<open>simp_all add: field_defs same_place_def hash_of_def\<close>)
  moreover have "caches (buffers t i) = caches (buffers s i)" for i
    using assms(1) by (simp add: caches_def same_place_def fun_eq_iff)
  ultimately show ?thesis using assms(4) by (simp add: cache_ok_def)
qed

lemma cache_ok_upd: "(\<And>b. same_place b (f b)) \<Longrightarrow> cache_ok (upd_buffer i f s) L F = cache_ok s L F"
  by (rule cache_ok_cong) (simp_all add: upd_buffer_def same_place_def)

lemma wake_buffers [simp]: "buffers (wake_up_state Buffer_wait s) = buffers s"
  by (simp add: wake_up_state_def set_state_def upd_task_def split: option.split)

lemma cache_ok_wake: "cache_ok (wake_up_state Buffer_wait s) L F = cache_ok s L F"
  by (rule cache_ok_cong)
    (simp_all add: wake_up_state_def set_state_def upd_task_def same_place_def split: option.split)

text \<open>
  \<open>getblk\<close> for a block nobody uses: the buffer has one user, and no other buffer changes but in
  its place in the queues.
\<close>

lemma getblk_unused:
  fixes d :: u16
  assumes ok: "cache_ok s L F" and fuel: "nr_buffers s < n" and two: "2 \<le> nr_buffers s" and d: "d \<noteq> 0"
    and free: "\<exists>i\<in>set F. recyclable (buffers s i)"
    and unused: "\<And>i. i < nr_buffers s \<Longrightarrow> caches (buffers s i) (ucast d) block \<Longrightarrow> b_count (buffers s i) = 0 \<and> b_lock (buffers s i) = 0"
  obtains v t L' F' where "getblk (ucast d) block n s = Done v t" "cache_ok t L' F'" "v < nr_buffers s" "cache_frame s t"
    "b_dev (buffers t v) = d" "b_blocknr (buffers t v) = block" "b_count (buffers t v) = 1" "b_lock (buffers t v) = 0"
    "b_count (buffers s v) = 0" "\<And>j. j \<noteq> v \<Longrightarrow> strip (buffers t j) = strip (buffers s j)"
proof (cases "\<exists>j<nr_buffers s. caches (buffers s j) (ucast d) block")
  case True
  then obtain i where i: "i < nr_buffers s" "caches (buffers s i) (ucast d) block" by blast
  note u = unused [OF i]
  have "b_dev (buffers s i) = d" "b_blocknr (buffers s i) = block" using i(2) ucast_u16 by (auto simp: caches_def) (metis ucast_u16)
  then show thesis
    using that [OF getblk_hit [OF ok fuel i conjunct2 [OF u]] use_buffer_ok [OF ok] i(1)] u
    by (simp add: use_buffer_def upd_buffer_def cache_frame_def)
next
  case False
  obtain xs v ys where F: "F = xs @ v # ys" "\<forall>x\<in>set xs. \<not> recyclable (buffers s x)" "recyclable (buffers s v)"
    by (rule first_recyclable [OF free])
  have "v < nr_buffers s" using ok F(1) by (auto simp: cache_ok_def queues_def)
  have "\<not> caches (buffers s j) (ucast d) block" if "j < nr_buffers s" for j using False that by blast
  from getblk_miss [OF ok fuel two d this F] obtain t L' where
    t: "getblk (ucast d) block n s = Done v t" "cache_ok t L' (remove1 v F @ [v])" "cache_frame s t"
    "strip (buffers t v) = strip ((buffers s v)\<lparr>b_count := 1, b_dirt := 0, b_uptodate := 0, b_dev := d, b_blocknr := block\<rparr>)"
    "\<forall>j. j \<noteq> v \<longrightarrow> strip (buffers t j) = strip (buffers s j)" by blast
  show thesis
    using that [OF t(1,2) \<open>v < nr_buffers s\<close> t(3)] strip_fields [OF t(4)] F(3) t(5) by (simp add: recyclable_def)
qed

text \<open>
  The state in which zone \<open>z\<close> has just been taken by setting bit \<open>j\<close> of the map in buffer \<open>bh\<close>,
  and the new contents of the zone's own buffer.
\<close>

definition taken :: "nat \<Rightarrow> nat \<Rightarrow> kstate \<Rightarrow> kstate" where
  "taken bh j s = mark_dirty bh (upd_buffer bh (\<lambda>b. b\<lparr>b_data := snd (set_bit j (b_data (buffers s bh)))\<rparr>) s)"

definition cleared :: "buffer_head \<Rightarrow> buffer_head" where
  "cleared b = b\<lparr>b_data := (\<lambda>i. if i < BLOCK_SIZE then 0 else b_data b i), b_uptodate := 1, b_dirt := 1\<rparr>"

lemma taken_buffers:
  "buffers (taken bh j s) = (buffers s)(bh := (buffers s bh)\<lparr>b_data := snd (set_bit j (b_data (buffers s bh))), b_dirt := 1\<rparr>)"
  by (simp add: taken_def mark_dirty_def upd_buffer_def fun_eq_iff)

lemma find_map_free:
  assumes "find_map zmap s = Some (i, bh, j)"
  shows "zmap i = Some bh" "i < 8" "j < 8192" "\<not> test_bit j (b_data (buffers s bh))"
proof -
  obtain i' where i': "search (\<lambda>i. case zmap i of None \<Rightarrow> False | Some bh \<Rightarrow> find_first_zero (b_data (buffers s bh)) < 8192) 0 8 = Some i'"
    using assms by (auto simp: find_map_def split: option.splits)
  then have "i' = i" "zmap i = Some bh" "j = find_first_zero (b_data (buffers s bh))"
    using assms by (auto simp: find_map_def split: option.splits)
  moreover from i' have "i' < 8 \<and> (case zmap i' of None \<Rightarrow> False | Some bh \<Rightarrow> find_first_zero (b_data (buffers s bh)) < 8192)"
    by (simp add: search_Some_iff)
  ultimately show "zmap i = Some bh" "i < 8" "j < 8192" "\<not> test_bit j (b_data (buffers s bh))"
    using find_first_zero_cases [of "b_data (buffers s bh)"] by auto
qed

lemma new_block_exec:
  fixes d :: u16
  assumes "get_super (ucast d) n s = Done (Some sb) s"
    and "find_map (s_zmap (super_blocks s sb)) s = Some (i, bh, j)"
    and "z = word_of_nat j + word_of_nat (i * 8192) + ucast (s_firstdatazone (super_blocks s sb)) - 1"
    and "z <s ucast (s_nzones (super_blocks s sb))"
  shows "new_block (ucast d) n s = fresh_block (ucast d) z n (taken bh j s)"
proof -
  have "set_map_bit j bh n s = Done False (upd_buffer bh (\<lambda>b. b\<lparr>b_data := snd (set_bit j (b_data (buffers s bh)))\<rparr>) s)"
    using find_map_free(4) [OF assms(2)] fst_set_bit [of j "b_data (buffers s bh)"]
    by (cases "set_bit j (b_data (buffers s bh))") (simp add: set_map_bit_def kexec)
  moreover have "super_blocks (taken bh j s) = super_blocks s" by (simp add: taken_def mark_dirty_def upd_buffer_def)
  moreover have "\<not> ucast (s_nzones (super_blocks s sb)) \<le>s z" using assms(4) by (simp add: word_sless_alt word_sle_eq)
  ultimately show ?thesis unfolding new_block_def bind_exec assms(1) bindp.simps option.case gets_exec assms(2) prod.case
    using assms(3) by (simp add: kexec Let_def flip: taken_def)
qed

lemma fresh_block_exec:
  assumes "getblk dev z n s = Done v t" "b_count (buffers t v) = 1" "b_lock (buffers t v) = 0" "0 < n"
  shows "fresh_block dev z n s =
     Done z (wake_up_state Buffer_wait (upd_buffer v (\<lambda>b. b\<lparr>b_count := b_count b - 1\<rparr>) (upd_buffer v cleared t)))"
proof -
  have "(\<lambda>b. b\<lparr>b_data := \<lambda>i. if i < BLOCK_SIZE then 0 else b_data b i, b_uptodate := 1, b_dirt := 1\<rparr>) = cleared"
    by (simp add: cleared_def fun_eq_iff)
  moreover have "brelse (Some v) n (upd_buffer v cleared t) =
      Done () (wake_up_state Buffer_wait (upd_buffer v (\<lambda>b. b\<lparr>b_count := b_count b - 1\<rparr>) (upd_buffer v cleared t)))"
    by (rule brelse_exec) (use assms in \<open>simp_all add: upd_buffer_def cleared_def\<close>)
  ultimately show ?thesis using assms(1,2) by (simp add: fresh_block_def kexec)
qed

text \<open>
  C24: When a zone map of the device has a free bit and the zone it stands for is on the device,
  \<open>new_block\<close> returns that zone: the bit was clear and is the only one that changes, the map
  block is marked to be written, the zone has a buffer of its own that holds 1024 zero bytes,
  valid, dirty and unused, no other buffer changes its contents and the cache stays well-formed.
\<close>

theorem new_block_correct:
  fixes d :: u16
  assumes ok: "cache_ok s L F" and fuel: "nr_buffers s < n" "8 \<le> n" and two: "2 \<le> nr_buffers s" and d: "d \<noteq> 0"
    and sb: "sb < NR_SUPER" "s_dev (super_blocks s sb) = d" "s_lock (super_blocks s sb) = 0" "\<And>k. k < sb \<Longrightarrow> s_dev (super_blocks s k) \<noteq> d"
    and map: "find_map (s_zmap (super_blocks s sb)) s = Some (i, bh, j)" "b_count (buffers s bh) \<noteq> 0"
    and z: "z = word_of_nat j + word_of_nat (i * 8192) + ucast (s_firstdatazone (super_blocks s sb)) - 1"
      "z <s ucast (s_nzones (super_blocks s sb))"
    and free: "\<exists>v\<in>set F. recyclable (buffers s v)"
    and unused: "\<And>k. k < nr_buffers s \<Longrightarrow> caches (buffers s k) (ucast d) z \<Longrightarrow> b_count (buffers s k) = 0 \<and> b_lock (buffers s k) = 0"
  shows "\<exists>v t L' F'. new_block (ucast d) n s = Done z t \<and> cache_ok t L' F' \<and>
     j \<notin> bits (b_data (buffers s bh)) \<and> bits (b_data (buffers t bh)) = insert j (bits (b_data (buffers s bh))) \<and>
     b_dirt (buffers t bh) = 1 \<and> v < nr_buffers t \<and> v \<noteq> bh \<and> caches (buffers t v) (ucast d) z \<and>
     (\<forall>k<1024. b_data (buffers t v) k = 0) \<and> b_uptodate (buffers t v) = 1 \<and> b_dirt (buffers t v) = 1 \<and> b_count (buffers t v) = 0 \<and>
     (\<forall>k. k \<noteq> v \<and> k \<noteq> bh \<longrightarrow> b_data (buffers t k) = b_data (buffers s k))"
proof -
  let ?s = "taken bh j s"
  note bit = find_map_free [OF map(1)]
  have run: "new_block (ucast d) n s = fresh_block (ucast d) z n ?s"
    by (rule new_block_exec [OF get_super_exec map(1) z]) (use sb d fuel in simp_all)
  have nr: "nr_buffers ?s = nr_buffers s" by (simp add: taken_def mark_dirty_def upd_buffer_def)
  have ok1: "cache_ok ?s L F" using ok by (simp add: taken_def mark_dirty_def cache_ok_upd same_place_def)
  have free1: "\<exists>v\<in>set F. recyclable (buffers ?s v)"
    using free map(2) by (auto simp: taken_buffers recyclable_def)
  have unused1: "b_count (buffers ?s k) = 0 \<and> b_lock (buffers ?s k) = 0"
    if "k < nr_buffers ?s" "caches (buffers ?s k) (ucast d) z" for k
    using unused [of k] that by (cases "k = bh") (simp_all add: nr taken_buffers caches_def)
  obtain v t L' F' where g: "getblk (ucast d) z n ?s = Done v t" "cache_ok t L' F'" "v < nr_buffers ?s" "cache_frame ?s t"
    "b_dev (buffers t v) = d" "b_blocknr (buffers t v) = z" "b_count (buffers t v) = 1" "b_lock (buffers t v) = 0"
    "b_count (buffers ?s v) = 0" "\<And>j. j \<noteq> v \<Longrightarrow> strip (buffers t j) = strip (buffers ?s j)"
    by (rule getblk_unused [OF ok1 _ _ d free1, of n z]) (use fuel two nr unused1 in auto)
  let ?t = "wake_up_state Buffer_wait (upd_buffer v (\<lambda>b. b\<lparr>b_count := b_count b - 1\<rparr>) (upd_buffer v cleared t))"
  have "v \<noteq> bh" using g(9) map(2) by (auto simp: taken_buffers)
  have data: "b_data (buffers t k) = b_data (buffers ?s k) \<and> b_dirt (buffers t k) = b_dirt (buffers ?s k)" if "k \<noteq> v" for k
    using strip_fields [OF g(10) [OF that]] by simp
  have "cache_ok ?t L' F'" using g(2) by (simp add: cache_ok_wake cache_ok_upd same_place_def cleared_def)
  moreover have "nr_buffers ?t = nr_buffers s"
    using cache_frame_fields(1) [OF g(4)] by (simp add: nr wake_up_state_def set_state_def upd_task_def upd_buffer_def split: option.split)
  moreover have "new_block (ucast d) n s = Done z ?t"
    unfolding run using fresh_block_exec [OF g(1,7,8)] fuel by simp
  moreover have "j \<notin> bits (b_data (buffers s bh))" "bits (b_data (buffers ?t bh)) = insert j (bits (b_data (buffers s bh)))" "b_dirt (buffers ?t bh) = 1"
    using bit(3,4) data [of bh] \<open>v \<noteq> bh\<close> by (simp_all add: upd_buffer_def taken_buffers bits_def test_set_bit set_eq_iff) auto
  moreover have "caches (buffers ?t v) (ucast d) z" "\<forall>k<1024. b_data (buffers ?t v) k = 0"
    "b_uptodate (buffers ?t v) = 1" "b_dirt (buffers ?t v) = 1" "b_count (buffers ?t v) = 0"
    using g(5-7) d by (simp_all add: upd_buffer_def cleared_def caches_def)
  moreover have "b_data (buffers ?t k) = b_data (buffers s k)" if "k \<noteq> v \<and> k \<noteq> bh" for k
    using data [of k] that by (simp add: upd_buffer_def taken_buffers)
  ultimately show ?thesis using g(3) nr \<open>v \<noteq> bh\<close> by (intro exI [of _ v] exI [of _ ?t] exI [of _ L'] exI [of _ F']) simp
qed

text \<open>A device whose zone map is pinned in buffer 0, the first three zones in use.\<close>

definition small_zones :: kstate where
  "small_zones = (upd_buffer 0 (\<lambda>b. b\<lparr>b_count := 1, b_data := (\<lambda>_. 0)(0 := 7)\<rparr>) small_cache)\<lparr>super_blocks := (\<lambda>_. zero_super)
     (0 := zero_super\<lparr>s_dev := 0x101, s_zmap := [0 \<mapsto> 0], s_firstdatazone := 5, s_nzones := 64\<rparr>)\<rparr>"

lemma small_zones_buffers:
  "buffers small_zones = (buffers small_cache)(0 := (buffers small_cache 0)\<lparr>b_count := 1, b_data := (\<lambda>_. 0)(0 := 7)\<rparr>)"
  "nr_buffers small_zones = 3"
  by (simp_all add: small_zones_def upd_buffer_def small_cache_simps(2))

lemma small_zones_ok: "cache_ok small_zones (\<lambda>_. []) [0..<3]"
proof -
  have "cache_ok small_zones (\<lambda>_. []) [0..<3] = cache_ok small_cache (\<lambda>_. []) [0..<3]"
    by (rule cache_ok_cong) (simp_all add: small_zones_def upd_buffer_def same_place_def)
  with small_cache_ok(1) show ?thesis by simp
qed

lemma small_zones_map: "find_map (s_zmap (super_blocks small_zones 0)) small_zones = Some (0, 0, 3)"
proof -
  let ?P = "\<lambda>i. \<not> test_bit i ((\<lambda>_. 0)(0 := 7))"
  have "l = 0 \<or> l = 1 \<or> l = 2" if "l < 3" for l :: nat using that by linarith
  moreover have "\<not> ?P 0" "\<not> ?P 1" "\<not> ?P 2" "?P 3" by (simp_all add: test_bit_def)
  ultimately have "search ?P 0 8192 = Some 3" unfolding search_Some_iff by auto
  then have "find_first_zero ((\<lambda>_. 0)(0 := 7)) = 3" by (simp add: find_first_zero_def)
  moreover have "search P 0 8 = Some 0" if "P 0" for P using that by (subst search_unfold) simp
  ultimately show ?thesis unfolding find_map_def small_zones_buffers by (simp add: small_zones_def)
qed

theorem new_block_correct_witness:
  "\<exists>v t. new_block 0x101 8 small_zones = Done 7 t \<and> caches (buffers t v) 0x101 7 \<and> (\<forall>k<1024. b_data (buffers t v) k = 0)"
proof -
  have "recyclable (buffers small_zones 1)" using small_cache_free(2) [of 1] by (simp add: small_zones_buffers)
  then have "\<exists>v\<in>set [0..<3]. recyclable (buffers small_zones v)" by (intro bexI [of _ 1]) simp_all
  moreover have "caches (buffers small_zones k) dev z = False" for k dev z
    using small_cache_free(1) [of k dev z] by (auto simp: small_zones_buffers caches_def)
  moreover have "s_dev (super_blocks small_zones 0) = 0x101" "s_lock (super_blocks small_zones 0) = 0"
    "s_firstdatazone (super_blocks small_zones 0) = 5" "s_nzones (super_blocks small_zones 0) = 64"
    by (simp_all add: small_zones_def zero_super_def)
  moreover have "b_count (buffers small_zones 0) = 1" by (simp add: small_zones_buffers)
  moreover note small_zones_buffers(2)
  ultimately show ?thesis
    using new_block_correct [OF small_zones_ok _ _ _ _ _ _ _ _ small_zones_map, of 8 "0x101" 7]
    by (simp add: word_sless_alt) metis
qed

end
