(* ===== verification/Mount.thy ===== *)
theory Mount
  imports Start Rootfs Zones
begin

text \<open>
  The start of the kernel up to its first process: on an image with a sound super block, the setup
  of \<^verbatim>\<open>init/main.c\<close> and \<open>mount_root\<close> of \<^verbatim>\<open>fs/super.c\<close> run to their end without sleeping, through
  the buffer cache, the ramdisk driver and the inode table. The image that \<open>mkfs\<close> writes is such
  an image, so the kernel and the program that builds its root agree.
\<close>

section \<open>Reading blocks while nobody else runs\<close>

text \<open>What the block layer leaves alone, and the buffers in use.\<close>

definition around :: "kstate \<Rightarrow> kstate \<Rightarrow> bool" where
  "around s t \<longleftrightarrow> inode_table t = inode_table s \<and> last_inode t = last_inode s \<and> super_blocks t = super_blocks s \<and>
     rd_image t = rd_image s \<and> rd_length t = rd_length s \<and> current t = current s \<and> ROOT_DEV t = ROOT_DEV s"

definition holding :: "kstate \<Rightarrow> kstate \<Rightarrow> bool" where
  "holding s t \<longleftrightarrow> nr_buffers t = nr_buffers s \<and>
     (\<forall>i<nr_buffers s. b_count (buffers s i) \<noteq> 0 \<longrightarrow> strip (buffers t i) = strip (buffers s i))"

text \<open>Only the blocks in \<open>K\<close> are cached, no buffer is dirty or locked, and \<open>c\<close> more can be read.\<close>

definition readable :: "kstate \<Rightarrow> nat set \<Rightarrow> nat \<Rightarrow> bool" where
  "readable s K c \<longleftrightarrow> (\<exists>L F. cache_ok s L F) \<and> idle s \<and> buffer_wait s = None \<and> 2 \<le> nr_buffers s \<and>
     (\<forall>i<nr_buffers s. b_lock (buffers s i) = 0 \<and> b_dirt (buffers s i) = 0 \<and>
        (b_dev (buffers s i) \<noteq> 0 \<longrightarrow> unat (b_blocknr (buffers s i)) \<in> K)) \<and>
     card {i. i < nr_buffers s \<and> b_count (buffers s i) \<noteq> 0} + c \<le> nr_buffers s"

text \<open>Buffer \<open>i\<close> holds block \<open>k\<close> for one user, with the bytes \<open>d\<close>.\<close>

definition loaded :: "kstate \<Rightarrow> nat \<Rightarrow> nat \<Rightarrow> (nat \<Rightarrow> u8) \<Rightarrow> bool" where
  "loaded s i k d \<longleftrightarrow> i < nr_buffers s \<and> caches (buffers s i) RD_DEV (word_of_nat k) \<and> b_uptodate (buffers s i) = 1 \<and>
     b_count (buffers s i) = 1 \<and> (\<forall>j<1024. b_data (buffers s i) j = d j)"

lemma around_trans: "around s t \<Longrightarrow> around t u \<Longrightarrow> around s u"
  by (simp add: around_def)

lemma holding_trans:
  assumes "holding s t" "holding t u"
  shows "holding s u"
  using assms strip_fields unfolding holding_def by metis

lemma loaded_kept: "loaded s i k d \<Longrightarrow> holding s t \<Longrightarrow> loaded t i k d"
  unfolding loaded_def holding_def caches_def using strip_fields [of "buffers t i" "buffers s i"] by auto

lemma cache_frame_around:
  assumes "cache_frame s t"
  shows "around s t" "buffer_wait t = buffer_wait s" "nr_buffers t = nr_buffers s"
proof -
  have s: "t\<lparr>buffers := buffers s, hash_table := hash_table s, free_list := free_list s\<rparr> = s"
    using assms by (simp add: cache_frame_def)
  show "around s t" "buffer_wait t = buffer_wait s" "nr_buffers t = nr_buffers s"
    unfolding around_def by (subst s [symmetric], simp)+
qed

lemma blk_frame_around:
  assumes "blk_frame s t" "rd_image t = rd_image s"
  shows "around s t" "buffer_wait t = buffer_wait s" "nr_buffers t = nr_buffers s"
proof -
  have s: "t\<lparr>buffers := buffers s, requests := requests s, current_request := current_request s, tasks := tasks s,
      wait_for_request := wait_for_request s, rd_image := rd_image s\<rparr> = s"
    using assms by (simp add: blk_frame_def)
  show "around s t" "buffer_wait t = buffer_wait s" "nr_buffers t = nr_buffers s"
    unfolding around_def using assms(2) by (subst s [symmetric], simp)+
qed

text \<open>A block that is not cached is read into a buffer nobody uses.\<close>

lemma bread_miss:
  assumes r: "readable s K (Suc c)" and k: "k \<notin> K" "1024 * (k + 1) \<le> unat (rd_length s)" and fuel: "nr_buffers s < n"
  shows "\<exists>i t. bread RD_DEV (word_of_nat k) n s = Done (Some i) t \<and> readable t (insert k K) c \<and> around s t \<and>
     holding s t \<and> loaded t i k (\<lambda>j. rd_image s (1024 * k + j)) \<and> b_count (buffers s i) = 0"
proof -
  define w :: u32 where "w = word_of_nat k"
  have "unat (rd_length s) < 4294967296" using unsigned_less [of "rd_length s"] by simp
  then have w: "unat w = k" using k(2) by (simp add: w_def unat_of_nat)
  obtain L F where ok: "cache_ok s L F" and idle: "idle s" and two: "2 \<le> nr_buffers s" and bw: "buffer_wait s = None"
    and clean: "\<And>i. i < nr_buffers s \<Longrightarrow> b_lock (buffers s i) = 0 \<and> b_dirt (buffers s i) = 0 \<and>
        (b_dev (buffers s i) \<noteq> 0 \<longrightarrow> unat (b_blocknr (buffers s i)) \<in> K)"
    and cnt: "card {i. i < nr_buffers s \<and> b_count (buffers s i) \<noteq> 0} + Suc c \<le> nr_buffers s"
    using r by (auto simp: readable_def)
  have F: "set F = {..<nr_buffers s}" using ok by (simp add: cache_ok_def queues_def)
  have "\<exists>i<nr_buffers s. b_count (buffers s i) = 0"
  proof (rule ccontr)
    assume "\<not> ?thesis"
    then have "{i. i < nr_buffers s \<and> b_count (buffers s i) \<noteq> 0} = {..<nr_buffers s}" by auto
    then show False using cnt by simp
  qed
  then have "\<exists>i\<in>set F. recyclable (buffers s i)" using clean F by (auto simp: recyclable_def)
  then obtain xs v ys where v: "F = xs @ v # ys" "\<forall>x\<in>set xs. \<not> recyclable (buffers s x)" "recyclable (buffers s v)"
    by (rule first_recyclable)
  then have vn: "v < nr_buffers s" using F by auto
  have new: "\<not> caches (buffers s j) (ucast (0x101 :: u16)) w" if "j < nr_buffers s" for j
    using clean [OF that] k(1) w by (auto simp: caches_def)
  obtain t L' where t: "getblk RD_DEV w n s = Done v t" "cache_ok t L' (remove1 v F @ [v])" "cache_frame s t"
    "strip (buffers t v) = strip ((buffers s v)\<lparr>b_count := 1, b_dirt := 0, b_uptodate := 0, b_dev := 0x101, b_blocknr := w\<rparr>)"
    "\<And>j. j \<noteq> v \<Longrightarrow> strip (buffers t j) = strip (buffers s j)"
    using getblk_miss [OF ok fuel two _ new v] by auto
  note tv = strip_fields [OF t(4)] and fr = cache_frame_around [OF t(3)]
  have cv: "caches (buffers t v) RD_DEV w" using tv by (simp add: caches_def)
  have len: "rd_length t = rd_length s" "rd_image t = rd_image s" using fr(1) by (simp_all add: around_def)
  obtain u where u: "ll_rw_block READ v n t = Done () u" "blk_frame t u" "idle u" "cache_ok u L' (remove1 v F @ [v])"
    "buffers u = (buffers t)(v := done_buffer t READ (buffers t v))" "rd_image u = rd_image t"
    using fill_exec [OF t(2) _ _ cv, of n] idle_frame [OF t(3)] idle tv fuel two k(2) w len clean [OF vn] by auto
  note fu = blk_frame_around [OF u(2,6)]
  have uv: "b_uptodate (buffers u v) = 1" "b_count (buffers u v) = 1" "b_lock (buffers u v) = 0" "b_dirt (buffers u v) = 0"
      "b_dev (buffers u v) = 0x101" "b_blocknr (buffers u v) = w" "\<forall>j<1024. b_data (buffers u v) j = rd_image s (1024 * k + j)"
    using tv w len by (simp_all add: u(5) done_buffer_def image_read_def)
  have uj: "strip (buffers u j) = strip (buffers s j)" if "j \<noteq> v" for j using t(5) [OF that] that by (simp add: u(5))
  have nr: "nr_buffers u = nr_buffers s" using fr fu by simp
  have run: "bread RD_DEV w n s = Done (Some v) u"
    using fuel uv tv t(1) u(1) by (simp add: bread_def bread_with_def kexec wait_on_buffer_exec)
  have v0: "b_count (buffers s v) = 0" using v(3) by (simp add: recyclable_def)
  have hold: "holding s u" unfolding holding_def nr using uj v0 by metis
  have used: "b_count (buffers u i) \<noteq> 0 \<longleftrightarrow> i = v \<or> b_count (buffers s i) \<noteq> 0" for i
    using strip_fields [OF uj, of i] uv(2) by (cases "i = v") auto
  have "{i. i < nr_buffers u \<and> b_count (buffers u i) \<noteq> 0} = insert v {i. i < nr_buffers s \<and> b_count (buffers s i) \<noteq> 0}"
    using used vn unfolding nr by auto
  then have "card {i. i < nr_buffers u \<and> b_count (buffers u i) \<noteq> 0} + c \<le> nr_buffers u"
    using cnt v0 nr by simp
  moreover have "b_lock (buffers u i) = 0 \<and> b_dirt (buffers u i) = 0 \<and> (b_dev (buffers u i) \<noteq> 0 \<longrightarrow> unat (b_blocknr (buffers u i)) \<in> insert k K)"
    if "i < nr_buffers u" for i
    using clean [of i] that uv w strip_fields [OF uj, of i] nr by (cases "i = v") auto
  ultimately have "readable u (insert k K) c" using u(3,4) two nr bw fr fu unfolding readable_def by auto
  moreover have "loaded u v k (\<lambda>j. rd_image s (1024 * k + j))" using uv vn nr by (simp add: loaded_def caches_def w_def)
  ultimately show ?thesis using run hold around_trans [OF fr(1) fu(1)] v0 unfolding w_def by blast
qed

text \<open>What the cache needs does not depend on the tables of the file system.\<close>

lemma readable_other [simp]:
  "readable (upd_super sb f s) K c = readable s K c" "readable (upd_inode ino g s) K c = readable s K c"
  "readable (s\<lparr>last_inode := li\<rparr>) K c = readable s K c" "readable (s\<lparr>super_blocks := ps\<rparr>) K c = readable s K c"
  "readable (s\<lparr>file_table := ft\<rparr>) K c = readable s K c"
  by (simp_all add: readable_def cache_ok_def queues_def field_defs idle_def upd_defs)

lemma holding_other [simp]:
  "holding s (upd_super sb f t) = holding s t" "holding s (upd_inode ino g t) = holding s t"
  "holding s (t\<lparr>last_inode := li\<rparr>) = holding s t" "holding (upd_super sb f s) t = holding s t"
  "holding (upd_inode ino g s) t = holding s t" "holding (s\<lparr>last_inode := li\<rparr>) t = holding s t"
  by (simp_all add: holding_def upd_defs)

lemma loaded_other [simp]:
  "loaded (upd_super sb f s) i k d = loaded s i k d" "loaded (upd_inode ino g s) i k d = loaded s i k d"
  "loaded (s\<lparr>last_inode := li\<rparr>) i k d = loaded s i k d"
  by (simp_all add: loaded_def upd_defs)

lemma buffers_other [simp]:
  "buffers (upd_super sb f s) = buffers s" "buffers (upd_inode ino g s) = buffers s"
  "nr_buffers (upd_super sb f s) = nr_buffers s" "nr_buffers (upd_inode ino g s) = nr_buffers s"
  "rd_length (upd_super sb f s) = rd_length s" "rd_length (upd_inode ino g s) = rd_length s"
  "rd_image (upd_super sb f s) = rd_image s" "rd_image (upd_inode ino g s) = rd_image s"
  by (simp_all add: upd_defs)

lemma holding_refl [simp]: "holding s s"
  by (simp add: holding_def)

text \<open>The user of a buffer releases it.\<close>

definition released :: "nat \<Rightarrow> kstate \<Rightarrow> kstate" where
  "released i s = upd_buffer i (\<lambda>b. b\<lparr>b_count := 0\<rparr>) s"

lemma brelse_last:
  assumes r: "readable s K c" and i: "i < nr_buffers s" "b_count (buffers s i) = 1" and n: "0 < n"
  shows "brelse (Some i) n s = Done () (released i s)" "readable (released i s) K (Suc c)"
proof -
  have "b_lock (buffers s i) = 0" "buffer_wait s = None" using r i by (simp_all add: readable_def)
  then show "brelse (Some i) n s = Done () (released i s)"
    using brelse_exec [of s i n] n i by (simp add: wake_up_state_def released_def upd_defs)
  have "{j. j < nr_buffers s \<and> b_count (buffers (released i s) j) \<noteq> 0} = {j. j < nr_buffers s \<and> b_count (buffers s j) \<noteq> 0} - {i}"
    by (auto simp: released_def upd_defs)
  then have "card {j. j < nr_buffers s \<and> b_count (buffers (released i s) j) \<noteq> 0} + Suc c = card {j. j < nr_buffers s \<and> b_count (buffers s j) \<noteq> 0} + c"
    using i card_Suc_Diff1 [of "{j. j < nr_buffers s \<and> b_count (buffers s j) \<noteq> 0}" i] by simp
  moreover have "cache_ok (released i s) L F = cache_ok s L F" for L F
    unfolding released_def by (rule cache_ok_upd) (simp add: same_place_def)
  moreover have "idle (released i s) = idle s" "nr_buffers (released i s) = nr_buffers s" "buffer_wait (released i s) = buffer_wait s"
    "\<And>j. b_lock (buffers (released i s) j) = b_lock (buffers s j) \<and> b_dirt (buffers (released i s) j) = b_dirt (buffers s j) \<and>
      b_dev (buffers (released i s) j) = b_dev (buffers s j) \<and> b_blocknr (buffers (released i s) j) = b_blocknr (buffers s j)"
    by (simp_all add: idle_def released_def upd_defs)
  ultimately show "readable (released i s) K (Suc c)" using r unfolding readable_def by auto
qed

lemma released_fields [simp]:
  "nr_buffers (released i s) = nr_buffers s" "super_blocks (released i s) = super_blocks s"
  "inode_table (released i s) = inode_table s" "rd_image (released i s) = rd_image s" "rd_length (released i s) = rd_length s"
  "around s (released i t) = around s t" "b_data (buffers (released i s) j) = b_data (buffers s j)"
  by (simp_all add: released_def upd_defs around_def)

lemma holding_released: "holding s t \<Longrightarrow> b_count (buffers s i) = 0 \<Longrightarrow> holding s (released i t)"
  by (auto simp: holding_def released_def upd_defs)

section \<open>Mounting the root\<close>

text \<open>The slots of a super block that a loop over the bitmap blocks fills.\<close>

primrec fill_slots :: "(nat \<Rightarrow> nat option \<Rightarrow> super_block \<Rightarrow> super_block) \<Rightarrow> nat \<Rightarrow> nat list \<Rightarrow> super_block \<Rightarrow> super_block" where
  "fill_slots put a [] p = p"
| "fill_slots put a (b # bs) p = fill_slots put (Suc a) bs (put a (Some b) p)"

definition slots :: "nat list \<Rightarrow> nat \<Rightarrow> nat option" where
  "slots bs i = (if i < length bs then Some (bs ! i) else None)"

lemma fill_imap:
  "fill_slots (\<lambda>i b p. p\<lparr>s_imap := (s_imap p)(i := b)\<rparr>) a bs p =
   p\<lparr>s_imap := (\<lambda>i. if a \<le> i \<and> i < a + length bs then Some (bs ! (i - a)) else s_imap p i)\<rparr>"
  by (induction bs arbitrary: a p) (auto simp: fun_eq_iff nth_Cons' intro!: super_block.equality split: if_splits)

lemma fill_zmap:
  "fill_slots (\<lambda>i b p. p\<lparr>s_zmap := (s_zmap p)(i := b)\<rparr>) a bs p =
   p\<lparr>s_zmap := (\<lambda>i. if a \<le> i \<and> i < a + length bs then Some (bs ! (i - a)) else s_zmap p i)\<rparr>"
  by (induction bs arbitrary: a p) (auto simp: fun_eq_iff nth_Cons' intro!: super_block.equality split: if_splits)

lemma fill_slots_0:
  "s_imap p = (\<lambda>_. None) \<Longrightarrow> fill_slots (\<lambda>i b p. p\<lparr>s_imap := (s_imap p)(i := b)\<rparr>) 0 bs p = p\<lparr>s_imap := slots bs\<rparr>"
  "s_zmap p = (\<lambda>_. None) \<Longrightarrow> fill_slots (\<lambda>i b p. p\<lparr>s_zmap := (s_zmap p)(i := b)\<rparr>) 0 bs p = p\<lparr>s_zmap := slots bs\<rparr>"
  by (simp_all add: fill_imap fill_zmap slots_def [abs_def] cong: if_cong)

lemma read_maps_exec:
  assumes "readable s K (c + m)" "K \<subseteq> {..<base + a}" "1024 * (base + a + m) \<le> unat (rd_length s)" "a + m \<le> 8"
    "nr_buffers s < n" and slot: "\<And>i b s. set_slot i b s = upd_super sb (put i b) s"
  shows "\<exists>bs t. length bs = m \<and> read_maps set_slot RD_DEV [a..<a + m] (word_of_nat (base + a)) n s = Done (word_of_nat (base + a + m)) t \<and>
     readable t {..<base + a + m} c \<and> around (upd_super sb (fill_slots put a bs) s) t \<and> holding s t \<and>
     (\<forall>i<m. loaded t (bs ! i) (base + a + i) (\<lambda>j. rd_image s (1024 * (base + a + i) + j)))"
  using assms(1-5)
proof (induction m arbitrary: a K s)
  case 0
  have "readable s {..<base + a} c" using 0(1,2) unfolding readable_def by auto
  then show ?case by (auto simp: kexec around_def upd_defs intro!: exI [of _ s])
next
  case (Suc m)
  have k: "base + a \<notin> K" "1024 * (base + a + 1) \<le> unat (rd_length s)" using Suc.prems by auto
  have "readable s K (Suc (c + m))" using Suc.prems(1) by simp
  then obtain i t where t: "bread RD_DEV (word_of_nat (base + a)) n s = Done (Some i) t" "readable t (insert (base + a) K) (c + m)" "around s t"
    "holding s t" "loaded t i (base + a) (\<lambda>j. rd_image s (1024 * (base + a) + j))"
    using bread_miss [OF _ k Suc.prems(5)] by blast
  let ?u = "upd_super sb (put a (Some i)) t"
  have K: "insert (base + a) K \<subseteq> {..<base + Suc a}" using Suc.prems(2) by auto
  have len: "rd_length t = rd_length s" "rd_image t = rd_image s" using t(3) by (simp_all add: around_def)
  have nr: "nr_buffers t = nr_buffers s" using t(4) by (simp add: holding_def)
  obtain bs v where v: "length bs = m" "read_maps set_slot RD_DEV [Suc a..<Suc a + m] (word_of_nat (base + Suc a)) n ?u = Done (word_of_nat (base + Suc a + m)) v"
     "readable v {..<base + Suc a + m} c" "around (upd_super sb (fill_slots put (Suc a) bs) ?u) v" "holding t v"
     "\<And>j. j < m \<Longrightarrow> loaded v (bs ! j) (base + Suc a + j) (\<lambda>x. rd_image s (1024 * (base + Suc a + j) + x))"
    using Suc.IH [of ?u "insert (base + a) K" "Suc a"] t(2) K Suc.prems(3-5) len nr by auto
  have run: "read_maps set_slot RD_DEV [a..<a + Suc m] (word_of_nat (base + a)) n s = Done (word_of_nat (base + a + Suc m)) v"
    using Suc.prems(4) t(1) v(2) by (simp add: upt_conv_Cons kexec slot add.commute [of 1] del: upt_Suc)
  have "around (upd_super sb (fill_slots put a (i # bs)) s) v" using v(4) t(3) by (auto simp: around_def upd_defs)
  moreover have "loaded v ((i # bs) ! j) (base + a + j) (\<lambda>x. rd_image s (1024 * (base + a + j) + x))" if "j < Suc m" for j
    using that v(6) [of "j - 1"] loaded_kept [OF t(5) v(5)] by (cases j) auto
  moreover have "length (i # bs) = Suc m" "readable v {..<base + a + Suc m} c" using v(1,3) by simp_all
  ultimately show ?case using run holding_trans [OF t(4) v(5)] by blast
qed

text \<open>Running code step by step.\<close>

lemma get_d_super_cong: "(\<And>j. j < 1024 \<Longrightarrow> d j = e j) \<Longrightarrow> get_d_super d p = get_d_super e p"
  by (simp add: get_d_super_def get16_def get32_def)

lemma readable_data [simp]: "readable (upd_buffer i (\<lambda>b. b\<lparr>b_data := f b\<rparr>) s) K c = readable s K c"
proof -
  let ?t = "upd_buffer i (\<lambda>b. b\<lparr>b_data := f b\<rparr>) s"
  have "cache_ok ?t = cache_ok s" by (intro ext, rule cache_ok_upd) (simp add: same_place_def)
  moreover have "nr_buffers ?t = nr_buffers s" "buffer_wait ?t = buffer_wait s" "idle ?t = idle s"
    "\<And>j. b_lock (buffers ?t j) = b_lock (buffers s j) \<and> b_dirt (buffers ?t j) = b_dirt (buffers s j) \<and>
      b_dev (buffers ?t j) = b_dev (buffers s j) \<and> b_blocknr (buffers ?t j) = b_blocknr (buffers s j) \<and>
      b_count (buffers ?t j) = b_count (buffers s j)"
    by (simp_all add: upd_defs idle_def)
  ultimately show ?thesis unfolding readable_def by simp
qed

text \<open>\<open>load_super\<close> marks bit 0 of the first block of either map as taken.\<close>

definition mark_first :: "nat \<Rightarrow> kstate \<Rightarrow> kstate" where
  "mark_first i s = upd_buffer i (\<lambda>b. b\<lparr>b_data := (b_data b)(0 := b_data b 0 OR 1)\<rparr>) s"

definition marked_block :: "nat \<Rightarrow> (nat \<Rightarrow> u8) \<Rightarrow> nat \<Rightarrow> u8" where
  "marked_block i d = (if i = 0 then d(0 := d 0 OR 1) else d)"

lemma loaded_distinct:
  assumes "loaded s i k d" "loaded s j l e" "k \<noteq> l" "k < 4294967296" "l < 4294967296"
  shows "i \<noteq> j"
proof -
  have "(word_of_nat k :: u32) \<noteq> word_of_nat l"
  proof
    assume "(word_of_nat k :: u32) = word_of_nat l"
    then have "unat (word_of_nat k :: u32) = unat (word_of_nat l :: u32)" by simp
    then show False using assms(3-5) by (simp add: unat_of_nat)
  qed
  then show ?thesis using assms(1,2) by (auto simp: loaded_def caches_def)
qed

lemma loaded_mark:
  "loaded s i k d \<Longrightarrow> loaded (mark_first i s) i k (marked_block 0 d)"
  "loaded s j k d \<Longrightarrow> j \<noteq> i \<Longrightarrow> loaded (mark_first i s) j k d"
  by (auto simp: loaded_def mark_first_def marked_block_def caches_def upd_defs)

lemma readable_mark [simp]: "readable (mark_first i s) K c = readable s K c"
  by (simp add: mark_first_def)

lemma mark_fields [simp]:
  "super_blocks (mark_first i s) = super_blocks s" "around s (mark_first i t) = around s t"
  "nr_buffers (mark_first i s) = nr_buffers s"
  by (simp_all add: mark_first_def upd_defs around_def)

lemma loaded_mark_maps:
  assumes "\<And>i. i < length is \<Longrightarrow> loaded s (is ! i) (2 + i) (d (2 + i))"
    and "\<And>i. i < length zs \<Longrightarrow> loaded s (zs ! i) (2 + length is + i) (d (2 + length is + i))"
    and "0 < length is" "0 < length zs" "length is \<le> 8" "length zs \<le> 8"
  shows "i < length is \<Longrightarrow> loaded (mark_first (zs ! 0) (mark_first (is ! 0) s)) (is ! i) (2 + i) (marked_block i (d (2 + i)))"
    and "i < length zs \<Longrightarrow> loaded (mark_first (zs ! 0) (mark_first (is ! 0) s)) (zs ! i) (2 + length is + i) (marked_block i (d (2 + length is + i)))"
proof -
  have z0: "loaded s (zs ! 0) (2 + length is) (d (2 + length is))" using assms(2) [of 0] assms(4) by simp
  have i0: "loaded s (is ! 0) 2 (d 2)" using assms(1) [of 0] assms(3) by simp
  show "loaded (mark_first (zs ! 0) (mark_first (is ! 0) s)) (is ! i) (2 + i) (marked_block i (d (2 + i)))" if i: "i < length is"
  proof -
    have ne: "is ! i \<noteq> zs ! 0" using loaded_distinct [OF assms(1) [OF i] z0] i assms(5) by simp
    show ?thesis
    proof (cases "i = 0")
      case True
      then show ?thesis using loaded_mark(2) [OF loaded_mark(1) [OF i0]] ne by simp
    next
      case False
      then have "is ! i \<noteq> is ! 0" using loaded_distinct [OF assms(1) [OF i] i0] i assms(5) by simp
      then show ?thesis using loaded_mark(2) [OF loaded_mark(2) [OF assms(1) [OF i]]] ne False by (simp add: marked_block_def)
    qed
  qed
  show "loaded (mark_first (zs ! 0) (mark_first (is ! 0) s)) (zs ! i) (2 + length is + i) (marked_block i (d (2 + length is + i)))"
    if i: "i < length zs"
  proof -
    have "zs ! i \<noteq> is ! 0" using loaded_distinct [OF assms(2) [OF i] i0] i assms(3,5,6) by simp
    then have l: "loaded (mark_first (is ! 0) s) (zs ! i) (2 + length is + i) (d (2 + length is + i))"
      using loaded_mark(2) assms(2) [OF i] by blast
    show ?thesis
    proof (cases "i = 0")
      case True
      then show ?thesis using loaded_mark(1) [OF l] by simp
    next
      case False
      then have "zs ! i \<noteq> zs ! 0" using loaded_distinct [OF assms(2) [OF i] z0] i assms(5,6) by simp
      then show ?thesis using loaded_mark(2) [OF l] False by (simp add: marked_block_def)
    qed
  qed
qed

text \<open>The super block in memory: the one of the disk, with the buffers of its two maps.\<close>

definition super_of :: "(nat \<Rightarrow> u8) \<Rightarrow> nat list \<Rightarrow> nat list \<Rightarrow> super_block \<Rightarrow> super_block" where
  "super_of d is zs p = (get_d_super d p)\<lparr>s_dev := 0x101, s_isup := None, s_imount := None, s_time := 0, s_rd_only := 0,
     s_dirt := 0, s_imap := slots is, s_zmap := slots zs, s_lock := 0\<rparr>"

lemma lock_super_exec:
  "s_lock (super_blocks s sb) = 0 \<Longrightarrow> 0 < n \<Longrightarrow> lock_super sb n s = Done () (upd_super sb (\<lambda>p. p\<lparr>s_lock := 1\<rparr>) s)"
  by (simp add: lock_super_def kexec wait_while_exec)

lemma free_super_exec:
  "s_wait (super_blocks s sb) = None \<Longrightarrow> free_super sb n s = Done () (upd_super sb (\<lambda>p. p\<lparr>s_lock := 0\<rparr>) s)"
  by (simp add: free_super_def kexec wake_up_def wake_up_state_def upd_defs)

lemma super_upd: "super_blocks (upd_super sb f s) = (super_blocks s)(sb := f (super_blocks s sb))"
  by (simp add: upd_super_def)

lemma load_super_exec:
  fixes s
  defines "d \<equiv> \<lambda>j. rd_image s (1024 + j)"
  defines "I \<equiv> unat (get16 d 4)" and "Z \<equiv> unat (get16 d 6)"
  assumes r: "readable s {} (Suc (I + Z + c))" and magic: "get16 d 16 = SUPER_MAGIC"
    and IZ: "1 \<le> I" "I \<le> 8" "1 \<le> Z" "Z \<le> 8" and len: "1024 * (2 + I + Z) \<le> unat (rd_length s)" and fuel: "nr_buffers s < n"
    and sb: "s_lock (super_blocks s sb) = 0" "s_wait (super_blocks s sb) = None"
  shows "\<exists>is zs t. load_super sb RD_DEV n s = Done (Some sb) t \<and> length is = I \<and> length zs = Z \<and>
     readable t {..<2 + I + Z} (Suc c) \<and> around (upd_super sb (super_of d is zs) s) t \<and> nr_buffers t = nr_buffers s \<and>
     (\<forall>i<I. loaded t (is ! i) (2 + i) (marked_block i (\<lambda>j. rd_image s (1024 * (2 + i) + j)))) \<and>
     (\<forall>i<Z. loaded t (zs ! i) (2 + I + i) (marked_block i (\<lambda>j. rd_image s (1024 * (2 + I + i) + j))))"
proof -
  let ?h = "\<lambda>p. p\<lparr>s_dev := ucast RD_DEV, s_isup := None, s_imount := None, s_time := 0, s_rd_only := 0, s_dirt := 0\<rparr>"
  let ?s1 = "upd_super sb (\<lambda>p. p\<lparr>s_lock := 1\<rparr>) (upd_super sb ?h s)"
  have n: "0 < n" using fuel by simp
  have lock: "lock_super sb n (upd_super sb ?h s) = Done () ?s1" by (rule lock_super_exec) (simp_all add: upd_defs sb n)
  have r1: "readable ?s1 {} (Suc (I + Z + c))" using r by simp
  have "1024 * (1 + 1) \<le> unat (rd_length ?s1)" "nr_buffers ?s1 < n" using len fuel by simp_all
  then obtain i t1 where t1: "bread RD_DEV 1 n ?s1 = Done (Some i) t1" "readable t1 {1} (I + Z + c)" "around ?s1 t1"
      "holding s t1" "loaded t1 i 1 (\<lambda>j. rd_image s (1024 + j))" "b_count (buffers s i) = 0"
    using bread_miss [OF r1, of 1 n] by auto
  let ?t2 = "upd_super sb (get_d_super (b_data (buffers t1 i))) t1"
  have i: "i < nr_buffers ?t2" "b_count (buffers ?t2 i) = 1" using t1(5) by (simp_all add: loaded_def)
  have r2: "readable ?t2 {1} (I + Z + c)" using t1(2) by simp
  note rel = brelse_last [OF r2 i n]
  have gd: "get_d_super (b_data (buffers t1 i)) = get_d_super d"
    using t1(5) by (intro ext get_d_super_cong) (simp add: loaded_def d_def)
  let ?p = "super_blocks (released i ?t2) sb"
  have p: "s_magic ?p = SUPER_MAGIC" "unat (s_imap_blocks ?p) = I" "unat (s_zmap_blocks ?p) = Z"
    unfolding gd by (simp_all add: upd_defs get_d_super_def magic I_def Z_def)
  let ?t3 = "upd_super sb (\<lambda>p. p\<lparr>s_imap := (\<lambda>_. None), s_zmap := (\<lambda>_. None)\<rparr>) (released i ?t2)"
  have im: "rd_image ?t3 = rd_image s" "rd_length ?t3 = rd_length s" using t1(3) by (simp_all add: around_def)
  have nr: "nr_buffers t1 = nr_buffers s" using t1(4) by (simp add: holding_def)
  have r3: "readable ?t3 {1} ((Z + Suc c) + I)" using rel(2) by (simp add: ac_simps)
  obtain "is" t4 where t4: "length is = I" "read_maps (set_imap sb) RD_DEV [0..<I] 2 n ?t3 = Done (word_of_nat (2 + I)) t4"
     "readable t4 {..<2 + I} (Z + Suc c)"
     "around (upd_super sb (fill_slots (\<lambda>i b p. p\<lparr>s_imap := (s_imap p)(i := b)\<rparr>) 0 is) ?t3) t4" "holding ?t3 t4"
     "\<And>i. i < I \<Longrightarrow> loaded t4 (is ! i) (2 + i) (\<lambda>j. rd_image s (1024 * (2 + i) + j))"
    using read_maps_exec [OF r3, of 2 0 n "set_imap sb" sb "\<lambda>i b p. p\<lparr>s_imap := (s_imap p)(i := b)\<rparr>"] len IZ fuel nr im
    by (auto simp: set_imap_def)
  have im4: "rd_image t4 = rd_image s" "rd_length t4 = rd_length s" "nr_buffers t4 = nr_buffers s"
    using t4(4,5) im nr by (simp_all add: around_def holding_def)
  have r4: "readable t4 {..<2 + I} (Suc c + Z)" using t4(3) by (simp add: ac_simps)
  obtain zs t5 where t5: "length zs = Z"
     "read_maps (set_zmap sb) RD_DEV [0..<Z] (word_of_nat (2 + I)) n t4 = Done (word_of_nat (2 + I + Z)) t5"
     "readable t5 {..<2 + I + Z} (Suc c)"
     "around (upd_super sb (fill_slots (\<lambda>i b p. p\<lparr>s_zmap := (s_zmap p)(i := b)\<rparr>) 0 zs) t4) t5" "holding t4 t5"
     "\<And>i. i < Z \<Longrightarrow> loaded t5 (zs ! i) (2 + I + i) (\<lambda>j. rd_image s (1024 * (2 + I + i) + j))"
    using read_maps_exec [OF r4, of "2 + I" 0 n "set_zmap sb" sb "\<lambda>i b p. p\<lparr>s_zmap := (s_zmap p)(i := b)\<rparr>"] len IZ fuel im4
    by (auto simp: set_zmap_def)
  let ?t6 = "mark_first (zs ! 0) (mark_first (is ! 0) t5)"
  have sup: "super_blocks t5 sb = (super_of d is zs (super_blocks s sb))\<lparr>s_lock := 1\<rparr>"
  proof -
    have "super_blocks t1 sb = (?h (super_blocks s sb))\<lparr>s_lock := 1\<rparr>" using t1(3) by (simp add: around_def super_upd)
    then have t3: "super_blocks ?t3 sb = (get_d_super d ((?h (super_blocks s sb))\<lparr>s_lock := 1\<rparr>))\<lparr>s_imap := \<lambda>_. None, s_zmap := \<lambda>_. None\<rparr>"
      by (simp add: super_upd gd)
    have "super_blocks t4 sb = (super_blocks ?t3 sb)\<lparr>s_imap := slots is\<rparr>"
      using t4(4) fill_slots_0(1) [of "super_blocks ?t3 sb" "is"] t3 unfolding around_def by (simp add: super_upd [of sb _ ?t3])
    moreover have "super_blocks t5 sb = (super_blocks t4 sb)\<lparr>s_zmap := slots zs\<rparr>"
      using t5(4) fill_slots_0(2) [of "super_blocks t4 sb" zs] t3 calculation unfolding around_def by (simp add: super_upd [of sb _ t4])
    ultimately show ?thesis unfolding t3 by (simp add: super_of_def get_d_super_def)
  qed
  have blk: "word_of_nat (2 + I + Z) = 2 + ucast (s_imap_blocks ?p) + ucast (s_zmap_blocks ?p)"
    using p(2,3) by (metis of_nat_add of_nat_numeral of_nat_unat)
  have free: "free_super sb n ?t6 = Done () (upd_super sb (\<lambda>p. p\<lparr>s_lock := 0\<rparr>) ?t6)"
    by (rule free_super_exec) (simp add: sup super_of_def sb get_d_super_def)
  have maps: "s_imap (super_blocks t5 sb) 0 = Some (is ! 0)" "s_zmap (super_blocks t5 sb) 0 = Some (zs ! 0)"
    using IZ t4(1) t5(1) by (simp_all add: sup super_of_def slots_def)
  have run: "load_super sb RD_DEV n s = Done (Some sb) (upd_super sb (\<lambda>p. p\<lparr>s_lock := 0\<rparr>) ?t6)"
    unfolding load_super_def
    apply (rule seq_Done, rule modify_exec, rule seq_Done, rule lock, rule bind_Done, rule t1(1))
    apply (simp only: option.case, rule seq_Done, rule modify_exec, rule seq_Done, rule rel(1), rule bind_Done, rule gets_exec)
    apply (simp only: p not_True_eq_False simp_thms if_False, rule seq_Done, rule modify_exec, rule bind_Done, rule t4(2), rule bind_Done, rule t5(2))
    apply (simp only: blk simp_thms if_False, rule bind_Done, rule gets_exec)
    apply (simp only: maps deref_exec deref_def option.case)
    apply (rule seq_Done, rule modify_exec, rule seq_Done, rule modify_exec, rule seq_Done, rule free [unfolded mark_first_def])
    by (simp add: kexec mark_first_def)
  have "loaded t5 (is ! i) (2 + i) (\<lambda>j. rd_image s (1024 * (2 + i) + j))" if "i < length is" for i
    using t4(6) [of i] that t4(1) loaded_kept [OF _ t5(5)] by simp
  note lm = loaded_mark_maps [of "is" t5 "\<lambda>k j. rd_image s (1024 * k + j)" zs, OF this]
  have others: "super_blocks t5 = (super_blocks s)(sb := super_blocks t5 sb)"
    using t5(4) t4(4) t1(3) by (auto simp: around_def super_upd fun_eq_iff)
  have "inode_table t5 = inode_table s \<and> last_inode t5 = last_inode s \<and> current t5 = current s \<and> ROOT_DEV t5 = ROOT_DEV s \<and>
      rd_image t5 = rd_image s \<and> rd_length t5 = rd_length s"
    using t5(4) t4(4) t1(3) by (simp add: around_def upd_defs released_def)
  moreover have "super_blocks (upd_super sb (\<lambda>p. p\<lparr>s_lock := 0\<rparr>) ?t6) = (super_blocks s)(sb := super_of d is zs (super_blocks s sb))"
    by (subst super_upd, simp, subst others, simp add: sup super_of_def get_d_super_def)
  ultimately have "around (upd_super sb (super_of d is zs) s) (upd_super sb (\<lambda>p. p\<lparr>s_lock := 0\<rparr>) ?t6)"
    by (simp add: around_def super_upd) (simp add: upd_defs mark_first_def)
  moreover have "nr_buffers (upd_super sb (\<lambda>p. p\<lparr>s_lock := 0\<rparr>) ?t6) = nr_buffers s" using t5(5) im4 by (simp add: holding_def)
  moreover have "readable (upd_super sb (\<lambda>p. p\<lparr>s_lock := 0\<rparr>) ?t6) {..<2 + I + Z} (Suc c)" using t5(3) by simp
  moreover have "\<forall>i<I. loaded (upd_super sb (\<lambda>p. p\<lparr>s_lock := 0\<rparr>) ?t6) (is ! i) (2 + i) (marked_block i (\<lambda>j. rd_image s (1024 * (2 + i) + j)))"
    "\<forall>i<Z. loaded (upd_super sb (\<lambda>p. p\<lparr>s_lock := 0\<rparr>) ?t6) (zs ! i) (2 + I + i) (marked_block i (\<lambda>j. rd_image s (1024 * (2 + I + i) + j)))"
    unfolding loaded_other using lm t5(1,6) t4(1) IZ by auto
  ultimately show ?thesis using run t4(1) t5(1) by blast
qed

text \<open>The search for the super block of a device.\<close>

lemma get_super_step_exec:
  "get_super_step dev i n s = (if NR_SUPER \<le> i then Done (Inr None) s
     else if ucast (s_dev (super_blocks s i)) = dev \<and> s_lock (super_blocks s i) = 0 \<and> 0 < n then Done (Inr (Some i)) s
     else if ucast (s_dev (super_blocks s i)) \<noteq> dev then Done (Inl (i + 1)) s else get_super_step dev i n s)"
  by (simp add: get_super_step_def kexec wait_on_super_def wait_while_exec)

lemma get_super_miss:
  assumes "\<And>i. i < NR_SUPER \<Longrightarrow> ucast (s_dev (super_blocks s i)) \<noteq> dev" and "NR_SUPER < n" "dev \<noteq> 0"
  shows "get_super dev n s = Done None s"
proof -
  have "loop_fuel k (get_super_step dev) i n s = Done None s" if "NR_SUPER - i < k" for k i
    using that
  proof (induction k arbitrary: i)
    case (Suc k)
    then show ?case using assms(1) [of i] by (cases "NR_SUPER \<le> i") (simp_all add: kexec get_super_step_exec)
  qed simp
  then show ?thesis using assms(2,3) by (simp add: get_super_def loop_def)
qed

lemma read_super_exec:
  fixes s
  defines "d \<equiv> \<lambda>j. rd_image s (1024 + j)"
  defines "I \<equiv> unat (get16 d 4)" and "Z \<equiv> unat (get16 d 6)"
  assumes r: "readable s {} (Suc (I + Z + c))" and magic: "get16 d 16 = SUPER_MAGIC"
    and IZ: "1 \<le> I" "I \<le> 8" "1 \<le> Z" "Z \<le> 8" and len: "1024 * (2 + I + Z) \<le> unat (rd_length s)"
    and fuel: "nr_buffers s < n" "NR_SUPER < n"
    and sb: "\<And>i. i < NR_SUPER \<Longrightarrow> s_dev (super_blocks s i) = 0" "s_lock (super_blocks s 0) = 0" "s_wait (super_blocks s 0) = None"
  shows "\<exists>is zs t. read_super RD_DEV n s = Done (Some 0) t \<and> length is = I \<and> length zs = Z \<and>
     readable t {..<2 + I + Z} (Suc c) \<and> around (upd_super 0 (super_of d is zs) s) t \<and> nr_buffers t = nr_buffers s \<and>
     (\<forall>i<I. loaded t (is ! i) (2 + i) (marked_block i (\<lambda>j. rd_image s (1024 * (2 + i) + j)))) \<and>
     (\<forall>i<Z. loaded t (zs ! i) (2 + I + i) (marked_block i (\<lambda>j. rd_image s (1024 * (2 + I + i) + j))))"
proof -
  have "get_super RD_DEV n s = Done None s" by (rule get_super_miss) (use sb fuel in simp_all)
  moreover have "search (\<lambda>i. s_dev (super_blocks s i) = 0) 0 NR_SUPER = Some 0" using sb(1) [of 0] by (simp add: numeral_eq_Suc)
  ultimately have "read_super RD_DEV n s = load_super 0 RD_DEV n s"
    by (simp add: read_super_def check_disk_change_def MAJOR_def kexec)
  then show ?thesis
    using load_super_exec [OF r [unfolded d_def I_def Z_def] magic [unfolded d_def] IZ [unfolded d_def I_def Z_def] len [unfolded d_def I_def Z_def] fuel(1) sb(2,3)]
    unfolding d_def I_def Z_def by simp
qed

text \<open>The first free inode of a table that has been used for nothing yet is number 1.\<close>

lemma get_empty_inode_exec:
  assumes "inode_table s 1 = zero_inode" "last_inode s = 0" "0 < n"
  shows "get_empty_inode n s = Done 1 (upd_inode 1 (\<lambda>m. m\<lparr>i_count := 1\<rparr>) (s\<lparr>last_inode := 1\<rparr>))"
proof -
  have "scan_inodes NR_INODE (inode_table s) (last_inode s) None = (1, Some 1)"
    using assms by (simp add: zero_inode_def numeral_eq_Suc Let_def)
  moreover obtain k where k: "n = Suc k" using assms(3) by (cases n) auto
  ultimately have "empty_step () n s = Done (Inr 1) (s\<lparr>last_inode := 1\<rparr>)"
    using assms by (simp add: empty_step_def kexec wait_on_inode_def wait_while_exec loop_def flush_step_def get_inode_def zero_inode_def)
  moreover have "clear_inode 1 (s\<lparr>last_inode := 1\<rparr>) = s\<lparr>last_inode := 1\<rparr>"
    using assms(1) by (simp add: clear_inode_def upd_defs fun_upd_idem del: One_nat_def)
  ultimately show ?thesis using k by (simp add: get_empty_inode_def loop_def kexec)
qed

lemma iget_loop:
  assumes "\<And>j. j < NR_INODE \<Longrightarrow> ucast (i_dev (inode_table s j)) \<noteq> dev" "i \<le> NR_INODE" "NR_INODE - i < k"
    "iget_step spare (NR_INODE, dev, nr) n s = Done (Inr x) t"
  shows "loop_fuel k (iget_step spare) (i, dev, nr) n s = Done x t"
  using assms(2,3)
proof (induction k arbitrary: i)
  case (Suc k)
  show ?case
  proof (cases "i = NR_INODE")
    case True
    then show ?thesis using assms(4) by (simp add: kexec)
  next
    case False
    then have "i < NR_INODE" using Suc.prems by simp
    then have "iget_step spare (i, dev, nr) n s = Done (Inl (i + 1, dev, nr)) s"
      using assms(1) [of i] by (simp add: iget_step_def kexec get_inode_def)
    then show ?thesis using Suc.IH [of "i + 1"] Suc.prems False by (simp add: kexec)
  qed
qed simp

lemma inode_upd: "inode_table (upd_inode i f s) = (inode_table s)(i := f (inode_table s i))"
  by (simp add: upd_inode_def)

lemma other_tables [simp]:
  "super_blocks (upd_inode i f s) = super_blocks s" "inode_table (upd_super j g s) = inode_table s"
  by (simp_all add: upd_defs)

text \<open>The inode with number 1 is read from the block behind the maps.\<close>

lemma read_inode_root:
  assumes r: "readable s K (Suc c)" and B: "B \<notin> K" "1024 * (B + 1) \<le> unat (rd_length s)"
      "B = 2 + unat (s_imap_blocks (super_blocks s 0)) + unat (s_zmap_blocks (super_blocks s 0))"
    and m: "i_lock (inode_table s ino) = 0" "i_wait (inode_table s ino) = None" "i_dev (inode_table s ino) = 0x101" "i_num (inode_table s ino) = 1"
    and sb: "s_dev (super_blocks s 0) = 0x101" "s_lock (super_blocks s 0) = 0" and fuel: "nr_buffers s < n"
  shows "\<exists>t. read_inode ino n s = Done () t \<and> readable t (insert B K) (Suc c) \<and> holding s t \<and>
     around (upd_inode ino (set_disk_part (get_d_inode (\<lambda>j. rd_image s (1024 * B + j)) 0)) s) t"
proof -
  let ?s1 = "upd_inode ino (\<lambda>m. m\<lparr>i_lock := 1\<rparr>) s"
  have n: "0 < n" using fuel by simp
  have lock: "lock_inode ino n s = Done () ?s1" using m n by (simp add: lock_inode_def kexec wait_while_exec)
  have dev: "idev ino n ?s1 = Done RD_DEV ?s1" using m by (simp add: idev_def kexec inode_upd)
  have get: "get_super RD_DEV n ?s1 = Done (Some 0) ?s1" using get_super_exec [of 0 ?s1 "0x101" n] sb n by simp
  have blk: "inode_block (super_blocks ?s1 0) (inode_table ?s1 ino) = word_of_nat B"
    unfolding inode_block_def using m(4) B(3) by (simp add: inode_upd)
  obtain i t where t: "bread RD_DEV (word_of_nat B) n ?s1 = Done (Some i) t" "readable t (insert B K) c" "around ?s1 t"
      "holding s t" "loaded t i B (\<lambda>j. rd_image s (1024 * B + j))" "b_count (buffers s i) = 0"
    using bread_miss [of ?s1 K c B n] r B fuel by auto
  let ?g = "\<lambda>m. set_disk_part (get_d_inode (b_data (buffers t i)) (inode_slot m)) m"
  let ?t2 = "upd_inode ino ?g t"
  have i: "i < nr_buffers ?t2" "b_count (buffers ?t2 i) = 1" using t(5) by (simp_all add: loaded_def)
  have r2: "readable ?t2 (insert B K) c" using t(2) by simp
  note rel = brelse_last [OF r2 i n]
  let ?u = "upd_inode ino (\<lambda>m. m\<lparr>i_lock := 0\<rparr>) (released i ?t2)"
  have ti: "inode_table t = (inode_table s)(ino := (inode_table s ino)\<lparr>i_lock := 1\<rparr>)" using t(3) by (simp add: around_def inode_upd)
  have unlock: "unlock_inode ino n (released i ?t2) = Done () ?u"
    using m(2) by (simp add: unlock_inode_def kexec wake_up_def wake_up_state_def inode_upd ti set_disk_part_def)
  have run: "read_inode ino n s = Done () ?u"
    unfolding read_inode_def
    apply (rule seq_Done, rule lock, rule bind_Done, rule dev, rule bind_Done, rule get)
    apply (simp only: option.case, rule bind_Done, rule gets_exec, rule bind_Done, rule dev)
    apply (simp only: blk, rule bind_Done, rule t(1))
    apply (simp only: option.case, rule seq_Done, rule modify_exec, rule seq_Done, rule rel(1))
    by (rule unlock)
  have gd: "get_d_inode (b_data (buffers t i)) 0 = get_d_inode (\<lambda>j. rd_image s (1024 * B + j)) 0"
    using t(5) by (intro get_d_inode_cong) (simp add: loaded_def)
  have "set_disk_part v (q\<lparr>i_lock := 1\<rparr>)\<lparr>i_lock := 0\<rparr> = set_disk_part v q" if "i_lock q = 0" for v q
    using that by (cases q) (simp add: set_disk_part_def)
  then have "inode_table ?u = (inode_table s)(ino := set_disk_part (get_d_inode (\<lambda>j. rd_image s (1024 * B + j)) 0) (inode_table s ino))"
    using m(1,4) by (simp add: inode_upd ti inode_slot_def gd)
  then have "around (upd_inode ino (set_disk_part (get_d_inode (\<lambda>j. rd_image s (1024 * B + j)) 0)) s) ?u"
    using t(3) by (simp add: around_def inode_upd) (simp add: upd_defs released_def)
  moreover have "readable ?u (insert B K) (Suc c)" using rel(2) by simp
  moreover have "holding s ?u" using holding_released [of s ?t2 i] t(4,6) by simp
  ultimately show ?thesis using run by blast
qed

text \<open>The root inode gets slot 1 of an empty table.\<close>

lemma iget_root:
  assumes r: "readable s K (Suc c)" and B: "B \<notin> K" "1024 * (B + 1) \<le> unat (rd_length s)"
      "B = 2 + unat (s_imap_blocks (super_blocks s 0)) + unat (s_zmap_blocks (super_blocks s 0))"
    and m: "inode_table s = (\<lambda>_. zero_inode)" "last_inode s = 0"
    and sb: "s_dev (super_blocks s 0) = 0x101" "s_lock (super_blocks s 0) = 0" and fuel: "nr_buffers s < n" "NR_INODE < n"
  shows "\<exists>t. iget RD_DEV 1 n s = Done 1 t \<and> readable t (insert B K) (Suc c) \<and> holding s t \<and>
     super_blocks t = super_blocks s \<and> rd_image t = rd_image s \<and> current t = current s \<and>
     inode_table t 1 = set_disk_part (get_d_inode (\<lambda>j. rd_image s (1024 * B + j)) 0) (zero_inode\<lparr>i_count := 1, i_dev := 0x101, i_num := 1\<rparr>)"
proof -
  let ?s1 = "upd_inode 1 (\<lambda>m. m\<lparr>i_count := 1\<rparr>) (s\<lparr>last_inode := 1\<rparr>)"
  let ?s2 = "upd_inode 1 (\<lambda>m. m\<lparr>i_dev := ucast RD_DEV, i_num := ucast (1 :: u32)\<rparr>) ?s1"
  have n: "0 < n" using fuel by simp
  have e: "get_empty_inode n s = Done 1 ?s1" by (rule get_empty_inode_exec) (use m n in simp_all)
  have it: "inode_table ?s2 1 = zero_inode\<lparr>i_count := 1, i_dev := 0x101, i_num := 1\<rparr>" using m by (simp add: inode_upd)
  have r2: "readable ?s2 K (Suc c)" using r by simp
  obtain t where t: "read_inode 1 n ?s2 = Done () t" "readable t (insert B K) (Suc c)" "holding ?s2 t"
     "around (upd_inode 1 (set_disk_part (get_d_inode (\<lambda>j. rd_image ?s2 (1024 * B + j)) 0)) ?s2) t"
    using read_inode_root [OF r2 B(1), of 1 n] B fuel sb it by (auto simp: zero_inode_def)
  have last: "iget_step 1 (NR_INODE, RD_DEV, 1) n ?s1 = Done (Inr 1) t"
    unfolding iget_step_def using t(1) by (simp add: kexec)
  have "loop_fuel n (iget_step 1) (0, RD_DEV, 1) n ?s1 = Done 1 t"
    by (rule iget_loop [OF _ _ _ last]) (use m fuel in \<open>simp_all add: inode_upd zero_inode_def\<close>)
  then have "iget RD_DEV 1 n s = Done 1 t" using e by (simp add: iget_def kexec loop_def)
  moreover have "inode_table t 1 = set_disk_part (get_d_inode (\<lambda>j. rd_image s (1024 * B + j)) 0) (inode_table ?s2 1)"
    using t(4) by (simp add: around_def inode_upd)
  moreover have "holding s t" using t(3) by simp
  moreover have "super_blocks t = super_blocks s \<and> rd_image t = rd_image s \<and> current t = current s"
    using t(4) by (simp add: around_def) (simp add: upd_defs)
  ultimately show ?thesis using t(2) it by auto
qed

lemma for_each_skip: "(\<And>i. i \<in> set is \<Longrightarrow> f i n s = Done () s) \<Longrightarrow> for_each is f n s = Done () s"
  by (induction "is") (simp_all add: kexec)

lemma read_all_bits_exec:
  assumes "\<And>i. i < nr \<Longrightarrow> slot (i div 8192) \<noteq> None"
  shows "read_all_bits slot nr n s = Done () s"
  unfolding read_all_bits_def by (rule for_each_skip) (use assms in \<open>auto simp: kexec deref_def split: option.split\<close>)

lemma fresh_readable:
  assumes "idle (fresh_cache m u)" "buffer_wait u = None" "2 \<le> m" "c \<le> m"
  shows "readable (fresh_cache m u) {} c"
proof -
  have nr: "nr_buffers (fresh_cache m u) = m" "buffer_wait (fresh_cache m u) = None" using assms(2) by (simp_all add: fresh_cache_def)
  have "b_count (buffers (fresh_cache m u) i) = 0 \<and> b_dev (buffers (fresh_cache m u) i) = 0" if "i < m" for i
    using that by (simp add: fresh_cache_def init_head_def)
  then have none: "card {i. i < m \<and> b_count (buffers (fresh_cache m u) i) \<noteq> 0} = 0" and "\<And>i. i < m \<Longrightarrow> b_dev (buffers (fresh_cache m u) i) = 0" by auto
  moreover have "0 < m" using assms(3) by simp
  ultimately show ?thesis
    using fresh_cache_ok [where m = m and s = u] assms(1,3,4) unfolding readable_def nr none by (auto simp: recyclable_def)
qed

text \<open>\<open>mount_root\<close> on a machine that has just been set up.\<close>

lemma mount_root_exec:
  fixes im :: "nat \<Rightarrow> u8"
  defines "d \<equiv> \<lambda>j. im (1024 + j)"
  defines "I \<equiv> unat (get16 d 4)" and "Z \<equiv> unat (get16 d 6)"
  assumes r: "readable s {} (Suc (Suc (I + Z)))" and im: "rd_image s = im"
    and tabs: "inode_table s = (\<lambda>_. zero_inode)" "last_inode s = 0" "super_blocks s = (\<lambda>_. zero_super)" "current s = 0" "ROOT_DEV s = 0x101"
    and magic: "get16 d 16 = SUPER_MAGIC" and IZ: "1 \<le> I" "I \<le> 8" "1 \<le> Z" "Z \<le> 8"
    and sizes: "unat (get16 d 0) + 1 \<le> 8192 * I" "unat (get16 d 2) \<le> 8192 * Z"
    and len: "1024 * (3 + I + Z) \<le> unat (rd_length s)" and fuel: "nr_buffers s < n" "NR_INODE < n"
  shows "\<exists>t is zs. mount_root keypress n s = Done () t \<and> length is = I \<and> length zs = Z \<and>
     super_blocks t 0 = (super_of d is zs zero_super)\<lparr>s_isup := Some 1, s_imount := Some 1\<rparr> \<and>
     (\<forall>i<I. loaded t (is ! i) (2 + i) (marked_block i (\<lambda>j. im (1024 * (2 + i) + j)))) \<and>
     (\<forall>i<Z. loaded t (zs ! i) (2 + I + i) (marked_block i (\<lambda>j. im (1024 * (2 + I + i) + j)))) \<and>
     inode_table t 1 = set_disk_part (get_d_inode (\<lambda>j. im (1024 * (2 + I + Z) + j)) 0)
       (zero_inode\<lparr>i_count := 4, i_dev := 0x101, i_num := 1\<rparr>) \<and>
     pwd (tasks t 0) = Some 1 \<and> root (tasks t 0) = Some 1"
proof -
  let ?s1 = "s\<lparr>file_table := (\<lambda>i. if i < NR_FILE then (file_table s i)\<lparr>f_count := 0\<rparr> else file_table s i)\<rparr>"
  let ?s2 = "?s1\<lparr>super_blocks := (\<lambda>i. if i < NR_SUPER then (super_blocks ?s1 i)\<lparr>s_dev := 0, s_lock := 0, s_wait := None\<rparr> else super_blocks ?s1 i)\<rparr>"
  have sb: "super_blocks ?s2 = (\<lambda>_. zero_super)" by (auto simp: fun_eq_iff tabs zero_super_def)
  have r2: "readable ?s2 {} (Suc (I + Z + 1))" using r by simp
  have im2: "(\<lambda>j. rd_image ?s2 (1024 + j)) = d" by (simp add: d_def im)
  obtain "is" zs t where t: "read_super RD_DEV n ?s2 = Done (Some 0) t" "length is = I" "length zs = Z"
     "readable t {..<2 + I + Z} (Suc 1)" "around (upd_super 0 (super_of d is zs) ?s2) t" "nr_buffers t = nr_buffers s"
     "\<And>i. i < I \<Longrightarrow> loaded t (is ! i) (2 + i) (marked_block i (\<lambda>j. im (1024 * (2 + i) + j)))"
     "\<And>i. i < Z \<Longrightarrow> loaded t (zs ! i) (2 + I + i) (marked_block i (\<lambda>j. im (1024 * (2 + I + i) + j)))"
    using read_super_exec [of ?s2 1 n, unfolded im2, folded I_def Z_def] r2 magic IZ len fuel sb im by (auto simp: zero_super_def)
  have sup: "super_blocks t 0 = super_of d is zs zero_super" and tt: "inode_table t = (\<lambda>_. zero_inode)" "last_inode t = 0"
      "rd_image t = im" "rd_length t = rd_length s" "current t = 0"
    using t(5) sb tabs im by (simp_all add: around_def super_upd) (simp_all add: upd_defs)
  have fields: "s_dev (super_blocks t 0) = 0x101" "s_lock (super_blocks t 0) = 0"
      "unat (s_imap_blocks (super_blocks t 0)) = I" "unat (s_zmap_blocks (super_blocks t 0)) = Z"
    unfolding sup by (simp_all add: super_of_def get_d_super_def I_def Z_def)
  have nr: "nr_buffers t < n" using t(6) fuel by simp
  obtain u where u: "iget RD_DEV 1 n t = Done 1 u" "holding t u" "super_blocks u = super_blocks t" "current u = 0"
     "inode_table u 1 = set_disk_part (get_d_inode (\<lambda>j. im (1024 * (2 + I + Z) + j)) 0) (zero_inode\<lparr>i_count := 1, i_dev := 0x101, i_num := 1\<rparr>)"
    using iget_root [OF t(4), of "2 + I + Z" n] len fields tt nr fuel(2) by auto
  let ?u1 = "upd_inode 1 (\<lambda>m. m\<lparr>i_count := i_count m + 3\<rparr>) u"
  let ?u2 = "upd_super 0 (\<lambda>p. p\<lparr>s_isup := Some 1, s_imount := Some 1\<rparr>) ?u1"
  let ?u3 = "upd_cur (\<lambda>t. t\<lparr>pwd := Some 1, root := Some 1\<rparr>) ?u2"
  have p: "super_blocks ?u3 0 = (super_of d is zs zero_super)\<lparr>s_isup := Some 1, s_imount := Some 1\<rparr>"
    using u(3) sup by (simp add: upd_cur_def upd_defs)
  have zbits: "read_all_bits (s_zmap (super_blocks ?u3 0)) (unat (s_nzones (super_blocks ?u3 0))) n ?u3 = Done () ?u3"
    unfolding p by (rule read_all_bits_exec) (use sizes(2) t(3) in \<open>simp add: super_of_def slots_def get_d_super_def less_mult_imp_div_less\<close>)
  have ibits: "read_all_bits (s_imap (super_blocks ?u3 0)) (unat (s_ninodes (super_blocks ?u3 0)) + 1) n ?u3 = Done () ?u3"
    unfolding p by (rule read_all_bits_exec) (use sizes(1) t(2) in \<open>simp add: super_of_def slots_def get_d_super_def less_mult_imp_div_less\<close>)
  have dev: "gets ROOT_DEV n ?s1 = Done RD_DEV ?s1" using tabs(5) by (simp add: kexec)
  have ig: "iget RD_DEV (ucast ROOT_INO) n t = Done 1 u" using u(1) by simp
  have nokey: "whenk (MAJOR RD_DEV = 2) keypress n ?s1 = Done () ?s1" by (simp add: kexec MAJOR_def)
  have run: "mount_root keypress n s = Done () ?u3"
    unfolding mount_root_def
    apply (rule seq_Done, rule modify_exec, rule bind_Done, rule dev, rule seq_Done, rule nokey, rule seq_Done, rule modify_exec)
    apply (rule bind_Done, rule t(1), simp only: option.case, rule bind_Done, rule ig)
    apply (rule seq_Done, rule modify_exec, rule seq_Done, rule modify_exec, rule seq_Done, rule modify_exec)
    apply (rule bind_Done, rule gets_exec, rule seq_Done, rule zbits)
    by (rule ibits)
  have "loaded ?u3 i k e" if "loaded t i k e" for i k e
    using loaded_kept [OF that u(2)] by (simp add: loaded_def upd_cur_def upd_defs)
  moreover have "inode_table ?u3 1 = set_disk_part (get_d_inode (\<lambda>j. im (1024 * (2 + I + Z) + j)) 0)
       (zero_inode\<lparr>i_count := 4, i_dev := 0x101, i_num := 1\<rparr>)"
    using u(5) by (simp add: upd_cur_def upd_defs set_disk_part_def del: One_nat_def)
  moreover have "pwd (tasks ?u3 0) = Some 1 \<and> root (tasks ?u3 0) = Some 1" using u(4) by (simp add: upd_cur_def upd_defs)
  ultimately show ?thesis using run t(2,3,7,8) p by blast
qed

lemma disk_part_set: "disk_part (set_disk_part (get_d_inode d k) m) = get_d_inode d k"
  by (simp add: disk_part_def set_disk_part_def get_d_inode_def cong: if_cong)

lemma main_setup_ready:
  assumes k: "0x80000000 \<le> unat kernel_end" "unat kernel_end + 0x101000 \<le> 0x88000000"
    and img: "img_start \<le> img_end" and n: "1000 \<le> n" and c: "c \<le> 989"
  shows "\<exists>s. main_setup kernel_end img_start img_end n (boot_state\<lparr>rd_image := im\<rparr>) = Done () s \<and> readable s {} c \<and>
     nr_buffers s < n \<and> rd_image s = im \<and> rd_length s = img_end - img_start \<and> inode_table s = (\<lambda>_. zero_inode) \<and>
     last_inode s = 0 \<and> super_blocks s = (\<lambda>_. zero_super) \<and> current s = 0 \<and> ROOT_DEV s = 0x101"
proof -
  note ms = main_setup_exec [OF k n]
  let ?m = "(unat (buffer_memory_end kernel_end) - unat kernel_end) div 1060"
  let ?u = "prepared (buffer_memory_end kernel_end) img_start img_end im"
  have "buffer_wait ?u = None" by (simp add: prepared_defs)
  then have "readable (fresh_cache ?m ?u) {} c" using fresh_readable [OF prepared_idle [OF img]] ms(4) c by simp
  moreover have "nr_buffers (fresh_cache ?m ?u) < n" using ms(5) n by (simp add: fresh_cache_def)
  ultimately show ?thesis using ms(1) [of img_start img_end im] by (auto simp: fresh_cache_def prepared_defs)
qed

text \<open>The whole start, with the buffers of the two maps.\<close>

lemma boot_mounts:
  assumes k: "0x80000000 \<le> unat kernel_end" "unat kernel_end + 0x101000 \<le> 0x88000000"
    and img: "img_start \<le> img_end" and n: "1000 \<le> n"
    and sb: "sb = get_d_super (kblock im 1) zero_super" "s_magic sb = SUPER_MAGIC" "I = unat (s_imap_blocks sb)" "Z = unat (s_zmap_blocks sb)"
      "1 \<le> I" "I \<le> 8" "1 \<le> Z" "Z \<le> 8" "unat (s_ninodes sb) + 1 \<le> 8192 * I" "unat (s_nzones sb) \<le> 8192 * Z"
    and len: "1024 * (3 + I + Z) \<le> unat (img_end - img_start)"
  obtains t "is" zs where
    "seq (main_setup kernel_end img_start img_end) (mount_root keypress) n (boot_state\<lparr>rd_image := im\<rparr>) = Done () t"
    "length is = I" "length zs = Z"
    "super_blocks t 0 = (super_of (kblock im 1) is zs zero_super)\<lparr>s_isup := Some 1, s_imount := Some 1\<rparr>"
    "\<And>i. i < I \<Longrightarrow> loaded t (is ! i) (2 + i) (marked_block i (kblock im (2 + i)))"
    "\<And>i. i < Z \<Longrightarrow> loaded t (zs ! i) (2 + I + i) (marked_block i (kblock im (2 + I + i)))"
    "inode_table t 1 = set_disk_part (get_d_inode (kblock im (2 + I + Z)) 0) (zero_inode\<lparr>i_count := 4, i_dev := 0x101, i_num := 1\<rparr>)"
    "pwd (tasks t 0) = Some 1" "root (tasks t 0) = Some 1"
proof -
  have blk: "(\<lambda>j. im (1024 + j)) = kblock im 1" "\<And>k. (\<lambda>j. im (1024 * k + j)) = kblock im k" by (auto simp: kblock_def fun_eq_iff)
  have f: "s_magic sb = get16 (kblock im 1) 16" "s_imap_blocks sb = get16 (kblock im 1) 4" "s_zmap_blocks sb = get16 (kblock im 1) 6"
     "s_ninodes sb = get16 (kblock im 1) 0" "s_nzones sb = get16 (kblock im 1) 2"
    by (simp_all add: sb(1) get_d_super_def)
  obtain s where s: "main_setup kernel_end img_start img_end n (boot_state\<lparr>rd_image := im\<rparr>) = Done () s"
     "readable s {} (Suc (Suc (I + Z)))" "nr_buffers s < n" "rd_image s = im" "rd_length s = img_end - img_start"
     "inode_table s = (\<lambda>_. zero_inode)" "last_inode s = 0" "super_blocks s = (\<lambda>_. zero_super)" "current s = 0" "ROOT_DEV s = 0x101"
    using main_setup_ready [OF k img n, where c = "Suc (Suc (I + Z))" and im = im] sb(6,8) by auto
  obtain t "is" zs where t: "mount_root keypress n s = Done () t" "length is = I" "length zs = Z"
     "super_blocks t 0 = (super_of (kblock im 1) is zs zero_super)\<lparr>s_isup := Some 1, s_imount := Some 1\<rparr>"
     "\<And>i. i < I \<Longrightarrow> loaded t (is ! i) (2 + i) (marked_block i (kblock im (2 + i)))"
     "\<And>i. i < Z \<Longrightarrow> loaded t (zs ! i) (2 + I + i) (marked_block i (kblock im (2 + I + i)))"
     "inode_table t 1 = set_disk_part (get_d_inode (kblock im (2 + I + Z)) 0) (zero_inode\<lparr>i_count := 4, i_dev := 0x101, i_num := 1\<rparr>)"
     "pwd (tasks t 0) = Some 1" "root (tasks t 0) = Some 1"
    using mount_root_exec [where im = im and s = s and n = n and keypress = keypress, unfolded blk, folded f, folded sb(3,4)] s sb(2,5-10) len n by auto
  have "seq (main_setup kernel_end img_start img_end) (mount_root keypress) n (boot_state\<lparr>rd_image := im\<rparr>) = Done () t"
    using s(1) t(1) by (simp add: kexec)
  then show ?thesis using that t(2-9) by blast
qed

text \<open>An image with nothing but the super block of \<open>mkfs\<close> is enough for the start.\<close>

lemma bare_image_boots:
  "\<exists>t. seq (main_setup 0x80200000 0x80100000 0x80180000) (mount_root keypress) 1000 (boot_state\<lparr>rd_image := fill_super (\<lambda>_. 0)\<rparr>) = Done () t"
proof -
  define sb where "sb = get_d_super (kblock (fill_super (\<lambda>_. 0)) 1) zero_super"
  note f = super_reads [OF ballI, OF refl, folded sb_def, unfolded Let_def]
  have I: "1 = unat (s_imap_blocks sb)" "1 = unat (s_zmap_blocks sb)" using f by simp_all
  show ?thesis
    by (rule boot_mounts [OF _ _ _ _ sb_def _ I, where keypress = keypress and kernel_end = "0x80200000" and img_start = "0x80100000"
          and img_end = "0x80180000" and n = 1000]) (use f in auto)
qed

text \<open>
  C15: The kernel mounts its root. When the ramdisk image has a super block with the right magic
  number, between one and eight blocks for either map and maps that cover its inodes and zones,
  the setup and \<open>mount_root\<close> run to their end without sleeping, whatever else is in the image.
  Afterwards slot 1 of the inode table holds inode 1 as it is on the disk, used four times, as
  the root and the working directory of task 0 and as the two directories of the super block;
  the super block in memory is that of the disk, and its slots hold the blocks of the two maps,
  each in a buffer of its own, with bit 0 set.
\<close>

theorem boot_mounts_root:
  assumes k: "0x80000000 \<le> unat kernel_end" "unat kernel_end + 0x101000 \<le> 0x88000000"
    and img: "img_start \<le> img_end" and n: "1000 \<le> n"
    and sb: "sb = get_d_super (kblock im 1) zero_super" "s_magic sb = SUPER_MAGIC" "I = unat (s_imap_blocks sb)" "Z = unat (s_zmap_blocks sb)"
      "1 \<le> I" "I \<le> 8" "1 \<le> Z" "Z \<le> 8" "unat (s_ninodes sb) + 1 \<le> 8192 * I" "unat (s_nzones sb) \<le> 8192 * Z"
    and len: "1024 * (3 + I + Z) \<le> unat (img_end - img_start)"
  shows "\<exists>t. seq (main_setup kernel_end img_start img_end) (mount_root keypress) n (boot_state\<lparr>rd_image := im\<rparr>) = Done () t \<and>
     pwd (tasks t 0) = Some 1 \<and> root (tasks t 0) = Some 1 \<and>
     disk_part (inode_table t 1) = get_d_inode (kblock im (2 + I + Z)) 0 \<and>
     i_dev (inode_table t 1) = 0x101 \<and> i_num (inode_table t 1) = 1 \<and> i_count (inode_table t 1) = 4 \<and>
     get_d_super (kblock im 1) (super_blocks t 0) = super_blocks t 0 \<and>
     s_isup (super_blocks t 0) = Some 1 \<and> s_imount (super_blocks t 0) = Some 1 \<and> s_lock (super_blocks t 0) = 0 \<and>
     (\<forall>i<I. \<exists>b. s_imap (super_blocks t 0) i = Some b \<and> loaded t b (2 + i) (marked_block i (kblock im (2 + i)))) \<and>
     (\<forall>i<Z. \<exists>b. s_zmap (super_blocks t 0) i = Some b \<and> loaded t b (2 + I + i) (marked_block i (kblock im (2 + I + i))))"
proof -
  obtain t "is" zs where run: "seq (main_setup kernel_end img_start img_end) (mount_root keypress) n (boot_state\<lparr>rd_image := im\<rparr>) = Done () t"
    and t: "length is = I" "length zs = Z"
     "super_blocks t 0 = (super_of (kblock im 1) is zs zero_super)\<lparr>s_isup := Some 1, s_imount := Some 1\<rparr>"
     "\<And>i. i < I \<Longrightarrow> loaded t (is ! i) (2 + i) (marked_block i (kblock im (2 + i)))"
     "\<And>i. i < Z \<Longrightarrow> loaded t (zs ! i) (2 + I + i) (marked_block i (kblock im (2 + I + i)))"
     "inode_table t 1 = set_disk_part (get_d_inode (kblock im (2 + I + Z)) 0) (zero_inode\<lparr>i_count := 4, i_dev := 0x101, i_num := 1\<rparr>)"
     "pwd (tasks t 0) = Some 1" "root (tasks t 0) = Some 1"
    by (rule boot_mounts [OF assms, where keypress = keypress]) blast
  have "disk_part (inode_table t 1) = get_d_inode (kblock im (2 + I + Z)) 0" unfolding t(6) by (rule disk_part_set)
  moreover have "i_dev (inode_table t 1) = 0x101" "i_num (inode_table t 1) = 1" "i_count (inode_table t 1) = 4"
    unfolding t(6) by (simp_all add: set_disk_part_def)
  moreover have "get_d_super (kblock im 1) (super_blocks t 0) = super_blocks t 0" "s_isup (super_blocks t 0) = Some 1"
     "s_imount (super_blocks t 0) = Some 1" "s_lock (super_blocks t 0) = 0"
    unfolding t(3) by (simp_all add: super_of_def get_d_super_def)
  moreover have "\<exists>b. s_imap (super_blocks t 0) i = Some b \<and> loaded t b (2 + i) (marked_block i (kblock im (2 + i)))" if "i < I" for i
    using t(4) [OF that] that t(1) by (auto simp: t(3) super_of_def slots_def)
  moreover have "\<exists>b. s_zmap (super_blocks t 0) i = Some b \<and> loaded t b (2 + I + i) (marked_block i (kblock im (2 + I + i)))" if "i < Z" for i
    using t(5) [OF that] that t(2) by (auto simp: t(3) super_of_def slots_def)
  ultimately show ?thesis using run t(7,8) by blast
qed

theorem boot_mounts_root_witness:
  "\<exists>t. seq (main_setup 0x80200000 0x80100000 0x80180000) (mount_root skip) 1000 (boot_state\<lparr>rd_image := fill_super (\<lambda>_. 0)\<rparr>) = Done () t \<and>
     root (tasks t 0) = Some 1 \<and> i_count (inode_table t 1) = 4 \<and> s_ninodes (get_d_super (kblock (fill_super (\<lambda>_. 0)) 1) zero_super) = 96"
proof -
  let ?sb = "get_d_super (kblock (fill_super (\<lambda>_. 0)) 1) zero_super"
  note f = super_reads [OF ballI, OF refl, unfolded Let_def]
  show ?thesis
    using boot_mounts_root [where kernel_end = "0x80200000" and img_start = "0x80100000" and img_end = "0x80180000" and n = 1000
        and sb = ?sb and im = "fill_super (\<lambda>_. 0)" and I = 1 and Z = 1 and keypress = skip] f by auto
qed

section \<open>The image that mkfs writes\<close>

lemma marked_block_bit: "bit (marked_block 0 e (nr div 8)) (nr mod 8) \<longleftrightarrow> nr = 0 \<or> bit (e (nr div 8)) (nr mod 8)"
  by (cases "nr div 8 = 0") (auto simp: marked_block_def bit_or_iff bit_1_iff)

lemma loaded_marks:
  assumes "loaded s b k (marked_block 0 (kblock d k))" "\<And>nr. nr < 8192 \<Longrightarrow> marked d k nr \<longleftrightarrow> nr \<in> {1..m}" "nr < 8192"
  shows "bit (b_data (buffers s b) (nr div 8)) (nr mod 8) \<longleftrightarrow> nr \<le> m"
proof -
  have "b_data (buffers s b) (nr div 8) = marked_block 0 (kblock d k) (nr div 8)" using assms(1,3) by (simp add: loaded_def)
  then show ?thesis using assms(2) [OF assms(3)] by (auto simp: marked_block_bit marked_def)
qed

text \<open>
  C17: The kernel mounts what \<open>mkfs\<close> writes. For every list of programs that fits, \<open>mkfs\<close> writes an
  image of 2 MB, and the kernel with this image linked in starts and mounts it: its root inode is
  inode 1 of the image, whose directory is in zone 7, the sizes are those \<open>mkfs\<close> laid out, and the
  bitmaps in the buffer cache mark exactly the inodes and the zones that \<open>mkfs\<close> used, and bit 0.
\<close>

theorem mkfs_mounts:
  assumes ps: "2 \<le> length ps" "length ps \<le> 62" "sum_list (map (\<lambda>(path, data). (length data + 1023) div 1024) ps) \<le> 2038"
    "\<forall>(path, data)\<in>set ps. program_name path \<noteq> None \<and> length data \<le> 7168"
    and k: "0x80000000 \<le> unat kernel_end" "unat kernel_end + 0x101000 \<le> 0x88000000"
    and img: "unat img_start + 0x200000 = unat img_end" and n: "1000 \<le> n"
  shows "\<exists>d t i z. mkfs_main (map (\<lambda>(path, data). (path, Some data)) ps) = Inr d \<and>
     seq (main_setup kernel_end img_start img_end) (mount_root keypress) n (boot_state\<lparr>rd_image := d\<rparr>) = Done () t \<and>
     root (tasks t 0) = Some 1 \<and> pwd (tasks t 0) = Some 1 \<and>
     disk_part (inode_table t 1) = kinode d 1 \<and> i_zone (inode_table t 1) 0 = 7 \<and>
     s_ninodes (super_blocks t 0) = 96 \<and> s_nzones (super_blocks t 0) = 2041 \<and> s_firstdatazone (super_blocks t 0) = 7 \<and>
     s_imap (super_blocks t 0) 0 = Some i \<and>
     (\<forall>nr<8192. bit (b_data (buffers t i) (nr div 8)) (nr mod 8) \<longleftrightarrow> nr \<le> 4 + length ps) \<and>
     s_zmap (super_blocks t 0) 0 = Some z \<and>
     (\<forall>nr<8192. bit (b_data (buffers t z) (nr div 8)) (nr mod 8) \<longleftrightarrow>
        nr \<le> 3 + sum_list (map (\<lambda>(path, data). (length data + 1023) div 1024) ps))"
proof -
  have nb: "nblocks ps = sum_list (map (\<lambda>(path, data). (length data + 1023) div 1024) ps)" "nblocks (programs ps) = nblocks ps"
    by (simp_all add: nblocks_def blocks_def programs_def comp_def case_prod_unfold)
  obtain d D where d: "mkfs_main (map (\<lambda>(path, data). (path, Some data)) ps) = Inr d" "image_ok d (programs ps) D 3 (5 + length ps)"
     "D 1 = base_dirs 1"
    using mkfs_main_image [of ps] ps unfolding accepted_def nb by blast
  have marks: "marked d 2 nr \<longleftrightarrow> nr \<in> {1..4 + length ps}" "marked d 3 nr \<longleftrightarrow> nr \<in> {1..3 + nblocks ps}" if "nr < 8192" for nr
    using d(2) that nb(2) by (auto simp: image_ok_def)
  have zone: "d_zone (kinode d 1) 0 = 7" using d(2) by (simp add: image_ok_def dir_at_def)
  define sb where "sb = get_d_super (kblock d 1) zero_super"
  have "\<forall>x\<in>{1024..<2048}. d x = fill_super (\<lambda>_. 0) x" using d(2) by (simp add: image_ok_def)
  note f = super_reads [OF this, folded sb_def, unfolded Let_def]
  have I: "1 = unat (s_imap_blocks sb)" "1 = unat (s_zmap_blocks sb)" using f by simp_all
  have le: "img_start \<le> img_end" and len: "1024 * (3 + 1 + 1) \<le> unat (img_end - img_start)"
    using img by (simp_all add: word_le_nat_alt unat_sub)
  obtain t "is" zs where t: "seq (main_setup kernel_end img_start img_end) (mount_root keypress) n (boot_state\<lparr>rd_image := d\<rparr>) = Done () t"
    "length is = 1" "length zs = 1" "super_blocks t 0 = (super_of (kblock d 1) is zs zero_super)\<lparr>s_isup := Some 1, s_imount := Some 1\<rparr>"
    "\<And>i. i < 1 \<Longrightarrow> loaded t (is ! i) (2 + i) (marked_block i (kblock d (2 + i)))"
    "\<And>i. i < 1 \<Longrightarrow> loaded t (zs ! i) (2 + 1 + i) (marked_block i (kblock d (2 + 1 + i)))"
    "inode_table t 1 = set_disk_part (get_d_inode (kblock d (2 + 1 + 1)) 0) (zero_inode\<lparr>i_count := 4, i_dev := 0x101, i_num := 1\<rparr>)"
    "pwd (tasks t 0) = Some 1" "root (tasks t 0) = Some 1"
    by (rule boot_mounts [OF k le n sb_def _ I _ _ _ _ _ _ len, where keypress = keypress]) (use f in simp_all)
  have maps: "loaded t (is ! 0) 2 (marked_block 0 (kblock d 2))" "loaded t (zs ! 0) 3 (marked_block 0 (kblock d 3))"
    using t(5) [of 0] t(6) [of 0] by (simp_all add: numeral_3_eq_3)
  have kin: "get_d_inode (kblock d (2 + 1 + 1)) 0 = kinode d 1" by (simp add: kinode_def)
  have "disk_part (inode_table t 1) = kinode d 1" unfolding t(7) disk_part_set by (rule kin)
  moreover have "i_zone (inode_table t 1) 0 = 7" unfolding t(7) kin using zone by (simp add: set_disk_part_def)
  moreover have "s_ninodes (super_blocks t 0) = 96" "s_nzones (super_blocks t 0) = 2041" "s_firstdatazone (super_blocks t 0) = 7"
    using f unfolding t(4) sb_def by (simp_all add: super_of_def get_d_super_def)
  moreover have "s_imap (super_blocks t 0) 0 = Some (is ! 0)" "s_zmap (super_blocks t 0) 0 = Some (zs ! 0)"
    unfolding t(4) using t(2,3) by (simp_all add: super_of_def slots_def)
  moreover have "bit (b_data (buffers t (is ! 0)) (nr div 8)) (nr mod 8) \<longleftrightarrow> nr \<le> 4 + length ps"
    "bit (b_data (buffers t (zs ! 0)) (nr div 8)) (nr mod 8) \<longleftrightarrow> nr \<le> 3 + nblocks ps" if "nr < 8192" for nr
    using loaded_marks [OF maps(1) marks(1) that] loaded_marks [OF maps(2) marks(2) that] by blast+
  ultimately show ?thesis using d(1) t(1,8,9) unfolding nb(1) by blast
qed

theorem mkfs_mounts_witness:
  "\<exists>d t i. mkfs_main [([115, 104, 46, 101, 108, 102], Some [1, 2, 3]), ([47, 116, 46, 101, 108, 102], Some [])] = Inr d \<and>
     seq (main_setup 0x80200000 0x80500000 0x80700000) (mount_root skip) 1000 (boot_state\<lparr>rd_image := d\<rparr>) = Done () t \<and>
     s_imap (super_blocks t 0) 0 = Some i \<and> bit (b_data (buffers t i) 0) 6 \<and> \<not> bit (b_data (buffers t i) 0) 7"
proof -
  let ?ps = "[([115, 104, 46, 101, 108, 102], [1, 2, 3]), ([47, 116, 46, 101, 108, 102], [])] :: (u8 list \<times> u8 list) list"
  have names: "program_name [115, 104, 46, 101, 108, 102] = Some [115, 104]" "program_name [47, 116, 46, 101, 108, 102] = Some [116]"
    by (simp_all add: program_name_def base_name_def Let_def)
  obtain d t i where d: "mkfs_main (map (\<lambda>(path, data). (path, Some data)) ?ps) = Inr d"
    "seq (main_setup 0x80200000 0x80500000 0x80700000) (mount_root skip) 1000 (boot_state\<lparr>rd_image := d\<rparr>) = Done () t"
    "s_imap (super_blocks t 0) 0 = Some i" "\<forall>nr<8192. bit (b_data (buffers t i) (nr div 8)) (nr mod 8) \<longleftrightarrow> nr \<le> 6"
    using mkfs_mounts [of ?ps "0x80200000" "0x80500000" "0x80700000" 1000 skip] names by auto
  then show ?thesis using d(4) [rule_format, of 6] d(4) [rule_format, of 7] by auto
qed

end
