(* ===== verification/Interleaving.thy ===== *)
theory Interleaving
  imports Descriptor_Tasks Mount
begin

text \<open>
  The kernel as a whole: tasks that trap into it one after the other, sleep in it and are switched
  to again, as a step relation over configurations, from the start of \<open>main\<close> on. The invariants of
  \<^verbatim>\<open>Descriptors\<close> hold whenever the processor changes hands.
\<close>

section \<open>Configurations and steps\<close>

text \<open>
  The task that runs, what is left of its run, and for each task that gave up the processor the
  code it continues with. A task at rest has left the kernel: it is in user mode, or it is one of
  the kernel's own tasks between two of its system calls.
\<close>

record config =
  cf_task :: nat
  cf_run :: "(kstate, unit) prog"
  cf_conts :: "nat \<Rightarrow> (kstate \<Rightarrow> (kstate, unit) prog) option"

fun at_rest :: "(kstate, unit) prog \<Rightarrow> kstate option" where
  "at_rest (Done _ s) = Some s"
| "at_rest (User s) = Some s"
| "at_rest _ = None"

text \<open>The code a task continues with is forgotten with the task: \<open>release\<close> frees its stack.\<close>

definition prune :: "kstate \<Rightarrow> (nat \<Rightarrow> (kstate \<Rightarrow> (kstate, unit) prog) option) \<Rightarrow> nat \<Rightarrow> (kstate \<Rightarrow> (kstate, unit) prog) option" where
  "prune s K = (\<lambda>j. if task_used s j then K j else None)"

text \<open>Between two traps a program changes memory and registers, the line receives bytes.\<close>

definition elapsed :: "kstate \<Rightarrow> (u32 \<Rightarrow> u32) \<Rightarrow> trapframe \<Rightarrow> trapframe \<Rightarrow> u8 list \<Rightarrow> kstate" where
  "elapsed s r utf ktf inp = upd_cur (\<lambda>p. p\<lparr>t_tf := utf, t_ktf := ktf\<rparr>) (s\<lparr>ram := r, uart_in := inp\<rparr>)"

text \<open>
  A task at rest traps, with any registers and fuel, or, being one of the kernel's own, creates
  another one. A task that sleeps hands the processor to the task its last state names, which
  continues where it slept or, when it is new, starts at rest.
\<close>

inductive step :: "machine \<Rightarrow> config \<Rightarrow> config \<Rightarrow> bool" for M where
  trap: "at_rest p = Some s \<Longrightarrow> s' = elapsed s r utf ktf inp \<Longrightarrow>
     step M \<lparr>cf_task = i, cf_run = p, cf_conts = K\<rparr>
       \<lparr>cf_task = i, cf_run = trap M mtval tf n s', cf_conts = prune s K\<rparr>"
| thread: "at_rest p = Some s \<Longrightarrow>
     step M \<lparr>cf_task = i, cf_run = p, cf_conts = K\<rparr>
       \<lparr>cf_task = i, cf_run = bind (kernel_thread fn) (\<lambda>_. skip) n s, cf_conts = prune s K\<rparr>"
| resume: "K' = prune s (K(i := Some k)) \<Longrightarrow> K' (current s) = Some k' \<Longrightarrow>
     step M \<lparr>cf_task = i, cf_run = Sleep s k, cf_conts = K\<rparr>
       \<lparr>cf_task = current s, cf_run = k' s, cf_conts = K'(current s := None)\<rparr>"
| start: "K' = prune s (K(i := Some k)) \<Longrightarrow> K' (current s) = None \<Longrightarrow>
     step M \<lparr>cf_task = i, cf_run = Sleep s k, cf_conts = K\<rparr>
       \<lparr>cf_task = current s, cf_run = Done () s, cf_conts = K'\<rparr>"

text \<open>The start: task 0 runs the first half of \<open>main\<close> from the initial state, with the ramdisk image
  \<open>im\<close> that is linked into the kernel.\<close>

definition boot :: "u32 \<Rightarrow> u32 \<Rightarrow> u32 \<Rightarrow> (nat \<Rightarrow> u8) \<Rightarrow> nat \<Rightarrow> config" where
  "boot kernel_end img_start img_end im n =
     \<lparr>cf_task = 0, cf_run = seq (main_setup kernel_end img_start img_end) (mount_root wait_for_keypress) n (boot_state\<lparr>rd_image := im\<rparr>),
      cf_conts = (\<lambda>_. None)\<rparr>"

inductive reachable :: "machine \<Rightarrow> config \<Rightarrow> bool" for M where
  boot: "reachable M (boot kernel_end img_start img_end im n)"
| step: "reachable M c \<Longrightarrow> step M c d \<Longrightarrow> reachable M d"

inductive_cases step_elim: "step M c d"

text \<open>The state of a configuration in which the processor changes hands or the kernel is left.\<close>

fun handover :: "(kstate, unit) prog \<Rightarrow> kstate option" where
  "handover (Done _ s) = Some s"
| "handover (User s) = Some s"
| "handover (Sleep s k) = Some s"
| "handover _ = None"

section \<open>The invariant of configurations\<close>

text \<open>Task \<open>j\<close>, which continues with \<open>k\<close>, finds in \<open>s\<close> what it relies on.\<close>

definition waiting :: "nat \<Rightarrow> (kstate \<Rightarrow> (kstate, unit) prog) \<Rightarrow> kstate \<Rightarrow> bool" where
  "waiting j k s \<longleftrightarrow> (\<exists>s1. task_used s1 j \<and> undisturbed j s1 s \<and>
     (\<forall>s'. fd_inv s' \<and> fd_rely j s1 s' \<longrightarrow> safe (fd_contract j) s' (\<lambda>_. fd_ok j) (k s')))"

definition sound :: "config \<Rightarrow> bool" where
  "sound c \<longleftrightarrow> (\<exists>s0. safe (fd_contract (cf_task c)) s0 (\<lambda>_. fd_ok (cf_task c)) (cf_run c) \<and>
     (\<forall>j k. cf_conts c j = Some k \<longrightarrow> j \<noteq> cf_task c \<and> task_used s0 j \<and> waiting j k s0))"

lemma waiting_later: "waiting j k s \<Longrightarrow> undisturbed j s t \<Longrightarrow> waiting j k t"
  unfolding waiting_def using undisturbed_trans by blast

lemma waiting_resumes:
  "waiting j k s \<Longrightarrow> fd_inv s \<Longrightarrow> current s = j \<Longrightarrow> alive j s \<Longrightarrow> safe (fd_contract j) s (\<lambda>_. fd_ok j) (k s)"
  unfolding waiting_def fd_rely_def by blast

lemma frame_elapsed: "frame s (elapsed s r utf ktf inp)"
  unfolding elapsed_def by (rule frame_upd_cur) (simp_all add: kept_def)

text \<open>A task at rest enters the kernel.\<close>

lemma sound_enter:
  assumes c: "sound \<lparr>cf_task = i, cf_run = p, cf_conts = K\<rparr>" and p: "at_rest p = Some s" and f: "frame s s'"
    and q: "\<And>t. fd_ok i t \<Longrightarrow> safe (fd_contract i) t (\<lambda>_. fd_ok i) (q t)"
  shows "sound \<lparr>cf_task = i, cf_run = q s', cf_conts = prune s K\<rparr>"
proof -
  obtain s0 where s0: "safe (fd_contract i) s0 (\<lambda>_. fd_ok i) p"
      "\<And>j k. K j = Some k \<Longrightarrow> j \<noteq> i \<and> task_used s0 j \<and> waiting j k s0"
    using c by (auto simp: sound_def)
  have s: "fd_ok i s" "fd_guar i s0 s" using s0(1) p by (cases p; simp)+
  have "safe (fd_contract i) s' (\<lambda>_. fd_ok i) (q s')" using q [OF frame_ok [OF f s(1)]] .
  moreover have "j \<noteq> i \<and> task_used s' j \<and> waiting j k s'" if "prune s K j = Some k" for j k
  proof -
    have j: "K j = Some k" "task_used s j" using that by (auto simp: prune_def split: if_splits)
    have "undisturbed j s0 s" using s(2) s0(2) [OF j(1)] by (simp add: fd_guar_def)
    then have "undisturbed j s0 s'" using undisturbed_trans frame_undisturbed [OF f] by blast
    then show ?thesis using s0(2) [OF j(1)] waiting_later j(2) f by (auto simp: frame_def)
  qed
  ultimately show ?thesis by (auto simp: sound_def)
qed

text \<open>The processor is handed over.\<close>

lemma sound_switch:
  assumes c: "sound \<lparr>cf_task = i, cf_run = Sleep s k, cf_conts = K\<rparr>" and K': "K' = prune s (K(i := Some k))"
  shows "fd_inv s" "alive (current s) s" "\<And>j k'. K' j = Some k' \<Longrightarrow> task_used s j \<and> waiting j k' s"
proof -
  obtain s0 where s0: "safe (fd_contract i) s0 (\<lambda>_. fd_ok i) (Sleep s k)"
      "\<And>j k. K j = Some k \<Longrightarrow> j \<noteq> i \<and> task_used s0 j \<and> waiting j k s0"
    using c by (auto simp: sound_def)
  show "fd_inv s" "alive (current s) s" using s0(1) by simp_all
  show "task_used s j \<and> waiting j k' s" if "K' j = Some k'" for j k'
  proof (cases "j = i")
    case True
    then have "task_used s i" "k' = k" using that K' by (auto simp: prune_def split: if_splits)
    then show ?thesis using True s0(1) by (auto simp: waiting_def intro!: exI [of _ s])
  next
    case False
    then have "K j = Some k'" "task_used s j" using that K' by (auto simp: prune_def split: if_splits)
    moreover have "undisturbed j s0 s" using s0(1) False by (simp add: fd_guar_def)
    ultimately show ?thesis using s0(2) waiting_later by blast
  qed
qed

lemma sound_step:
  assumes call: "\<And>me fn. steady me (m_call M fn)" and c: "sound c" and st: "step M c d"
  shows "sound d"
  using st c
proof cases
  case (trap p s s' r utf ktf inp i K mtval tf n)
  then show ?thesis using sound_enter [of i p K s s' "\<lambda>t. trap M mtval tf n t"] trap_safe [OF call] frame_elapsed c by auto
next
  case (thread p s i K fn n)
  have "upholds i (bind (kernel_thread fn) (\<lambda>_. skip))" by (intro upholds_control upholds_kernel_thread)
  then show ?thesis using thread sound_enter [of i p K s s "bind (kernel_thread fn) (\<lambda>_. skip) n"] c upholdsD by auto
next
  case (resume K' s K i k k')
  note sw = sound_switch [OF c [unfolded resume(1)] resume(3)]
  have "safe (fd_contract (current s)) s (\<lambda>_. fd_ok (current s)) (k' s)"
    using waiting_resumes sw resume(4) by blast
  then show ?thesis using sw(3) unfolding resume(2) sound_def by (auto split: if_splits)
next
  case (start K' s K i k)
  note sw = sound_switch [OF c [unfolded start(1)] start(3)]
  have "fd_ok (current s) s" using sw(1,2) by (simp add: fd_ok_def)
  then have "safe (fd_contract (current s)) s (\<lambda>_. fd_ok (current s)) (Done () s)" by simp
  then show ?thesis using sw(3) start(4) unfolding start(2) sound_def by (auto intro!: exI [of _ s])
qed

section \<open>The start\<close>

text \<open>While \<open>main\<close> sets the kernel up, task 0 is the only task and no file is open.\<close>

definition booting :: "kstate \<Rightarrow> bool" where
  "booting s \<longleftrightarrow> current s = 0 \<and> task_used s = (\<lambda>j. j = 0) \<and> filp (tasks s 0) = (\<lambda>_. None) \<and>
     (\<forall>f. f_count (file_table s f) = 0)"

lemma booting_ok:
  assumes b: "booting s"
  shows "fd_ok 0 s"
proof -
  have "descriptors s f = {}" for f using b by (auto simp: descriptors_def booting_def)
  then show ?thesis using b
    by (simp add: booting_def fd_ok_def fd_inv_def files_counted_def zombies_closed_def pids_unique_def slots_ok_def alive_def)
qed

lemma frame_booting: "frame s t \<Longrightarrow> booting s \<Longrightarrow> booting t"
  by (simp add: frame_def booting_def kept_def)

lemma runs_ok: "upholds 0 f \<Longrightarrow> runs 0 booting f"
  using booting_ok by (auto simp: runs_def intro: upholdsD)

lemma runs_booting:
  assumes "\<And>s. booting s \<Longrightarrow> frame s (h s)" "runs 0 booting g"
  shows "runs 0 booting (seq (modify h) g)"
  unfolding seq_def
proof (rule runs_bind [where P' = booting, OF _ assms(2)])
  fix n s assume b: "booting s"
  show "safe (fd_contract 0) s (\<lambda>_. booting) (modify h n s)"
    using frame_booting [OF assms(1) b] frame_guar [OF assms(1)] b by (simp add: kexec)
qed

lemma runs_mount_root: "runs 0 booting (mount_root wait_for_keypress)"
  unfolding mount_root_def
proof (rule runs_booting, goal_cases)
  case (1 s)
  then show ?case by (simp add: frame_def booting_def)
next
  case 2
  show ?case by (rule runs_ok [OF steady_upholds]) (intro upkeep_intros; simp add: frame_defs)
qed

lemma buffer_init_frame: "booting s \<Longrightarrow> safe (fd_contract 0) s (\<lambda>_. booting) (buffer_init a b n s)"
  using frame_booting [of s] frame_guar [of s]
  by (auto simp: buffer_init_def Let_def split: option.split list.split)

lemma runs_main: "runs 0 booting (seq (main_setup kernel_end img_start img_end) (mount_root wait_for_keypress))"
  unfolding seq_def [of "main_setup _ _ _"]
proof (rule runs_bind [where P' = booting, OF _ runs_mount_root])
  fix n s assume b: "booting s"
  let ?t = "sched_init ((tty_init (blk_dev_init (mem_init (buffer_memory_end kernel_end) (RAM_END AND 0xfffff000)
     (rd_init img_start img_end (uart_init (s\<lparr>ROOT_DEV := 0x0101\<rparr>))))))\<lparr>startup_time := 0\<rparr>)"
  have u: "task_used s i = (i = 0)" for i using b by (simp add: booting_def)
  have f: "frame s ?t"
    by (auto simp: frame_def sched_init_def tty_init_def con_init_def uart_init_def outb_def blk_dev_init_def mem_init_def
        rd_init_def fun_eq_iff u)
  have "safe (fd_contract 0) ?t (\<lambda>_. booting) (buffer_init kernel_end (buffer_memory_end kernel_end) n ?t)"
    by (rule buffer_init_frame) (rule frame_booting [OF f b])
  from strict.safe_earlier [OF this, of s] frame_guar [OF f]
  show "safe (fd_contract 0) s (\<lambda>_. booting) (main_setup kernel_end img_start img_end n s)"
    by (simp add: main_setup_def Let_def kexec)
qed

lemma sound_boot: "sound (boot kernel_end img_start img_end im n)"
proof -
  have "booting (boot_state\<lparr>rd_image := im\<rparr>)" by (simp add: booting_def boot_state_def INIT_TASK_def zero_file_def)
  then have "safe (fd_contract 0) (boot_state\<lparr>rd_image := im\<rparr>) (\<lambda>_. fd_ok 0) (cf_run (boot kernel_end img_start img_end im n))"
    using runs_main by (simp add: boot_def runs_def)
  then show ?thesis by (auto simp: sound_def boot_def)
qed

text \<open>Every configuration the kernel reaches is sound.\<close>

lemma reachable_sound:
  assumes "\<And>me fn. steady me (m_call M fn)" "reachable M c"
  shows "sound c"
  using assms(2) by induction (auto intro: sound_boot sound_step [OF assms(1)])

lemma sound_handover: "sound c \<Longrightarrow> handover (cf_run c) = Some s \<Longrightarrow> fd_inv s"
  by (cases "cf_run c") (auto simp: sound_def fd_ok_def)

lemma sound_panic: "sound c \<Longrightarrow> cf_run c = Panic m s \<Longrightarrow> m \<noteq> ''Close: file count is 0''"
  by (auto simp: sound_def)

section \<open>What holds of the kernel\<close>

text \<open>
  C1: From the start of \<open>main\<close> on, whatever system calls the tasks make, with whatever arguments,
  and however their sleeps in the kernel interleave: whenever the processor changes hands or the
  kernel is left, the \<open>f_count\<close> of every file is the number of descriptors of all tasks that refer
  to it, a task that has exited has no descriptor, and no two tasks have the same process number.
  The functions of the timers, which are not part of the sources, are to leave all this alone.
\<close>

theorem descriptors_counted:
  assumes "\<And>me fn. steady me (m_call M fn)" "reachable M c" "handover (cf_run c) = Some s"
  shows "(\<forall>f. unat (f_count (file_table s f)) =
      card {(j, fd) \<in> {..<NR_TASKS} \<times> {..<NR_OPEN}. task_used s j \<and> filp (tasks s j) fd = Some f}) \<and>
    (\<forall>j fd. task_used s j \<and> j \<noteq> 0 \<and> t_state (tasks s j) = TASK_ZOMBIE \<and> fd < NR_OPEN \<longrightarrow> filp (tasks s j) fd = None) \<and>
    (\<forall>i j. task_used s i \<and> task_used s j \<and> pid (tasks s i) = pid (tasks s j) \<longrightarrow> i = j)"
proof -
  have "fd_inv s" using sound_handover [OF reachable_sound [OF assms(1,2)] assms(3)] .
  then show ?thesis
    by (auto simp: fd_inv_def files_counted_def descriptors_def zombies_closed_def alive_def pids_unique_def)
qed

text \<open>A machine whose timer functions do nothing and whose devices are silent.\<close>

definition quiet_machine :: machine where
  "quiet_machine = \<lparr>m_entry = 0, m_inb = (\<lambda>_. 0), m_call = (\<lambda>_. skip), m_pad = (\<lambda>_. 0)\<rparr>"

lemma quiet_machine_steady: "steady me (m_call quiet_machine fn)"
  unfolding quiet_machine_def by (simp add: upkeep_intros)

lemma quiet_machine_starts:
  "\<exists>c s. reachable quiet_machine c \<and> cf_run c = Done () s"
proof -
  obtain t where "seq (main_setup 0x80200000 0x80100000 0x80180000) (mount_root wait_for_keypress) 1000 (boot_state\<lparr>rd_image := fill_super (\<lambda>_. 0)\<rparr>) = Done () t"
    using bare_image_boots by blast
  then have "cf_run (boot 0x80200000 0x80100000 0x80180000 (fill_super (\<lambda>_. 0)) 1000) = Done () t" by (simp add: boot_def)
  then show ?thesis using reachable.boot by blast
qed

theorem descriptors_counted_witness:
  "\<exists>c s. reachable quiet_machine c \<and> handover (cf_run c) = Some s \<and>
     (\<forall>f. unat (f_count (file_table s f)) =
        card {(j, fd) \<in> {..<NR_TASKS} \<times> {..<NR_OPEN}. task_used s j \<and> filp (tasks s j) fd = Some f})"
proof -
  obtain c s where c: "reachable quiet_machine c" "cf_run c = Done () s" using quiet_machine_starts by blast
  then have "handover (cf_run c) = Some s" by simp
  then show ?thesis using descriptors_counted [OF quiet_machine_steady c(1)] c(1) by blast
qed

text \<open>
  C11: The panic of \<open>sys_close\<close>, \<open>Close: file count is 0\<close>, is never reached: no sequence of system
  calls of any tasks makes a descriptor outlive the count of its file.
\<close>

theorem close_never_panics:
  assumes "\<And>me fn. steady me (m_call M fn)" "reachable M c"
  shows "cf_run c \<noteq> Panic ''Close: file count is 0'' s"
  using sound_panic [OF reachable_sound [OF assms]] by blast

theorem close_never_panics_witness:
  "\<exists>c t. reachable quiet_machine c \<and> cf_run c = Done () t \<and> (\<forall>s. cf_run c \<noteq> Panic ''Close: file count is 0'' s)"
proof -
  obtain c t where c: "reachable quiet_machine c" "cf_run c = Done () t" using quiet_machine_starts by blast
  then show ?thesis using close_never_panics [OF quiet_machine_steady c(1)] by blast
qed

end
