(* ===== verification/Delivery.thy ===== *)
theory Delivery
  imports Signals Address_Space Tasks
begin

text \<open>
  Delivery of a signal to a handler and the return from it: what \<open>do_signal\<close> leaves on the
  user's stack is what \<open>sigreturn\<close> needs to continue the interrupted program.
\<close>

section \<open>Words of user memory\<close>

text \<open>The words of user memory from address \<open>sp\<close> on are \<open>vs\<close>.\<close>

definition user_words :: "kstate \<Rightarrow> u32 \<Rightarrow> u32 list \<Rightarrow> bool" where
  "user_words s sp vs \<longleftrightarrow> (\<forall>i<length vs.
     let pa = translate_user (sp + 4 * word_of_nat i) s in pa \<noteq> -1 \<and> pa AND 3 = 0 \<and> ram s pa = vs ! i)"

lemma get_fs_long_user:
  assumes "user_words s sp vs" "i < length vs" "a = sp + 4 * word_of_nat i"
  shows "get_fs_long a n s = Done (vs ! i) s"
  using assms by (auto simp: user_words_def Let_def get_fs_long_def kexec)

text \<open>\<open>outside q s t\<close>: memory and address space of the running task agree outside the page \<open>q\<close>.\<close>

definition outside :: "u32 \<Rightarrow> kstate \<Rightarrow> kstate \<Rightarrow> bool" where
  "outside q s t \<longleftrightarrow> pgdir (cur t) = pgdir (cur s) \<and>
     (\<forall>p j. page_aligned p \<and> p \<noteq> q \<and> j < 1024 \<longrightarrow> ram t (word_at p j) = ram s (word_at p j))"

lemma outside_walk:
  assumes wf: "wf_space s (pgdir (cur s))" and q: "\<not> is_table s (pgdir (cur s)) q" and out: "outside q s t"
    and va: "va < USER_LIMIT"
  shows "walk t (pgdir (cur s)) va = walk s (pgdir (cur s)) va"
proof -
  let ?pgd = "pgdir (cur s)"
  note w = wf_space_simps [OF wf]
  have d: "dir_index va < USER_PGD_ENTRIES" by (rule dir_index_user [OF va])
  have eq: "ram t (word_at p j) = ram s (word_at p j)" if "page_aligned p" "p \<noteq> q" "j < 1024" for p j
    using out that by (simp add: outside_def)
  have dir: "ram t (word_at ?pgd (dir_index va)) = ram s (word_at ?pgd (dir_index va))"
    using q used_aligned [OF w(3)] d by (intro eq) (auto simp: is_table_def)
  show ?thesis
  proof (cases "valid (ram s (word_at ?pgd (dir_index va)))")
    case True
    then have "table s ?pgd (dir_index va) \<noteq> q" using q d by (auto simp: is_table_def has_table_def)
    then have "ram t (word_at (table s ?pgd (dir_index va)) (pt_index va)) = ram s (word_at (table s ?pgd (dir_index va)) (pt_index va))"
      by (intro eq pt_index_bound) (simp_all add: table_def)
    then show ?thesis using w(2) dir by (simp add: walk_unfold table_def)
  next
    case False
    then show ?thesis using w(2) dir by (simp add: walk_unfold)
  qed
qed

lemma outside_translate:
  assumes "wf_space s (pgdir (cur s))" "\<not> is_table s (pgdir (cur s)) q" "outside q s t" "va < USER_LIMIT"
  shows "translate_user va t = translate_user va s"
  using outside_walk [OF assms] assms wf_space_simps(2) [OF assms(1)]
  by (simp add: translate_user_walk outside_def)

section \<open>The stack of a task\<close>

text \<open>
  \<open>stack_ready s sp k\<close>: there is room for \<open>k\<close> words at the word address \<open>sp\<close>, within one page of
  user memory that is mapped for the user to write.
\<close>

definition stack_ready :: "kstate \<Rightarrow> u32 \<Rightarrow> nat \<Rightarrow> bool" where
  "stack_ready s sp k \<longleftrightarrow> wf_space s (pgdir (cur s)) \<and> sp < USER_LIMIT \<and> 4 dvd unat sp \<and> unat sp mod 4096 + 4 * k \<le> 4096 \<and>
     (case walk s (pgdir (cur s)) sp of None \<Rightarrow> False | Some e \<Rightarrow> e AND PTE_U \<noteq> 0 \<and> e AND PTE_W \<noteq> 0)"

definition stack_page :: "kstate \<Rightarrow> u32 \<Rightarrow> u32" where
  "stack_page s sp = (case walk s (pgdir (cur s)) sp of None \<Rightarrow> 0 | Some e \<Rightarrow> pte_phys e)"

abbreviation stack_slot :: "u32 \<Rightarrow> nat" where "stack_slot sp \<equiv> unat sp mod 4096 div 4"

lemma or_offset:
  assumes "page_aligned q" "unat (x :: u32) < 4096"
  shows "unat (q OR x) = unat q + unat x"
proof -
  have "unat (take_bit 12 x) = unat x mod 4096" unfolding unsigned_take_bit_eq by (simp add: take_bit_eq_mod)
  then have "x = take_bit 12 x" using assms(2) by (simp add: word_unat_eq_iff del: unsigned_take_bit_eq)
  then have "q AND x = 0" using page_aligned_bit [OF assms(1)]
    by (intro bit_word_eqI) (metis bit_and_iff bit_take_bit_iff bit_0_eq bot_apply bot_bool_def)
  then have "q OR x = q + x" by (simp add: disjunctive_add_eq_or)
  moreover obtain m where "unat q = 4096 * m" "m < 1048576" by (rule page_alignedE [OF assms(1)])
  ultimately show ?thesis using assms(2) by (simp add: unat_word_ariths)
qed

lemma walk_page:
  assumes "wf_space s (pgdir (cur s))" "walk s (pgdir (cur s)) va = Some e" "va < USER_LIMIT"
  shows "page_aligned (pte_phys e)" "\<not> is_table s (pgdir (cur s)) (pte_phys e)"
proof -
  let ?pgd = "pgdir (cur s)"
  note w = wf_space_simps [OF assms(1)]
  have "has_table s ?pgd (dir_index va)" "valid (ram s (word_at (table s ?pgd (dir_index va)) (pt_index va)))"
    "e = ram s (word_at (table s ?pgd (dir_index va)) (pt_index va))"
    using assms(2) w(2) dir_index_user [OF assms(3)] by (auto simp: walk_unfold has_table_def split: if_splits)
  then show "page_aligned (pte_phys e)" "\<not> is_table s ?pgd (pte_phys e)" using w(7) pt_index_bound by auto
qed

lemma stack_slots:
  assumes "stack_ready s sp k" "i < k"
  shows "translate_user (sp + 4 * word_of_nat i) s = word_at (stack_page s sp) (stack_slot sp + i)"
    "stack_slot sp + i < 1024" "sp + 4 * word_of_nat i < USER_LIMIT"
    "page_aligned (stack_page s sp)" "\<not> is_table s (pgdir (cur s)) (stack_page s sp)"
proof -
  let ?va = "sp + 4 * word_of_nat i" and ?pgd = "pgdir (cur s)"
  have wf: "wf_space s ?pgd" and lim: "unat sp < 2147483648" and al: "4 dvd unat sp" and room: "unat sp mod 4096 + 4 * k \<le> 4096"
    using assms(1) by (simp_all add: stack_ready_def word_less_nat_alt)
  obtain e where e: "walk s ?pgd sp = Some e" "e AND PTE_U \<noteq> 0"
    using assms(1) by (auto simp: stack_ready_def split: option.splits)
  have pg: "page_aligned (pte_phys e)" "\<not> is_table s ?pgd (pte_phys e)"
    using walk_page [OF wf e(1)] lim by (simp_all add: word_less_nat_alt)
  then show "page_aligned (stack_page s sp)" "\<not> is_table s ?pgd (stack_page s sp)" using e by (simp_all add: stack_page_def)
  have i: "unat sp mod 4096 + 4 * i < 4096" using room assms(2) by linarith
  show slot: "stack_slot sp + i < 1024" using i by linarith
  have "word_of_nat (4 * i) = (4 * word_of_nat i :: u32)" by simp
  then have va: "unat ?va = unat sp + 4 * i" using unat_add_of_nat [of sp "4 * i"] i lim by simp
  have off: "unat ?va mod 4096 = unat sp mod 4096 + 4 * i"
    unfolding va using i by (metis mod_add_left_eq mod_less)
  note split = div_mult_mod_eq [of "unat ?va" 4096] div_mult_mod_eq [of "unat sp" 4096]
  have page: "unat ?va div 4096 = unat sp div 4096" using split off va by linarith
  have "unat sp div 4096 < 524288" using lim by simp
  then have "unat ?va < 2147483648" using split off i va by linarith
  then show lt: "?va < USER_LIMIT" by (simp add: word_less_nat_alt)
  have walk: "walk s ?pgd ?va = Some e"
    using walk_cong [OF wf_space_simps(2) [OF wf], of ?va sp s] e(1) page by (simp only: index_of_page)
  have "unat (pte_phys e OR (?va AND 0xfff)) = unat (pte_phys e) + (unat sp mod 4096 + 4 * i)"
    using or_offset [OF pg(1), of "?va AND 0xfff"] off i by (simp add: unat_and_page_mask)
  also have "\<dots> = unat (word_at (pte_phys e) (stack_slot sp + i))"
  proof -
    have "4 dvd unat sp mod 4096" using al by (simp add: dvd_mod)
    then have "unat sp mod 4096 = 4 * stack_slot sp" by simp
    then show ?thesis using unat_word_at [OF pg(1) slot] by (simp only: distrib_left add.assoc)
  qed
  finally have "pte_phys e OR (?va AND 0xfff) = word_at (pte_phys e) (stack_slot sp + i)" by (simp add: word_unat_eq_iff)
  then show "translate_user ?va s = word_at (stack_page s sp) (stack_slot sp + i)"
    using translate_user_walk [OF wf_space_simps(2) [OF wf] lt] walk e by (simp add: stack_page_def)
qed

lemma aligned_word_at:
  assumes "page_aligned q" "j < 1024"
  shows "word_at q j AND 3 = 0" "word_at q j \<noteq> -1"
proof -
  obtain l where l: "unat q = 4096 * l" "l < 1048576" by (rule page_alignedE [OF assms(1)])
  then have "unat (word_at q j) = 4 * (1024 * l + j)" using unat_word_at [OF assms] by simp
  then have m: "unat (word_at q j) mod 4 = 0" by (metis mod_mult_self1_is_0)
  have "word_at q j AND 3 = take_bit 2 (word_at q j)" by (simp only: take_bit_eq_mask mask_eq_exp_minus_1) simp
  moreover have "unat (take_bit 2 (word_at q j)) = unat (word_at q j) mod 4"
    unfolding unsigned_take_bit_eq by (simp add: take_bit_eq_mod)
  ultimately have "unat (word_at q j AND 3) = unat (word_at q j) mod 4" by metis
  then show "word_at q j AND 3 = 0" using m by (simp add: unat_eq_zero)
  have "unat (-1 :: u32) mod 4 \<noteq> 0" by (simp add: unsigned_minus_1_eq_mask mask_eq_exp_minus_1)
  then show "word_at q j \<noteq> -1" using m by metis
qed

section \<open>Pushing words\<close>

text \<open>Memory after the first \<open>m\<close> words of \<open>vs\<close> have been stored from slot \<open>k\<close> of the page \<open>q\<close> on.\<close>

primrec stores :: "u32 \<Rightarrow> nat \<Rightarrow> u32 list \<Rightarrow> nat \<Rightarrow> (u32 \<Rightarrow> u32) \<Rightarrow> u32 \<Rightarrow> u32" where
  "stores q k vs 0 r = r"
| "stores q k vs (Suc m) r = (stores q k vs m r)(word_at q (k + m) := vs ! m)"

definition pushed :: "u32 \<Rightarrow> nat \<Rightarrow> u32 list \<Rightarrow> nat \<Rightarrow> kstate \<Rightarrow> kstate" where
  "pushed q k vs m s = s\<lparr>ram := stores q k vs m (ram s)\<rparr>"

lemma stores_at:
  assumes "page_aligned q" "k + m \<le> 1024"
  shows "i < m \<Longrightarrow> stores q k vs m r (word_at q (k + i)) = vs ! i"
    "page_aligned p \<Longrightarrow> p \<noteq> q \<Longrightarrow> j < 1024 \<Longrightarrow> stores q k vs m r (word_at p j) = r (word_at p j)"
  using assms(2) by (induction m) (auto simp: word_at_eq_iff assms(1) less_Suc_eq)

lemma cur_pushed [simp]: "cur (pushed q k vs m s) = cur s"
  by (simp add: pushed_def cur_def)

lemma pushed_outside:
  "page_aligned q \<Longrightarrow> k + m \<le> 1024 \<Longrightarrow> outside q s (pushed q k vs m s)"
  by (simp add: outside_def pushed_def stores_at cur_def)

lemma put_words_exec:
  assumes ready: "stack_ready s sp k" and len: "length vs \<le> k"
  shows "put_words sp vs n s = Done () (pushed (stack_page s sp) (stack_slot sp) vs (length vs) s)"
proof -
  let ?q = "stack_page s sp" and ?k = "stack_slot sp"
  let ?st = "\<lambda>m. pushed ?q ?k vs m s"
  have wf: "wf_space s (pgdir (cur s))" using ready by (simp add: stack_ready_def)
  have "for_each [0..<m] (\<lambda>i. put_fs_long (vs ! i) (sp + 4 * word_of_nat i)) n s = Done () (?st m)" if "m \<le> length vs" for m
    using that
  proof (induction m)
    case (Suc m)
    then have m: "m < k" using len by simp
    note slot = stack_slots [OF ready m]
    have "translate_user (sp + 4 * word_of_nat m) (?st m) = word_at ?q (?k + m)"
      using outside_translate [OF wf slot(5) pushed_outside [OF slot(4)] slot(3)] slot(1,2) by simp
    then have "put_fs_long (vs ! m) (sp + 4 * word_of_nat m) n (?st m) = Done () (set_ram (word_at ?q (?k + m)) (vs ! m) (?st m))"
      using aligned_word_at [OF slot(4,2)] by (simp add: put_fs_long_def kexec)
    moreover have "set_ram (word_at ?q (?k + m)) (vs ! m) (?st m) = ?st (Suc m)" by (simp add: set_ram_def pushed_def)
    ultimately show ?case using Suc by (simp add: for_each_append seq_exec skip_exec)
  qed (simp add: skip_exec pushed_def)
  then show ?thesis by (simp add: put_words_def)
qed

text \<open>Memory that is writable already needs no work.\<close>

lemma verify_area_ready:
  assumes ready: "stack_ready s sp k" and sz: "unat sz = 4 * k" "0 < k" and fuel: "2 \<le> n"
  shows "verify_area sp sz n s = Done () s"
proof -
  let ?left = "sz + (sp AND 0xfff)" and ?start = "sp AND 0xfffff000"
  have wf: "wf_space s (pgdir (cur s))" and lim: "sp < USER_LIMIT" and room: "unat sp mod 4096 + 4 * k \<le> 4096"
    using ready by (simp_all add: stack_ready_def)
  obtain e where e: "walk s (pgdir (cur s)) sp = Some e" "e AND PTE_W \<noteq> 0"
    using ready by (auto simp: stack_ready_def split: option.splits)
  have ul: "unat ?left = 4 * k + unat sp mod 4096"
    using room sz by (simp add: unat_word_ariths unat_and_page_mask)
  have "sint ?left = int (4 * k + unat sp mod 4096)" using sint_unat [of ?left] ul room by simp
  then have l: "0 < sint ?left" "sint ?left \<le> 4096" using room sz by linarith+
  then have l2: "\<not> 0 <s ?left - 4096" "0 <s ?left"
    using sint_minus_page [of ?left] by (simp_all add: word_sless_alt)
  have "walk s (pgdir (cur s)) ?start = Some e"
    using walk_cong [OF wf_space_simps(2) [OF wf], of ?start sp s] e(1) by (simp add: index_of_page unat_page_start)
  then have page: "verify_page ?start n s = Done () s"
    using e(2) by (auto simp: verify_page_def kexec walk_def valid_def split: option.splits if_splits)
  obtain m where n: "n = Suc (Suc m)" using fuel by (metis Suc_le_D numeral_2_eq_2 Suc_le_mono)
  show ?thesis using wf_space_simps(2) [OF wf] lim l2 page unfolding verify_area_def loop_def n
    by (simp add: kexec)
qed

lemma pushed_words:
  assumes ready: "stack_ready s sp k" and len: "length vs \<le> k"
    and t: "ram t = ram (pushed (stack_page s sp) (stack_slot sp) vs (length vs) s)" "pgdir (cur t) = pgdir (cur s)"
  shows "user_words t sp vs"
  unfolding user_words_def Let_def
proof (intro allI impI)
  fix i assume i: "i < length vs"
  let ?q = "stack_page s sp" and ?k = "stack_slot sp"
  have wf: "wf_space s (pgdir (cur s))" using ready by (simp add: stack_ready_def)
  note slot = stack_slots [OF ready less_le_trans [OF i len]]
  have "length vs - 1 < k" using i len by linarith
  from stack_slots(2) [OF ready this] have fit: "?k + length vs \<le> 1024" using i by linarith
  have "outside ?q s t" using pushed_outside [OF slot(4) fit, of s vs] t by (simp add: outside_def)
  then have "translate_user (sp + 4 * word_of_nat i) t = word_at ?q (?k + i)"
    using outside_translate [OF wf slot(5) _ slot(3)] slot(1) by simp
  moreover have "ram t (word_at ?q (?k + i)) = vs ! i"
    using stores_at(1) [OF slot(4) fit i, of vs "ram s"] by (simp add: t pushed_def)
  ultimately show "translate_user (sp + 4 * word_of_nat i) t \<noteq> -1 \<and> translate_user (sp + 4 * word_of_nat i) t AND 3 = 0 \<and>
      ram t (translate_user (sp + 4 * word_of_nat i) t) = vs ! i"
    using aligned_word_at [OF slot(4,2)] by simp
qed

section \<open>Delivery and return\<close>

lemma stack_ready_cong:
  assumes "ram t = ram s" "mem_map t = mem_map s" "pgdir (cur t) = pgdir (cur s)"
  shows "stack_ready t sp k = stack_ready s sp k" "stack_page t sp = stack_page s sp"
proof -
  have walk: "walk t pgd va = walk s pgd va" for pgd va using assms by (simp add: walk_def pte_lookup_def Let_def)
  have "wf_space t pgd = wf_space s pgd" for pgd
    using assms by (simp add: wf_space_def used_def has_table_def table_def is_table_def)
  with walk show "stack_ready t sp k = stack_ready s sp k" "stack_page t sp = stack_page s sp"
    using assms(3) by (simp_all add: stack_ready_def stack_page_def)
qed

definition fire :: "nat \<Rightarrow> kstate \<Rightarrow> kstate" where
  "fire i s = upd_sigaction i (\<lambda>a. if sa_flags a AND SA_ONESHOT \<noteq> 0 then a\<lparr>sa_handler := 0\<rparr> else a) s"

lemma fire_fields:
  "ram (fire i s) = ram s" "mem_map (fire i s) = mem_map s" "t_tf (cur (fire i s)) = t_tf (cur s)"
  "pgdir (cur (fire i s)) = pgdir (cur s)" "t_blocked (cur (fire i s)) = t_blocked (cur s)"
  "sa_restorer (t_sigaction (cur (fire i s)) i) = sa_restorer (t_sigaction (cur s) i)"
  "sa_mask (t_sigaction (cur (fire i s)) i) = sa_mask (t_sigaction (cur s) i)"
  by (simp_all add: fire_def upd_sigaction_def upd_cur_def upd_task_def cur_def)

lemma push_handler_exec:
  assumes sp: "sp = tf_x (t_tf (cur s)) SP - 20" and ready: "stack_ready s sp 5" and fuel: "2 \<le> n"
    and vs: "vs = [sa_restorer (t_sigaction (cur s) (sig - 1)), word_of_nat sig, tf_x (t_tf (cur s)) A0, tf_mepc (t_tf (cur s)), tf_x (t_tf (cur s)) SP]"
  shows "push_handler User_tf sig handler n s = Done ()
     (upd_cur (\<lambda>t. t\<lparr>t_blocked := t_blocked t OR sa_mask (t_sigaction t (sig - 1))\<rparr>)
     (upd_tf User_tf (handler_frame sp (word_of_nat sig) (sa_restorer (t_sigaction (cur s) (sig - 1))) handler)
     (pushed (stack_page s sp) (stack_slot sp) vs 5 (fire (sig - 1) s))))"
proof -
  let ?s = "fire (sig - 1) s"
  have r: "stack_ready ?s sp 5" "stack_page ?s sp = stack_page s sp"
    using stack_ready_cong [OF fire_fields(1,2,4)] ready by simp_all
  have len: "length vs = 5" by (simp add: vs)
  have v: "verify_area sp 20 n ?s = Done () ?s" by (rule verify_area_ready [OF r(1)]) (use fuel in simp_all)
  have p: "put_words sp vs n ?s = Done () (pushed (stack_page s sp) (stack_slot sp) vs 5 ?s)"
    using put_words_exec [OF r(1), of vs n] unfolding len r(2) by simp
  have "push_handler User_tf sig handler n s = bindp (verify_area sp 20 n ?s) (\<lambda>_ s1. bindp (put_words sp vs n s1) (\<lambda>_ s2.
      Done () (upd_cur (\<lambda>t. t\<lparr>t_blocked := t_blocked t OR sa_mask (t_sigaction t (sig - 1))\<rparr>)
        (upd_tf User_tf (handler_frame sp (word_of_nat sig) (sa_restorer (t_sigaction (cur s) (sig - 1))) handler) s2))))"
    unfolding push_handler_def Let_def seq_exec bind_exec modify_exec gets_exec bindp.simps fire_def [symmetric] get_tf.simps prod.case
      fire_fields sp vs ..
  then show ?thesis unfolding v bindp.simps p .
qed

lemma user_words_tf: "user_words (upd_tf User_tf f s) sp vs = user_words s sp vs"
proof -
  have "translate_user va (upd_tf User_tf f s) = translate_user va s" for va
    by (simp add: translate_user_def pte_lookup_def Let_def) (simp add: upd_cur_def upd_task_def)
  moreover have "ram (upd_tf User_tf f s) = ram s" by (simp add: upd_cur_def upd_task_def)
  ultimately show ?thesis by (simp add: user_words_def)
qed

lemma sys_sigreturn_exec:
  assumes sp: "tf_x (t_tf (cur u)) SP = sp" and words: "user_words u sp vs" "5 \<le> length vs"
  shows "sys_sigreturn n u = Done (vs ! 2) (upd_tf User_tf (set_reg SP (vs ! 4)) (upd_tf User_tf (\<lambda>tf. tf\<lparr>tf_mepc := vs ! 3\<rparr>)
     (upd_tf User_tf (set_reg A0 (vs ! 2)) u)))"
proof -
  let ?u1 = "upd_tf User_tf (set_reg A0 (vs ! 2)) u" let ?u2 = "upd_tf User_tf (\<lambda>tf. tf\<lparr>tf_mepc := vs ! 3\<rparr>) ?u1"
  have "get_fs_long (sp + 8) n u = Done (vs ! 2) u"
    by (rule get_fs_long_user [OF words(1)]) (use words(2) in simp_all)
  moreover have "get_fs_long (sp + 12) n ?u1 = Done (vs ! 3) ?u1"
    by (rule get_fs_long_user [of _ sp vs]) (use words in \<open>simp_all only: user_words_tf\<close>, simp_all)
  moreover have "get_fs_long (sp + 16) n ?u2 = Done (vs ! 4) ?u2"
    by (rule get_fs_long_user [of _ sp vs]) (use words in \<open>simp_all only: user_words_tf\<close>, simp_all)
  moreover have "tf_x (t_tf (cur (upd_tf User_tf (set_reg SP (vs ! 4)) ?u2))) A0 = vs ! 2" by (simp add: set_reg_def)
  ultimately show ?thesis unfolding sys_sigreturn_def bind_exec gets_exec bindp.simps sp seq_exec modify_exec by simp
qed

text \<open>
  C25: Delivery of a caught signal and the return from its handler. With room on the user's
  stack, \<open>do_signal\<close> returns with the trap frame set to enter the handler: program counter,
  stack pointer, the signal number as argument and the restorer as return address; a one-shot
  action is reset and the signals of its mask are blocked. Whatever the handler does, if it
  leaves the five words on the stack as they are and its stack pointer back in place, then
  \<open>sigreturn\<close> makes the trap frame continue the interrupted program: its program counter, its
  stack pointer and its first argument register are what they were.
\<close>

theorem signal_roundtrip:
  fixes s sig
  defines "tf \<equiv> t_tf (cur s)" and "act \<equiv> t_sigaction (cur s) (sig - 1)"
  defines "sp \<equiv> tf_x tf SP - 20"
  defines "vs \<equiv> [sa_restorer act, word_of_nat sig, tf_x tf A0, tf_mepc tf, tf_x tf SP]"
  assumes ready: "stack_ready s sp 5" and fuel: "2 \<le> n" and caught: "sa_handler act \<notin> {0, 1}"
  shows "\<exists>t. do_signal User_tf sig n s = Done () t \<and>
     t_tf (cur t) = handler_frame sp (word_of_nat sig) (sa_restorer act) (sa_handler act) tf \<and>
     sa_handler (t_sigaction (cur t) (sig - 1)) = (if sa_flags act AND SA_ONESHOT \<noteq> 0 then 0 else sa_handler act) \<and>
     t_blocked (cur t) = t_blocked (cur s) OR sa_mask act \<and> user_words t sp vs \<and>
     (\<forall>u. tf_x (t_tf (cur u)) SP = sp \<and> user_words u sp vs \<longrightarrow>
        (\<exists>v. sys_sigreturn n u = Done (tf_x tf A0) v \<and>
           t_tf (cur v) = (t_tf (cur u))\<lparr>tf_mepc := tf_mepc tf, tf_x := (tf_x (t_tf (cur u)))(A0 := tf_x tf A0, SP := tf_x tf SP)\<rparr>))"
proof -
  have vs: "vs = [sa_restorer (t_sigaction (cur s) (sig - 1)), word_of_nat sig, tf_x (t_tf (cur s)) A0, tf_mepc (t_tf (cur s)), tf_x (t_tf (cur s)) SP]"
    by (simp add: vs_def act_def tf_def)
  let ?p = "pushed (stack_page s sp) (stack_slot sp) vs 5 (fire (sig - 1) s)"
  let ?t = "upd_cur (\<lambda>t. t\<lparr>t_blocked := t_blocked t OR sa_mask (t_sigaction t (sig - 1))\<rparr>)
     (upd_tf User_tf (handler_frame sp (word_of_nat sig) (sa_restorer act) (sa_handler act)) ?p)"
  have run: "do_signal User_tf sig n s = Done () ?t"
    using push_handler_exec [OF _ ready fuel vs, of "sa_handler act"] caught by (simp add: do_signal_def kexec act_def sp_def tf_def)
  have ct: "cur ?t = (cur (fire (sig - 1) s))\<lparr>t_tf := handler_frame sp (word_of_nat sig) (sa_restorer act) (sa_handler act) tf,
      t_blocked := t_blocked (cur s) OR sa_mask act\<rparr>"
    using fire_fields [of "sig - 1" s] by (simp add: act_def tf_def)
  have words: "user_words ?t sp vs"
  proof (rule pushed_words [OF ready])
    have len: "length vs = 5" by (simp add: vs_def)
    show "length vs \<le> 5" by (simp add: len)
    show "ram ?t = ram (pushed (stack_page s sp) (stack_slot sp) vs (length vs) s)"
      unfolding len by (simp add: pushed_def upd_cur_def upd_task_def fire_fields)
    show "pgdir (cur ?t) = pgdir (cur s)" by (simp only: ct) (simp add: fire_fields)
  qed
  have ret: "\<exists>v. sys_sigreturn n u = Done (tf_x tf A0) v \<and>
      t_tf (cur v) = (t_tf (cur u))\<lparr>tf_mepc := tf_mepc tf, tf_x := (tf_x (t_tf (cur u)))(A0 := tf_x tf A0, SP := tf_x tf SP)\<rparr>"
    if u: "tf_x (t_tf (cur u)) SP = sp" "user_words u sp vs" for u
    using sys_sigreturn_exec [OF u, of n] by (simp add: vs_def set_reg_def fun_upd_twist)
  have "sa_handler (t_sigaction (cur ?t) (sig - 1)) = (if sa_flags act AND SA_ONESHOT \<noteq> 0 then 0 else sa_handler act)"
    unfolding ct by (simp add: fire_def upd_sigaction_def act_def)
  with run ct words ret show ?thesis by (intro exI [of _ ?t]) simp
qed

text \<open>A task of the small address space whose stack pointer is in its only page.\<close>

definition catching :: kstate where
  "catching = upd_cur (\<lambda>t. t\<lparr>t_tf := zero_trapframe\<lparr>tf_mepc := 0x5000, tf_x := (\<lambda>_. 0)(SP := 0x5100, A0 := 42)\<rparr>,
     t_sigaction := (\<lambda>_. zero_sigaction\<lparr>sa_handler := 0x5040\<rparr>)\<rparr>) small_space"

lemma catching_ready: "stack_ready catching (0x5100 - 20) 5"
proof -
  have c: "ram catching = ram small_space" "mem_map catching = mem_map small_space" "pgdir (cur catching) = pgdir (cur small_space)"
    by (simp_all add: catching_def) (simp_all add: upd_cur_def upd_task_def)
  have "dir_index 0x50ec = 0" "pt_index 0x50ec = 5" by (simp_all add: index_of_page)
  then have "walk small_space (frame_addr 0) 0x50ec = Some (phys_ppn (frame_addr 3) OR PTE_USER_RWX)"
    using small_ram [of 0 0] small_ram [of 4 5] small_table wf_space_simps(2) [OF small_wf] small_leaf(1) [of 5]
    by (simp add: walk_unfold valid_table_entry)
  moreover have "(phys_ppn p OR PTE_USER_RWX) AND PTE_U \<noteq> 0" "(phys_ppn p OR PTE_USER_RWX) AND PTE_W \<noteq> 0" for p
    by (simp_all add: bit_eq_iff bit_simps) (auto intro: exI [of _ 4] exI [of _ 2] simp: bit_simps)
  ultimately have "stack_ready small_space 0x50ec 5" using small_wf small_cur by (simp add: stack_ready_def)
  then show ?thesis using stack_ready_cong(1) [OF c] by simp
qed

theorem signal_roundtrip_witness:
  "\<exists>t. do_signal User_tf 2 2 catching = Done () t \<and> tf_mepc (t_tf (cur t)) = 0x5040 \<and> tf_x (t_tf (cur t)) A0 = 2 \<and>
     user_words t 0x50ec [0, 2, 42, 0x5000, 0x5100] \<and>
     (\<exists>v. sys_sigreturn 2 t = Done 42 v \<and> tf_mepc (t_tf (cur v)) = 0x5000 \<and> tf_x (t_tf (cur v)) SP = 0x5100)"
proof -
  have tf: "t_tf (cur catching) = zero_trapframe\<lparr>tf_mepc := 0x5000, tf_x := (\<lambda>_. 0)(SP := 0x5100, A0 := 42)\<rparr>"
    "t_sigaction (cur catching) (2 - 1) = zero_sigaction\<lparr>sa_handler := 0x5040\<rparr>"
    by (simp_all add: catching_def)
  have "stack_ready catching (tf_x (t_tf (cur catching)) SP - 20) 5" using catching_ready by (simp add: tf)
  from signal_roundtrip [OF this, of 2 2] show ?thesis
    unfolding tf by (auto simp: zero_sigaction_def handler_frame_def set_reg_def)
      (drule spec, erule impE, erule conjI [rotated], simp, auto)
qed

lemma lowest_signal_cases:
  assumes "p \<noteq> 0"
  shows "\<exists>b<32. lowest_signal p = Some (Suc b) \<and> bit p b \<and> (\<forall>i<b. \<not> bit p i)"
proof (cases "lowest_signal p")
  case None
  have "\<not> bit p i" if "i < 32" for i
    using None that search_None_iff [of "\<lambda>sig. bit p (sig - 1)" 1 32] by (auto simp: lowest_signal_def dest: spec [of _ "Suc i"])
  then have "p = 0" by (intro bit_word_eqI) simp
  with assms show ?thesis by simp
next
  case (Some sig)
  then have g: "1 \<le> sig" "sig < 33" "bit p (sig - 1)" "\<And>l. 1 \<le> l \<Longrightarrow> l < sig \<Longrightarrow> \<not> bit p (l - 1)"
    by (auto simp: lowest_signal_def search_Some_iff)
  have "\<not> bit p i" if "i < sig - 1" for i using g(4) [of "Suc i"] that by simp
  then show ?thesis using g Some by (intro exI [of _ "sig - 1"]) simp
qed

text \<open>
  C30: On the way back to user mode, at most one signal is handled: when none is pending and
  unblocked nothing happens; otherwise it is the lowest-numbered one that is pending and not
  blocked, which is taken off the pending signals, and no other, before its action runs.
\<close>

theorem do_signals_lowest:
  "(t_signal (cur s) AND NOT (t_blocked (cur s)) = 0 \<longrightarrow> do_signals tf n s = Done () s) \<and>
   (t_signal (cur s) AND NOT (t_blocked (cur s)) \<noteq> 0 \<longrightarrow>
     (\<exists>b<32. bit (t_signal (cur s)) b \<and> \<not> bit (t_blocked (cur s)) b \<and>
        (\<forall>i<b. bit (t_signal (cur s)) i \<longrightarrow> bit (t_blocked (cur s)) i) \<and>
        (\<exists>t. do_signals tf n s = do_signal tf (Suc b) n t \<and>
           t = upd_cur (\<lambda>p. p\<lparr>t_signal := t_signal (cur t)\<rparr>) s \<and>
           (\<forall>i<32. bit (t_signal (cur t)) i \<longleftrightarrow> i \<noteq> b \<and> bit (t_signal (cur s)) i))))"
proof (intro conjI impI)
  let ?p = "t_signal (cur s) AND NOT (t_blocked (cur s))"
  show "?p = 0 \<Longrightarrow> do_signals tf n s = Done () s" by (simp add: do_signals_def kexec)
  assume nz: "?p \<noteq> 0"
  then obtain b where b: "b < 32" "lowest_signal ?p = Some (Suc b)" "bit ?p b" "\<forall>i<b. \<not> bit ?p i"
    using lowest_signal_cases by blast
  let ?t = "upd_cur (\<lambda>t. t\<lparr>t_signal := t_signal t AND NOT (push_bit b 1)\<rparr>) s"
  have "t_signal (cur s) \<noteq> 0" using nz by auto
  then have run: "do_signals tf n s = do_signal tf (Suc b) n ?t" using nz b(2) by (simp add: do_signals_def kexec)
  have "?t = upd_cur (\<lambda>p. p\<lparr>t_signal := t_signal (cur ?t)\<rparr>) s" by (simp add: upd_cur_def upd_task_def cur_def)
  moreover have "\<forall>i<32. bit (t_signal (cur ?t)) i \<longleftrightarrow> i \<noteq> b \<and> bit (t_signal (cur s)) i"
    by (auto simp: bit_simps)
  moreover have "bit (t_signal (cur s)) b" "\<not> bit (t_blocked (cur s)) b" using b(1,3) by (simp_all add: bit_simps)
  moreover have "\<forall>i<b. bit (t_signal (cur s)) i \<longrightarrow> bit (t_blocked (cur s)) i" using b(1,4) by (auto simp: bit_simps)
  ultimately show "\<exists>b<32. bit (t_signal (cur s)) b \<and> \<not> bit (t_blocked (cur s)) b \<and>
        (\<forall>i<b. bit (t_signal (cur s)) i \<longrightarrow> bit (t_blocked (cur s)) i) \<and>
        (\<exists>t. do_signals tf n s = do_signal tf (Suc b) n t \<and>
           t = upd_cur (\<lambda>p. p\<lparr>t_signal := t_signal (cur t)\<rparr>) s \<and>
           (\<forall>i<32. bit (t_signal (cur t)) i \<longleftrightarrow> i \<noteq> b \<and> bit (t_signal (cur s)) i))"
    using b(1) run by blast
qed

theorem do_signals_lowest_witness:
  "\<exists>b<32. bit (10 :: u32) b \<and> \<not> bit (2 :: u32) b \<and> (\<exists>t. do_signals User_tf 0
     (upd_cur (\<lambda>p. p\<lparr>t_signal := 10, t_blocked := 2\<rparr>) boot_state) = do_signal User_tf (Suc b) 0 t)"
proof -
  let ?s = "upd_cur (\<lambda>p. p\<lparr>t_signal := 10, t_blocked := 2\<rparr>) boot_state"
  have "t_signal (cur ?s) = 10" "t_blocked (cur ?s) = 2" by simp_all
  then show ?thesis using do_signals_lowest [of ?s User_tf 0] by (simp del: cur_upd_cur) blast
qed

end
