(* ===== verification/Window.thy ===== *)
theory Window
  imports Delivery
begin

text \<open>
  Windows of user memory: consecutive addresses of the current task that are mapped, different
  pages to different frames. What the kernel stores there through \<open>put_fs_long\<close> and \<open>put_fs_byte\<close>
  of \<^verbatim>\<open>include/asm/segment.h\<close> is what it, and the task, read there.
\<close>

section \<open>A window of user memory\<close>

text \<open>
  The user addresses from \<open>lo\<close> to \<open>hi\<close>, as numbers, are mapped for the user, different pages to different frames.
\<close>

definition window :: "kstate \<Rightarrow> nat \<Rightarrow> nat \<Rightarrow> bool" where
  "window s lo hi \<longleftrightarrow> wf_space s (pgdir (cur s)) \<and> hi \<le> 2147483648 \<and>
     (\<forall>a. lo \<le> a \<and> a < hi \<longrightarrow> translate_user (word_of_nat a) s \<noteq> -1) \<and>
     (\<forall>a b e f. lo \<le> a \<and> a < hi \<and> lo \<le> b \<and> b < hi \<and> walk s (pgdir (cur s)) (word_of_nat a) = Some e \<and>
        walk s (pgdir (cur s)) (word_of_nat b) = Some f \<and> pte_phys e = pte_phys f \<longrightarrow> a div 4096 = b div 4096)"

text \<open>The frame that the address \<open>a\<close> is mapped to.\<close>

definition frame_of :: "kstate \<Rightarrow> nat \<Rightarrow> u32" where
  "frame_of s a = (case walk s (pgdir (cur s)) (word_of_nat a) of None \<Rightarrow> 0 | Some e \<Rightarrow> pte_phys e)"

lemma window_frame:
  assumes w: "window s lo hi" and a: "lo \<le> a" "a < hi"
  shows "page_aligned (frame_of s a)" "\<not> is_table s (pgdir (cur s)) (frame_of s a)"
    "unat (translate_user (word_of_nat a) s) = unat (frame_of s a) + a mod 4096"
    "b div 4096 = a div 4096 \<Longrightarrow> b < hi \<Longrightarrow> frame_of s b = frame_of s a"
    "lo \<le> b \<Longrightarrow> b < hi \<Longrightarrow> frame_of s b = frame_of s a \<Longrightarrow> b div 4096 = a div 4096"
proof -
  have wf: "wf_space s (pgdir (cur s))" and lim: "hi \<le> 2147483648" using w by (simp_all add: window_def)
  have ua: "unat (word_of_nat x :: u32) = x" if "x < hi" for x using that lim by (simp add: unat_of_nat)
  have lt: "word_of_nat x < USER_LIMIT" if "x < hi" for x using ua [OF that] that lim by (simp add: word_less_nat_alt)
  have walk: "\<exists>e. walk s (pgdir (cur s)) (word_of_nat x) = Some e \<and> e AND PTE_U \<noteq> 0" if "lo \<le> x" "x < hi" for x
  proof -
    have "translate_user (word_of_nat x) s \<noteq> -1" using w that by (simp add: window_def)
    then show ?thesis
      using translate_user_walk [OF wf_space_simps(2) [OF wf] lt [OF that(2)]] by (auto split: option.splits if_splits)
  qed
  obtain e where e: "walk s (pgdir (cur s)) (word_of_nat a) = Some e" "e AND PTE_U \<noteq> 0" using walk a by blast
  note va = lt [OF a(2)]
  note pg = walk_page [OF wf e(1) va]
  show "page_aligned (frame_of s a)" "\<not> is_table s (pgdir (cur s)) (frame_of s a)" using pg e(1) by (simp_all add: frame_of_def)
  have "unat (pte_phys e OR (word_of_nat a AND 0xfff)) = unat (pte_phys e) + a mod 4096"
    using or_offset [OF pg(1), of "word_of_nat a AND 0xfff"] ua [OF a(2)] by (simp add: unat_and_page_mask)
  then show "unat (translate_user (word_of_nat a) s) = unat (frame_of s a) + a mod 4096"
    using translate_user_walk [OF wf_space_simps(2) [OF wf] va] e by (simp add: frame_of_def)
  show "frame_of s b = frame_of s a" if "b div 4096 = a div 4096" "b < hi"
    using walk_cong [OF wf_space_simps(2) [OF wf], of "word_of_nat b" "word_of_nat a" s] that ua [OF a(2)] ua [OF that(2)]
    by (simp add: index_of_page frame_of_def)
  show "b div 4096 = a div 4096" if b: "lo \<le> b" "b < hi" "frame_of s b = frame_of s a"
  proof -
    obtain f where "walk s (pgdir (cur s)) (word_of_nat b) = Some f" using walk b by blast
    then show ?thesis using w a b e(1) unfolding window_def frame_of_def by auto
  qed
qed

text \<open>The physical address of the user word at \<open>a\<close>.\<close>

lemma window_word:
  assumes w: "window s lo hi" and a: "lo \<le> a" "a < hi" "a mod 4 = 0"
  shows "translate_user (word_of_nat a) s = word_at (frame_of s a) (a mod 4096 div 4)" "a mod 4096 div 4 < 1024"
    "translate_user (word_of_nat a) s AND 3 = 0" "translate_user (word_of_nat a) s \<noteq> -1"
    "4 * (a mod 4096 div 4) = a mod 4096"
proof -
  note F = window_frame [OF w a(1,2)]
  show j: "a mod 4096 div 4 < 1024" by simp
  have "4 dvd a" "(4 :: nat) dvd 4096" using a(3) by auto
  then have "4 dvd a mod 4096" by (rule dvd_mod)
  then show m: "4 * (a mod 4096 div 4) = a mod 4096" by simp
  then show eq: "translate_user (word_of_nat a) s = word_at (frame_of s a) (a mod 4096 div 4)"
    using F(3) unat_word_at [OF F(1) j] by (simp add: word_unat_eq_iff)
  show "translate_user (word_of_nat a) s AND 3 = 0" "translate_user (word_of_nat a) s \<noteq> -1"
    using aligned_word_at [OF F(1) j] eq by simp_all
qed

lemma window_inj:
  assumes w: "window s lo hi" and a: "lo \<le> a" "a < hi" "a mod 4 = 0" and b: "lo \<le> b" "b < hi" "b mod 4 = 0"
  shows "translate_user (word_of_nat a) s = translate_user (word_of_nat b) s \<longleftrightarrow> a = b"
proof
  assume "translate_user (word_of_nat a) s = translate_user (word_of_nat b) s"
  then have "word_at (frame_of s a) (a mod 4096 div 4) = word_at (frame_of s b) (b mod 4096 div 4)"
    unfolding window_word(1) [OF w a] window_word(1) [OF w b] .
  then have eq: "frame_of s a = frame_of s b" "a mod 4096 div 4 = b mod 4096 div 4"
    unfolding word_at_eq_iff [OF window_frame(1) [OF w a(1,2)] window_frame(1) [OF w b(1,2)] window_word(2) [OF w a] window_word(2) [OF w b]]
    by blast+
  have "a div 4096 = b div 4096" using window_frame(5) [OF w b(1,2) a(1,2) eq(1)] .
  moreover have "a mod 4096 = b mod 4096"
    using eq(2) window_word(5) [OF w a] window_word(5) [OF w b] by metis
  ultimately show "a = b" by (metis div_mult_mod_eq)
qed simp

section \<open>Storing and reading in the window\<close>

text \<open>
  \<open>t\<close> differs from \<open>s\<close> in the frames of the window only, where its words are those of \<open>m\<close>, a function of the user address.
\<close>

definition holds :: "kstate \<Rightarrow> nat \<Rightarrow> nat \<Rightarrow> (nat \<Rightarrow> u32) \<Rightarrow> kstate \<Rightarrow> bool" where
  "holds s lo hi m t \<longleftrightarrow> t = s\<lparr>ram := ram t\<rparr> \<and>
     (\<forall>p j. page_aligned p \<and> j < 1024 \<and> (\<forall>a. lo \<le> a \<and> a < hi \<longrightarrow> p \<noteq> frame_of s a) \<longrightarrow> ram t (word_at p j) = ram s (word_at p j)) \<and>
     (\<forall>a. lo \<le> a \<and> a < hi \<and> a mod 4 = 0 \<longrightarrow> ram t (translate_user (word_of_nat a) s) = m a)"

lemma holds_start: "holds s lo hi (\<lambda>a. ram s (translate_user (word_of_nat a) s)) s"
  by (simp add: holds_def)

lemma holds_walk:
  assumes w: "window s lo hi" and h: "holds s lo hi m t" and va: "va < USER_LIMIT"
  shows "walk t (pgdir (cur s)) va = walk s (pgdir (cur s)) va" "cur t = cur s" "translate_user va t = translate_user va s"
proof -
  let ?pgd = "pgdir (cur s)"
  have wf: "wf_space s ?pgd" using w by (simp add: window_def)
  note W = wf_space_simps [OF wf]
  have t: "t = s\<lparr>ram := ram t\<rparr>" using h by (simp add: holds_def)
  show cur: "cur t = cur s" by (subst t) (simp add: cur_def)
  have off: "ram t (word_at p j) = ram s (word_at p j)" if "page_aligned p" "j < 1024" "is_table s ?pgd p" for p j
    using h that window_frame(2) [OF w] unfolding holds_def by blast
  have d: "dir_index va < USER_PGD_ENTRIES" by (rule dir_index_user [OF va])
  have dir: "ram t (word_at ?pgd (dir_index va)) = ram s (word_at ?pgd (dir_index va))"
    using used_aligned [OF W(3)] d by (intro off) (auto simp: is_table_def)
  show "walk t ?pgd va = walk s ?pgd va"
  proof (cases "valid (ram s (word_at ?pgd (dir_index va)))")
    case True
    then have "is_table s ?pgd (table s ?pgd (dir_index va))" using d by (auto simp: is_table_def has_table_def)
    then have "ram t (word_at (table s ?pgd (dir_index va)) (pt_index va)) = ram s (word_at (table s ?pgd (dir_index va)) (pt_index va))"
      by (intro off pt_index_bound) (simp_all add: table_def)
    then show ?thesis using W(2) dir by (simp add: walk_unfold table_def)
  next
    case False
    then show ?thesis using W(2) dir by (simp add: walk_unfold)
  qed
  then show "translate_user va t = translate_user va s" using translate_user_walk [of t va] translate_user_walk [of s va] W(2) va cur by simp
qed

lemmas holds_translate = holds_walk(3)

lemma window_limit: "window s lo hi \<Longrightarrow> a < hi \<Longrightarrow> word_of_nat a < USER_LIMIT"
  by (simp add: window_def word_less_nat_alt unat_of_nat)

lemma put_window:
  assumes w: "window s lo hi" and h: "holds s lo hi m t" and a: "lo \<le> a" "a < hi" "a mod 4 = 0"
  shows "\<exists>u. put_fs_long v (word_of_nat a) n t = Done () u \<and> holds s lo hi (m(a := v)) u"
proof -
  let ?pa = "translate_user (word_of_nat a) s" let ?u = "set_ram ?pa v t"
  note A = window_word [OF w a]
  have t: "t = s\<lparr>ram := ram t\<rparr>" using h by (simp add: holds_def)
  have upd: "t\<lparr>ram := r\<rparr> = s\<lparr>ram := r\<rparr>" for r by (subst t) simp
  have "translate_user (word_of_nat a) t = ?pa" by (rule holds_translate [OF w h window_limit [OF w a(2)]])
  then have run: "put_fs_long v (word_of_nat a) n t = Done () ?u" using A(3,4) by (simp add: put_fs_long_def kexec)
  have "?u = s\<lparr>ram := ram ?u\<rparr>" by (simp add: set_ram_def upd)
  moreover have "\<forall>p j. page_aligned p \<and> j < 1024 \<and> (\<forall>a. lo \<le> a \<and> a < hi \<longrightarrow> p \<noteq> frame_of s a) \<longrightarrow> ram ?u (word_at p j) = ram s (word_at p j)"
  proof (intro allI impI)
    fix p :: u32 and j :: nat assume p: "page_aligned p \<and> j < 1024 \<and> (\<forall>a. lo \<le> a \<and> a < hi \<longrightarrow> p \<noteq> frame_of s a)"
    then have "word_at p j \<noteq> ?pa" using a word_at_eq_iff [OF _ window_frame(1) [OF w a(1,2)] _ A(2), of p j] A(1) by auto
    then show "ram ?u (word_at p j) = ram s (word_at p j)" using h p by (simp add: set_ram_def holds_def)
  qed
  moreover have "\<forall>b. lo \<le> b \<and> b < hi \<and> b mod 4 = 0 \<longrightarrow> ram ?u (translate_user (word_of_nat b) s) = (m(a := v)) b"
    using window_inj [OF w _ _ _ a] h by (auto simp: set_ram_def holds_def)
  ultimately have "holds s lo hi (m(a := v)) ?u" unfolding holds_def by (intro conjI)
  with run show ?thesis by blast
qed

text \<open>The byte at an address, from the words.\<close>

definition byte_of :: "(nat \<Rightarrow> u32) \<Rightarrow> nat \<Rightarrow> u8" where
  "byte_of m a = ucast (drop_bit (8 * (a mod 4)) (m (a - a mod 4)))"

lemma and_3: "unat (x AND 3 :: u32) = unat x mod 4" "unat (x AND NOT 3 :: u32) = unat x - unat x mod 4"
proof -
  have "(3 :: u32) = mask 2" by (simp add: mask_eq_exp_minus_1)
  then have m: "x AND 3 = take_bit 2 x" by (simp add: take_bit_eq_mask)
  show l: "unat (x AND 3) = unat x mod 4" unfolding m unsigned_take_bit_eq by (simp add: take_bit_eq_mod)
  have "(x AND NOT 3) AND (x AND 3) = 0" by (simp add: ac_simps)
  then have "(x AND NOT 3) + (x AND 3) = (x AND NOT 3) OR (x AND 3)" by (rule disjunctive_add_eq_or)
  also have "\<dots> = x AND (NOT 3 OR 3)" by (simp only: bit.conj_disj_distrib)
  also have "\<dots> = x" by simp
  finally have "x AND NOT 3 = x - (x AND 3)" by (simp add: eq_diff_eq)
  moreover have "x AND 3 \<le> x" using l by (simp add: word_le_nat_alt)
  ultimately show "unat (x AND NOT 3) = unat x - unat x mod 4" using l by (simp add: unat_sub)
qed

lemma word_part: "(a - a mod 4) div 4096 = (a :: nat) div 4096" "a mod 4096 = (a - a mod 4) mod 4096 + a mod 4" "(a - a mod 4) mod 4 = 0"
proof -
  have e: "a - a mod 4 = 4 * (a div 4)" by (simp add: minus_mod_eq_mult_div)
  have "(4 * (a div 4)) div (4 * 1024) = a div 4 div 1024" by (rule div_mult_mult1) simp
  then show "(a - a mod 4) div 4096 = a div 4096" unfolding e by (simp flip: div_mult2_eq)
  have "(4 * (a div 4)) mod (4 * 1024) = 4 * (a div 4 mod 1024)" by (rule mod_mult_mult1)
  then show "a mod 4096 = (a - a mod 4) mod 4096 + a mod 4" unfolding e using mod_mult2_eq [of a 4 1024] by simp
  show "(a - a mod 4) mod 4 = 0" unfolding e by simp
qed

lemma get_byte_window:
  assumes w: "window s lo hi" and h: "holds s lo hi m t" and a: "lo \<le> a - a mod 4" "a < hi"
  shows "get_fs_byte (word_of_nat a) n t = Done (byte_of m a) t"
proof -
  define b where "b = a - a mod 4"
  have b: "lo \<le> b" "b < hi" "b mod 4 = 0" "b div 4096 = a div 4096" "a mod 4096 = b mod 4096 + a mod 4" "lo \<le> a"
    using a word_part [of a] diff_le_self [of a "a mod 4"] unfolding b_def by linarith+
  let ?pa = "translate_user (word_of_nat a) s" let ?pb = "translate_user (word_of_nat b) s"
  have pa: "unat ?pa = unat ?pb + a mod 4"
    using window_frame(3) [OF w b(6) a(2)] window_frame(3) [OF w b(1,2)] window_frame(4) [OF w b(1,2) b(4) [symmetric] a(2)] b(5) by simp
  have "unat (?pb AND 3) = 0" using window_word(3) [OF w b(1-3)] by simp
  then have "unat ?pb mod 4 = 0" by (simp add: and_3)
  moreover have "unat ?pa mod 4 = (unat ?pb mod 4 + a mod 4) mod 4" unfolding pa by (simp add: mod_simps)
  ultimately have "unat ?pa mod 4 = a mod 4" by simp
  then have "unat (?pa AND 3) = a mod 4" "unat (?pa AND NOT 3) = unat ?pb"
    unfolding and_3 by (simp_all add: pa)
  then have "unat (?pa AND 3) = a mod 4" "?pa AND NOT 3 = ?pb" unfolding word_unat_eq_iff .
  moreover have "?pa \<noteq> -1" using w b(6) a(2) by (simp add: window_def)
  moreover have "translate_user (word_of_nat a) t = ?pa" by (rule holds_translate [OF w h window_limit [OF w a(2)]])
  moreover have "ram t ?pb = m b" using h b by (simp add: holds_def)
  ultimately show ?thesis by (simp add: get_fs_byte_def kexec load_byte_def byte_of_def b_def)
qed

text \<open>The bytes of user memory.\<close>

definition user_byte :: "kstate \<Rightarrow> nat \<Rightarrow> u8" where
  "user_byte s a = load_byte (translate_user (word_of_nat a) s) (ram s)"

lemma get_fs_byte_user: "translate_user (word_of_nat a) s \<noteq> -1 \<Longrightarrow> get_fs_byte (word_of_nat a) n s = Done (user_byte s a) s"
  by (simp add: get_fs_byte_def kexec user_byte_def)

lemma user_byte_window:
  assumes w: "window s lo hi" and h: "holds s lo hi m t" and a: "lo \<le> a - a mod 4" "a < hi"
  shows "user_byte t a = byte_of m a"
proof -
  have "lo \<le> a" using a(1) by linarith
  then have "translate_user (word_of_nat a) t \<noteq> -1"
    using w a(2) holds_translate [OF w h window_limit [OF w a(2)]] by (simp add: window_def)
  then show ?thesis using get_byte_window [OF assms, of 0] get_fs_byte_user [of a t 0] by simp
qed

text \<open>Storing in a window leaves it a window.\<close>

lemma holds_window:
  assumes w: "window s lo hi" and h: "holds s lo hi m t"
  shows "window t lo hi"
proof -
  let ?pgd = "pgdir (cur s)"
  have wf: "wf_space s ?pgd" using w by (simp add: window_def)
  note W = wf_space_simps [OF wf]
  have t: "t = s\<lparr>ram := ram t\<rparr>" using h by (simp add: holds_def)
  have c: "cur t = cur s" "mem_map t = mem_map s" by (subst t, simp add: cur_def)+
  have off: "ram t (word_at q j) = ram s (word_at q j)" if "page_aligned q" "j < 1024" "is_table s ?pgd q" for q j
    using h that window_frame(2) [OF w] unfolding holds_def by blast
  have dir: "ram t (word_at ?pgd j) = ram s (word_at ?pgd j)" if "j < 1024" for j
    using used_aligned [OF W(3)] that by (intro off) (simp_all add: is_table_def)
  have ht: "has_table t ?pgd i = has_table s ?pgd i" for i using dir by (auto simp: has_table_def)
  have tb: "table t ?pgd i = table s ?pgd i" if "has_table s ?pgd i" for i using dir that by (simp add: table_def has_table_def)
  have it: "is_table t ?pgd q = is_table s ?pgd q" for q using ht tb by (auto simp: is_table_def)
  have leaf: "ram t (word_at (table s ?pgd i) j) = ram s (word_at (table s ?pgd i) j)" if "has_table s ?pgd i" "j < 1024" for i j
    using that by (intro off) (auto simp: is_table_def table_def)
  have us: "used t q = used s q" for q by (simp add: used_def c)
  have wft: "wf_space t ?pgd" using wf unfolding wf_space_def us ht it by (simp add: tb leaf cong: conj_cong)
  have tr: "translate_user (word_of_nat a) t = translate_user (word_of_nat a) s" if "a < hi" for a
    by (rule holds_translate [OF w h window_limit [OF w that]])
  have wk: "walk t ?pgd (word_of_nat a) = walk s ?pgd (word_of_nat a)" if "a < hi" for a
    by (rule holds_walk(1) [OF w h window_limit [OF w that]])
  show ?thesis using w wft unfolding window_def c by (metis (no_types, lifting) tr wk)
qed

lemma small_walk:
  assumes "20480 \<le> a" "a < 24576"
  shows "walk small_space (frame_addr 0) (word_of_nat a) = Some (phys_ppn (frame_addr 3) OR PTE_USER_RWX)"
proof -
  have "a div 4096 = 5" using assms by simp
  then have "dir_index (word_of_nat a) = 0" "pt_index (word_of_nat a) = 5" using assms by (simp_all add: index_of_page unat_of_nat)
  then show ?thesis
    using small_ram [of 0 0] small_ram [of 4 5] small_table wf_space_simps(2) [OF small_wf] small_leaf(1) [of 5]
    by (simp add: walk_unfold valid_table_entry)
qed

lemma small_window: "window small_space 20480 24576"
proof -
  have "(phys_ppn q OR PTE_USER_RWX) AND PTE_U \<noteq> 0" for q
    by (simp add: bit_eq_iff bit_simps) (auto intro: exI [of _ 4] simp: bit_simps)
  then have tr: "translate_user (word_of_nat a) small_space = frame_addr 3 OR (word_of_nat a AND 0xfff)" if "20480 \<le> a" "a < 24576" for a
    using small_walk [OF that] that translate_user_walk [of small_space "word_of_nat a"] small_cur wf_space_simps(2) [OF small_wf] small_leaf(2) small_ram [of 4 5]
    by (simp add: word_less_nat_alt unat_of_nat)
  have "unat (frame_addr 3 OR (word_of_nat a AND 0xfff)) \<le> unat (frame_addr 3) + 4095" for a
    using or_offset [OF small_aligned, of 3 "word_of_nat a AND 0xfff"] by (simp add: unat_and_page_mask)
  moreover have "unat (frame_addr 3) + 4095 < unat (-1 :: u32)" by (simp add: frame_addr_def unsigned_minus_1_eq_mask mask_eq_exp_minus_1)
  ultimately have "frame_addr 3 OR (word_of_nat a AND 0xfff) \<noteq> -1" for a by (metis leD)
  moreover have "a div 4096 = b div 4096" if "20480 \<le> a" "a < 24576" "20480 \<le> b" "b < 24576" for a b :: nat
  proof -
    have "a div 4096 = 5" "b div 4096 = 5" using that by simp_all
    then show ?thesis by simp
  qed
  ultimately show ?thesis using small_wf tr unfolding window_def small_cur by simp
qed

section \<open>Bytes\<close>

lemma byte_of_word:
  fixes w :: u32 and v :: u8
  assumes "k < 4" "l < 4"
  shows "ucast (drop_bit (8 * l) ((w AND NOT (push_bit (8 * k) 0xff)) OR push_bit (8 * k) (ucast v))) =
    (if l = k then v else ucast (drop_bit (8 * l) w))"
proof (rule bit_word_eqI)
  fix i assume i: "i < LENGTH(8)"
  have ff: "(0xff :: u32) = mask 8" by (simp add: mask_eq_exp_minus_1)
  let ?p = "8 * l + i"
  consider "l = k" | "?p < 8 * k" "l \<noteq> k" | "8 * k + 8 \<le> ?p" "l \<noteq> k" using i by fastforce
  then show "bit (ucast (drop_bit (8 * l) ((w AND NOT (push_bit (8 * k) 0xff)) OR push_bit (8 * k) (ucast v))) :: u8) i =
      bit (if l = k then v else ucast (drop_bit (8 * l) w)) i"
  proof cases
    case 1
    then show ?thesis using i assms unfolding ff by (simp add: bit_simps)
  next
    case 2
    then show ?thesis using i assms unfolding ff by (simp add: bit_simps)
  next
    case 3
    then have "\<not> bit v (?p - 8 * k)" by (auto dest: bit_imp_le_length)
    then show ?thesis using 3 i assms unfolding ff by (auto simp: bit_simps)
  qed
qed

lemma load_store_byte: "load_byte b (store_byte a v m) = (if b = a then v else load_byte b m)"
proof (cases "b AND NOT 3 = a AND NOT 3")
  case True
  have eq: "unat (b AND 3) = unat (a AND 3) \<longleftrightarrow> b = a"
  proof
    assume "unat (b AND 3) = unat (a AND 3)"
    moreover have "unat (b AND NOT 3) = unat (a AND NOT 3)" using True by simp
    ultimately have "unat b = unat a"
      using mod_less_eq_dividend [of "unat b" 4] mod_less_eq_dividend [of "unat a" 4] unfolding and_3 by linarith
    then show "b = a" by (simp add: word_unat_eq_iff)
  qed simp
  have "unat (b AND 3) < 4" "unat (a AND 3) < 4" by (simp_all add: and_3)
  then show ?thesis using byte_of_word [of "unat (a AND 3)" "unat (b AND 3)" "m (a AND NOT 3)" v] True eq
    by (simp add: load_byte_def store_byte_def Let_def)
next
  case False
  then have "b \<noteq> a" by auto
  then show ?thesis using False by (simp add: load_byte_def store_byte_def Let_def)
qed

text \<open>
  The memory \<open>r\<close> differs from that of \<open>s\<close> in the frames of the window only, and holds the bytes \<open>m\<close> there.
\<close>

definition user_bytes :: "kstate \<Rightarrow> nat \<Rightarrow> nat \<Rightarrow> (nat \<Rightarrow> u8) \<Rightarrow> (u32 \<Rightarrow> u32) \<Rightarrow> bool" where
  "user_bytes s lo hi m r \<longleftrightarrow>
     (\<forall>p j. page_aligned p \<and> j < 1024 \<and> (\<forall>a. lo \<le> a \<and> a < hi \<longrightarrow> p \<noteq> frame_of s a) \<longrightarrow> r (word_at p j) = ram s (word_at p j)) \<and>
     (\<forall>a. lo \<le> a \<and> a < hi \<longrightarrow> load_byte (translate_user (word_of_nat a) s) r = m a)"

lemma user_bytes_start: "user_bytes s lo hi (user_byte s) (ram s)"
  by (simp add: user_bytes_def user_byte_def)

lemma translate_cong: "pgdir (cur t) = pgdir (cur s) \<Longrightarrow> ram t = ram s \<Longrightarrow> translate_user a t = translate_user a s"
  by (simp add: translate_user_def pte_lookup_def split: option.split)

lemma user_bytes_translate:
  assumes w: "window s lo hi" and st: "user_bytes s lo hi m (ram t)" and t: "pgdir (cur t) = pgdir (cur s)" and a: "a < hi"
  shows "translate_user (word_of_nat a) t = translate_user (word_of_nat a) s"
proof -
  let ?t = "s\<lparr>ram := ram t\<rparr>"
  have "holds s lo hi (\<lambda>a. ram t (translate_user (word_of_nat a) s)) ?t" using st by (simp add: holds_def user_bytes_def)
  then have "translate_user (word_of_nat a) ?t = translate_user (word_of_nat a) s" by (rule holds_translate [OF w _ window_limit [OF w a]])
  moreover have "translate_user (word_of_nat a) t = translate_user (word_of_nat a) ?t"
    by (rule translate_cong) (use t in \<open>simp_all add: cur_def\<close>)
  ultimately show ?thesis by simp
qed

text \<open>Different addresses of the window are different bytes of memory.\<close>

lemma window_bytes:
  assumes w: "window s lo hi" and a: "lo \<le> a" "a < hi" and b: "lo \<le> b" "b < hi"
  shows "translate_user (word_of_nat a) s = translate_user (word_of_nat b) s \<longleftrightarrow> a = b"
proof
  assume eq: "translate_user (word_of_nat a) s = translate_user (word_of_nat b) s"
  note A = window_frame [OF w a] and B = window_frame [OF w b]
  have sum: "unat (frame_of s a) + a mod 4096 = unat (frame_of s b) + b mod 4096" using A(3) B(3) eq by simp
  have "unat (frame_of s a) mod 4096 = 0" "unat (frame_of s b) mod 4096 = 0" using A(1) B(1) by (auto simp: page_aligned_unat)
  then have m: "a mod 4096 = b mod 4096" using arg_cong [OF sum, of "\<lambda>x. x mod 4096"] by (simp add: mod_add_eq [symmetric])
  then have "frame_of s a = frame_of s b" using sum by (simp add: word_unat_eq_iff)
  then have "a div 4096 = b div 4096" using B(5) a by simp
  then show "a = b" using m by (metis div_mult_mod_eq)
qed simp

lemma put_byte_window:
  assumes w: "window s lo hi" and st: "user_bytes s lo hi m (ram t)" and t: "pgdir (cur t) = pgdir (cur s)" and a: "lo \<le> a" "a < hi"
  shows "\<exists>r. put_fs_byte v (word_of_nat a) n t = Done () (t\<lparr>ram := r\<rparr>) \<and> user_bytes s lo hi (m(a := v)) r"
proof -
  let ?pa = "translate_user (word_of_nat a) s" let ?r = "store_byte ?pa v (ram t)"
  note A = window_frame [OF w a]
  have "?pa \<noteq> -1" using w a by (simp add: window_def)
  then have run: "put_fs_byte v (word_of_nat a) n t = Done () (t\<lparr>ram := ?r\<rparr>)"
    using user_bytes_translate [OF w st t a(2)] by (simp add: put_fs_byte_def kexec)
  have pg: "?pa AND NOT 3 = word_at (frame_of s a) (a mod 4096 div 4)"
  proof -
    have "4 dvd unat (frame_of s a)" using A(1) by (auto simp: page_aligned_unat intro: dvd_trans [of _ 4096])
    then obtain q where q: "unat (frame_of s a) = 4 * q" by blast
    have "unat ?pa - unat ?pa mod 4 = 4 * ((4 * q + a mod 4096) div 4)" unfolding A(3) q by (rule minus_mod_eq_mult_div)
    also have "\<dots> = unat (frame_of s a) + 4 * (a mod 4096 div 4)" unfolding q by simp
    finally have "unat ?pa - unat ?pa mod 4 = unat (frame_of s a) + 4 * (a mod 4096 div 4)" .
    then show ?thesis unfolding word_unat_eq_iff and_3 by (subst unat_word_at [OF A(1)]) simp_all
  qed
  have "?r (word_at p j) = ram s (word_at p j)" if p: "page_aligned p" "j < 1024" "\<forall>a. lo \<le> a \<and> a < hi \<longrightarrow> p \<noteq> frame_of s a" for p j
  proof -
    have "word_at p j \<noteq> ?pa AND NOT 3" using word_at_eq_iff [OF p(1) A(1) p(2), of "a mod 4096 div 4"] p(3) a pg by auto
    then show ?thesis using st p by (simp add: store_byte_def Let_def user_bytes_def)
  qed
  moreover have "load_byte (translate_user (word_of_nat b) s) ?r = (m(a := v)) b" if "lo \<le> b" "b < hi" for b
    using window_bytes [OF w that a] st that by (simp add: load_store_byte user_bytes_def)
  ultimately have "user_bytes s lo hi (m(a := v)) ?r" unfolding user_bytes_def by blast
  with run show ?thesis by blast
qed

end
