(* ===== verification/Argv.thy ===== *)
theory Argv
  imports Exec Window
begin

text \<open>
  The stack of a new program: \<open>create_tables\<close> of \<^verbatim>\<open>fs/exec.c\<close> puts the number of arguments and the two
  vectors of pointers below the strings that \<open>copy_strings\<close> has left at the top of the stack.
\<close>

section \<open>Strings\<close>

text \<open>The strings \<open>css\<close> lie one after the other from address \<open>p\<close> on, each with its null.\<close>

primrec strings_at :: "(nat \<Rightarrow> u8) \<Rightarrow> nat \<Rightarrow> u8 list list \<Rightarrow> bool" where
  "strings_at b p [] \<longleftrightarrow> True"
| "strings_at b p (cs # css) \<longleftrightarrow>
     0 \<notin> set cs \<and> (\<forall>i<length cs. b (p + i) = cs ! i) \<and> b (p + length cs) = 0 \<and> strings_at b (p + length cs + 1) css"

text \<open>Where they start, and where the last one ends.\<close>

primrec string_starts :: "nat \<Rightarrow> u8 list list \<Rightarrow> nat list" where
  "string_starts p [] = []"
| "string_starts p (cs # css) = p # string_starts (p + length cs + 1) css"

primrec strings_end :: "nat \<Rightarrow> u8 list list \<Rightarrow> nat" where
  "strings_end p [] = p"
| "strings_end p (cs # css) = strings_end (p + length cs + 1) css"

lemma strings_end_le: "p \<le> strings_end p css"
proof (induction css arbitrary: p)
  case (Cons cs css)
  show ?case using Cons.IH [of "p + length cs + 1"] by simp
qed simp

lemma length_string_starts [simp]: "length (string_starts p css) = length css"
  by (induction css arbitrary: p) simp_all

lemma strings_at_append:
  "strings_at b p (css @ dss) \<longleftrightarrow> strings_at b p css \<and> strings_at b (strings_end p css) dss"
  by (induction css arbitrary: p) auto

lemma strings_end_append: "strings_end p (css @ dss) = strings_end (strings_end p css) dss"
  by (induction css arbitrary: p) auto

lemma strings_at_cong:
  "strings_at b p css \<Longrightarrow> (\<And>a. p \<le> a \<Longrightarrow> a < strings_end p css \<Longrightarrow> b' a = b a) \<Longrightarrow> strings_at b' p css"
proof (induction css arbitrary: p)
  case (Cons cs css)
  let ?q = "p + length cs + 1"
  have q: "?q \<le> strings_end ?q css" by (rule strings_end_le)
  have same: "b' a = b a" if "p \<le> a" "a < ?q" for a using Cons.prems(2) [of a] that q by simp
  have "strings_at b' ?q css" using Cons.prems by (intro Cons.IH) simp_all
  then show ?case using Cons.prems(1) same by simp
qed simp

text \<open>\<open>skip_string\<close> finds the end of a string.\<close>

lemma skip_string_exec:
  assumes w: "window s lo hi" and h: "holds s lo hi m t" and st: "strings_at (byte_of m) p (cs # css)"
    and r: "lo \<le> p - p mod 4" "p + length cs < hi" and fuel: "length cs < n"
  shows "skip_string (word_of_nat p) n t = Done (word_of_nat (p + length cs + 1)) t"
proof -
  have byte: "get_fs_byte (word_of_nat (p + i)) n t = Done (byte_of m (p + i)) t" if "i \<le> length cs" for i
  proof (rule get_byte_window [OF w h])
    have "p - p mod 4 \<le> p + i - (p + i) mod 4"
      unfolding minus_mod_eq_mult_div by (intro mult_le_mono2 div_le_mono) simp
    then show "lo \<le> p + i - (p + i) mod 4" using r(1) by linarith
    show "p + i < hi" using r(2) that by linarith
  qed
  have step: "skip_step (word_of_nat (p + i)) n t =
      Done (if i < length cs then Inl (word_of_nat (p + Suc i)) else Inr (word_of_nat (p + Suc i))) t" if i: "i \<le> length cs" for i
  proof -
    have "byte_of m (p + i) \<noteq> 0 \<longleftrightarrow> i < length cs"
      using st i by (metis le_neq_implies_less less_irrefl nth_mem strings_at.simps(2))
    moreover have "word_of_nat (p + i) + 1 = (word_of_nat (p + Suc i) :: u32)" by simp
    ultimately show ?thesis using byte [OF i] unfolding skip_step_def by (simp add: kexec del: of_nat_add of_nat_Suc)
  qed
  have "loop_fuel k skip_step (word_of_nat (p + i)) n t = Done (word_of_nat (p + length cs + 1)) t"
    if "length cs - i < k" "i \<le> length cs" for k i
    using that
  proof (induction k arbitrary: i)
    case (Suc k)
    show ?case
    proof (cases "i < length cs")
      case True
      then have "loop_fuel k skip_step (word_of_nat (p + Suc i)) n t = Done (word_of_nat (p + length cs + 1)) t"
        using Suc.prems by (intro Suc.IH) linarith+
      then show ?thesis using step [of i] True by (simp add: bind_exec del: of_nat_add of_nat_Suc)
    next
      case False
      then have "i = length cs" using Suc.prems by simp
      then show ?thesis using step [of i] by (simp add: kexec del: of_nat_add of_nat_Suc)
    qed
  qed simp
  from this [of 0 n] show ?thesis using fuel by (simp add: skip_string_def loop_def)
qed

text \<open>The words of a vector, stored from \<open>a\<close> on.\<close>

primrec put_vector :: "nat \<Rightarrow> u32 list \<Rightarrow> (nat \<Rightarrow> u32) \<Rightarrow> nat \<Rightarrow> u32" where
  "put_vector a [] m = m"
| "put_vector a (v # vs) m = put_vector (a + 4) vs (m(a := v))"

lemma put_vector_other: "(\<And>i. i < length vs \<Longrightarrow> x \<noteq> a + 4 * i) \<Longrightarrow> put_vector a vs m x = m x"
proof (induction vs arbitrary: a m)
  case (Cons v vs)
  have "x \<noteq> a" using Cons.prems [of 0] by simp
  moreover have "x \<noteq> a + 4 + 4 * i" if "i < length vs" for i using Cons.prems [of "Suc i"] that by simp
  ultimately have "put_vector (a + 4) vs (m(a := v)) x = (m(a := v)) x" by (intro Cons.IH)
  then show ?case using \<open>x \<noteq> a\<close> by simp
qed simp

lemma put_vector_nth: "i < length vs \<Longrightarrow> put_vector a vs m (a + 4 * i) = vs ! i"
proof (induction vs arbitrary: a m i)
  case (Cons v vs)
  show ?case
  proof (cases i)
    case 0
    then show ?thesis using put_vector_other [of vs a "a + 4" "m(a := v)"] by simp
  next
    case (Suc j)
    then have "put_vector (a + 4) vs (m(a := v)) (a + 4 + 4 * j) = vs ! j" using Cons.prems by (intro Cons.IH) simp
    moreover have "a + 4 * i = a + 4 + 4 * j" using Suc by simp
    ultimately show ?thesis using Suc by (simp only: put_vector.simps nth_Cons_Suc)
  qed
qed simp

lemma fill_table_exec:
  assumes w: "window s lo hi" and h: "holds s lo hi m t" and st: "strings_at (byte_of m) p css"
    and a: "lo \<le> a" "a mod 4 = 0" "a + 4 * (length css + 1) \<le> p - p mod 4" "strings_end p css \<le> hi"
    and fuel: "\<forall>cs\<in>set css. length cs < n" and ne: "a + 4 * length css < hi"
  shows "\<exists>u. fill_table (length css) (word_of_nat p) (word_of_nat a) n t = Done (word_of_nat (strings_end p css)) u \<and>
     holds s lo hi (put_vector a (map word_of_nat (string_starts p css) @ [0]) m) u"
  using h st a fuel ne
proof (induction css arbitrary: p a m t)
  case Nil
  then have a: "lo \<le> a" "a < hi" "a mod 4 = 0" by simp_all
  from put_window [OF w Nil.prems(1) a, of 0 n] show ?case by (auto simp: kexec simp del: fun_upd_apply)
next
  case (Cons cs css)
  let ?q = "p + length cs + 1" let ?m = "m(a := word_of_nat p)"
  have room: "a + 4 * (length css + 2) \<le> p - p mod 4" using Cons.prems(5) by simp
  obtain u where u: "put_fs_long (word_of_nat p) (word_of_nat a) n t = Done () u" "holds s lo hi ?m u"
    using put_window [OF w Cons.prems(1,3) _ Cons.prems(4), of "word_of_nat p" n] Cons.prems(8) by auto
  have same: "byte_of ?m x = byte_of m x" if "p \<le> x" for x
  proof -
    have "p - p mod 4 \<le> x - x mod 4" unfolding minus_mod_eq_mult_div using that by (intro mult_le_mono2 div_le_mono)
    moreover have "a < p - p mod 4" using room by simp
    ultimately have "x - x mod 4 \<noteq> a" by (metis leD)
    then show ?thesis by (simp add: byte_of_def)
  qed
  have st: "strings_at (byte_of ?m) p (cs # css)" by (rule strings_at_cong [OF Cons.prems(2)]) (rule same)
  have end_le: "?q \<le> hi" using Cons.prems(6) strings_end_le [of ?q css] by simp
  have "lo \<le> p - p mod 4" using Cons.prems(3) room by linarith
  then have skip: "skip_string (word_of_nat p) n u = Done (word_of_nat ?q) u"
    using end_le Cons.prems(7) by (intro skip_string_exec [OF w u(2) st]) auto
  have q: "p - p mod 4 \<le> ?q - ?q mod 4" unfolding minus_mod_eq_mult_div by (intro mult_le_mono2 div_le_mono) simp
  have "\<exists>v. fill_table (length css) (word_of_nat ?q) (word_of_nat (a + 4)) n u = Done (word_of_nat (strings_end ?q css)) v \<and>
     holds s lo hi (put_vector (a + 4) (map word_of_nat (string_starts ?q css) @ [0]) ?m) v"
  proof (rule Cons.IH [OF u(2)])
    show "strings_at (byte_of ?m) ?q css" using st by simp
    show "lo \<le> a + 4" "strings_end ?q css \<le> hi" "\<forall>cs\<in>set css. length cs < n" "a + 4 + 4 * length css < hi"
      using Cons.prems(3,6,7,8) by simp_all
    show "(a + 4) mod 4 = 0" using Cons.prems(4) by simp
    show "a + 4 + 4 * (length css + 1) \<le> ?q - ?q mod 4" using room q by simp
  qed
  moreover have "word_of_nat a + 4 = (word_of_nat (a + 4) :: u32)" by simp
  ultimately show ?case using u(1) skip by (simp add: kexec del: of_nat_add of_nat_Suc)
qed

section \<open>The stack of a new program\<close>

text \<open>
  The vectors of the new program: the number of arguments, the addresses of the two vectors, the pointers to the
  arguments and to the environment, each vector ended by a null pointer.
\<close>

definition arg_tables :: "nat \<Rightarrow> nat \<Rightarrow> u8 list list \<Rightarrow> u8 list list \<Rightarrow> u32 list" where
  "arg_tables sp p args env =
     [word_of_nat (length args), word_of_nat (sp + 12), word_of_nat (sp + 12 + 4 * (length args + 1))] @
     map word_of_nat (string_starts p args) @ [0] @ map word_of_nat (string_starts (strings_end p args) env) @ [0]"

lemma and_minus_4: "p \<le> 2147483648 \<Longrightarrow> 0xfffffffc AND word_of_nat p = (word_of_nat (p - p mod 4) :: u32)"
proof -
  assume p: "p \<le> 2147483648"
  have "(0xfffffffc :: u32) = NOT 3" by simp
  then have u: "unat (0xfffffffc AND word_of_nat p :: u32) = p - p mod 4"
    using and_3(2) [of "word_of_nat p"] p by (simp only: and.commute unat_of_nat) simp
  have "0xfffffffc AND word_of_nat p = (word_of_nat (unat (0xfffffffc AND word_of_nat p :: u32)) :: u32)" by simp
  then show ?thesis unfolding u .
qed

lemma put_vector_append: "put_vector a (xs @ ys) m = put_vector (a + 4 * length xs) ys (put_vector a xs m)"
  by (induction xs arbitrary: a m) (simp_all add: add.assoc)

lemma holds_words:
  assumes w: "window s lo hi" and h: "holds s lo hi (put_vector a vs m) t" and a: "lo \<le> a" "a mod 4 = 0" "a + 4 * length vs \<le> hi"
  shows "user_words t (word_of_nat a) vs"
  unfolding user_words_def Let_def
proof (intro allI impI)
  fix i assume i: "i < length vs"
  let ?b = "a + 4 * i"
  have b: "lo \<le> ?b" "?b < hi" "?b mod 4 = 0" using a i by simp_all
  have e: "word_of_nat a + 4 * word_of_nat i = (word_of_nat ?b :: u32)" by simp
  have "translate_user (word_of_nat ?b) t = translate_user (word_of_nat ?b) s" by (rule holds_translate [OF w h window_limit [OF w b(2)]])
  moreover have "ram t (translate_user (word_of_nat ?b) s) = vs ! i"
    using h b put_vector_nth [OF i, of a m] by (simp add: holds_def del: of_nat_add of_nat_mult)
  ultimately show "translate_user (word_of_nat a + 4 * word_of_nat i) t \<noteq> -1 \<and> translate_user (word_of_nat a + 4 * word_of_nat i) t AND 3 = 0 \<and>
      ram t (translate_user (word_of_nat a + 4 * word_of_nat i) t) = vs ! i"
    unfolding e using window_word(3,4) [OF w b] by (simp del: of_nat_add of_nat_mult)
qed

text \<open>The bytes from \<open>p\<close> on do not change when words below are stored.\<close>

lemma put_vector_bytes:
  assumes "a + 4 * length vs \<le> p - p mod 4" "p \<le> x"
  shows "byte_of (put_vector a vs m) x = byte_of m x"
proof -
  have "p - p mod 4 \<le> x - x mod 4" unfolding minus_mod_eq_mult_div using assms(2) by (intro mult_le_mono2 div_le_mono)
  with assms(1) have le: "a + 4 * length vs \<le> x - x mod 4" by (rule order_trans)
  have "x - x mod 4 \<noteq> a + 4 * i" if "i < length vs" for i
  proof -
    have "a + 4 * i < a + 4 * length vs" using that by simp
    with le show ?thesis by (metis leD)
  qed
  then show ?thesis by (simp add: byte_of_def put_vector_other)
qed

lemma table_addresses:
  assumes p: "p \<le> 2147483648" and top: "sp + 12 + 4 * (k + l + 2) = p - p mod 4"
  shows "sp mod 4 = 0" "(sp + 8) mod 4 = 0" "(sp + 4) mod 4 = 0" "(sp + 12) mod 4 = 0" "(sp + 12 + 4 * (k + 1)) mod 4 = 0"
    "(0xfffffffc AND word_of_nat p :: u32) - 4 * (word_of_nat l + 1) = word_of_nat (sp + 12 + 4 * (k + 1))"
    "word_of_nat (sp + 12 + 4 * (k + 1)) - 4 * (word_of_nat k + 1) = (word_of_nat (sp + 12) :: u32)"
    "word_of_nat (sp + 12) - 4 = (word_of_nat (sp + 8) :: u32)" "word_of_nat (sp + 12) - 8 = (word_of_nat (sp + 4) :: u32)"
    "word_of_nat (sp + 12) - 12 = (word_of_nat sp :: u32)"
proof -
  have "(sp + 4 * (3 + (k + l + 2))) mod 4 = 0" using word_part(3) [of p] top by (simp add: algebra_simps)
  then show al: "sp mod 4 = 0" by (simp only: mod_mult_self2)
  have off: "(sp + 4 * i) mod 4 = 0" for i using al by simp
  show "(sp + 8) mod 4 = 0" "(sp + 4) mod 4 = 0" "(sp + 12) mod 4 = 0" "(sp + 12 + 4 * (k + 1)) mod 4 = 0"
    using off [of 2] off [of 1] off [of 3] off [of "3 + (k + 1)"] by (simp_all add: algebra_simps)
  show "(0xfffffffc AND word_of_nat p :: u32) - 4 * (word_of_nat l + 1) = word_of_nat (sp + 12 + 4 * (k + 1))"
    "word_of_nat (sp + 12 + 4 * (k + 1)) - 4 * (word_of_nat k + 1) = (word_of_nat (sp + 12) :: u32)"
    "word_of_nat (sp + 12) - 4 = (word_of_nat (sp + 8) :: u32)" "word_of_nat (sp + 12) - 8 = (word_of_nat (sp + 4) :: u32)"
    "word_of_nat (sp + 12) - 12 = (word_of_nat sp :: u32)"
    unfolding and_minus_4 [OF p] top [symmetric] by (simp_all add: algebra_simps)
qed

lemma create_tables_exec:
  assumes w: "window s lo hi" and h: "holds s lo hi m s" and st: "strings_at (byte_of m) p (args @ env)"
    and top: "sp + 12 + 4 * (length args + length env + 2) = p - p mod 4"
    and lo: "lo \<le> sp" and hi: "strings_end p (args @ env) \<le> hi" and fuel: "\<forall>cs\<in>set (args @ env). length cs < n"
  shows "\<exists>t. create_tables (word_of_nat p) (length args) (length env) n s = Done (word_of_nat sp) t \<and>
     holds s lo hi (put_vector sp (arg_tables sp p args env) m) t"
proof -
  let ?argv = "sp + 12" let ?envp = "sp + 12 + 4 * (length args + 1)" let ?q = "strings_end p args"
  let ?V = "map word_of_nat (string_starts p args) @ [0] :: u32 list"
  let ?E = "map word_of_nat (string_starts ?q env) @ [0] :: u32 list"
  let ?m1 = "m(sp + 8 := word_of_nat ?envp)" let ?m2 = "?m1(sp + 4 := word_of_nat ?argv)" let ?m3 = "?m2(sp := word_of_nat (length args))"
  have "p \<le> hi" using hi strings_end_le [of p "args @ env"] by simp
  moreover have "hi \<le> 2147483648" using w by (simp add: window_def)
  ultimately have p: "p \<le> 2147483648" "p - p mod 4 \<le> hi" using diff_le_self [of p "p mod 4"] by linarith+
  note al = table_addresses(1) [OF p(1) top] and mods = table_addresses(2-5) [OF p(1) top] and addr = table_addresses(6-) [OF p(1) top]
  have lt: "sp + 12 + 4 * (length args + length env + 2) \<le> hi" using top p(2) by simp
  obtain t1 where t1: "put_fs_long (word_of_nat ?envp) (word_of_nat (sp + 8)) n s = Done () t1" "holds s lo hi ?m1 t1"
    using put_window [OF w h _ _ mods(1), of "word_of_nat ?envp" n] lo lt by auto
  obtain t2 where t2: "put_fs_long (word_of_nat ?argv) (word_of_nat (sp + 4)) n t1 = Done () t2" "holds s lo hi ?m2 t2"
    using put_window [OF w t1(2) _ _ mods(2), of "word_of_nat ?argv" n] lo lt by auto
  obtain t3 where t3: "put_fs_long (word_of_nat (length args)) (word_of_nat sp) n t2 = Done () t3" "holds s lo hi ?m3 t3"
    using put_window [OF w t2(2) _ _ al, of "word_of_nat (length args)" n] lo lt by auto
  have m3: "?m3 = put_vector sp [word_of_nat (length args), word_of_nat ?argv, word_of_nat ?envp] m" by (simp add: fun_eq_iff)
  let ?m4 = "put_vector ?argv ?V ?m3"
  have bytes: "byte_of ?m3 x = byte_of m x" "byte_of ?m4 x = byte_of m x" if "p \<le> x" for x
  proof -
    show b3: "byte_of ?m3 x = byte_of m x" unfolding m3 by (rule put_vector_bytes [OF _ that]) (use top in simp)
    have "byte_of ?m4 x = byte_of ?m3 x" by (rule put_vector_bytes [OF _ that]) (use top in simp)
    then show "byte_of ?m4 x = byte_of m x" using b3 by simp
  qed
  have "strings_at (byte_of ?m3) p (args @ env)" by (rule strings_at_cong [OF st]) (rule bytes(1))
  then have "strings_at (byte_of ?m3) p args" by (simp add: strings_at_append)
  moreover have "?q \<le> hi" using hi strings_end_le [of ?q env] by (simp add: strings_end_append)
  ultimately obtain t4 where t4: "fill_table (length args) (word_of_nat p) (word_of_nat ?argv) n t3 = Done (word_of_nat ?q) t4" "holds s lo hi ?m4 t4"
    using fill_table_exec [OF w t3(2), of p args ?argv n] mods(3) lo lt top fuel by auto
  have "strings_at (byte_of ?m4) p (args @ env)" by (rule strings_at_cong [OF st]) (rule bytes(2))
  then have "strings_at (byte_of ?m4) ?q env" by (simp add: strings_at_append)
  moreover have "p - p mod 4 \<le> ?q - ?q mod 4"
    unfolding minus_mod_eq_mult_div by (intro mult_le_mono2 div_le_mono strings_end_le)
  ultimately obtain t5 where t5: "fill_table (length env) (word_of_nat ?q) (word_of_nat ?envp) n t4 = Done (word_of_nat (strings_end ?q env)) t5"
    "holds s lo hi (put_vector ?envp ?E ?m4) t5"
    using fill_table_exec [OF w t4(2), of ?q env ?envp n] mods(4) lo lt top hi fuel by (auto simp: strings_end_append)
  have "put_vector ?envp ?E ?m4 = put_vector sp (arg_tables sp p args env) m"
    unfolding m3 arg_tables_def by (simp only: put_vector_append length_append length_map length_string_starts list.size) (simp add: add.commute)
  moreover have "create_tables (word_of_nat p) (length args) (length env) n s = Done (word_of_nat sp) t5"
    unfolding create_tables_def Let_def addr using t1(1) t2(1) t3(1) t4(1) t5(1) by (simp add: kexec del: of_nat_add of_nat_mult)
  ultimately show ?thesis using t5(2) by metis
qed

lemma byte_window_low:
  assumes "lo \<le> p - p mod 4" "p \<le> (a :: nat)"
  shows "lo \<le> a - a mod 4"
proof -
  have "p - p mod 4 \<le> a - a mod 4" unfolding minus_mod_eq_mult_div using assms(2) by (intro mult_le_mono2 div_le_mono)
  with assms(1) show ?thesis by (rule order_trans)
qed

text \<open>
  C26: \<open>create_tables\<close> builds the stack of a new program. When the strings of its arguments and of its environment
  lie one after the other at \<open>p\<close> in mapped user memory, with room below them, it returns the stack pointer \<open>sp\<close> at which
  the program finds the number of arguments, the addresses of the two vectors, the vector of pointers to each argument in order,
  ended by null, and the vector of pointers to the environment, ended by null; the strings are still there, and nothing
  outside of the frames of that memory has changed.
\<close>

theorem create_tables_layout:
  assumes w: "window s lo hi" and st: "strings_at (user_byte s) p (args @ env)"
    and room: "sp + 12 + 4 * (length args + length env + 2) = p - p mod 4" "lo \<le> sp" "strings_end p (args @ env) \<le> hi"
    and fuel: "\<forall>cs\<in>set (args @ env). length cs < n"
  shows "\<exists>t. create_tables (word_of_nat p) (length args) (length env) n s = Done (word_of_nat sp) t \<and>
     user_words t (word_of_nat sp)
       ([word_of_nat (length args), word_of_nat (sp + 12), word_of_nat (sp + 12 + 4 * (length args + 1))] @
        map word_of_nat (string_starts p args) @ [0] @ map word_of_nat (string_starts (strings_end p args) env) @ [0]) \<and>
     strings_at (user_byte t) p (args @ env) \<and> t = s\<lparr>ram := ram t\<rparr> \<and>
     (\<forall>q j. page_aligned q \<and> j < 1024 \<and> (\<forall>a. lo \<le> a \<and> a < hi \<longrightarrow> q \<noteq> frame_of s a) \<longrightarrow> ram t (word_at q j) = ram s (word_at q j))"
proof -
  let ?m = "\<lambda>a. ram s (translate_user (word_of_nat a) s)" and ?vs = "arg_tables sp p args env"
  have low: "lo \<le> p - p mod 4" "sp + 4 * length ?vs \<le> p - p mod 4" using room(1,2) by (simp_all add: arg_tables_def)
  have view: "user_byte t a = byte_of m a" if "holds s lo hi m t" "p \<le> a" "a < strings_end p (args @ env)" for t m a
    using that room(3) by (intro user_byte_window [OF w that(1)] byte_window_low [OF low(1)]) linarith+
  have st0: "strings_at (byte_of ?m) p (args @ env)"
    by (rule strings_at_cong [OF st]) (use view [OF holds_start] in simp)
  obtain t where t: "create_tables (word_of_nat p) (length args) (length env) n s = Done (word_of_nat sp) t"
    "holds s lo hi (put_vector sp ?vs ?m) t"
    using create_tables_exec [OF w holds_start st0 room fuel] by blast
  have "strings_at (byte_of (put_vector sp ?vs ?m)) p (args @ env)"
    by (rule strings_at_cong [OF st0]) (rule put_vector_bytes [OF low(2)])
  then have "strings_at (user_byte t) p (args @ env)" by (rule strings_at_cong) (rule view [OF t(2)])
  moreover have "user_words t (word_of_nat sp) ?vs"
  proof (rule holds_words [OF w t(2) room(2)])
    have "p \<le> hi" using strings_end_le [of p "args @ env"] room(3) by linarith
    moreover have "hi \<le> 2147483648" using w by (simp add: window_def)
    ultimately have "p \<le> 2147483648" "p - p mod 4 \<le> hi" using diff_le_self [of p "p mod 4"] by linarith+
    then show "sp mod 4 = 0" using table_addresses(1) [OF _ room(1)] by blast
    show "sp + 4 * length ?vs \<le> hi" using low(2) \<open>p - p mod 4 \<le> hi\<close> by linarith
  qed
  ultimately show ?thesis using t unfolding arg_tables_def holds_def by blast
qed

text \<open>A program with the argument \<open>hi\<close> and one empty string as its environment.\<close>

theorem create_tables_layout_witness:
  "\<exists>s t. put_fs_long 0x6968 0x5ffc 0 small_space = Done () s \<and> create_tables 0x5ffc 1 1 3 s = Done 0x5fe0 t \<and>
     user_words t 0x5fe0 [1, 0x5fec, 0x5ff4, 0x5ffc, 0, 0x5fff, 0] \<and> strings_at (user_byte t) 0x5ffc [[104, 105], []]"
proof -
  let ?m = "\<lambda>a. ram small_space (translate_user (word_of_nat a) small_space)"
  obtain s where s: "put_fs_long 0x6968 (word_of_nat 24572) 0 small_space = Done () s" "holds small_space 20480 24576 (?m(24572 := 0x6968)) s"
    using put_window [OF small_window holds_start, of 24572 "0x6968" 0] by auto
  have bytes: "user_byte s 24572 = 104" "user_byte s 24573 = 105" "user_byte s 24574 = 0" "user_byte s 24575 = 0"
    using user_byte_window [OF small_window s(2)] by (simp_all add: byte_of_def drop_bit_eq_div)
  have "user_byte s (24572 + i) = [104, 105] ! i" if "i < Suc (Suc 0)" for i using bytes that by (auto simp: less_Suc_eq)
  moreover have "(0 :: u8) \<notin> set [104, 105]" by simp
  ultimately have st: "strings_at (user_byte s) 24572 ([[104, 105]] @ [[]])" using bytes by simp
  obtain t where "create_tables (word_of_nat 24572) (length [[104 :: u8, 105]]) (length [[] :: u8 list]) 3 s = Done (word_of_nat 24544) t"
    "user_words t (word_of_nat 24544) ([word_of_nat (length [[104 :: u8, 105]]), word_of_nat (24544 + 12), word_of_nat (24544 + 12 + 4 * (length [[104 :: u8, 105]] + 1))] @
        map word_of_nat (string_starts 24572 [[104, 105]]) @ [0] @ map word_of_nat (string_starts (strings_end 24572 [[104, 105]]) [[]]) @ [0])"
    "strings_at (user_byte t) 24572 ([[104, 105]] @ [[]])"
    using create_tables_layout [OF holds_window [OF small_window s(2)] st, of 24544 3] by auto
  then show ?thesis using s(1) by (intro exI [of _ s] exI [of _ t]) simp
qed

end
