(* ===== verification/Reading.thy ===== *)
theory Reading
  imports Window Zones Files
begin

text \<open>
  Reading files: \<open>bmap\<close> of \<^verbatim>\<open>fs/inode.c\<close>, \<open>file_read\<close> of \<^verbatim>\<open>fs/file_dev.c\<close> and \<open>sys_read\<close> of
  \<^verbatim>\<open>fs/read_write.c\<close> deliver the bytes of a regular file to the memory of the task, through the
  buffer cache and the zone tables of the inode.
\<close>

section \<open>The cache between two uses\<close>

text \<open>Nobody works on the cache: it is well formed and agrees with the disk, no buffer is locked, one is free.\<close>

definition settled :: "kstate \<Rightarrow> bool" where
  "settled s \<longleftrightarrow> (\<exists>L F. cache_ok s L F) \<and> coherent s \<and> idle s \<and> 2 \<le> nr_buffers s \<and>
     (\<forall>i<nr_buffers s. b_lock (buffers s i) = 0 \<and> b_count (buffers s i) < 255) \<and>
     (\<exists>i<nr_buffers s. recyclable (buffers s i))"

text \<open>Only the cache, the request queue and the states of tasks differ, and the contents of all blocks are the same.\<close>

definition beside :: "kstate \<Rightarrow> kstate \<Rightarrow> bool" where
  "beside s t \<longleftrightarrow> t\<lparr>buffers := buffers s, hash_table := hash_table s, free_list := free_list s, buffer_wait := buffer_wait s,
     requests := requests s, current_request := current_request s, wait_for_request := wait_for_request s, tasks := tasks s\<rparr> = s \<and>
     only_state s t \<and> (\<forall>l. \<forall>j<1024. contents t l j = contents s l j)"

lemma beside_refl [simp]: "beside s s"
  by (simp add: beside_def only_state_def)

lemma beside_trans:
  assumes "beside s t" "beside t u"
  shows "beside s u"
proof -
  let ?set = "\<lambda>w s. w\<lparr>buffers := buffers s, hash_table := hash_table s, free_list := free_list s, buffer_wait := buffer_wait s,
     requests := requests s, current_request := current_request s, wait_for_request := wait_for_request s, tasks := tasks s\<rparr>"
  have eq: "?set t s = s" "?set u t = t" using assms by (simp_all add: beside_def)
  have "?set u s = ?set (?set u t) s" by simp
  also have "\<dots> = s" by (simp only: eq)
  finally show ?thesis using assms only_state_trans [of s t u] by (simp add: beside_def)
qed

lemma beside_fields:
  assumes "beside s t"
  shows "ram t = ram s" "current t = current s" "inode_table t = inode_table s" "file_table t = file_table s"
    "super_blocks t = super_blocks s" "rd_length t = rd_length s" "nr_buffers t = nr_buffers s" "CURRENT_TIME t = CURRENT_TIME s"
    "pgdir (cur t) = pgdir (cur s)" "filp (cur t) = filp (cur s)"
proof -
  have eq: "t\<lparr>buffers := buffers s, hash_table := hash_table s, free_list := free_list s, buffer_wait := buffer_wait s,
     requests := requests s, current_request := current_request s, wait_for_request := wait_for_request s, tasks := tasks s\<rparr> = s"
    using assms by (simp add: beside_def)
  show "ram t = ram s" and cur: "current t = current s" and "inode_table t = inode_table s" "file_table t = file_table s"
    "super_blocks t = super_blocks s" "rd_length t = rd_length s" "nr_buffers t = nr_buffers s" "CURRENT_TIME t = CURRENT_TIME s"
    unfolding CURRENT_TIME_def by (subst eq [symmetric], simp)+
  have "(tasks t i)\<lparr>t_state := t_state (tasks s i)\<rparr> = tasks s i" for i using assms by (simp add: beside_def only_state_def)
  then have "pgdir (tasks t i) = pgdir (tasks s i) \<and> filp (tasks t i) = filp (tasks s i)" for i
    by (metis task_struct.ext_inject task_struct.surjective task_struct.update_convs)
  then show "pgdir (cur t) = pgdir (cur s)" "filp (cur t) = filp (cur s)" using cur by (simp_all add: cur_def)
qed

text \<open>What the cache is for does not depend on the memory, the files and the inodes.\<close>

lemma contents_cong:
  assumes "buffers t = buffers s" "nr_buffers t = nr_buffers s" "rd_image t = rd_image s"
  shows "contents t = contents s" "live t = live s"
proof -
  show l: "live t = live s" by (simp add: live_def fun_eq_iff assms)
  show "contents t = contents s" by (intro ext) (simp add: contents_def l assms split: option.split)
qed

lemma contents_other [simp]:
  "contents (s\<lparr>ram := r\<rparr>) = contents s" "contents (upd_file f g s) = contents s" "contents (upd_inode ino h s) = contents s"
  by (rule contents_cong; simp add: upd_defs)+

lemma settled_other [simp]:
  "settled (s\<lparr>ram := r\<rparr>) = settled s" "settled (upd_file f g s) = settled s" "settled (upd_inode ino h s) = settled s"
  by (simp_all add: settled_def cache_ok_def queues_def field_defs coherent_def live_def idle_def upd_defs)

section \<open>Reading a block\<close>

lemma cache_frame_beside:
  assumes "cache_frame s t" "\<And>l j. j < 1024 \<Longrightarrow> contents t l j = contents s l j"
  shows "beside s t"
proof -
  have eq: "t\<lparr>buffers := buffers s, hash_table := hash_table s, free_list := free_list s\<rparr> = s" using assms(1) by (simp add: cache_frame_def)
  have f: "tasks t = tasks s" by (subst eq [symmetric], simp)
  let ?set = "\<lambda>w. w\<lparr>buffer_wait := buffer_wait s, requests := requests s, current_request := current_request s,
     wait_for_request := wait_for_request s, tasks := tasks s\<rparr>"
  have "?set (t\<lparr>buffers := buffers s, hash_table := hash_table s, free_list := free_list s\<rparr>) = s" unfolding eq by simp
  moreover have "only_state s t" by (simp add: only_state_def f)
  ultimately show ?thesis using assms(2) by (simp add: beside_def)
qed

lemma blk_frame_beside:
  assumes "blk_frame s t" "rd_image t = rd_image s" "\<And>l j. j < 1024 \<Longrightarrow> contents t l j = contents s l j"
  shows "beside s t"
proof -
  let ?blk = "\<lambda>w. w\<lparr>buffers := buffers s, requests := requests s, current_request := current_request s,
     tasks := tasks s, wait_for_request := wait_for_request s, rd_image := rd_image s\<rparr>"
  let ?set = "\<lambda>w. w\<lparr>buffers := buffers s, hash_table := hash_table s, free_list := free_list s, buffer_wait := buffer_wait s,
     requests := requests s, current_request := current_request s, wait_for_request := wait_for_request s, tasks := tasks s\<rparr>"
  have eq: "?blk t = s" and st: "only_state s t" using assms(1) by (simp_all add: blk_frame_def)
  have "t = t\<lparr>rd_image := rd_image s\<rparr>" using assms(2) by simp
  then have "?set t = ?set (t\<lparr>rd_image := rd_image s\<rparr>)" by (rule arg_cong)
  also have "\<dots> = ?set (?blk t)" by simp
  also have "\<dots> = s" unfolding eq by simp
  finally show ?thesis unfolding beside_def using st assms(3) by blast
qed

lemma use_unused: "use_buffer i (upd_buffer i (\<lambda>b. b\<lparr>b_count := b_count b - 1\<rparr>) s) = s"
  by (simp add: use_buffer_def upd_buffer_def)

lemma use_buffer_fields [simp]:
  "nr_buffers (use_buffer i s) = nr_buffers s" "idle (use_buffer i s) = idle s"
  "b_data (buffers (use_buffer i s) j) = b_data (buffers s j)" "ram (use_buffer i s) = ram s"
  by (simp_all add: use_buffer_def upd_buffer_def idle_def)

lemma beside_use [simp]: "beside s (use_buffer i t) = beside s t"
  by (simp add: beside_def use_buffer_contents only_state_def) (simp add: use_buffer_def upd_buffer_def)

text \<open>The buffer in use; without its user the cache is settled.\<close>

lemma settledI:
  assumes s: "settled s" and ok: "cache_ok t L F" "coherent t" "idle t" "nr_buffers t = nr_buffers s"
    and i: "b_count (buffers t i) = b_count (buffers s i) + 1" "b_lock (buffers t i) = 0"
      "b_dirt (buffers t i) = 0 \<or> b_dirt (buffers t i) = b_dirt (buffers s i)"
    and other: "\<And>j. j \<noteq> i \<Longrightarrow> strip (buffers t j) = strip (buffers s j)"
  shows "\<exists>d. t = use_buffer i d \<and> settled d \<and> (\<forall>v. recyclable (buffers s v) \<longrightarrow> recyclable (buffers d v))"
proof -
  define d where "d = upd_buffer i (\<lambda>b. b\<lparr>b_count := b_count b - 1\<rparr>) t"
  have t: "t = use_buffer i d" by (simp add: d_def use_unused)
  have "cache_ok d L F" unfolding d_def using cache_ok_upd [of "\<lambda>b. b\<lparr>b_count := b_count b - 1\<rparr>" i t L F] ok(1) by (simp add: same_place_def)
  moreover have "coherent d" using ok(2) t use_buffer_contents(1) by metis
  moreover have "idle d" "nr_buffers d = nr_buffers s" using ok(3,4) by (simp_all add: d_def idle_def upd_buffer_def)
  moreover have di: "b_count (buffers d i) = b_count (buffers s i)" "b_lock (buffers d i) = 0"
     "b_dirt (buffers d i) = 0 \<or> b_dirt (buffers d i) = b_dirt (buffers s i)"
    using i by (simp_all add: d_def upd_buffer_def)
  moreover have dj: "b_count (buffers d j) = b_count (buffers s j) \<and> b_lock (buffers d j) = b_lock (buffers s j) \<and>
      b_dirt (buffers d j) = b_dirt (buffers s j)" if "j \<noteq> i" for j
    using strip_fields [OF other [OF that]] that by (simp add: d_def upd_buffer_def)
  have "b_lock (buffers d j) = 0 \<and> b_count (buffers d j) < 255" if "j < nr_buffers s" for j
    using s that di dj [of j] by (cases "j = i") (auto simp: settled_def)
  moreover have spare: "recyclable (buffers d v)" if "recyclable (buffers s v)" for v
    using that di dj [of v] by (cases "v = i") (auto simp: recyclable_def)
  moreover obtain v where "v < nr_buffers s" "recyclable (buffers s v)" using s by (auto simp: settled_def)
  ultimately show ?thesis using t s unfolding settled_def by metis
qed

lemma bread_settled:
  assumes s: "settled s" and k: "1024 * (unat k + 1) \<le> unat (rd_length s)" and fuel: "nr_buffers s < n"
  shows "\<exists>i d. bread RD_DEV k n s = Done (Some i) (use_buffer i d) \<and> beside s d \<and> settled d \<and> i < nr_buffers d \<and>
     (\<forall>j<1024. b_data (buffers d i) j = contents s k j) \<and> live d k i \<and> (\<forall>v. recyclable (buffers s v) \<longrightarrow> recyclable (buffers d v))"
proof -
  obtain L F where ok: "cache_ok s L F" and co: "coherent s" and idle: "idle s" and two: "2 \<le> nr_buffers s"
    and lock: "\<And>i. i < nr_buffers s \<Longrightarrow> b_lock (buffers s i) = 0 \<and> b_count (buffers s i) < 255"
    and free: "\<exists>i<nr_buffers s. recyclable (buffers s i)"
    using s by (auto simp: settled_def)
  have F: "set F = {..<nr_buffers s}" using ok by (simp add: cache_ok_def queues_def)
  obtain i t L' F' where t: "getblk RD_DEV k n s = Done i t" "cache_ok t L' F'" "coherent t" "beside s t" "i < nr_buffers s"
     "caches (buffers t i) RD_DEV k" "b_count (buffers t i) = b_count (buffers s i) + 1" "b_lock (buffers t i) = 0"
     "b_dirt (buffers t i) = 0 \<or> b_dirt (buffers t i) = b_dirt (buffers s i)" "\<And>j. j \<noteq> i \<Longrightarrow> strip (buffers t j) = strip (buffers s j)"
     "idle t"
  proof (cases "\<exists>i<nr_buffers s. caches (buffers s i) RD_DEV k")
    case True
    then obtain i where i: "i < nr_buffers s" "caches (buffers s i) RD_DEV k" by blast
    have "getblk RD_DEV k n s = Done i (use_buffer i s)" using getblk_hit [OF ok fuel i] lock i(1) by blast
    moreover have "cache_ok (use_buffer i s) L F" "coherent (use_buffer i s)" using use_buffer_ok [OF ok] co use_buffer_contents(1) by auto
    moreover have "b_count (buffers (use_buffer i s) i) = b_count (buffers s i) + 1" "b_lock (buffers (use_buffer i s) i) = 0"
        "b_dirt (buffers (use_buffer i s) i) = b_dirt (buffers s i)" "caches (buffers (use_buffer i s) i) RD_DEV k"
        "\<And>j. j \<noteq> i \<Longrightarrow> strip (buffers (use_buffer i s) j) = strip (buffers s j)"
      using i lock [OF i(1)] by (simp_all add: use_buffer_def upd_buffer_def caches_def)
    moreover have "beside s (use_buffer i s)" "idle (use_buffer i s)" using idle by simp_all
    ultimately show ?thesis using i(1) that by blast
  next
    case False
    have "\<exists>i\<in>set F. recyclable (buffers s i)" using free F by auto
    then obtain xs v ys where v: "F = xs @ v # ys" "\<forall>x\<in>set xs. \<not> recyclable (buffers s x)" "recyclable (buffers s v)"
      by (rule first_recyclable)
    have vn: "v < nr_buffers s" using v(1) F by auto
    have new: "\<not> caches (buffers s j) (ucast (0x101 :: u16)) k" if "j < nr_buffers s" for j using False that by auto
    obtain t L' where t: "getblk RD_DEV k n s = Done v t" "cache_ok t L' (remove1 v F @ [v])" "cache_frame s t"
      "strip (buffers t v) = strip ((buffers s v)\<lparr>b_count := 1, b_dirt := 0, b_uptodate := 0, b_dev := 0x101, b_blocknr := k\<rparr>)"
      "\<And>j. j \<noteq> v \<Longrightarrow> strip (buffers t j) = strip (buffers s j)"
      using getblk_miss [OF ok fuel two _ new v] by auto
    note tv = strip_fields [OF t(4)]
    note ev = evict_buffer [OF ok co vn v(3) t(3) _ t(5)]
    have e: "b_uptodate (buffers t v) = 0" using tv by simp
    show ?thesis using t vn v(3) tv ev(1) [OF e] cache_frame_beside [OF t(3) ev(2) [OF e]] idle_frame [OF t(3)] idle
      by (intro that [of v t]) (auto simp: caches_def recyclable_def)
  qed
  have tk: "1024 * (unat k + 1) \<le> unat (rd_length t)" and nr: "nr_buffers t = nr_buffers s" using k beside_fields [OF t(4)] by simp_all
  have n2: "2 \<le> n" "0 < n" using two fuel by simp_all
  obtain u where u: "bread RD_DEV k n s = Done (Some i) u" "cache_ok u L' F'" "coherent u" "idle u" "beside s u" "nr_buffers u = nr_buffers s"
    "b_count (buffers u i) = b_count (buffers s i) + 1" "b_lock (buffers u i) = 0"
    "b_dirt (buffers u i) = 0 \<or> b_dirt (buffers u i) = b_dirt (buffers s i)" "\<And>j. j \<noteq> i \<Longrightarrow> strip (buffers u j) = strip (buffers s j)"
    "live u k i"
  proof (cases "b_uptodate (buffers t i) = 0")
    case True
    obtain u where u: "ll_rw_block READ i n t = Done () u" "blk_frame t u" "idle u" "cache_ok u L' F'"
       "buffers u = (buffers t)(i := done_buffer t READ (buffers t i))" "rd_image u = rd_image t"
      using fill_exec [OF t(2,11) n2(1) t(6,8) True tk] by blast
    have fb: "coherent u" "live u k i" "nr_buffers u = nr_buffers t" "\<And>l j. j < 1024 \<Longrightarrow> contents u l j = contents t l j"
      using fill_buffer [OF t(2,3,11) n2(1) _ t(6,8) True tk] u(1) t(5) nr by auto
    have b: "b_uptodate (buffers u i) = 1" "b_lock (buffers u i) = 0" by (simp_all add: u(5) done_buffer_def)
    have "bread RD_DEV k n s = Done (Some i) u"
      using b u(1) n2 by (simp add: bread_def bread_with_def kexec t(1) True wait_on_buffer_exec)
    moreover have "beside s u" using beside_trans [OF t(4) blk_frame_beside [OF u(2,6) fb(4)]] .
    ultimately show ?thesis using u fb t nr by (intro that) (auto simp: done_buffer_def)
  next
    case False
    then have "bread RD_DEV k n s = Done (Some i) t" by (simp add: bread_def bread_with_def kexec t(1))
    then show ?thesis using t nr False by (intro that) (auto simp: live_def)
  qed
  obtain d where d: "u = use_buffer i d" "settled d" "\<forall>v. recyclable (buffers s v) \<longrightarrow> recyclable (buffers d v)"
    using settledI [OF s u(2-4,6-10)] by blast
  have "b_data (buffers d i) j = contents s k j" if "j < 1024" for j
  proof -
    have "b_data (buffers u i) j = contents u k j" using contents_live [OF u(2) _ u(11)] t(5) u(6) by simp
    also have "\<dots> = contents s k j" using u(5) that by (simp add: beside_def)
    finally show ?thesis using d(1) by simp
  qed
  moreover have "beside s d" using u(5) d(1) by simp
  moreover have "i < nr_buffers d" using t(5) beside_fields(7) [OF calculation(2)] by simp
  moreover have "live d k i" using u(11) d(1) by (simp add: live_def caches_def use_buffer_def upd_buffer_def)
  ultimately show ?thesis using u(1) d by blast
qed

text \<open>The user gives the buffer back.\<close>

lemma brelse_settled:
  assumes "settled d" "i < nr_buffers d" "0 < n"
  shows "\<exists>t. brelse (Some i) n (use_buffer i d) = Done () t \<and> beside d t \<and> settled t"
proof -
  have b: "b_lock (buffers d i) = 0" "b_count (buffers d i) < 255" using assms by (auto simp: settled_def)
  have c: "b_count (buffers (use_buffer i d) i) \<noteq> 0" using no_wrap_255 [OF b(2)] by (auto simp: use_buffer_def upd_buffer_def)
  let ?t = "wake_up_state Buffer_wait d"
  have "upd_buffer i (\<lambda>b. b\<lparr>b_count := b_count b - 1\<rparr>) (use_buffer i d) = d" by (simp add: use_buffer_def upd_buffer_def)
  then have run: "brelse (Some i) n (use_buffer i d) = Done () ?t"
    using brelse_exec [of "use_buffer i d" i n] b(1) c assms(3) by (simp add: use_buffer_def upd_buffer_def)
  have same: "buffers ?t = buffers d" "nr_buffers ?t = nr_buffers d" "rd_image ?t = rd_image d" "idle ?t = idle d"
    by (auto simp: wake_up_state_def set_state_def upd_defs idle_def split: option.split)
  have "beside d ?t" unfolding beside_def
  proof (intro conjI)
    show "only_state d ?t" by (rule only_state_wake_up) (simp add: only_state_def)
    show "\<forall>l. \<forall>j<1024. contents ?t l j = contents d l j" using contents_cong [OF same(1-3)] by simp
  qed (simp add: wake_up_state_def set_state_def upd_defs split: option.split)
  moreover have "settled ?t" using assms(1) unfolding settled_def cache_ok_wake same coherent_def live_def [abs_def] .
  ultimately show ?thesis using run by blast
qed

section \<open>The blocks of a file\<close>

text \<open>
  The block of the disk that holds block \<open>b\<close> of the file, and zero for a hole: seven zones of the inode, then the
  entries of the indirect block, then those of the blocks that the double indirect block names.
\<close>

definition indirect_zone :: "kstate \<Rightarrow> u32 \<Rightarrow> nat \<Rightarrow> u32" where
  "indirect_zone s z k = (if z = 0 then 0 else ucast (zone_at (contents s z) k))"

definition file_zone :: "kstate \<Rightarrow> m_inode \<Rightarrow> nat \<Rightarrow> u32" where
  "file_zone s m b =
     (if b < 7 then ucast (i_zone m b)
      else if b < 519 then indirect_zone s (ucast (i_zone m 7)) (b - 7)
      else indirect_zone s (indirect_zone s (ucast (i_zone m 8)) ((b - 519) div 512)) ((b - 519) mod 512))"

text \<open>All blocks that have to be read for it lie on the disk.\<close>

definition on_image :: "kstate \<Rightarrow> u32 \<Rightarrow> bool" where
  "on_image s z \<longleftrightarrow> z = 0 \<or> 1024 * (unat z + 1) \<le> unat (rd_length s)"

definition zone_ok :: "kstate \<Rightarrow> m_inode \<Rightarrow> nat \<Rightarrow> bool" where
  "zone_ok s m b \<longleftrightarrow> b < 262663 \<and> on_image s (file_zone s m b) \<and> (7 \<le> b \<and> b < 519 \<longrightarrow> on_image s (ucast (i_zone m 7))) \<and>
     (519 \<le> b \<longrightarrow> on_image s (ucast (i_zone m 8)) \<and> on_image s (indirect_zone s (ucast (i_zone m 8)) ((b - 519) div 512)))"

lemma zone_at_cong: "(\<And>j. j < 1024 \<Longrightarrow> d j = e j) \<Longrightarrow> k < 512 \<Longrightarrow> zone_at d k = zone_at e k"
  by (simp add: zone_at_def get16_def)

lemma beside_zones:
  assumes b: "beside s t" and m: "inode_table t = inode_table s"
  shows "k < 512 \<Longrightarrow> indirect_zone t z k = indirect_zone s z k" "b < 262663 \<Longrightarrow> file_zone t m' b = file_zone s m' b"
    "on_image t z = on_image s z" "zone_ok t m' b' = zone_ok s m' b'"
proof -
  have c: "contents t l j = contents s l j" if "j < 1024" for l j using b that by (simp add: beside_def)
  show i: "indirect_zone t z k = indirect_zone s z k" if "k < 512" for z k
    using zone_at_cong [OF c that] by (simp add: indirect_zone_def)
  have d: "(b - 519) div 512 < 512" if "b < 262663" for b :: nat using that by (simp add: less_mult_imp_div_less)
  show f: "file_zone t m' b = file_zone s m' b" if "b < 262663" for b using i d [OF that] that by (simp add: file_zone_def)
  show o: "on_image t z = on_image s z" for z using beside_fields(6) [OF b] by (simp add: on_image_def)
  show "zone_ok t m' b' = zone_ok s m' b'" unfolding zone_ok_def using f i d o by (cases "b' < 262663") auto
qed

lemma indirect_exec:
  assumes s: "settled s" and z: "z \<noteq> 0" "on_image s z" and dev: "i_dev (inode_table s ino) = 0x101" and k: "k < 512"
    and fuel: "nr_buffers s < n"
  shows "\<exists>t. indirect ino z k False n s = Done (indirect_zone s z k) t \<and> beside s t \<and> settled t"
proof -
  have "1024 * (unat z + 1) \<le> unat (rd_length s)" using z by (simp add: on_image_def)
  then obtain i d where d: "bread RD_DEV z n s = Done (Some i) (use_buffer i d)" "beside s d" "settled d" "i < nr_buffers d"
     "\<And>j. j < 1024 \<Longrightarrow> b_data (buffers d i) j = contents s z j"
    using bread_settled [OF s _ fuel] by blast
  have n: "0 < n" using fuel by simp
  obtain t where t: "brelse (Some i) n (use_buffer i d) = Done () t" "beside d t" "settled t"
    using brelse_settled [OF d(3,4) n] by blast
  have "zone_at (b_data (buffers d i)) k = zone_at (contents s z) k" by (rule zone_at_cong [OF d(5) k])
  then have "indirect ino z k False n s = Done (indirect_zone s z k) t"
    using z(1) d(1) t(1) dev by (simp add: indirect_def kexec idev_def indirect_zone_def)
  then show ?thesis using beside_trans [OF d(2) t(2)] t(3) by blast
qed

lemma zone_of_exec: "zone_of ino k False n s = Done (i_zone (inode_table s ino) k) s"
  by (simp add: zone_of_def get_inode_def kexec)

text \<open>The three ranges of block numbers, as the signed comparisons of \<open>_bmap\<close> see them.\<close>

lemma block_range:
  fixes b :: nat
  defines "w \<equiv> word_of_nat b :: u32"
  assumes b: "b < 262663"
  shows "unat w = b" "\<not> w <s 0" "\<not> 7 + 512 + 512 * 512 \<le>s w" "w <s 7 \<longleftrightarrow> b < 7"
    "7 \<le> b \<Longrightarrow> unat (w - 7) = b - 7 \<and> (w - 7 <s 512 \<longleftrightarrow> b < 519)"
    "519 \<le> b \<Longrightarrow> unat (drop_bit 9 (w - 7 - 512)) = (b - 519) div 512 \<and> unat ((w - 7 - 512) AND 511) = (b - 519) mod 512"
proof -
  show u: "unat w = b" using b by (simp add: w_def unat_of_nat)
  then have si: "sint w = int b" using sint_unat [of w] b by simp
  show "\<not> w <s 0" "\<not> 7 + 512 + 512 * 512 \<le>s w" "w <s 7 \<longleftrightarrow> b < 7" using b by (simp_all add: word_sless_alt word_sle_eq si)
  show "unat (w - 7) = b - 7 \<and> (w - 7 <s 512 \<longleftrightarrow> b < 519)" if "7 \<le> b"
  proof -
    have "w - 7 = word_of_nat (b - 7)" using that by (simp add: w_def of_nat_diff)
    then have u7: "unat (w - 7) = b - 7" using b by (simp add: unat_of_nat)
    then have "sint (w - 7) = int (b - 7)" using sint_unat [of "w - 7"] b by simp
    then show ?thesis using u7 that by (auto simp: word_sless_alt)
  qed
  show "unat (drop_bit 9 (w - 7 - 512)) = (b - 519) div 512 \<and> unat ((w - 7 - 512) AND 511) = (b - 519) mod 512" if "519 \<le> b"
  proof -
    have "w - 7 - 512 = word_of_nat (b - 519)" using that by (simp add: w_def of_nat_diff)
    then have u5: "unat (w - 7 - 512) = b - 519" using b by (simp add: unat_of_nat)
    have "(511 :: u32) = mask 9" by (simp add: mask_eq_exp_minus_1)
    then have "(w - 7 - 512) AND 511 = take_bit 9 (w - 7 - 512)" by (simp add: take_bit_eq_mask)
    then have "unat ((w - 7 - 512) AND 511) = take_bit 9 (unat (w - 7 - 512))" by (simp only: unsigned_take_bit_eq)
    then show ?thesis unfolding unat_drop_bit_eq u5 by (simp add: take_bit_eq_mod drop_bit_eq_div)
  qed
qed

text \<open>A chain of tables: an entry of zero stops the search with zero.\<close>

lemma indirect_or_zero:
  assumes s: "settled s" and z: "on_image s z" and dev: "i_dev (inode_table s ino) = 0x101" and k: "k < 512"
    and fuel: "nr_buffers s < n"
  shows "\<exists>t. (if z = 0 then ret 0 else indirect ino z k False) n s = Done (indirect_zone s z k) t \<and> beside s t \<and> settled t"
proof (cases "z = 0")
  case True
  then show ?thesis using s by (intro exI [of _ s]) (simp add: kexec indirect_zone_def)
next
  case False
  then show ?thesis using indirect_exec [OF s False z dev k fuel] by simp
qed

lemma ucast_zero: "(ucast (z :: u16) :: u32) = 0 \<longleftrightarrow> z = 0"
  by (metis ucast_u16 unsigned_0)

lemma bmap_double:
  assumes s: "settled s" and dev: "i_dev (inode_table s ino) = 0x101" and ok: "zone_ok s (inode_table s ino) b" and b: "519 \<le> b"
    and fuel: "nr_buffers s < n"
  shows "\<exists>t. bmap ino (word_of_nat b) n s = Done (file_zone s (inode_table s ino) b) t \<and> beside s t \<and> settled t"
proof -
  let ?m = "inode_table s ino" let ?z = "ucast (i_zone ?m 8) :: u32" let ?d = "(b - 519) div 512" let ?k = "(b - 519) mod 512"
  have b': "b < 262663" and on: "on_image s ?z" "on_image s (indirect_zone s ?z ?d)" using ok b by (simp_all add: zone_ok_def)
  have d: "?d < 512" using b' by (simp add: less_mult_imp_div_less)
  note R = block_range [OF b']
  have run: "bmap ino (word_of_nat b) n s =
      bind (if ?z = 0 then ret 0 else indirect ino ?z ?d False) (\<lambda>i. if i = 0 then ret 0 else indirect ino i ?k False) n s"
    using R(2-4) R(5,6) b by (simp add: bmap_def bmap_create_def kexec zone_of_exec Let_def ucast_zero cong: if_cong)
  obtain t where t: "(if ?z = 0 then ret 0 else indirect ino ?z ?d False) n s = Done (indirect_zone s ?z ?d) t" "beside s t" "settled t"
    using indirect_or_zero [OF s on(1) dev d fuel] by blast
  note bf = beside_fields [OF t(2)] and bz = beside_zones [OF t(2) beside_fields(3) [OF t(2)]]
  have "on_image t (indirect_zone s ?z ?d)" "i_dev (inode_table t ino) = 0x101" "nr_buffers t < n"
    using on(2) bz(3) dev bf fuel by simp_all
  then obtain u where u: "(if indirect_zone s ?z ?d = 0 then ret 0 else indirect ino (indirect_zone s ?z ?d) ?k False) n t =
      Done (indirect_zone t (indirect_zone s ?z ?d) ?k) u" "beside t u" "settled u"
    using indirect_or_zero [OF t(3), of "indirect_zone s ?z ?d" ino ?k n] by auto
  have "bmap ino (word_of_nat b) n s = Done (file_zone s ?m b) u"
    unfolding run bind_exec t(1) using u(1) b bz(1) [of ?k] by (simp add: file_zone_def)
  then show ?thesis using beside_trans [OF t(2) u(2)] u(3) by blast
qed

lemma bmap_exec:
  assumes s: "settled s" and dev: "i_dev (inode_table s ino) = 0x101" and ok: "zone_ok s (inode_table s ino) b"
    and fuel: "nr_buffers s < n"
  shows "\<exists>t. bmap ino (word_of_nat b) n s = Done (file_zone s (inode_table s ino) b) t \<and> beside s t \<and> settled t"
proof -
  let ?m = "inode_table s ino"
  have b: "b < 262663" using ok by (simp add: zone_ok_def)
  note R = block_range [OF b]
  consider "b < 7" | "7 \<le> b" "b < 519" | "519 \<le> b" by linarith
  then show ?thesis
  proof cases
    case 1
    then have "bmap ino (word_of_nat b) n s = Done (file_zone s ?m b) s"
      using R(1-4) by (simp add: bmap_def bmap_create_def kexec zone_of_exec file_zone_def)
    then show ?thesis using s by (intro exI [of _ s]) simp
  next
    case 2
    let ?z = "ucast (i_zone ?m 7) :: u32"
    have "on_image s ?z" using ok 2 by (simp add: zone_ok_def)
    moreover have "bmap ino (word_of_nat b) n s = (if ?z = 0 then ret 0 else indirect ino ?z (b - 7) False) n s"
      using R(2-5) 2 by (simp add: bmap_def bmap_create_def kexec zone_of_exec Let_def ucast_zero)
    ultimately show ?thesis using indirect_or_zero [OF s _ dev _ fuel, of ?z "b - 7"] 2 by (simp add: file_zone_def)
  qed (rule bmap_double [OF s dev ok _ fuel])
qed

section \<open>Copying to the task\<close>

lemma copy_out_exec:
  assumes w: "window s lo hi" and st: "user_bytes s lo hi m (ram t)" and t: "pgdir (cur t) = pgdir (cur s)"
    and a: "lo \<le> a" "a + c \<le> hi"
  shows "\<exists>r. copy_out bh off (word_of_nat a) c n t = Done () (t\<lparr>ram := r\<rparr>) \<and>
     user_bytes s lo hi (\<lambda>x. if a \<le> x \<and> x < a + c then case bh of None \<Rightarrow> 0 | Some b \<Rightarrow> b_data (buffers t b) (off + (x - a)) else m x) r"
  using a(2)
proof (induction c)
  case 0
  have "(\<lambda>x. if a \<le> x \<and> x < a + 0 then case bh of None \<Rightarrow> 0 | Some b \<Rightarrow> b_data (buffers t b) (off + (x - a)) else m x) = m" by (auto simp: fun_eq_iff)
  then show ?case using st by (intro exI [of _ "ram t"]) (simp add: copy_out_def kexec)
next
  case (Suc c)
  let ?m = "\<lambda>c x. if a \<le> x \<and> x < a + c then case bh of None \<Rightarrow> 0 | Some b \<Rightarrow> b_data (buffers t b) (off + (x - a)) else m x"
  let ?v = "case bh of None \<Rightarrow> 0 | Some b \<Rightarrow> b_data (buffers t b) (off + c)"
  obtain r where r: "copy_out bh off (word_of_nat a) c n t = Done () (t\<lparr>ram := r\<rparr>)" "user_bytes s lo hi (?m c) r"
    using Suc by auto
  have "user_bytes s lo hi (?m c) (ram (t\<lparr>ram := r\<rparr>))" "pgdir (cur (t\<lparr>ram := r\<rparr>)) = pgdir (cur s)" "lo \<le> a + c" "a + c < hi"
    using r(2) t a(1) Suc.prems by (simp_all add: cur_def)
  from put_byte_window [OF w this, of ?v n]
  obtain r' where r': "put_fs_byte ?v (word_of_nat (a + c)) n (t\<lparr>ram := r\<rparr>) = Done () (t\<lparr>ram := r'\<rparr>)" "user_bytes s lo hi ((?m c)(a + c := ?v)) r'"
    by auto
  have "(?m c)(a + c := ?v) = ?m (Suc c)" by (auto simp: fun_eq_iff split: option.split)
  moreover have "copy_out bh off (word_of_nat a) (Suc c) n t = Done () (t\<lparr>ram := r'\<rparr>)"
    using r(1) r'(1) by (auto simp: copy_out_def for_each_append kexec split: option.splits)
  ultimately show ?case using r'(2) by (intro exI [of _ r']) simp
qed

text \<open>Besides the cache, only the memory and the table of open files differ.\<close>

definition reads :: "kstate \<Rightarrow> kstate \<Rightarrow> bool" where
  "reads s t \<longleftrightarrow> beside s (t\<lparr>ram := ram s, file_table := file_table s\<rparr>)"

lemma contents_files [simp]: "contents (s\<lparr>file_table := x\<rparr>) = contents s"
  by (rule contents_cong) simp_all

lemma reads_fields:
  assumes "reads s t"
  shows "inode_table t = inode_table s" "rd_length t = rd_length s" "nr_buffers t = nr_buffers s" "pgdir (cur t) = pgdir (cur s)"
    "CURRENT_TIME t = CURRENT_TIME s" "filp (cur t) = filp (cur s)" "super_blocks t = super_blocks s"
    "b < 262663 \<Longrightarrow> file_zone t m b = file_zone s m b" "zone_ok t m b = zone_ok s m b" "j < 1024 \<Longrightarrow> contents t l j = contents s l j"
proof -
  let ?t = "t\<lparr>ram := ram s, file_table := file_table s\<rparr>"
  have b: "beside s ?t" using assms by (simp add: reads_def)
  note bf = beside_fields [OF b] and bz = beside_zones [OF b beside_fields(3) [OF b]]
  show "inode_table t = inode_table s" "rd_length t = rd_length s" "nr_buffers t = nr_buffers s" "pgdir (cur t) = pgdir (cur s)"
    "CURRENT_TIME t = CURRENT_TIME s" "filp (cur t) = filp (cur s)" "super_blocks t = super_blocks s"
    using bf by (simp_all add: cur_def CURRENT_TIME_def)
  have i: "indirect_zone ?t = indirect_zone t" by (simp add: indirect_zone_def fun_eq_iff)
  have f: "file_zone ?t = file_zone t" by (simp add: file_zone_def fun_eq_iff i)
  have o: "on_image ?t = on_image t" by (simp add: on_image_def fun_eq_iff)
  show "file_zone t m b = file_zone s m b" if "b < 262663" using bz(2) [OF that, of m] f by simp
  show "zone_ok t m b = zone_ok s m b" using bz(4) [of m b] by (simp add: zone_ok_def i f o)
  show "contents t l j = contents s l j" if "j < 1024" using b that by (simp add: beside_def)
qed

lemma beside_change:
  assumes "beside s t"
  shows "beside (s\<lparr>ram := r, file_table := x\<rparr>) (t\<lparr>ram := r, file_table := x\<rparr>)"
proof -
  let ?set = "\<lambda>w s. w\<lparr>buffers := buffers s, hash_table := hash_table s, free_list := free_list s, buffer_wait := buffer_wait s,
     requests := requests s, current_request := current_request s, wait_for_request := wait_for_request s, tasks := tasks s\<rparr>"
  have eq: "?set t s = s" using assms by (simp add: beside_def)
  have "?set (t\<lparr>ram := r, file_table := x\<rparr>) (s\<lparr>ram := r, file_table := x\<rparr>) = (?set t s)\<lparr>ram := r, file_table := x\<rparr>" by simp
  also have "\<dots> = s\<lparr>ram := r, file_table := x\<rparr>" by (simp only: eq)
  finally show ?thesis using assms unfolding beside_def only_state_def by simp
qed

lemma reads_refl [simp]: "reads s s"
  by (simp add: reads_def)

lemma reads_beside: "reads s t \<Longrightarrow> beside t u \<Longrightarrow> reads s u"
  unfolding reads_def using beside_trans beside_change [where s = t and t = u and r = "ram s" and x = "file_table s"] by blast

lemma reads_change [simp]:
  "reads s (t\<lparr>ram := r\<rparr>) = reads s t" "reads s (upd_file f g t) = reads s t" "reads s (use_buffer i t) = reads s t"
proof -
  show "reads s (t\<lparr>ram := r\<rparr>) = reads s t" "reads s (upd_file f g t) = reads s t" by (simp_all add: reads_def upd_file_def)
  have "(use_buffer i t)\<lparr>ram := ram s, file_table := file_table s\<rparr> = use_buffer i (t\<lparr>ram := ram s, file_table := file_table s\<rparr>)"
    by (simp add: use_buffer_def upd_buffer_def)
  then show "reads s (use_buffer i t) = reads s t" by (simp add: reads_def)
qed

lemma use_buffer_change:
  "upd_file f g (use_buffer i d) = use_buffer i (upd_file f g d)" "(use_buffer i d)\<lparr>ram := r\<rparr> = use_buffer i (d\<lparr>ram := r\<rparr>)"
  "file_table (use_buffer i d) = file_table d" "cur (use_buffer i d) = cur d"
  by (simp_all add: use_buffer_def upd_buffer_def upd_file_def cur_def)

section \<open>Reading a file\<close>

text \<open>Byte \<open>x\<close> of the file.\<close>

definition file_byte :: "kstate \<Rightarrow> m_inode \<Rightarrow> nat \<Rightarrow> u8" where
  "file_byte s m x = (let z = file_zone s m (x div 1024) in if z = 0 then 0 else contents s z (x mod 1024))"

text \<open>How much of a block one round copies.\<close>

lemma chunk:
  fixes p l :: nat
  defines "c \<equiv> min (1024 - p mod 1024) l" and "off \<equiv> c_mod (word_of_nat p) 1024"
  assumes "p < 2147483648" "l < 2147483648"
  shows "unat off = p mod 1024" "(if 1024 - off <s word_of_nat l then 1024 - off else word_of_nat l) = word_of_nat c"
    "nat (sint (word_of_nat c :: u32)) = c"
proof -
  have off: "off = word_of_nat (p mod 1024)" using c_mod_small [of p 1024] assms(3) by (simp add: off_def)
  show "unat off = p mod 1024" using off by (simp add: unat_of_nat)
  have m: "p mod 1024 < 1024" by simp
  have d: "1024 - off = word_of_nat (1024 - p mod 1024)" unfolding off using m by (simp add: of_nat_diff less_imp_le)
  have si: "sint (word_of_nat x :: u32) = int x" if "x < 2147483648" for x
    using sint_unat [of "word_of_nat x"] that by (simp add: unat_of_nat)
  have "sint (word_of_nat l :: u32) = int l" "sint (word_of_nat (1024 - p mod 1024) :: u32) = int (1024 - p mod 1024)"
    by (rule si, use assms(4) in simp)+
  then have "1024 - off <s word_of_nat l \<longleftrightarrow> 1024 - p mod 1024 < l" unfolding d word_sless_alt by (simp only: of_nat_less_iff)
  then show "(if 1024 - off <s word_of_nat l then 1024 - off else word_of_nat l) = word_of_nat c" by (auto simp: d c_def min_def)
  show "nat (sint (word_of_nat c :: u32)) = c" using si [of c] assms(4) by (simp add: c_def)
qed

lemma file_chunk:
  assumes "file_zone s m (p div 1024) = z" "c \<le> 1024 - p mod 1024" "i < c"
  shows "file_byte s m (p + i) = (if z = 0 then 0 else contents s z (p mod 1024 + i))"
proof -
  obtain q r where p: "p = r + q * 1024" "r < 1024" using mod_div_mult_eq [of p 1024] mod_less_divisor [of 1024 p] by (metis zero_less_numeral)
  then have pm: "p mod 1024 = r" "p div 1024 = q" by simp_all
  have ri: "r + i < 1024" using assms(2,3) pm p(2) by linarith
  have e: "p + i = (r + i) + q * 1024" using p(1) by simp
  have "((r + i) + q * 1024) div 1024 = q" "((r + i) + q * 1024) mod 1024 = r + i"
    using ri div_mult_self1 [of 1024 "r + i" q] mod_mult_self1 [of "r + i" q 1024] by (simp_all only: div_less mod_less)
  then have "(p + i) div 1024 = p div 1024" "(p + i) mod 1024 = p mod 1024 + i" by (simp_all only: e pm)
  then show ?thesis using assms(1) by (simp add: file_byte_def Let_def)
qed

lemma file_read_step_run:
  assumes "left \<noteq> 0" "bmap ino (c_div (f_pos (file_table t f)) 1024) n t = Done nr t1"
    and "(if nr = 0 then ret (Some None) else bind (idev ino) (\<lambda>d. bind (bread d nr) (\<lambda>b.
            ret (case b of None \<Rightarrow> None | Some _ \<Rightarrow> Some b)))) n t1 = Done (Some bh) t2"
    and "c_mod (f_pos (file_table t2 f)) 1024 = off" "(if 1024 - off <s left then 1024 - off else left) = chars"
    and "copy_out bh (unat off) buf (nat (sint chars)) n (upd_file f (\<lambda>p. p\<lparr>f_pos := f_pos p + chars\<rparr>) t2) = Done () t3"
    and "brelse bh n t3 = Done () u"
  shows "file_read_step ino f (left, buf) n t = Done (Inl (left - chars, buf + chars)) u"
  unfolding file_read_step_def prod.case if_not_P [OF assms(1)]
  by (simp only: bind_exec get_file_def gets_exec bindp.simps assms(2,3,4,5) option.case Let_def seq_exec modify_exec assms(6,7) ret_exec)

lemma file_read_step_exec:
  fixes p l a :: nat
  defines "c \<equiv> min (1024 - p mod 1024) l"
  assumes t: "reads s t" "settled t" "user_bytes s lo hi m (ram t)" "f_pos (file_table t f) = word_of_nat p"
    and dev: "i_dev (inode_table s ino) = 0x101" and zok: "zone_ok s (inode_table s ino) (p div 1024)"
    and l: "0 < l" "p + l < 2147483648" and w: "window s lo hi" and a: "lo \<le> a" "a + l \<le> hi" and fuel: "nr_buffers s < n"
  shows "\<exists>u. file_read_step ino f (word_of_nat l, word_of_nat a) n t = Done (Inl (word_of_nat (l - c), word_of_nat (a + c))) u \<and>
     reads s u \<and> settled u \<and> file_table u = (file_table t)(f := (file_table t f)\<lparr>f_pos := word_of_nat (p + c)\<rparr>) \<and>
     user_bytes s lo hi (\<lambda>x. if a \<le> x \<and> x < a + c then file_byte s (inode_table s ino) (p + (x - a)) else m x) (ram u)"
proof -
  let ?M = "inode_table s ino"
  note rf = reads_fields [OF t(1)]
  have c: "0 < c" "c \<le> l" "c \<le> 1024 - p mod 1024" using l(1) by (auto simp: c_def)
  have ch: "unat (c_mod (word_of_nat p) 1024) = p mod 1024"
      "(if 1024 - c_mod (word_of_nat p) 1024 <s word_of_nat l then 1024 - c_mod (word_of_nat p) 1024 else word_of_nat l) = word_of_nat c"
      "nat (sint (word_of_nat c :: u32)) = c"
    using chunk [of p l] l by (simp_all add: c_def)
  have "unat (word_of_nat l :: u32) = l" using l by (simp add: unat_of_nat)
  then have l0: "(word_of_nat l :: u32) \<noteq> 0" using l(1) by (metis less_numeral_extra(3) unsigned_0)
  have pb: "p div 1024 < 262663" using zok by (simp add: zone_ok_def)
  have cd: "c_div (word_of_nat p) 1024 = word_of_nat (p div 1024)" using c_div_small [of p 1024] l by simp
  have "zone_ok t (inode_table t ino) (p div 1024)" "i_dev (inode_table t ino) = 0x101" "nr_buffers t < n" using zok dev rf fuel by simp_all
  from bmap_exec [OF t(2) this(2,1,3)] obtain t1 where t1: "bmap ino (word_of_nat (p div 1024)) n t = Done (file_zone s ?M (p div 1024)) t1"
     "beside t t1" "settled t1" using rf(1) rf(8) [OF pb, of ?M] by auto
  have r1: "reads s t1" using reads_beside [OF t(1) t1(2)] .
  note f1 = reads_fields [OF r1] and b1 = beside_fields [OF t1(2)]
  define z where "z = file_zone s ?M (p div 1024)"
  have run1: "bmap ino (c_div (f_pos (file_table t f)) 1024) n t = Done z t1" using t1(1) by (simp add: t(4) cd z_def)
  let ?g = "\<lambda>q :: file_struct. q\<lparr>f_pos := f_pos q + word_of_nat c\<rparr>"
  have bytes: "(\<lambda>x. if a \<le> x \<and> x < a + c then D (x - a) else m x) =
      (\<lambda>x. if a \<le> x \<and> x < a + c then file_byte s ?M (p + (x - a)) else m x)"
    if "\<And>i. i < c \<Longrightarrow> D i = (if z = 0 then 0 else contents s z (p mod 1024 + i))" for D
  proof
    fix x
    show "(if a \<le> x \<and> x < a + c then D (x - a) else m x) = (if a \<le> x \<and> x < a + c then file_byte s ?M (p + (x - a)) else m x)"
    proof (cases "a \<le> x \<and> x < a + c")
      case True
      then have i: "x - a < c" by linarith
      have "D (x - a) = file_byte s ?M (p + (x - a))"
        using that [OF i] file_chunk [OF z_def [symmetric] c(3) i] by (rule trans [OF _ sym])
      then show ?thesis using True by (simp only: if_True)
    next
      case False
      then show ?thesis by (simp only: if_False)
    qed
  qed
  have add: "word_of_nat l - word_of_nat c = (word_of_nat (l - c) :: u32)" "word_of_nat a + word_of_nat c = (word_of_nat (a + c) :: u32)"
      "word_of_nat p + word_of_nat c = (word_of_nat (p + c) :: u32)"
    using c(2) by (simp_all add: of_nat_diff)
  show ?thesis
  proof (cases "z = 0")
    case True
    let ?u1 = "upd_file f ?g t1"
    have "user_bytes s lo hi m (ram ?u1)" "pgdir (cur ?u1) = pgdir (cur s)" "lo \<le> a" "a + c \<le> hi"
      using t(3) b1 f1 a c by (simp_all add: upd_file_def cur_def)
    from copy_out_exec [OF w this, of None "p mod 1024" n, unfolded option.case] obtain r where
      r: "copy_out None (p mod 1024) (word_of_nat a) c n ?u1 = Done () (?u1\<lparr>ram := r\<rparr>)"
        "user_bytes s lo hi (\<lambda>x. if a \<le> x \<and> x < a + c then 0 else m x) r" by blast
    have "file_read_step ino f (word_of_nat l, word_of_nat a) n t =
        Done (Inl (word_of_nat l - word_of_nat c, word_of_nat a + word_of_nat c)) (?u1\<lparr>ram := r\<rparr>)"
    proof (rule file_read_step_run [OF l0 run1 _ _ ch(2)])
      show "c_mod (f_pos (file_table t1 f)) 1024 = c_mod (word_of_nat p) 1024" using b1(4) t(4) by simp
      show "copy_out None (unat (c_mod (word_of_nat p) 1024)) (word_of_nat a) (nat (sint (word_of_nat c :: u32))) n ?u1 = Done () (?u1\<lparr>ram := r\<rparr>)"
        unfolding ch(1,3) by (rule r(1))
    qed (simp_all add: True kexec brelse_def)
    then have "file_read_step ino f (word_of_nat l, word_of_nat a) n t = Done (Inl (word_of_nat (l - c), word_of_nat (a + c))) (?u1\<lparr>ram := r\<rparr>)"
      unfolding add .
    moreover have "file_table (?u1\<lparr>ram := r\<rparr>) = (file_table t)(f := (file_table t f)\<lparr>f_pos := word_of_nat (p + c)\<rparr>)"
      using b1(4) t(4) by (simp add: upd_file_def)
    ultimately show ?thesis using r(2) r1 t1(3) bytes [of "\<lambda>_. 0"] True by (intro exI [of _ "?u1\<lparr>ram := r\<rparr>"]) simp
  next
    case False
    have "1024 * (unat z + 1) \<le> unat (rd_length t1)" "nr_buffers t1 < n"
      using False zok f1 fuel by (simp_all add: zone_ok_def on_image_def z_def)
    from bread_settled [OF t1(3) this] obtain i d where
      d: "bread RD_DEV z n t1 = Done (Some i) (use_buffer i d)" "beside t1 d" "settled d" "i < nr_buffers d"
        "\<And>j. j < 1024 \<Longrightarrow> b_data (buffers d i) j = contents t1 z j" by blast
    have rd: "reads s d" using reads_beside [OF r1 d(2)] .
    note fd = reads_fields [OF rd] and bd = beside_fields [OF d(2)]
    let ?u1 = "upd_file f ?g d"
    have "user_bytes s lo hi m (ram (use_buffer i ?u1))" "pgdir (cur (use_buffer i ?u1)) = pgdir (cur s)" "lo \<le> a" "a + c \<le> hi"
      using t(3) b1 bd fd a c by (simp_all add: upd_file_def cur_def use_buffer_def upd_buffer_def)
    moreover have db: "b_data (buffers (use_buffer i ?u1) i) = b_data (buffers d i)" by (simp add: upd_file_def)
    ultimately obtain r where
      r: "copy_out (Some i) (p mod 1024) (word_of_nat a) c n (use_buffer i ?u1) = Done () (use_buffer i (?u1\<lparr>ram := r\<rparr>))"
        "user_bytes s lo hi (\<lambda>x. if a \<le> x \<and> x < a + c then b_data (buffers d i) (p mod 1024 + (x - a)) else m x) r"
      using copy_out_exec [OF w, of m "use_buffer i ?u1" a c "Some i" "p mod 1024" n, unfolded option.case db use_buffer_change(2)] by blast
    have "nr_buffers ?u1 = nr_buffers d" by (simp add: upd_file_def)
    then have "settled (?u1\<lparr>ram := r\<rparr>)" "i < nr_buffers (?u1\<lparr>ram := r\<rparr>)" "0 < n" using d(3,4) fuel by simp_all
    from brelse_settled [OF this] obtain u where
      u: "brelse (Some i) n (use_buffer i (?u1\<lparr>ram := r\<rparr>)) = Done () u" "beside (?u1\<lparr>ram := r\<rparr>) u" "settled u" by blast
    have "idev ino n t1 = Done RD_DEV t1" using dev f1(1) by (simp add: idev_def kexec)
    then have b: "(if z = 0 then ret (Some None) else bind (idev ino) (\<lambda>d. bind (bread d z) (\<lambda>b.
            ret (case b of None \<Rightarrow> None | Some _ \<Rightarrow> Some b)))) n t1 = Done (Some (Some i)) (use_buffer i d)"
      using False d(1) by (simp add: kexec)
    have "file_read_step ino f (word_of_nat l, word_of_nat a) n t =
        Done (Inl (word_of_nat l - word_of_nat c, word_of_nat a + word_of_nat c)) u"
    proof (rule file_read_step_run [OF l0 run1 b _ ch(2) _ u(1)])
      show "c_mod (f_pos (file_table (use_buffer i d) f)) 1024 = c_mod (word_of_nat p) 1024" using bd(4) b1(4) t(4) by (simp add: use_buffer_change)
      show "copy_out (Some i) (unat (c_mod (word_of_nat p) 1024)) (word_of_nat a) (nat (sint (word_of_nat c :: u32))) n
          (upd_file f ?g (use_buffer i d)) = Done () (use_buffer i (?u1\<lparr>ram := r\<rparr>))"
        unfolding ch(1,3) use_buffer_change(1) by (rule r(1))
    qed
    then have "file_read_step ino f (word_of_nat l, word_of_nat a) n t = Done (Inl (word_of_nat (l - c), word_of_nat (a + c))) u"
      unfolding add .
    moreover have "file_table u = (file_table t)(f := (file_table t f)\<lparr>f_pos := word_of_nat (p + c)\<rparr>)"
      using beside_fields(4) [OF u(2)] bd(4) b1(4) t(4) by (simp add: upd_file_def)
    moreover have "b_data (buffers d i) (p mod 1024 + j) = contents s z (p mod 1024 + j)" if "j < c" for j
      using d(5) [of "p mod 1024 + j"] f1(10) [of "p mod 1024 + j" z] c(3) that by simp
    then have "user_bytes s lo hi (\<lambda>x. if a \<le> x \<and> x < a + c then file_byte s ?M (p + (x - a)) else m x) r"
      using r(2) bytes [of "\<lambda>j. b_data (buffers d i) (p mod 1024 + j)"] False by simp
    moreover have "ram u = r" using beside_fields(1) [OF u(2)] by simp
    moreover have "reads s u" using reads_beside [OF _ u(2)] rd by simp
    ultimately show ?thesis using u(3) by (intro exI [of _ u]) simp
  qed
qed

text \<open>The loop: every round copies at least one byte, so \<open>l\<close> rounds are enough.\<close>

lemma file_read_loop:
  assumes t: "reads s t" "settled t" "user_bytes s lo hi m (ram t)" "f_pos (file_table t f) = word_of_nat p"
    and dev: "i_dev (inode_table s ino) = 0x101" and zok: "\<And>x. x < l \<Longrightarrow> zone_ok s (inode_table s ino) ((p + x) div 1024)"
    and l: "p + l < 2147483648" and w: "window s lo hi" and a: "lo \<le> a" "a + l \<le> hi" and fuel: "nr_buffers s < n" "l < k"
  shows "\<exists>u. loop_fuel k (file_read_step ino f) (word_of_nat l, word_of_nat a) n t = Done 0 u \<and>
     reads s u \<and> settled u \<and> file_table u = (file_table t)(f := (file_table t f)\<lparr>f_pos := word_of_nat (p + l)\<rparr>) \<and>
     user_bytes s lo hi (\<lambda>x. if a \<le> x \<and> x < a + l then file_byte s (inode_table s ino) (p + (x - a)) else m x) (ram u)"
  using t zok l a fuel(2)
proof (induction l arbitrary: k t p a m rule: less_induct)
  case (less l)
  obtain k' where k: "k = Suc k'" using less.prems(9) by (cases k) auto
  show ?case
  proof (cases "l = 0")
    case True
    have "(\<lambda>x. if a \<le> x \<and> x < a + l then file_byte s (inode_table s ino) (p + (x - a)) else m x) = m" using True by (auto simp: fun_eq_iff)
    moreover have "(file_table t f)\<lparr>f_pos := word_of_nat (p + l)\<rparr> = file_table t f" using less.prems(4) True by simp
    moreover have "loop_fuel k (file_read_step ino f) (word_of_nat l, word_of_nat a) n t = Done 0 t"
      using True by (simp add: k kexec file_read_step_def)
    ultimately show ?thesis using less.prems(1-3) by (intro exI [of _ t]) (simp only: fun_upd_triv simp_thms)
  next
    case False
    define c where "c = min (1024 - p mod 1024) l"
    have c: "0 < c" "c \<le> l" using False by (auto simp: c_def)
    have z: "zone_ok s (inode_table s ino) (p div 1024)" "0 < l" using less.prems(5) [of 0] False by simp_all
    let ?m = "\<lambda>x. if a \<le> x \<and> x < a + c then file_byte s (inode_table s ino) (p + (x - a)) else m x"
    from file_read_step_exec [OF less.prems(1-4) dev z less.prems(6) w less.prems(7,8) fuel(1), folded c_def]
    obtain u where u: "file_read_step ino f (word_of_nat l, word_of_nat a) n t = Done (Inl (word_of_nat (l - c), word_of_nat (a + c))) u"
      "reads s u" "settled u" "file_table u = (file_table t)(f := (file_table t f)\<lparr>f_pos := word_of_nat (p + c)\<rparr>)"
      "user_bytes s lo hi ?m (ram u)" by blast
    have "f_pos (file_table u f) = word_of_nat (p + c)" by (simp add: u(4))
    moreover have "zone_ok s (inode_table s ino) ((p + c + x) div 1024)" if "x < l - c" for x
      using less.prems(5) [of "c + x"] that by (simp add: add.assoc)
    moreover have "p + c + (l - c) < 2147483648" "lo \<le> a + c" "a + c + (l - c) \<le> hi" "l - c < l" "l - c < k'"
      using less.prems(6-9) c k by simp_all
    ultimately obtain v where v: "loop_fuel k' (file_read_step ino f) (word_of_nat (l - c), word_of_nat (a + c)) n u = Done 0 v"
      "reads s v" "settled v" "file_table v = (file_table u)(f := (file_table u f)\<lparr>f_pos := word_of_nat (p + c + (l - c))\<rparr>)"
      "user_bytes s lo hi (\<lambda>x. if a + c \<le> x \<and> x < a + c + (l - c) then file_byte s (inode_table s ino) (p + c + (x - (a + c))) else ?m x) (ram v)"
      using less.IH [of "l - c" u ?m "p + c" "a + c" k'] u(2,3,5) by blast
    have "loop_fuel k (file_read_step ino f) (word_of_nat l, word_of_nat a) n t = Done 0 v"
      unfolding k loop_fuel.simps bind_exec u(1) bindp.simps sum.case by (rule v(1))
    moreover have "file_table v = (file_table t)(f := (file_table t f)\<lparr>f_pos := word_of_nat (p + l)\<rparr>)"
      using c(2) unfolding v(4) u(4) by simp
    moreover have "(\<lambda>x. if a + c \<le> x \<and> x < a + c + (l - c) then file_byte s (inode_table s ino) (p + c + (x - (a + c))) else ?m x) =
        (\<lambda>x. if a \<le> x \<and> x < a + l then file_byte s (inode_table s ino) (p + (x - a)) else m x)"
      using c(2) by (auto simp: fun_eq_iff)
    ultimately show ?thesis using v by (intro exI [of _ v]) simp
  qed
qed

text \<open>Besides the cache, only the memory, the open files and the access time of the inode differ.\<close>

definition reads_inode :: "nat \<Rightarrow> kstate \<Rightarrow> kstate \<Rightarrow> bool" where
  "reads_inode ino s t \<longleftrightarrow> reads s (t\<lparr>inode_table := inode_table s\<rparr>) \<and>
     inode_table t = (inode_table s)(ino := (inode_table s ino)\<lparr>i_atime := CURRENT_TIME s\<rparr>)"

lemma file_read_exec:
  assumes s: "settled s" and dev: "i_dev (inode_table s ino) = 0x101" and pos: "f_pos (file_table s f) = word_of_nat p"
    and zok: "\<And>x. x < l \<Longrightarrow> zone_ok s (inode_table s ino) ((p + x) div 1024)"
    and l: "0 < l" "p + l < 2147483648" and w: "window s lo hi" and a: "lo \<le> a" "a + l \<le> hi" and fuel: "nr_buffers s < n" "l < n"
  shows "\<exists>u. file_read ino f (word_of_nat a) (word_of_nat l) n s = Done (word_of_nat l) u \<and> reads_inode ino s u \<and> settled u \<and>
     file_table u = (file_table s)(f := (file_table s f)\<lparr>f_pos := word_of_nat (p + l)\<rparr>) \<and>
     user_bytes s lo hi (\<lambda>x. if a \<le> x \<and> x < a + l then file_byte s (inode_table s ino) (p + (x - a)) else user_byte s x) (ram u)"
proof -
  obtain t where t: "loop_fuel n (file_read_step ino f) (word_of_nat l, word_of_nat a) n s = Done 0 t" "reads s t" "settled t"
     "file_table t = (file_table s)(f := (file_table s f)\<lparr>f_pos := word_of_nat (p + l)\<rparr>)"
     "user_bytes s lo hi (\<lambda>x. if a \<le> x \<and> x < a + l then file_byte s (inode_table s ino) (p + (x - a)) else user_byte s x) (ram t)"
    using file_read_loop [OF reads_refl s user_bytes_start pos dev zok l(2) w a fuel] by blast
  note rf = reads_fields [OF t(2)]
  let ?u = "upd_inode ino (\<lambda>m. m\<lparr>i_atime := CURRENT_TIME t\<rparr>) t"
  have "unat (word_of_nat l :: u32) = l" using l by (simp add: unat_of_nat)
  then have l0: "\<not> (word_of_nat l :: u32) \<le>s 0" "(word_of_nat l :: u32) \<noteq> 0" using l sint_unat [of "word_of_nat l"] by (auto simp: word_sle_eq)
  have "file_read ino f (word_of_nat a) (word_of_nat l) n s = Done (word_of_nat l) ?u"
    using l0 t(1) by (simp add: file_read_def loop_def kexec)
  moreover have "reads s (t\<lparr>inode_table := inode_table s\<rparr>)" using t(2) unfolding rf(1) [symmetric] by simp
  then have "reads_inode ino s ?u" using rf(1,5) by (simp add: reads_inode_def upd_inode_def)
  moreover have "file_table ?u = file_table t" "ram ?u = ram t" by (simp_all add: upd_inode_def)
  ultimately show ?thesis using t(3-5) by (intro exI [of _ ?u]) simp
qed

section \<open>Reading through a descriptor\<close>

text \<open>The pages of \<open>[lo, hi)\<close> are mapped and writable, and no two of them share a frame.\<close>

definition buffer_ready :: "kstate \<Rightarrow> nat \<Rightarrow> nat \<Rightarrow> bool" where
  "buffer_ready s lo hi \<longleftrightarrow> window s lo hi \<and>
     (\<forall>a. lo \<le> a \<and> a < hi \<longrightarrow> (\<forall>e. walk s (pgdir (cur s)) (word_of_nat a) = Some e \<longrightarrow> e AND PTE_W \<noteq> 0))"

lemma sint_of_int: "- 2147483648 \<le> L \<Longrightarrow> L < 2147483648 \<Longrightarrow> sint (word_of_int L :: u32) = L"
  unfolding sint_sbintrunc' by (rule signed_take_bit_int_eq_self) simp_all

lemma verify_loop_ready:
  assumes "- 4096 < L" "L < 2147483648" "L \<le> 4096 * int k"
    and pages: "\<And>j. 4096 * int j < L \<Longrightarrow> verify_page (start + word_of_nat (4096 * j)) n s = Done () s"
  shows "loop_fuel (Suc k) verify_body (word_of_int L, start) n s = Done () s"
  using assms
proof (induction k arbitrary: L start)
  case 0
  have "sint (word_of_int L :: u32) = L" using 0 by (intro sint_of_int) simp_all
  then show ?case using 0 by (simp add: verify_body_def kexec word_sless_alt)
next
  case (Suc k)
  have L: "sint (word_of_int L :: u32) = L" using Suc.prems by (intro sint_of_int) simp_all
  show ?case
  proof (cases "0 < L")
    case True
    have "verify_page start n s = Done () s" using Suc.prems(4) [of 0] True by simp
    moreover have "verify_page (start + 4096 + word_of_nat (4096 * j)) n s = Done () s" if "4096 * int j < L - 4096" for j
      using Suc.prems(4) [of "Suc j"] that by (simp add: add.assoc)
    then have "loop_fuel (Suc k) verify_body (word_of_int (L - 4096), start + 4096) n s = Done () s"
      using Suc.prems(2,3) True by (intro Suc.IH) simp_all
    ultimately show ?thesis using True L unfolding loop_fuel.simps(2) [of "Suc k"]
      by (simp add: verify_body_def [of] kexec word_sless_alt del: loop_fuel.simps)
  qed (use L in \<open>simp add: verify_body_def kexec word_sless_alt\<close>)
qed

lemma verify_page_ready:
  assumes b: "buffer_ready s lo hi" and a: "lo \<le> a" "a < hi" "unat v div 4096 = a div 4096"
  shows "verify_page v n s = Done () s"
proof -
  have w: "window s lo hi" using b by (simp add: buffer_ready_def)
  have nz: "pgdir (cur s) \<noteq> 0" and h: "hi \<le> 2147483648" using w wf_space_simps(2) by (auto simp: window_def)
  have ua: "unat (word_of_nat a :: u32) = a" using a h by (simp add: unat_of_nat)
  have "translate_user (word_of_nat a) s \<noteq> -1" using w a by (simp add: window_def)
  then obtain e where e: "walk s (pgdir (cur s)) (word_of_nat a) = Some e"
    using translate_user_walk [OF nz window_limit [OF w a(2)]] by (auto split: option.splits if_splits)
  moreover have "walk s (pgdir (cur s)) v = walk s (pgdir (cur s)) (word_of_nat a)"
    using walk_cong [OF nz, of v "word_of_nat a" s] a(3) ua by (simp add: index_of_page)
  moreover have "e AND PTE_W \<noteq> 0" using b a e by (auto simp: buffer_ready_def)
  ultimately show ?thesis by (auto simp: verify_page_def kexec walk_def valid_def split: option.splits if_splits)
qed

lemma verify_area_buffer:
  assumes b: "buffer_ready s lo hi" and a: "lo \<le> a" "a + l \<le> hi" "0 < l" and fuel: "l < n"
  shows "verify_area (word_of_nat a) (word_of_nat l) n s = Done () s"
proof -
  define q r where "q = a div 4096" and "r = a mod 4096"
  have ar: "a = 4096 * q + r" "r < 4096" by (simp_all add: q_def r_def)
  have w: "window s lo hi" using b by (simp add: buffer_ready_def)
  have nz: "pgdir (cur s) \<noteq> 0" and h: "hi \<le> 2147483648" using w wf_space_simps(2) by (auto simp: window_def)
  have ua: "unat (word_of_nat a :: u32) = a" using a h by (simp add: unat_of_nat)
  have lim: "word_of_nat a < USER_LIMIT" using window_limit [OF w, of a] a by simp
  have q4: "4096 * q < 4294967296" using ar(1) a h by linarith
  have start: "word_of_nat a AND 0xfffff000 = (word_of_nat (4096 * q) :: u32)"
    using unat_page_start [of "word_of_nat a"] ua q4 by (simp add: word_unat_eq_iff unat_of_nat flip: q_def del: of_nat_mult)
  have "word_of_nat a AND 0xfff = (word_of_nat r :: u32)"
    using unat_and_page_mask [of "word_of_nat a"] ua ar(2) by (simp add: word_unat_eq_iff unat_of_nat flip: r_def)
  then have left: "word_of_nat l + (word_of_nat a AND 0xfff) = (word_of_int (int (l + r)) :: u32)" by simp
  have page: "verify_page (word_of_nat (4096 * q) + word_of_nat (4096 * j)) n s = Done () s" if j: "4096 * int j < int (l + r)" for j
  proof (rule verify_page_ready [OF b])
    have j': "4096 * j < l + r" using j by linarith
    let ?x = "max a (4096 * (q + j))"
    have "4096 * q + 4096 * j < hi" using a(2) ar(1) j' by linarith
    then show "lo \<le> ?x" "?x < hi" using a by (auto simp: distrib_left)
    have "?x div 4096 = q + j" using ar by (cases j) (auto simp: max_def q_def [symmetric] r_def)
    moreover have "unat (word_of_nat (4096 * q) + word_of_nat (4096 * j) :: u32) = 4096 * (q + j)"
    proof -
      have "4096 * q + 4096 * j < 4294967296" using a ar j' h by linarith
      then have "4096 * (q + j) < 4294967296" by (simp add: distrib_left)
      moreover have "(word_of_nat (4096 * q) + word_of_nat (4096 * j) :: u32) = word_of_nat (4096 * (q + j))" by (simp add: distrib_left)
      ultimately show ?thesis by (simp only: unat_of_nat) simp
    qed
    ultimately show "unat (word_of_nat (4096 * q) + word_of_nat (4096 * j) :: u32) div 4096 = ?x div 4096" by simp
  qed
  obtain k where k: "n = Suc k" using fuel by (cases n) auto
  have "loop_fuel (Suc k) verify_body (word_of_int (int (l + r)), word_of_nat (4096 * q)) n s = Done () s"
  proof (cases "l + r < 2147483648")
    case True
    then show ?thesis by (intro verify_loop_ready [OF _ _ _ page]) (use a(3) ar(2) fuel k in linarith)+
  next
    case False
    then have "l + r = 2147483648" using a(2) ar(1) h by linarith
    then show ?thesis by (simp only:) (simp add: verify_body_def kexec word_sless_alt)
  qed
  then show ?thesis using nz lim left start k by (simp add: verify_area_def kexec loop_def verify_body_def)
qed

text \<open>
  The sum of the size and the offset in the page is an \<open>int\<close>. For a size close to its greatest value it overflows, and then
  \<open>verify_area\<close> looks at no page at all.
\<close>

lemma verify_area_overflow:
  assumes "pgdir (cur s) \<noteq> 0" "addr < USER_LIMIT" "unat sz < 2147483648" "2147483648 \<le> unat sz + unat addr mod 4096" "0 < n"
  shows "verify_area addr sz n s = Done () s"
proof -
  have m: "unat addr mod 4096 < 4096" by simp
  have u: "unat (sz + (addr AND 0xfff)) = unat sz + unat addr mod 4096"
    unfolding unat_word_ariths unat_and_page_mask using assms(3) m by simp
  have "sz + (addr AND 0xfff) = word_of_int (int (unat (sz + (addr AND 0xfff))) - 4294967296)" by simp
  also have "sint \<dots> = int (unat (sz + (addr AND 0xfff))) - 4294967296" using u assms(3,4) m by (intro sint_of_int) linarith+
  finally have "sint (sz + (addr AND 0xfff)) < 0" using u assms(3) m by linarith
  then have "\<not> 0 <s sz + (addr AND 0xfff)" by (simp add: word_sless_alt)
  then show ?thesis using assms(1,2,5) by (cases n) (auto simp: verify_area_def loop_def kexec)
qed

lemma file_kinds: "S_ISDIR m \<or> S_ISREG m \<Longrightarrow> \<not> S_ISCHR m \<and> \<not> S_ISBLK m"
  by (auto simp: S_ISDIR_def S_ISREG_def S_ISCHR_def S_ISBLK_def)

text \<open>How much of a file a call asks for, as \<open>sys_read\<close> computes it: nothing beyond its end.\<close>

lemma read_size:
  fixes p sz c :: nat
  defines "left \<equiv> if (word_of_nat sz :: u32) < word_of_nat c + word_of_nat p then word_of_nat sz - word_of_nat p else word_of_nat c :: u32"
  assumes "p + c < 2147483648" "sz < 2147483648" "0 < c"
  shows "if min c (sz - p) = 0 then left \<le>s 0 else \<not> left \<le>s 0 \<and> left = word_of_nat (min c (sz - p))"
proof -
  have u: "unat (word_of_nat x :: u32) = x" if "x < 2147483648" for x using that by (simp add: unat_of_nat)
  have si: "sint (word_of_nat x :: u32) = int x" if "x < 2147483648" for x
    using sint_of_int [of "int x"] that by simp
  have "(word_of_nat sz :: u32) < word_of_nat c + word_of_nat p \<longleftrightarrow> sz < c + p"
    unfolding of_nat_add [symmetric] word_less_nat_alt using u [of sz] u [of "c + p"] assms(2,3) by (simp only: add.commute)
  then have left: "left = (if sz < c + p then word_of_nat sz - word_of_nat p else word_of_nat c)" by (simp add: left_def)
  have "(word_of_nat sz - word_of_nat p :: u32) = word_of_int (int sz - int p)" by simp
  then have d: "sint (word_of_nat sz - word_of_nat p :: u32) = int sz - int p" using sint_of_int [of "int sz - int p"] assms(2,3) by simp
  consider (over) "sz \<le> p" | (part) "p < sz" "sz < c + p" | (whole) "c + p \<le> sz" by linarith
  then show ?thesis
  proof cases
    case over
    then show ?thesis using left d assms(4) by (simp add: word_sle_eq)
  next
    case part
    then have m: "min c (sz - p) = sz - p" "(word_of_nat (sz - p) :: u32) = word_of_nat sz - word_of_nat p" by (simp_all add: of_nat_diff)
    have "left = word_of_nat sz - word_of_nat p" "\<not> left \<le>s 0" using left d part by (simp_all add: word_sle_eq)
    then show ?thesis unfolding m using part by (simp only: m) simp
  next
    case whole
    have "left = word_of_nat c" "\<not> left \<le>s 0" "min c (sz - p) = c" using left si [of c] whole assms by (auto simp: word_sle_eq)
    then show ?thesis using assms(4) by simp
  qed
qed

text \<open>The file \<open>f\<close> is open at position \<open>p\<close> on the plain file or directory \<open>ino\<close> of the root device.\<close>

definition opened :: "kstate \<Rightarrow> nat \<Rightarrow> nat \<Rightarrow> nat \<Rightarrow> bool" where
  "opened s f ino p \<longleftrightarrow> f_inode (file_table s f) = Some ino \<and> f_pos (file_table s f) = word_of_nat p \<and>
     (let m = inode_table s ino in (S_ISDIR (i_mode m) \<or> S_ISREG (i_mode m)) \<and> i_pipe m = 0 \<and> i_dev m = 0x101 \<and> unat (i_size m) < 2147483648)"

lemma sys_read_run:
  assumes fd: "fd_file fd s = Some f" and o: "opened s f ino p" and c: "0 < c" "p + c < 2147483648"
    and v: "verify_area a (word_of_nat c) n s = Done () s"
  shows "sys_read inb fd a (word_of_nat c) n s = (let k = min c (unat (i_size (inode_table s ino)) - p) in
     if k = 0 then Done 0 s else file_read ino f a (word_of_nat k) n s)"
proof -
  let ?m = "inode_table s ino"
  have "sint (word_of_nat c :: u32) = int c" using sint_of_int [of "int c"] c by simp
  then have c': "\<not> (word_of_nat c :: u32) <s 0" "(word_of_nat c :: u32) \<noteq> 0" using c(1) by (auto simp: word_sless_alt)
  have sz: "i_size ?m = word_of_nat (unat (i_size ?m))" by simp
  have pos: "f_pos (file_table s f) = word_of_nat p" and i: "f_inode (file_table s f) = Some ino" and pipe: "i_pipe ?m = 0"
    and kind: "S_ISDIR (i_mode ?m) \<or> S_ISREG (i_mode ?m)" and small: "unat (i_size ?m) < 2147483648"
    using o by (simp_all add: opened_def Let_def)
  note rs = read_size [OF c(2) small c(1), folded sz]
  show ?thesis unfolding sys_read_def
    using fd c' v i pipe kind file_kinds [OF kind] rs pos
    by (simp add: kexec get_file_def get_inode_def Let_def split del: if_split cong: if_cong) (auto split: if_splits)
qed

subsection \<open>A small file\<close>

text \<open>
  A file of 2000 bytes in the blocks 9 and 12 of a disk whose bytes are the numbers of their blocks, open at position
  1000 as descriptor 3 of a task with one page of memory.
\<close>

definition small_file :: kstate where
  "small_file = small_cache\<lparr>ram := ram small_space, mem_map := mem_map small_space,
     tasks := (\<lambda>_. INIT_TASK\<lparr>pgdir := frame_addr 0, filp := [3 \<mapsto> 0]\<rparr>), rd_image := (\<lambda>i. word_of_nat (i div 1024)),
     file_table := (\<lambda>_. zero_file\<lparr>f_inode := Some 5, f_pos := 1000\<rparr>),
     inode_table := (\<lambda>_. zero_inode\<lparr>i_mode := S_IFREG, i_size := 2000, i_dev := 0x101, i_zone := (\<lambda>_. 0)(0 := 9, 1 := 12)\<rparr>)\<rparr>"

lemma small_file_settled: "settled small_file"
proof -
  have "cache_ok small_file L F = cache_ok small_cache L F" for L F by (rule cache_ok_cong) (simp_all add: small_file_def same_place_def)
  moreover have "idle small_file = idle small_cache" by (simp add: small_file_def idle_def)
  moreover have "coherent small_file" by (simp add: coherent_def live_def small_file_def small_cache_simps init_head_def)
  moreover have "nr_buffers small_file = 3" "buffers small_file = buffers small_cache" by (simp_all add: small_file_def small_cache_simps)
  moreover have "b_lock (buffers small_cache i) = 0 \<and> b_count (buffers small_cache i) < 255" for i
    by (simp add: small_cache_simps init_head_def zero_buffer_def)
  ultimately show ?thesis using small_cache_ok small_cache_free(2) unfolding settled_def
    by (metis (no_types, lifting) numeral_2_eq_2 numeral_3_eq_3 order_refl le_SucI zero_less_Suc)
qed

lemma window_cong:
  assumes "ram t = ram s" "mem_map t = mem_map s" "pgdir (cur t) = pgdir (cur s)"
  shows "window t lo hi = window s lo hi" "buffer_ready t lo hi = buffer_ready s lo hi"
proof -
  have wk: "walk t = walk s" by (intro ext) (simp add: walk_def pte_lookup_def assms split: option.split)
  have ht: "has_table t = has_table s" "table t = table s" "used t = used s"
    by (simp_all add: fun_eq_iff has_table_def table_def used_def assms)
  then have "is_table t = is_table s" by (intro ext) (simp add: is_table_def)
  then have "wf_space t = wf_space s" by (intro ext) (simp add: wf_space_def ht assms(1))
  then show "window t lo hi = window s lo hi" by (simp add: window_def wk assms(3) translate_cong [OF assms(3,1)])
  then show "buffer_ready t lo hi = buffer_ready s lo hi" by (simp add: buffer_ready_def wk assms(3))
qed

lemma small_file_buffer: "buffer_ready small_file 20480 24576"
proof -
  have "(phys_ppn q OR PTE_USER_RWX) AND PTE_W \<noteq> 0" for q
    by (simp add: bit_eq_iff bit_simps) (auto intro: exI [of _ 2] simp: bit_simps)
  then have "buffer_ready small_space 20480 24576" using small_window small_walk small_cur by (simp add: buffer_ready_def)
  moreover have "pgdir (cur small_file) = pgdir (cur small_space)" "ram small_file = ram small_space" "mem_map small_file = mem_map small_space"
    using small_cur by (simp_all add: small_file_def cur_def)
  ultimately show ?thesis using window_cong(2) by blast
qed

lemma small_file_simps:
  "fd_file 3 small_file = Some 0" "opened small_file 0 5 1000" "nr_buffers small_file = 3" "i_size (inode_table small_file 5) = 2000"
  "file_zone small_file (inode_table small_file 5) 0 = 9" "file_zone small_file (inode_table small_file 5) (Suc 0) = 12"
  "rd_length small_file = 0x10000"
  by (simp_all add: small_file_def fd_file_def cur_def opened_def zero_file_def zero_inode_def S_ISREG_def small_cache_simps file_zone_def Let_def)

lemma small_file_contents: "j < 1024 \<Longrightarrow> contents small_file k j = word_of_nat (unat k)"
proof -
  assume j: "j < 1024"
  have "contents small_file k j = rd_image small_file (1024 * unat k + j)"
    by (rule contents_image) (simp add: live_def small_file_def small_cache_free)
  then show ?thesis using j by (simp add: small_file_def)
qed

text \<open>
  C3: \<open>sys_read\<close> on a plain file or directory of the root device delivers the file: called with a mapped, writable
  buffer for \<open>c > 0\<close> bytes, it returns the number \<open>k\<close> of bytes from the file position to the end of the file, at most
  \<open>c\<close>; the buffer then holds exactly those bytes of the file (through the direct, indirect and double indirect zones,
  holes as zeros), every other byte of the task around it and every other page keeps its value, the position has
  advanced by \<open>k\<close>, only the access time of the inode has changed, and all blocks have the contents they had.
\<close>

theorem sys_read_file:
  assumes s: "settled s" and fd: "fd_file fd s = Some f" and o: "opened s f ino p"
    and b: "buffer_ready s lo hi" "lo \<le> a" "a + c \<le> hi" and c: "0 < c" "p + c < 2147483648" and fuel: "nr_buffers s < n" "c < n"
    and k: "k = min c (unat (i_size (inode_table s ino)) - p)"
    and zones: "\<And>x. x < k \<Longrightarrow> zone_ok s (inode_table s ino) ((p + x) div 1024)"
  shows "\<exists>t. sys_read inb fd (word_of_nat a) (word_of_nat c) n s = Done (word_of_nat k) t \<and>
     (\<forall>x. lo \<le> x \<and> x < hi \<longrightarrow>
        user_byte t x = (if a \<le> x \<and> x < a + k then file_byte s (inode_table s ino) (p + (x - a)) else user_byte s x)) \<and>
     (\<forall>q j. page_aligned q \<and> j < 1024 \<and> (\<forall>x. lo \<le> x \<and> x < hi \<longrightarrow> q \<noteq> frame_of s x) \<longrightarrow> ram t (word_at q j) = ram s (word_at q j)) \<and>
     file_table t = (file_table s)(f := (file_table s f)\<lparr>f_pos := word_of_nat (p + k)\<rparr>) \<and>
     inode_table t = (if k = 0 then inode_table s else (inode_table s)(ino := (inode_table s ino)\<lparr>i_atime := CURRENT_TIME s\<rparr>)) \<and>
     reads s (t\<lparr>inode_table := inode_table s\<rparr>) \<and> settled t"
proof -
  have w: "window s lo hi" using b(1) by (simp add: buffer_ready_def)
  have run: "sys_read inb fd (word_of_nat a) (word_of_nat c) n s = (if k = 0 then Done 0 s else file_read ino f (word_of_nat a) (word_of_nat k) n s)"
    using sys_read_run [OF fd o c verify_area_buffer [OF b c(1) fuel(2)], folded k] by (simp add: Let_def)
  have pos: "f_pos (file_table s f) = word_of_nat p" and dev: "i_dev (inode_table s ino) = 0x101" using o by (simp_all add: opened_def Let_def)
  show ?thesis
  proof (cases "k = 0")
    case True
    have "(file_table s f)\<lparr>f_pos := word_of_nat (p + k)\<rparr> = file_table s f" using pos True by simp
    then have "file_table s = (file_table s)(f := (file_table s f)\<lparr>f_pos := word_of_nat (p + k)\<rparr>)" by (simp only: fun_upd_triv)
    moreover have "\<not> (a \<le> x \<and> x < a + k)" for x using True by auto
    ultimately show ?thesis using True run s by (intro exI [of _ s]) (simp only: if_False if_True simp_thms reads_refl, simp)
  next
    case False
    have l: "0 < k" "p + k < 2147483648" "a + k \<le> hi" "k < n" using False k c b(3) fuel(2) by auto
    obtain t where t: "file_read ino f (word_of_nat a) (word_of_nat k) n s = Done (word_of_nat k) t" "reads_inode ino s t" "settled t"
       "file_table t = (file_table s)(f := (file_table s f)\<lparr>f_pos := word_of_nat (p + k)\<rparr>)"
       "user_bytes s lo hi (\<lambda>x. if a \<le> x \<and> x < a + k then file_byte s (inode_table s ino) (p + (x - a)) else user_byte s x) (ram t)"
      using file_read_exec [OF s dev pos zones l(1,2) w b(2) l(3) fuel(1) l(4)] by blast
    have rd: "reads s (t\<lparr>inode_table := inode_table s\<rparr>)" using t(2) by (simp add: reads_inode_def)
    have pg: "pgdir (cur t) = pgdir (cur s)" using reads_fields(4) [OF rd] by (simp add: cur_def)
    have "user_byte t x = (if a \<le> x \<and> x < a + k then file_byte s (inode_table s ino) (p + (x - a)) else user_byte s x)"
      if "lo \<le> x" "x < hi" for x
      unfolding user_byte_def [of t] user_bytes_translate [OF w t(5) pg that(2)] using t(5) that unfolding user_bytes_def by blast
    moreover have "ram t (word_at q j) = ram s (word_at q j)" if "page_aligned q" "j < 1024" "\<forall>x. lo \<le> x \<and> x < hi \<longrightarrow> q \<noteq> frame_of s x" for q j
      using t(5) that unfolding user_bytes_def by blast
    ultimately show ?thesis using run t(1-4) rd False by (intro exI [of _ t]) (simp add: reads_inode_def)
  qed
qed

theorem sys_read_file_witness:
  "\<exists>t. sys_read (\<lambda>_. 0) 3 20488 100 101 small_file = Done 100 t \<and> user_byte t 20488 = 9 \<and> user_byte t 20587 = 12 \<and>
     f_pos (file_table t 0) = 1100"
proof -
  have div: "(1000 + x) div 1024 = 0 \<or> (1000 + x) div 1024 = 1" if "x < 100" for x :: nat
    using that by (cases "x < 24") (simp_all add: div_nat_eqI)
  have z: "zone_ok small_file (inode_table small_file 5) ((1000 + x) div 1024)" if "x < 100" for x
    using div [OF that] by (auto simp: zone_ok_def on_image_def small_file_simps)
  have b: "file_byte small_file (inode_table small_file 5) 1000 = 9" "file_byte small_file (inode_table small_file 5) 1099 = 12"
    by (simp_all add: file_byte_def Let_def small_file_simps(5,6) small_file_contents)
  obtain t where "sys_read (\<lambda>_. 0) 3 (word_of_nat 20488) (word_of_nat 100) 101 small_file = Done (word_of_nat 100) t"
    "\<forall>x. 20480 \<le> x \<and> x < 24576 \<longrightarrow> user_byte t x =
       (if 20488 \<le> x \<and> x < 20488 + 100 then file_byte small_file (inode_table small_file 5) (1000 + (x - 20488)) else user_byte small_file x)"
    "file_table t = (file_table small_file)(0 := (file_table small_file 0)\<lparr>f_pos := word_of_nat (1000 + 100)\<rparr>)"
    using sys_read_file [OF small_file_settled small_file_simps(1,2) small_file_buffer, of 20488 100 101 100 "\<lambda>_. 0"] z
    by (auto simp: small_file_simps(3,4))
  then show ?thesis using b by (intro exI [of _ t]) simp
qed

end
