(* ===== verification/Inodes.thy ===== *)
theory Inodes
  imports Reading
begin

text \<open>
  Inodes on the disk: \<open>write_inode\<close> and \<open>read_inode\<close> of \<^verbatim>\<open>fs/inode.c\<close> store and load the inode with a given number
  through the buffer cache, in the block and slot that the super block says.
\<close>

section \<open>Changing a block in the cache\<close>

text \<open>A change of the data of a buffer that caches block \<open>k\<close>, marked dirty, is a change of the contents of that block only.\<close>

lemma dirty_settled:
  fixes f :: "block \<Rightarrow> block"
  assumes d: "settled d" "live d k i" "i < nr_buffers d" and spare: "v \<noteq> i" "v < nr_buffers d" "recyclable (buffers d v)"
  defines "t \<equiv> upd_buffer i (\<lambda>b. b\<lparr>b_data := f (b_data b), b_dirt := 1\<rparr>) d"
  shows "settled t" "contents t l j = (if l = k then f (b_data (buffers d i)) j else contents d l j)"
proof -
  have b: "buffers t = (buffers d)(i := (buffers d i)\<lparr>b_data := f (b_data (buffers d i)), b_dirt := 1\<rparr>)" "nr_buffers t = nr_buffers d"
    "rd_image t = rd_image d" "idle t = idle d" by (simp_all add: t_def upd_buffer_def idle_def)
  have live: "live t m x = live d m x" for m x by (simp add: live_def caches_def b)
  have ok: "cache_ok t L F = cache_ok d L F" for L F unfolding t_def by (rule cache_ok_upd) (simp add: same_place_def)
  have "coherent t" unfolding coherent_def live using d(1) b by (auto simp: settled_def coherent_def)
  moreover have "recyclable (buffers t v)" using spare by (simp add: b)
  ultimately show s: "settled t" using d(1) spare(2) unfolding settled_def ok b(2,4) by (auto simp: b(1))
  obtain L F where L: "cache_ok d L F" using d(1) by (auto simp: settled_def)
  show "contents t l j = (if l = k then f (b_data (buffers d i)) j else contents d l j)"
  proof (cases "l = k")
    case True
    then show ?thesis using contents_live [of t L F i k j] L ok live d(2,3) b by simp
  next
    case False
    have "List.find (live t l) [0..<nr_buffers t] = List.find (live d l) [0..<nr_buffers d]" unfolding b(2) by (rule find_cong) (simp_all add: live)
    moreover have "x \<noteq> i" if "List.find (live d l) [0..<nr_buffers d] = Some x" for x
      using that d(2) False by (auto simp: find_Some_iff live_def caches_def)
    ultimately show ?thesis using False by (auto simp: contents_def b split: option.split)
  qed
qed

section \<open>The place of an inode\<close>

text \<open>The block and the slot in it of the inode with number \<open>num\<close>: 32 inodes in a block, behind the bitmaps.\<close>

definition place_block :: "super_block \<Rightarrow> nat \<Rightarrow> u32" where
  "place_block sb num = word_of_nat (2 + unat (s_imap_blocks sb) + unat (s_zmap_blocks sb) + (num - 1) div 32)"

definition place_slot :: "nat \<Rightarrow> nat" where
  "place_slot num = (num - 1) mod 32"

lemma inode_place:
  assumes "i_num m \<noteq> 0"
  shows "inode_block sb m = place_block sb (unat (i_num m))" "inode_slot m = place_slot (unat (i_num m))"
proof -
  let ?n = "unat (i_num m)" let ?x = "ucast (i_num m) :: u32"
  have x: "unat ?x = ?n" using unsigned_less [where w = "i_num m" and 'a = nat] by (simp add: unsigned_ucast_eq take_bit_nat_eq_self_iff)
  have "0 < ?n" using assms by (simp add: unat_gt_0)
  then have u: "unat (?x - 1) = ?n - 1" using unat_sub [of 1 ?x] x by (simp add: word_le_nat_alt)
  have "(?x - 1) div 32 = word_of_nat (unat ((?x - 1) div 32))" by simp
  also have "unat ((?x - 1) div 32) = (?n - 1) div 32" by (simp add: unat_div_distrib u)
  finally have "(?x - 1) div 32 = word_of_nat ((?n - 1) div 32)" .
  then show "inode_block sb m = place_block sb ?n" unfolding inode_block_def place_block_def by simp
  show "inode_slot m = place_slot ?n" unfolding inode_slot_def place_slot_def unat_mod_distrib u by simp
qed

text \<open>
  The entry \<open>ino\<close> of the table is for an inode of the root device, whose super block is entry \<open>sb\<close>, nobody has locked or
  waits for either, and its block is on the disk.
\<close>

definition placed :: "kstate \<Rightarrow> nat \<Rightarrow> nat \<Rightarrow> bool" where
  "placed s sb ino \<longleftrightarrow> sb < NR_SUPER \<and> s_dev (super_blocks s sb) = 0x101 \<and> s_lock (super_blocks s sb) = 0 \<and>
     (\<forall>j. j < sb \<longrightarrow> s_dev (super_blocks s j) \<noteq> 0x101) \<and>
     (let m = inode_table s ino in i_dev m = 0x101 \<and> i_num m \<noteq> 0 \<and> i_lock m = 0 \<and> i_wait m = None \<and>
        1024 * (unat (place_block (super_blocks s sb) (unat (i_num m))) + 1) \<le> unat (rd_length s))"

lemma inode_fields [simp]:
  "super_blocks (upd_inode ino g s) = super_blocks s" "nr_buffers (upd_inode ino g s) = nr_buffers s"
  "rd_length (upd_inode ino g s) = rd_length s" "buffers (upd_inode ino g s) = buffers s"
  "inode_table (upd_inode ino g s) = (inode_table s)(ino := g (inode_table s ino))"
  "ram (upd_inode ino g s) = ram s" "file_table (upd_inode ino g s) = file_table s"
  by (simp_all add: upd_inode_def)

lemma placed_exec:
  assumes p: "placed s sb ino" and n: "0 < n" "sb < n"
  defines "s1 \<equiv> upd_inode ino (\<lambda>m. m\<lparr>i_lock := 1\<rparr>) s"
  shows "lock_inode ino n s = Done () s1" "get_super RD_DEV n s1 = Done (Some sb) s1" "idev ino n s1 = Done RD_DEV s1"
    "inode_block (super_blocks s1 sb) (inode_table s1 ino) = place_block (super_blocks s sb) (unat (i_num (inode_table s ino)))"
    "inode_slot (inode_table s1 ino) = place_slot (unat (i_num (inode_table s ino)))"
proof -
  note d = p [unfolded placed_def Let_def]
  show "lock_inode ino n s = Done () s1" using d n by (simp add: lock_inode_def kexec wait_while_exec s1_def)
  show "get_super RD_DEV n s1 = Done (Some sb) s1" using get_super_exec [of sb s1 "0x101" n] d n by (simp add: s1_def)
  show "idev ino n s1 = Done RD_DEV s1" using d by (simp add: idev_def kexec s1_def)
  show "inode_block (super_blocks s1 sb) (inode_table s1 ino) = place_block (super_blocks s sb) (unat (i_num (inode_table s ino)))"
    "inode_slot (inode_table s1 ino) = place_slot (unat (i_num (inode_table s ino)))"
    using inode_place [of "inode_table s1 ino"] d by (simp_all add: s1_def)
qed

lemma unlock_exec:
  "i_wait (inode_table s ino) = None \<Longrightarrow> unlock_inode ino n s = Done () (upd_inode ino (\<lambda>m. m\<lparr>i_lock := 0\<rparr>) s)"
  by (simp add: unlock_inode_def kexec wake_up_def wake_up_state_def)

section \<open>Loading and storing\<close>

lemma read_inode_exec:
  assumes s: "settled s" and p: "placed s sb ino" and fuel: "nr_buffers s < n" "sb < n"
  defines "num \<equiv> unat (i_num (inode_table s ino))"
  shows "\<exists>t. read_inode ino n s = Done () t \<and> settled t \<and> (\<forall>l. \<forall>j<1024. contents t l j = contents s l j) \<and>
     inode_table t = (inode_table s)(ino := set_disk_part
       (get_d_inode (contents s (place_block (super_blocks s sb) num)) (place_slot num)) (inode_table s ino))"
proof -
  let ?B = "place_block (super_blocks s sb) num" let ?m = "inode_table s ino"
  let ?s1 = "upd_inode ino (\<lambda>m. m\<lparr>i_lock := 1\<rparr>) s"
  have n: "0 < n" using fuel by simp
  note ex = placed_exec [OF p n fuel(2), folded num_def] and d = p [unfolded placed_def Let_def, folded num_def]
  have "settled ?s1" "1024 * (unat ?B + 1) \<le> unat (rd_length ?s1)" "nr_buffers ?s1 < n" using s d fuel by simp_all
  from bread_settled [OF this] obtain i t where t: "bread RD_DEV ?B n ?s1 = Done (Some i) (use_buffer i t)" "beside ?s1 t" "settled t"
      "i < nr_buffers t" "\<And>j. j < 1024 \<Longrightarrow> b_data (buffers t i) j = contents s ?B j" by auto
  note bf = beside_fields [OF t(2)]
  let ?g = "\<lambda>m. set_disk_part (get_d_inode (b_data (buffers (use_buffer i t) i)) (inode_slot m)) m"
  have comm: "upd_inode ino ?g (use_buffer i t) = use_buffer i (upd_inode ino ?g t)"
    by (simp add: use_buffer_def upd_buffer_def upd_inode_def)
  have "settled (upd_inode ino ?g t)" "i < nr_buffers (upd_inode ino ?g t)" using t(3,4) by simp_all
  from brelse_settled [OF this n] obtain u where u: "brelse (Some i) n (use_buffer i (upd_inode ino ?g t)) = Done () u"
      "beside (upd_inode ino ?g t) u" "settled u" by blast
  have ui: "inode_table u = (inode_table s)(ino := ?g (?m\<lparr>i_lock := 1\<rparr>))" using beside_fields(3) [OF u(2)] bf(3) by simp
  have wait: "i_wait (inode_table u ino) = None" using d by (simp add: ui set_disk_part_def)
  let ?v = "upd_inode ino (\<lambda>m. m\<lparr>i_lock := 0\<rparr>) u"
  have run: "read_inode ino n s = Done () ?v"
    unfolding read_inode_def
    apply (rule seq_Done, rule ex(1), rule bind_Done, rule ex(3), rule bind_Done, rule ex(2))
    apply (simp only: option.case, rule bind_Done, rule gets_exec, rule bind_Done, rule ex(3))
    apply (simp only: ex(4), rule bind_Done, rule t(1))
    apply (simp only: option.case, rule seq_Done, rule modify_exec, simp only: comm, rule seq_Done, rule u(1))
    by (rule unlock_exec [OF wait])
  have slot: "place_slot num < 32" by (simp add: place_slot_def)
  have "get_d_inode (b_data (buffers t i)) (place_slot num) = get_d_inode (contents s ?B) (place_slot num)"
    using t(5) slot by (intro get_d_inode_cong) simp
  moreover have "inode_slot (?m\<lparr>i_lock := 1\<rparr>) = place_slot num" using ex(5) by simp
  moreover have "set_disk_part w (q\<lparr>i_lock := 1\<rparr>)\<lparr>i_lock := 0\<rparr> = set_disk_part w q" if "i_lock q = 0" for w q
    using that by (cases q) (simp add: set_disk_part_def)
  ultimately have "inode_table ?v = (inode_table s)(ino := set_disk_part (get_d_inode (contents s ?B) (place_slot num)) ?m)"
    using d by (simp add: ui)
  moreover have "contents ?v l j = contents s l j" if "j < 1024" for l j
    using u(2) t(2) that by (simp add: beside_def)
  ultimately show ?thesis using run u(3) by (intro exI [of _ ?v]) simp
qed

lemma put_zones_at: "d j = e j \<Longrightarrow> put_zones a z is d j = put_zones a z is e j"
proof (induction "is" arbitrary: d e)
  case (Cons i "is")
  show ?case unfolding put_zones.simps by (rule Cons.IH) (use Cons.prems in \<open>simp add: put16_def\<close>)
qed simp

lemma put_d_inode_at: "d j = e j \<Longrightarrow> put_d_inode k v d j = put_d_inode k v e j"
  unfolding put_d_inode_def by (rule put_zones_at) (simp add: put32_def put16_def)

lemma write_inode_exec:
  assumes s: "settled s" and p: "placed s sb ino" and fuel: "nr_buffers s < n" "sb < n"
    and dirty: "i_dirt (inode_table s ino) \<noteq> 0"
    and spare: "v \<noteq> w" "v < nr_buffers s" "w < nr_buffers s" "recyclable (buffers s v)" "recyclable (buffers s w)"
  defines "num \<equiv> unat (i_num (inode_table s ino))"
  defines "B \<equiv> place_block (super_blocks s sb) num"
  shows "\<exists>t. write_inode ino n s = Done () t \<and> settled t \<and>
     (\<forall>l. \<forall>j<1024. contents t l j = (if l = B then put_d_inode (place_slot num) (disk_part (inode_table s ino)) (contents s B) j else contents s l j)) \<and>
     inode_table t = (inode_table s)(ino := (inode_table s ino)\<lparr>i_dirt := 0\<rparr>) \<and>
     super_blocks t = super_blocks s \<and> rd_length t = rd_length s \<and> nr_buffers t = nr_buffers s \<and> ram t = ram s \<and> file_table t = file_table s"
proof -
  let ?m = "inode_table s ino" let ?k = "place_slot num"
  let ?s1 = "upd_inode ino (\<lambda>m. m\<lparr>i_lock := 1\<rparr>) s"
  have n: "0 < n" using fuel by simp
  note ex = placed_exec [OF p n fuel(2), folded num_def B_def] and d = p [unfolded placed_def Let_def, folded num_def B_def]
  have "settled ?s1" "1024 * (unat B + 1) \<le> unat (rd_length ?s1)" "nr_buffers ?s1 < n" using s d fuel by (simp_all add: B_def)
  from bread_settled [OF this] obtain i t where t: "bread RD_DEV B n ?s1 = Done (Some i) (use_buffer i t)" "beside ?s1 t" "settled t"
      "i < nr_buffers t" "\<And>j. j < 1024 \<Longrightarrow> b_data (buffers t i) j = contents s B j" "live t B i"
      "\<And>x. recyclable (buffers s x) \<Longrightarrow> recyclable (buffers t x)" by auto
  note bf = beside_fields [OF t(2)]
  obtain x where x: "x \<noteq> i" "x < nr_buffers t" "recyclable (buffers t x)" 
  proof (cases "v = i")
    case True
    then show ?thesis using that [of w] spare(1,3) t(7) [OF spare(5)] bf(7) by simp
  next
    case False
    then show ?thesis using that [of v] spare(2) t(7) [OF spare(4)] bf(7) by simp
  qed
  let ?f = "put_d_inode ?k (disk_part (?m\<lparr>i_lock := 1\<rparr>))"
  let ?t1 = "upd_buffer i (\<lambda>b. b\<lparr>b_data := ?f (b_data b), b_dirt := 1\<rparr>) t"
  note ds = dirty_settled [OF t(3,6,4) x, of ?f]
  have ti: "inode_table (use_buffer i t) ino = ?m\<lparr>i_lock := 1\<rparr>" using bf(3) by (simp add: use_buffer_def upd_buffer_def)
  have slot: "inode_slot (?m\<lparr>i_lock := 1\<rparr>) = ?k" using ex(5) by simp
  have swap: "b\<lparr>b_count := c, b_data := e, b_dirt := q\<rparr> = b\<lparr>b_data := e, b_dirt := q, b_count := c\<rparr>" for b :: buffer_head and c e q by simp
  have step: "upd_buffer i (\<lambda>b. b\<lparr>b_dirt := 1\<rparr>) (upd_buffer i (\<lambda>b. b\<lparr>b_data :=
        put_d_inode (inode_slot (inode_table (use_buffer i t) ino)) (disk_part (inode_table (use_buffer i t) ino)) (b_data b)\<rparr>) (use_buffer i t))
      = use_buffer i ?t1"
    unfolding ti slot by (simp add: use_buffer_def upd_buffer_def swap)
  let ?t2 = "upd_inode ino (\<lambda>m. m\<lparr>i_dirt := 0\<rparr>) ?t1"
  have comm: "upd_inode ino (\<lambda>m. m\<lparr>i_dirt := 0\<rparr>) (use_buffer i ?t1) = use_buffer i ?t2"
    by (simp add: use_buffer_def upd_buffer_def upd_inode_def)
  have "settled ?t2" "i < nr_buffers ?t2" using ds(1) t(4) by (simp_all add: upd_buffer_def)
  from brelse_settled [OF this n] obtain u where u: "brelse (Some i) n (use_buffer i ?t2) = Done () u" "beside ?t2 u" "settled u" by blast
  note uf = beside_fields [OF u(2)]
  have ui: "inode_table u = (inode_table s)(ino := ?m\<lparr>i_lock := 1, i_dirt := 0\<rparr>)" using uf(3) bf(3) by (simp add: upd_buffer_def)
  have wait: "i_wait (inode_table u ino) = None" using d by (simp add: ui)
  let ?v = "upd_inode ino (\<lambda>m. m\<lparr>i_lock := 0\<rparr>) u"
  have dirt: "(i_dirt (inode_table ?s1 ino) = 0 \<or> i_dev (inode_table ?s1 ino) = 0) = False" and dev: "ucast (i_dev (inode_table ?s1 ino)) = RD_DEV"
    using d dirty by simp_all
  have run: "write_inode ino n s = Done () ?v"
    unfolding write_inode_def write_inode_with_def bread_def [symmetric]
    apply (rule seq_Done, rule ex(1), rule bind_Done, rule gets_exec)
    apply (simp only: dirt if_False dev, rule bind_Done, rule ex(2))
    apply (simp only: option.case, rule bind_Done, rule gets_exec, rule bind_Done, rule gets_exec)
    apply (simp only: ex(4) dev, rule bind_Done, rule t(1))
    apply (simp only: option.case, rule seq_Done, rule modify_exec, rule seq_Done, rule modify_exec)
    apply (simp only: step, rule seq_Done, rule modify_exec, simp only: comm, rule seq_Done, rule u(1))
    by (rule unlock_exec [OF wait])
  have "?m\<lparr>i_dirt := 0, i_lock := 0\<rparr> = ?m\<lparr>i_dirt := 0\<rparr>" using d by (cases ?m) simp
  then have "inode_table ?v = (inode_table s)(ino := ?m\<lparr>i_dirt := 0\<rparr>)" by (simp add: ui)
  moreover have "contents ?v l j = (if l = B then put_d_inode ?k (disk_part ?m) (contents s B) j else contents s l j)" if j: "j < 1024" for l j
  proof -
    have "contents ?v l j = (if l = B then ?f (b_data (buffers t i)) j else contents t l j)"
      using u(2) ds(2) [of l j] j by (simp add: beside_def)
    moreover have "?f (b_data (buffers t i)) j = put_d_inode ?k (disk_part ?m) (contents s B) j"
      using put_d_inode_at [of "b_data (buffers t i)" j "contents s B" ?k "disk_part ?m"] t(5) [OF j] by (simp add: disk_part_def cong: if_cong)
    moreover have "contents t l j = contents s l j" using t(2) j by (simp add: beside_def)
    ultimately show ?thesis by simp
  qed
  moreover have "super_blocks ?v = super_blocks s" "rd_length ?v = rd_length s" "nr_buffers ?v = nr_buffers s" "ram ?v = ram s" "file_table ?v = file_table s"
    using uf bf by (simp_all add: upd_buffer_def)
  ultimately show ?thesis using run u(3) by (intro exI [of _ ?v]) simp
qed

text \<open>
  C4: \<open>write_inode\<close> of a changed inode stores it in its place on the disk, as the cache shows it: in the slot
  \<open>(num - 1) mod 32\<close> of the block \<open>(num - 1) div 32\<close> behind the bitmaps; every other inode and every other block keeps
  its contents, the cache still agrees with the disk wherever it is not marked dirty, and the inode is marked clean.
  From any later state in which this block has these contents, \<open>read_inode\<close> into any entry of the inode table brings
  back all fields that are on the disk, and changes no other entry.
\<close>

theorem inode_write_read:
  assumes s: "settled s" and p: "placed s sb ino" and fuel: "nr_buffers s < n" "sb < n"
    and dirty: "i_dirt (inode_table s ino) \<noteq> 0"
    and spare: "v \<noteq> w" "v < nr_buffers s" "w < nr_buffers s" "recyclable (buffers s v)" "recyclable (buffers s w)"
  shows "\<exists>t. write_inode ino n s = Done () t \<and> settled t \<and>
     (let m = inode_table s ino; num = unat (i_num m); B = place_block (super_blocks s sb) num in
      (\<forall>l k. k < 32 \<longrightarrow> get_d_inode (contents t l) k =
         (if l = B \<and> k = place_slot num then disk_part m else get_d_inode (contents s l) k)) \<and>
      (\<forall>l j. l \<noteq> B \<and> j < 1024 \<longrightarrow> contents t l j = contents s l j) \<and>
      inode_table t = (inode_table s)(ino := m\<lparr>i_dirt := 0\<rparr>) \<and>
      super_blocks t = super_blocks s \<and> rd_length t = rd_length s \<and> nr_buffers t = nr_buffers s \<and> ram t = ram s \<and> file_table t = file_table s \<and>
      (\<forall>u ino'. settled u \<and> placed u sb ino' \<and> super_blocks u = super_blocks s \<and> nr_buffers u < n \<and>
         i_num (inode_table u ino') = i_num m \<and> (\<forall>j<1024. contents u B j = contents t B j) \<longrightarrow>
         (\<exists>x. read_inode ino' n u = Done () x \<and> settled x \<and> (\<forall>l. \<forall>j<1024. contents x l j = contents u l j) \<and>
            inode_table x = (inode_table u)(ino' := set_disk_part (disk_part m) (inode_table u ino')))))"
proof -
  define m where "m = inode_table s ino"
  define num where "num = unat (i_num m)"
  define B where "B = place_block (super_blocks s sb) num"
  obtain t where t: "write_inode ino n s = Done () t" "settled t"
     "\<And>l j. j < 1024 \<Longrightarrow> contents t l j = (if l = B then put_d_inode (place_slot num) (disk_part m) (contents s B) j else contents s l j)"
     "inode_table t = (inode_table s)(ino := m\<lparr>i_dirt := 0\<rparr>)"
     "super_blocks t = super_blocks s" "rd_length t = rd_length s" "nr_buffers t = nr_buffers s" "ram t = ram s" "file_table t = file_table s"
    using write_inode_exec [OF s p fuel dirty spare, folded m_def, folded num_def, folded B_def] by blast
  have put: "get_d_inode (put_d_inode a (disk_part m) d) k = (if k = a then disk_part m else get_d_inode d k)" for a k d
    using d_inode_slots [of a m d k] by simp
  have slots: "get_d_inode (contents t l) k = (if l = B \<and> k = place_slot num then disk_part m else get_d_inode (contents s l) k)"
    if k: "k < 32" for l k
  proof -
    have "get_d_inode (contents t l) k = get_d_inode (if l = B then put_d_inode (place_slot num) (disk_part m) (contents s B) else contents s l) k"
      using k by (intro get_d_inode_cong) (simp add: t(3))
    then show ?thesis by (simp add: put)
  qed
  have "\<exists>x. read_inode ino' n u = Done () x \<and> settled x \<and> (\<forall>l. \<forall>j<1024. contents x l j = contents u l j) \<and>
      inode_table x = (inode_table u)(ino' := set_disk_part (disk_part m) (inode_table u ino'))"
    if u: "settled u" "placed u sb ino'" "super_blocks u = super_blocks s" "nr_buffers u < n"
      "i_num (inode_table u ino') = i_num m" "\<forall>j<1024. contents u B j = contents t B j" for u ino'
  proof -
    have k: "place_slot num < 32" by (simp add: place_slot_def)
    have "get_d_inode (contents u B) (place_slot num) = get_d_inode (contents t B) (place_slot num)"
      using u(6) k by (intro get_d_inode_cong) simp
    also have "\<dots> = disk_part m" using slots [OF k, of B] by simp
    finally show ?thesis using read_inode_exec [OF u(1,2,4) fuel(2)] unfolding u(3,5) num_def [symmetric] B_def [symmetric] by simp
  qed
  then show ?thesis using t slots unfolding Let_def m_def [symmetric] num_def [symmetric] B_def [symmetric]
    by (intro exI [of _ t]) (simp del: fun_upd_apply)
qed

subsection \<open>A small device\<close>

text \<open>Inode 40 is changed in entry 5 of the table; it is written, and read again into entry 6.\<close>

definition small_inodes :: kstate where
  "small_inodes = small_cache\<lparr>super_blocks := (\<lambda>_. zero_super)(0 := zero_super\<lparr>s_dev := 0x101, s_imap_blocks := 1, s_zmap_blocks := 1\<rparr>),
     inode_table := (\<lambda>_. zero_inode)(5 := zero_inode\<lparr>i_dev := 0x101, i_num := 40, i_size := 77, i_dirt := 1\<rparr>)\<rparr>"

lemma small_inodes_settled: "settled small_inodes" "nr_buffers small_inodes = 3" "recyclable (buffers small_inodes i)"
proof -
  have "cache_ok small_inodes L F = cache_ok small_cache L F" for L F by (rule cache_ok_cong) (simp_all add: small_inodes_def same_place_def)
  moreover have "idle small_inodes = idle small_cache" by (simp add: small_inodes_def idle_def)
  moreover have "coherent small_inodes" by (simp add: coherent_def live_def small_inodes_def small_cache_simps init_head_def)
  moreover show nr: "nr_buffers small_inodes = 3" and r: "recyclable (buffers small_inodes i)"
    using small_cache_free(2) by (simp_all add: small_inodes_def small_cache_simps)
  moreover have "buffers small_inodes = buffers small_cache" by (simp add: small_inodes_def)
  moreover have "b_lock (buffers small_cache i) = 0 \<and> b_count (buffers small_cache i) < 255" for i
    by (simp add: small_cache_simps init_head_def zero_buffer_def)
  ultimately show "settled small_inodes" using small_cache_ok small_cache_free(2) unfolding settled_def
    by (metis (no_types, lifting) numeral_2_eq_2 numeral_3_eq_3 order_refl le_SucI zero_less_Suc)
qed

lemma small_place: "place_block (super_blocks small_inodes 0) 40 = 5" "place_slot 40 = 7"
  by (simp_all add: place_block_def place_slot_def small_inodes_def)

lemma small_placed: "placed small_inodes 0 5"
  using small_place(1) by (simp add: placed_def Let_def) (simp add: small_inodes_def zero_super_def zero_inode_def small_cache_simps)

theorem inode_write_read_witness:
  "\<exists>t x. write_inode 5 4 small_inodes = Done () t \<and> d_size (get_d_inode (contents t 5) 7) = 77 \<and>
     read_inode 6 4 (upd_inode 6 (\<lambda>_. zero_inode\<lparr>i_dev := 0x101, i_num := 40\<rparr>) t) = Done () x \<and> i_size (inode_table x 6) = 77"
proof -
  have num: "unat (i_num (inode_table small_inodes 5)) = 40" "i_size (inode_table small_inodes 5) = 77" "i_dirt (inode_table small_inodes 5) \<noteq> 0"
    by (simp_all add: small_inodes_def zero_inode_def)
  obtain t where t: "write_inode 5 4 small_inodes = Done () t" "settled t" "super_blocks t = super_blocks small_inodes"
      "rd_length t = rd_length small_inodes" "nr_buffers t = 3"
      "\<forall>l k. k < 32 \<longrightarrow> get_d_inode (contents t l) k = (if l = 5 \<and> k = 7 then disk_part (inode_table small_inodes 5) else get_d_inode (contents small_inodes l) k)"
      "\<forall>u ino'. settled u \<and> placed u 0 ino' \<and> super_blocks u = super_blocks small_inodes \<and> nr_buffers u < 4 \<and>
         i_num (inode_table u ino') = i_num (inode_table small_inodes 5) \<and> (\<forall>j<1024. contents u 5 j = contents t 5 j) \<longrightarrow>
         (\<exists>x. read_inode ino' 4 u = Done () x \<and> settled x \<and> (\<forall>l. \<forall>j<1024. contents x l j = contents u l j) \<and>
            inode_table x = (inode_table u)(ino' := set_disk_part (disk_part (inode_table small_inodes 5)) (inode_table u ino')))"
    using inode_write_read [OF small_inodes_settled(1) small_placed, of 4 0 1] num(3) small_inodes_settled(2,3)
    unfolding Let_def num(1) small_place by auto
  let ?u = "upd_inode 6 (\<lambda>_. zero_inode\<lparr>i_dev := 0x101, i_num := 40\<rparr>) t"
  have "placed ?u 0 6" using small_placed t(3,4) num(1) by (simp add: placed_def Let_def zero_inode_def)
  moreover have "settled ?u" "super_blocks ?u = super_blocks small_inodes" "nr_buffers ?u < 4" using t by simp_all
  moreover have "i_num (inode_table ?u 6) = i_num (inode_table small_inodes 5)" by (simp add: small_inodes_def)
  ultimately obtain x where x: "read_inode 6 4 ?u = Done () x"
      "inode_table x = (inode_table ?u)(6 := set_disk_part (disk_part (inode_table small_inodes 5)) (inode_table ?u 6))"
    using t(7) [rule_format, of ?u 6] by auto
  have "i_size (inode_table x 6) = 77" using num(2) by (simp add: x(2) set_disk_part_def disk_part_def)
  moreover have "d_size (get_d_inode (contents t 5) 7) = 77" using t(6) num(2) by (simp add: disk_part_def)
  ultimately show ?thesis using t(1) x(1) by blast
qed

end
