(* ===== verification/Fifo.thy ===== *)
theory Fifo
  imports Prelude
begin

text \<open>
  The contract of a bounded queue, and what every client of one may rely on: whatever the
  interleaving of insertions and removals, elements leave in the order in which they came.
\<close>

locale fifo =
  fixes inv :: "'q \<Rightarrow> bool"
    and items :: "'q \<Rightarrow> 'a list"
    and put :: "'a \<Rightarrow> 'q \<Rightarrow> 'q"
    and get :: "'q \<Rightarrow> 'a \<times> 'q"
    and is_empty :: "'q \<Rightarrow> bool"
    and is_full :: "'q \<Rightarrow> bool"
    and capacity :: nat
  assumes empty_iff: "inv q \<Longrightarrow> is_empty q \<longleftrightarrow> items q = []"
    and full_iff: "inv q \<Longrightarrow> is_full q \<longleftrightarrow> length (items q) = capacity"
    and bounded: "inv q \<Longrightarrow> length (items q) \<le> capacity"
    and inv_put: "inv q \<Longrightarrow> inv (put x q)"
    and inv_get: "inv q \<Longrightarrow> inv (snd (get q))"
    and items_put: "inv q \<Longrightarrow> length (items q) < capacity \<Longrightarrow> items (put x q) = items q @ [x]"
    and items_get: "inv q \<Longrightarrow> items q \<noteq> [] \<Longrightarrow> items q = fst (get q) # items (snd (get q))"
begin

text \<open>
  A run of guarded operations: \<open>Some x\<close> inserts \<open>x\<close> unless the queue is full, \<open>None\<close> removes an
  element unless it is empty. The result is the queue, the elements accepted and the elements
  delivered.
\<close>

fun run :: "'a option list \<Rightarrow> 'q \<Rightarrow> 'q \<times> 'a list \<times> 'a list" where
  "run [] q = (q, [], [])"
| "run (Some x # ops) q =
     (if is_full q then run ops q
      else case run ops (put x q) of (r, ins, outs) \<Rightarrow> (r, x # ins, outs))"
| "run (None # ops) q =
     (if is_empty q then run ops q
      else case run ops (snd (get q)) of (r, ins, outs) \<Rightarrow> (r, ins, fst (get q) # outs))"

lemma run_fifo: "inv q \<Longrightarrow> run ops q = (r, ins, outs) \<Longrightarrow> inv r \<and> items q @ ins = outs @ items r"
proof (induction ops q arbitrary: r ins outs rule: run.induct)
  case (1 q)
  then show ?case by simp
next
  case (2 x ops q)
  show ?case
  proof (cases "is_full q")
    case True
    with 2 show ?thesis by simp
  next
    case False
    then have "length (items q) < capacity" using full_iff bounded "2.prems"(1) by (simp add: le_neq_implies_less)
    then have "items (put x q) = items q @ [x]" using items_put "2.prems"(1) by simp
    with False "2.prems" "2.IH"(2) [OF False inv_put] show ?thesis by (auto split: prod.splits)
  qed
next
  case (3 ops q)
  show ?case
  proof (cases "is_empty q")
    case True
    with 3 show ?thesis by simp
  next
    case False
    then have "items q = fst (get q) # items (snd (get q))" using items_get empty_iff "3.prems"(1) by simp
    with False "3.prems" "3.IH"(2) [OF False inv_get] show ?thesis by (auto split: prod.splits)
  qed
qed

lemma items_puts:
  "inv q \<Longrightarrow> length (items q) + length xs \<le> capacity \<Longrightarrow> inv (fold put xs q) \<and> items (fold put xs q) = items q @ xs"
proof (induction xs arbitrary: q)
  case (Cons x xs)
  have "items (put x q) = items q @ [x]" using items_put Cons.prems by simp
  then show ?case using Cons.IH [OF inv_put [OF Cons.prems(1)], of x] Cons.prems by simp
qed simp

end

end
