(* ===== verification/Tty_Line.thy ===== *)
theory Tty_Line
  imports Tty Fifo
begin

text \<open>
  The terminal queues are bounded queues, and the line discipline is a line editor: what
  \<open>copy_to_cooked\<close> leaves for the readers is what a reference editor on lists makes of the
  characters typed.
\<close>

section \<open>Terminal queues\<close>

definition queue_ok :: "tty_queue \<Rightarrow> bool" where
  "queue_ok q \<longleftrightarrow> unat (q_head q) < TTY_BUF_SIZE \<and> unat (q_tail q) < TTY_BUF_SIZE"

text \<open>The characters in a queue, oldest first.\<close>

definition queue_len :: "tty_queue \<Rightarrow> nat" where
  "queue_len q = (unat (q_head q) + TTY_BUF_SIZE - unat (q_tail q)) mod TTY_BUF_SIZE"

definition chars :: "tty_queue \<Rightarrow> u8 list" where
  "chars q = map (\<lambda>i. q_buf q ((unat (q_tail q) + i) mod TTY_BUF_SIZE)) [0..<queue_len q]"

lemma mask_1023: "unat (x AND 1023 :: u32) = unat x mod 1024"
proof -
  have "x AND 1023 = take_bit 10 x" by (simp only: take_bit_eq_mask mask_eq_exp_minus_1) simp
  moreover have "unat (take_bit 10 x) = unat x mod 1024"
    unfolding unsigned_take_bit_eq by (simp add: take_bit_eq_mod)
  ultimately show ?thesis by metis
qed

lemma wrap: "a < 1024 \<Longrightarrow> b < 1024 \<Longrightarrow> (a + b) mod 1024 = (if a + b < 1024 then a + b else a + b - 1024)" for a b :: nat
  by (simp add: mod_if)

lemma unat_INC: "unat a < 1024 \<Longrightarrow> unat (INC a) = (if unat a = 1023 then 0 else unat a + 1)"
  by (simp add: INC_def mask_1023 unat_word_ariths)

lemma unat_diff_mod:
  fixes a b :: u32
  assumes "unat a < 1024" "unat b \<le> 1024"
  shows "unat (a - b) mod 1024 = (unat a + 1024 - unat b) mod 1024"
proof (cases "unat b \<le> unat a")
  case True
  then have "unat (a - b) = unat a - unat b" by (simp add: unat_sub_if')
  moreover have "unat a + 1024 - unat b = (unat a - unat b) + 1024" using True by simp
  ultimately show ?thesis by (metis mod_add_self2)
next
  case False
  then have "unat (a - b) = unat a + 1024 - unat b + 1024 * 4194303" using assms by (simp add: unat_sub_if')
  then show ?thesis by (metis mod_mult_self2)
qed

lemma queue_len_if:
  "queue_ok q \<Longrightarrow> queue_len q = (if unat (q_tail q) \<le> unat (q_head q) then unat (q_head q) - unat (q_tail q)
     else unat (q_head q) + 1024 - unat (q_tail q))"
  by (auto simp: queue_ok_def queue_len_def mod_if)

lemma EMPTY_iff: "queue_ok q \<Longrightarrow> EMPTY q \<longleftrightarrow> queue_len q = 0"
  using queue_len_if [of q] by (auto simp: queue_ok_def EMPTY_def word_unat_eq_iff split: if_splits)

lemma LEFT_len: "queue_ok q \<Longrightarrow> unat (LEFT q) = 1023 - queue_len q"
proof -
  assume ok: "queue_ok q"
  have h: "unat (q_head q + 1) = unat (q_head q) + 1" using ok by (simp add: queue_ok_def unat_word_ariths)
  have "unat (LEFT q) = unat (q_tail q - (q_head q + 1)) mod 1024"
    by (simp add: LEFT_def mask_1023 diff_diff_eq)
  also have "\<dots> = (unat (q_tail q) + 1024 - (unat (q_head q) + 1)) mod 1024"
    using ok unat_diff_mod [of "q_tail q" "q_head q + 1"] by (simp add: queue_ok_def h)
  finally show ?thesis using ok queue_len_if [OF ok] by (auto simp: queue_ok_def mod_if split: if_splits)
qed

lemma queue_len_less: "queue_len q < 1024"
  by (simp add: queue_len_def)

lemma length_chars [simp]: "length (chars q) = queue_len q"
  by (simp add: chars_def)

lemma PUTCH_ok: "queue_ok q \<Longrightarrow> queue_ok (PUTCH c q)"
  by (simp add: queue_ok_def PUTCH_def unat_INC)

lemma GETCH_ok: "queue_ok q \<Longrightarrow> queue_ok (snd (GETCH q))"
  by (simp add: queue_ok_def GETCH_def unat_INC)

lemma chars_PUTCH:
  assumes ok: "queue_ok q" and room: "queue_len q < 1023"
  shows "chars (PUTCH c q) = chars q @ [c]"
proof -
  let ?h = "unat (q_head q)" and ?t = "unat (q_tail q)"
  have lt: "?h < 1024" "?t < 1024" using ok by (simp_all add: queue_ok_def)
  have len: "queue_len (PUTCH c q) = Suc (queue_len q)"
    using lt room queue_len_if [OF ok] queue_len_if [OF PUTCH_ok [OF ok], of c]
    by (auto simp: PUTCH_def unat_INC split: if_splits)
  have pos: "(?t + queue_len q) mod 1024 = ?h"
    using lt wrap [OF lt(2) queue_len_less, of q] queue_len_if [OF ok] by (auto split: if_splits)
  have old: "(?t + i) mod 1024 \<noteq> ?h" if "i < queue_len q" for i
    using lt that wrap [OF lt(2), of i] queue_len_less [of q] queue_len_if [OF ok] by (auto split: if_splits)
  show ?thesis unfolding chars_def len using pos old by (simp add: PUTCH_def)
qed

lemma chars_GETCH:
  assumes ok: "queue_ok q" and ne: "queue_len q \<noteq> 0"
  shows "chars q = fst (GETCH q) # chars (snd (GETCH q))"
proof -
  let ?h = "unat (q_head q)" and ?t = "unat (q_tail q)"
  have lt: "?h < 1024" "?t < 1024" using ok by (simp_all add: queue_ok_def)
  have len: "queue_len q = Suc (queue_len (snd (GETCH q)))"
    using lt ne queue_len_if [OF ok] queue_len_if [OF GETCH_ok [OF ok]]
    by (auto simp: GETCH_def unat_INC split: if_splits)
  have tail: "unat (q_tail (snd (GETCH q))) = (?t + 1) mod 1024" using lt by (simp add: GETCH_def unat_INC)
  have "[0..<Suc m] = 0 # map Suc [0..<m]" for m by (simp add: map_Suc_upt upt_conv_Cons)
  then show ?thesis unfolding chars_def len using lt
    by (simp add: tail mod_add_left_eq comp_def del: upt_Suc) (simp add: GETCH_def)
qed

interpretation tty: fifo queue_ok chars PUTCH GETCH EMPTY FULL 1023
proof
  fix q c
  assume ok: "queue_ok q"
  show "EMPTY q \<longleftrightarrow> chars q = []" using EMPTY_iff [OF ok] by (metis length_0_conv length_chars)
  show "FULL q \<longleftrightarrow> length (chars q) = 1023"
    using LEFT_len [OF ok] queue_len_less [of q] by (auto simp: FULL_def unat_eq_zero)
  show "length (chars q) \<le> 1023" using queue_len_less [of q] by simp
  show "queue_ok (PUTCH c q)" "queue_ok (snd (GETCH q))" using ok PUTCH_ok GETCH_ok by simp_all
  show "length (chars q) < 1023 \<Longrightarrow> chars (PUTCH c q) = chars q @ [c]" using chars_PUTCH [OF ok] by simp
  show "chars q \<noteq> [] \<Longrightarrow> chars q = fst (GETCH q) # chars (snd (GETCH q))"
    using chars_GETCH [OF ok] by (metis length_0_conv length_chars)
qed

text \<open>
  C32: A terminal queue is first in, first out over any interleaving of guarded insertions and
  removals, through every wrap-around of its 1024-byte ring: the characters delivered followed
  by those still queued are the characters queued at first followed by those accepted.
\<close>

theorem tty_queue_fifo:
  assumes "queue_ok q" "tty.run ops q = (r, ins, outs)"
  shows "queue_ok r \<and> chars q @ ins = outs @ chars r"
  using assms by (rule tty.run_fifo)

theorem tty_queue_fifo_witness:
  "let q = zero_queue\<lparr>q_head := 1023, q_tail := 1023\<rparr>; (r, ins, outs) = tty.run [None, Some 65, Some 66, None] q
   in queue_ok r \<and> chars q @ ins = outs @ chars r"
proof -
  obtain r ins outs where run: "tty.run [None, Some 65, Some 66, None] (zero_queue\<lparr>q_head := 1023, q_tail := 1023\<rparr>) = (r, ins, outs)"
    using prod_cases3 by blast
  have "queue_ok (zero_queue\<lparr>q_head := 1023, q_tail := 1023\<rparr>)" by (simp add: queue_ok_def)
  from tty_queue_fifo [OF this run] show ?thesis by (simp only: run Let_def prod.case)
qed

section \<open>The console empties the write queue\<close>

text \<open>
  \<open>same_input y y'\<close>: the settings, the input queue and the cooked queue of a terminal are the
  same; the write queue and its sleeper may differ.
\<close>

definition same_input :: "tty_struct \<Rightarrow> tty_struct \<Rightarrow> bool" where
  "same_input y y' \<longleftrightarrow> termios y' = termios y \<and> read_q y' = read_q y \<and> secondary y' = secondary y"

lemma con_write_step_exec:
  "con_write_step t u n s = (let q = write_q (tty_table s t) in
     if EMPTY q then Done (Inr ()) s
     else Done (Inl ()) (uart_putc (fst (GETCH q)) (upd_tty t (\<lambda>y. y\<lparr>write_q := snd (GETCH q)\<rparr>) s)))"
  by (simp add: con_write_step_def kexec Let_def split: prod.split)

lemma con_write_loop:
  assumes "queue_ok (write_q (tty_table s t))" "queue_len (write_q (tty_table s t)) < k"
  shows "returns (loop_fuel k (con_write_step t) () n s) (\<lambda>_ s'. same_input (tty_table s t) (tty_table s' t) \<and>
     queue_ok (write_q (tty_table s' t)) \<and> chars (write_q (tty_table s' t)) = [])"
  using assms
proof (induction k arbitrary: s)
  case (Suc k)
  let ?q = "write_q (tty_table s t)"
  show ?case
  proof (cases "EMPTY ?q")
    case True
    then have "chars ?q = []" using tty.empty_iff Suc.prems(1) by blast
    with True show ?thesis using Suc.prems(1) by (simp add: con_write_step_exec [of t "()" n s] Let_def kexec same_input_def)
  next
    case False
    let ?s = "uart_putc (fst (GETCH ?q)) (upd_tty t (\<lambda>y. y\<lparr>write_q := snd (GETCH ?q)\<rparr>) s)"
    have y: "tty_table ?s t = (tty_table s t)\<lparr>write_q := snd (GETCH ?q)\<rparr>"
      by (simp add: uart_putc_def outb_def upd_tty_def)
    have "chars ?q = fst (GETCH ?q) # chars (snd (GETCH ?q))"
      using tty.items_get [OF Suc.prems(1)] tty.empty_iff [OF Suc.prems(1)] False by blast
    from arg_cong [OF this, of length] have len: "queue_len (snd (GETCH ?q)) < k" using Suc.prems(2) by simp
    have "returns (loop_fuel k (con_write_step t) () n ?s) (\<lambda>_ s'. same_input (tty_table ?s t) (tty_table s' t) \<and>
       queue_ok (write_q (tty_table s' t)) \<and> chars (write_q (tty_table s' t)) = [])"
      by (rule Suc.IH) (use Suc.prems(1) tty.inv_get len in \<open>simp_all add: y\<close>)
    then show ?thesis using False
      by (simp add: con_write_step_exec [of t "()" n s] Let_def kexec y same_input_def)
  qed
qed simp

lemma wake_up_tty:
  "same_input (tty_table s t) (tty_table (wake_up_state (Tty_write t) s) t) \<and>
   queue_ok (write_q (tty_table (wake_up_state (Tty_write t) s) t)) = queue_ok (write_q (tty_table s t)) \<and>
   chars (write_q (tty_table (wake_up_state (Tty_write t) s) t)) = chars (write_q (tty_table s t))"
  by (simp add: wake_up_state_def set_state_def upd_tty_def upd_task_def same_input_def queue_ok_def chars_def queue_len_def
      split: option.split)

lemma con_write_returns:
  assumes "queue_ok (write_q (tty_table s t))" "queue_len (write_q (tty_table s t)) < n"
  shows "returns (con_write t n s) (\<lambda>_ s'. same_input (tty_table s t) (tty_table s' t) \<and>
     queue_ok (write_q (tty_table s' t)) \<and> chars (write_q (tty_table s' t)) = [])"
proof -
  obtain u where u: "loop_fuel n (con_write_step t) () n s = Done () u" "same_input (tty_table s t) (tty_table u t)"
    "queue_ok (write_q (tty_table u t))" "chars (write_q (tty_table u t)) = []"
    using con_write_loop [OF assms] by (auto simp: returns_def)
  then have "con_write t n s = Done () (wake_up_state (Tty_write t) u)"
    by (simp add: con_write_def loop_def wake_up_def kexec)
  moreover have "same_input (tty_table s t) (tty_table (wake_up_state (Tty_write t) u) t)"
    using wake_up_tty [of u t] u(2) by (simp add: same_input_def)
  ultimately show ?thesis using u(3,4) wake_up_tty [of u t] by simp
qed

section \<open>The reference editor\<close>

text \<open>
  A line editor on the list of characters cooked so far: \<open>ends\<close> are the characters that end a
  line and cannot be erased any more.
\<close>

definition ends :: "tty_struct \<Rightarrow> u8 \<Rightarrow> bool" where
  "ends y c \<longleftrightarrow> c = 10 \<or> is_cc y VEOF c"

definition kill_line :: "tty_struct \<Rightarrow> u8 list \<Rightarrow> u8 list" where
  "kill_line y xs = rev (dropWhile (\<lambda>c. \<not> ends y c) (rev xs))"

definition rub_out :: "tty_struct \<Rightarrow> u8 list \<Rightarrow> u8 list" where
  "rub_out y xs = (if xs = [] \<or> ends y (last xs) then xs else butlast xs)"

definition edit :: "tty_struct \<Rightarrow> u8 \<Rightarrow> u8 list \<Rightarrow> u8 list" where
  "edit y c xs =
     (if L_FLAG y ICANON \<and> is_cc y VKILL c then kill_line y xs
      else if L_FLAG y ICANON \<and> (is_cc y VERASE c \<or> c = 8) then rub_out y xs
      else if L_FLAG y ICANON \<and> (is_cc y VSTOP c \<or> is_cc y VSTART c) then xs
      else if L_FLAG y ISIG \<and> (is_cc y VINTR c \<or> is_cc y VQUIT c) then xs
      else xs @ [c])"

definition edit_raw :: "tty_struct \<Rightarrow> u8 \<Rightarrow> u8 list \<Rightarrow> u8 list" where
  "edit_raw y c xs = (case translate_char y c of None \<Rightarrow> xs | Some c \<Rightarrow> edit y c xs)"

text \<open>
  \<open>line_ok y\<close>: the queues are in range, the write queue is empty and the line count of the
  cooked queue is the number of complete lines in it. \<open>same_set\<close>: the same settings.
\<close>

definition line_ok :: "tty_struct \<Rightarrow> bool" where
  "line_ok y \<longleftrightarrow> queue_ok (read_q y) \<and> queue_ok (secondary y) \<and> queue_ok (write_q y) \<and> chars (write_q y) = [] \<and>
     q_data (secondary y) = word_of_nat (length (filter (ends y) (chars (secondary y))))"

lemma settings_cong:
  assumes "termios y' = termios y"
  shows "L_FLAG y' = L_FLAG y" "I_FLAG y' = I_FLAG y" "is_cc y' = is_cc y" "ends y' = ends y"
    "translate_char y' = translate_char y" "edit y' = edit y" "edit_raw y' = edit_raw y" "kill_line y' = kill_line y" "rub_out y' = rub_out y"
proof -
  show L: "L_FLAG y' = L_FLAG y" and I: "I_FLAG y' = I_FLAG y" and cc: "is_cc y' = is_cc y"
    unfolding L_FLAG_def [abs_def] I_FLAG_def [abs_def] is_cc_def [abs_def] c_lflag_def c_iflag_def c_cc_def assms
    by (rule refl)+
  show e: "ends y' = ends y" by (simp add: fun_eq_iff ends_def cc)
  show tr: "translate_char y' = translate_char y" by (simp add: fun_eq_iff translate_char_def I)
  show k: "kill_line y' = kill_line y" "rub_out y' = rub_out y" by (simp_all add: fun_eq_iff kill_line_def rub_out_def e)
  show ed: "edit y' = edit y" unfolding edit_def [abs_def] L cc k by (rule refl)
  show "edit_raw y' = edit_raw y" unfolding edit_raw_def [abs_def] tr ed by (rule refl)
qed

lemma same_input_trans: "same_input x y \<Longrightarrow> same_input y z \<Longrightarrow> same_input x z"
  by (simp add: same_input_def)

lemma same_input_view:
  assumes "same_input y y'" "line_ok y" "queue_ok (write_q y')" "chars (write_q y') = []"
  shows "line_ok y'" "chars (secondary y') = chars (secondary y)" "chars (read_q y') = chars (read_q y)"
    "termios y' = termios y" "secondary y' = secondary y"
  using assms settings_cong(4) [of y' y] by (auto simp: same_input_def line_ok_def)

text \<open>Echoing a few characters changes nothing the editor looks at.\<close>

definition echo_out :: "nat \<Rightarrow> u8 list \<Rightarrow> unit kernel" where
  "echo_out t cs = seq (modify (put_write t cs)) (con_write t)"

lemma echo_keeps:
  assumes q: "queue_ok (write_q (tty_table s t))" "chars (write_q (tty_table s t)) = []"
    and len: "length cs \<le> 6" and fuel: "7 \<le> n"
  shows "returns (whenk b (echo_out t cs) n s) (\<lambda>_ s'. same_input (tty_table s t) (tty_table s' t) \<and>
     queue_ok (write_q (tty_table s' t)) \<and> chars (write_q (tty_table s' t)) = [])"
proof (cases b)
  case True
  let ?s = "put_write t cs s"
  have puts: "queue_ok (fold PUTCH cs (write_q (tty_table s t)))" "chars (fold PUTCH cs (write_q (tty_table s t))) = cs"
    using tty.items_puts [OF q(1), of cs] len q(2) arg_cong [OF q(2), of length] by simp_all
  have wq: "write_q (tty_table ?s t) = fold PUTCH cs (write_q (tty_table s t))" by (simp add: put_write_def upd_tty_def)
  have w: "queue_ok (write_q (tty_table ?s t))" "queue_len (write_q (tty_table ?s t)) = length cs"
    unfolding wq using puts(1) arg_cong [OF puts(2), of length] by simp_all
  have same: "same_input (tty_table s t) (tty_table ?s t)" by (simp add: same_input_def put_write_def upd_tty_def)
  have "returns (con_write t n ?s) (\<lambda>_ s'. same_input (tty_table ?s t) (tty_table s' t) \<and>
      queue_ok (write_q (tty_table s' t)) \<and> chars (write_q (tty_table s' t)) = [])"
    by (rule con_write_returns) (use w len fuel in simp_all)
  then have "returns (con_write t n ?s) (\<lambda>_ s'. same_input (tty_table s t) (tty_table s' t) \<and>
      queue_ok (write_q (tty_table s' t)) \<and> chars (write_q (tty_table s' t)) = [])"
    by (rule returns_mono) (use same same_input_trans in blast)
  then show ?thesis using True by (simp add: kexec echo_out_def)
next
  case False
  then show ?thesis using q by (simp add: kexec same_input_def)
qed

lemma echo_returns:
  assumes ok: "line_ok (tty_table s t)" and len: "length cs \<le> 6" and fuel: "7 \<le> n"
  shows "returns (whenk b (echo_out t cs) n s) (\<lambda>_ s'. same_input (tty_table s t) (tty_table s' t) \<and> line_ok (tty_table s' t))"
proof -
  have "queue_ok (write_q (tty_table s t))" "chars (write_q (tty_table s t)) = []" using ok by (simp_all only: line_ok_def)
  from echo_keeps [OF this len fuel] show ?thesis
    by (rule returns_mono) (use same_input_view(1) [OF _ ok] in blast)
qed

section \<open>Erasing the last character\<close>

lemma unat_DEC: "unat a < 1024 \<Longrightarrow> unat (DEC a) = (if unat a = 0 then 1023 else unat a - 1)"
  using unat_diff_mod [of a 1] by (simp add: DEC_def mask_1023 mod_if)

definition unput :: "tty_queue \<Rightarrow> tty_queue" where
  "unput q = q\<lparr>q_head := DEC (q_head q)\<rparr>"

lemma unput_ok: "queue_ok q \<Longrightarrow> queue_ok (unput q)"
  by (auto simp: queue_ok_def unput_def unat_DEC)

lemma chars_unput:
  assumes ok: "queue_ok q" and ne: "chars q \<noteq> []"
  shows "chars q = chars (unput q) @ [LAST q]"
proof -
  let ?h = "unat (q_head q)" and ?t = "unat (q_tail q)"
  have lt: "?h < 1024" "?t < 1024" using ok by (simp_all add: queue_ok_def)
  have "queue_len q \<noteq> 0" using ne by (metis length_0_conv length_chars)
  then have len: "queue_len q = Suc (queue_len (unput q))"
    using lt queue_len_if [OF ok] queue_len_if [OF unput_ok [OF ok]]
    by (auto simp: unput_def unat_DEC split: if_splits)
  have "(?t + queue_len (unput q)) mod 1024 = unat (DEC (q_head q))"
    using lt wrap [OF lt(2) queue_len_less, of "unput q"] queue_len_if [OF unput_ok [OF ok]]
    by (auto simp: unput_def unat_DEC split: if_splits)
  then show ?thesis unfolding chars_def len by (simp add: unput_def LAST_def DEC_def and.commute)
qed

section \<open>The line discipline edits\<close>

text \<open>
  \<open>cooks y y' xs\<close>: the terminal \<open>y'\<close> is \<open>y\<close> with the characters \<open>xs\<close> in its cooked queue, up
  to the echo, the stop flag and the sleepers.
\<close>

definition cooks :: "tty_struct \<Rightarrow> tty_struct \<Rightarrow> u8 list \<Rightarrow> bool" where
  "cooks y y' xs \<longleftrightarrow> line_ok y' \<and> termios y' = termios y \<and> read_q y' = read_q y \<and> chars (secondary y') = xs"

lemma line_start_iff:
  assumes "line_ok y"
  shows "line_start y \<longleftrightarrow> chars (secondary y) = [] \<or> ends y (last (chars (secondary y)))"
proof -
  have ok: "queue_ok (secondary y)" using assms by (simp add: line_ok_def)
  show ?thesis
  proof (cases "chars (secondary y) = []")
    case False
    then have "last (chars (secondary y)) = LAST (secondary y)" by (metis chars_unput [OF ok] last_snoc)
    then show ?thesis using False tty.empty_iff [OF ok] by (simp add: line_start_def ends_def)
  qed (simp add: line_start_def tty.empty_iff [OF ok])
qed

lemma drop_last_cooks:
  assumes ok: "line_ok y" and no: "\<not> line_start y" and same: "same_input y (tty_table s t)" "line_ok (tty_table s t)"
  shows "cooks y (tty_table (drop_last t s) t) (butlast (chars (secondary y)))"
proof -
  let ?z = "tty_table s t"
  have eq: "termios ?z = termios y" "read_q ?z = read_q y" "secondary ?z = secondary y"
    using same(1) by (simp_all add: same_input_def)
  have q: "queue_ok (secondary y)" using ok by (simp add: line_ok_def)
  have ne: "chars (secondary y) \<noteq> []" "\<not> ends y (last (chars (secondary y)))" using no line_start_iff [OF ok] by simp_all
  note split = chars_unput [OF q ne(1)]
  have d: "tty_table (drop_last t s) t = ?z\<lparr>secondary := unput (secondary ?z)\<rparr>"
    by (simp add: drop_last_def upd_tty_def unput_def)
  have e: "ends (?z\<lparr>secondary := x\<rparr>) = ends y" for x by (rule settings_cong(4)) (simp add: eq(1))
  have "\<not> ends y (LAST (secondary y))" using ne(2) split by (metis last_snoc)
  then have f: "filter (ends y) (chars (unput (secondary y))) = filter (ends y) (chars (secondary y))"
    using arg_cong [OF split, of "filter (ends y)"] by simp
  have "chars (unput (secondary y)) = butlast (chars (secondary y))" by (metis split butlast_snoc)
  moreover have "q_data (unput (secondary y)) = word_of_nat (length (filter (ends y) (chars (unput (secondary y)))))"
    unfolding f using ok by (simp add: line_ok_def unput_def)
  moreover have "queue_ok (read_q y)" "queue_ok (write_q ?z)" "chars (write_q ?z) = []"
    using ok same(2) by (simp_all only: line_ok_def)
  ultimately show ?thesis
    unfolding d cooks_def line_ok_def e using unput_ok [OF q] by (simp add: eq)
qed

lemma erase_char_exec:
  "erase_char t n s = (let y = tty_table s t in
     if line_start y then Done () s
     else bindp (whenk (L_FLAG y ECHO) (echo_out t (erase_echo y (LAST (secondary y)))) n s) (\<lambda>_ s'. Done () (drop_last t s')))"
  by (simp add: erase_char_def kexec Let_def flip: echo_out_def)

lemma kill_step_exec:
  "kill_step t u n s = (let y = tty_table s t in
     if line_start y then Done (Inr ()) s
     else bindp (whenk (L_FLAG y ECHO) (echo_out t ((if is_ctl (LAST (secondary y)) then [127] else []) @ [127])) n s)
            (\<lambda>_ s'. Done (Inl ()) (drop_last t s')))"
  by (simp add: kill_step_def kexec Let_def flip: echo_out_def)

lemma store_char_exec:
  "store_char t c n s = (let y = tty_table s t;
       s1 = upd_tty t (\<lambda>y. if ends y c then y\<lparr>secondary := (secondary y)\<lparr>q_data := q_data (secondary y) + 1\<rparr>\<rparr> else y) s in
     bindp (whenk (L_FLAG y ECHO) (echo_out t (echo y c)) n s1)
       (\<lambda>_ s'. Done () (upd_tty t (\<lambda>y. y\<lparr>secondary := PUTCH c (secondary y)\<rparr>) s')))"
  by (simp add: store_char_def kexec Let_def ends_def flip: echo_out_def)

lemma cooks_refl: "line_ok y \<Longrightarrow> cooks y y (chars (secondary y))"
  by (simp add: cooks_def)

lemma erase_char_cooks:
  assumes ok: "line_ok (tty_table s t)" and fuel: "7 \<le> n"
  shows "returns (erase_char t n s) (\<lambda>_ s'. cooks (tty_table s t) (tty_table s' t)
     (rub_out (tty_table s t) (chars (secondary (tty_table s t)))))"
proof (cases "line_start (tty_table s t)")
  case True
  then have "rub_out (tty_table s t) (chars (secondary (tty_table s t))) = chars (secondary (tty_table s t))"
    using line_start_iff [OF ok] by (simp add: rub_out_def)
  then show ?thesis using True cooks_refl [OF ok] by (simp add: erase_char_exec Let_def)
next
  case False
  then have rub: "rub_out (tty_table s t) (chars (secondary (tty_table s t))) = butlast (chars (secondary (tty_table s t)))"
    using line_start_iff [OF ok] by (simp add: rub_out_def)
  have "length (erase_echo (tty_table s t) (LAST (secondary (tty_table s t)))) \<le> 6" by (simp add: erase_echo_def)
  from returns_bindp [OF echo_returns [OF ok this fuel], of "\<lambda>_ s'. Done () (drop_last t s')"
      "\<lambda>_ s'. cooks (tty_table s t) (tty_table s' t) (butlast (chars (secondary (tty_table s t))))"]
  show ?thesis unfolding erase_char_exec Let_def rub using False drop_last_cooks [OF ok False] by simp
qed

lemma kill_line_step:
  "kill_line y xs = (if xs = [] \<or> ends y (last xs) then xs else kill_line y (butlast xs))"
  by (cases xs rule: rev_cases) (simp_all add: kill_line_def)

lemma cooks_trans:
  "cooks x y xs \<Longrightarrow> cooks y z ys \<Longrightarrow> cooks x z ys"
  by (simp add: cooks_def)

lemma cooks_settings: "cooks x y xs \<Longrightarrow> termios y = termios x"
  by (simp add: cooks_def)

lemma kill_cooks:
  assumes "line_ok (tty_table s t)" "7 \<le> n" "length (chars (secondary (tty_table s t))) < k"
  shows "returns (loop_fuel k (kill_step t) () n s) (\<lambda>_ s'. cooks (tty_table s t) (tty_table s' t)
     (kill_line (tty_table s t) (chars (secondary (tty_table s t)))))"
  using assms
proof (induction k arbitrary: s)
  case (Suc k)
  let ?y = "tty_table s t"
  let ?xs = "chars (secondary ?y)"
  note ok = Suc.prems(1)
  show ?case
  proof (cases "line_start ?y")
    case True
    then have "kill_line ?y ?xs = ?xs" using line_start_iff [OF ok] by (subst kill_line_step) simp
    then show ?thesis using True cooks_refl [OF ok] by (simp add: kill_step_exec [of t "()" n s] Let_def kexec)
  next
    case False
    then have ne: "?xs \<noteq> []" and kill: "kill_line ?y ?xs = kill_line ?y (butlast ?xs)"
      using line_start_iff [OF ok] by (simp, subst kill_line_step, simp)
    let ?e = "(if is_ctl (LAST (secondary ?y)) then [127] else []) @ [127] :: u8 list"
    have "returns (loop_fuel k (kill_step t) () n (drop_last t s')) (\<lambda>_ s''. cooks ?y (tty_table s'' t) (kill_line ?y ?xs))"
      if "same_input ?y (tty_table s' t) \<and> line_ok (tty_table s' t)" for s'
    proof -
      let ?z = "tty_table (drop_last t s') t"
      have c: "cooks ?y ?z (butlast ?xs)" using drop_last_cooks [OF ok False] that by blast
      then have z: "line_ok ?z" "chars (secondary ?z) = butlast ?xs" by (simp_all add: cooks_def)
      have "length (chars (secondary ?z)) < k" unfolding z(2) using Suc.prems(3) ne by (cases ?xs rule: rev_cases) simp_all
      from Suc.IH [OF z(1) Suc.prems(2) this] show ?thesis
        unfolding z(2) settings_cong(8) [OF cooks_settings [OF c]] kill [symmetric]
        by (rule returns_mono) (rule cooks_trans [OF c])
    qed
    note rest = this
    have "returns (bindp (whenk (L_FLAG ?y ECHO) (echo_out t ?e) n s) (\<lambda>_ s'. loop_fuel k (kill_step t) () n (drop_last t s')))
        (\<lambda>_ s''. cooks ?y (tty_table s'' t) (kill_line ?y ?xs))"
      by (rule returns_bindp [OF echo_returns [OF ok _ Suc.prems(2)]], simp) (rule rest)
    moreover have "loop_fuel (Suc k) (kill_step t) () n s =
        bindp (whenk (L_FLAG ?y ECHO) (echo_out t ?e) n s) (\<lambda>_ s'. loop_fuel k (kill_step t) () n (drop_last t s'))"
      using False by (simp add: kill_step_exec [of t "()" n s] Let_def bind_exec bindp_assoc del: append.simps)
    ultimately show ?thesis by (simp only:)
  qed
qed simp

lemma store_cooks:
  assumes ok: "line_ok y" and room: "length (chars (secondary y)) < 1023" and sets: "termios z = termios y" "read_q z = read_q y"
    and sec: "secondary z = (secondary y)\<lparr>q_data := q_data (secondary y) + (if ends y c then 1 else 0)\<rparr>"
    and out: "queue_ok (write_q z)" "chars (write_q z) = []"
  shows "cooks y (z\<lparr>secondary := PUTCH c (secondary z)\<rparr>) (chars (secondary y) @ [c])"
proof -
  let ?q = "secondary y"
  have q: "queue_ok ?q" "queue_ok (read_q y)" "q_data ?q = word_of_nat (length (filter (ends y) (chars ?q)))"
    using ok by (simp_all only: line_ok_def)
  have e: "ends (z\<lparr>secondary := x\<rparr>) = ends y" for x by (rule settings_cong(4)) (simp add: sets(1))
  have "queue_ok (secondary z)" "chars (secondary z) = chars ?q" using q(1) by (simp_all add: sec queue_ok_def chars_def queue_len_def)
  then have "queue_ok (PUTCH c (secondary z))" "chars (PUTCH c (secondary z)) = chars ?q @ [c]"
    using tty.inv_put [of "secondary z" c] tty.items_put [of "secondary z" c] room by simp_all
  moreover have "q_data (PUTCH c (secondary z)) = word_of_nat (length (filter (ends y) (chars ?q @ [c])))"
    by (simp add: sec PUTCH_def q(3))
  ultimately show ?thesis unfolding cooks_def line_ok_def e using q(2) sets out by simp
qed

lemma store_char_cooks:
  assumes ok: "line_ok (tty_table s t)" and fuel: "7 \<le> n" and room: "length (chars (secondary (tty_table s t))) < 1023"
  shows "returns (store_char t c n s) (\<lambda>_ s'. cooks (tty_table s t) (tty_table s' t) (chars (secondary (tty_table s t)) @ [c]))"
proof -
  let ?y = "tty_table s t"
  let ?s = "upd_tty t (\<lambda>y. if ends y c then y\<lparr>secondary := (secondary y)\<lparr>q_data := q_data (secondary y) + 1\<rparr>\<rparr> else y) s"
  have y1: "tty_table ?s t = ?y\<lparr>secondary := (secondary ?y)\<lparr>q_data := q_data (secondary ?y) + (if ends ?y c then 1 else 0)\<rparr>\<rparr>"
    by (simp add: upd_tty_def)
  have "queue_ok (write_q (tty_table ?s t))" "chars (write_q (tty_table ?s t)) = []"
    unfolding y1 using ok by (simp_all add: line_ok_def)
  moreover have "length (echo ?y c) \<le> 6" by (simp add: echo_def)
  ultimately have out: "returns (whenk (L_FLAG ?y ECHO) (echo_out t (echo ?y c)) n ?s) (\<lambda>_ s'. same_input (tty_table ?s t) (tty_table s' t) \<and>
     queue_ok (write_q (tty_table s' t)) \<and> chars (write_q (tty_table s' t)) = [])"
    using echo_keeps fuel by blast
  have stored: "tty_table (upd_tty t (\<lambda>y. y\<lparr>secondary := PUTCH c (secondary y)\<rparr>) u) t =
      (tty_table u t)\<lparr>secondary := PUTCH c (secondary (tty_table u t))\<rparr>" for u
    by (simp add: upd_tty_def)
  show ?thesis unfolding store_char_exec Let_def
    by (rule returns_bindp [OF out], unfold returns_Done stored, rule store_cooks [OF ok room])
      (simp_all add: same_input_def y1)
qed

lemma flags_cooks:
  assumes "line_ok y" "termios z = termios y" "read_q z = read_q y" "secondary z = secondary y" "write_q z = write_q y"
  shows "cooks y z (chars (secondary y))"
proof -
  have "ends z = ends y" by (rule settings_cong(4)) (rule assms(2))
  then show ?thesis using assms by (simp add: cooks_def line_ok_def)
qed

lemma tty_intr_table: "tty_table (tty_intr t bits s) = tty_table s"
  by (simp add: tty_intr_def signal_group_def Let_def)

lemma cook_char_cooks:
  assumes ok: "line_ok (tty_table s t)" and fuel: "1024 \<le> n" and room: "length (chars (secondary (tty_table s t))) < 1023"
  shows "returns (cook_char t c n s) (\<lambda>_ s'. cooks (tty_table s t) (tty_table s' t)
     (edit (tty_table s t) c (chars (secondary (tty_table s t)))))"
proof -
  let ?y = "tty_table s t"
  let ?xs = "chars (secondary ?y)"
  have f: "7 \<le> n" using fuel by simp
  consider (kill) "L_FLAG ?y ICANON \<and> is_cc ?y VKILL c"
    | (erase) "\<not> (L_FLAG ?y ICANON \<and> is_cc ?y VKILL c)" "L_FLAG ?y ICANON \<and> (is_cc ?y VERASE c \<or> c = 8)"
    | (rest) "\<not> (L_FLAG ?y ICANON \<and> is_cc ?y VKILL c)" "\<not> (L_FLAG ?y ICANON \<and> (is_cc ?y VERASE c \<or> c = 8))"
    by blast
  then show ?thesis
  proof cases
    case kill
    then have e: "edit ?y c ?xs = kill_line ?y ?xs" by (simp add: edit_def)
    have run: "cook_char t c n s = loop_fuel n (kill_step t) () n s" using kill by (simp add: cook_char_def bind_exec gets_exec loop_def)
    show ?thesis unfolding e run by (rule kill_cooks [OF ok f]) (use room fuel in simp)
  next
    case erase
    then have e: "edit ?y c ?xs = rub_out ?y ?xs" by (simp add: edit_def)
    have run: "cook_char t c n s = erase_char t n s" using erase by (simp add: cook_char_def bind_exec gets_exec)
    show ?thesis unfolding e run by (rule erase_char_cooks [OF ok f])
  next
    case rest
    have same: "cooks ?y (tty_table (upd_tty t (\<lambda>y. y\<lparr>tty_stopped := b\<rparr>) s) t) ?xs" for b
      by (rule flags_cooks [OF ok]) (simp_all add: upd_tty_def)
    have sig: "cooks ?y (tty_table (tty_intr t bits s) t) ?xs" for bits
      unfolding tty_intr_table by (rule cooks_refl [OF ok])
    have run: "cook_char t c n s =
        (if L_FLAG ?y ICANON \<and> is_cc ?y VSTOP c then Done () (upd_tty t (\<lambda>y. y\<lparr>tty_stopped := 1\<rparr>) s)
         else if L_FLAG ?y ICANON \<and> is_cc ?y VSTART c then Done () (upd_tty t (\<lambda>y. y\<lparr>tty_stopped := 0\<rparr>) s)
         else if L_FLAG ?y ISIG \<and> is_cc ?y VINTR c then Done () (tty_intr t (push_bit (SIGINT - 1) 1) s)
         else if L_FLAG ?y ISIG \<and> is_cc ?y VQUIT c then Done () (tty_intr t (push_bit (SIGQUIT - 1) 1) s)
         else store_char t c n s)"
      unfolding cook_char_def bind_exec gets_exec bindp.simps if_not_P [OF rest(1)] if_not_P [OF rest(2)]
      by (simp only: if_exec modify_exec)
    have e: "edit ?y c ?xs =
        (if L_FLAG ?y ICANON \<and> (is_cc ?y VSTOP c \<or> is_cc ?y VSTART c) then ?xs
         else if L_FLAG ?y ISIG \<and> (is_cc ?y VINTR c \<or> is_cc ?y VQUIT c) then ?xs else ?xs @ [c])"
      unfolding edit_def if_not_P [OF rest(1)] if_not_P [OF rest(2)] by (rule refl)
    show ?thesis unfolding run e using same sig store_char_cooks [OF ok f room, of c] by (auto simp del: One_nat_def)
  qed
qed

lemma edit_length: "length (edit y c xs) \<le> Suc (length xs)"
proof -
  have "length (kill_line y xs) \<le> length xs"
    unfolding kill_line_def using length_dropWhile_le [of _ "rev xs"] by simp
  moreover have "length (rub_out y xs) \<le> length xs" by (simp add: rub_out_def)
  ultimately show ?thesis by (simp add: edit_def le_Suc_eq)
qed

lemma edit_raw_length: "length (edit_raw y c xs) \<le> Suc (length xs)"
  by (simp add: edit_raw_def edit_length split: option.split)

lemma cook_step_exec:
  "cook_step t u n s = (let y = tty_table s t; c = fst (GETCH (read_q y)); s1 = upd_tty t (\<lambda>y. y\<lparr>read_q := snd (GETCH (read_q y))\<rparr>) s in
     if EMPTY (read_q y) \<or> FULL (secondary y) then Done (Inr ()) s
     else bindp ((case translate_char y c of None \<Rightarrow> skip | Some c \<Rightarrow> cook_char t c) n s1) (\<lambda>_ s'. Done (Inl ()) s'))"
  by (simp add: cook_step_def kexec Let_def upd_tty_def split: prod.split)

text \<open>One round of the loop takes one character from the read queue and edits the line with it.\<close>

lemma cook_step_cooks:
  assumes ok: "line_ok (tty_table s t)" and fuel: "1024 \<le> n" and room: "length (chars (secondary (tty_table s t))) < 1023"
    and rq: "chars (read_q (tty_table s t)) = c # cs"
  shows "returns (cook_step t u n s) (\<lambda>r s'. r = Inl () \<and> line_ok (tty_table s' t) \<and> termios (tty_table s' t) = termios (tty_table s t) \<and>
     chars (read_q (tty_table s' t)) = cs \<and>
     chars (secondary (tty_table s' t)) = edit_raw (tty_table s t) c (chars (secondary (tty_table s t))))"
proof -
  let ?y = "tty_table s t" and ?s = "upd_tty t (\<lambda>y. y\<lparr>read_q := snd (GETCH (read_q y))\<rparr>) s"
  have q: "queue_ok (read_q ?y)" "queue_ok (secondary ?y)" using ok by (simp_all only: line_ok_def)
  have get: "c = fst (GETCH (read_q ?y))" "cs = chars (snd (GETCH (read_q ?y)))"
    using tty.items_get [OF q(1)] rq by simp_all
  have go: "\<not> (EMPTY (read_q ?y) \<or> FULL (secondary ?y))"
    using tty.empty_iff [OF q(1)] tty.full_iff [OF q(2)] rq room by simp
  have y1: "tty_table ?s t = ?y\<lparr>read_q := snd (GETCH (read_q ?y))\<rparr>" by (simp add: upd_tty_def)
  have sets: "termios (tty_table ?s t) = termios ?y" "secondary (tty_table ?s t) = secondary ?y" by (simp_all add: y1)
  have ok1: "line_ok (tty_table ?s t)"
    using ok tty.inv_get [OF q(1)] settings_cong(4) [OF sets(1)] by (simp add: line_ok_def y1)
  have room1: "length (chars (secondary (tty_table ?s t))) < 1023" unfolding sets(2) by (rule room)
  let ?p = "case translate_char ?y c of None \<Rightarrow> skip | Some c \<Rightarrow> cook_char t c"
  have "returns (?p n ?s) (\<lambda>_ s'. cooks (tty_table ?s t) (tty_table s' t) (edit_raw ?y c (chars (secondary ?y))))"
  proof (cases "translate_char ?y c")
    case None
    then show ?thesis using cooks_refl [OF ok1] by (simp add: edit_raw_def skip_exec sets(2))
  next
    case (Some d)
    then show ?thesis using cook_char_cooks [OF ok1 fuel room1, of d] by (simp add: edit_raw_def sets(2) settings_cong(6) [OF sets(1)])
  qed
  note run = returns_bindp [OF this, of "\<lambda>_ s'. Done (Inl ()) s'"]
  show ?thesis unfolding cook_step_exec Let_def get(1) [symmetric] if_not_P [OF go]
    by (rule run) (simp add: cooks_def sets(1) y1 get(2))
qed

lemma cook_loop_edits:
  assumes "line_ok (tty_table s t)" "1024 \<le> n" "length (chars (read_q (tty_table s t))) < k"
    "length (chars (secondary (tty_table s t))) + length (chars (read_q (tty_table s t))) \<le> 1023"
  shows "returns (loop_fuel k (cook_step t) () n s) (\<lambda>_ s'. line_ok (tty_table s' t) \<and> chars (read_q (tty_table s' t)) = [] \<and>
     chars (secondary (tty_table s' t)) = fold (edit_raw (tty_table s t)) (chars (read_q (tty_table s t))) (chars (secondary (tty_table s t))))"
  using assms
proof (induction k arbitrary: s)
  case (Suc k)
  let ?y = "tty_table s t"
  show ?case
  proof (cases "chars (read_q ?y)")
    case Nil
    moreover have "EMPTY (read_q ?y)" using Nil Suc.prems(1) tty.empty_iff by (simp add: line_ok_def)
    then have "cook_step t () n s = Done (Inr ()) s" by (simp add: cook_step_exec Let_def)
    then have "loop_fuel (Suc k) (cook_step t) () n s = Done () s" by (simp add: bind_exec ret_exec)
    ultimately show ?thesis using Suc.prems(1) by simp
  next
    case (Cons c cs)
    have lens: "length (chars (secondary ?y)) < 1023" "length cs < k"
      "Suc (length (chars (secondary ?y))) + length cs \<le> 1023"
      using Suc.prems(3,4) unfolding Cons by (simp_all del: length_chars)
    have "returns (loop_fuel k (cook_step t) () n u) (\<lambda>_ s'. line_ok (tty_table s' t) \<and> chars (read_q (tty_table s' t)) = [] \<and>
       chars (secondary (tty_table s' t)) = fold (edit_raw ?y) (c # cs) (chars (secondary ?y)))"
      if u: "line_ok (tty_table u t)" "termios (tty_table u t) = termios ?y" "chars (read_q (tty_table u t)) = cs"
        "chars (secondary (tty_table u t)) = edit_raw ?y c (chars (secondary ?y))" for u
    proof -
      have "length (edit_raw ?y c (chars (secondary ?y))) + length cs \<le> 1023"
        using edit_raw_length [of ?y c "chars (secondary ?y)"] lens(3) by linarith
      with Suc.IH [OF u(1) Suc.prems(2)] lens(2) show ?thesis unfolding u(3,4) settings_cong(7) [OF u(2)] by (simp del: length_chars)
    qed
    note rest = this
    have "returns (bindp (cook_step t () n s) (\<lambda>r s'. (case r of Inl x \<Rightarrow> loop_fuel k (cook_step t) x | Inr a \<Rightarrow> ret a) n s'))
      (\<lambda>_ s'. line_ok (tty_table s' t) \<and> chars (read_q (tty_table s' t)) = [] \<and>
       chars (secondary (tty_table s' t)) = fold (edit_raw ?y) (c # cs) (chars (secondary ?y)))"
      by (rule returns_bindp [OF cook_step_cooks [OF Suc.prems(1,2) lens(1) Cons]]) (use rest in auto)
    then show ?thesis unfolding Cons loop_fuel.simps bind_exec .
  qed
qed simp

lemma wake_up_secondary:
  "read_q (tty_table (wake_up_state (Tty_secondary t) s) t) = read_q (tty_table s t)"
  "write_q (tty_table (wake_up_state (Tty_secondary t) s) t) = write_q (tty_table s t)"
  "termios (tty_table (wake_up_state (Tty_secondary t) s) t) = termios (tty_table s t)"
  "q_data (secondary (tty_table (wake_up_state (Tty_secondary t) s) t)) = q_data (secondary (tty_table s t))"
  "queue_ok (secondary (tty_table (wake_up_state (Tty_secondary t) s) t)) = queue_ok (secondary (tty_table s t))"
  "chars (secondary (tty_table (wake_up_state (Tty_secondary t) s) t)) = chars (secondary (tty_table s t))"
  by (simp_all add: wake_up_state_def set_state_def upd_tty_def upd_task_def queue_ok_def chars_def queue_len_def
      split: option.split)

text \<open>
  C27: The line discipline is a line editor. When the characters typed fit into the cooked queue,
  \<open>copy_to_cooked\<close> returns, leaves the read queue empty, and the cooked queue holds what the
  reference editor \<open>edit_raw\<close> makes of the characters typed, one after the other: kill drops
  back to the last end of line, erase drops one character but never an end of line, flow control
  and signal characters vanish, everything else is appended. The line counter stays the number
  of complete lines, and all echo has been sent.
\<close>

theorem copy_to_cooked_edits:
  assumes "line_ok (tty_table s t)" "1024 \<le> n"
    "length (chars (secondary (tty_table s t))) + length (chars (read_q (tty_table s t))) \<le> 1023"
  shows "returns (copy_to_cooked t n s) (\<lambda>_ s'. line_ok (tty_table s' t) \<and> chars (read_q (tty_table s' t)) = [] \<and>
     chars (secondary (tty_table s' t)) = fold (edit_raw (tty_table s t)) (chars (read_q (tty_table s t))) (chars (secondary (tty_table s t))))"
proof -
  have woken: "line_ok (tty_table (wake_up_state (Tty_secondary t) u) t) = line_ok (tty_table u t)" for u
    using settings_cong(4) [OF wake_up_secondary(3) [of t u]] by (simp add: line_ok_def wake_up_secondary)
  have "length (chars (read_q (tty_table s t))) < n" using assms(2,3) by linarith
  note run = cook_loop_edits [OF assms(1,2) this assms(3)]
  show ?thesis unfolding copy_to_cooked_def seq_exec loop_def wake_up_def modify_exec
    by (rule returns_bindp [OF run]) (simp add: woken wake_up_secondary)
qed

text \<open>Typing l, x, rubout, s, return at the console of the booted system leaves the line \<open>ls\<close>.\<close>

definition typed :: kstate where
  "typed = boot_state\<lparr>tty_table := (tty_table boot_state)(0 := (init_tty 0)\<lparr>read_q := fold PUTCH [108, 120, 127, 115, 13] zero_queue\<rparr>)\<rparr>"

lemma queue_ok_zero: "queue_ok zero_queue" and chars_zero: "chars zero_queue = []"
  by (simp_all add: queue_ok_def chars_def queue_len_def zero_queue_def)

lemma typed_edit: "fold (edit_raw (tty_table typed 0)) [108, 120, 127, 115, 13] [] = [108, 115, 10]"
  by code_simp

theorem copy_to_cooked_edits_witness:
  "returns (copy_to_cooked 0 1024 typed) (\<lambda>_ s'. line_ok (tty_table s' 0) \<and> chars (read_q (tty_table s' 0)) = [] \<and>
     chars (secondary (tty_table s' 0)) = [108, 115, 10])"
proof -
  have q: "queue_ok (read_q (tty_table typed 0))" "chars (read_q (tty_table typed 0)) = [108, 120, 127, 115, 13]"
    using tty.items_puts [OF queue_ok_zero, of "[108, 120, 127, 115, 13]"] by (simp_all add: typed_def chars_zero)
  have sec: "secondary (tty_table typed 0) = zero_queue" "write_q (tty_table typed 0) = zero_queue"
    by (simp_all add: typed_def init_tty_def)
  have "line_ok (tty_table typed 0)"
    using q(1) by (simp add: line_ok_def sec queue_ok_zero chars_zero) (simp add: zero_queue_def)
  from copy_to_cooked_edits [OF this, of 1024] show ?thesis
    unfolding q(2) sec chars_zero typed_edit by simp
qed

end
