(* ===== verification/Vsprintf.thy ===== *)
theory Vsprintf
  imports KState
begin

text \<open>
  Formatted output, \<^verbatim>\<open>kernel/vsprintf.c\<close>. The bytes written from \<open>buf\<close> on are a list, so that
  \<open>str - buf\<close> is its length; a format is the list of its bytes without the final null. An
  argument is a word or a pointer to a string, given as the bytes of the string; taking an
  argument that is missing or of the other kind has no defined meaning and is \<open>None\<close>.
\<close>

definition ch :: "char \<Rightarrow> u8" where
  "ch c = of_char c"

definition is_digit :: "u8 \<Rightarrow> bool" where
  "is_digit c \<longleftrightarrow> ch CHR ''0'' \<le> c \<and> c \<le> ch CHR ''9''"

text \<open>The value read and the rest of the string.\<close>

fun skip_atoi :: "u8 list \<Rightarrow> u32 \<Rightarrow> u32 \<times> u8 list" where
  "skip_atoi [] i = (i, [])"
| "skip_atoi (c # s) i = (if is_digit c then skip_atoi s (i * 10 + ucast c - 48) else (i, c # s))"

section \<open>Numbers\<close>

abbreviation ZEROPAD :: u32 where "ZEROPAD \<equiv> 1"
abbreviation SIGN :: u32 where "SIGN \<equiv> 2"
abbreviation PLUS :: u32 where "PLUS \<equiv> 4"
abbreviation SPACE :: u32 where "SPACE \<equiv> 8"
abbreviation LEFT :: u32 where "LEFT \<equiv> 16"
abbreviation SPECIAL :: u32 where "SPECIAL \<equiv> 32"
abbreviation SMALL :: u32 where "SMALL \<equiv> 64"

definition has :: "u32 \<Rightarrow> u32 \<Rightarrow> bool" where
  "has type f \<longleftrightarrow> type AND f \<noteq> 0"

text \<open>\<open>do_div\<close>: the remainder and the quotient of the unsigned division.\<close>

definition do_div :: "u32 \<Rightarrow> u32 \<Rightarrow> u32 \<times> u32" where
  "do_div n base = (n mod base, n div base)"

definition digits :: "u32 \<Rightarrow> string" where
  "digits type = (if has type SMALL then ''0123456789abcdefghijklmnopqrstuvwxyz''
                  else ''0123456789ABCDEFGHIJKLMNOPQRSTUVWXYZ'')"

text \<open>The digits stored in \<open>tmp\<close>, least significant first; \<open>None\<close> when its \<open>k\<close> free bytes are not enough.\<close>

primrec tmp_digits :: "nat \<Rightarrow> string \<Rightarrow> u32 \<Rightarrow> u32 \<Rightarrow> u8 list option" where
  "tmp_digits 0 ds num base = (if num = 0 then Some [] else None)"
| "tmp_digits (Suc k) ds num base =
     (if num = 0 then Some []
      else case do_div num base of (r, q) \<Rightarrow> map_option (Cons (ch (ds ! unat r))) (tmp_digits k ds q base))"

text \<open>\<open>while (n-- > 0) *str++ = c\<close>: the bytes written and the value of \<open>n\<close> after the loop.\<close>

definition pad :: "u8 \<Rightarrow> u32 \<Rightarrow> u8 list \<times> u32" where
  "pad c n = (replicate (nat (sint n)) c, if 0 <s n then -1 else n - 1)"

definition sign_of :: "u32 \<Rightarrow> u32 \<Rightarrow> u8 list" where
  "sign_of type num =
     (if has type SIGN \<and> num <s 0 then [ch CHR ''-'']
      else if has type PLUS then [ch CHR ''+''] else if has type SPACE then [ch CHR '' ''] else [])"

definition prefix_of :: "u32 \<Rightarrow> u32 \<Rightarrow> u8 list" where
  "prefix_of type base =
     (if has type SPECIAL
      then if base = 8 then [ch CHR ''0'']
           else if base = 16 then [ch CHR ''0'', ch (digits type ! 33)] else []
      else [])"

text \<open>The bytes \<open>number\<close> appends; \<open>Some None\<close> is its null result for a bad base.\<close>

definition number :: "u32 \<Rightarrow> u32 \<Rightarrow> u32 \<Rightarrow> u32 \<Rightarrow> u32 \<Rightarrow> u8 list option option" where
  "number num base sz precision type =
     (let ds = digits type;
          type = (if has type LEFT then type AND NOT ZEROPAD else type) in
      if base <s 2 \<or> 36 <s base then Some None
      else
        let c = (if has type ZEROPAD then ch CHR ''0'' else ch CHR '' '');
            sign = sign_of type num;
            num = (if has type SIGN \<and> num <s 0 then - num else num);
            sz = sz - word_of_nat (length sign);
            sz = (if has type SPECIAL then if base = 16 then sz - 2 else if base = 8 then sz - 1 else sz else sz) in
        case (if num = 0 then Some [ch CHR ''0''] else tmp_digits 36 ds num base) of
          None \<Rightarrow> None
        | Some tmp \<Rightarrow>
            let i = word_of_nat (length tmp);
                precision = (if precision <s i then i else precision);
                sz = sz - precision;
                (p1, sz) = (if \<not> has type (ZEROPAD + LEFT) then pad (ch CHR '' '') sz else ([], sz));
                (p2, sz) = (if \<not> has type LEFT then pad c sz else ([], sz));
                zeros = replicate (nat (sint precision - sint i)) (ch CHR ''0'');
                (p3, sz) = pad (ch CHR '' '') sz
            in Some (Some (p1 @ sign @ prefix_of type base @ p2 @ zeros @ rev tmp @ p3)))"

section \<open>Formats\<close>

datatype va = Va u32 | Va_str "u8 list"

text \<open>The byte \<open>fmt\<close> points to, null at the end.\<close>

definition at :: "u8 list \<Rightarrow> u8" where
  "at fmt = (case fmt of [] \<Rightarrow> 0 | c # _ \<Rightarrow> c)"

fun va_int :: "va list \<Rightarrow> (u32 \<times> va list) option" where
  "va_int (Va n # args) = Some (n, args)"
| "va_int _ = None"

fun va_string :: "va list \<Rightarrow> (u8 list \<times> va list) option" where
  "va_string (Va_str s # args) = Some (s, args)"
| "va_string _ = None"

fun get_flags :: "u8 list \<Rightarrow> u32 \<Rightarrow> u32 \<times> u8 list" where
  "get_flags [] flags = (flags, [])"
| "get_flags (c # fmt) flags =
     (if c = ch CHR ''-'' then get_flags fmt (flags OR LEFT)
      else if c = ch CHR ''+'' then get_flags fmt (flags OR PLUS)
      else if c = ch CHR '' '' then get_flags fmt (flags OR SPACE)
      else if c = ch CHR ''#'' then get_flags fmt (flags OR SPECIAL)
      else if c = ch CHR ''0'' then get_flags fmt (flags OR ZEROPAD)
      else (flags, c # fmt))"

definition get_width :: "u8 list \<Rightarrow> u32 \<Rightarrow> va list \<Rightarrow> (u32 \<times> u32 \<times> u8 list \<times> va list) option" where
  "get_width fmt flags args =
     (if is_digit (at fmt) then case skip_atoi fmt 0 of (w, fmt) \<Rightarrow> Some (w, flags, fmt, args)
      else if at fmt = ch CHR ''*''
      then map_option (\<lambda>(w, args). if w <s 0 then (- w, flags OR LEFT, fmt, args) else (w, flags, fmt, args)) (va_int args)
      else Some (-1, flags, fmt, args))"

definition get_precision :: "u8 list \<Rightarrow> va list \<Rightarrow> (u32 \<times> u8 list \<times> va list) option" where
  "get_precision fmt args =
     (if at fmt \<noteq> ch CHR ''.'' then Some (-1, fmt, args)
      else
        let fmt = tl fmt; clamp = (\<lambda>p :: u32. if p <s 0 then 0 else p) in
        if is_digit (at fmt) then case skip_atoi fmt 0 of (p, fmt) \<Rightarrow> Some (clamp p, fmt, args)
        else if at fmt = ch CHR ''*'' then map_option (\<lambda>(p, args). (clamp p, fmt, args)) (va_int args)
        else Some (0, fmt, args))"

definition skip_qualifier :: "u8 list \<Rightarrow> u8 list" where
  "skip_qualifier fmt =
     (if at fmt = ch CHR ''h'' \<or> at fmt = ch CHR ''l'' \<or> at fmt = ch CHR ''L'' then tl fmt else fmt)"

text \<open>
  The output so far, the arguments left and the words stored by \<open>%n\<close>, each with its address.
\<close>

record vs_state =
  vs_out :: "u8 list"
  vs_args :: "va list"
  vs_stores :: "(u32 \<times> u32) list"

definition put :: "u8 list \<Rightarrow> va list \<Rightarrow> vs_state \<Rightarrow> vs_state" where
  "put cs args st = st\<lparr>vs_out := vs_out st @ cs, vs_args := args\<rparr>"

text \<open>\<open>while (--w > 0) *str++ = ' '\<close> and \<open>while (len < w--) *str++ = ' '\<close>, with \<open>w\<close> after the loop.\<close>

definition pad_before :: "u32 \<Rightarrow> u8 list \<times> u32" where
  "pad_before w = (replicate (nat (sint (w - 1))) (ch CHR '' ''), if 0 <s w - 1 then 0 else w - 1)"

definition pad_to :: "u32 \<Rightarrow> u32 \<Rightarrow> u8 list \<times> u32" where
  "pad_to len w = (replicate (nat (sint w - sint len)) (ch CHR '' ''), (if len <s w then len else w) - 1)"

definition conv_char :: "u32 \<Rightarrow> u32 \<Rightarrow> vs_state \<Rightarrow> vs_state option" where
  "conv_char flags w st =
     map_option (\<lambda>(n, args).
       let (p1, w) = (if \<not> has flags LEFT then pad_before w else ([], w));
           (p2, w) = pad_before w
       in put (p1 @ [ucast n] @ p2) args st) (va_int (vs_args st))"

definition conv_string :: "u32 \<Rightarrow> u32 \<Rightarrow> u32 \<Rightarrow> vs_state \<Rightarrow> vs_state option" where
  "conv_string flags w precision st =
     map_option (\<lambda>(s, args).
       let len = word_of_nat (length s);
           len = (if precision <s 0 then len else if precision <s len then precision else len);
           (p1, w) = (if \<not> has flags LEFT then pad_to len w else ([], w));
           (p2, w) = pad_to len w
       in put (p1 @ take (nat (sint len)) s @ p2) args st) (va_string (vs_args st))"

definition conv_number :: "u32 \<Rightarrow> u32 \<Rightarrow> u32 \<Rightarrow> u32 \<Rightarrow> vs_state \<Rightarrow> vs_state option" where
  "conv_number base w precision flags st =
     (case va_int (vs_args st) of
        None \<Rightarrow> None
      | Some (n, args) \<Rightarrow>
          (case number n base w precision flags of Some (Some cs) \<Rightarrow> Some (put cs args st) | _ \<Rightarrow> None))"

text \<open>The switch on the conversion character; the result is the rest of the format.\<close>

definition convert :: "u8 list \<Rightarrow> u32 \<Rightarrow> u32 \<Rightarrow> u32 \<Rightarrow> vs_state \<Rightarrow> (u8 list \<times> vs_state) option" where
  "convert fmt flags w precision st =
     (let c = at fmt; go = map_option (Pair (tl fmt)) in
      if c = ch CHR ''c'' then go (conv_char flags w st)
      else if c = ch CHR ''s'' then go (conv_string flags w precision st)
      else if c = ch CHR ''o'' then go (conv_number 8 w precision flags st)
      else if c = ch CHR ''p''
      then go (if w = -1 then conv_number 16 8 precision (flags OR ZEROPAD) st else conv_number 16 w precision flags st)
      else if c = ch CHR ''x'' then go (conv_number 16 w precision (flags OR SMALL) st)
      else if c = ch CHR ''X'' then go (conv_number 16 w precision flags st)
      else if c = ch CHR ''d'' \<or> c = ch CHR ''i'' then go (conv_number 10 w precision (flags OR SIGN) st)
      else if c = ch CHR ''u'' then go (conv_number 10 w precision flags st)
      else if c = ch CHR ''n''
      then go (map_option (\<lambda>(ip, args). st\<lparr>vs_args := args, vs_stores := vs_stores st @ [(ip, word_of_nat (length (vs_out st)))]\<rparr>)
                 (va_int (vs_args st)))
      else Some (tl fmt, put ((if c \<noteq> ch CHR ''%'' then [ch CHR ''%''] else []) @ (if c \<noteq> 0 then [c] else [])) (vs_args st) st))"

definition directive :: "u8 list \<Rightarrow> vs_state \<Rightarrow> (u8 list \<times> vs_state) option" where
  "directive fmt st =
     (case get_flags fmt 0 of (flags, fmt) \<Rightarrow>
      case get_width fmt flags (vs_args st) of
        None \<Rightarrow> None
      | Some (w, flags, fmt, args) \<Rightarrow>
          (case get_precision fmt args of
             None \<Rightarrow> None
           | Some (precision, fmt, args) \<Rightarrow>
               convert (skip_qualifier fmt) flags w precision (st\<lparr>vs_args := args\<rparr>)))"

lemma skip_atoi_shorter: "length (snd (skip_atoi fmt i)) \<le> length fmt"
  by (induction fmt i rule: skip_atoi.induct) auto

lemma get_flags_shorter: "length (snd (get_flags fmt flags)) \<le> length fmt"
  by (induction fmt flags rule: get_flags.induct) auto

lemma get_width_shorter: "get_width fmt flags args = Some (w, flags', fmt', args') \<Longrightarrow> length fmt' \<le> length fmt"
  using skip_atoi_shorter [of fmt 0] by (auto simp: get_width_def split: if_splits prod.splits)

lemma get_precision_shorter: "get_precision fmt args = Some (p, fmt', args') \<Longrightarrow> length fmt' \<le> length fmt"
  using skip_atoi_shorter [of "tl fmt" 0] by (auto simp: get_precision_def Let_def split: if_splits prod.splits)

lemma convert_rest: "convert fmt flags w p st = Some (fmt', st') \<Longrightarrow> fmt' = tl fmt"
  by (auto simp: convert_def Let_def split: if_splits)

lemma directive_shorter: "directive fmt st = Some (fmt', st') \<Longrightarrow> length fmt' \<le> length fmt"
  using get_flags_shorter [of fmt 0]
  by (auto simp: directive_def skip_qualifier_def split: prod.splits option.splits if_splits
      dest!: convert_rest get_width_shorter get_precision_shorter)

text \<open>The loop over the format.\<close>

function vs_loop :: "u8 list \<Rightarrow> vs_state \<Rightarrow> vs_state option" where
  "vs_loop [] st = Some st"
| "vs_loop (c # fmt) st =
     (if c \<noteq> ch CHR ''%'' then vs_loop fmt (put [c] (vs_args st) st)
      else case directive fmt st of None \<Rightarrow> None | Some (fmt', st') \<Rightarrow> vs_loop fmt' st')"
  by pat_completeness auto

termination
  by (relation "measure (\<lambda>(fmt, st). length fmt)") (auto dest: directive_shorter)

text \<open>The bytes written, the value returned and the stores of \<open>%n\<close>.\<close>

definition vsprintf :: "u8 list \<Rightarrow> va list \<Rightarrow> (u8 list \<times> u32 \<times> (u32 \<times> u32) list) option" where
  "vsprintf fmt args =
     map_option (\<lambda>st. (vs_out st @ [0], word_of_nat (length (vs_out st)), vs_stores st))
       (vs_loop fmt \<lparr>vs_out = [], vs_args = args, vs_stores = []\<rparr>)"

end
