(* ===== verification/Printing.thy ===== *)
theory Printing
  imports Vsprintf
begin

text \<open>
  Correctness of formatted numbers: the digits printed are those of the number, \<open>skip_atoi\<close>
  reads them back, and a field has exactly the width asked for.
\<close>

section \<open>The value of a list of digits\<close>

definition digit_val :: "u8 \<Rightarrow> nat" where
  "digit_val c = (if unat c < 58 then unat c - 48 else if unat c < 91 then unat c - 55 else unat c - 87)"

definition digits_val :: "nat \<Rightarrow> nat \<Rightarrow> u8 list \<Rightarrow> nat" where
  "digits_val b = foldl (\<lambda>v c. v * b + digit_val c)"

lemma digits_table:
  "list_all (\<lambda>k. digit_val (ch (''0123456789abcdefghijklmnopqrstuvwxyz'' ! k)) = k \<and>
     digit_val (ch (''0123456789ABCDEFGHIJKLMNOPQRSTUVWXYZ'' ! k)) = k \<and>
     (k < 10 \<longrightarrow> is_digit (ch (''0123456789abcdefghijklmnopqrstuvwxyz'' ! k)) \<and>
        is_digit (ch (''0123456789ABCDEFGHIJKLMNOPQRSTUVWXYZ'' ! k)))) [0..<36]"
  by code_simp

lemma digit_val_digits:
  assumes "k < 36"
  shows "digit_val (ch (digits type ! k)) = k" and "k < 10 \<Longrightarrow> is_digit (ch (digits type ! k))"
proof -
  have "k \<in> set [0..<36]" using assms by simp
  with digits_table show "digit_val (ch (digits type ! k)) = k" "k < 10 \<Longrightarrow> is_digit (ch (digits type ! k))"
    unfolding list_all_iff digits_def by (simp_all del: set_upt upt_rec_numeral)
qed

lemma tmp_digits_value:
  assumes "2 \<le> unat base" "unat base \<le> 36" "unat num < unat base ^ k"
  shows "\<exists>tmp. tmp_digits k (digits type) num base = Some tmp \<and> digits_val (unat base) 0 (rev tmp) = unat num \<and>
     length tmp \<le> k \<and> (unat base \<le> 10 \<longrightarrow> list_all is_digit tmp)"
  using assms(3)
proof (induction k arbitrary: num)
  case 0
  then show ?case by (simp add: unat_eq_zero digits_val_def)
next
  case (Suc k)
  show ?case
  proof (cases "num = 0")
    case True
    then show ?thesis by (simp add: digits_val_def)
  next
    case False
    have "unat (num div base) < unat base ^ k"
      using Suc.prems by (simp add: unat_div less_mult_imp_div_less mult.commute)
    from Suc.IH [OF this] obtain tmp where tmp: "tmp_digits k (digits type) (num div base) base = Some tmp"
      "digits_val (unat base) 0 (rev tmp) = unat (num div base)" "length tmp \<le> k" "unat base \<le> 10 \<longrightarrow> list_all is_digit tmp" by blast
    have r: "unat (num mod base) < unat base" using assms(1) by (simp add: unat_mod)
    then have r36: "unat (num mod base) < 36" using assms(2) by linarith
    have "digits_val (unat base) 0 (rev (ch (digits type ! unat (num mod base)) # tmp)) =
        unat num div unat base * unat base + unat num mod unat base"
      using tmp(2) digit_val_digits(1) [OF r36] by (simp add: digits_val_def unat_div unat_mod)
    then show ?thesis using tmp False digit_val_digits(2) [OF r36] r by (auto simp: do_div_def)
  qed
qed

lemma base_36: "unat (base :: u32) \<le> 36 \<Longrightarrow> 2 \<le> unat base \<Longrightarrow> unat (num :: u32) < unat base ^ 36"
proof -
  assume "2 \<le> unat base"
  then have "2 ^ 36 \<le> unat base ^ 36" by (rule power_mono) simp
  moreover have "unat num < 2 ^ 32" using unsigned_less [where w = num and 'a = nat] by simp
  moreover have "(2 :: nat) ^ 32 \<le> 2 ^ 36" by simp
  ultimately show ?thesis by (meson less_le_trans order_trans)
qed

text \<open>The digits of a number, most significant first, as \<open>number\<close> prints them.\<close>

definition digits_of :: "u32 \<Rightarrow> u32 \<Rightarrow> u32 \<Rightarrow> u8 list" where
  "digits_of type base num = (if num = 0 then [ch CHR ''0''] else rev (the (tmp_digits 36 (digits type) num base)))"

lemma ch_values:
  "ch CHR ''0'' = 48" "ch CHR ''9'' = 57" "ch CHR ''%'' = 37" "ch CHR ''-'' = 45" "ch CHR ''+'' = 43" "ch CHR '' '' = 32"
  "ch CHR ''#'' = 35" "ch CHR ''*'' = 42" "ch CHR ''.'' = 46" "ch CHR ''h'' = 104" "ch CHR ''l'' = 108" "ch CHR ''L'' = 76"
  "ch CHR ''c'' = 99" "ch CHR ''s'' = 115" "ch CHR ''o'' = 111" "ch CHR ''p'' = 112" "ch CHR ''x'' = 120" "ch CHR ''X'' = 88"
  "ch CHR ''d'' = 100" "ch CHR ''i'' = 105" "ch CHR ''u'' = 117" "ch CHR ''n'' = 110"
  by code_simp+

lemma ch_0: "digit_val (ch CHR ''0'') = 0" "is_digit (ch CHR ''0'')"
  by code_simp+

lemma digits_of_value:
  assumes "2 \<le> unat base" "unat base \<le> 36"
  shows "digits_val (unat base) 0 (digits_of type base num) = unat num" "length (digits_of type base num) \<le> 36"
    "unat base \<le> 10 \<Longrightarrow> list_all is_digit (digits_of type base num)" "digits_of type base num \<noteq> []"
    "(if num = 0 then Some [ch CHR ''0''] else tmp_digits 36 (digits type) num base) = Some (rev (digits_of type base num))"
proof -
  obtain tmp where tmp: "tmp_digits 36 (digits type) num base = Some tmp" "digits_val (unat base) 0 (rev tmp) = unat num"
    "length tmp \<le> 36" "unat base \<le> 10 \<longrightarrow> list_all is_digit tmp"
    using tmp_digits_value [OF assms base_36 [OF assms(2,1)]] by blast
  show "digits_val (unat base) 0 (digits_of type base num) = unat num" "length (digits_of type base num) \<le> 36"
    "unat base \<le> 10 \<Longrightarrow> list_all is_digit (digits_of type base num)"
    "(if num = 0 then Some [ch CHR ''0''] else tmp_digits 36 (digits type) num base) = Some (rev (digits_of type base num))"
    using tmp ch_0 by (auto simp: digits_of_def digits_val_def)
  have "digits_val (unat base) 0 [] = 0" by (simp add: digits_val_def)
  then show "digits_of type base num \<noteq> []" using tmp(1,2) by (auto simp: digits_of_def unat_eq_zero)
qed

section \<open>The width of a field\<close>

lemma sint_diff: "- 2147483648 \<le> sint a - sint b \<Longrightarrow> sint a - sint b < 2147483648 \<Longrightarrow> sint (a - b :: u32) = sint a - sint b"
  by (simp add: sint_word_ariths signed_take_bit_int_eq_self)

lemma sint_small: "k < 2147483648 \<Longrightarrow> sint (word_of_nat k :: u32) = int k"
  using sint_unat [of "word_of_nat k"] by (simp add: unat_of_nat)

lemma sint_pred: "sint n \<noteq> - 2147483648 \<Longrightarrow> sint (n - 1 :: u32) = sint n - 1"
proof -
  assume "sint n \<noteq> - 2147483648"
  moreover have "- 2147483648 \<le> sint n" "sint n < 2147483648"
    using sint_greater_eq [of n] sint_less [of n] by simp_all
  ultimately show ?thesis using sint_diff [of n 1] by simp
qed

text \<open>The first of several padding loops does all the work.\<close>

lemma pad_length: "length (fst (pad c n)) = nat (sint n)"
  by (simp add: pad_def)

lemma pad_rest: "- 2147483648 < sint n \<Longrightarrow> sint (snd (pad c n)) = (if 0 < sint n then -1 else sint n - 1)"
  using sint_pred [of n] by (auto simp: pad_def word_sless_alt)

lemma pad_nothing: "sint n \<le> 0 \<Longrightarrow> fst (pad c n) = []"
  by (simp add: pad_def)

lemma has_or: "has t (a OR b) \<longleftrightarrow> has t a \<or> has t b"
  by (simp add: has_def bit.conj_disj_distrib or_eq_0_iff)

lemma has_17: "has t (ZEROPAD + LEFT) \<longleftrightarrow> has t ZEROPAD \<or> has t LEFT"
  using has_or [of t 1 16] by simp

lemma has_clear: "has (t AND NOT ZEROPAD) ZEROPAD = False" 
  "f AND ZEROPAD = 0 \<Longrightarrow> has (t AND NOT ZEROPAD) f = has t f"
proof -
  have "(t AND NOT ZEROPAD) AND ZEROPAD = 0" by (simp add: and.assoc)
  then show "has (t AND NOT ZEROPAD) ZEROPAD = False" by (simp add: has_def)
  assume "f AND ZEROPAD = 0"
  moreover have "f = (f AND ZEROPAD) OR (f AND NOT ZEROPAD)" unfolding bit.conj_disj_distrib [symmetric] by simp
  ultimately have "f AND NOT ZEROPAD = f" by simp
  moreover have "(t AND NOT ZEROPAD) AND f = t AND (f AND NOT ZEROPAD)" by (simp only: ac_simps)
  ultimately have "(t AND NOT ZEROPAD) AND f = t AND f" by simp
  then show "has (t AND NOT ZEROPAD) f = has t f" by (simp add: has_def)
qed

text \<open>
  The three padding loops of \<open>number\<close>, by the flags: together they write as many bytes as are
  missing from the field.
\<close>

lemma pads_length:
  assumes "- 2147483640 < sint n"
    and "(p1, n1) = (if a then pad x n else ([], n))" "(p2, n2) = (if b then pad y n1 else ([], n1))" "(p3, n3) = pad z n2"
  shows "length p1 + length p2 + length p3 = nat (sint n)"
proof -
  have p: "p1 = (if a then fst (pad x n) else [])" "n1 = (if a then snd (pad x n) else n)"
    "p2 = (if b then fst (pad y n1) else [])" "n2 = (if b then snd (pad y n1) else n1)" "p3 = fst (pad z n2)"
    using assms(2-4) by (auto split: if_splits dest: arg_cong [of _ _ fst] arg_cong [of _ _ snd] simp: prod_eq_iff)
  show ?thesis using assms(1) unfolding p
    by (auto simp: pad_rest pad_nothing pad_length)
qed

definition shown :: "u32 \<Rightarrow> u32 \<Rightarrow> u32" where
  "shown type num = (if has type SIGN \<and> num <s 0 then - num else num)"

lemma left_flags:
  fixes type :: u32
  defines "type' \<equiv> (if has type LEFT then type AND NOT ZEROPAD else type)"
  shows "sign_of type' num = sign_of type num" "prefix_of type' base = prefix_of type base" "has type' LEFT = has type LEFT"
    "shown type' num = shown type num" "has type' SPECIAL = has type SPECIAL"
proof -
  have h: "has type' f = has type f" if "f AND ZEROPAD = 0" for f using has_clear(2) [OF that] by (simp add: type'_def)
  then show "sign_of type' num = sign_of type num" "prefix_of type' base = prefix_of type base" "has type' LEFT = has type LEFT"
    "shown type' num = shown type num" "has type' SPECIAL = has type SPECIAL"
    by (simp_all add: sign_of_def prefix_of_def digits_def shown_def)
qed

lemma length_prefix: "length (prefix_of type base) = (if has type SPECIAL then if base = 16 then 2 else if base = 8 then 1 else 0 else 0)"
  by (simp add: prefix_of_def)

lemma small_base: "2 \<le> unat base \<Longrightarrow> unat base \<le> 36 \<Longrightarrow> \<not> (base <s 2 \<or> 36 <s base)" for base :: u32
  using sint_unat [of base] by (simp add: word_sless_alt del: of_nat_unat)

lemma number_exec:
  fixes num base sz precision type :: u32
  defines "digs \<equiv> digits_of type base (shown type num)"
  defines "i \<equiv> word_of_nat (length digs) :: u32"
  defines "prec \<equiv> if precision <s i then i else precision"
  defines "rest \<equiv> sz - word_of_nat (length (sign_of type num)) - word_of_nat (length (prefix_of type base)) - prec"
  assumes base: "2 \<le> unat base" "unat base \<le> 36" and rest: "- 2147483640 < sint rest"
  obtains p1 p2 p3 where "number num base sz precision type =
     Some (Some (p1 @ sign_of type num @ prefix_of type base @ p2 @ replicate (nat (sint prec - sint i)) (ch CHR ''0'') @ digs @ p3))"
    "length p1 + length p2 + length p3 = nat (sint rest)"
proof -
  let ?type = "if has type LEFT then type AND NOT ZEROPAD else type"
  let ?c = "if has ?type ZEROPAD then ch CHR ''0'' else ch CHR '' ''"
  obtain p1 n1 where e1: "(if \<not> has ?type (ZEROPAD + LEFT) then pad (ch CHR '' '') rest else ([], rest)) = (p1, n1)" by fastforce
  obtain p2 n2 where e2: "(if \<not> has type LEFT then pad ?c n1 else ([], n1)) = (p2, n2)" by fastforce
  obtain p3 n3 where e3: "pad (ch CHR '' '') n2 = (p3, n3)" by fastforce
  note flags = left_flags [of type]
  have sz: "(if has type SPECIAL then if base = 16 then sz - word_of_nat (length (sign_of type num)) - 2
       else if base = 8 then sz - word_of_nat (length (sign_of type num)) - 1 else sz - word_of_nat (length (sign_of type num))
       else sz - word_of_nat (length (sign_of type num))) - prec = rest"
    by (simp add: rest_def length_prefix)
  have "number num base sz precision type =
     Some (Some (p1 @ sign_of type num @ prefix_of type base @ p2 @ replicate (nat (sint prec - sint i)) (ch CHR ''0'') @ digs @ p3))"
    unfolding number_def Let_def if_not_P [OF small_base [OF base]] shown_def [symmetric] flags
      digits_of_value(5) [OF base, of "shown type num" type] option.case digs_def [symmetric] length_rev i_def [symmetric]
      prec_def [symmetric] sz e1 prod.case e2 e3 rev_rev_ident ..
  moreover have "length p1 + length p2 + length p3 = nat (sint rest)"
    by (rule pads_length [OF rest e1 [symmetric] e2 [symmetric] e3 [symmetric]])
  ultimately show thesis by (rule that)
qed

text \<open>
  C35: \<open>number\<close> never overruns its 36-byte buffer, for any number, base from 2 to 36, and flags,
  and what it writes has exactly the width of a field: the width asked for, or the length of
  sign, prefix and digits (at least \<open>precision\<close> of them) when that is more.
\<close>

theorem number_width:
  assumes base: "2 \<le> unat base" "unat base \<le> 36"
    and "-1 \<le> sint sz" "sint sz < 1073741824" "-1 \<le> sint precision" "sint precision < 1073741824"
  shows "\<exists>cs. number num base sz precision type = Some (Some cs) \<and>
     int (length cs) = max (sint sz) (int (length (sign_of type num)) + int (length (prefix_of type base)) +
       max (sint precision) (int (length (digits_of type base (shown type num)))))"
proof -
  let ?d = "length (digits_of type base (shown type num))" let ?i = "word_of_nat ?d :: u32"
  let ?p = "if precision <s ?i then ?i else precision"
  let ?g = "length (sign_of type num)" let ?x = "length (prefix_of type base)"
  have d: "?d \<le> 36" by (rule digits_of_value(2) [OF base])
  have gx: "?g \<le> 1" "?x \<le> 2" by (simp_all add: sign_of_def length_prefix)
  have i: "sint ?i = int ?d" using d by (intro sint_small) simp
  then have p: "sint ?p = max (sint precision) (int ?d)" by (simp add: word_sless_alt)
  have "sint (sz - word_of_nat ?g) = sint sz - int ?g"
    using sint_diff [of sz "word_of_nat ?g"] sint_small [of ?g] gx assms(3,4) by simp
  then have "sint (sz - word_of_nat ?g - word_of_nat ?x) = sint sz - int ?g - int ?x"
    using sint_diff [of "sz - word_of_nat ?g" "word_of_nat ?x"] sint_small [of ?x] gx assms(3,4) by simp
  then have r: "sint (sz - word_of_nat ?g - word_of_nat ?x - ?p) = sint sz - int ?g - int ?x - max (sint precision) (int ?d)"
    using sint_diff [of "sz - word_of_nat ?g - word_of_nat ?x" ?p] p gx d assms(3-6) by simp
  have "- 2147483640 < sint (sz - word_of_nat ?g - word_of_nat ?x - ?p)" unfolding r using gx d assms(3-6) by simp
  then obtain p1 p2 p3 where run: "number num base sz precision type =
      Some (Some (p1 @ sign_of type num @ prefix_of type base @ p2 @ replicate (nat (sint ?p - sint ?i)) (ch CHR ''0'') @
        digits_of type base (shown type num) @ p3))"
    "length p1 + length p2 + length p3 = nat (sint (sz - word_of_nat ?g - word_of_nat ?x - ?p))"
    by (rule number_exec [OF base])
  show ?thesis using run(2) unfolding run(1) r p i by simp
qed

theorem number_width_witness:
  "\<exists>cs. number (-42) 10 6 (-1) (SIGN OR ZEROPAD) = Some (Some cs) \<and> length cs = 6"
proof -
  have "int (length (digits_of (SIGN OR ZEROPAD) 10 (shown (SIGN OR ZEROPAD) (-42)))) = 2 \<and>
      sign_of (SIGN OR ZEROPAD) (-42) = [ch CHR ''-''] \<and> prefix_of (SIGN OR ZEROPAD) 10 = []"
    by code_simp
  then show ?thesis using number_width [of 10 6 "-1" "-42" "SIGN OR ZEROPAD"] by auto
qed

section \<open>Printing and reading\<close>

lemma skip_atoi_digits:
  "list_all is_digit cs \<Longrightarrow> skip_atoi cs (word_of_nat v) = (word_of_nat (digits_val 10 v cs), [])"
proof (induction cs arbitrary: v)
  case (Cons c cs)
  then have "48 \<le> unat c \<and> unat c \<le> 57" by (simp add: is_digit_def ch_values word_le_nat_alt)
  then have "word_of_nat v * 10 + ucast c - 48 = (word_of_nat (v * 10 + digit_val c) :: u32)"
    by (simp add: digit_val_def of_nat_diff)
  with Cons have "skip_atoi (c # cs) (word_of_nat v) = skip_atoi cs (word_of_nat (v * 10 + digit_val c))" by (simp only: skip_atoi.simps list.pred_inject if_True)
  then show ?case using Cons by (simp add: digits_val_def del: of_nat_add of_nat_mult)
qed (simp add: digits_val_def)

lemma number_plain:
  assumes base: "2 \<le> unat base" "unat base \<le> 36" and "\<not> has type PLUS" "\<not> has type SPACE" "\<not> has type SPECIAL"
  shows "number num base (-1) (-1) type =
     Some (Some ((if has type SIGN \<and> num <s 0 then [ch CHR ''-''] else []) @ digits_of type base (shown type num)))"
proof -
  let ?d = "length (digits_of type base (shown type num))" let ?i = "word_of_nat ?d :: u32"
  let ?g = "length (sign_of type num)"
  have d: "?d \<le> 36" "?d \<noteq> 0" using digits_of_value(2,4) [OF base, of type "shown type num"] by simp_all
  have sg: "sign_of type num = (if has type SIGN \<and> num <s 0 then [ch CHR ''-''] else [])" "prefix_of type base = []"
    using assms by (simp_all add: sign_of_def prefix_of_def)
  have i: "sint ?i = int ?d" using d by (intro sint_small) simp
  then have lt: "-1 <s ?i" by (simp add: word_sless_alt)
  have "sint (-1 - word_of_nat ?g :: u32) = -1 - int ?g"
    using sint_diff [of "-1" "word_of_nat ?g"] sint_small [of ?g] sg by simp
  then have r: "sint (-1 - word_of_nat ?g - ?i) = -1 - int ?g - int ?d"
    using sint_diff [of "-1 - word_of_nat ?g" ?i] i d sg by simp
  have "- 2147483640 < sint (-1 - word_of_nat ?g - word_of_nat (length (prefix_of type base)) - (if -1 <s ?i then ?i else -1))"
    using r d lt sg by simp
  then obtain p1 p2 p3 where run: "number num base (-1) (-1) type =
      Some (Some (p1 @ sign_of type num @ prefix_of type base @ p2 @
        replicate (nat (sint (if -1 <s ?i then ?i else -1) - sint ?i)) (ch CHR ''0'') @ digits_of type base (shown type num) @ p3))"
    "length p1 + length p2 + length p3 = nat (sint (-1 - word_of_nat ?g - word_of_nat (length (prefix_of type base)) - (if -1 <s ?i then ?i else -1)))"
    by (rule number_exec [OF base])
  have "p1 = []" "p2 = []" "p3 = []" using run(2) lt r sg by simp_all
  then show ?thesis unfolding run(1) using lt sg by simp
qed

lemmas format_simps = directive_def get_width_def get_precision_def skip_qualifier_def convert_def conv_number_def
  at_def is_digit_def ch_values put_def Let_def

lemma vsprintf_u: "vsprintf [ch CHR ''%'', ch CHR ''u''] [Va n] =
    Some (digits_of 0 10 n @ [0], word_of_nat (length (digits_of 0 10 n)), [])"
proof -
  have "number n 10 (-1) (-1) 0 = Some (Some (digits_of 0 10 n))" using number_plain [of 10 0 n] by (simp add: has_def shown_def)
  then show ?thesis by (simp add: vsprintf_def format_simps)
qed

lemma vsprintf_d: "vsprintf [ch CHR ''%'', ch CHR ''d''] [Va n] =
    (let cs = (if n <s 0 then [ch CHR ''-''] else []) @ digits_of SIGN 10 (if n <s 0 then - n else n)
     in Some (cs @ [0], word_of_nat (length cs), []))"
proof -
  have "number n 10 (-1) (-1) SIGN = Some (Some ((if n <s 0 then [ch CHR ''-''] else []) @ digits_of SIGN 10 (if n <s 0 then - n else n)))"
    using number_plain [of 10 SIGN n] by (simp add: has_def shown_def)
  then show ?thesis by (simp add: vsprintf_def format_simps)
qed

text \<open>
  Printing and reading are inverse, for all 32-bit numbers: with \<open>%u\<close>, \<open>vsprintf\<close> writes
  digits that \<open>skip_atoi\<close> reads back as the number, and with \<open>%d\<close> a minus sign exactly for the
  negative numbers, followed by digits that it reads back as the absolute value (also for the
  least number, whose absolute value is no \<open>int\<close>). The value returned is the number of bytes
  written without the final null.
\<close>

theorem print_read_roundtrip:
  "(\<exists>cs. vsprintf [ch CHR ''%'', ch CHR ''u''] [Va n] = Some (cs @ [0], word_of_nat (length cs), []) \<and> skip_atoi cs 0 = (n, [])) \<and>
   (\<exists>cs. vsprintf [ch CHR ''%'', ch CHR ''d''] [Va n] =
       Some ((if n <s 0 then ch CHR ''-'' # cs else cs) @ [0], word_of_nat (length (if n <s 0 then ch CHR ''-'' # cs else cs)), []) \<and>
     skip_atoi cs 0 = (if n <s 0 then - n else n, []))"
proof -
  have read: "skip_atoi (digits_of type 10 k) 0 = (k, [])" for type k
  proof -
    have base: "2 \<le> unat (10 :: u32)" "unat (10 :: u32) \<le> 36" by simp_all
    have "list_all is_digit (digits_of type 10 k)" "digits_val 10 0 (digits_of type 10 k) = unat k"
      using digits_of_value(1,3) [OF base, of type k] by simp_all
    then show ?thesis using skip_atoi_digits [of "digits_of type 10 k" 0] by simp
  qed
  have "skip_atoi (digits_of 0 10 n) 0 = (n, [])"
    "skip_atoi (digits_of SIGN 10 (if n <s 0 then - n else n)) 0 = (if n <s 0 then - n else n, [])" by (rule read)+
  then show ?thesis unfolding vsprintf_u vsprintf_d Let_def
    by (intro conjI exI [of _ "digits_of 0 10 n"] exI [of _ "digits_of SIGN 10 (if n <s 0 then - n else n)"]) simp_all
qed

text \<open>
  A width taken from the arguments does not work: \<open>vsprintf\<close> takes the argument but leaves
  the format at the asterisk, which it then prints, so that the conversion after it is printed
  as text and its argument is never used.
\<close>

theorem star_width_prints_itself:
  "vsprintf [ch CHR ''%'', ch CHR ''*'', ch CHR ''d''] [Va w, Va n] =
     Some ([ch CHR ''%'', ch CHR ''*'', ch CHR ''d'', 0], 3, [])"
  by (simp add: vsprintf_def format_simps)

end
