(* ===== verification/Uprint.thy ===== *)
theory Uprint
  imports Printing
begin

text \<open>
  The formatted output of the user programs, \<^verbatim>\<open>user/uprint.c\<close>. What a call does is the list of its write
  system calls, each with the descriptor and the bytes; the functions ignore what the calls return. Formats and
  arguments are as in \<^verbatim>\<open>kernel/vsprintf.c\<close>; \<open>None\<close> stands for an argument that is missing or of
  the other kind, for a read past the end of the format and for a write outside of a buffer. The second part
  compares the output with the formatting of the kernel.
\<close>

section \<open>Characters and numbers\<close>

type_synonym writes = "(u32 \<times> u8 list) list"

definition up_write_raw :: "u32 \<Rightarrow> u8 list \<Rightarrow> writes" where
  "up_write_raw fd buf = [(fd, buf)]"

definition up_putc :: "u32 \<Rightarrow> u8 \<Rightarrow> writes" where
  "up_putc fd c = up_write_raw fd [c]"

primrec up_puts :: "u32 \<Rightarrow> u8 list \<Rightarrow> writes" where
  "up_puts fd [] = []"
| "up_puts fd (c # s) = up_putc fd c @ up_puts fd s"

text \<open>The loop of \<open>up_num\<close> with \<open>k\<close> bytes of the buffer left before \<open>p\<close>.\<close>

primrec num_digits :: "nat \<Rightarrow> string \<Rightarrow> u32 \<Rightarrow> u32 \<Rightarrow> u8 list \<Rightarrow> u8 list option" where
  "num_digits 0 ds v base p = None"
| "num_digits (Suc k) ds v base p =
     (let p = ch (ds ! unat (v mod base)) # p; v = v div base in
      if v = 0 then Some p else num_digits k ds v base p)"

definition up_num :: "u32 \<Rightarrow> u32 \<Rightarrow> u32 \<Rightarrow> bool \<Rightarrow> writes option" where
  "up_num fd v base upper =
     map_option (up_puts fd)
       (num_digits 11 (if upper then ''0123456789ABCDEF'' else ''0123456789abcdef'') v base [])"

text \<open>A signed number: the sign, then the number as unsigned.\<close>

definition up_signed :: "u32 \<Rightarrow> u32 \<Rightarrow> writes option" where
  "up_signed fd v =
     (if v <s 0 then map_option ((@) (up_putc fd (ch CHR ''-''))) (up_num fd (- v) 10 False)
      else up_num fd v 10 False)"

section \<open>\<open>up_printf\<close>\<close>

text \<open>A conversion of a word argument: the writes and the arguments left.\<close>

definition with_int :: "(u32 \<Rightarrow> writes option) \<Rightarrow> va list \<Rightarrow> (writes \<times> va list) option" where
  "with_int f args =
     (case va_int args of
        None \<Rightarrow> None
      | Some (v, args) \<Rightarrow> map_option (\<lambda>ws. (ws, args)) (f v))"

definition with_str :: "(u8 list \<Rightarrow> writes) \<Rightarrow> va list \<Rightarrow> (writes \<times> va list) option" where
  "with_str f args = map_option (\<lambda>(s, args). (f s, args)) (va_string args)"

text \<open>\<open>while (fmt[1] >= '0' && fmt[1] <= '9') fmt++\<close>, with \<open>c\<close> the byte at \<open>fmt\<close>.\<close>

fun skip_width :: "u8 \<Rightarrow> u8 list \<Rightarrow> u8 \<times> u8 list" where
  "skip_width c [] = (c, [])"
| "skip_width c (d # fmt) = (if is_digit d then skip_width d fmt else (c, d # fmt))"

text \<open>
  The switch on the byte after the percent sign; the result has the format after the conversion. At the end of the
  format the loop goes on behind the terminating null.
\<close>

definition up_directive :: "u8 list \<Rightarrow> va list \<Rightarrow> (writes \<times> u8 list \<times> va list) option" where
  "up_directive fmt args =
     (case fmt of
        [] \<Rightarrow> None
      | c # r \<Rightarrow>
          let go = (\<lambda>r. map_option (\<lambda>(ws, args). (ws, r, args)));
              text = (\<lambda>cs r. Some (concat (map (up_putc 1) cs), r, args)) in
          if c = ch CHR ''s'' then go r (with_str (up_puts 1) args)
          else if c = ch CHR ''c'' then go r (with_int (\<lambda>v. Some (up_putc 1 (ucast v))) args)
          else if c = ch CHR ''d'' then go r (with_int (up_signed 1) args)
          else if c = ch CHR ''u'' then go r (with_int (\<lambda>v. up_num 1 v 10 False) args)
          else if c = ch CHR ''x'' then go r (with_int (\<lambda>v. up_num 1 v 16 False) args)
          else if c = ch CHR ''%'' then text [ch CHR ''%''] r
          else if c = ch CHR ''l''
          then if at r = ch CHR ''x'' then go (tl r) (with_int (\<lambda>v. up_num 1 v 16 False) args)
               else if at r = ch CHR ''d'' then go (tl r) (with_int (up_signed 1) args)
               else text [ch CHR ''%'', ch CHR ''l''] r
          else if is_digit c
          then case skip_width c r of (c, r) \<Rightarrow>
               if at r = ch CHR ''x'' then go (tl r) (with_int (\<lambda>v. up_num 1 v 16 False) args)
               else text [ch CHR ''%'', c] r
          else text [ch CHR ''%'', c] r)"

lemma skip_width_shorter: "length (snd (skip_width c fmt)) \<le> length fmt"
  by (induction c fmt rule: skip_width.induct) auto

lemma up_directive_shorter: "up_directive fmt args = Some (ws, fmt', args') \<Longrightarrow> length fmt' < length fmt"
  using skip_width_shorter [of "hd fmt" "tl fmt"]
  by (auto simp: up_directive_def Let_def split: list.splits if_splits prod.splits)

function up_loop :: "u8 list \<Rightarrow> va list \<Rightarrow> writes option" where
  "up_loop [] args = Some []"
| "up_loop (c # fmt) args =
     (if c \<noteq> ch CHR ''%'' then map_option ((@) (up_putc 1 c)) (up_loop fmt args)
      else case up_directive fmt args of
             None \<Rightarrow> None
           | Some (ws, fmt', args') \<Rightarrow> map_option ((@) ws) (up_loop fmt' args'))"
  by pat_completeness auto

termination
  by (relation "measure (\<lambda>(fmt, args). length fmt)") (auto dest: up_directive_shorter)

definition up_printf :: "u8 list \<Rightarrow> va list \<Rightarrow> (writes \<times> u32) option" where
  "up_printf fmt args = map_option (\<lambda>ws. (ws, 0)) (up_loop fmt args)"

section \<open>\<open>up_printf2\<close>\<close>

definition up2_directive :: "u8 list \<Rightarrow> va list \<Rightarrow> (writes \<times> u8 list \<times> va list) option" where
  "up2_directive fmt args =
     (case fmt of
        [] \<Rightarrow> None
      | c # r \<Rightarrow>
          let go = map_option (\<lambda>(ws, args). (ws, r, args)) in
          if c = ch CHR ''s'' then go (with_str (up_puts 2) args)
          else if c = ch CHR ''d'' then go (with_int (up_signed 2) args)
          else if c = ch CHR ''x'' then go (with_int (\<lambda>v. up_num 2 v 16 False) args)
          else Some (up_write_raw 2 [ch CHR ''%'', c], r, args))"

lemma up2_directive_shorter: "up2_directive fmt args = Some (ws, fmt', args') \<Longrightarrow> length fmt' < length fmt"
  by (auto simp: up2_directive_def Let_def split: list.splits if_splits)

text \<open>A run of ordinary bytes is one write.\<close>

function up2_loop :: "u8 list \<Rightarrow> va list \<Rightarrow> writes option" where
  "up2_loop [] args = Some []"
| "up2_loop (c # fmt) args =
     (if c \<noteq> ch CHR ''%''
      then map_option ((@) (up_write_raw 2 (takeWhile (\<lambda>c. c \<noteq> ch CHR ''%'') (c # fmt))))
             (up2_loop (dropWhile (\<lambda>c. c \<noteq> ch CHR ''%'') (c # fmt)) args)
      else case up2_directive fmt args of
             None \<Rightarrow> None
           | Some (ws, fmt', args') \<Rightarrow> map_option ((@) ws) (up2_loop fmt' args'))"
  by pat_completeness auto

termination
  by (relation "measure (\<lambda>(fmt, args). length fmt)")
    (auto dest: up2_directive_shorter intro: le_less_trans [OF length_dropWhile_le])

definition up_printf2 :: "u8 list \<Rightarrow> va list \<Rightarrow> (writes \<times> u32) option" where
  "up_printf2 fmt args = map_option (\<lambda>ws. (ws, 0)) (up2_loop fmt args)"

section \<open>The digits\<close>

text \<open>The bytes that the writes put out.\<close>

definition written :: "writes \<Rightarrow> u8 list" where
  "written ws = concat (map snd ws)"

lemma written_simps [simp]:
  "written [] = []" "written (ws @ ws') = written ws @ written ws'" "written (up_putc fd c) = [c]"
  "written (up_write_raw fd cs) = cs" "written (up_puts fd cs) = cs"
  by (simp_all add: written_def up_putc_def up_write_raw_def) (induction cs, simp_all add: up_putc_def up_write_raw_def)

lemma tmp_digits_mono: "tmp_digits k ds num base = Some tmp \<Longrightarrow> k \<le> m \<Longrightarrow> tmp_digits m ds num base = Some tmp"
proof (induction k arbitrary: num tmp m)
  case 0
  then show ?case by (cases m) (auto split: if_splits)
next
  case (Suc k)
  then obtain m' where m: "m = Suc m'" "k \<le> m'" by (cases m) auto
  show ?case
  proof (cases "num = 0")
    case False
    obtain r q where rq: "do_div num base = (r, q)" by fastforce
    obtain tmp' where tmp: "tmp_digits k ds q base = Some tmp'" "tmp = ch (ds ! unat r) # tmp'" using Suc.prems(1) False rq by auto
    then show ?thesis using Suc.IH [OF tmp(1) m(2)] False rq m(1) by simp
  qed (use Suc.prems m in simp)
qed

lemma num_digits_tmp:
  assumes "\<forall>r<unat base. ds' ! r = ds ! r" "0 < unat base" "tmp_digits k ds v base = Some tmp" "v \<noteq> 0"
  shows "num_digits k ds' v base p = Some (rev tmp @ p)"
  using assms(3,4)
proof (induction k arbitrary: v tmp p)
  case (Suc k)
  then obtain tmp' where tmp: "tmp_digits k ds (v div base) base = Some tmp'" "tmp = ch (ds ! unat (v mod base)) # tmp'"
    by (auto simp: do_div_def)
  have "unat (v mod base) < unat base" using assms(2) by (simp add: unat_mod)
  then have d: "ds' ! unat (v mod base) = ds ! unat (v mod base)" using assms(1) by simp
  show ?case
  proof (cases "v div base = 0")
    case True
    then have "tmp' = []" using tmp(1) by (cases k) auto
    then show ?thesis using True tmp(2) d by simp
  next
    case False
    then show ?thesis using Suc.IH [OF tmp(1) False] tmp(2) d by (simp add: Let_def)
  qed
qed simp

lemma digit_tables:
  "list_all (\<lambda>r. ''0123456789abcdef'' ! r = ''0123456789abcdefghijklmnopqrstuvwxyz'' ! r) [0..<16]"
  "list_all (\<lambda>r. ''0123456789abcdef'' ! r = ''0123456789ABCDEFGHIJKLMNOPQRSTUVWXYZ'' ! r) [0..<10]"
  by code_simp+

lemma hex_digits:
  assumes "r < 10 \<or> r < 16 \<and> has type SMALL"
  shows "''0123456789abcdef'' ! r = digits type ! r"
proof (cases "has type SMALL")
  case True
  have "r \<in> set [0..<16]" using assms by auto
  with digit_tables(1) show ?thesis unfolding list_all_iff digits_def if_P [OF True] by blast
next
  case False
  have "r \<in> set [0..<10]" using assms False by auto
  with digit_tables(2) show ?thesis unfolding list_all_iff digits_def if_not_P [OF False] by blast
qed

text \<open>The twelve bytes of the buffer are enough, and the digits are those of the kernel.\<close>

lemma up_num_digits:
  assumes "base = 10 \<or> base = 16 \<and> type = SMALL"
  shows "up_num fd v base False = Some (up_puts fd (digits_of type base v))"
proof -
  have base: "2 \<le> unat base" "unat base \<le> 36" using assms by auto
  have eq: "\<forall>r<unat base. ''0123456789abcdef'' ! r = digits type ! r"
    using assms by (auto intro!: hex_digits simp del: nth.simps simp: has_def)
  show ?thesis
  proof (cases "v = 0")
    case True
    have "num_digits 11 ds 0 base [] = Some [ch (ds ! 0)]" for ds by (simp add: eval_nat_numeral)
    then show ?thesis using True by (simp add: up_num_def digits_of_def)
  next
    case False
    have "unat v < 2 ^ 32" using unsigned_less [where w = v and 'a = nat] by simp
    moreover have "(10 :: nat) ^ 11 \<le> unat base ^ 11" using assms by (intro power_mono) auto
    ultimately have "unat v < unat base ^ 11" by simp
    then obtain tmp where tmp: "tmp_digits 11 (digits type) v base = Some tmp" using tmp_digits_value [OF base, of v 11] by blast
    then have "tmp_digits 36 (digits type) v base = Some tmp" by (rule tmp_digits_mono) simp
    moreover have "num_digits 11 ''0123456789abcdef'' v base [] = Some (rev tmp @ [])"
      using base by (intro num_digits_tmp [OF eq _ tmp False]) simp
    ultimately show ?thesis using False by (simp add: up_num_def digits_of_def)
  qed
qed

lemma up_signed_digits: "up_signed fd v =
   Some ((if v <s 0 then up_putc fd (ch CHR ''-'') else []) @ up_puts fd (digits_of SIGN 10 (if v <s 0 then - v else v)))"
  by (simp add: up_signed_def up_num_digits [of 10 SIGN])

section \<open>Agreement with the kernel\<close>

text \<open>
  Formats whose conversions both functions know: \<open>%s\<close>, \<open>%c\<close>, \<open>%d\<close>, \<open>%u\<close>, \<open>%x\<close>, \<open>%%\<close>, \<open>%ld\<close>, \<open>%lx\<close>, and
  a percent sign before a byte that begins no conversion of either.
\<close>

fun common :: "u8 list \<Rightarrow> bool" where
  "common [] \<longleftrightarrow> True"
| "common (c # fmt) \<longleftrightarrow>
     (if c \<noteq> ch CHR ''%'' then common fmt
      else case fmt of
             [] \<Rightarrow> False
           | d # r \<Rightarrow>
               if d = ch CHR ''l''
               then (case r of [] \<Rightarrow> False | e # r' \<Rightarrow> (e = ch CHR ''x'' \<or> e = ch CHR ''d'') \<and> common r')
               else \<not> is_digit d \<and> d \<noteq> 0 \<and> d \<notin> ch ` set ''-+ #*.hLopXin'' \<and> common r)"

text \<open>Strings whose length is an \<open>int\<close>.\<close>

fun short :: "va \<Rightarrow> bool" where
  "short (Va n) \<longleftrightarrow> True"
| "short (Va_str s) \<longleftrightarrow> length s < 2147483648"

lemma conv_number_plain:
  assumes "base = 10 \<or> base = 16" "\<not> has flags PLUS" "\<not> has flags SPACE" "\<not> has flags SPECIAL"
  shows "conv_number base (-1) (-1) flags st =
    map_option (\<lambda>(n, args). put ((if has flags SIGN \<and> n <s 0 then [ch CHR ''-''] else []) @ digits_of flags base (shown flags n)) args st)
      (va_int (vs_args st))"
proof -
  have "2 \<le> unat base" "unat base \<le> 36" using assms(1) by auto
  from number_plain [OF this assms(2-4)] show ?thesis by (simp add: conv_number_def split: option.split)
qed

lemma conv_string_plain:
  assumes "\<forall>a\<in>set (vs_args st). short a"
  shows "conv_string 0 (-1) (-1) st = map_option (\<lambda>(s, args). put s args st) (va_string (vs_args st))"
proof (cases "va_string (vs_args st)")
  case (Some r)
  then obtain s args where r: "vs_args st = Va_str s # args" "r = (s, args)" by (auto elim!: va_string.elims)
  then have "length s < 2147483648" using assms by simp
  then have "sint (word_of_nat (length s) :: u32) = int (length s)" by (rule sint_small)
  then show ?thesis using r Some by (simp add: conv_string_def pad_to_def word_sless_alt)
qed (simp add: conv_string_def)

lemma special_values: "ch ` set ''-+ #*.hLopXin'' = {45, 43, 32, 35, 42, 46, 104, 76, 111, 112, 88, 105, 110}"
  by (simp add: ch_values)

lemma directive_start:
  assumes "\<not> is_digit d" "d \<notin> ch ` set ''-+ #*.hLopXin''"
  shows "directive (d # r) st = convert (if d = ch CHR ''l'' then r else d # r) 0 (-1) (-1) st"
proof -
  have "d \<noteq> 48" using assms(1) by (auto simp: is_digit_def ch_values)
  then have "get_flags (d # r) 0 = (0, d # r)" using assms(2) by (simp add: special_values ch_values)
  moreover have "get_width (d # r) 0 args = Some (-1, 0, d # r, args)" for args
    using assms by (simp add: get_width_def at_def special_values ch_values)
  moreover have "get_precision (d # r) args = Some (-1, d # r, args)" for args
    using assms by (simp add: get_precision_def at_def special_values ch_values)
  moreover have "skip_qualifier (d # r) = (if d = ch CHR ''l'' then r else d # r)"
    using assms by (simp add: skip_qualifier_def at_def special_values ch_values)
  ultimately show ?thesis by (simp add: directive_def)
qed

lemma with_int_signed:
  "with_int (up_signed fd) args = map_option (\<lambda>(n, args). ((if n <s 0 then up_putc fd (ch CHR ''-'') else []) @
     up_puts fd (digits_of SIGN 10 (if n <s 0 then - n else n)), args)) (va_int args)"
  by (cases "va_int args") (simp_all add: with_int_def up_signed_digits split: prod.split)

lemma with_int_num:
  assumes "base = 10 \<or> base = 16 \<and> type = SMALL"
  shows "with_int (\<lambda>v. up_num fd v base False) args = map_option (\<lambda>(n, args). (up_puts fd (digits_of type base n), args)) (va_int args)"
  by (cases "va_int args") (simp_all add: with_int_def up_num_digits [OF assms] split: prod.split)

lemma conv_signed: "conv_number 10 (-1) (-1) SIGN st =
    map_option (\<lambda>(ws, args). put (written ws) args st) (with_int (up_signed 1) (vs_args st))"
  by (cases "va_int (vs_args st)")
    (simp_all add: conv_number_plain with_int_signed has_def shown_def split: prod.split)

lemma conv_unsigned:
  assumes "base = 10 \<and> flags = 0 \<or> base = 16 \<and> flags = SMALL"
  shows "conv_number base (-1) (-1) flags st =
    map_option (\<lambda>(ws, args). put (written ws) args st) (with_int (\<lambda>v. up_num 1 v base False) (vs_args st))"
proof -
  have "\<not> has flags SIGN" "base = 10 \<or> base = 16" "\<not> has flags PLUS" "\<not> has flags SPACE" "\<not> has flags SPECIAL"
    using assms by (auto simp: has_def)
  moreover have "base = 10 \<or> base = 16 \<and> flags = SMALL" using assms by auto
  ultimately show ?thesis
    by (cases "va_int (vs_args st)") (simp_all add: conv_number_plain with_int_num [of base flags] shown_def split: prod.split)
qed

lemma conv_text: "conv_string 0 (-1) (-1) st =
    map_option (\<lambda>(ws, args). put (written ws) args st) (with_str (up_puts 1) (vs_args st))"
  if "\<forall>a\<in>set (vs_args st). short a"
  using conv_string_plain [OF that] by (cases "va_string (vs_args st)") (auto simp: with_str_def)

lemma conv_byte: "conv_char 0 (-1) st =
    map_option (\<lambda>(ws, args). put (written ws) args st) (with_int (\<lambda>v. Some (up_putc 1 (ucast v))) (vs_args st))"
  by (cases "va_int (vs_args st)") (auto simp: conv_char_def with_int_def pad_before_def has_def)

lemma directive_common:
  assumes "common (ch CHR ''%'' # fmt)" "\<forall>a\<in>set (vs_args st). short a"
  shows "directive fmt st =
    map_option (\<lambda>(ws, fmt', args'). (fmt', put (written ws) args' st)) (up_directive fmt (vs_args st))"
proof -
  obtain d r where fmt: "fmt = d # r" using assms(1) by (cases fmt) auto
  have sel: "map_option (Pair rr) (map_option (\<lambda>(ws, args). put (written ws) args st) x) =
      map_option (\<lambda>(ws, fmt', args'). (fmt', put (written ws) args' st)) (map_option (\<lambda>(ws, args). (ws, rr, args)) x)" for rr x
    by (simp add: option.map_comp comp_def split_def)
  show ?thesis
  proof (cases "d = ch CHR ''l''")
    case True
    then obtain e r' where r: "r = e # r'" "e = ch CHR ''x'' \<or> e = ch CHR ''d''" using assms(1) fmt by (auto simp: ch_values split: list.splits)
    have "directive fmt st = convert r 0 (-1) (-1) st"
      using directive_start [of d r st] True fmt by (simp add: is_digit_def special_values ch_values)
    then show ?thesis using r(2) True sel [of r'] conv_signed [of st] conv_unsigned [of 16 SMALL st]
      by (auto simp: fmt r(1) convert_def up_directive_def at_def ch_values)
  next
    case False
    then have d: "\<not> is_digit d" "d \<notin> ch ` set ''-+ #*.hLopXin''" "d \<noteq> 0" using assms(1) fmt by (auto split: if_splits)
    have "directive fmt st = convert (d # r) 0 (-1) (-1) st"
      using directive_start [OF d(1,2), of r st] False fmt by simp
    then show ?thesis
      using d False sel [of r] conv_signed [of st] conv_unsigned [of 16 SMALL st] conv_unsigned [of 10 0 st] conv_text [OF assms(2)] conv_byte [of st]
      by (simp add: fmt convert_def up_directive_def at_def special_values) (auto simp: ch_values put_def)
  qed
qed

text \<open>Each write puts one byte to standard output.\<close>

definition bytewise :: "writes \<Rightarrow> bool" where
  "bytewise ws \<longleftrightarrow> (\<forall>(fd, cs) \<in> set ws. fd = 1 \<and> length cs = 1)"

lemma bytewise_simps [simp]:
  "bytewise []" "bytewise (ws @ ws') \<longleftrightarrow> bytewise ws \<and> bytewise ws'" "bytewise (up_putc 1 c)"
  by (auto simp: bytewise_def up_putc_def up_write_raw_def)

lemma bytewise_puts [simp]: "bytewise (up_puts 1 cs)"
  by (induction cs) simp_all

lemma va_rest: "va_int args = Some (n, args') \<Longrightarrow> set args' \<subseteq> set args" "va_string args = Some (x, args') \<Longrightarrow> set args' \<subseteq> set args"
  by (auto elim!: va_int.elims va_string.elims)

lemma conversion_rest:
  "with_str (up_puts 1) args = Some (ws, args') \<Longrightarrow> bytewise ws \<and> set args' \<subseteq> set args"
  "with_int (\<lambda>v. Some (up_putc 1 (ucast v))) args = Some (ws, args') \<Longrightarrow> bytewise ws \<and> set args' \<subseteq> set args"
  "with_int (up_signed 1) args = Some (ws, args') \<Longrightarrow> bytewise ws \<and> set args' \<subseteq> set args"
  "with_int (\<lambda>v. up_num 1 v 10 False) args = Some (ws, args') \<Longrightarrow> bytewise ws \<and> set args' \<subseteq> set args"
  "with_int (\<lambda>v. up_num 1 v 16 False) args = Some (ws, args') \<Longrightarrow> bytewise ws \<and> set args' \<subseteq> set args"
  using va_rest [of args]
  by (auto simp: with_str_def with_int_def up_signed_digits up_num_digits [of 10 0] up_num_digits [of 16 SMALL] split: option.splits prod.splits)

lemma up_directive_rest:
  assumes "common (ch CHR ''%'' # fmt)" "up_directive fmt args = Some (ws, fmt', args')"
  shows "common fmt' \<and> bytewise ws \<and> set args' \<subseteq> set args"
proof -
  obtain d r where fmt: "fmt = d # r" using assms(1) by (cases fmt) auto
  show ?thesis
  proof (cases "d = ch CHR ''l''")
    case True
    then obtain e r' where r: "r = e # r'" "e = ch CHR ''x'' \<or> e = ch CHR ''d''" "common r'"
      using assms(1) fmt by (auto simp: ch_values split: list.splits)
    have "fmt' = r'" "bytewise ws \<and> set args' \<subseteq> set args"
      using assms(2) True r(2) unfolding fmt r(1) up_directive_def
      by (auto simp: at_def ch_values split: if_splits dest: conversion_rest)
    then show ?thesis using r(3) by simp
  next
    case False
    then have "\<not> is_digit d" "common r" using assms(1) fmt by (auto split: if_splits)
    moreover have "fmt' = r \<and> bytewise ws \<and> set args' \<subseteq> set args" if "\<not> is_digit d"
      using assms(2) False that unfolding fmt up_directive_def Let_def
      by (auto split: if_splits dest: conversion_rest)
    ultimately show ?thesis by simp
  qed
qed

lemma up_loop_common:
  assumes "common fmt" "\<forall>a\<in>set (vs_args st). short a"
  shows "case up_loop fmt (vs_args st) of
      None \<Rightarrow> vs_loop fmt st = None
    | Some ws \<Rightarrow> bytewise ws \<and> (\<exists>args'. vs_loop fmt st = Some (put (written ws) args' st))"
  using assms
proof (induction fmt "vs_args st" arbitrary: st rule: up_loop.induct)
  case 1
  have "put [] (vs_args st) st = st" by (simp add: put_def)
  then show ?case by (simp add: exI [of _ "vs_args st"])
next
  case (2 c fmt)
  show ?case
  proof (cases "c = ch CHR ''%''")
    case False
    let ?st = "put [c] (vs_args st) st"
    have "vs_args st = vs_args ?st" by (simp add: put_def)
    then have IH: "case up_loop fmt (vs_args ?st) of None \<Rightarrow> vs_loop fmt ?st = None
        | Some ws \<Rightarrow> bytewise ws \<and> (\<exists>args'. vs_loop fmt ?st = Some (put (written ws) args' ?st))"
      using "2.prems" False by (intro "2.hyps"(1) [OF False]) simp_all
    have "put ws args' ?st = put (c # ws) args' st" for ws args' by (simp add: put_def)
    then show ?thesis using IH False by (cases "up_loop fmt (vs_args st)") (simp_all add: put_def)
  next
    case True
    note D = directive_common [of fmt st] and R = up_directive_rest [of fmt "vs_args st"]
    have cm: "common (ch CHR ''%'' # fmt)" using "2.prems"(1) True by simp
    show ?thesis
    proof (cases "up_directive fmt (vs_args st)")
      case None
      then show ?thesis using D [OF cm "2.prems"(2)] True by simp
    next
      case (Some p)
      obtain ws fmt' args' where p: "up_directive fmt (vs_args st) = Some (ws, fmt', args')" using Some by (cases p) auto
      let ?st = "put (written ws) args' st"
      have run: "directive fmt st = Some (fmt', ?st)" using D [OF cm "2.prems"(2)] p by simp
      have rest: "common fmt'" "bytewise ws" "\<forall>a\<in>set (vs_args ?st). short a"
        using R [OF cm p] "2.prems"(2) by (auto simp: put_def)
      have "args' = vs_args ?st" by (simp add: put_def)
      then have IH: "case up_loop fmt' (vs_args ?st) of None \<Rightarrow> vs_loop fmt' ?st = None
        | Some ws' \<Rightarrow> bytewise ws' \<and> (\<exists>a. vs_loop fmt' ?st = Some (put (written ws') a ?st))"
        using rest True by (intro "2.hyps"(2) [OF _ p]) simp_all
      have "put cs a ?st = put (written ws @ cs) a st" for cs a by (simp add: put_def)
      then show ?thesis using IH rest(2) True run p by (cases "up_loop fmt' args'") (simp_all add: put_def)
    qed
  qed
qed

text \<open>
  C38: User programs print as the kernel does: for every format whose conversions both know and all arguments, \<open>up_printf\<close>
  has no defined meaning exactly when \<open>vsprintf\<close> has none (an argument is missing or of the wrong kind), and otherwise the
  bytes it writes, one by one to standard output, are those that \<open>vsprintf\<close> puts into its buffer before the null. In
  particular the twelve bytes of \<open>up_num\<close> hold every number, and the least \<open>int\<close> prints correctly.
\<close>

theorem up_printf_prints_vsprintf:
  assumes "common fmt" "\<forall>a\<in>set args. short a"
  shows "case up_printf fmt args of
      None \<Rightarrow> vsprintf fmt args = None
    | Some (ws, r) \<Rightarrow> r = 0 \<and> (\<forall>(fd, cs) \<in> set ws. fd = 1 \<and> length cs = 1) \<and>
        vsprintf fmt args = Some (concat (map snd ws) @ [0], word_of_nat (length ws), [])"
proof -
  let ?st = "\<lparr>vs_out = [], vs_args = args, vs_stores = []\<rparr>"
  have len: "length (written ws) = length ws" if "bytewise ws" for ws
    using that by (induction ws) (auto simp: bytewise_def written_def)
  show ?thesis using up_loop_common [OF assms(1), of ?st] assms(2) len
    by (auto simp: up_printf_def vsprintf_def put_def bytewise_def written_def split: option.splits)
qed

theorem up_printf_prints_vsprintf_witness:
  "up_printf [ch CHR ''%'', ch CHR ''d'', ch CHR ''='', ch CHR ''%'', ch CHR ''l'', ch CHR ''x''] [Va 0x80000000, Va 255] \<noteq> None \<and>
   (case up_printf [ch CHR ''%'', ch CHR ''d'', ch CHR ''='', ch CHR ''%'', ch CHR ''l'', ch CHR ''x''] [Va 0x80000000, Va 255] of
      None \<Rightarrow> False
    | Some (ws, r) \<Rightarrow> vsprintf [ch CHR ''%'', ch CHR ''d'', ch CHR ''='', ch CHR ''%'', ch CHR ''l'', ch CHR ''x''] [Va 0x80000000, Va 255] =
        Some (concat (map snd ws) @ [0], 14, []))"
proof -
  have c: "common [ch CHR ''%'', ch CHR ''d'', ch CHR ''='', ch CHR ''%'', ch CHR ''l'', ch CHR ''x'']"
    "map_option (\<lambda>(ws, r). length ws)
       (up_printf [ch CHR ''%'', ch CHR ''d'', ch CHR ''='', ch CHR ''%'', ch CHR ''l'', ch CHR ''x''] [Va 0x80000000, Va 255]) = Some 14"
    by code_simp+
  show ?thesis using up_printf_prints_vsprintf [OF c(1), of "[Va 0x80000000, Va 255]"] c(2)
    by (auto split: option.splits)
qed

end
