(* ===== verification/Shell.thy ===== *)
theory Shell
  imports Vsprintf "HOL-Library.Signed_Division"
begin

text \<open>
  The shell, \<^verbatim>\<open>user/sh.c\<close>. The system behind the \<^verbatim>\<open>ecall\<close> of its stubs is a
  parameter, a record of functions on a world of any type that give the value of register a0; the stubs themselves,
  the macros \<^verbatim>\<open>_syscall0\<close> to \<^verbatim>\<open>_syscall3\<close> of
  \<^verbatim>\<open>include/unistd.h\<close>, are modelled. A string is the list of its bytes without the final null;
  \<open>None\<close> stands for an access outside of an array. The shell never looks at what \<open>write\<close> returns.
\<close>

type_synonym bytes = "u8 list"

abbreviation str :: "string \<Rightarrow> bytes" where
  "str \<equiv> map ch"

section \<open>System calls\<close>

text \<open>
  \<open>os_fork\<close> gets what the child does until it is gone; \<open>os_execve\<close> gets the strings of the vector up to its null pointer
  and gives \<open>Inr\<close> when the program ran in place of the caller until it exited, and \<open>Inl\<close> the value of a0 when the call
  returns.
\<close>

record 'w os =
  os_write :: "u32 \<Rightarrow> bytes \<Rightarrow> 'w \<Rightarrow> u32 \<times> 'w"
  os_read :: "u32 \<Rightarrow> nat \<Rightarrow> 'w \<Rightarrow> (u32 \<times> bytes) \<times> 'w"
  os_open :: "bytes \<Rightarrow> u32 \<Rightarrow> u32 \<Rightarrow> 'w \<Rightarrow> u32 \<times> 'w"
  os_close :: "u32 \<Rightarrow> 'w \<Rightarrow> u32 \<times> 'w"
  os_chdir :: "bytes \<Rightarrow> 'w \<Rightarrow> u32 \<times> 'w"
  os_fork :: "('w \<Rightarrow> 'w) \<Rightarrow> 'w \<Rightarrow> u32 \<times> 'w"
  os_execve :: "bytes \<Rightarrow> bytes list \<Rightarrow> 'w \<Rightarrow> (u32 \<times> 'w) + 'w"
  os_exit :: "u32 \<Rightarrow> 'w \<Rightarrow> 'w"
  os_waitpid :: "u32 \<Rightarrow> u32 \<Rightarrow> 'w \<Rightarrow> u32 \<times> 'w"

record 'w shell =
  sh_cwd :: bytes
  sh_errno :: u32
  sh_world :: 'w

text \<open>The body of a stub: the result and \<open>errno\<close> from the value of a0.\<close>

definition syscall_result :: "u32 \<Rightarrow> 'w \<Rightarrow> 'w shell \<Rightarrow> u32 \<times> 'w shell" where
  "syscall_result a0 w s =
     (if 0 \<le>s a0 then (a0, s\<lparr>sh_world := w\<rparr>) else (-1, s\<lparr>sh_world := w, sh_errno := - a0\<rparr>))"

definition syscall :: "('w \<Rightarrow> u32 \<times> 'w) \<Rightarrow> 'w shell \<Rightarrow> u32 \<times> 'w shell" where
  "syscall f s = (case f (sh_world s) of (a0, w) \<Rightarrow> syscall_result a0 w s)"

text \<open>\<open>read\<close> of at most \<open>k\<close> bytes into an array of \<open>sz\<close> bytes.\<close>

definition sh_read :: "'w os \<Rightarrow> u32 \<Rightarrow> nat \<Rightarrow> nat \<Rightarrow> 'w shell \<Rightarrow> ((u32 \<times> bytes) \<times> 'w shell) option" where
  "sh_read os fd sz k s =
     (if sz < k then None
      else case os_read os fd k (sh_world s) of ((a0, cs), w) \<Rightarrow>
           case syscall_result a0 w s of (n, s) \<Rightarrow> Some ((n, cs), s))"

definition wait :: "'w os \<Rightarrow> 'w shell \<Rightarrow> u32 \<times> 'w shell" where
  "wait os = syscall (os_waitpid os (-1) 0)"

section \<open>Output\<close>

definition wstr :: "'w os \<Rightarrow> bytes \<Rightarrow> 'w shell \<Rightarrow> 'w shell" where
  "wstr os cs s = snd (syscall (os_write os 1 cs) s)"

text \<open>The digits of \<open>wnum\<close>, with \<open>k\<close> bytes of the buffer left before \<open>p\<close>.\<close>

primrec wnum_digits :: "nat \<Rightarrow> int \<Rightarrow> bytes \<Rightarrow> bytes option" where
  "wnum_digits 0 v p = None"
| "wnum_digits (Suc k) v p =
     (let p = word_of_int (48 + v smod 10) # p; v = v sdiv 10 in
      if v = 0 then Some p else wnum_digits k v p)"

definition wnum :: "'w os \<Rightarrow> u32 \<Rightarrow> 'w shell \<Rightarrow> 'w shell option" where
  "wnum os v s =
     (let (v, s) = (if v <s 0 then (- v, wstr os (str ''-'') s) else (v, s)) in
      map_option (\<lambda>cs. wstr os cs s) (wnum_digits 11 (sint v) []))"

section \<open>Commands of the shell\<close>

text \<open>\<open>while (n > 1 && new[n - 1] == '/') new[--n] = 0\<close>\<close>

function strip_slashes :: "bytes \<Rightarrow> bytes" where
  "strip_slashes new =
     (if 1 < length new \<and> last new = ch CHR ''/'' then strip_slashes (butlast new) else new)"
  by pat_completeness auto

termination
  by (relation "measure length") auto

declare strip_slashes.simps [simp del]

definition do_cd :: "'w os \<Rightarrow> bytes option \<Rightarrow> 'w shell \<Rightarrow> (u32 \<times> 'w shell) option" where
  "do_cd os arg s =
     (let arg = (case arg of None \<Rightarrow> str ''/'' | Some a \<Rightarrow> if a = [] then str ''/'' else a);
          chdir_to = (\<lambda>new.
            case syscall (os_chdir os new) s of (r, s) \<Rightarrow>
            if r <s 0 then Some (-1, s)
            else
              let new = strip_slashes new;
                  new = (if new = [] then str ''/'' else new) in
              if length new < 256 then Some (0, s\<lparr>sh_cwd := new\<rparr>) else None) in
      if hd arg = ch CHR ''/''
      then if 256 \<le> length arg then Some (-1, s) else chdir_to arg
      else
        let new = (if sh_cwd s = str ''/'' then [] else sh_cwd s) in
        if 256 \<le> length new then None
        else if 256 \<le> length new + 1 + length arg then Some (-1, s)
        else chdir_to (new @ str ''/'' @ arg))"

text \<open>The arguments after the first; a null pointer among them is an access outside of a string.\<close>

primrec echo_loop :: "'w os \<Rightarrow> bool \<Rightarrow> bytes option list \<Rightarrow> 'w shell \<Rightarrow> 'w shell option" where
  "echo_loop os later [] s = Some s"
| "echo_loop os later (a # argv) s =
     (case a of
        None \<Rightarrow> None
      | Some cs \<Rightarrow> echo_loop os True argv (wstr os cs (if later then wstr os (str '' '') s else s)))"

definition do_echo :: "'w os \<Rightarrow> bytes option list \<Rightarrow> nat \<Rightarrow> 'w shell \<Rightarrow> 'w shell option" where
  "do_echo os argv n s =
     (if length argv < n then None
      else map_option (wstr os [10]) (echo_loop os False (take n argv) s))"

text \<open>The string that starts at \<open>p\<close> in an array.\<close>

definition cstr :: "bytes \<Rightarrow> nat \<Rightarrow> bytes" where
  "cstr b p = takeWhile (\<lambda>c. c \<noteq> 0) (drop p b)"

definition ls_entry :: "'w os \<Rightarrow> bytes \<Rightarrow> nat \<Rightarrow> 'w shell \<Rightarrow> 'w shell" where
  "ls_entry os buf off s =
     (let ino = ucast (buf ! off) OR push_bit 8 (ucast (buf ! (off + 1))) :: u16;
          name = take 14 (drop (off + 2) buf) @ [0] in
      if ino = 0 then s
      else if name ! 0 = ch CHR ''.'' \<and> (name ! 1 = 0 \<or> name ! 1 = ch CHR ''.'') then s
      else wstr os (str ''  '') (wstr os (cstr name 0) s))"

function ls_loop :: "'w os \<Rightarrow> bytes \<Rightarrow> nat \<Rightarrow> nat \<Rightarrow> 'w shell \<Rightarrow> 'w shell option" where
  "ls_loop os buf n off s =
     (if off + 16 \<le> n
      then if length buf < off + 16 then None else ls_loop os buf n (off + 16) (ls_entry os buf off s)
      else Some s)"
  by pat_completeness auto

termination
  by (relation "measure (\<lambda>(os, buf, n, off, s). n - off)") auto

declare ls_loop.simps [simp del]

definition do_ls :: "'w os \<Rightarrow> bytes \<Rightarrow> 'w shell \<Rightarrow> 'w shell option" where
  "do_ls os dir s =
     (case syscall (os_open os dir 0 0) s of (fd, s) \<Rightarrow>
      if fd <s 0
      then
        let s = wstr os (str '' errno='') (wstr os dir (wstr os (str ''ls: cannot open '') s)) in
        map_option (wstr os [10]) (wnum os (sh_errno s) s)
      else
        case sh_read os fd 1024 1024 s of
          None \<Rightarrow> None
        | Some ((n, buf), s) \<Rightarrow>
            let s = snd (syscall (os_close os fd) s) in
            map_option (wstr os [10]) (ls_loop os buf (nat (sint n)) 0 s))"

section \<open>Lines\<close>

definition blank :: "u8 \<Rightarrow> bool" where
  "blank c \<longleftrightarrow> c = ch CHR '' '' \<or> c = 9"

text \<open>
  The loop that cuts the line at its blanks. The line ends with a null; \<open>argv\<close> holds offsets into it, and \<open>i\<close>
  is the number of the last argument.
\<close>

function split_loop :: "nat \<Rightarrow> nat \<Rightarrow> nat option list \<Rightarrow> bytes \<Rightarrow> nat \<times> nat option list \<times> bytes" where
  "split_loop n i argv line =
     (if n < length line \<and> line ! n \<noteq> 0
      then if blank (line ! n)
           then let line = line[n := 0] in
                if i < 7 \<and> line ! (n + 1) \<noteq> 0
                then split_loop (n + 1) (i + 1) (argv[i + 1 := Some (n + 1)]) line
                else split_loop (n + 1) i argv line
           else split_loop (n + 1) i argv line
      else (i, argv, line))"
  by pat_completeness auto

termination
  by (relation "measure (\<lambda>(n, i, argv, line). length line - n)") (auto simp: Let_def)

declare split_loop.simps [simp del]

text \<open>The index of the last argument and the eight entries of \<open>argv\<close>.\<close>

definition split_line :: "bytes \<Rightarrow> nat \<times> bytes option list" where
  "split_line l =
     (case split_loop 0 0 (Some 0 # replicate 7 None) (l @ [0]) of (i, argv, line) \<Rightarrow>
      (i, map (map_option (cstr line)) argv))"

text \<open>\<open>while (n > 0 && (line[n - 1] == '\r' || line[n - 1] == '\n')) line[--n] = 0\<close>\<close>

definition chomp :: "bytes \<Rightarrow> bytes" where
  "chomp l = rev (dropWhile (\<lambda>c. c = 13 \<or> c = 10) (rev l))"

text \<open>The strings of a vector up to its null pointer; \<open>None\<close> when it has none inside of its array.\<close>

primrec vector :: "bytes option list \<Rightarrow> bytes list option" where
  "vector [] = None"
| "vector (a # argv) = (case a of None \<Rightarrow> Some [] | Some cs \<Rightarrow> map_option ((#) cs) (vector argv))"

text \<open>The program \<open>/bin/\<close> with the name of the command, run by a child.\<close>

definition child :: "'w os \<Rightarrow> bytes \<Rightarrow> bytes list \<Rightarrow> 'w shell \<Rightarrow> 'w \<Rightarrow> 'w" where
  "child os path args s w =
     (case os_execve os path args w of
        Inr w \<Rightarrow> w
      | Inl (a0, w) \<Rightarrow> os_exit os 127 (sh_world (wstr os (str ''? command not found'' @ [10]) (snd (syscall_result a0 w s)))))"

text \<open>When there is a child and the vector has no end, \<open>execve\<close> reads past the array; what the child does then does not matter.\<close>

definition run_program :: "'w os \<Rightarrow> bytes \<Rightarrow> bytes option list \<Rightarrow> 'w shell \<Rightarrow> 'w shell option" where
  "run_program os cmd argv s =
     (let path = str ''/bin/'' @ cmd in
      if 32 \<le> length path then None
      else
        case syscall (os_fork os (case vector argv of None \<Rightarrow> (\<lambda>w. w) | Some args \<Rightarrow> child os path args s)) s of (p, s) \<Rightarrow>
        if p <s 0 then Some s
        else if vector argv = None then None
        else Some (snd (wait os s)))"

text \<open>One line; the result is true when the shell leaves its loop.\<close>

definition run_line :: "'w os \<Rightarrow> bytes \<Rightarrow> 'w shell \<Rightarrow> (bool \<times> 'w shell) option" where
  "run_line os l s =
     (case split_line (chomp l) of (i, argv) \<Rightarrow>
      case argv ! 0 of
        None \<Rightarrow> None
      | Some cmd \<Rightarrow>
          if cmd = [] then Some (False, s)
          else if cmd = str ''exit'' then Some (True, s)
          else if cmd = str ''cd''
          then map_option (\<lambda>(r, s). (False, if r <s 0 then wstr os (str ''cd: no such directory'' @ [10]) s else s))
                 (do_cd os (argv ! 1) s)
          else if cmd = str ''pwd'' then Some (False, wstr os [10] (wstr os (sh_cwd s) s))
          else if cmd = str ''echo'' then map_option (Pair False) (do_echo os (tl argv) i s)
          else if cmd = str ''ls''
          then map_option (Pair False) (do_ls os (case argv ! 1 of Some d \<Rightarrow> d | None \<Rightarrow> str ''.'') s)
          else if length cmd < 24 then map_option (Pair False) (run_program os cmd argv s)
          else Some (False, wstr os (str ''? command too long'' @ [10]) s))"

lemma rest_shorter: "10 \<in> set text \<Longrightarrow> length (dropWhile (\<lambda>c. c \<noteq> (10 :: u8)) text) - 1 < length text"
  using length_dropWhile_le [of "\<lambda>c. c \<noteq> (10 :: u8)" "text"] by (cases "text") auto

text \<open>The lines of what was read: \<open>text\<close> is the string at \<open>line\<close>.\<close>

function run_lines :: "'w os \<Rightarrow> bytes \<Rightarrow> 'w shell \<Rightarrow> (bool \<times> 'w shell) option" where
  "run_lines os text s =
     (case run_line os (takeWhile (\<lambda>c. c \<noteq> 10) text) s of
        None \<Rightarrow> None
      | Some (logout, s) \<Rightarrow>
          if logout then Some (True, s)
          else if 10 \<in> set text then run_lines os (tl (dropWhile (\<lambda>c. c \<noteq> 10) text)) s
          else Some (False, s))"
  by pat_completeness auto

termination
  using rest_shorter by (relation "measure (\<lambda>(os, text, s). length text)") auto

declare run_lines.simps [simp del]

text \<open>
  The endless loop, at most \<open>fuel\<close> rounds of it: the result is \<open>Some 0\<close> when the shell has ended.
\<close>

primrec sh_main :: "nat \<Rightarrow> 'w os \<Rightarrow> 'w shell \<Rightarrow> (u32 option \<times> 'w shell) option" where
  "sh_main 0 os s = Some (None, s)"
| "sh_main (Suc fuel) os s =
     (case sh_read os 0 128 127 (wstr os (str ''sh# '') s) of
        None \<Rightarrow> None
      | Some ((n, buf), s) \<Rightarrow>
          let logout = (\<lambda>s. Some (Some 0, wstr os (str ''logout'' @ [10]) s)) in
          if n \<le>s 0 then logout s
          else if 127 <s n \<or> length buf < unat n then None
          else
            case run_lines os (cstr (take (unat n) buf @ [0]) 0) s of
              None \<Rightarrow> None
            | Some (True, s) \<Rightarrow> logout s
            | Some (False, s) \<Rightarrow> sh_main fuel os s)"

section \<open>Cutting a line\<close>

text \<open>The fields of a line: what is before, between and after its blanks. A blank at its end starts no field.\<close>

fun fields_of :: "bytes \<Rightarrow> bytes list" where
  "fields_of [] = [[]]"
| "fields_of (c # l) =
     (if blank c then if l = [] then [[]] else [] # fields_of l
      else (c # hd (fields_of l)) # tl (fields_of l))"

text \<open>Where the fields after the first one start, in a line that continues at offset \<open>n\<close>.\<close>

fun starts :: "nat \<Rightarrow> bytes \<Rightarrow> nat list" where
  "starts n [] = []"
| "starts n (c # l) = (if blank c \<and> l \<noteq> [] then Suc n # starts (Suc n) l else starts (Suc n) l)"

abbreviation cut :: "bytes \<Rightarrow> bytes" where
  "cut \<equiv> map (\<lambda>c. if blank c then 0 else c)"

lemma blank_0: "\<not> blank 0"
  by (simp add: blank_def ch_def)

lemma split_loop_exec:
  assumes "0 \<notin> set q" "i \<le> 7" "length as = Suc i"
  shows "split_loop (length p) i (map Some as @ replicate (7 - i) None) (p @ q @ [0]) =
    (let new = take (7 - i) (starts (length p) q) in
     (i + length new, map Some (as @ new) @ replicate (7 - i - length new) None, p @ cut q @ [0]))"
  using assms
proof (induction q arbitrary: p i as)
  case Nil
  show ?case by (simp add: split_loop.simps [of "length p"])
next
  case (Cons c q)
  have here: "(p @ (c # q) @ [0]) ! length p = c" "c \<noteq> 0" using Cons.prems(1) by (auto simp: nth_append)
  show ?case
  proof (cases "blank c")
    case False
    have "split_loop (length p) i argv (p @ (c # q) @ [0]) = split_loop (length (p @ [c])) i argv ((p @ [c]) @ q @ [0])" for argv
      using here False by (subst split_loop.simps) simp
    then show ?thesis using Cons.IH [of i as "p @ [c]"] Cons.prems False by simp
  next
    case True
    let ?line = "(p @ [0]) @ q @ [0]"
    have upd: "(p @ (c # q) @ [0])[length p := 0] = ?line" by simp
    have next0: "?line ! (length p + 1) = (if q = [] then 0 else hd q)" by (cases q) (auto simp: nth_append)
    have nz: "q \<noteq> [] \<Longrightarrow> hd q \<noteq> 0" using Cons.prems(1) by (cases q) auto
    have run: "split_loop (length p) i argv (p @ (c # q) @ [0]) =
        (if i < 7 \<and> q \<noteq> [] then split_loop (length (p @ [0])) (i + 1) (argv[i + 1 := Some (length p + 1)]) ?line
         else split_loop (length (p @ [0])) i argv ?line)" for argv
      unfolding split_loop.simps [of "length p" i argv "p @ (c # q) @ [0]"] upd Let_def next0 using here True nz by simp
    show ?thesis
    proof (cases "i < 7 \<and> q \<noteq> []")
      case more: True
      let ?as = "as @ [Suc (length p)]"
      obtain m where m: "7 - i = Suc m" "7 - Suc i = m" using more by (cases "7 - i") auto
      have "(map Some as @ replicate (7 - i) None)[i + 1 := Some (length p + 1)] = map Some ?as @ replicate (7 - Suc i) None"
        unfolding m using Cons.prems(3) by (simp add: list_update_append)
      then show ?thesis using run Cons.IH [of "Suc i" ?as "p @ [0]"] Cons.prems more True m by (simp add: Let_def)
    next
      case False
      then show ?thesis using run Cons.IH [of i as "p @ [0]"] Cons.prems True by auto
    qed
  qed
qed

lemma cstr_cut:
  assumes "0 \<notin> set l"
  shows "cstr (cut l @ [0]) k = takeWhile (\<lambda>c. \<not> blank c) (drop k l)"
proof -
  have tw: "takeWhile (\<lambda>c. c \<noteq> 0) (cut l @ [0]) = takeWhile (\<lambda>c. \<not> blank c) l" if "0 \<notin> set l" for l :: bytes
    using that by (induction l) (auto simp: blank_0)
  have "0 \<notin> set (drop k l)" using assms in_set_dropD by fast
  then show ?thesis using tw [of "drop k l"] by (cases "k \<le> length l") (simp_all add: cstr_def drop_map)
qed

lemma fields_hd: "fields_of l \<noteq> []" "hd (fields_of l) = takeWhile (\<lambda>c. \<not> blank c) l"
  by (induction l) auto

lemma fields_starts:
  "takeWhile (\<lambda>c. \<not> blank c) l # map (\<lambda>k. takeWhile (\<lambda>c. \<not> blank c) (drop k (p @ l))) (starts (length p) l) = fields_of l"
proof (induction l arbitrary: p)
  case (Cons c l)
  have IH: "map (\<lambda>k. takeWhile (\<lambda>c. \<not> blank c) (drop k (p @ c # l))) (starts (Suc (length p)) l) = tl (fields_of l)"
    using Cons [of "p @ [c]"] by (metis append.assoc append_Cons append_Nil length_append_singleton list.sel(3))
  have e: "fields_of l = takeWhile (\<lambda>c. \<not> blank c) l # tl (fields_of l)" using fields_hd [of l] by (cases "fields_of l") auto
  show ?case using IH e fields_hd(2) [of l] by (cases l) (auto simp del: fields_of.simps simp: fields_of.simps(2) fields_of.simps(1))
qed simp

lemma split_line_exec:
  assumes "0 \<notin> set l"
  shows "split_line l = (let ws = take 8 (fields_of l) in (length ws - 1, map Some ws @ replicate (8 - length ws) None))"
proof -
  let ?new = "take 7 (starts 0 l)"
  have "split_loop 0 0 (Some 0 # replicate 7 None) (l @ [0]) =
      (length ?new, map Some (0 # ?new) @ replicate (7 - length ?new) None, cut l @ [0])"
    using split_loop_exec [OF assms, of 0 "[0]" "[]"] by (simp add: Let_def)
  then have "split_line l = (length ?new, map (map_option (cstr (cut l @ [0]))) (map Some (0 # ?new) @ replicate (7 - length ?new) None))"
    by (simp add: split_line_def)
  moreover have "take 8 (fields_of l) = map (cstr (cut l @ [0])) (0 # ?new)"
    unfolding cstr_cut [OF assms] fields_starts [of l "[]", symmetric] by (simp add: take_map numeral_eq_Suc)
  ultimately show ?thesis by (simp add: Let_def)
qed

text \<open>
  C39: The shell cuts a line exactly at its blanks: \<open>argv\<close> holds the first eight fields of the line, in order and each as
  a string of its own, and null pointers in the remaining entries, and \<open>i\<close> is the index of the last one. Two blanks in
  a row give an empty argument, and with eight fields or more no entry is left for the null pointer that ends
  the vector.
\<close>

theorem split_line_fields:
  assumes "0 \<notin> set l"
  shows "\<exists>i argv. split_line l = (i, argv) \<and> length argv = 8 \<and> i = min 7 (length (fields_of l) - 1) \<and>
    (\<forall>k<8. argv ! k = (if k < length (fields_of l) then Some (fields_of l ! k) else None)) \<and>
    (None \<notin> set argv \<longleftrightarrow> 8 \<le> length (fields_of l))"
proof -
  let ?ws = "take 8 (fields_of l)" let ?argv = "map Some ?ws @ replicate (8 - length ?ws) None"
  have "length (fields_of l) \<noteq> 0" using fields_hd(1) by simp
  then have "length ?ws - 1 = min 7 (length (fields_of l) - 1)" unfolding length_take by linarith
  moreover have "?argv ! k = (if k < length (fields_of l) then Some (fields_of l ! k) else None)" if "k < 8" for k
    using that by (auto simp: nth_append min_def)
  moreover have "None \<notin> set ?argv \<longleftrightarrow> 8 \<le> length (fields_of l)" by auto
  ultimately show ?thesis using split_line_exec [OF assms] by (simp add: Let_def)
qed

theorem split_line_fields_witness:
  "snd (split_line (str ''echo  a b '')) ! 1 = Some [] \<and> snd (split_line (str ''echo  a b '')) ! 3 = Some (str ''b'') \<and>
   None \<in> set (snd (split_line (str ''echo  a b '')))"
proof -
  have f: "0 \<notin> set (str ''echo  a b '')" "fields_of (str ''echo  a b '') = [str ''echo'', [], str ''a'', str ''b'']"
    by code_simp+
  show ?thesis using split_line_fields [OF f(1)] unfolding f(2) by fastforce
qed

section \<open>Staying inside the arrays\<close>

text \<open>
  The current directory the shell keeps: an absolute path without trailing slashes that fits its array.
\<close>

definition cwd_ok :: "bytes \<Rightarrow> bool" where
  "cwd_ok c \<longleftrightarrow> c \<noteq> [] \<and> hd c = ch CHR ''/'' \<and> 0 \<notin> set c \<and> length c < 256 \<and> (1 < length c \<longrightarrow> last c \<noteq> ch CHR ''/'')"

text \<open>What \<open>read\<close> promises: no more bytes than asked for, and as many as it says.\<close>

definition read_ok :: "'w os \<Rightarrow> bool" where
  "read_ok os \<longleftrightarrow> (\<forall>fd k w n cs w'. os_read os fd k w = ((n, cs), w') \<longrightarrow> sint n \<le> int k \<and> (0 \<le> sint n \<longrightarrow> length cs = nat (sint n)))"

lemma keeps_cwd [simp]:
  "syscall f s = (r, t) \<Longrightarrow> sh_cwd t = sh_cwd s" "sh_cwd (wstr os cs s) = sh_cwd s" "sh_cwd (snd (syscall f s)) = sh_cwd s"
  "sh_read os fd z k s = Some (x, t) \<Longrightarrow> sh_cwd t = sh_cwd s" "sh_cwd (snd (wait os s)) = sh_cwd s"
  by (auto simp: syscall_def syscall_result_def wstr_def sh_read_def wait_def split: prod.splits if_splits)

lemma sh_read_total: "k \<le> sz \<Longrightarrow> \<exists>n buf t. sh_read os fd sz k s = Some ((n, buf), t)"
proof -
  assume k: "k \<le> sz"
  obtain a0 cs w where r: "os_read os fd k (sh_world s) = ((a0, cs), w)" by (metis surj_pair)
  obtain n t where "syscall_result a0 w s = (n, t)" by fastforce
  then have "sh_read os fd sz k s = Some ((n, cs), t)" using k r unfolding sh_read_def by simp
  then show ?thesis by blast
qed

lemma wnum_digits_total: "\<bar>v\<bar> < 10 ^ Suc k \<Longrightarrow> \<exists>cs. wnum_digits (Suc k) v p = Some cs"
proof (induction k arbitrary: v p)
  case 0
  then have "v sdiv 10 = 0" by (simp add: signed_divide_int_def)
  then show ?case by simp
next
  case (Suc k)
  have "\<bar>v sdiv 10\<bar> = \<bar>v\<bar> div 10" by (simp add: signed_divide_int_def abs_mult sgn_if)
  then have "\<bar>v sdiv 10\<bar> < 10 ^ Suc k" using Suc.prems by simp
  from Suc.IH [OF this] show ?case by (simp only: wnum_digits.simps(2) [of "Suc k"] Let_def split: if_split) simp
qed

lemma wnum_total: "\<exists>t. wnum os v s = Some t \<and> sh_cwd t = sh_cwd s"
proof -
  have b: "\<bar>sint (x :: u32)\<bar> < 10 ^ Suc 10" for x
    using sint_greater_eq [of x] sint_less [of x] by simp
  have "\<exists>cs. wnum_digits 11 (sint (x :: u32)) [] = Some cs" for x
    using wnum_digits_total [OF b [of x], of "[]"] by (simp only: eval_nat_numeral)
  then obtain c1 c2 where "wnum_digits 11 (sint v) [] = Some c1" "wnum_digits 11 (sint (- v)) [] = Some c2" by meson
  then show ?thesis by (cases "v <s 0") (simp_all add: wnum_def)
qed

lemma ls_loop_total: "n \<le> length buf \<Longrightarrow> \<exists>t. ls_loop os buf n off s = Some t \<and> sh_cwd t = sh_cwd s"
proof (induction os buf n off s rule: ls_loop.induct)
  case (1 os buf n off s)
  have "sh_cwd (ls_entry os buf off s) = sh_cwd s" by (simp add: ls_entry_def Let_def)
  with 1 show ?case by (subst ls_loop.simps) auto
qed

lemma do_ls_total:
  assumes "read_ok os"
  shows "\<exists>t. do_ls os dir s = Some t \<and> sh_cwd t = sh_cwd s"
proof -
  obtain fd s1 where fd: "syscall (os_open os dir 0 0) s = (fd, s1)" by fastforce
  show ?thesis
  proof (cases "fd <s 0")
    case True
    let ?s = "wstr os (str '' errno='') (wstr os dir (wstr os (str ''ls: cannot open '') s1))"
    obtain t where "wnum os (sh_errno ?s) ?s = Some t" "sh_cwd t = sh_cwd ?s" using wnum_total by blast
    then show ?thesis using fd True by (simp add: do_ls_def Let_def)
  next
    case False
    obtain n buf s2 where rd: "sh_read os fd 1024 1024 s1 = Some ((n, buf), s2)" using sh_read_total [of 1024 1024 os fd s1] by auto
    have "nat (sint n) \<le> length buf"
      using rd assms unfolding sh_read_def read_ok_def syscall_result_def
      by (fastforce simp: word_sle_eq split: prod.splits if_splits)
    then show ?thesis
      using fd False rd ls_loop_total [of "nat (sint n)" buf os 0 "snd (syscall (os_close os fd) s2)"]
      by (auto simp: do_ls_def Let_def)
  qed
qed

lemma do_echo_total:
  assumes "n \<le> length argv" "None \<notin> set (take n argv)"
  shows "\<exists>t. do_echo os argv n s = Some t \<and> sh_cwd t = sh_cwd s"
proof -
  have "\<exists>t. echo_loop os b as s = Some t \<and> sh_cwd t = sh_cwd s" if "None \<notin> set as" for b as and s :: "'a shell"
    using that
  proof (induction as arbitrary: b s)
    case (Cons a as)
    then obtain cs where a: "a = Some cs" by (cases a) auto
    show ?case using Cons.IH [of True "wstr os cs (if b then wstr os (str '' '') s else s)"] Cons.prems by (cases b) (simp_all add: a)
  qed simp
  from this [OF assms(2), of False s] show ?thesis using assms(1) by (auto simp: do_echo_def)
qed

lemma nat_sint: "0 \<le> sint n \<Longrightarrow> nat (sint n) = unat (n :: u32)"
proof -
  assume "0 \<le> sint n"
  moreover have "sint n < 2147483648" using sint_less [of n] by simp
  ultimately have "uint n = sint n" unfolding uint_sint by (intro take_bit_int_eq_self) simp_all
  then show ?thesis by (simp flip: nat_uint_eq)
qed

lemma strip_slashes_prefix: "\<exists>k. strip_slashes new = take k new \<and> (new \<noteq> [] \<longrightarrow> 0 < k)"
proof (induction new rule: strip_slashes.induct)
  case (1 new)
  show ?case
  proof (cases "1 < length new \<and> last new = ch CHR ''/''")
    case True
    then obtain k where k: "strip_slashes (butlast new) = take k (butlast new)" "butlast new \<noteq> [] \<longrightarrow> 0 < k" using "1.IH" by blast
    have "butlast new \<noteq> []" using True by (cases new) auto
    then show ?thesis using True k by (subst strip_slashes.simps) (auto simp: take_butlast butlast_conv_take intro!: exI [of _ "min k (length new - 1)"])
  next
    case False
    then show ?thesis by (subst strip_slashes.simps) (auto intro!: exI [of _ "Suc (length new)"])
  qed
qed

lemma strip_slashes_last: "1 < length (strip_slashes new) \<Longrightarrow> last (strip_slashes new) \<noteq> ch CHR ''/''"
proof (induction new rule: strip_slashes.induct)
  case (1 new)
  then show ?case by (metis (full_types) strip_slashes.simps)
qed

lemma cwd_ok_stripped:
  assumes "new \<noteq> []" "hd new = ch CHR ''/''" "0 \<notin> set new" "length new < 256"
  shows "strip_slashes new \<noteq> []" "cwd_ok (strip_slashes new)"
proof -
  obtain k where k: "strip_slashes new = take k new" "0 < k" using strip_slashes_prefix [of new] assms(1) by blast
  have "hd (take k new) = hd new" using k(2) by simp
  moreover have "0 \<notin> set (take k new)" using assms(3) in_set_takeD by fast
  ultimately show "strip_slashes new \<noteq> []" "cwd_ok (strip_slashes new)"
    using k assms strip_slashes_last [of new] by (auto simp: cwd_ok_def)
qed

lemma do_cd_total:
  assumes ok: "cwd_ok (sh_cwd s)" and arg: "\<And>a. arg = Some a \<Longrightarrow> 0 \<notin> set a"
  shows "\<exists>r t. do_cd os arg s = Some (r, t) \<and> cwd_ok (sh_cwd t)"
proof -
  define a where "a = (case arg of None \<Rightarrow> str ''/'' | Some a \<Rightarrow> if a = [] then str ''/'' else a)"
  have a: "a \<noteq> []" "0 \<notin> set a" using arg by (auto simp: a_def ch_def split: option.splits)
  define go where "go new = (case syscall (os_chdir os new) s of (r, s) \<Rightarrow>
      if r <s 0 then Some (-1 :: u32, s)
      else let new = strip_slashes new; new = (if new = [] then str ''/'' else new) in
        if length new < 256 then Some (0, s\<lparr>sh_cwd := new\<rparr>) else None)" for new
  have go: "\<exists>r t. go new = Some (r, t) \<and> cwd_ok (sh_cwd t)"
    if "new \<noteq> []" "hd new = ch CHR ''/''" "0 \<notin> set new" "length new < 256" for new
  proof -
    obtain r u where u: "syscall (os_chdir os new) s = (r, u)" by fastforce
    have "length (strip_slashes new) < 256" using cwd_ok_stripped(2) [OF that] by (simp add: cwd_ok_def)
    then show ?thesis using u keeps_cwd(1) [OF u] ok cwd_ok_stripped [OF that] by (simp add: go_def)
  qed
  let ?new = "if sh_cwd s = str ''/'' then [] else sh_cwd s"
  have run: "do_cd os arg s =
      (if hd a = ch CHR ''/'' then if 256 \<le> length a then Some (-1, s) else go a
       else if 256 \<le> length ?new then None
       else if 256 \<le> length ?new + 1 + length a then Some (-1, s) else go (?new @ str ''/'' @ a))"
    unfolding do_cd_def a_def [symmetric] go_def Let_def ..
  have rel: "?new @ str ''/'' @ a \<noteq> []" "hd (?new @ str ''/'' @ a) = ch CHR ''/''" "0 \<notin> set (?new @ str ''/'' @ a)" "length ?new < 256"
    using ok a(2) by (auto simp: cwd_ok_def ch_def)
  show ?thesis
  proof (cases "hd a = ch CHR ''/''")
    case True
    then show ?thesis using run ok go [OF a(1) True a(2)] by (cases "256 \<le> length a") simp_all
  next
    case False
    have "\<exists>r t. go (?new @ str ''/'' @ a) = Some (r, t) \<and> cwd_ok (sh_cwd t)" if "\<not> 256 \<le> length ?new + 1 + length a"
      using that by (intro go rel(1-3)) simp
    then show ?thesis using run ok False rel(4) by (cases "256 \<le> length ?new + 1 + length a") simp_all
  qed
qed

lemma vector_None: "vector argv = None \<longleftrightarrow> None \<notin> set argv"
  by (induction argv) (auto split: option.split)

lemma run_program_total:
  "length cmd < 24 \<Longrightarrow> None \<in> set argv \<Longrightarrow> \<exists>t. run_program os cmd argv s = Some t \<and> sh_cwd t = sh_cwd s"
  by (auto simp: run_program_def vector_None Let_def split: prod.split)

lemma fields_set: "w \<in> set (fields_of l) \<Longrightarrow> set w \<subseteq> set l"
proof (induction l arbitrary: w rule: fields_of.induct)
  case (2 c l)
  have "fields_of l = hd (fields_of l) # tl (fields_of l)" using fields_hd(1) by simp
  then have hd: "hd (fields_of l) \<in> set (fields_of l)" "set (tl (fields_of l)) \<subseteq> set (fields_of l)" by (metis list.set_intros, metis set_subset_Cons)
  show ?case
  proof (cases "blank c")
    case True
    then show ?thesis using 2 by (auto split: if_splits)
  next
    case False
    then show ?thesis using "2.prems" "2.IH"(2) [OF False] hd by fastforce
  qed
qed simp

text \<open>A line that runs a program with eight words or more: no entry of \<open>argv\<close> is left for the null pointer.\<close>

definition overruns :: "bytes \<Rightarrow> bool" where
  "overruns l \<longleftrightarrow> (let ws = fields_of (chomp l) in 8 \<le> length ws \<and> length (hd ws) < 24 \<and>
     hd ws \<notin> {[], str ''exit'', str ''cd'', str ''pwd'', str ''echo'', str ''ls''})"

lemma run_line_total:
  assumes os: "read_ok os" and ok: "cwd_ok (sh_cwd s)" and l: "0 \<notin> set l" and few: "\<not> overruns l"
  shows "\<exists>b t. run_line os l s = Some (b, t) \<and> cwd_ok (sh_cwd t)"
proof -
  let ?l = "chomp l" let ?ws = "take 8 (fields_of ?l)"
  have "set (chomp l) \<subseteq> set l" unfolding chomp_def set_rev using set_dropWhileD by fastforce
  then have cl: "0 \<notin> set ?l" using l by blast
  define argv where "argv = map Some ?ws @ replicate (8 - length ?ws) None"
  have sp: "split_line ?l = (length ?ws - 1, argv)" using split_line_exec [OF cl] by (simp add: Let_def argv_def)
  obtain cmd ws where ws: "?ws = cmd # ws" using fields_hd(1) [of ?l] by (cases "fields_of ?l") auto
  have argv: "argv ! 0 = Some cmd" "tl argv = map Some ws @ replicate (7 - length ws) None" "length ?ws - 1 = length ws"
    by (simp_all add: argv_def ws)
  have "0 \<notin> set a" if "argv ! 1 = Some a" for a
  proof -
    have "a \<in> set ?ws" using that unfolding argv_def ws by (cases ws) auto
    then show ?thesis using fields_set [of a ?l] cl in_set_takeD by fast
  qed
  then have cd: "\<exists>r t. do_cd os (argv ! 1) s = Some (r, t) \<and> cwd_ok (sh_cwd t)" by (rule do_cd_total [OF ok])
  have echo: "\<exists>t. do_echo os (tl argv) (length ws) s = Some t \<and> sh_cwd t = sh_cwd s"
    by (rule do_echo_total) (simp_all add: argv(2))
  have ls: "\<exists>t. do_ls os d s = Some t \<and> sh_cwd t = sh_cwd s" for d by (rule do_ls_total [OF os])
  have "cmd = hd (fields_of ?l)" using ws fields_hd(1) [of ?l] by (cases "fields_of ?l") auto
  moreover have "None \<in> set argv \<longleftrightarrow> length (fields_of ?l) < 8" by (auto simp: argv_def)
  ultimately have prog: "\<exists>t. run_program os cmd argv s = Some t \<and> sh_cwd t = sh_cwd s"
    if "length cmd < 24" "cmd \<notin> {[], str ''exit'', str ''cd'', str ''pwd'', str ''echo'', str ''ls''}"
    using that few by (intro run_program_total) (auto simp: overruns_def Let_def not_less)
  obtain r t where cd: "do_cd os (argv ! 1) s = Some (r, t)" "cwd_ok (sh_cwd t)" using cd by blast
  obtain t1 where t1: "do_echo os (tl argv) (length ws) s = Some t1" "sh_cwd t1 = sh_cwd s" using echo by blast
  obtain t2 where t2: "do_ls os (case argv ! 1 of Some d \<Rightarrow> d | None \<Rightarrow> str ''.'') s = Some t2" "sh_cwd t2 = sh_cwd s" using ls by blast
  show ?thesis
    using prog ok unfolding run_line_def sp prod.case argv(1,3) option.case cd(1) t1(1) t2(1)
    by (auto simp: ex_bool_eq cd(2) t1(2) t2(2) simp del: list.map split: if_split)
qed

text \<open>Such a line does leave the array, as soon as \<open>fork\<close> makes a child.\<close>

lemma run_line_overruns:
  assumes "overruns l" "0 \<notin> set l" and fork: "\<And>c w. 0 \<le> sint (fst (os_fork os c w))"
  shows "run_line os l s = None"
proof -
  let ?l = "chomp l" let ?ws = "take 8 (fields_of ?l)"
  have "set (chomp l) \<subseteq> set l" unfolding chomp_def set_rev using set_dropWhileD by fastforce
  then have cl: "0 \<notin> set ?l" using assms(2) by blast
  have len: "length ?ws = 8" using assms(1) by (simp add: overruns_def Let_def)
  then have sp: "split_line ?l = (7, map Some ?ws)" using split_line_exec [OF cl] by (simp add: Let_def)
  have cmd: "map Some ?ws ! 0 = Some (hd (fields_of ?l))" using len fields_hd(1) [of ?l] by (simp add: hd_conv_nth)
  have v: "vector (map Some ?ws) = None" by (auto simp: vector_None)
  have p: "length (hd (fields_of ?l)) < 24" "hd (fields_of ?l) \<notin> {[], str ''exit'', str ''cd'', str ''pwd'', str ''echo'', str ''ls''}"
    using assms(1) by (simp_all add: overruns_def Let_def)
  obtain a0 w where f: "os_fork os (\<lambda>w. w) (sh_world s) = (a0, w)" by fastforce
  then have "0 \<le> sint a0" using fork [of "\<lambda>w. w" "sh_world s"] by simp
  then have "syscall (os_fork os (\<lambda>w. w)) s = (a0, s\<lparr>sh_world := w\<rparr>)" "\<not> a0 <s 0"
    using f by (simp_all add: syscall_def syscall_result_def word_sle_eq word_sless_alt)
  then have "run_program os (hd (fields_of ?l)) (map Some ?ws) s = None"
    using p(1) v by (simp add: run_program_def Let_def)
  then show ?thesis using p unfolding run_line_def sp prod.case cmd option.case by simp
qed

text \<open>The lines of a text.\<close>

fun split_lines :: "bytes \<Rightarrow> bytes list" where
  "split_lines [] = [[]]"
| "split_lines (c # cs) = (if c = 10 then [] # split_lines cs else
     case split_lines cs of [] \<Rightarrow> [[c]] | l # ls \<Rightarrow> (c # l) # ls)"

lemma split_lines_unfold:
  "split_lines l = takeWhile (\<lambda>c. c \<noteq> 10) l # (if 10 \<in> set l then split_lines (tl (dropWhile (\<lambda>c. c \<noteq> 10) l)) else [])"
  by (induction l) auto

lemma run_lines_total:
  assumes "read_ok os" "cwd_ok (sh_cwd s)" "0 \<notin> set l" "\<And>m. m \<in> set (split_lines l) \<Longrightarrow> \<not> overruns m"
  shows "\<exists>b t. run_lines os l s = Some (b, t) \<and> cwd_ok (sh_cwd t)"
  using assms(2-4)
proof (induction "length l" arbitrary: l s rule: less_induct)
  case less
  let ?rest = "tl (dropWhile (\<lambda>c. c \<noteq> 10) l)"
  note sl = split_lines_unfold [of l]
  have "0 \<notin> set (takeWhile (\<lambda>c. c \<noteq> 10) l)" using less.prems(2) by (auto dest: set_takeWhileD)
  moreover have "\<not> overruns (takeWhile (\<lambda>c. c \<noteq> 10) l)" using less.prems(3) sl by simp
  ultimately obtain b t where b: "run_line os (takeWhile (\<lambda>c. c \<noteq> 10) l) s = Some (b, t)" "cwd_ok (sh_cwd t)"
    using run_line_total [OF assms(1) less.prems(1)] by blast
  have "set ?rest \<subseteq> set l" by (metis dual_order.trans list.set_sel(2) set_dropWhileD subsetI tl_Nil)
  then have z: "0 \<notin> set ?rest" using less.prems(2) by blast
  show ?case
  proof (cases "\<not> b \<and> 10 \<in> set l")
    case True
    have "length ?rest < length l" using rest_shorter [of l] True by simp
    moreover have "\<not> overruns m" if "m \<in> set (split_lines ?rest)" for m using less.prems(3) sl True that by simp
    ultimately show ?thesis using less.hyps [OF _ b(2) z] b True by (subst run_lines.simps) simp
  next
    case False
    then show ?thesis using b by (subst run_lines.simps) auto
  qed
qed

text \<open>No input ever holds a line that runs a program with eight words or more.\<close>

definition input_ok :: "'w os \<Rightarrow> bool" where
  "input_ok os \<longleftrightarrow> (\<forall>k w n cs w'. os_read os 0 k w = ((n, cs), w') \<longrightarrow>
     (\<forall>l\<in>set (split_lines (takeWhile (\<lambda>c. c \<noteq> 0) cs)). \<not> overruns l))"

text \<open>
  C40: The shell never leaves its arrays, whatever the system answers, provided \<open>read\<close> stores as many bytes as it
  returns and no more than asked for, and no line of the input runs a program with eight words or more: every round of
  the shell works (the line, its arguments, the vector of a program and its path, the new directory of \<open>cd\<close>, the
  entries of \<open>ls\<close>, the digits of an error number), and the current directory it keeps stays an absolute path without
  trailing slashes that fits its 256 bytes.
\<close>

theorem shell_stays_in_arrays:
  assumes "read_ok os" "cwd_ok (sh_cwd s)" "input_ok os"
  shows "\<exists>r t. sh_main fuel os s = Some (r, t) \<and> cwd_ok (sh_cwd t)"
  using assms(2)
proof (induction fuel arbitrary: s)
  case (Suc fuel)
  let ?s = "wstr os (str ''sh# '') s"
  obtain n buf s1 where rd: "sh_read os 0 128 127 ?s = Some ((n, buf), s1)" using sh_read_total [of 127 128 os 0 ?s] by auto
  have ok: "cwd_ok (sh_cwd s1)" using keeps_cwd(4) [OF rd] Suc.prems by simp
  have n: "sint n \<le> 127" "0 \<le> sint n \<Longrightarrow> length buf = nat (sint n)"
    using rd assms(1) unfolding sh_read_def read_ok_def syscall_result_def
    by (fastforce simp: word_sle_eq split: prod.splits if_splits)+
  show ?case
  proof (cases "n \<le>s 0")
    case True
    then show ?thesis using rd ok by simp
  next
    case False
    then have pos: "0 < sint n" by (simp add: word_sle_eq)
    have len: "length buf = unat n" using n pos nat_sint by simp
    have lim: "\<not> 127 <s n" using n(1) by (simp add: word_sless_alt)
    have "0 \<notin> set (cstr (take (unat n) buf @ [0]) 0)" by (auto simp: cstr_def dest: set_takeWhileD)
    moreover have "takeWhile (\<lambda>c. c \<noteq> 0) (buf @ [0]) = takeWhile (\<lambda>c. c \<noteq> 0) buf" by (induction buf) auto
    then have "\<not> overruns l" if "l \<in> set (split_lines (cstr (take (unat n) buf @ [0]) 0))" for l
      using rd assms(3) that len unfolding sh_read_def input_ok_def syscall_result_def cstr_def
      by (fastforce split: prod.splits if_splits)
    ultimately obtain b t where b: "run_lines os (cstr (take (unat n) buf @ [0]) 0) s1 = Some (b, t)" "cwd_ok (sh_cwd t)"
      using run_lines_total [OF assms(1) ok, of "cstr (take (unat n) buf @ [0]) 0"] by blast
    show ?thesis using rd False lim len b Suc.IH [OF b(2)] by (cases b) simp_all
  qed
qed simp

text \<open>A system whose world is the lines still to be read and the bytes written, in which every call succeeds.\<close>

definition demo_os :: "(bytes list \<times> bytes) os" where
  "demo_os = \<lparr>os_write = (\<lambda>fd cs (lines, out). (word_of_nat (length cs), lines, out @ cs)),
     os_read = (\<lambda>fd k (lines, out).
       case lines of [] \<Rightarrow> ((0, []), [], out) | l # ls \<Rightarrow> ((word_of_nat (length (take (min k 1024) l)), take (min k 1024) l), ls, out)),
     os_open = (\<lambda>name flag mode w. (3, w)), os_close = (\<lambda>fd w. (0, w)), os_chdir = (\<lambda>name w. (0, w)),
     os_fork = (\<lambda>c w. (5, c w)), os_execve = (\<lambda>path argv w. Inl (-2, w)), os_exit = (\<lambda>c w. w),
     os_waitpid = (\<lambda>p opts w. (5, w))\<rparr>"

lemma demo_read_ok: "read_ok demo_os"
proof -
  have "sint (word_of_nat m :: u32) = int m" if "m \<le> 1024" for m
    using that sint_unat [of "word_of_nat m"] by (simp add: unat_of_nat)
  then show ?thesis by (auto simp: read_ok_def demo_os_def split: list.splits)
qed

text \<open>The same with a fixed input, as often as the world has lines left.\<close>

definition demo_text :: bytes where
  "demo_text = str ''cd usr//'' @ [10] @ str ''t_fork a b''"

definition demo_cd :: "(bytes list \<times> bytes) os" where
  "demo_cd = demo_os\<lparr>os_read := (\<lambda>fd k (lines, out).
     if lines = [] \<or> k < 127 then ((0, []), lines, out) else ((19, demo_text), tl lines, out))\<rparr>"

lemma demo_cd_ok: "read_ok demo_cd" "input_ok demo_cd"
proof -
  have "length demo_text = 19" by (simp add: demo_text_def)
  then show "read_ok demo_cd" by (auto simp: read_ok_def demo_cd_def split: if_splits)
  have "\<forall>l\<in>set (split_lines (takeWhile (\<lambda>c. c \<noteq> 0) demo_text)). \<not> overruns l" by code_simp
  moreover have "\<forall>l\<in>set (split_lines (takeWhile (\<lambda>c. c \<noteq> 0) [])). \<not> overruns l" by code_simp
  moreover have "cs = [] \<or> cs = demo_text" if "os_read demo_cd 0 k w = ((n, cs), w')" for k w n cs w'
    using that by (cases w) (simp add: demo_cd_def split: if_splits)
  ultimately show "input_ok demo_cd" unfolding input_ok_def by blast
qed

theorem shell_stays_in_arrays_witness:
  "\<exists>r t. sh_main 3 demo_cd \<lparr>sh_cwd = str ''/'', sh_errno = 0, sh_world = ([[], []], [])\<rparr> = Some (r, t) \<and> cwd_ok (sh_cwd t)"
  by (rule shell_stays_in_arrays [OF demo_cd_ok(1) _ demo_cd_ok(2)]) (simp add: cwd_ok_def ch_def)

text \<open>What this session prints.\<close>

lemma shell_session:
  "map_option (\<lambda>(r, t). (r, sh_cwd t, snd (sh_world t))) (sh_main 3 demo_os
     \<lparr>sh_cwd = str ''/'', sh_errno = 0, sh_world = ([str ''cd usr//'' @ [10] @ str ''pwd'' @ [10], str ''t_fork''], [])\<rparr>) =
   Some (Some 0, str ''/usr'', str ''sh# /usr'' @ [10] @ str ''sh# ? command not found'' @ [10] @ str ''sh# logout'' @ [10])"
  by code_simp

end
