(* ===== verification/Mktime.thy ===== *)
theory Mktime
  imports KState
begin

text \<open>
  Conversion of a broken-down time to seconds, \<^verbatim>\<open>kernel/mktime.c\<close>, against the Gregorian
  calendar.
\<close>

text \<open>The fields \<open>kernel_mktime\<close> reads of a \<open>struct tm\<close>.\<close>

record tm =
  tm_sec :: u32
  tm_min :: u32
  tm_hour :: u32
  tm_mday :: u32
  tm_mon :: u32
  tm_year :: u32

abbreviation MINUTE :: u32 where "MINUTE \<equiv> 60"
abbreviation HOUR :: u32 where "HOUR \<equiv> 60 * MINUTE"
abbreviation DAY :: u32 where "DAY \<equiv> 24 * HOUR"
abbreviation YEAR :: u32 where "YEAR \<equiv> 365 * DAY"

definition month :: "u32 list" where
  "month = [0, DAY * 31, DAY * (31+29), DAY * (31+29+31), DAY * (31+29+31+30), DAY * (31+29+31+30+31),
     DAY * (31+29+31+30+31+30), DAY * (31+29+31+30+31+30+31), DAY * (31+29+31+30+31+30+31+31),
     DAY * (31+29+31+30+31+30+31+31+30), DAY * (31+29+31+30+31+30+31+31+30+31),
     DAY * (31+29+31+30+31+30+31+31+30+31+30)]"

text \<open>\<open>None\<close>: the month is no index of the table.\<close>

definition kernel_mktime :: "tm \<Rightarrow> u32 option" where
  "kernel_mktime tm =
     (let year = tm_year tm - 70;
          res = YEAR * year + DAY * c_div (year + 1) 4 in
      if 12 \<le> unat (tm_mon tm) then None
      else
        let res = res + month ! unat (tm_mon tm);
            res = (if 1 <s tm_mon tm \<and> c_mod (year + 2) 4 \<noteq> 0 then res - DAY else res)
        in Some (res + DAY * (tm_mday tm - 1) + HOUR * tm_hour tm + MINUTE * tm_min tm + tm_sec tm))"

section \<open>The calendar\<close>

definition leap :: "nat \<Rightarrow> bool" where
  "leap y \<longleftrightarrow> y mod 4 = 0 \<and> (y mod 100 \<noteq> 0 \<or> y mod 400 = 0)"

definition month_days :: "nat \<Rightarrow> nat list" where
  "month_days y = [31, if leap y then 29 else 28, 31, 30, 31, 30, 31, 31, 30, 31, 30, 31]"

definition year_days :: "nat \<Rightarrow> nat" where
  "year_days y = sum_list (month_days y)"

text \<open>Days from 1 January 1970 to the \<open>d\<close>-th day (from 1) of month \<open>m\<close> (from 0) of year \<open>y\<close>.\<close>

definition days_since_1970 :: "nat \<Rightarrow> nat \<Rightarrow> nat \<Rightarrow> nat" where
  "days_since_1970 y m d = sum_list (map year_days [1970..<y]) + sum_list (take m (month_days y)) + (d - 1)"

lemma leap_1970: "n < 68 \<Longrightarrow> leap (1970 + n) \<longleftrightarrow> (n + 2) mod 4 = 0"
proof -
  assume n: "n < 68"
  have "1970 + n = (n + 2) + 4 * 492" "1970 + n = (n + 70) + 100 * 19" by simp_all
  then have m: "(1970 + n) mod 4 = (n + 2) mod 4" "(1970 + n) mod 100 = (n + 70) mod 100" by (metis mod_mult_self2)+
  have "n = 30" if "(n + 70) mod 100 = 0" using that n by (auto simp: mod_if split: if_splits)
  then have "(1970 + n) mod 100 \<noteq> 0 \<or> (1970 + n) mod 400 = 0" unfolding m by (cases "(n + 70) mod 100 = 0") simp_all
  then show ?thesis unfolding leap_def m by blast
qed

lemma year_days_1970: "n < 68 \<Longrightarrow> year_days (1970 + n) = (if (n + 2) mod 4 = 0 then 366 else 365)"
  using leap_1970 [of n] by (simp add: year_days_def month_days_def)

lemma years_1970: "n \<le> 68 \<Longrightarrow> sum_list (map year_days [1970..<1970 + n]) = 365 * n + (n + 1) div 4"
proof (induction n)
  case (Suc n)
  have "[1970..<1970 + Suc n] = [1970..<1970 + n] @ [1970 + n]" by (metis add_Suc_right le_add1 upt_Suc_append)
  moreover have "(Suc n + 1) div 4 = (n + 1) div 4 + (if (n + 2) mod 4 = 0 then 1 else 0)" by presburger
  ultimately show ?case using Suc year_days_1970 [of n] by (simp del: upt_Suc)
qed simp

text \<open>The table of months, which assumes a leap year, in days.\<close>

definition month_table :: "nat list" where
  "month_table = [0, 31, 60, 91, 121, 152, 182, 213, 244, 274, 305, 335]"

lemma month_table:
  assumes "m < 12"
  shows "month ! m = word_of_nat (86400 * month_table ! m)"
    "month_table ! m = sum_list (take m (month_days y)) + (if 1 < m \<and> \<not> leap y then 1 else 0)" "month_table ! m \<le> 335"
proof -
  have "m \<in> {0, 1, 2, 3, 4, 5, 6, 7, 8, 9, 10, 11}" using assms unfolding insert_iff empty_iff by presburger
  then show "month ! m = word_of_nat (86400 * month_table ! m)"
    "month_table ! m = sum_list (take m (month_days y)) + (if 1 < m \<and> \<not> leap y then 1 else 0)" "month_table ! m \<le> 335"
    by (auto simp: month_def month_table_def month_days_def)
qed

text \<open>
  C36: For every date and time of day of the Gregorian calendar from 1970 to 2037,
  \<open>kernel_mktime\<close> returns the seconds since the start of 1970, and the result fits a positive
  \<open>long\<close>, leap years included.
\<close>

theorem kernel_mktime_gregorian:
  assumes y: "1970 \<le> y" "y \<le> 2037" and m: "m < 12" and d: "1 \<le> d" "d \<le> month_days y ! m"
    and t: "h < 24" "mi < 60" "sec < 60"
  defines "secs \<equiv> 86400 * days_since_1970 y m d + 3600 * h + 60 * mi + sec"
  shows "kernel_mktime \<lparr>tm_sec = word_of_nat sec, tm_min = word_of_nat mi, tm_hour = word_of_nat h,
      tm_mday = word_of_nat d, tm_mon = word_of_nat m, tm_year = word_of_nat (y - 1900)\<rparr> = Some (word_of_nat secs) \<and> secs < 2147483648"
proof -
  define n where "n = y - 1970"
  have yn: "y = 1970 + n" "n < 68" using y by (simp_all add: n_def)
  have year: "word_of_nat (y - 1900) - 70 = (word_of_nat n :: u32)" using yn by (simp add: of_nat_diff)
  let ?st = "sum_list (take m (month_days y))"
  have leap: "leap y \<longleftrightarrow> (n + 2) mod 4 = 0" using leap_1970 [OF yn(2)] yn(1) by simp
  have days: "days_since_1970 y m d = 365 * n + (n + 1) div 4 + ?st + (d - 1)"
    using years_1970 [of n] yn by (simp add: days_since_1970_def)
  have st: "?st \<le> 335" using month_table(2) [OF m, of y] month_table(3) [OF m] by linarith
  have "month_days y ! m \<le> 31"
    using m by (auto simp: month_days_def nth_Cons split: nat.split)
  then have "days_since_1970 y m d \<le> 365 * 67 + 17 + 335 + 30" unfolding days using st d yn(2) by linarith
  then have lt: "secs < 2147483648" unfolding secs_def using t by linarith
  have m12: "unat (word_of_nat m :: u32) = m" "1 <s (word_of_nat m :: u32) \<longleftrightarrow> 1 < m"
    using m sint_unat [of "word_of_nat m"] by (simp_all add: unat_of_nat word_sless_alt)
  have div: "c_div (word_of_nat n + 1) 4 = word_of_nat ((n + 1) div 4)"
    using c_div_small [of "n + 1" 4] yn(2) by (simp add: add.commute)
  have "c_mod (word_of_nat n + 2) 4 = word_of_nat ((n + 2) mod 4)"
    using c_mod_small [of "n + 2" 4] yn(2) by (simp add: add.commute)
  moreover have "(word_of_nat ((n + 2) mod 4) :: u32) = 0 \<longleftrightarrow> (n + 2) mod 4 = 0"
    by (simp add: unat_of_nat flip: unat_eq_zero)
  ultimately have mod: "c_mod (word_of_nat n + 2) 4 \<noteq> 0 \<longleftrightarrow> \<not> leap y" using leap by simp
  have tab: "month ! m = word_of_nat (86400 * ?st) + (if 1 < m \<and> \<not> leap y then DAY else 0)"
    unfolding month_table(1) [OF m] by (subst month_table(2) [OF m, of y]) simp
  have "kernel_mktime \<lparr>tm_sec = word_of_nat sec, tm_min = word_of_nat mi, tm_hour = word_of_nat h,
      tm_mday = word_of_nat d, tm_mon = word_of_nat m, tm_year = word_of_nat (y - 1900)\<rparr> =
      Some (YEAR * word_of_nat n + DAY * word_of_nat ((n + 1) div 4) + word_of_nat (86400 * ?st) + DAY * (word_of_nat d - 1) +
        HOUR * word_of_nat h + MINUTE * word_of_nat mi + word_of_nat sec)"
    using m by (simp add: kernel_mktime_def Let_def year div m12 mod tab)
  moreover obtain e where e: "d = Suc e" using d(1) by (cases d) auto
  moreover have "days_since_1970 y m (Suc e) = 365 * n + (n + 1) div 4 + ?st + e" using days e by simp
  ultimately show ?thesis using lt by (simp add: secs_def algebra_simps)
qed

theorem kernel_mktime_gregorian_witness:
  "kernel_mktime \<lparr>tm_sec = 56, tm_min = 34, tm_hour = 12, tm_mday = 29, tm_mon = 1, tm_year = 100\<rparr> = Some 951827696"
proof -
  have leap: "leap 2000" by (simp add: leap_def)
  have "days_since_1970 2000 1 29 = 11016"
    using years_1970 [of 30] by (simp add: days_since_1970_def month_days_def)
  then show ?thesis
    using kernel_mktime_gregorian [of 2000 1 29 12 34 56] by (simp add: month_days_def leap)
qed

end
