(* ===== verification/Strings.thy ===== *)
theory Strings
  imports Prelude
begin

text \<open>
  The string functions of \<^verbatim>\<open>include/string.h\<close> over a byte-addressed memory, with pointers that
  wrap around at the end of memory. \<open>strtok\<close> keeps its place in the state. Loops carry fuel;
  the null pointer is address 0.
\<close>

record strmem =
  mem :: "u32 \<Rightarrow> u8"
  strtok_place :: u32   \<comment> \<open>\<open>___strtok\<close>\<close>

type_synonym 'a str = "(strmem, 'a) kern"

definition ld :: "u32 \<Rightarrow> u8 str" where
  "ld p = gets (\<lambda>s. mem s p)"

definition st :: "u32 \<Rightarrow> u8 \<Rightarrow> unit str" where
  "st p c = modify (\<lambda>s. s\<lparr>mem := (mem s)(p := c)\<rparr>)"

section \<open>Copying and comparing strings\<close>

text \<open>\<open>while ((*d++ = *src++) != 0) ;\<close>\<close>

definition copy_step :: "u32 \<times> u32 \<Rightarrow> (u32 \<times> u32 + unit) str" where
  "copy_step = (\<lambda>(d, src). bind (ld src) (\<lambda>c. seq (st d c) (ret (if c \<noteq> 0 then Inl (d + 1, src + 1) else Inr ()))))"

definition strcpy :: "u32 \<Rightarrow> u32 \<Rightarrow> u32 str" where
  "strcpy dest src = seq (loop copy_step (dest, src)) (ret dest)"

definition copy_n_step :: "u32 \<times> u32 \<times> u32 \<Rightarrow> (u32 \<times> u32 \<times> u32 + u32 \<times> u32) str" where
  "copy_n_step = (\<lambda>(d, src, cnt).
     if \<not> 0 <s cnt then ret (Inr (d, cnt - 1))
     else bind (ld src) (\<lambda>c. seq (st d c) (ret (if c \<noteq> 0 then Inl (d + 1, src + 1, cnt - 1) else Inr (d + 1, cnt - 1)))))"

definition fill_step :: "u8 \<Rightarrow> u32 \<times> u32 \<Rightarrow> (u32 \<times> u32 + unit) str" where
  "fill_step c = (\<lambda>(p, cnt). if \<not> 0 <s cnt then ret (Inr ()) else seq (st p c) (ret (Inl (p + 1, cnt - 1))))"

definition strncpy :: "u32 \<Rightarrow> u32 \<Rightarrow> u32 \<Rightarrow> u32 str" where
  "strncpy dest src cnt =
     bind (loop copy_n_step (dest, src, cnt)) (\<lambda>(d, cnt).
     seq (loop (fill_step 0) (d, cnt)) (ret dest))"

text \<open>\<open>while (*p) p++;\<close>\<close>

definition end_of :: "u32 \<Rightarrow> u32 str" where
  "end_of = loop (\<lambda>p. bind (ld p) (\<lambda>c. ret (if c \<noteq> 0 then Inl (p + 1) else Inr p)))"

definition strcat :: "u32 \<Rightarrow> u32 \<Rightarrow> u32 str" where
  "strcat dest src = bind (end_of dest) (\<lambda>d. seq (loop copy_step (d, src)) (ret dest))"

definition cat_n_step :: "u32 \<times> u32 \<times> u32 \<Rightarrow> (u32 \<times> u32 \<times> u32 + u32) str" where
  "cat_n_step = (\<lambda>(d, src, cnt).
     if \<not> 0 <s cnt then ret (Inr d)
     else bind (ld src) (\<lambda>c. seq (st d c) (ret (if c \<noteq> 0 then Inl (d + 1, src + 1, cnt - 1) else Inr d))))"

definition strncat :: "u32 \<Rightarrow> u32 \<Rightarrow> u32 \<Rightarrow> u32 str" where
  "strncat dest src cnt =
     bind (end_of dest) (\<lambda>d. bind (loop cat_n_step (d, src, cnt)) (\<lambda>d. seq (st d 0) (ret dest)))"

definition byte_diff :: "u8 \<Rightarrow> u8 \<Rightarrow> u32" where
  "byte_diff a b = ucast a - ucast b"

definition strcmp_step :: "u32 \<times> u32 \<Rightarrow> (u32 \<times> u32 + u32) str" where
  "strcmp_step = (\<lambda>(cs, ct).
     bind (ld cs) (\<lambda>a. bind (ld ct) (\<lambda>b.
     ret (if a = b \<and> a \<noteq> 0 then Inl (cs + 1, ct + 1) else Inr (byte_diff a b)))))"

definition strcmp :: "u32 \<Rightarrow> u32 \<Rightarrow> u32 str" where
  "strcmp cs ct = loop strcmp_step (cs, ct)"

definition strncmp_step :: "u32 \<times> u32 \<times> u32 \<Rightarrow> (u32 \<times> u32 \<times> u32 + u32) str" where
  "strncmp_step = (\<lambda>(cs, ct, cnt).
     bind (ld cs) (\<lambda>a. bind (ld ct) (\<lambda>b.
     ret (if 0 <s cnt \<and> a = b \<and> a \<noteq> 0 then Inl (cs + 1, ct + 1, cnt - 1)
          else if cnt - 1 <s 0 then Inr 0 else Inr (byte_diff a b)))))"

definition strncmp :: "u32 \<Rightarrow> u32 \<Rightarrow> u32 \<Rightarrow> u32 str" where
  "strncmp cs ct cnt = loop strncmp_step (cs, ct, cnt)"

section \<open>Searching\<close>

definition strchr :: "u32 \<Rightarrow> u8 \<Rightarrow> u32 str" where
  "strchr s c = loop (\<lambda>s. bind (ld s) (\<lambda>x. ret (if x = c then Inr s else if x \<noteq> 0 then Inl (s + 1) else Inr 0))) s"

definition strrchr :: "u32 \<Rightarrow> u8 \<Rightarrow> u32 str" where
  "strrchr s c =
     loop (\<lambda>(s, found). bind (ld s) (\<lambda>x.
       let found = (if x = c then s else found) in ret (if x \<noteq> 0 then Inl (s + 1, found) else Inr found))) (s, 0)"

text \<open>\<open>for (t = ct; *t; t++) if (*t == x) break;\<close>: whether the loop broke off, so that \<open>*t\<close> is not null.\<close>

definition in_set :: "u8 \<Rightarrow> u32 \<Rightarrow> bool str" where
  "in_set x = loop (\<lambda>t. bind (ld t) (\<lambda>c. ret (if c = 0 then Inr False else if c = x then Inr True else Inl (t + 1))))"

text \<open>\<open>span stop\<close>: the first place from \<open>s\<close> on that is null or whose membership in the set is \<open>stop\<close>.\<close>

definition span :: "bool \<Rightarrow> u32 \<Rightarrow> u32 \<Rightarrow> u32 str" where
  "span stop ct =
     loop (\<lambda>s. bind (ld s) (\<lambda>x.
       if x = 0 then ret (Inr s)
       else bind (in_set x ct) (\<lambda>b. ret (if b = stop then Inr s else Inl (s + 1)))))"

definition strspn :: "u32 \<Rightarrow> u32 \<Rightarrow> u32 str" where
  "strspn cs ct = bind (span False ct cs) (\<lambda>s. ret (s - cs))"

definition strcspn :: "u32 \<Rightarrow> u32 \<Rightarrow> u32 str" where
  "strcspn cs ct = bind (span True ct cs) (\<lambda>s. ret (s - cs))"

definition strpbrk :: "u32 \<Rightarrow> u32 \<Rightarrow> u32 str" where
  "strpbrk cs ct = bind (span True ct cs) (\<lambda>s. bind (ld s) (\<lambda>x. ret (if x = 0 then 0 else s)))"

definition strlen :: "u32 \<Rightarrow> u32 str" where
  "strlen s = bind (end_of s) (\<lambda>p. ret (p - s))"

definition strstr :: "u32 \<Rightarrow> u32 \<Rightarrow> u32 str" where
  "strstr cs ct =
     bind (strlen ct) (\<lambda>n.
     if n = 0 then ret cs
     else loop (\<lambda>cs. bind (ld cs) (\<lambda>a. bind (ld ct) (\<lambda>b.
       if a = 0 then ret (Inr 0)
       else if a \<noteq> b then ret (Inl (cs + 1))
       else bind (strncmp cs ct n) (\<lambda>r. ret (if r = 0 then Inr cs else Inl (cs + 1)))))) cs)"

definition strtok :: "u32 \<Rightarrow> u32 \<Rightarrow> u32 str" where
  "strtok s ct =
     seq (modify (\<lambda>m. if s \<noteq> 0 then m\<lparr>strtok_place := s\<rparr> else m))
    (bind (gets strtok_place) (\<lambda>p.
     if p = 0 then ret 0
     else bind (strspn p ct) (\<lambda>k.
       let tok = p + k in
       bind (ld tok) (\<lambda>c.
       if c = 0 then seq (modify (\<lambda>m. m\<lparr>strtok_place := 0\<rparr>)) (ret 0)
       else bind (strcspn tok ct) (\<lambda>k.
         let q = tok + k in
         bind (ld q) (\<lambda>c.
         if c = 0 then seq (modify (\<lambda>m. m\<lparr>strtok_place := q\<rparr>)) (ret tok)
         else seq (st q 0) (seq (modify (\<lambda>m. m\<lparr>strtok_place := q + 1\<rparr>)) (ret tok))))))))"

section \<open>Blocks of memory\<close>

definition memcpy_step :: "u32 \<times> u32 \<times> u32 \<Rightarrow> (u32 \<times> u32 \<times> u32 + unit) str" where
  "memcpy_step = (\<lambda>(d, s, n).
     if \<not> 0 <s n then ret (Inr ()) else bind (ld s) (\<lambda>c. seq (st d c) (ret (Inl (d + 1, s + 1, n - 1)))))"

definition memcpy :: "u32 \<Rightarrow> u32 \<Rightarrow> u32 \<Rightarrow> u32 str" where
  "memcpy dest src n = seq (loop memcpy_step (dest, src, n)) (ret dest)"

definition memmove_step :: "u32 \<times> u32 \<times> u32 \<Rightarrow> (u32 \<times> u32 \<times> u32 + unit) str" where
  "memmove_step = (\<lambda>(d, s, n).
     if \<not> 0 <s n then ret (Inr ()) else bind (ld (s - 1)) (\<lambda>c. seq (st (d - 1) c) (ret (Inl (d - 1, s - 1, n - 1)))))"

definition memmove :: "u32 \<Rightarrow> u32 \<Rightarrow> u32 \<Rightarrow> u32 str" where
  "memmove dest src n =
     (if dest < src \<or> src + n \<le> dest then memcpy dest src n
      else seq (loop memmove_step (dest + n, src + n, n)) (ret dest))"

definition memcmp_step :: "u32 \<times> u32 \<times> u32 \<Rightarrow> (u32 \<times> u32 \<times> u32 + u32) str" where
  "memcmp_step = (\<lambda>(a, b, cnt).
     if \<not> 0 <s cnt then ret (Inr 0)
     else bind (ld a) (\<lambda>x. bind (ld b) (\<lambda>y.
       ret (if x \<noteq> y then Inr (byte_diff x y) else Inl (a + 1, b + 1, cnt - 1)))))"

definition memcmp :: "u32 \<Rightarrow> u32 \<Rightarrow> u32 \<Rightarrow> u32 str" where
  "memcmp cs ct cnt = loop memcmp_step (cs, ct, cnt)"

definition memchr :: "u32 \<Rightarrow> u8 \<Rightarrow> u32 \<Rightarrow> u32 str" where
  "memchr cs c cnt =
     loop (\<lambda>(p, cnt). if \<not> 0 <s cnt then ret (Inr 0)
       else bind (ld p) (\<lambda>x. ret (if x = c then Inr p else Inl (p + 1, cnt - 1)))) (cs, cnt)"

definition memset :: "u32 \<Rightarrow> u8 \<Rightarrow> u32 \<Rightarrow> u32 str" where
  "memset s c cnt = seq (loop (fill_step c) (s, cnt)) (ret s)"

end
