(* ===== verification/Stringlib.thy ===== *)
theory Stringlib
  imports Strings
begin

text \<open>
  Correctness of the string functions: \<open>memmove\<close> copies also when the blocks overlap, and
  \<open>strcmp\<close> is the lexicographic comparison of strings.
\<close>

section \<open>Moving memory\<close>

text \<open>Byte by byte upwards and downwards.\<close>

primrec up :: "u32 \<Rightarrow> u32 \<Rightarrow> nat \<Rightarrow> (u32 \<Rightarrow> u8) \<Rightarrow> u32 \<Rightarrow> u8" where
  "up d s 0 m = m"
| "up d s (Suc r) m = up (d + 1) (s + 1) r (m(d := m s))"

primrec down :: "u32 \<Rightarrow> u32 \<Rightarrow> nat \<Rightarrow> (u32 \<Rightarrow> u8) \<Rightarrow> u32 \<Rightarrow> u8" where
  "down d s 0 m = m"
| "down d s (Suc r) m = down d s r (m(d + word_of_nat r := m (s + word_of_nat r)))"

lemma of_nat_eq: "i < 4294967296 \<Longrightarrow> j < 4294967296 \<Longrightarrow> (word_of_nat i :: u32) = word_of_nat j \<longleftrightarrow> i = j"
  by (simp add: word_unat_eq_iff unat_of_nat)

lemma offset_eq: "i < 4294967296 \<Longrightarrow> j < 4294967296 \<Longrightarrow> (p :: u32) + word_of_nat i = p + word_of_nat j \<longleftrightarrow> i = j"
  by (simp add: of_nat_eq)

lemma offset_Suc: "(p :: u32) + word_of_nat (Suc i) = (p + 1) + word_of_nat i"
  by simp

lemma up_other: "(\<And>i. i < r \<Longrightarrow> a \<noteq> d + word_of_nat i) \<Longrightarrow> up d s r m a = m a"
proof (induction r arbitrary: d s m)
  case (Suc r)
  have "a \<noteq> d" using Suc.prems [of 0] by simp
  moreover have "a \<noteq> (d + 1) + word_of_nat i" if "i < r" for i using Suc.prems [of "Suc i"] that by (simp only: offset_Suc) simp
  ultimately show ?case using Suc.IH by simp
qed simp

lemma up_moved:
  assumes "r \<le> 4294967296" "\<And>i j. i < j \<Longrightarrow> j < r \<Longrightarrow> d + word_of_nat i \<noteq> s + word_of_nat j" "i < r"
  shows "up d s r m (d + word_of_nat i) = m (s + word_of_nat i)"
  using assms
proof (induction r arbitrary: d s m i)
  case (Suc r)
  show ?case
  proof (cases i)
    case 0
    have "d \<noteq> (d + 1) + word_of_nat j" if "j < r" for j
      using offset_eq [of 0 "Suc j" d] that Suc.prems(1) by (simp only: offset_Suc) simp
    then show ?thesis using 0 up_other [of r d "d + 1" "s + 1" "m(d := m s)"] by simp
  next
    case (Suc j)
    have apart: "(d + 1) + word_of_nat a \<noteq> (s + 1) + word_of_nat b" if "a < b" "b < r" for a b
      using Suc.prems(2) [of "Suc a" "Suc b"] that by (simp only: offset_Suc) simp
    have "up (d + 1) (s + 1) r (m(d := m s)) ((d + 1) + word_of_nat j) = (m(d := m s)) ((s + 1) + word_of_nat j)"
      by (rule Suc.IH) (use Suc.prems(1,3) \<open>i = Suc j\<close> apart in simp_all)
    moreover have "d \<noteq> (s + 1) + word_of_nat j" using Suc.prems(2) [of 0 "Suc j"] Suc.prems(3) \<open>i = Suc j\<close> by (simp only: offset_Suc) simp
    ultimately show ?thesis using \<open>i = Suc j\<close> by (simp only: offset_Suc up.simps) simp
  qed
qed simp

lemma down_other: "(\<And>i. i < r \<Longrightarrow> a \<noteq> d + word_of_nat i) \<Longrightarrow> down d s r m a = m a"
  by (induction r arbitrary: m) simp_all

lemma down_moved:
  assumes "r \<le> 4294967296" "\<And>i j. j < i \<Longrightarrow> i < r \<Longrightarrow> d + word_of_nat i \<noteq> s + word_of_nat j" "i < r"
  shows "down d s r m (d + word_of_nat i) = m (s + word_of_nat i)"
  using assms
proof (induction r arbitrary: m)
  case (Suc r)
  show ?case
  proof (cases "i = r")
    case True
    have "d + word_of_nat r \<noteq> d + word_of_nat j" if "j < r" for j
      using offset_eq [of r j d] that Suc.prems(1) by simp
    then show ?thesis using True by (simp add: down_other)
  next
    case False
    then have "i < r" using Suc.prems(3) by simp
    then have "down d s r (m(d + word_of_nat r := m (s + word_of_nat r))) (d + word_of_nat i) =
        (m(d + word_of_nat r := m (s + word_of_nat r))) (s + word_of_nat i)"
      using Suc.IH Suc.prems(1,2) by simp
    then show ?thesis using Suc.prems(2) [of i r] \<open>i < r\<close> by simp
  qed
qed simp

text \<open>The loops compute these functions.\<close>

lemma pos_count: "unat (n :: u32) = Suc r \<Longrightarrow> Suc r < 2147483648 \<Longrightarrow> 0 <s n \<and> unat (n - 1) = r"
  using sint_unat [of n] by (auto simp: word_sless_alt unat_sub_if' unat_eq_zero)

lemma memcpy_loop:
  "r < k \<Longrightarrow> unat cnt = r \<Longrightarrow> r < 2147483648 \<Longrightarrow>
   loop_fuel k memcpy_step (d, s, cnt) n t = Done () (t\<lparr>mem := up d s r (mem t)\<rparr>)"
proof (induction k arbitrary: r d s cnt t)
  case (Suc k)
  show ?case
  proof (cases r)
    case 0
    then have "cnt = 0" using Suc.prems(2) by (simp add: unat_eq_zero)
    then show ?thesis using 0 by (simp add: memcpy_step_def kexec)
  next
    case (Suc q)
    have c: "0 <s cnt" "unat (cnt - 1) = q" using pos_count [of cnt q] Suc.prems Suc by simp_all
    let ?t = "t\<lparr>mem := (mem t)(d := mem t s)\<rparr>"
    have "loop_fuel k memcpy_step (d + 1, s + 1, cnt - 1) n ?t = Done () (?t\<lparr>mem := up (d + 1) (s + 1) q (mem ?t)\<rparr>)"
      by (rule Suc.IH) (use Suc.prems Suc c in simp_all)
    then show ?thesis using c(1) Suc by (simp add: memcpy_step_def kexec ld_def st_def)
  qed
qed simp

lemma memmove_loop:
  "r < k \<Longrightarrow> unat cnt = r \<Longrightarrow> r < 2147483648 \<Longrightarrow>
   loop_fuel k memmove_step (d + word_of_nat r, s + word_of_nat r, cnt) n t = Done () (t\<lparr>mem := down d s r (mem t)\<rparr>)"
proof (induction k arbitrary: r cnt t)
  case (Suc k)
  show ?case
  proof (cases r)
    case 0
    then have "cnt = 0" using Suc.prems(2) by (simp add: unat_eq_zero)
    then show ?thesis using 0 by (simp add: memmove_step_def kexec)
  next
    case (Suc q)
    have c: "0 <s cnt" "unat (cnt - 1) = q" using pos_count [of cnt q] Suc.prems Suc by simp_all
    let ?t = "t\<lparr>mem := (mem t)(d + word_of_nat q := mem t (s + word_of_nat q))\<rparr>"
    have "loop_fuel k memmove_step (d + word_of_nat q, s + word_of_nat q, cnt - 1) n ?t = Done () (?t\<lparr>mem := down d s q (mem ?t)\<rparr>)"
      by (rule Suc.IH) (use Suc.prems Suc c in simp_all)
    moreover have pred: "p + word_of_nat (Suc q) - 1 = p + word_of_nat q" for p :: u32 by simp
    have "memmove_step (d + word_of_nat (Suc q), s + word_of_nat (Suc q), cnt) n t =
        Done (Inl (d + word_of_nat q, s + word_of_nat q, cnt - 1)) ?t"
      unfolding memmove_step_def prod.case pred using c(1) by (simp add: kexec ld_def st_def)
    ultimately show ?thesis using Suc by (simp add: bind_exec del: of_nat_Suc)
  qed
qed simp

lemma no_wrap_apart:
  assumes "unat a + i < 4294967296" "unat b + j < 4294967296" "unat a + i \<noteq> unat b + j"
  shows "(a :: u32) + word_of_nat i \<noteq> b + word_of_nat j"
  using assms unat_add_of_nat [of a i] unat_add_of_nat [of b j] by metis

text \<open>
  C37: \<open>memmove\<close> of \<open>n\<close> bytes, for blocks that do not wrap around the end of memory, always
  returns the destination, which then holds the bytes the source held before, however the two
  blocks overlap; no other byte changes.
\<close>

theorem memmove_overlap:
  assumes n: "unat n < 2147483648" "unat n < fuel"
    and wrap: "unat dest + unat n < 4294967296" "unat src + unat n < 4294967296"
  shows "\<exists>t. memmove dest src n fuel s = Done dest t \<and>
     (\<forall>i<unat n. mem t (dest + word_of_nat i) = mem s (src + word_of_nat i)) \<and>
     (\<forall>a. (\<forall>i<unat n. a \<noteq> dest + word_of_nat i) \<longrightarrow> mem t a = mem s a)"
proof -
  have un: "unat (src + n) = unat src + unat n" using wrap(2) by (simp add: unat_word_ariths)
  show ?thesis
  proof (cases "dest < src \<or> src + n \<le> dest")
    case True
    have "dest + word_of_nat i \<noteq> src + word_of_nat j" if "i < j" "j < unat n" for i j
      using True un wrap that by (intro no_wrap_apart) (auto simp: word_less_nat_alt word_le_nat_alt)
    then have moved: "up dest src (unat n) (mem s) (dest + word_of_nat i) = mem s (src + word_of_nat i)" if "i < unat n" for i
      using n(1) that by (intro up_moved) simp_all
    have "memmove dest src n fuel s = Done dest (s\<lparr>mem := up dest src (unat n) (mem s)\<rparr>)"
      using True memcpy_loop [OF n(2) refl n(1)] by (simp add: memmove_def memcpy_def loop_def kexec)
    then show ?thesis using moved up_other [of "unat n" _ dest src "mem s"] by simp
  next
    case False
    have "dest + word_of_nat i \<noteq> src + word_of_nat j" if "j < i" "i < unat n" for i j
      using False un wrap that by (intro no_wrap_apart) (auto simp: word_less_nat_alt word_le_nat_alt)
    then have moved: "down dest src (unat n) (mem s) (dest + word_of_nat i) = mem s (src + word_of_nat i)" if "i < unat n" for i
      using n(1) that by (intro down_moved) simp_all
    have "memmove dest src n fuel s = Done dest (s\<lparr>mem := down dest src (unat n) (mem s)\<rparr>)"
      using False memmove_loop [OF n(2) refl n(1), of dest src] by (simp add: memmove_def loop_def kexec)
    then show ?thesis using moved down_other [of "unat n" _ dest src "mem s"] by simp
  qed
qed

theorem memmove_overlap_witness:
  "\<exists>t. memmove 101 100 3 4 \<lparr>mem = (\<lambda>p. ucast p), strtok_place = 0\<rparr> = Done 101 t \<and> mem t 103 = 102 \<and> mem t 100 = 100"
proof -
  let ?s = "\<lparr>mem = (\<lambda>p. ucast p), strtok_place = 0\<rparr>"
  obtain t where t: "memmove 101 100 3 4 ?s = Done 101 t" "\<forall>i<3. mem t (101 + word_of_nat i) = mem ?s (100 + word_of_nat i)"
    "\<forall>a. (\<forall>i<3. a \<noteq> 101 + word_of_nat i) \<longrightarrow> mem t a = mem ?s a"
    using memmove_overlap [of 3 4 101 100 ?s] by auto
  have "mem t 103 = 102" using t(2) [rule_format, of 2] by simp
  moreover have "(100 :: u32) \<noteq> 101 + word_of_nat i" if "i < 3" for i
    using that no_wrap_apart [of 100 0 101 i] by simp
  ultimately show ?thesis using t(1,3) by auto
qed

section \<open>Strings\<close>

text \<open>The string at address \<open>p\<close> is \<open>xs\<close>.\<close>

definition cstring :: "strmem \<Rightarrow> u32 \<Rightarrow> u8 list \<Rightarrow> bool" where
  "cstring s p xs \<longleftrightarrow> (\<forall>i<length xs. mem s (p + word_of_nat i) = xs ! i) \<and> mem s (p + word_of_nat (length xs)) = 0 \<and> 0 \<notin> set xs"

lemma cstring_Nil: "cstring s p [] \<longleftrightarrow> mem s p = 0"
  by (simp add: cstring_def)

lemma cstring_Cons: "cstring s p (x # xs) \<longleftrightarrow> mem s p = x \<and> x \<noteq> 0 \<and> cstring s (p + 1) xs"
proof -
  have "(\<forall>i<length (x # xs). mem s (p + word_of_nat i) = (x # xs) ! i) \<longleftrightarrow>
      mem s p = x \<and> (\<forall>i<length xs. mem s (p + 1 + word_of_nat i) = xs ! i)"
    unfolding length_Cons All_less_Suc2 by (simp add: offset_Suc del: of_nat_Suc)
  moreover have "p + word_of_nat (length (x # xs)) = p + 1 + word_of_nat (length xs)" by simp
  ultimately show ?thesis unfolding cstring_def by (auto simp: add.assoc)
qed

lemma byte_diff_sign: "byte_diff a b <s 0 \<longleftrightarrow> a < b" "byte_diff a b = 0 \<longleftrightarrow> a = b"
proof -
  have ab: "unat a < 256" "unat b < 256" using unsigned_less [where 'a = nat, of a] unsigned_less [where 'a = nat, of b] by simp_all
  have u: "unat (ucast c :: u32) = unat c" if "unat c < 256" for c :: u8
    using that by (simp add: unsigned_ucast_eq take_bit_nat_eq_self)
  have "unat (byte_diff a b) = (if unat b \<le> unat a then unat a - unat b else unat a + 4294967296 - unat b)"
    unfolding byte_diff_def unat_sub_if' u [OF ab(1)] u [OF ab(2)] by simp
  then show "byte_diff a b <s 0 \<longleftrightarrow> a < b" using ab unfolding sless_0_iff word_less_nat_alt by (auto split: if_splits)
  have "(ucast a :: u32) = ucast b \<longleftrightarrow> a = b" by (metis ab u word_unat_eq_iff)
  then show "byte_diff a b = 0 \<longleftrightarrow> a = b" by (simp add: byte_diff_def)
qed

lemma strcmp_loop:
  assumes "cstring s p xs" "cstring s q ys" "length xs < k"
  shows "\<exists>r. loop_fuel k strcmp_step (p, q) n s = Done r s \<and> (r <s 0 \<longleftrightarrow> (xs, ys) \<in> lexord {(a, b). a < b}) \<and> (r = 0 \<longleftrightarrow> xs = ys)"
  using assms
proof (induction k arbitrary: p q xs ys)
  case (Suc k)
  let ?a = "mem s p" and ?b = "mem s q"
  have head: "?a = (case xs of [] \<Rightarrow> 0 | x # _ \<Rightarrow> x)" "?b = (case ys of [] \<Rightarrow> 0 | y # _ \<Rightarrow> y)"
    using Suc.prems by (auto simp: cstring_Nil cstring_Cons split: list.splits)
  have nz: "0 \<notin> set xs" "0 \<notin> set ys" using Suc.prems by (simp_all add: cstring_def)
  show ?case
  proof (cases "?a = ?b \<and> ?a \<noteq> 0")
    case True
    then obtain x xs' ys' where eq: "xs = x # xs'" "ys = x # ys'" using head nz by (auto split: list.splits)
    then obtain r where "loop_fuel k strcmp_step (p + 1, q + 1) n s = Done r s"
      "r <s 0 \<longleftrightarrow> (xs', ys') \<in> lexord {(a, b). a < b}" "r = 0 \<longleftrightarrow> xs' = ys'"
      using Suc.IH [of "p + 1" xs' "q + 1" ys'] Suc.prems by (auto simp: cstring_Cons)
    moreover have "strcmp_step (p, q) n s = Done (Inl (p + 1, q + 1)) s"
      using True by (auto simp: strcmp_step_def kexec ld_def)
    ultimately show ?thesis using eq by (simp add: bind_exec)
  next
    case False
    then have "loop_fuel (Suc k) strcmp_step (p, q) n s = Done (byte_diff ?a ?b) s"
      by (auto simp: strcmp_step_def kexec ld_def)
    moreover have "?a < ?b \<longleftrightarrow> (xs, ys) \<in> lexord {(a, b). a < b}" "?a = ?b \<longleftrightarrow> xs = ys"
      using False head nz by (auto split: list.splits simp: word_neq_0_conv)
    ultimately show ?thesis using byte_diff_sign by blast
  qed
qed simp

text \<open>
  \<open>strcmp\<close> on two strings always returns and decides the lexicographic order of their
  unsigned bytes: the result is negative exactly when the first string is less than the second,
  and zero exactly when they are equal.
\<close>

theorem strcmp_lexicographic:
  assumes "cstring s p xs" "cstring s q ys" "length xs < n"
  shows "\<exists>r. strcmp p q n s = Done r s \<and> (r <s 0 \<longleftrightarrow> (xs, ys) \<in> lexord {(a, b). a < b}) \<and> (r = 0 \<longleftrightarrow> xs = ys)"
  using strcmp_loop [OF assms] by (simp add: strcmp_def loop_def)

theorem strcmp_lexicographic_witness:
  "\<exists>r. strcmp 100 200 2 \<lparr>mem = (\<lambda>_. 0)(100 := 65, 200 := 200), strtok_place = 0\<rparr> = Done r \<lparr>mem = (\<lambda>_. 0)(100 := 65, 200 := 200), strtok_place = 0\<rparr> \<and> r <s 0"
  using strcmp_lexicographic [of "\<lparr>mem = (\<lambda>_. 0)(100 := 65, 200 := 200), strtok_place = 0\<rparr>" 100 "[65]" 200 "[200]" 2]
  by (auto simp: cstring_Cons cstring_Nil)

end
