(* ===== verification/Malloc.thy ===== *)
theory Malloc
  imports Memory
begin

text \<open>
  The kernel's memory allocator, \<^verbatim>\<open>lib/malloc.c\<close>, in main memory: bucket descriptors are four
  words of a page (page, next, freeptr, and the halfwords refcnt and bucket_size), the free
  objects of a bucket are linked through their first word.
\<close>

section \<open>Bucket descriptors\<close>

abbreviation desc_page :: "kstate \<Rightarrow> u32 \<Rightarrow> u32" where "desc_page s b \<equiv> ram s b"
abbreviation desc_next :: "kstate \<Rightarrow> u32 \<Rightarrow> u32" where "desc_next s b \<equiv> ram s (b + 4)"
abbreviation desc_freeptr :: "kstate \<Rightarrow> u32 \<Rightarrow> u32" where "desc_freeptr s b \<equiv> ram s (b + 8)"

definition desc_refcnt :: "kstate \<Rightarrow> u32 \<Rightarrow> u16" where
  "desc_refcnt s b = ucast (ram s (b + 12))"

definition set_refcnt :: "u32 \<Rightarrow> u16 \<Rightarrow> kstate \<Rightarrow> kstate" where
  "set_refcnt b v s = set_ram (b + 12) (push_bit 16 (drop_bit 16 (ram s (b + 12))) OR ucast v) s"

definition set_bucket_size :: "u32 \<Rightarrow> u32 \<Rightarrow> kstate \<Rightarrow> kstate" where
  "set_bucket_size b v s = set_ram (b + 12) (take_bit 16 (ram s (b + 12)) OR push_bit 16 v) s"

definition bucket_dir :: "u32 list" where
  "bucket_dir = [16, 32, 64, 128, 256, 512, 1024, 2048, 4096]"

definition init_bucket_desc :: "unit kernel" where
  "init_bucket_desc =
     bind get_free_page (\<lambda>first.
     if first = 0 then panic ''Out of memory in init_bucket_desc()''
     else
       seq (for_each [0..<255] (\<lambda>i. modify (set_ram (first + 16 * word_of_nat i + 4) (first + 16 * word_of_nat (i + 1)))))
      (bind (gets free_bucket_desc) (\<lambda>f.
       seq (modify (set_ram (first + 16 * 255 + 4) f))
           (modify (\<lambda>s. s\<lparr>free_bucket_desc := first\<rparr>)))))"

section \<open>Allocation\<close>

text \<open>The first descriptor of a chain that satisfies a condition, with the one before it (0 at the head).\<close>

definition find_desc :: "(kstate \<Rightarrow> u32 \<Rightarrow> bool) \<Rightarrow> u32 \<Rightarrow> (u32 \<times> u32) kernel" where
  "find_desc P c =
     loop (\<lambda>(prev, b). bind (gets (\<lambda>s. (P s b, desc_next s b))) (\<lambda>(p, nx).
       ret (if b = 0 \<or> p then Inr (prev, b) else Inl (b, nx)))) (0, c)"

definition set_chain :: "nat \<Rightarrow> u32 \<Rightarrow> kstate \<Rightarrow> kstate" where
  "set_chain i b s = s\<lparr>bucket_chain := (bucket_chain s)(i := b)\<rparr>"

text \<open>A new bucket for objects of size \<open>bucket_dir ! i\<close>, put at the head of its chain.\<close>

definition link_objects :: "u32 \<Rightarrow> u32 \<Rightarrow> unit kernel" where
  "link_objects cp sz =
     seq (for_each [0..<unat (4096 div sz) - 1] (\<lambda>k.
            modify (set_ram (cp + sz * word_of_nat k) (cp + sz * word_of_nat (k + 1)))))
         (modify (set_ram (cp + sz * (4096 div sz - 1)) 0))"

definition new_bucket :: "nat \<Rightarrow> u32 kernel" where
  "new_bucket i =
     bind (gets (\<lambda>s. free_bucket_desc s = 0)) (\<lambda>none.
     seq (whenk none init_bucket_desc)
    (bind (gets free_bucket_desc) (\<lambda>b.
     seq (modify (\<lambda>s. s\<lparr>free_bucket_desc := desc_next s b\<rparr>))
    (seq (modify (set_refcnt b 0))
    (seq (modify (set_bucket_size b (bucket_dir ! i)))
    (bind get_free_page (\<lambda>cp.
     seq (modify (\<lambda>s. set_ram b cp (set_ram (b + 8) cp s)))
    (if cp = 0 then panic ''Out of memory in kernel malloc()''
     else
       seq (link_objects cp (bucket_dir ! i))
      (seq (modify (\<lambda>s. set_ram (b + 4) (bucket_chain s i) s))
      (seq (modify (set_chain i b)) (ret b)))))))))))"

definition take_object :: "u32 \<Rightarrow> u32 kernel" where
  "take_object b =
     bind (gets (\<lambda>s. desc_freeptr s b)) (\<lambda>obj.
     seq (modify (\<lambda>s. set_ram (b + 8) (ram s obj) s))
    (seq (modify (\<lambda>s. set_refcnt b (desc_refcnt s b + 1) s))
         (ret obj)))"

definition malloc :: "u32 \<Rightarrow> u32 kernel" where
  "malloc len =
     (case search (\<lambda>i. len \<le> bucket_dir ! i) 0 9 of
        None \<Rightarrow> panic ''malloc: bad arg''
      | Some i \<Rightarrow>
          bind (gets (\<lambda>s. bucket_chain s i)) (\<lambda>c.
          bind (find_desc (\<lambda>s b. desc_freeptr s b \<noteq> 0) c) (\<lambda>(prev, b).
          bind (if b = 0 then new_bucket i else ret b) take_object)))"

section \<open>Release\<close>

text \<open>The search of \<open>free_s\<close> over the directory: the size class, the descriptor and the one before it.\<close>

primrec find_bucket :: "u32 \<Rightarrow> u32 \<Rightarrow> nat list \<Rightarrow> (nat \<times> u32 \<times> u32) kernel" where
  "find_bucket page sz [] = panic ''Bad address passed to kernel free_s()''"
| "find_bucket page sz (i # is) =
     (if bucket_dir ! i <s sz then find_bucket page sz is
      else bind (gets (\<lambda>s. bucket_chain s i)) (\<lambda>c.
        bind (find_desc (\<lambda>s b. desc_page s b = page) c) (\<lambda>(prev, b).
        if b = 0 then find_bucket page sz is else ret (i, prev, b))))"

text \<open>An empty bucket is taken out of its chain, its page is freed and its descriptor is kept.\<close>

definition drop_bucket :: "nat \<Rightarrow> u32 \<Rightarrow> u32 \<Rightarrow> unit kernel" where
  "drop_bucket i prev b =
     bind (gets (\<lambda>s. if prev \<noteq> 0 then desc_next s prev \<noteq> b else bucket_chain s i \<noteq> b)) (\<lambda>stale.
     bind (if stale then bind (gets (\<lambda>s. bucket_chain s i)) (\<lambda>c.
             bind (find_desc (\<lambda>s p. desc_next s p = b) c) (\<lambda>(_, p). ret p)) else ret prev) (\<lambda>prev.
     seq (if prev \<noteq> 0 then modify (\<lambda>s. set_ram (prev + 4) (desc_next s b) s)
          else bind (gets (\<lambda>s. bucket_chain s i)) (\<lambda>c.
            if c \<noteq> b then panic ''malloc bucket chains corrupted''
            else modify (\<lambda>s. set_chain i (desc_next s b) s)))
    (bind (gets (\<lambda>s. desc_page s b)) (\<lambda>page.
     seq (free_page page)
    (seq (modify (\<lambda>s. set_ram (b + 4) (free_bucket_desc s) s))
         (modify (\<lambda>s. s\<lparr>free_bucket_desc := b\<rparr>)))))))"

definition free_s :: "u32 \<Rightarrow> u32 \<Rightarrow> unit kernel" where
  "free_s obj sz =
     bind (find_bucket (obj AND 0xfffff000) sz [0..<9]) (\<lambda>(i, prev, b).
     seq (modify (\<lambda>s. set_ram obj (desc_freeptr s b) s))
    (seq (modify (set_ram (b + 8) obj))
    (seq (modify (\<lambda>s. set_refcnt b (desc_refcnt s b - 1) s))
    (bind (gets (\<lambda>s. desc_refcnt s b)) (\<lambda>r.
     whenk (r = 0) (drop_bucket i prev b))))))"

end
