(* ===== verification/Buckets.thy ===== *)
theory Buckets
  imports Malloc Address_Space
begin

text \<open>
  Correctness of the kernel's memory allocator on a heap whose buckets are well-formed:
  allocation takes an object off the free list of the right bucket, and releasing it at once
  restores the heap exactly.
\<close>

section \<open>Chains\<close>

text \<open>\<open>lchain nx p as\<close>: the null-terminated list of addresses that starts at \<open>p\<close> is \<open>as\<close>.\<close>

primrec lchain :: "(u32 \<Rightarrow> u32) \<Rightarrow> u32 \<Rightarrow> u32 list \<Rightarrow> bool" where
  "lchain nx p [] \<longleftrightarrow> p = 0"
| "lchain nx p (a # as) \<longleftrightarrow> p = a \<and> a \<noteq> 0 \<and> lchain nx (nx a) as"

lemma lchain_cong: "(\<And>a. a \<in> set as \<Longrightarrow> nx a = nx' a) \<Longrightarrow> lchain nx p as = lchain nx' p as"
  by (induction as arbitrary: p) auto

definition desc_step :: "(kstate \<Rightarrow> u32 \<Rightarrow> bool) \<Rightarrow> u32 \<times> u32 \<Rightarrow> (u32 \<times> u32 + u32 \<times> u32) kernel" where
  "desc_step P = (\<lambda>(prev, b). bind (gets (\<lambda>s. (P s b, desc_next s b))) (\<lambda>(p, nx).
       ret (if b = 0 \<or> p then Inr (prev, b) else Inl (b, nx))))"

lemma find_desc_step: "find_desc P c = loop (desc_step P) (0, c)"
  by (simp add: find_desc_def desc_step_def)

lemma desc_step_exec:
  "desc_step P (prev, b) n s = Done (if b = 0 \<or> P s b then Inr (prev, b) else Inl (b, desc_next s b)) s"
  by (simp add: desc_step_def kexec)

lemma desc_loop:
  assumes "lchain (desc_next s) c (pre @ rest)" "\<And>d. d \<in> set pre \<Longrightarrow> \<not> P s d" "length pre < k"
    "case rest of [] \<Rightarrow> True | b # _ \<Rightarrow> P s b"
  shows "loop_fuel k (desc_step P) (prev, c) n s = Done (last (prev # pre), case rest of [] \<Rightarrow> 0 | b # _ \<Rightarrow> b) s"
  using assms
proof (induction k arbitrary: pre c prev)
  case (Suc k)
  show ?case
  proof (cases pre)
    case Nil
    then have c: "c = (case rest of [] \<Rightarrow> 0 | b # _ \<Rightarrow> b)" "c = 0 \<or> P s c" using Suc.prems(1,4) by (auto split: list.splits)
    have "loop_fuel (Suc k) (desc_step P) (prev, c) n s = Done (prev, c) s"
      using c(2) by (simp add: desc_step_exec [of P prev c n s] bind_exec ret_exec)
    then show ?thesis using Nil c(1) by simp
  next
    case (Cons d ds)
    then have "c = d" "c \<noteq> 0" "\<not> P s c" "lchain (desc_next s) (desc_next s c) (ds @ rest)" using Suc.prems by auto
    moreover from this have "desc_step P (prev, c) n s = Done (Inl (c, desc_next s c)) s" by (simp add: desc_step_exec)
    then have "loop_fuel (Suc k) (desc_step P) (prev, c) n s = loop_fuel k (desc_step P) (c, desc_next s c) n s" by (simp add: bind_exec)
    ultimately show ?thesis using Suc.IH [of "desc_next s c" ds c] Suc.prems Cons by simp
  qed
qed simp

lemma find_desc_found:
  assumes "lchain (desc_next s) c (pre @ b # post)" "\<And>d. d \<in> set pre \<Longrightarrow> \<not> P s d" "length pre < n" "P s b"
  shows "find_desc P c n s = Done (last (0 # pre), b) s"
  unfolding find_desc_step loop_def using desc_loop [of s c pre "b # post" P n 0 n] assms by simp

lemma find_desc_none:
  assumes "lchain (desc_next s) c ds" "\<And>d. d \<in> set ds \<Longrightarrow> \<not> P s d" "length ds < n"
  shows "find_desc P c n s = Done (last (0 # ds), 0) s"
  unfolding find_desc_step loop_def using desc_loop [of s c ds "[]" P n 0 n] assms by simp

section \<open>Well-formed buckets\<close>

definition objects :: "u32 \<Rightarrow> u32 \<Rightarrow> u32 set" where
  "objects p z = {p + z * word_of_nat k | k. unat z * k < 4096}"

text \<open>
  The descriptor \<open>b\<close> has the page \<open>p\<close> with objects of size \<open>z\<close>, of which those in \<open>fs\<close> are free.
\<close>

definition bucket :: "kstate \<Rightarrow> u32 \<Rightarrow> u32 \<Rightarrow> u32 \<Rightarrow> u32 list \<Rightarrow> bool" where
  "bucket s b p z fs \<longleftrightarrow>
     page_aligned p \<and> 16 dvd unat b \<and> unat b div 4096 \<noteq> unat p div 4096 \<and> desc_page s b = p \<and>
     lchain (ram s) (desc_freeptr s b) fs \<and> distinct fs \<and> set fs \<subseteq> objects p z \<and>
     unat (desc_refcnt s b) + length fs = 4096 div unat z"

lemma page_of_desc:
  fixes b :: u32
  assumes "16 dvd unat b" "j \<le> 12"
  shows "unat (b + word_of_nat j) div 4096 = unat b div 4096"
proof -
  obtain m where m: "unat b = 16 * m" using assms(1) by (auto simp: dvd_def)
  have "unat b < 4294967296" using unsigned_less [where w = b and 'a = nat] by simp
  then have "m < 268435456" using m by linarith
  then have "unat (b + word_of_nat j) = 16 * m + j" using unat_add_of_nat [of b j] m assms(2) by simp
  moreover have "(16 * m + j) div 16 = m" using assms(2) by simp
  then have "(16 * m + j) div 4096 = m div 256" using div_mult2_eq [of "16 * m + j" 16 256] by simp
  moreover have "16 * m div 4096 = m div 256" using div_mult2_eq [of "16 * m" 16 256] by simp
  ultimately show ?thesis using m by simp
qed

lemma page_of_object:
  assumes "page_aligned p" "f \<in> objects p z"
  shows "unat f div 4096 = unat p div 4096" "f AND 0xfffff000 = p"
proof -
  obtain k where f: "f = p + z * word_of_nat k" "unat z * k < 4096" using assms(2) by (auto simp: objects_def)
  obtain m where m: "unat p = 4096 * m" "m < 1048576" by (rule page_alignedE [OF assms(1)])
  have "z * word_of_nat k = word_of_nat (unat z * k)" by simp
  then have "unat f = 4096 * m + unat z * k" using unat_add_of_nat [of p "unat z * k"] f m by simp
  then have d: "unat f div 4096 = m" using f(2) by simp
  then show "unat f div 4096 = unat p div 4096" using m by simp
  have "unat (f AND 0xfffff000) = 4096 * m" using d by (simp add: unat_page_start)
  then show "f AND 0xfffff000 = p" using m by (simp add: word_unat_eq_iff)
qed

lemma objects_apart:
  assumes "bucket s b p z fs" "f \<in> objects p z" "j \<le> 12"
  shows "f \<noteq> b + word_of_nat j"
proof -
  have "page_aligned p" "16 dvd unat b" "unat b div 4096 \<noteq> unat p div 4096" using assms(1) by (simp_all add: bucket_def)
  then show ?thesis using page_of_desc [of b j] page_of_object(1) [of p f z] assms(2,3) by metis
qed

section \<open>Allocation and release\<close>

lemma refcnt_roundtrip:
  "desc_refcnt (set_refcnt b v s) b = v" "set_refcnt b (desc_refcnt s b) s = s" "set_refcnt b w (set_refcnt b v s) = set_refcnt b w s"
proof -
  have lo: "ucast (push_bit 16 (drop_bit 16 x) OR ucast v) = v" for x :: u32 and v :: u16
    by (rule bit_word_eqI) (auto simp: bit_simps)
  have "push_bit 16 (drop_bit 16 x) OR ucast (ucast x :: u16) = x" for x :: u32
    by (rule bit_word_eqI) (auto simp: bit_simps)
  then show "set_refcnt b (desc_refcnt s b) s = s" by (simp add: set_refcnt_def desc_refcnt_def set_ram_def fun_upd_idem)
  show "desc_refcnt (set_refcnt b v s) b = v" using lo by (simp add: set_refcnt_def desc_refcnt_def set_ram_def)
  have "drop_bit 16 (push_bit 16 (drop_bit 16 x) OR ucast v) = drop_bit 16 x" for x :: u32 and v :: u16
    by (rule bit_word_eqI) (auto simp: bit_simps dest: bit_imp_le_length)
  then show "set_refcnt b w (set_refcnt b v s) = set_refcnt b w s" by (simp add: set_refcnt_def set_ram_def)
qed

lemma take_object_exec:
  "take_object b n s = Done (desc_freeptr s b)
     (set_refcnt b (desc_refcnt s b + 1) (set_ram (b + 8) (ram s (desc_freeptr s b)) s))"
proof -
  have "desc_refcnt (set_ram (b + 8) v s) b = desc_refcnt s b" for v by (simp add: desc_refcnt_def set_ram_def)
  then show ?thesis by (simp add: take_object_def kexec)
qed

text \<open>
  \<open>serving s len i pre b post\<close>: requests of \<open>len\<close> bytes are served from size class \<open>i\<close>, whose
  chain is \<open>pre @ b # post\<close> with \<open>b\<close> the first descriptor that has free objects.
\<close>

definition serving :: "kstate \<Rightarrow> u32 \<Rightarrow> nat \<Rightarrow> u32 list \<Rightarrow> u32 \<Rightarrow> u32 list \<Rightarrow> bool" where
  "serving s len i pre b post \<longleftrightarrow> search (\<lambda>i. len \<le> bucket_dir ! i) 0 9 = Some i \<and>
     lchain (desc_next s) (bucket_chain s i) (pre @ b # post) \<and> (\<forall>d\<in>set pre. desc_freeptr s d = 0) \<and> desc_freeptr s b \<noteq> 0"

lemma lchain_nonzero: "lchain nx p as \<Longrightarrow> a \<in> set as \<Longrightarrow> a \<noteq> 0"
  by (induction as arbitrary: p) auto

lemma malloc_exec:
  assumes "serving s len i pre b post" "length pre < n"
  shows "malloc len n s = take_object b n s"
proof -
  have s: "search (\<lambda>i. len \<le> bucket_dir ! i) 0 9 = Some i" "lchain (desc_next s) (bucket_chain s i) (pre @ b # post)"
    "\<And>d. d \<in> set pre \<Longrightarrow> desc_freeptr s d = 0" "desc_freeptr s b \<noteq> 0" using assms(1) by (auto simp: serving_def)
  have "b \<noteq> 0" using lchain_nonzero [OF s(2)] by simp
  moreover have "find_desc (\<lambda>s b. desc_freeptr s b \<noteq> 0) (bucket_chain s i) n s = Done (last (0 # pre), b) s"
    by (rule find_desc_found [OF s(2)]) (use s assms(2) in auto)
  ultimately show ?thesis by (simp add: malloc_def s(1) bind_exec gets_exec ret_exec)
qed

text \<open>
  C33: \<open>malloc\<close>, when the first descriptor of its size class with free objects has a well-formed
  bucket, returns the first free object of that bucket, at least as large as asked for. The
  object was free and is not any more, the rest of the free list stays and the count of objects
  in use is exact; only two words of the descriptor change in memory.
\<close>

theorem malloc_takes_object:
  assumes serve: "serving s len i pre b post" and bk: "bucket s b p (bucket_dir ! i) (f # fs)" and fuel: "length pre < n"
  shows "\<exists>t. malloc len n s = Done f t \<and> len \<le> bucket_dir ! i \<and> f \<in> objects p (bucket_dir ! i) \<and> f \<notin> set fs \<and>
     bucket t b p (bucket_dir ! i) fs \<and> (\<forall>a. a \<noteq> b + 8 \<and> a \<noteq> b + 12 \<longrightarrow> ram t a = ram s a)"
proof -
  let ?z = "bucket_dir ! i"
  let ?t = "set_refcnt b (desc_refcnt s b + 1) (set_ram (b + 8) (ram s f) s)"
  have len: "len \<le> ?z" "i < 9" using serve by (auto simp: serving_def search_Some_iff)
  have B: "page_aligned p" "16 dvd unat b" "unat b div 4096 \<noteq> unat p div 4096" "desc_page s b = p"
    "desc_freeptr s b = f" "lchain (ram s) (ram s f) fs" "distinct (f # fs)" "set (f # fs) \<subseteq> objects p ?z"
    "unat (desc_refcnt s b) + length (f # fs) = 4096 div unat ?z"
    using bk by (auto simp: bucket_def)
  have run: "malloc len n s = Done f ?t" using malloc_exec [OF serve fuel] take_object_exec [of b n s] B(5) by simp
  have ram: "ram ?t a = ram s a" if "a \<noteq> b + 8 \<and> a \<noteq> b + 12" for a using that by (simp add: set_refcnt_def set_ram_def)
  have obj: "ram ?t a = ram s a" if "a \<in> objects p ?z" for a
    using ram objects_apart [OF bk that, of 8] objects_apart [OF bk that, of 12] by simp
  have "lchain (ram ?t) (ram s f) fs = lchain (ram s) (ram s f) fs" by (rule lchain_cong) (use obj B(8) in auto)
  moreover have "desc_freeptr ?t b = ram s f" "desc_page ?t b = p" using B(4) by (simp_all add: set_refcnt_def set_ram_def)
  moreover have "unat ?z \<in> {16, 32, 64, 128, 256, 512, 1024, 2048, 4096}"
    using len(2) by (auto simp: bucket_dir_def nth_Cons split: nat.split)
  then have "4096 div unat ?z \<le> 256" by auto
  then have "unat (desc_refcnt s b) < 256" using B(9) by simp
  then have "unat (desc_refcnt s b + 1) = unat (desc_refcnt s b) + 1" by (simp add: unat_word_ariths)
  ultimately have "bucket ?t b p ?z fs" using B by (simp add: bucket_def refcnt_roundtrip)
  then show ?thesis using run ram len B by auto
qed

text \<open>Fields of descriptors at different offsets are different words.\<close>

lemma fields_apart:
  fixes b d :: u32
  assumes "16 dvd unat b" "16 dvd unat d" "j < 16" "k < 16" "j \<noteq> k"
  shows "d + word_of_nat j \<noteq> b + word_of_nat k"
proof -
  have off: "unat (c + word_of_nat l) mod 16 = l" if "16 dvd unat c" "l < 16" for c :: u32 and l
  proof -
    have "unat (c + word_of_nat l) = (unat c + l) mod 4294967296" using that(2) by (simp add: unat_word_ariths unat_of_nat)
    then have "unat (c + word_of_nat l) mod 16 = (unat c + l) mod 16"
      using mod_mod_cancel [of 16 4294967296 "unat c + l"] by simp
    then show ?thesis using that by (auto simp: dvd_def)
  qed
  show ?thesis using off [OF assms(2,3)] off [OF assms(1,4)] assms(5) by metis
qed

text \<open>
  \<open>known s i p pre post D\<close>: the descriptors \<open>D j\<close> of the chains below class \<open>i\<close> and those of the
  chain of class \<open>i\<close> around the one with the page \<open>p\<close> are aligned, and no other descriptor
  \<open>free_s\<close> looks at has the page.
\<close>

definition known :: "kstate \<Rightarrow> nat \<Rightarrow> u32 \<Rightarrow> u32 list \<Rightarrow> u32 list \<Rightarrow> (nat \<Rightarrow> u32 list) \<Rightarrow> bool" where
  "known s i p pre post D \<longleftrightarrow>
     (\<forall>j<i. lchain (desc_next s) (bucket_chain s j) (D j) \<and> (\<forall>d\<in>set (D j). 16 dvd unat d \<and> desc_page s d \<noteq> p)) \<and>
     (\<forall>d\<in>set (pre @ post). 16 dvd unat d) \<and> (\<forall>d\<in>set pre. desc_page s d \<noteq> p)"

lemma find_bucket_exec:
  assumes "\<And>j. j \<in> set is \<Longrightarrow> lchain (desc_next s) (bucket_chain s j) (D j) \<and> (\<forall>d\<in>set (D j). desc_page s d \<noteq> p) \<and> length (D j) < n"
    "lchain (desc_next s) (bucket_chain s i) (pre @ b # post)" "\<And>d. d \<in> set pre \<Longrightarrow> desc_page s d \<noteq> p" "desc_page s b = p" "length pre < n"
    "\<And>j. j \<in> set (is @ [i]) \<Longrightarrow> \<not> bucket_dir ! j <s sz"
  shows "find_bucket p sz (is @ i # js) n s = Done (i, last (0 # pre), b) s"
  using assms(1,6)
proof (induction "is")
  case Nil
  have "b \<noteq> 0" using lchain_nonzero [OF assms(2)] by simp
  moreover have "find_desc (\<lambda>s b. desc_page s b = p) (bucket_chain s i) n s = Done (last (0 # pre), b) s"
    by (rule find_desc_found [OF assms(2)]) (use assms in auto)
  ultimately show ?case using Nil by (simp add: bind_exec gets_exec ret_exec)
next
  case (Cons j "is")
  have "find_desc (\<lambda>s b. desc_page s b = p) (bucket_chain s j) n s = Done (last (0 # D j), 0) s"
    by (rule find_desc_none) (use Cons.prems(1) [of j] in auto)
  moreover have "find_bucket p sz (is @ i # js) n s = Done (i, last (0 # pre), b) s" by (rule Cons.IH) (use Cons.prems in auto)
  ultimately show ?case using Cons.prems(2) [of j] by (simp add: bind_exec gets_exec)
qed

lemma bucket_dir_nonneg: "i < 9 \<Longrightarrow> \<not> bucket_dir ! i <s 0"
  by (auto simp: bucket_dir_def nth_Cons word_sless_alt split: nat.split)

text \<open>
  C34: Releasing an object just allocated restores the heap exactly: in a bucket that keeps other
  objects in use, \<open>malloc\<close> followed by \<open>free\<close> of its result returns in the state it started
  from, every word of memory included.
\<close>

theorem malloc_free_identity:
  assumes serve: "serving s len i pre b post" and bk: "bucket s b p (bucket_dir ! i) (f # fs)"
    and kn: "known s i p pre post D" and fuel: "length pre < n" "\<And>j. j < i \<Longrightarrow> length (D j) < n" and others: "desc_refcnt s b \<noteq> 0"
  shows "bindp (malloc len n s) (\<lambda>obj. free_s obj 0 n) = Done () s"
proof -
  let ?t = "set_refcnt b (desc_refcnt s b + 1) (set_ram (b + 8) (ram s f) s)"
  have B: "16 dvd unat b" "desc_page s b = p" "desc_freeptr s b = f" "f \<in> objects p (bucket_dir ! i)" "page_aligned p"
    using bk by (auto simp: bucket_def)
  have i: "i < 9" "lchain (desc_next s) (bucket_chain s i) (pre @ b # post)" using serve by (auto simp: serving_def search_Some_iff)
  have run: "malloc len n s = Done f ?t" using malloc_exec [OF serve fuel(1)] take_object_exec [of b n s] B(3) by simp
  have ram: "ram ?t a = ram s a" if "a \<noteq> b + 8 \<and> a \<noteq> b + 12" for a using that by (simp add: set_refcnt_def set_ram_def)
  have f: "ram ?t f = ram s f" using ram objects_apart [OF bk B(4), of 8] objects_apart [OF bk B(4), of 12] by simp
  have desc: "ram ?t d = ram s d" "ram ?t (d + 4) = ram s (d + 4)" if "16 dvd unat d" for d
    using ram fields_apart [OF B(1) that, of 0 8] fields_apart [OF B(1) that, of 0 12]
      fields_apart [OF B(1) that, of 4 8] fields_apart [OF B(1) that, of 4 12] by simp_all
  have chain: "lchain (desc_next ?t) c ds = lchain (desc_next s) c ds" if "\<forall>d\<in>set ds. 16 dvd unat d" for c ds
    by (rule lchain_cong) (use desc that in auto)
  have bc: "bucket_chain ?t = bucket_chain s" by (simp add: set_refcnt_def set_ram_def)
  have upto: "[0..<9] = [0..<i] @ i # [Suc i..<9]"
    using i(1) upt_add_eq_append [of 0 i "9 - i"] upt_conv_Cons [OF i(1)] by simp
  have "find_bucket p 0 [0..<9] n ?t = Done (i, last (0 # pre), b) ?t" unfolding upto
  proof (rule find_bucket_exec)
    show "lchain (desc_next ?t) (bucket_chain ?t j) (D j) \<and> (\<forall>d\<in>set (D j). desc_page ?t d \<noteq> p) \<and> length (D j) < n" if "j \<in> set [0..<i]" for j
      using kn fuel(2) that chain [of "D j"] desc(1) unfolding bc by (auto simp: known_def)
    show "lchain (desc_next ?t) (bucket_chain ?t i) (pre @ b # post)" unfolding bc using i(2) chain kn B(1) by (simp add: known_def)
    show "desc_page ?t d \<noteq> p" if "d \<in> set pre" for d using kn that desc(1) by (simp add: known_def)
    show "desc_page ?t b = p" using desc(1) [OF B(1)] B(2) by simp
    show "\<not> bucket_dir ! j <s 0" if "j \<in> set ([0..<i] @ [i])" for j using bucket_dir_nonneg that i(1) by auto
  qed (rule fuel(1))
  moreover have "f AND 0xfffff000 = p" by (rule page_of_object(2) [OF B(5,4)])
  moreover have "set_ram f (desc_freeptr ?t b) ?t = ?t" using f by (simp add: set_ram_def set_refcnt_def fun_upd_idem)
  moreover have "set_refcnt b (desc_refcnt (set_ram (b + 8) f ?t) b - 1) (set_ram (b + 8) f ?t) = s"
  proof -
    have comm: "set_ram (b + 8) f (set_refcnt b v u) = set_refcnt b v (set_ram (b + 8) f u)" for v u
      by (simp add: set_ram_def set_refcnt_def fun_upd_twist)
    have "set_ram (b + 8) f (set_ram (b + 8) (ram s f) s) = s" using B(3) by (simp add: set_ram_def fun_upd_idem)
    then show ?thesis unfolding comm refcnt_roundtrip by (simp add: refcnt_roundtrip)
  qed
  ultimately have "free_s f 0 n ?t = Done () s" using others by (simp add: free_s_def bind_exec seq_exec modify_exec gets_exec whenk_exec)
  then show ?thesis by (simp add: run)
qed

text \<open>A heap with one bucket of two objects of 2048 bytes, of which the first is free.\<close>

definition half_full :: kstate where
  "half_full = boot_state\<lparr>ram := (\<lambda>_. 0)(0x1000 := 0x2000, 0x1008 := 0x2000, 0x100c := 1),
     bucket_chain := (\<lambda>_. 0)(7 := 0x1000)\<rparr>"

lemma half_full_serving: "serving half_full 2000 7 [] 0x1000 []"
  by (simp add: serving_def search_def bucket_dir_def half_full_def upt_rec)

lemma half_full_bucket: "bucket half_full 0x1000 0x2000 (bucket_dir ! 7) [0x2000]"
proof -
  have "0x2000 \<in> objects 0x2000 2048" unfolding objects_def by (rule CollectI, rule exI [of _ 0]) simp
  then show ?thesis by (simp add: bucket_def half_full_def bucket_dir_def desc_refcnt_def page_aligned_def)
qed

lemma malloc_takes_object_witness:
  "\<exists>t. malloc 2000 1 half_full = Done 0x2000 t \<and> bucket t 0x1000 0x2000 2048 []"
  using malloc_takes_object [OF half_full_serving half_full_bucket, of 1] by (auto simp: bucket_dir_def)

lemma malloc_free_identity_witness:
  "bindp (malloc 2000 1 half_full) (\<lambda>obj. free_s obj 0 1) = Done () half_full"
proof -
  have "known half_full 7 0x2000 [] [] (\<lambda>_. [])" by (simp add: known_def half_full_def)
  moreover have "desc_refcnt half_full 0x1000 \<noteq> 0" by (simp add: half_full_def desc_refcnt_def)
  ultimately show ?thesis using malloc_free_identity [OF half_full_serving half_full_bucket, of "\<lambda>_. []" 1] by simp
qed

end
