(* ===== verification/Spec2Isabelle.thy ===== *)
theory Spec2Isabelle
  imports Interleaving Argv Inodes Zones Tty_Line Delivery Uprint Shell Mktime Stringlib Buckets
begin

text \<open>
  Verification of the Linux 0.11 kernel in its port to 32-bit RISC-V, \<^verbatim>\<open>src/linux-0.11\<close>, with the
  tool that builds its root file system and its shell.

  \<^bold>\<open>The program and its model.\<close> The kernel is one C program in which tasks share all data. A task runs until
  it sleeps; interrupts are taken at its boundaries. The model follows this:
  \<^item> \<open>Prelude\<close> has the machine types (a C \<open>int\<close>, \<open>long\<close> or pointer is a 32-bit word, signed comparisons are those of
    words) and the control structure as a resumption monad: a piece of code gets fuel and a state and returns
    (\<open>Done\<close>), sleeps (\<open>Sleep\<close>, continued by any state the other tasks leave), ends the task
    (\<open>Exit\<close>), stops the kernel (\<open>Panic\<close>) or does something without a meaning in C such as
    following a null pointer (\<open>Fault\<close>). Loops that C does not bound get fuel, and theorems state how much is enough.
  \<^item> \<open>KState\<close> has the structures of \<^verbatim>\<open>include/linux\<close> as records and the global variables as the record \<open>kstate\<close>.

  \<^bold>\<open>Components\<close>, each with the theories of its operations and of its properties:
  \<^item> Memory management (\<^verbatim>\<open>mm/memory.c\<close>): \<open>Memory\<close>; \<open>Allocator\<close> has the contract of the page allocator as
    a locale and its interpretation, \<open>Address_Space\<close> the tree of page tables: copy-on-write duplication, unsharing,
    mapping, verification of user buffers and release are exact.
  \<^item> Scheduler, wait queues, timers (\<^verbatim>\<open>kernel/sched.c\<close>): \<open>Sched\<close>, with the choice of the best task and
    the exact condition under which \<open>schedule\<close> loops for ever.
  \<^item> Block devices (\<^verbatim>\<open>kernel/blk_drv\<close>): \<open>Blk\<close>, the request queue with its elevator and the ramdisk.
  \<^item> Buffer cache (\<^verbatim>\<open>fs/buffer.c\<close>): \<open>Buffer\<close> and \<open>Sync\<close>; \<open>Linked\<close> (rings and lists over tables) and
    \<open>Cache\<close> show the invariant and that reading through the cache is transparent. \<open>getblk\<close> and \<open>sync_dev\<close> call each
    other; the depth is bounded by the fuel, and the theorems need depth one.
  \<^item> File system (\<^verbatim>\<open>fs\<close>): \<open>Blockdata\<close> (layout of blocks), \<open>Bitmap\<close>, \<open>Inode\<close>, \<open>Super\<close>, \<open>Namei\<close>,
    \<open>Dirops\<close>, \<open>Files\<close>, \<open>Open\<close>, \<open>Exec\<close>; \<open>Pool\<close> is the contract of a pool of numbers, which \<open>Zones\<close> interprets
    on the bitmaps, where block allocation is shown correct. \<open>Reading\<close> follows \<open>sys_read\<close> on a file through the zone
    tables and the cache into the memory of the task: it delivers the bytes of the file; \<open>Inodes\<close> shows that inodes are
    stored in their place on the disk and found there again.
  \<^item> Terminals (\<^verbatim>\<open>kernel/chr_drv\<close>): \<open>Tty\<close>, \<open>Tty_Ioctl\<close>, \<open>Ctype\<close>; \<open>Fifo\<close> is the contract of a bounded
    queue, \<open>Tty_Line\<close> its interpretation and the proof that the line discipline is a line editor.
  \<^item> Processes, signals, traps (\<^verbatim>\<open>kernel\<close>): \<open>Process\<close>, \<open>Signals\<close>, \<open>Trap\<close>; \<open>Tasks\<close> (process numbers,
    identities, \<open>kill\<close>), \<open>Delivery\<close> (signal handlers and the return from them), \<open>Window\<close> (a
    window of mapped user memory, its words and bytes), \<open>Argv\<close> (the stack that \<open>exec\<close> builds) and \<open>Fork\<close>, where the allocator, the
    address spaces and the tables of files and inodes meet in the whole system call.
  \<^item> Start (\<^verbatim>\<open>init/main.c\<close>): \<open>Start\<close>; the start establishes the invariants the other theorems assume, and
    \<open>Mount\<close> runs it through block layer, cache and inode table to a mounted root, on any image with a sound super
    block and in particular on those that \<open>mkfs\<close> writes.
  \<^item> The kernel as a whole: \<open>Judgement\<close> is a rely/guarantee judgement on resumptions, a locale with the rules
    for the control structure. \<open>Descriptors\<close> has the invariant of file descriptors and process numbers, what a task owns
    of it and what the others leave alone, and interprets the locale on them; \<open>Steady\<close>, \<open>Steady_Fs\<close> and
    \<open>Steady_Calls\<close> show that the code leaves it alone, \<open>Descriptor_Calls\<close> and \<open>Descriptor_Tasks\<close> that the calls
    that open, copy and close descriptors or create and end tasks keep it, up to the trap handler. \<open>Interleaving\<close> is the
    step relation of the running system: tasks in user mode trap with any registers, a task that sleeps hands the
    processor to the one \<open>schedule\<close> chose. The invariant holds in all its reachable configurations. A run that ends
    without fuel, in a fault or a panic has no further step, so nothing is claimed after it.
  \<^item> Library code: \<open>Strings\<close> and \<open>Stringlib\<close> (\<^verbatim>\<open>include/string.h\<close>), \<open>Vsprintf\<close> and \<open>Printing\<close>
    (\<^verbatim>\<open>kernel/vsprintf.c\<close>), \<open>Malloc\<close> and \<open>Buckets\<close> (\<^verbatim>\<open>lib/malloc.c\<close>), \<open>Mktime\<close> (\<^verbatim>\<open>kernel/mktime.c\<close>).
  \<^item> Outside of the kernel: \<open>Mkfs\<close> models \<^verbatim>\<open>tools/mkfs.c\<close>, and \<open>Rootfs\<close> shows that the definitions with which
    the kernel reads a disk find in its image what was put there; \<open>Uprint\<close> (\<^verbatim>\<open>user/uprint.c\<close>) prints what
    \<open>vsprintf\<close> would; \<open>Shell\<close> (\<^verbatim>\<open>user/sh.c\<close>) stays inside its arrays unless a line runs a program
    with eight words or more, which leaves no room for the end of its argument vector. These are plain
    functions; undefined behaviour is \<open>None\<close>, and the endless loop of the shell has fuel, for every amount of which the
    theorem holds.

  \<^bold>\<open>Parameters.\<close> What is not C code of the repository is an argument: bytes read from device ports, timer functions,
  padding bytes copied to user memory, addresses the linker provides, the address of \<open>ret_from_trap\<close>, and, for
  the shell, the system behind the \<^verbatim>\<open>ecall\<close> instruction.

  \<^bold>\<open>Not modelled.\<close> The assembly (\<^verbatim>\<open>boot\<close>, \<^verbatim>\<open>kernel/trap.S\<close>, \<^verbatim>\<open>user/crt0.S\<close>): its effect is the trap frame
  and the point where a task sleeps. Messages of \<open>printk\<close>. Disabling of interrupts, which has no effect where a task runs
  until it sleeps. \<open>init\<close> and \<open>shell\<close> of \<^verbatim>\<open>init/main.c\<close>, which run system call stubs in kernel mode. The
  drivers \<^verbatim>\<open>hd.c\<close>, \<^verbatim>\<open>floppy.c\<close> and \<^verbatim>\<open>serial.c\<close> and the tool \<^verbatim>\<open>build.c\<close>, which program PC
  hardware and are not part of the RISC-V build. The test programs in \<^verbatim>\<open>user\<close>.
\<close>

end
